(* ===== verification/Tadis_Base.thy ===== *)
theory Tadis_Base
  imports Main "HOL-Library.Word"
begin

text \<open>
  The prelude: the failures a run of the program can end in, the sequencing of fallible steps,
  blocks of bytes (\<open>memcpy\<close> into and out of a buffer), and the little-endian layout of machine
  words, which is how \<open>memcpy\<close> of a \<open>size_t\<close> or an \<open>int\<close> lays it out on the machine the
  project is built for. The lemmas other theories rewrite with are collected in \<open>memory_simps\<close>
  (blocks) and \<open>res_simps\<close> (fallible steps).
\<close>

unbundle bit_operations_syntax

named_theorems memory_simps
named_theorems res_simps

section \<open>Failures\<close>

text \<open>
  The ways a run stops without a result: a failed \<open>assert\<close> (the build never defines
  \<open>NDEBUG\<close>), a memory access outside its object, a null pointer, an \<open>any_cast\<close> to the
  wrong type, an uncaught exception of the standard library, a signed overflow, a write whose
  seek failed (it would land wherever the previous operation left the file), a conversion of a
  floating-point number that does not fit the integer type, a read of a union member that is not the
  one that was written. \<open>Out_Of_Fuel\<close> is no failure of the program: it marks that the bound of a
  recursion of the model was too small, and where it is used a theorem says which bound is enough.
\<close>

datatype fault =
    Assert_Failed
  | Out_Of_Bounds
  | Null_Pointer
  | Bad_Any_Cast
  | Uncaught_Exception
  | Signed_Overflow
  | Bad_Seek
  | Bad_Conversion
  | Wrong_Member
  | Out_Of_Fuel

type_synonym 'a res = "fault + 'a"

definition andthen :: "'e + 'a \<Rightarrow> ('a \<Rightarrow> 'e + 'b) \<Rightarrow> 'e + 'b" where
  "andthen m f = (case m of Inl e \<Rightarrow> Inl e | Inr x \<Rightarrow> f x)"

lemma andthen_Inl [simp]: "andthen (Inl e) f = Inl e"
  by (simp add: andthen_def)

lemma andthen_Inr [simp]: "andthen (Inr x) f = f x"
  by (simp add: andthen_def)

lemma andthen_eq_Inr_iff [res_simps]:
  "andthen m f = Inr y \<longleftrightarrow> (\<exists>x. m = Inr x \<and> f x = Inr y)"
  by (cases m) auto

lemma andthen_eq_Inl_iff [res_simps]:
  "andthen m f = Inl e \<longleftrightarrow> m = Inl e \<or> (\<exists>x. m = Inr x \<and> f x = Inl e)"
  by (cases m) auto

lemma andthen_assoc: "andthen (andthen m f) g = andthen m (\<lambda>x. andthen (f x) g)"
  by (cases m) auto

lemma andthen_cong [fundef_cong]:
  "m = m' \<Longrightarrow> (\<And>x. m' = Inr x \<Longrightarrow> f x = f' x) \<Longrightarrow> andthen m f = andthen m' f'"
  by (cases m') auto

text \<open>A loop over a list whose body may fail.\<close>

fun each :: "('a \<Rightarrow> 's \<Rightarrow> 'e + 's) \<Rightarrow> 'a list \<Rightarrow> 's \<Rightarrow> 'e + 's" where
  "each f [] s = Inr s"
| "each f (x # xs) s = andthen (f x s) (each f xs)"

lemma each_append: "each f (xs @ ys) s = andthen (each f xs s) (each f ys)"
  by (induction xs arbitrary: s) (auto simp: andthen_def split: sum.splits)

definition require :: "bool \<Rightarrow> fault \<Rightarrow> unit res" where
  "require b e = (if b then Inr () else Inl e)"

lemma require_eq_Inr [simp]: "require b e = Inr u \<longleftrightarrow> b"
  by (simp add: require_def)

lemma require_True [simp]: "require True e = Inr ()"
  by (simp add: require_def)

lemma require_False [simp]: "require False e = Inl e"
  by (simp add: require_def)

section \<open>Loop indices\<close>

lemma all_from_split: "(\<forall>j\<ge>i. P j) \<longleftrightarrow> P i \<and> (\<forall>j\<ge>Suc i. P j)" for i :: nat
  by (metis Suc_leD Suc_leI order_le_less)

section \<open>Machine types\<close>

type_synonym byte = "8 word"
type_synonym size_t = "64 word"
type_synonym bytes = "8 word list"

text \<open>\<open>isspace\<close> in the classic locale.\<close>

definition is_space :: "char \<Rightarrow> bool" where
  "is_space c \<longleftrightarrow> c \<in> {CHR 0x20, CHR 0x09, CHR 0x0A, CHR 0x0B, CHR 0x0C, CHR 0x0D}"

section \<open>Blocks of memory\<close>

definition blit :: "nat \<Rightarrow> 'a list \<Rightarrow> 'a list \<Rightarrow> 'a list" where
  "blit off src dst = take off dst @ src @ drop (off + length src) dst"

definition chunk :: "nat \<Rightarrow> nat \<Rightarrow> 'a list \<Rightarrow> 'a list" where
  "chunk off n xs = take n (drop off xs)"

text \<open>\<open>memcpy\<close> towards a buffer and out of a buffer; outside the buffer it is undefined.\<close>

definition store :: "nat \<Rightarrow> 'a list \<Rightarrow> 'a list \<Rightarrow> 'a list res" where
  "store off src dst =
     (if off + length src \<le> length dst then Inr (blit off src dst) else Inl Out_Of_Bounds)"

definition load :: "nat \<Rightarrow> nat \<Rightarrow> 'a list \<Rightarrow> 'a list res" where
  "load off n xs = (if off + n \<le> length xs then Inr (chunk off n xs) else Inl Out_Of_Bounds)"

lemma length_blit [simp]:
  "off + length src \<le> length dst \<Longrightarrow> length (blit off src dst) = length dst"
  by (simp add: blit_def)

lemma blit_Nil [simp]: "off \<le> length dst \<Longrightarrow> blit off [] dst = dst"
  by (simp add: blit_def)

lemma length_chunk [simp]: "off + n \<le> length xs \<Longrightarrow> length (chunk off n xs) = n"
  by (simp add: chunk_def)

lemma nth_blit [memory_simps]:
  "off + length src \<le> length dst \<Longrightarrow> i < length dst \<Longrightarrow>
   blit off src dst ! i =
     (if off \<le> i \<and> i < off + length src then src ! (i - off) else dst ! i)"
  by (auto simp: blit_def nth_append)

lemma nth_chunk [memory_simps]:
  "off + n \<le> length xs \<Longrightarrow> i < n \<Longrightarrow> chunk off n xs ! i = xs ! (off + i)"
  by (simp add: chunk_def)

lemma chunk_blit_same [simp]:
  "off + length src \<le> length dst \<Longrightarrow> n = length src \<Longrightarrow> chunk off n (blit off src dst) = src"
  by (simp add: chunk_def blit_def)

lemma chunk_blit_other:
  assumes "off + length src \<le> length dst" "o2 + n \<le> length dst"
    and "o2 + n \<le> off \<or> off + length src \<le> o2"
  shows "chunk o2 n (blit off src dst) = chunk o2 n dst"
proof (rule nth_equalityI)
  show "length (chunk o2 n (blit off src dst)) = length (chunk o2 n dst)"
    using assms by simp
next
  fix i
  assume "i < length (chunk o2 n (blit off src dst))"
  then have "i < n" using assms by simp
  then show "chunk o2 n (blit off src dst) ! i = chunk o2 n dst ! i"
    using assms by (auto simp: memory_simps)
qed

lemma chunk_append_same [simp]: "n = length ys \<Longrightarrow> chunk (length xs) n (xs @ ys @ zs) = ys"
  by (simp add: chunk_def)

lemma store_eq_Inr [res_simps]:
  "store off src dst = Inr b \<longleftrightarrow> off + length src \<le> length dst \<and> b = blit off src dst"
  by (auto simp: store_def)

lemma load_eq_Inr [res_simps]:
  "load off n xs = Inr b \<longleftrightarrow> off + n \<le> length xs \<and> b = chunk off n xs"
  by (auto simp: load_def)

end
