(* ===== verification/Common.thy ===== *)
theory Common
  imports Tadis_Base
begin

text \<open>
  The shared helpers of \<open>src/common\<close>: the result codes and their messages (\<open>rc.hpp\<close>), the
  string utilities and file names (\<open>utility.hpp\<close>) and its \<open>Spliter\<close>, which cuts an input at a
  set of characters.
\<close>

section \<open>Result codes\<close>

datatype rc =
    INTERNAL_ERROR
  | SYNTAX_ERROR
  | KEY_NOT_EXIST
  | COLUMN_NOT_EXIST
  | JSON_DESERIALIZATION_ERROR
  | OUT_OF_RANGE
  | PAGE_IS_DELETED
  | RECORD_IS_DELETED
  | DB_OPEN_TABLE_ERROR
  | UNINIT
  | TABLE_ALREADY_EXISTED
  | TABLE_NOT_EXISTED
  | FETCH_PAGE_ERROR
  | RECORD_TOO_LARGE
  | AMBIGUOUS_COLUMN_NAME
  | COLUMN_TYPE_MISMATCH
  | SUCCESS

definition rc_success :: "rc \<Rightarrow> bool" where
  "rc_success r \<longleftrightarrow> r = SUCCESS"

lemma rc_success_iff [simp]: "rc_success r \<longleftrightarrow> r = SUCCESS"
  by (simp add: rc_success_def)

text \<open>
  The table of messages as the initialiser list has it. A map built from a list with a repeated
  key keeps the first entry, as \<open>map_of\<close> does, and \<open>strs[rc]\<close> of a missing key is the empty
  string.
\<close>

definition rc_strs :: "(rc \<times> string) list" where
  "rc_strs =
     [(INTERNAL_ERROR, ''Internal Error''),
      (INTERNAL_ERROR, ''Success''),
      (SYNTAX_ERROR, ''Syntax error''),
      (KEY_NOT_EXIST, ''Key is not existed''),
      (COLUMN_NOT_EXIST, ''Column is not existed''),
      (JSON_DESERIALIZATION_ERROR, ''Json deserialization error''),
      (OUT_OF_RANGE, ''Out of range''),
      (PAGE_IS_DELETED, ''Page has been deleted''),
      (RECORD_IS_DELETED, ''Record has been deleted''),
      (DB_OPEN_TABLE_ERROR, ''Db open table error''),
      (UNINIT, ''Not init''),
      (TABLE_ALREADY_EXISTED, ''Table is already existed''),
      (TABLE_NOT_EXISTED, ''Table is not existed''),
      (FETCH_PAGE_ERROR, ''Fetch page error''),
      (RECORD_TOO_LARGE, ''Record is too large''),
      (AMBIGUOUS_COLUMN_NAME, ''Ambiguous column name''),
      (COLUMN_TYPE_MISMATCH, ''Column type mismatch'')]"

definition rc2str :: "rc \<Rightarrow> string" where
  "rc2str r = (case map_of rc_strs r of Some s \<Rightarrow> s | None \<Rightarrow> [])"

lemma rc2str_empty_iff: "rc2str r = [] \<longleftrightarrow> r = SUCCESS"
  by (cases r) (simp_all add: rc2str_def rc_strs_def)

section \<open>Strings\<close>

definition char_up :: "char \<Rightarrow> char" where
  "char_up ch =
     (if (of_char ch :: nat) \<ge> of_char CHR ''a'' \<and> (of_char ch :: nat) \<le> of_char CHR ''z''
      then char_of ((of_char ch :: nat) - of_char CHR ''a'' + of_char CHR ''A'') else ch)"

definition to_upper :: "string \<Rightarrow> string" where
  "to_upper s = map char_up s"

lemma length_to_upper [simp]: "length (to_upper s) = length s"
  by (simp add: to_upper_def)

definition string2vector :: "string \<Rightarrow> bytes" where
  "string2vector s = map of_char s"

definition vector2string :: "bytes \<Rightarrow> string" where
  "vector2string v = map (\<lambda>b. char_of (unat b)) v"

lemma unat_of_char [simp]: "unat (of_char c :: byte) = of_char c"
proof -
  have "unat (of_nat (of_char c) :: byte) = of_char c mod 2 ^ LENGTH(8)"
    by (rule unat_of_nat)
  then show ?thesis by (simp add: of_nat_of_char)
qed

lemma vector2string_string2vector [simp]: "vector2string (string2vector s) = s"
  by (simp add: vector2string_def string2vector_def comp_def)

definition make_meta_filename :: "string \<Rightarrow> string \<Rightarrow> string" where
  "make_meta_filename d table_name =
     (if d \<noteq> [] then d @ ''/'' else []) @ ''table_'' @ table_name @ ''_meta.json''"

definition make_data_filename :: "string \<Rightarrow> string \<Rightarrow> string" where
  "make_data_filename d table_name =
     (if d \<noteq> [] then d @ ''/'' else []) @ ''table_'' @ table_name @ ''_data.db''"

section \<open>The splitter\<close>

record spliter =
  sp_input :: string
  sp_chars :: "char list"
  sp_p :: nat

definition spliter_init :: "string \<Rightarrow> spliter \<Rightarrow> spliter" where
  "spliter_init input s = s\<lparr>sp_input := input, sp_p := 0\<rparr>"

definition add_split_ch :: "char \<Rightarrow> spliter \<Rightarrow> spliter" where
  "add_split_ch ch s = s\<lparr>sp_chars := List.insert ch (sp_chars s)\<rparr>"

definition spliter_eof :: "spliter \<Rightarrow> bool" where
  "spliter_eof s \<longleftrightarrow> length (sp_input s) \<le> sp_p s"

text \<open>The loop of \<open>next\<close> runs up to the first splitting character or the end of the input.\<close>

definition spliter_next :: "spliter \<Rightarrow> string \<times> spliter" where
  "spliter_next s =
     (let rest = drop (sp_p s) (sp_input s);
          res = takeWhile (\<lambda>ch. ch \<notin> set (sp_chars s)) rest;
          stop = sp_p s + length res in
      if stop < length (sp_input s) then (res, s\<lparr>sp_p := stop + 1\<rparr>) else (res, s\<lparr>sp_p := stop\<rparr>))"

lemma spliter_next_split:
  assumes "sp_p s \<le> length (sp_input s)" "spliter_next s = (res, s')"
  shows "sp_p s' \<le> length (sp_input s')" "sp_input s' = sp_input s" "sp_chars s' = sp_chars s"
    and "set res \<inter> set (sp_chars s) = {}"
    and "drop (sp_p s) (sp_input s) = res @ drop (sp_p s + length res) (sp_input s)"
    and "\<not> spliter_eof s \<Longrightarrow> sp_p s < sp_p s'"
proof -
  let ?res = "takeWhile (\<lambda>ch. ch \<notin> set (sp_chars s)) (drop (sp_p s) (sp_input s))"
  have len: "sp_p s + length ?res \<le> length (sp_input s)"
    using assms(1) length_takeWhile_le [of _ "drop (sp_p s) (sp_input s)"]
    by (metis le_diff_conv2 length_drop add.commute)
  have res: "res = ?res" using assms(2) by (auto simp: spliter_next_def Let_def split: if_splits)
  show "sp_p s' \<le> length (sp_input s')" "sp_input s' = sp_input s" "sp_chars s' = sp_chars s"
    using assms(2) len by (auto simp: spliter_next_def Let_def split: if_splits)
  show "set res \<inter> set (sp_chars s) = {}"
    unfolding res by (auto dest: set_takeWhileD)
  show "drop (sp_p s) (sp_input s) = res @ drop (sp_p s + length res) (sp_input s)"
    unfolding res by (metis (no_types, lifting) add.commute append_eq_conv_conj drop_drop takeWhile_eq_take append_take_drop_id)
  show "\<not> spliter_eof s \<Longrightarrow> sp_p s < sp_p s'"
    using assms(2) len by (auto simp: spliter_next_def spliter_eof_def Let_def split: if_splits)
qed

end
