(* ===== verification/Bitmap.thy ===== *)
theory Bitmap
  imports Tadis_Base
begin

text \<open>
  \<open>BitMap\<close> of \<open>src/common/bitmap.hpp\<close>: a view of a byte buffer as an array of bits, the lowest
  bit of a byte first. The view writes through to the buffer, so an operation takes the bytes and
  returns the bytes it leaves. \<open>bm_members\<close> is the set of the positions that hold a one; the
  interface \<open>id_set\<close> states the operations on that set, and the buffer pool's page allocation
  rests on its interpretation \<open>bm\<close>.
\<close>

unbundle bit_operations_syntax

section \<open>The operations\<close>

definition bm_get :: "bytes \<Rightarrow> nat \<Rightarrow> bool res" where
  "bm_get data idx =
     (let index = idx div 8; offset = idx mod 8 in
      if index < length data
      then Inr (data ! index AND push_bit offset 1 \<noteq> 0)
      else Inl Assert_Failed)"

definition bm_set :: "bytes \<Rightarrow> nat \<Rightarrow> bool \<Rightarrow> bytes res" where
  "bm_set data idx b =
     (let index = idx div 8; offset = idx mod 8 in
      if index < length data
      then (let ch = data ! index in
            Inr (data[index := (if b then ch OR push_bit offset 1
                                else ch AND NOT (push_bit offset 1))]))
      else Inl Assert_Failed)"

definition bm_set2one :: "bytes \<Rightarrow> nat \<Rightarrow> bytes res" where
  "bm_set2one data idx = bm_set data idx True"

definition bm_set2zero :: "bytes \<Rightarrow> nat \<Rightarrow> bytes res" where
  "bm_set2zero data idx = bm_set data idx False"

text \<open>The loop both searches share; \<open>None\<close> stands for the result \<open>false\<close>.\<close>

function bm_scan :: "bytes \<Rightarrow> bool \<Rightarrow> nat \<Rightarrow> nat option res" where
  "bm_scan data b i =
     (if i < length data * 8
      then andthen (bm_get data i) (\<lambda>g. if g = b then Inr (Some i) else bm_scan data b (Suc i))
      else Inr None)"
  by pat_completeness auto
termination
  by (relation "measure (\<lambda>(data, b, i). length data * 8 - i)") auto

declare bm_scan.simps [simp del]

definition bm_first :: "bytes \<Rightarrow> bool \<Rightarrow> nat option res" where
  "bm_first data b = bm_scan data b 0"

definition bm_first_after :: "bytes \<Rightarrow> bool \<Rightarrow> nat \<Rightarrow> nat option res" where
  "bm_first_after data b cur_idx =
     (if length data * 8 \<le> cur_idx then Inr None else bm_scan data b (cur_idx + 1))"

definition byte_to_string :: "byte \<Rightarrow> string" where
  "byte_to_string ch =
     map (\<lambda>i. if ch AND push_bit i 1 \<noteq> 0 then CHR ''1'' else CHR ''0'') [0..<8] @ '' ''"

definition bm_to_string :: "bytes \<Rightarrow> string" where
  "bm_to_string data = concat (map byte_to_string data)"

section \<open>The set of the positions that hold a one\<close>

definition bm_members :: "bytes \<Rightarrow> nat set" where
  "bm_members data = {i. i < length data * 8 \<and> bit (data ! (i div 8)) (i mod 8)}"

lemma and_bit_nonzero: "(w :: 'a::len word) AND 2 ^ n \<noteq> 0 \<longleftrightarrow> n < LENGTH('a) \<and> bit w n"
proof -
  have "bit (w AND 2 ^ n) k \<longleftrightarrow> k = n \<and> n < LENGTH('a) \<and> bit w n" for k
    by (auto simp: bit_simps)
  then show ?thesis
    by (metis bit_0_eq bit_eqI bot_apply bot_bool_def)
qed

lemma bm_get_eq:
  "bm_get data i =
     (if i < length data * 8 then Inr (i \<in> bm_members data) else Inl Assert_Failed)"
proof -
  have "i div 8 < length data \<longleftrightarrow> i < length data * 8" by linarith
  then show ?thesis by (auto simp: bm_get_def Let_def bm_members_def and_bit_nonzero)
qed

lemma bm_set_shape:
  assumes "bm_set data i b = Inr data'"
  shows "length data' = length data" "i < length data * 8"
  using assms by (auto simp: bm_set_def Let_def split: if_splits)

lemma bm_set_defined: "i < length data * 8 \<Longrightarrow> \<exists>data'. bm_set data i b = Inr data'"
  by (auto simp: bm_set_def Let_def)

lemma bm_members_update:
  assumes "i div 8 < length data"
    and "\<And>k. k < 8 \<Longrightarrow> bit ch k = (if k = i mod 8 then b else bit (data ! (i div 8)) k)"
  shows "bm_members (data[i div 8 := ch]) =
           (if b then insert i (bm_members data) else bm_members data - {i})"
proof (rule set_eqI)
  fix j
  have same: "j div 8 = i div 8 \<and> j mod 8 = i mod 8 \<longleftrightarrow> j = i"
    by (metis mult_div_mod_eq)
  have i: "i < length data * 8" using assms(1) by linarith
  show "j \<in> bm_members (data[i div 8 := ch]) \<longleftrightarrow>
          j \<in> (if b then insert i (bm_members data) else bm_members data - {i})"
    using assms i same by (cases "j div 8 = i div 8") (auto simp: bm_members_def)
qed

lemma bm_set_members:
  assumes "bm_set data i b = Inr data'"
  shows "bm_members data' = (if b then insert i (bm_members data) else bm_members data - {i})"
proof -
  have eq: "data' = data[i div 8 := (if b then data ! (i div 8) OR 2 ^ (i mod 8)
                           else data ! (i div 8) AND NOT (2 ^ (i mod 8)))]"
    and i: "i div 8 < length data"
    using assms by (auto simp: bm_set_def Let_def split: if_splits)
  show ?thesis
    unfolding eq using i by (intro bm_members_update) (auto simp: bit_simps)
qed

lemma bm_members_push_zero [simp]: "bm_members (data @ [0]) = bm_members data"
  by (auto simp: bm_members_def nth_append)

lemma bm_members_bound: "i \<in> bm_members data \<Longrightarrow> i < length data * 8"
  by (simp add: bm_members_def)

lemma finite_bm_members [simp]: "finite (bm_members data)"
  by (rule finite_subset [of _ "{..<length data * 8}"]) (auto simp: bm_members_def)

text \<open>The search never fails and finds the least position, if there is one.\<close>

lemma bm_scan_None:
  "bm_scan data b i = Inr None \<longleftrightarrow>
     (\<forall>j\<ge>i. j < length data * 8 \<longrightarrow> (j \<in> bm_members data) \<noteq> b)"
proof (induction data b i rule: bm_scan.induct)
  case (1 data b i)
  show ?case
  proof (cases "i < length data * 8 \<and> (i \<in> bm_members data) \<noteq> b")
    case True
    then have "bm_scan data b i = bm_scan data b (Suc i)"
      by (subst bm_scan.simps) (simp add: bm_get_eq)
    with True "1.IH" [of "i \<in> bm_members data"] show ?thesis
      by (subst all_from_split) (simp add: bm_get_eq)
  next
    case False
    then show ?thesis by (subst bm_scan.simps) (auto simp: bm_get_eq)
  qed
qed

lemma bm_scan_Some:
  "bm_scan data b i = Inr (Some k) \<longleftrightarrow>
     i \<le> k \<and> k < length data * 8 \<and> (k \<in> bm_members data) = b \<and>
     (\<forall>j\<ge>i. j < k \<longrightarrow> (j \<in> bm_members data) \<noteq> b)"
proof (induction data b i rule: bm_scan.induct)
  case (1 data b i)
  show ?case
  proof (cases "i < length data * 8 \<and> (i \<in> bm_members data) \<noteq> b")
    case True
    then have eq: "bm_scan data b i = bm_scan data b (Suc i)"
      by (subst bm_scan.simps) (simp add: bm_get_eq)
    have IH: "bm_scan data b (Suc i) = Inr (Some k) \<longleftrightarrow>
        Suc i \<le> k \<and> k < length data * 8 \<and> (k \<in> bm_members data) = b \<and>
        (\<forall>j\<ge>Suc i. j < k \<longrightarrow> (j \<in> bm_members data) \<noteq> b)"
      using True "1.IH" [of "i \<in> bm_members data"] by (simp add: bm_get_eq)
    have "i \<le> k \<and> (k \<in> bm_members data) = b \<longleftrightarrow> Suc i \<le> k \<and> (k \<in> bm_members data) = b"
      using True by (metis Suc_leD le_antisym not_less_eq_eq)
    moreover have "(\<forall>j\<ge>i. j < k \<longrightarrow> (j \<in> bm_members data) \<noteq> b) \<longleftrightarrow>
        (\<forall>j\<ge>Suc i. j < k \<longrightarrow> (j \<in> bm_members data) \<noteq> b)"
      using True by (metis Suc_leD Suc_leI order_le_less)
    ultimately show ?thesis
      unfolding eq IH by blast
  next
    case False
    then show ?thesis
      by (subst bm_scan.simps) (auto simp: bm_get_eq le_less)
  qed
qed

lemma bm_scan_total: "\<exists>r. bm_scan data b i = Inr r"
proof (induction data b i rule: bm_scan.induct)
  case (1 data b i)
  then show ?case by (subst bm_scan.simps) (auto simp: bm_get_eq)
qed

lemmas bm_search = bm_scan_None bm_scan_Some bm_first_def bm_first_after_def

section \<open>The interface: a set of ids kept in a bitmap\<close>

locale id_set =
  fixes get :: "'m \<Rightarrow> nat \<Rightarrow> 'e + bool"
    and put :: "'m \<Rightarrow> nat \<Rightarrow> bool \<Rightarrow> 'e + 'm"
    and first :: "'m \<Rightarrow> bool \<Rightarrow> 'e + nat option"
    and grow :: "'m \<Rightarrow> 'm"
    and cap :: "'m \<Rightarrow> nat"
    and members :: "'m \<Rightarrow> nat set"
  assumes get_in: "i < cap m \<Longrightarrow> get m i = Inr (i \<in> members m)"
    and put_in: "i < cap m \<Longrightarrow>
          \<exists>m'. put m i b = Inr m' \<and> cap m' = cap m \<and>
               members m' = (if b then insert i (members m) else members m - {i})"
    and first_some: "first m b = Inr (Some i) \<Longrightarrow>
          i < cap m \<and> (i \<in> members m) = b \<and> (\<forall>j<i. (j \<in> members m) \<noteq> b)"
    and first_none: "first m b = Inr None \<Longrightarrow> (\<forall>j<cap m. (j \<in> members m) \<noteq> b)"
    and first_total: "\<exists>r. first m b = Inr r"
    and grow_members: "members (grow m) = members m"
    and grow_cap: "cap m < cap (grow m)"
begin

lemma get_after_put:
  assumes "i < cap m" "j < cap m" "put m i b = Inr m'"
  shows "get m' j = Inr (if j = i then b else j \<in> members m)"
  using assms put_in [of i m b] get_in [of j m'] by auto

lemma alloc_fresh:
  assumes "first m False = Inr (Some i)" "put m i True = Inr m'"
  shows "i \<notin> members m" "members m' = insert i (members m)"
  using first_some [OF assms(1)] put_in [of i m True] assms(2) by auto

lemma full_iff: "first m False = Inr None \<longleftrightarrow> {..<cap m} \<subseteq> members m"
  by (metis first_none first_some first_total lessThan_iff option.exhaust subset_iff)

end

interpretation bm: id_set bm_get bm_set bm_first "\<lambda>data. data @ [0]" "\<lambda>data. length data * 8" bm_members
proof unfold_locales
  fix i :: nat and data :: bytes and b :: bool
  assume "i < length data * 8"
  then show "\<exists>m'. bm_set data i b = Inr m' \<and> length m' * 8 = length data * 8 \<and>
      bm_members m' = (if b then insert i (bm_members data) else bm_members data - {i})"
    by (metis bm_set_defined bm_set_members bm_set_shape(1))
qed (auto simp: bm_get_eq bm_search bm_scan_total)

end
