(* ===== verification/Lru_Replacer.thy ===== *)
theory Lru_Replacer
  imports Tadis_Base "HOL-Library.AList"
begin

text \<open>
  \<open>LruReplacer\<close> of \<open>src/storage/bufferpool/replacer.hpp\<close>. The \<open>std::list\<close> is a list of
  nodes with an identity each, because \<open>dir_\<close> holds iterators: an iterator is the node's
  identity, \<open>None\<close> is the past-the-end iterator. Erasing through an iterator that names no node
  is undefined, so it is a fault. \<open>lru_order\<close> abstracts a replacer to the list of its elements,
  the most recently put first; \<open>lru_inv\<close> ties the directory to the list.
\<close>

section \<open>State and operations\<close>

record 'a lru =
  lru_list :: "(nat \<times> 'a) list"
  lru_dir :: "('a \<times> nat option) list"
  lru_capacity :: nat
  lru_fresh :: nat

definition DEFAULT_LRU_CAPACITY :: nat where
  "DEFAULT_LRU_CAPACITY = 16"

definition lru_new :: "nat \<Rightarrow> 'a lru" where
  "lru_new cap = \<lparr>lru_list = [], lru_dir = [], lru_capacity = cap, lru_fresh = 0\<rparr>"

text \<open>\<open>std::list::erase\<close>, \<open>push_front\<close>, \<open>begin\<close> and \<open>unordered_map::emplace\<close>.\<close>

definition list_erase :: "nat option \<Rightarrow> 'a lru \<Rightarrow> 'a lru res" where
  "list_erase it s =
     (case it of
        None \<Rightarrow> Inl Out_Of_Bounds
      | Some n \<Rightarrow>
          if n \<in> set (map fst (lru_list s))
          then Inr (s\<lparr>lru_list := filter (\<lambda>p. fst p \<noteq> n) (lru_list s)\<rparr>)
          else Inl Out_Of_Bounds)"

definition list_push_front :: "'a \<Rightarrow> 'a lru \<Rightarrow> 'a lru" where
  "list_push_front t s =
     s\<lparr>lru_list := (lru_fresh s, t) # lru_list s, lru_fresh := Suc (lru_fresh s)\<rparr>"

definition list_begin :: "'a lru \<Rightarrow> nat option" where
  "list_begin s = (case lru_list s of [] \<Rightarrow> None | (n, _) # _ \<Rightarrow> Some n)"

definition dir_emplace :: "'a \<Rightarrow> nat option \<Rightarrow> 'a lru \<Rightarrow> 'a lru" where
  "dir_emplace t it s =
     (case map_of (lru_dir s) t of
        None \<Rightarrow> s\<lparr>lru_dir := AList.update t it (lru_dir s)\<rparr>
      | Some _ \<Rightarrow> s)"

definition lru_put :: "'a \<Rightarrow> 'a lru \<Rightarrow> 'a lru res" where
  "lru_put t s =
     andthen
       (case map_of (lru_dir s) t of
          Some list_iter \<Rightarrow>
            andthen (list_erase list_iter s) (\<lambda>s1. Inr (s1\<lparr>lru_dir := AList.delete t (lru_dir s1)\<rparr>))
        | None \<Rightarrow>
            if lru_capacity s = length (lru_list s)
            then (if lru_list s = [] then Inl Out_Of_Bounds
                  else Inr (s\<lparr>lru_dir := AList.delete (snd (last (lru_list s))) (lru_dir s),
                              lru_list := butlast (lru_list s)\<rparr>))
            else Inr s)
       (\<lambda>s1. let s2 = list_push_front t s1 in Inr (dir_emplace t (list_begin s2) s2))"

definition lru_touch :: "'a \<Rightarrow> 'a lru \<Rightarrow> (bool \<times> 'a lru) res" where
  "lru_touch t s =
     (case map_of (lru_dir s) t of
        Some list_iter \<Rightarrow>
          andthen (list_erase list_iter s)
            (\<lambda>s1. let s2 = s1\<lparr>lru_dir := AList.update t (list_begin s1) (lru_dir s1)\<rparr>
                  in Inr (True, list_push_front t s2))
      | None \<Rightarrow> Inr (False, s))"

definition lru_remove :: "'a \<Rightarrow> 'a lru \<Rightarrow> 'a lru res" where
  "lru_remove t s =
     (case map_of (lru_dir s) t of
        Some list_iter \<Rightarrow>
          andthen (list_erase list_iter s) (\<lambda>s1. Inr (s1\<lparr>lru_dir := AList.delete t (lru_dir s1)\<rparr>))
      | None \<Rightarrow> Inr s)"

definition lru_victim :: "'a lru \<Rightarrow> 'a option \<times> 'a lru" where
  "lru_victim s =
     (if lru_list s \<noteq> []
      then (let t = snd (last (lru_list s)) in
            (Some t, s\<lparr>lru_dir := AList.delete t (lru_dir s), lru_list := butlast (lru_list s)\<rparr>))
      else (None, s))"

section \<open>Invariant and abstraction\<close>

definition lru_order :: "'a lru \<Rightarrow> 'a list" where
  "lru_order s = map snd (lru_list s)"

definition dir_points :: "('a \<times> nat option) list \<Rightarrow> (nat \<times> 'a) list \<Rightarrow> bool" where
  "dir_points d l \<longleftrightarrow> (\<forall>t it. map_of d t = Some it \<longleftrightarrow> (\<exists>n. it = Some n \<and> (n, t) \<in> set l))"

definition lru_inv :: "'a lru \<Rightarrow> bool" where
  "lru_inv s \<longleftrightarrow>
     distinct (map fst (lru_list s)) \<and> distinct (map snd (lru_list s)) \<and>
     (\<forall>n \<in> fst ` set (lru_list s). n < lru_fresh s) \<and>
     dir_points (lru_dir s) (lru_list s) \<and>
     length (lru_list s) \<le> lru_capacity s"

definition put_order :: "nat \<Rightarrow> 'a \<Rightarrow> 'a list \<Rightarrow> 'a list" where
  "put_order cap t l =
     t # (if t \<in> set l then remove1 t l else if length l = cap then butlast l else l)"

lemma lru_inv_new [simp]: "lru_inv (lru_new cap)" "lru_order (lru_new cap) = []"
  by (auto simp: lru_inv_def lru_new_def lru_order_def dir_points_def)

lemma map_of_eqI:
  "(\<And>t it. map_of d t = Some it \<longleftrightarrow> P t it) \<Longrightarrow> map_of d t = None \<longleftrightarrow> (\<forall>it. \<not> P t it)"
  by (metis not_Some_eq)

lemma lru_dir_None:
  "lru_inv s \<Longrightarrow> map_of (lru_dir s) t = None \<longleftrightarrow> t \<notin> set (lru_order s)"
  unfolding lru_inv_def lru_order_def dir_points_def by (subst map_of_eqI) force+

lemma distinct_pairs_eq:
  assumes "distinct (map fst l)" "distinct (map snd l)" "(m, u) \<in> set l" "(n, t) \<in> set l"
  shows "m = n \<longleftrightarrow> u = t"
proof
  assume "m = n"
  then show "u = t" using assms by (metis eq_key_imp_eq_value)
next
  assume "u = t"
  then show "m = n"
    using assms inj_onD [of snd "set l" "(m, u)" "(n, t)"] by (simp add: distinct_map)
qed

lemma map_snd_filter_fst:
  "distinct (map fst l) \<Longrightarrow> distinct (map snd l) \<Longrightarrow> (n, t) \<in> set l \<Longrightarrow>
   map snd (filter (\<lambda>p. fst p \<noteq> n) l) = remove1 t (map snd l)"
proof (induction l)
  case Nil
  then show ?case by simp
next
  case (Cons p l)
  obtain m u where p: "p = (m, u)" by (cases p)
  show ?case
  proof (cases "m = n")
    case True
    with Cons.prems p have "u = t" by (force simp: image_iff)
    moreover have "filter (\<lambda>p. fst p \<noteq> n) l = l"
      using Cons.prems(1) True p by (auto simp: filter_id_conv image_iff)
    ultimately show ?thesis using p True by simp
  next
    case False
    with Cons.prems p have "(n, t) \<in> set l" "u \<noteq> t" by (auto simp: image_iff)
    with Cons p False show ?thesis by simp
  qed
qed

text \<open>Taking an element out of the list and its directory entry keeps the invariant.\<close>

lemma lru_drop_inv:
  assumes "lru_inv s" "(n, t) \<in> set (lru_list s)"
    and "s' = s\<lparr>lru_list := filter (\<lambda>p. fst p \<noteq> n) (lru_list s),
                lru_dir := AList.delete t (lru_dir s)\<rparr>"
  shows "lru_inv s'" "lru_order s' = remove1 t (lru_order s)"
proof -
  have d: "distinct (map fst (lru_list s))" "distinct (map snd (lru_list s))"
    using assms(1) by (auto simp: lru_inv_def)
  have only: "m = n \<longleftrightarrow> u = t" if "(m, u) \<in> set (lru_list s)" for m u
    using distinct_pairs_eq [OF d that assms(2)] .
  show "lru_order s' = remove1 t (lru_order s)"
    using map_snd_filter_fst [OF d assms(2)] assms(3) by (simp add: lru_order_def)
  have "length (filter (\<lambda>p. fst p \<noteq> n) (lru_list s)) \<le> lru_capacity s"
    using assms(1) length_filter_le le_trans unfolding lru_inv_def by blast
  moreover have "dir_points (AList.delete t (lru_dir s)) (filter (\<lambda>p. fst p \<noteq> n) (lru_list s))"
    using assms(1) only unfolding lru_inv_def dir_points_def
    by (simp add: delete_conv') blast
  moreover have "\<forall>k \<in> fst ` set (filter (\<lambda>p. fst p \<noteq> n) (lru_list s)). k < lru_fresh s"
    using assms(1) by (auto simp: lru_inv_def)
  ultimately show "lru_inv s'"
    using d assms(3) by (simp add: lru_inv_def distinct_map_filter)
qed

lemma lru_push_inv:
  assumes "lru_inv s" "t \<notin> set (lru_order s)" "length (lru_list s) < lru_capacity s"
    and "s2 = list_push_front t s" "s' = dir_emplace t (list_begin s2) s2"
  shows "lru_inv s'" "lru_order s' = t # lru_order s" "lru_capacity s' = lru_capacity s"
proof -
  have none: "map_of (lru_dir s) t = None" using assms(1,2) by (simp add: lru_dir_None)
  have fr: "lru_fresh s \<notin> fst ` set (lru_list s)"
    using assms(1) by (auto simp: lru_inv_def)
  have s': "s' = s\<lparr>lru_list := (lru_fresh s, t) # lru_list s, lru_fresh := Suc (lru_fresh s),
                   lru_dir := AList.update t (Some (lru_fresh s)) (lru_dir s)\<rparr>"
    using none assms(4,5) by (simp add: list_push_front_def dir_emplace_def list_begin_def)
  show "lru_order s' = t # lru_order s" "lru_capacity s' = lru_capacity s"
    by (simp_all add: s' lru_order_def)
  have "dir_points (AList.update t (Some (lru_fresh s)) (lru_dir s)) ((lru_fresh s, t) # lru_list s)"
    using assms(1,2) unfolding lru_inv_def dir_points_def lru_order_def
    by (simp add: update_conv') force
  then show "lru_inv s'"
    using assms(1-3) fr by (auto simp: s' lru_inv_def lru_order_def)
qed

section \<open>What the operations do\<close>

lemma lru_member_node:
  assumes "lru_inv s" "t \<in> set (lru_order s)"
  obtains n where "map_of (lru_dir s) t = Some (Some n)" "(n, t) \<in> set (lru_list s)"
  using assms by (auto simp: lru_inv_def dir_points_def lru_order_def)

lemma list_erase_node:
  "(n, t) \<in> set (lru_list s) \<Longrightarrow>
   list_erase (Some n) s = Inr (s\<lparr>lru_list := filter (\<lambda>p. fst p \<noteq> n) (lru_list s)\<rparr>)"
  by (force simp: list_erase_def)

lemma lru_remove_correct:
  assumes "lru_inv s"
  shows "\<exists>s'. lru_remove t s = Inr s' \<and> lru_inv s' \<and> lru_order s' = remove1 t (lru_order s) \<and>
              lru_capacity s' = lru_capacity s"
proof (cases "t \<in> set (lru_order s)")
  case True
  with assms obtain n where n: "map_of (lru_dir s) t = Some (Some n)" "(n, t) \<in> set (lru_list s)"
    by (rule lru_member_node)
  from lru_drop_inv [OF assms n(2) refl] n show ?thesis
    by (simp add: lru_remove_def list_erase_node)
next
  case False
  then have "map_of (lru_dir s) t = None" using assms by (simp add: lru_dir_None)
  with assms False show ?thesis by (simp add: lru_remove_def remove1_idem)
qed

lemma filter_butlast_node:
  "distinct (map fst l) \<Longrightarrow> l \<noteq> [] \<Longrightarrow> filter (\<lambda>p. fst p \<noteq> fst (last l)) l = butlast l"
proof (induction l rule: rev_induct)
  case (snoc p l)
  then show ?case by (auto simp: filter_id_conv image_iff)
qed simp

lemma remove1_last: "distinct l \<Longrightarrow> l \<noteq> [] \<Longrightarrow> remove1 (last l) l = butlast l"
  by (induction l rule: rev_induct) (auto simp: remove1_append)

lemma lru_drop_last:
  assumes "lru_inv s" "lru_list s \<noteq> []"
    and "s' = s\<lparr>lru_dir := AList.delete (snd (last (lru_list s))) (lru_dir s),
                lru_list := butlast (lru_list s)\<rparr>"
  shows "lru_inv s'" "lru_order s' = butlast (lru_order s)"
    "snd (last (lru_list s)) = last (lru_order s)"
proof -
  obtain n t where l: "last (lru_list s) = (n, t)" by (cases "last (lru_list s)")
  then have mem: "(n, t) \<in> set (lru_list s)" using assms(2) by (metis last_in_set)
  have s': "s' = s\<lparr>lru_list := filter (\<lambda>p. fst p \<noteq> n) (lru_list s),
                  lru_dir := AList.delete t (lru_dir s)\<rparr>"
    using assms l filter_butlast_node [of "lru_list s"] by (simp add: lru_inv_def)
  show last: "snd (last (lru_list s)) = last (lru_order s)"
    using assms(2) by (simp add: lru_order_def last_map)
  show "lru_inv s'" by (rule lru_drop_inv [OF assms(1) mem s'])
  show "lru_order s' = butlast (lru_order s)"
    using lru_drop_inv(2) [OF assms(1) mem s'] last l assms(1,2)
      remove1_last [of "lru_order s"] by (simp add: lru_inv_def lru_order_def)
qed

lemma lru_victim_correct:
  assumes "lru_inv s"
  shows "lru_order s = [] \<Longrightarrow> lru_victim s = (None, s)"
    and "lru_order s \<noteq> [] \<Longrightarrow> \<exists>s'. lru_victim s = (Some (last (lru_order s)), s') \<and> lru_inv s' \<and>
           lru_order s' = butlast (lru_order s) \<and> lru_capacity s' = lru_capacity s"
  using lru_drop_last [OF assms _ refl] by (auto simp: lru_victim_def lru_order_def Let_def)

lemma lru_put_correct:
  assumes "lru_inv s" "0 < lru_capacity s"
  shows "\<exists>s'. lru_put t s = Inr s' \<and> lru_inv s' \<and>
              lru_order s' = put_order (lru_capacity s) t (lru_order s) \<and>
              lru_capacity s' = lru_capacity s"
proof -
  have fin: ?thesis
    if s1: "lru_inv s1" "lru_order s1 = tl (put_order (lru_capacity s) t (lru_order s))"
      "lru_capacity s1 = lru_capacity s" "length (lru_list s1) < lru_capacity s1"
      and put: "lru_put t s = (let s2 = list_push_front t s1 in Inr (dir_emplace t (list_begin s2) s2))"
    for s1
  proof -
    have "distinct (lru_order s)" using assms(1) by (simp add: lru_inv_def lru_order_def)
    then have "t \<notin> set (lru_order s1)"
      using s1(2) by (auto simp: put_order_def dest: in_set_butlastD)
    from lru_push_inv [OF s1(1) this s1(4) refl refl] s1 put show ?thesis
      by (simp add: Let_def put_order_def)
  qed
  have len: "length (lru_list s) = length (lru_order s)" by (simp add: lru_order_def)
  show ?thesis
  proof (cases "t \<in> set (lru_order s)")
    case True
    with assms obtain n where n: "map_of (lru_dir s) t = Some (Some n)" "(n, t) \<in> set (lru_list s)"
      by (auto elim: lru_member_node)
    note drop = lru_drop_inv [OF assms(1) n(2) refl]
    have "length (lru_order s) \<le> lru_capacity s" using assms(1) by (simp add: lru_inv_def len)
    then have "length (remove1 t (lru_order s)) < lru_capacity s"
      using True assms(2) by (simp add: length_remove1)
    with drop n True show ?thesis
      by (intro fin [OF drop(1)])
         (simp_all add: put_order_def lru_put_def list_erase_node lru_order_def flip: length_map [of snd])
  next
    case False
    then have none: "map_of (lru_dir s) t = None" using assms(1) by (simp add: lru_dir_None)
    show ?thesis
    proof (cases "lru_capacity s = length (lru_list s)")
      case True
      then have ne: "lru_list s \<noteq> []" using assms(2) by auto
      note last = lru_drop_last [OF assms(1) ne refl]
      from last True False none ne assms(2) show ?thesis
        by (intro fin [OF last(1)]) (simp_all add: put_order_def lru_put_def len)
    next
      case False
      with \<open>t \<notin> _\<close> none assms show ?thesis
        by (intro fin [OF assms(1)]) (auto simp: put_order_def lru_put_def len lru_inv_def)
    qed
  qed
qed

section \<open>The interface: a replacement policy\<close>

text \<open>
  What the buffer pool relies on: an ordered set of candidates, put to the front, taken from the
  back. The lemmas derived here hold for any policy with these laws.
\<close>

locale replacement =
  fixes put :: "'a \<Rightarrow> 's \<Rightarrow> 'e + 's"
    and remove :: "'a \<Rightarrow> 's \<Rightarrow> 'e + 's"
    and victim :: "'s \<Rightarrow> 'a option \<times> 's"
    and order :: "'s \<Rightarrow> 'a list"
    and cap :: "'s \<Rightarrow> nat"
    and ok :: "'s \<Rightarrow> bool"
  assumes order_distinct: "ok s \<Longrightarrow> distinct (order s)"
    and order_bound: "ok s \<Longrightarrow> length (order s) \<le> cap s"
    and put_law: "ok s \<Longrightarrow> 0 < cap s \<Longrightarrow>
          \<exists>s'. put t s = Inr s' \<and> ok s' \<and> order s' = put_order (cap s) t (order s) \<and> cap s' = cap s"
    and remove_law: "ok s \<Longrightarrow>
          \<exists>s'. remove t s = Inr s' \<and> ok s' \<and> order s' = remove1 t (order s) \<and> cap s' = cap s"
    and victim_none: "ok s \<Longrightarrow> order s = [] \<Longrightarrow> victim s = (None, s)"
    and victim_some: "ok s \<Longrightarrow> order s \<noteq> [] \<Longrightarrow>
          \<exists>s'. victim s = (Some (last (order s)), s') \<and> ok s' \<and> order s' = butlast (order s) \<and>
               cap s' = cap s"
begin

lemma put_members:
  assumes "ok s" "length (order s) < cap s" "put t s = Inr s'"
  shows "ok s'" "set (order s') = insert t (set (order s))" "cap s' = cap s"
  using put_law [OF assms(1), of t] order_distinct [OF assms(1)] assms(2,3)
  by (auto simp: put_order_def)

lemma remove_members:
  assumes "ok s" "remove t s = Inr s'"
  shows "ok s'" "set (order s') = set (order s) - {t}" "cap s' = cap s"
  using remove_law [OF assms(1), of t] order_distinct [OF assms(1)] assms(2) by auto

lemma victim_member:
  assumes "ok s" "victim s = (Some t, s')"
  shows "t \<in> set (order s)" "ok s'" "set (order s') = set (order s) - {t}" "cap s' = cap s"
proof -
  have ne: "order s \<noteq> []" using victim_none [OF assms(1)] assms(2) by auto
  with victim_some [OF assms(1)] assms(2)
  have t: "t = last (order s)" "ok s'" "order s' = butlast (order s)" "cap s' = cap s" by auto
  show "t \<in> set (order s)" "ok s'" "cap s' = cap s" using t ne by auto
  have "order s' = remove1 t (order s)"
    using t(1,3) ne order_distinct [OF assms(1)] by (simp add: remove1_last)
  then show "set (order s') = set (order s) - {t}"
    using order_distinct [OF assms(1)] by simp
qed

lemma victim_exhausted: "ok s \<Longrightarrow> victim s = (None, s') \<Longrightarrow> order s = [] \<and> s' = s"
  using victim_none victim_some by fastforce

lemma put_order_take:
  assumes "distinct l" "0 < c"
  shows "put_order c t (take c l) = take c (t # remove1 t l)"
proof (cases "t \<in> set (take c l)")
  case True
  then obtain ys zs where l: "take c l = ys @ t # zs" "t \<notin> set ys" by (metis split_list_first)
  then obtain rest where rest: "l = ys @ t # zs @ rest"
    by (metis append.assoc append_Cons append_take_drop_id)
  have "min (length l) c = length (ys @ t # zs)" using l(1) by (metis length_take)
  then have "length (ys @ t # zs) = c \<or> rest = []"
    using rest by (auto simp: min_def split: if_splits)
  moreover have "length (ys @ t # zs) \<le> c" using l(1) by (metis length_take min.cobounded2)
  moreover have "remove1 t l = ys @ zs @ rest" using l(2) by (simp add: rest remove1_append)
  ultimately show ?thesis
    using l True by (cases c) (auto simp: put_order_def remove1_append)
next
  case False
  show ?thesis
  proof (cases "length l < c")
    case True
    with False assms show ?thesis by (cases c) (auto simp: put_order_def remove1_idem)
  next
    case len: False
    obtain c' where c: "c = Suc c'" using assms(2) by (cases c) auto
    have "remove1 t l = take c l @ remove1 t (drop c l)"
      using False by (metis append_take_drop_id remove1_append)
    then have "take c' (remove1 t l) = take c' (take c l)" using len c by simp
    with False len c show ?thesis
      by (auto simp: put_order_def butlast_take min_def)
  qed
qed

text \<open>After a series of puts the policy holds the most recently put elements, latest first.\<close>

lemma puts_recency:
  assumes "ok s" "order s = []" "0 < cap s"
  shows "\<exists>s'. each put ts s = Inr s' \<and> ok s' \<and> cap s' = cap s \<and>
              order s' = take (cap s) (rev (remdups ts))"
proof (induction ts rule: rev_induct)
  case Nil
  with assms show ?case by simp
next
  case (snoc t ts)
  then obtain s1 where s1: "each put ts s = Inr s1" "ok s1" "cap s1 = cap s"
    "order s1 = take (cap s) (rev (remdups ts))" by auto
  from put_law [OF s1(2), of t] s1(3) assms(3) obtain s2 where
    s2: "put t s1 = Inr s2" "ok s2" "cap s2 = cap s" "order s2 = put_order (cap s) t (order s1)"
    by auto
  have "rev (remdups (ts @ [t])) = t # remove1 t (rev (remdups ts))"
    by (induction ts) (auto simp: remove1_append remove1_idem)
  moreover have "order s2 = take (cap s) (t # remove1 t (rev (remdups ts)))"
    unfolding s2(4) s1(4) by (rule put_order_take) (use assms in simp_all)
  ultimately show ?case using s1 s2 by (simp add: each_append)
qed

end

interpretation lru: replacement lru_put lru_remove lru_victim lru_order lru_capacity lru_inv
  by unfold_locales
     (auto simp: lru_put_correct lru_remove_correct lru_victim_correct,
      auto simp: lru_inv_def lru_order_def)

end
