(* ===== verification/Byte_Codec.thy ===== *)
theory Byte_Codec
  imports Tadis_Base
begin

text \<open>
  How \<open>memcpy\<close> lays a machine word out in a byte buffer (little endian), and the interface of
  a fixed-width field: encode, decode, width. The page header, the slot directory of a page and the
  columns of a tuple are such fields; the lemmas on writing and reading them back are proved once
  from the interface and used through its interpretations \<open>size_field\<close> (8 bytes) and
  \<open>int_field\<close> (4 bytes).
\<close>

unbundle bit_operations_syntax

section \<open>Little-endian words\<close>

definition le_bytes :: "nat \<Rightarrow> 'a::len word \<Rightarrow> bytes" where
  "le_bytes n w = map (\<lambda>i. ucast (drop_bit (8 * i) w)) [0..<n]"

fun le_word :: "bytes \<Rightarrow> 'a::len word" where
  "le_word [] = 0"
| "le_word (b # bs) = ucast b OR push_bit 8 (le_word bs)"

lemma length_le_bytes [simp]: "length (le_bytes n w) = n"
  by (simp add: le_bytes_def)

lemma bit_le_word:
  "bit (le_word bs :: 'a::len word) k \<longleftrightarrow>
     k < LENGTH('a) \<and> k div 8 < length bs \<and> bit (bs ! (k div 8)) (k mod 8)"
proof (induction bs arbitrary: k)
  case Nil
  then show ?case by simp
next
  case (Cons b bs)
  show ?case
  proof (cases "k < 8")
    case True
    then show ?thesis by (auto simp: bit_simps)
  next
    case False
    then have "k div 8 = Suc ((k - 8) div 8)" "k mod 8 = (k - 8) mod 8"
      by (simp_all add: div_if mod_if)
    moreover have "\<not> bit b k" using False by (auto dest: bit_imp_le_length)
    ultimately show ?thesis
      using False Cons.IH [of "k - 8"] by (auto simp: bit_simps not_less)
  qed
qed

lemma le_word_le_bytes:
  assumes "LENGTH('a::len) \<le> 8 * n"
  shows "le_word (le_bytes n (w :: 'a word)) = w"
proof (rule bit_eqI)
  fix k
  assume "possible_bit TYPE('a word) k"
  then have k: "k < LENGTH('a)" by simp
  then have "k div 8 < n" using assms by linarith
  moreover have "8 * (k div 8) + k mod 8 = k" by simp
  ultimately show "bit (le_word (le_bytes n w) :: 'a word) k = bit w k"
    using k by (simp add: bit_le_word le_bytes_def bit_simps)
qed

lemma le_bytes_le_word:
  assumes "length bs = n" "8 * n \<le> LENGTH('a::len)"
  shows "le_bytes n (le_word bs :: 'a word) = bs"
proof (rule nth_equalityI)
  show "length (le_bytes n (le_word bs :: 'a word)) = length bs"
    using assms by simp
next
  fix i
  assume "i < length (le_bytes n (le_word bs :: 'a word))"
  then have i: "i < n" by simp
  show "le_bytes n (le_word bs :: 'a word) ! i = bs ! i"
  proof (rule bit_eqI)
    fix k
    assume "possible_bit TYPE(8 word) k"
    then have k: "k < 8" by simp
    then have "(8 * i + k) div 8 = i" "(8 * i + k) mod 8 = k" by simp_all
    moreover have "8 * i + k < LENGTH('a)" using i k assms by linarith
    ultimately show "bit (le_bytes n (le_word bs :: 'a word) ! i) k = bit (bs ! i) k"
      using i k assms by (simp add: le_bytes_def bit_simps bit_le_word)
  qed
qed

section \<open>Fixed-width fields of a buffer\<close>

locale field_codec =
  fixes enc :: "'v \<Rightarrow> bytes"
    and dec :: "bytes \<Rightarrow> 'v"
    and width :: nat
  assumes dec_enc: "dec (enc v) = v"
    and length_enc: "length (enc v) = width"
begin

lemma read_written:
  assumes "off + width \<le> length buf"
  shows "dec (chunk off width (blit off (enc v) buf)) = v"
  using assms by (simp add: length_enc dec_enc)

lemma read_other:
  assumes "off + width \<le> length buf" "o2 + width \<le> length buf"
    and "o2 + width \<le> off \<or> off + width \<le> o2"
  shows "dec (chunk o2 width (blit off (enc v) buf)) = dec (chunk o2 width buf)"
  using assms by (simp add: length_enc chunk_blit_other)

lemma read_beside:
  assumes "off + length src \<le> length buf" "o2 + width \<le> length buf"
    and "o2 + width \<le> off \<or> off + length src \<le> o2"
  shows "dec (chunk o2 width (blit off src buf)) = dec (chunk o2 width buf)"
  using assms by (simp add: chunk_blit_other)

lemma enc_inject: "enc v = enc w \<longleftrightarrow> v = w"
  by (metis dec_enc)

lemma read_prefix: "dec (take width (enc v @ rest)) = v"
  by (simp add: length_enc dec_enc)

end

interpretation size_field: field_codec "le_bytes 8" "le_word :: bytes \<Rightarrow> size_t" 8
  by unfold_locales (simp_all add: le_word_le_bytes)

interpretation int_field: field_codec "le_bytes 4" "le_word :: bytes \<Rightarrow> 32 word" 4
  by unfold_locales (simp_all add: le_word_le_bytes)

lemma le_word_zeros [simp]: "le_word (replicate n 0) = 0"
  by (rule bit_eqI) (simp add: bit_le_word)

end
