(* ===== verification/Disk_Manager.thy ===== *)
theory Disk_Manager
  imports Byte_Codec
begin

text \<open>
  The constants and record ids of \<open>src/storage/storage_def.hpp\<close>, and \<open>DiskManager\<close> of
  \<open>src/storage/bufferpool/disk_manager.hpp\<close>: the database file is the list of its bytes, page
  \<open>id\<close> is the 1024 bytes at \<open>id * PAGE_SIZE\<close>. The reads and writes of the file are taken to
  succeed (a failing one is only logged by the code); locks and logging are left out. The interface
  \<open>page_store\<close> is what a cache above the file relies on; \<open>disk\<close> is its interpretation.
\<close>

section \<open>Constants and record ids\<close>

definition INVALID_ID :: size_t where "INVALID_ID = - 1"

definition PAGE_SIZE :: nat where "PAGE_SIZE = 1024"

definition RECORD_MAX_SIZE :: nat where "RECORD_MAX_SIZE = PAGE_SIZE - 8 * 4"

definition BFP_MAX_PAGE_NUM :: nat where "BFP_MAX_PAGE_NUM = (PAGE_SIZE - 8 * 2) * 8"

definition BFP_BITMAP_MAX_SIZE :: nat where "BFP_BITMAP_MAX_SIZE = PAGE_SIZE - 8 * 2"

type_synonym page_id = size_t

record rid =
  page_id :: page_id
  slot_id :: size_t

definition rid_default :: rid where
  "rid_default = \<lparr>page_id = INVALID_ID, slot_id = INVALID_ID\<rparr>"

definition rid_eq :: "rid \<Rightarrow> rid \<Rightarrow> bool" where
  "rid_eq a r \<longleftrightarrow> page_id a = page_id r \<and> slot_id a = slot_id r"

definition rid_neq :: "rid \<Rightarrow> rid \<Rightarrow> bool" where
  "rid_neq a r \<longleftrightarrow> page_id a \<noteq> page_id r \<or> slot_id a \<noteq> slot_id r"

section \<open>The file\<close>

record disk =
  db_file :: bytes
  next_pid :: page_id

definition page_offset :: "page_id \<Rightarrow> size_t" where
  "page_offset pid = pid * of_nat PAGE_SIZE"

text \<open>\<open>fwrite\<close> at a position, which may lie past the end: the gap reads as zeros.\<close>

definition write_at :: "nat \<Rightarrow> bytes \<Rightarrow> bytes \<Rightarrow> bytes" where
  "write_at off src f = blit off src (f @ replicate (off + length src - length f) 0)"

definition read_page :: "page_id \<Rightarrow> bytes \<Rightarrow> disk \<Rightarrow> bytes" where
  "read_page pid dst d =
     (let file_size = length (db_file d); offset = unat (page_offset pid) in
      if offset > file_size then dst
      else blit 0 (chunk offset (min PAGE_SIZE (file_size - offset)) (db_file d)) dst)"

definition write_page :: "page_id \<Rightarrow> bytes \<Rightarrow> disk \<Rightarrow> disk res" where
  "write_page pid src d =
     (let offset = page_offset pid in
      if 0 \<le> sint offset
      then Inr (d\<lparr>db_file := write_at (unat offset) src (db_file d)\<rparr>)
      else Inl Bad_Seek)"

definition set_next_page_id :: "page_id \<Rightarrow> disk \<Rightarrow> disk" where
  "set_next_page_id n d = d\<lparr>next_pid := n\<rparr>"

definition next_page_id :: "disk \<Rightarrow> page_id \<times> disk" where
  "next_page_id d = (next_pid d, d\<lparr>next_pid := next_pid d + 1\<rparr>)"

definition current_pid :: "disk \<Rightarrow> page_id" where
  "current_pid d = next_pid d - 1"

text \<open>Opening a file: its content, or nothing for a new file.\<close>

definition disk_open :: "bytes option \<Rightarrow> disk" where
  "disk_open content =
     \<lparr>db_file = (case content of Some f \<Rightarrow> f | None \<Rightarrow> []), next_pid = 1\<rparr>"

section \<open>The pages of the file\<close>

definition page_ok :: "page_id \<Rightarrow> bool" where
  "page_ok pid \<longleftrightarrow> unat pid < 2 ^ 53"

definition disk_page :: "disk \<Rightarrow> page_id \<Rightarrow> bytes" where
  "disk_page d pid =
     map (\<lambda>i. if unat pid * PAGE_SIZE + i < length (db_file d)
              then db_file d ! (unat pid * PAGE_SIZE + i) else 0) [0..<PAGE_SIZE]"

lemma length_disk_page [simp]: "length (disk_page d pid) = PAGE_SIZE"
  by (simp add: disk_page_def)

lemma unat_page_offset:
  assumes "page_ok pid"
  shows "unat (page_offset pid) = unat pid * PAGE_SIZE"
proof -
  have "unat (pid * 1024) = unat pid * 1024 mod 2 ^ LENGTH(64)"
    by (subst unat_word_ariths(2)) simp
  also have "\<dots> = unat pid * 1024"
    using assms by (intro mod_less) (simp add: page_ok_def)
  finally show ?thesis by (simp add: page_offset_def PAGE_SIZE_def)
qed

lemma page_offset_nonneg:
  assumes "page_ok pid"
  shows "0 \<le> sint (page_offset pid)"
proof -
  have "unat (page_offset pid) < 2 ^ 63"
    using assms by (simp add: unat_page_offset page_ok_def PAGE_SIZE_def)
  then have "uint (page_offset pid) < 2 ^ 63"
    unfolding uint_nat using of_nat_less_iff [of "unat (page_offset pid)" "2 ^ 63", where 'a = int]
    by simp
  moreover have "sint (page_offset pid) =
      (uint (page_offset pid) + 2 ^ 63) mod 2 ^ 64 - 2 ^ 63"
    using int_word_sint [where 'a = 64, of "uint (page_offset pid)"] by simp
  moreover have "0 \<le> uint (page_offset pid)" by simp
  ultimately show ?thesis by (simp add: mod_pos_pos_trivial)
qed

lemma length_read_page [simp]:
  "length dst = PAGE_SIZE \<Longrightarrow> length (read_page pid dst d) = PAGE_SIZE"
  by (simp add: read_page_def Let_def)

lemma read_page_zeros:
  assumes "page_ok pid"
  shows "read_page pid (replicate PAGE_SIZE 0) d = disk_page d pid"
proof (rule nth_equalityI)
  show "length (read_page pid (replicate PAGE_SIZE 0) d) = length (disk_page d pid)" by simp
next
  fix i
  assume "i < length (read_page pid (replicate PAGE_SIZE 0) d)"
  then have "i < PAGE_SIZE" by simp
  then show "read_page pid (replicate PAGE_SIZE 0) d ! i = disk_page d pid ! i"
    using assms
    by (auto simp: read_page_def Let_def unat_page_offset disk_page_def memory_simps)
qed

lemma length_write_at: "length (write_at off src f) = max (length f) (off + length src)"
  by (auto simp: write_at_def)

lemma nth_write_at:
  "i < max (length f) (off + length src) \<Longrightarrow>
   write_at off src f ! i =
     (if off \<le> i \<and> i < off + length src then src ! (i - off)
      else if i < length f then f ! i else 0)"
  by (auto simp: write_at_def nth_blit nth_append)

lemma write_page_defined:
  "page_ok pid \<Longrightarrow> write_page pid src d =
     Inr (d\<lparr>db_file := write_at (unat pid * PAGE_SIZE) src (db_file d)\<rparr>)"
  by (simp add: write_page_def Let_def page_offset_nonneg unat_page_offset)

lemma page_apart:
  assumes "p \<noteq> (q :: nat)" "i < n" "j < n"
  shows "p * n + i \<noteq> q * n + j"
proof
  assume eq: "p * n + i = q * n + j"
  have "(p * n + i) div n = p" "(q * n + j) div n = q" using assms by simp_all
  with eq assms(1) show False by simp
qed

lemma disk_page_write:
  assumes "page_ok pid" "page_ok q" "length src = PAGE_SIZE" "write_page pid src d = Inr d'"
  shows "disk_page d' q = (if q = pid then src else disk_page d q)"
proof (rule nth_equalityI)
  show "length (disk_page d' q) = length (if q = pid then src else disk_page d q)"
    using assms by simp
next
  fix i
  assume "i < length (disk_page d' q)"
  then have i: "i < PAGE_SIZE" by simp
  have d': "db_file d' = write_at (unat pid * PAGE_SIZE) src (db_file d)"
    using assms(1,4) by (auto simp: write_page_defined)
  show "disk_page d' q ! i = (if q = pid then src else disk_page d q) ! i"
  proof (cases "q = pid")
    case True
    then show ?thesis
      using i assms(3)
      by (simp add: disk_page_def d' length_write_at nth_write_at less_max_iff_disj)
  next
    case False
    then have "unat q \<noteq> unat pid" by (simp add: word_unat_eq_iff)
    then have "unat q * PAGE_SIZE + i \<noteq> unat pid * PAGE_SIZE + j" if "j < PAGE_SIZE" for j
      using i that by (intro page_apart)
    then have "\<not> (unat pid * PAGE_SIZE \<le> unat q * PAGE_SIZE + i \<and>
                  unat q * PAGE_SIZE + i < unat pid * PAGE_SIZE + PAGE_SIZE)"
      by (metis add_less_cancel_left le_Suc_ex)
    then show ?thesis
      using i assms(3) False
      by (auto simp: disk_page_def d' length_write_at nth_write_at)
  qed
qed

section \<open>The interface: a store of pages\<close>

locale page_store =
  fixes rd :: "'i \<Rightarrow> 'b \<Rightarrow> 'd \<Rightarrow> 'b"
    and wr :: "'i \<Rightarrow> 'b \<Rightarrow> 'd \<Rightarrow> 'e + 'd"
    and page :: "'d \<Rightarrow> 'i \<Rightarrow> 'b"
    and blank :: 'b
    and is_page :: "'b \<Rightarrow> bool"
    and valid :: "'i \<Rightarrow> bool"
  assumes read_blank: "valid i \<Longrightarrow> rd i blank d = page d i"
    and write_total: "valid i \<Longrightarrow> \<exists>d'. wr i b d = Inr d'"
    and page_write: "valid i \<Longrightarrow> valid j \<Longrightarrow> is_page b \<Longrightarrow> wr i b d = Inr d' \<Longrightarrow>
          page d' j = (if j = i then b else page d j)"
begin

lemma read_after_write:
  "valid i \<Longrightarrow> is_page b \<Longrightarrow> wr i b d = Inr d' \<Longrightarrow> rd i blank d' = b"
  by (simp add: read_blank page_write)

lemma write_all:
  assumes "\<forall>(i, b) \<in> set ps. valid i \<and> is_page b" "distinct (map fst ps)"
  shows "\<exists>d'. each (\<lambda>(i, b). wr i b) ps d = Inr d' \<and>
    (\<forall>j. valid j \<longrightarrow> page d' j = (case map_of ps j of Some b \<Rightarrow> b | None \<Rightarrow> page d j))"
  using assms
proof (induction ps arbitrary: d)
  case Nil
  then show ?case by simp
next
  case (Cons p ps)
  obtain i b where p: "p = (i, b)" by (cases p)
  from Cons.prems p have i: "valid i" "is_page b" "i \<notin> fst ` set ps" by auto
  from write_total [OF i(1)] obtain d1 where d1: "wr i b d = Inr d1" by blast
  from Cons.IH [of d1] Cons.prems obtain d' where
    d': "each (\<lambda>(i, b). wr i b) ps d1 = Inr d'"
    "\<forall>j. valid j \<longrightarrow> page d' j = (case map_of ps j of Some b \<Rightarrow> b | None \<Rightarrow> page d1 j)"
    by auto
  have "map_of ps i = None" using i(3) by (simp add: map_of_eq_None_iff)
  with d' d1 i p show ?case
    by (auto simp: page_write [OF i(1) _ i(2) d1] split: option.split)
qed

end

interpretation disk: page_store read_page write_page disk_page "replicate PAGE_SIZE 0"
  "\<lambda>b. length b = PAGE_SIZE" page_ok
  by unfold_locales (auto simp: read_page_zeros write_page_defined disk_page_write)

end
