(* ===== verification/Buffer_Pool.thy ===== *)
theory Buffer_Pool
  imports Common Bitmap Lru_Replacer Disk_Manager
begin

text \<open>
  \<open>Page\<close>, \<open>BFPHeaderPage\<close> and \<open>BufferPool\<close> of \<open>src/storage/bufferpool/buffer_pool.hpp\<close>. A
  frame id is an index into \<open>pages_\<close>; a \<open>Page *\<close> is the frame it points to, \<open>None\<close> for
  \<open>nullptr\<close>. The hash map \<open>dir_\<close> is an association list, in one of its possible orders. This
  theory holds the definitions; \<open>Pool_Invariant\<close> proves what they keep and what they do.
\<close>

section \<open>Pages\<close>

record page =
  pg_buffer :: bytes
  pg_pid :: page_id
  pg_pin_count :: size_t
  pg_dirty :: bool

definition page_clear_data :: "page \<Rightarrow> page" where
  "page_clear_data p = p\<lparr>pg_buffer := replicate (length (pg_buffer p)) 0\<rparr>"

definition page_clear_all :: "page \<Rightarrow> page" where
  "page_clear_all p =
     (page_clear_data p)\<lparr>pg_pid := INVALID_ID, pg_pin_count := 0, pg_dirty := False\<rparr>"

definition page_copy :: "page \<Rightarrow> page \<Rightarrow> page" where
  "page_copy this p =
     this\<lparr>pg_buffer := blit 0 (take PAGE_SIZE (pg_buffer p)) (pg_buffer this),
          pg_dirty := pg_dirty p, pg_pid := pg_pid p, pg_pin_count := pg_pin_count p\<rparr>"

text \<open>The move operations copy and clear the source: (this, source) afterwards.\<close>

definition page_move :: "page \<Rightarrow> page \<Rightarrow> page \<times> page" where
  "page_move this p = (page_copy this p, page_clear_all p)"

text \<open>A frame as the constructor of the pool leaves it.\<close>

definition blank_page :: page where
  "blank_page = \<lparr>pg_buffer = replicate PAGE_SIZE 0, pg_pid = INVALID_ID,
                 pg_pin_count = 0, pg_dirty = False\<rparr>"

section \<open>The header page\<close>

record bfp_header =
  hd_page_num :: size_t
  hd_phy_num :: size_t
  hd_bitmap :: bytes

definition header_default :: bfp_header where
  "header_default = \<lparr>hd_page_num = 1, hd_phy_num = 1, hd_bitmap = []\<rparr>"

definition header_write2page :: "bfp_header \<Rightarrow> page \<Rightarrow> page res" where
  "header_write2page h p =
     andthen (store 0 (le_bytes 8 (hd_page_num h)) (pg_buffer p)) (\<lambda>b1.
     andthen (store 8 (le_bytes 8 (hd_phy_num h)) b1) (\<lambda>b2.
     andthen (store 16 (hd_bitmap h) b2) (\<lambda>b3.
     Inr (p\<lparr>pg_buffer := b3, pg_dirty := True\<rparr>))))"

definition header_bitmap_size :: "size_t \<Rightarrow> size_t \<Rightarrow> size_t" where
  "header_bitmap_size page_num phy_num =
     (if phy_num > 8 then page_num div 8 + (if page_num mod 8 = 0 then 0 else 1) else 1)"

definition header_init :: "bfp_header \<Rightarrow> page \<Rightarrow> (bool \<times> bfp_header \<times> page) res" where
  "header_init h p =
     andthen (load 0 8 (pg_buffer p)) (\<lambda>b1.
     andthen (load 8 8 (pg_buffer p)) (\<lambda>b2.
     let page_num = le_word b1; phy_num = le_word b2 in
     if page_num = 0
     then andthen (bm_set [0] 0 True) (\<lambda>bm.
          let h' = h\<lparr>hd_page_num := 1, hd_phy_num := 1, hd_bitmap := bm\<rparr> in
          andthen (header_write2page h' p) (\<lambda>p'. Inr (True, h', p')))
     else (let n = unat (header_bitmap_size page_num phy_num) in
           andthen (load 16 n (pg_buffer p)) (\<lambda>bm.
           Inr (False, h\<lparr>hd_page_num := page_num, hd_phy_num := phy_num, hd_bitmap := bm\<rparr>, p)))))"

section \<open>The pool\<close>

record pool =
  bp_dir :: "(page_id \<times> nat) list"
  bp_free_list :: "nat list"
  bp_pages :: "page list"
  bp_replacer :: "nat lru"
  bp_disk :: disk
  bp_head :: bfp_header
  bp_closed :: bool

definition frame_at :: "nat \<Rightarrow> pool \<Rightarrow> page res" where
  "frame_at f bp = (if f < length (bp_pages bp) then Inr (bp_pages bp ! f) else Inl Out_Of_Bounds)"

definition set_frame :: "nat \<Rightarrow> page \<Rightarrow> pool \<Rightarrow> pool" where
  "set_frame f p bp = bp\<lparr>bp_pages := (bp_pages bp)[f := p]\<rparr>"

definition pool_current_pid :: "pool \<Rightarrow> page_id" where
  "pool_current_pid bp = current_pid (bp_disk bp)"

definition pool_contain :: "page_id \<Rightarrow> pool \<Rightarrow> rc res" where
  "pool_contain pid bp =
     (if length (hd_bitmap (bp_head bp)) * 8 \<le> unat pid then Inr OUT_OF_RANGE
      else andthen (bm_get (hd_bitmap (bp_head bp)) (unat pid))
             (\<lambda>c. Inr (if c then SUCCESS else PAGE_IS_DELETED)))"

definition next_pid_after :: "page_id \<Rightarrow> pool \<Rightarrow> page_id option res" where
  "next_pid_after cur bp =
     andthen (bm_first_after (hd_bitmap (bp_head bp)) True (unat cur))
       (\<lambda>r. Inr (map_option of_nat r))"

definition victim :: "pool \<Rightarrow> nat option \<times> pool" where
  "victim bp =
     (if bp_free_list bp \<noteq> []
      then (Some (last (bp_free_list bp)), bp\<lparr>bp_free_list := butlast (bp_free_list bp)\<rparr>)
      else (case lru_victim (bp_replacer bp) of (r, rep) \<Rightarrow> (r, bp\<lparr>bp_replacer := rep\<rparr>)))"

definition flush_page :: "page_id \<Rightarrow> pool \<Rightarrow> pool res" where
  "flush_page pid bp =
     (case map_of (bp_dir bp) pid of
        None \<Rightarrow> Inr bp
      | Some f \<Rightarrow>
          andthen (frame_at f bp) (\<lambda>p.
          andthen (write_page pid (pg_buffer p) (bp_disk bp)) (\<lambda>d.
          Inr (bp\<lparr>bp_disk := d\<rparr>))))"

definition change_correspondence :: "nat \<Rightarrow> page_id \<Rightarrow> pool \<Rightarrow> pool res" where
  "change_correspondence f pid bp =
     andthen (frame_at f bp) (\<lambda>p.
     andthen (if pg_dirty p then flush_page (pg_pid p) bp else Inr bp) (\<lambda>bp1.
     let bp2 = bp1\<lparr>bp_dir := AList.delete (pg_pid p) (bp_dir bp1)\<rparr>;
         bp3 = set_frame f ((page_clear_all p)\<lparr>pg_pid := pid\<rparr>) bp2
     in Inr (bp3\<lparr>bp_dir := AList.update pid f (bp_dir bp3)\<rparr>)))"

definition fetch :: "page_id \<Rightarrow> pool \<Rightarrow> (nat option \<times> pool) res" where
  "fetch pid bp =
     (case map_of (bp_dir bp) pid of
        Some f \<Rightarrow>
          andthen (frame_at f bp) (\<lambda>res.
          andthen (lru_remove f (bp_replacer bp)) (\<lambda>rep.
          Inr (Some f, (set_frame f (res\<lparr>pg_pin_count := pg_pin_count res + 1\<rparr>) bp)
                         \<lparr>bp_replacer := rep\<rparr>)))
      | None \<Rightarrow>
          (case victim bp of
             (None, bp1) \<Rightarrow> Inr (None, bp1)
           | (Some f, bp1) \<Rightarrow>
               andthen (change_correspondence f pid bp1) (\<lambda>bp2.
               andthen (frame_at f bp2) (\<lambda>page.
               Inr (Some f,
                    set_frame f (page\<lparr>pg_buffer := read_page pid (pg_buffer page) (bp_disk bp2),
                                      pg_pin_count := 1, pg_pid := pid, pg_dirty := False\<rparr>) bp2)))))"

text \<open>The loop of \<open>new_page\<close> that lengthens the bitmap up to the new id.\<close>

function grow_bitmap :: "bytes \<Rightarrow> nat \<Rightarrow> bytes" where
  "grow_bitmap bm idx = (if length bm * 8 \<le> idx then grow_bitmap (bm @ [0]) idx else bm)"
  by pat_completeness auto
termination
  by (relation "measure (\<lambda>(bm, idx). Suc idx - length bm * 8)") auto

declare grow_bitmap.simps [simp del]

text \<open>
  The id a new page gets: a cleared position of the bitmap below the last allocated id, or the next
  id of the file; \<open>None\<close> when the ids are used up. The next id of the file is consumed either way.
\<close>

definition choose_page_id :: "pool \<Rightarrow> (page_id option \<times> pool) res" where
  "choose_page_id bp =
     andthen (bm_first (hd_bitmap (bp_head bp)) False) (\<lambda>r.
     case r of
       Some i \<Rightarrow>
         if of_nat i \<ge> current_pid (bp_disk bp)
         then (case next_page_id (bp_disk bp) of (idx, d) \<Rightarrow>
                 Inr (if idx > of_nat BFP_MAX_PAGE_NUM then None else Some idx, bp\<lparr>bp_disk := d\<rparr>))
         else Inr (Some (of_nat i), bp)
     | None \<Rightarrow>
         (case next_page_id (bp_disk bp) of (idx, d) \<Rightarrow>
            Inr (if idx > of_nat BFP_MAX_PAGE_NUM then None else Some idx, bp\<lparr>bp_disk := d\<rparr>)))"

definition new_page :: "pool \<Rightarrow> ((nat \<times> page_id) option \<times> pool) res" where
  "new_page bp =
     andthen (choose_page_id bp) (\<lambda>(i, bp1).
     case i of
       None \<Rightarrow> Inr (None, bp1)
     | Some idx \<Rightarrow>
         (case victim bp1 of
            (None, bp2) \<Rightarrow> Inr (None, bp2)
          | (Some f, bp2) \<Rightarrow>
              andthen (bm_set (grow_bitmap (hd_bitmap (bp_head bp2)) (unat idx)) (unat idx) True)
                (\<lambda>bm.
              let bp3 = bp2\<lparr>bp_head := (bp_head bp2)\<lparr>hd_bitmap := bm\<rparr>\<rparr> in
              andthen (change_correspondence f idx bp3) (\<lambda>bp4.
              let h = bp_head bp4;
                  bp5 = bp4\<lparr>bp_head := h\<lparr>hd_page_num := hd_page_num h + 1,
                                         hd_phy_num := hd_phy_num h + 1\<rparr>\<rparr> in
              andthen (frame_at f bp5) (\<lambda>res.
              Inr (Some (f, idx),
                   set_frame f (res\<lparr>pg_pid := idx, pg_dirty := True, pg_pin_count := 1\<rparr>) bp5))))))"

definition unpin :: "page_id \<Rightarrow> bool \<Rightarrow> pool \<Rightarrow> pool res" where
  "unpin pid is_dirty bp =
     (case map_of (bp_dir bp) pid of
        None \<Rightarrow> Inr bp
      | Some f \<Rightarrow>
          andthen (frame_at f bp) (\<lambda>page.
          let page' = page\<lparr>pg_dirty := pg_dirty page \<or> is_dirty,
                           pg_pin_count := pg_pin_count page - 1\<rparr>;
              bp1 = set_frame f page' bp in
          if pg_pin_count page' = 0
          then andthen (lru_put f (bp_replacer bp1)) (\<lambda>rep. Inr (bp1\<lparr>bp_replacer := rep\<rparr>))
          else Inr bp1))"

text \<open>The tail both branches of \<open>delete_page\<close> share: rewrite the header page.\<close>

definition rewrite_header :: "pool \<Rightarrow> pool res" where
  "rewrite_header bp =
     andthen (fetch 0 bp) (\<lambda>(r, bp1).
     case r of
       None \<Rightarrow> Inr bp1
     | Some f \<Rightarrow>
         andthen (frame_at f bp1) (\<lambda>head_page.
         andthen (header_write2page (bp_head bp1) head_page) (\<lambda>head_page'.
         unpin (pg_pid head_page') True (set_frame f head_page' bp1))))"

definition drop_page_num :: "pool \<Rightarrow> pool" where
  "drop_page_num bp =
     bp\<lparr>bp_head := (bp_head bp)\<lparr>hd_page_num := hd_page_num (bp_head bp) - 1\<rparr>\<rparr>"

definition delete_page :: "page_id \<Rightarrow> pool \<Rightarrow> pool res" where
  "delete_page pid bp =
     (if pid \<ge> hd_phy_num (bp_head bp) then Inr bp
      else
        (case map_of (bp_dir bp) pid of
           Some f \<Rightarrow>
             andthen (frame_at f bp) (\<lambda>page.
             andthen (bm_set (hd_bitmap (bp_head bp)) (unat pid) False) (\<lambda>bm.
             let bp1 = bp\<lparr>bp_head := (bp_head bp)\<lparr>hd_bitmap := bm\<rparr>\<rparr>;
                 bp2 = set_frame f (page_clear_all page) bp1;
                 bp3 = bp2\<lparr>bp_free_list := f # bp_free_list bp2,
                            bp_dir := AList.delete pid (bp_dir bp2)\<rparr> in
             rewrite_header (drop_page_num bp3)))
         | None \<Rightarrow>
             andthen (bm_set (hd_bitmap (bp_head bp)) (unat pid) False) (\<lambda>bm.
             rewrite_header
               (drop_page_num (bp\<lparr>bp_head := (bp_head bp)\<lparr>hd_bitmap := bm\<rparr>\<rparr>)))))"

text \<open>One round of the loop of \<open>flush_all_page\<close>, for an entry of the directory.\<close>

definition flush_entry :: "page list \<Rightarrow> page_id \<times> nat \<Rightarrow> disk \<Rightarrow> disk res" where
  "flush_entry pages e d =
     (if snd e < length pages
      then (if pg_dirty (pages ! snd e)
            then write_page (fst e) (pg_buffer (pages ! snd e)) d else Inr d)
      else Inl Out_Of_Bounds)"

definition flush_all_page :: "pool \<Rightarrow> pool res" where
  "flush_all_page bp =
     andthen (each (flush_entry (bp_pages bp)) (bp_dir bp) (bp_disk bp))
       (\<lambda>d. Inr (bp\<lparr>bp_disk := d\<rparr>))"

definition pool_close :: "pool \<Rightarrow> pool res" where
  "pool_close bp =
     (if bp_closed bp then Inr bp
      else
        andthen (fetch 0 bp) (\<lambda>(r, bp1).
        case r of
          None \<Rightarrow> Inr bp1
        | Some f \<Rightarrow>
            andthen (frame_at f bp1) (\<lambda>page.
            andthen (header_write2page (bp_head bp1) page) (\<lambda>page'.
            andthen (unpin (pg_pid page') True (set_frame f page' bp1)) (\<lambda>bp2.
            andthen (flush_all_page bp2) (\<lambda>bp3.
            Inr (bp3\<lparr>bp_closed := True\<rparr>)))))))"

definition pool_init :: "pool \<Rightarrow> pool res" where
  "pool_init bp =
     andthen (fetch 0 bp) (\<lambda>(r, bp1).
     case r of
       None \<Rightarrow> Inr bp1
     | Some f \<Rightarrow>
         andthen (frame_at f bp1) (\<lambda>page.
         andthen (header_init (bp_head bp1) page) (\<lambda>(is_dirty, h, page').
         andthen (unpin 0 is_dirty ((set_frame f page' bp1)\<lparr>bp_head := h\<rparr>)) (\<lambda>bp2.
         andthen (if is_dirty then flush_page 0 bp2 else Inr bp2) (\<lambda>bp3.
         Inr (bp3\<lparr>bp_disk := set_next_page_id (hd_phy_num h) (bp_disk bp3)\<rparr>))))))"

text \<open>The members before \<open>init()\<close> runs, and the constructor.\<close>

definition pool_blank :: "nat \<Rightarrow> disk \<Rightarrow> pool" where
  "pool_blank bfp_size d =
     \<lparr>bp_dir = [], bp_free_list = [0..<bfp_size], bp_pages = replicate bfp_size blank_page,
      bp_replacer = lru_new bfp_size, bp_disk = d, bp_head = header_default, bp_closed = False\<rparr>"

definition pool_open :: "bytes option \<Rightarrow> nat \<Rightarrow> pool res" where
  "pool_open content bfp_size = pool_init (pool_blank bfp_size (disk_open content))"

text \<open>What a client does through \<open>page->data()\<close>: the buffer of a frame is overwritten.\<close>

definition put_data :: "nat \<Rightarrow> bytes \<Rightarrow> pool \<Rightarrow> pool res" where
  "put_data f bs bp =
     andthen (frame_at f bp) (\<lambda>p. Inr (set_frame f (p\<lparr>pg_buffer := bs\<rparr>) bp))"

section \<open>The rest of the interface\<close>

definition page_set_dirty :: "bool \<Rightarrow> page \<Rightarrow> page" where
  "page_set_dirty is_dirty p = p\<lparr>pg_dirty := is_dirty\<rparr>"

definition page_is_dirty :: "page \<Rightarrow> bool" where
  "page_is_dirty p = pg_dirty p"

definition page_size :: "page \<Rightarrow> nat" where
  "page_size p = length (pg_buffer p)"

definition page_number :: "page \<Rightarrow> page_id" where
  "page_number p = pg_pid p"

definition header_bitmap :: "bfp_header \<Rightarrow> bytes" where
  "header_bitmap h = hd_bitmap h"

definition max_page_count :: nat where
  "max_page_count = BFP_MAX_PAGE_NUM"

text \<open>The constructor without a number of frames, the destructor, and \<open>open\<close>, which is not implemented.\<close>

definition pool_open_default :: "bytes option \<Rightarrow> pool res" where
  "pool_open_default content = pool_open content 32"

definition pool_destroy :: "pool \<Rightarrow> pool res" where
  "pool_destroy bp = (if \<not> bp_closed bp then pool_close bp else Inr bp)"

definition pool_reopen :: "pool \<Rightarrow> pool res" where
  "pool_reopen bp = Inl Assert_Failed"

end
