(* ===== verification/Record_Page.thy ===== *)
theory Record_Page
  imports Buffer_Pool
begin

text \<open>
  \<open>RecordPage\<close>, \<open>Record\<close> and \<open>RecordView\<close> of \<open>src/storage/bufferpool/record.hpp\<close>: the slotted
  page. A page starts with the words free_addr_start, free_addr_end and rec_idx_count and the offset
  of every record; the records grow down from the end of the page, a delete mark before each. The
  page a \<open>RecordPage\<close> points to is an argument of its operations and is returned with them. A
  \<open>RecordView\<close> is a span of the page: its two ends.
\<close>

section \<open>Definitions\<close>

record rpage =
  free_addr_start :: size_t
  free_addr_end :: size_t
  rec_idx_count :: size_t
  rec_idx :: "size_t list"

record rec =
  rc_is_deleted :: bool
  rc_rid :: rid
  rc_data :: bytes

record recview =
  rv_is_deleted :: bool
  rv_rid :: rid
  rv_data :: "nat \<times> nat"

definition rpage_default :: rpage where
  "rpage_default = \<lparr>free_addr_start = 0, free_addr_end = of_nat PAGE_SIZE, rec_idx_count = 0,
                    rec_idx = []\<rparr>"

definition rec_new :: "bytes \<Rightarrow> rec" where
  "rec_new bs = \<lparr>rc_is_deleted = False, rc_rid = rid_default, rc_data = bs\<rparr>"

definition rec_reset :: "rec \<Rightarrow> rec" where
  "rec_reset r = r\<lparr>rc_is_deleted := False, rc_data := [], rc_rid := \<lparr>page_id = INVALID_ID, slot_id = INVALID_ID\<rparr>\<rparr>"

definition rec_append :: "bytes \<Rightarrow> rec \<Rightarrow> rec" where
  "rec_append bs r = r\<lparr>rc_data := rc_data r @ bs\<rparr>"

text \<open>The word the page holds at a byte offset.\<close>

definition load_size :: "nat \<Rightarrow> bytes \<Rightarrow> size_t res" where
  "load_size off data = andthen (load off 8 data) (\<lambda>b. Inr (le_word b))"

definition store_size :: "nat \<Rightarrow> size_t \<Rightarrow> bytes \<Rightarrow> bytes res" where
  "store_size off w data = store off (le_bytes 8 w) data"

definition read_rec_idx :: "bytes \<Rightarrow> size_t \<Rightarrow> size_t list res" where
  "read_rec_idx data count =
     each (\<lambda>i acc. andthen (load_size ((3 + i) * 8) data) (\<lambda>idx. Inr (acc @ [idx])))
       [0..<unat count] []"

text \<open>\<open>init\<close> on a page; every member is overwritten, the offsets it had are cleared.\<close>

definition rpage_init :: "page \<Rightarrow> (rpage \<times> page) res" where
  "rpage_init p =
     andthen (load_size 0 (pg_buffer p)) (\<lambda>fs.
     andthen (load_size 8 (pg_buffer p)) (\<lambda>fe.
     andthen (load_size 16 (pg_buffer p)) (\<lambda>count.
     andthen (if fe = 0 then store_size 8 (of_nat PAGE_SIZE) (pg_buffer p) else Inr (pg_buffer p))
       (\<lambda>data.
     andthen (read_rec_idx data count) (\<lambda>idx.
     Inr (\<lparr>free_addr_start = fs, free_addr_end = (if fe = 0 then of_nat PAGE_SIZE else fe),
           rec_idx_count = count, rec_idx = idx\<rparr>, p\<lparr>pg_buffer := data\<rparr>))))))"

definition rpage_enough :: "rpage \<Rightarrow> size_t \<Rightarrow> bool" where
  "rpage_enough rp record_size =
     (let start_idx = free_addr_end rp - record_size - 1;
          offset = 8 * (3 + of_nat (length (rec_idx rp)))
      in offset + 8 < start_idx)"

definition remain_free_size :: "rpage \<Rightarrow> size_t" where
  "remain_free_size rp = free_addr_end rp - free_addr_start rp"

definition write_head :: "rpage \<Rightarrow> page \<Rightarrow> page res" where
  "write_head rp p =
     andthen (store_size 0 (free_addr_start rp) (pg_buffer p)) (\<lambda>d1.
     andthen (store_size 8 (free_addr_end rp) d1) (\<lambda>d2.
     andthen (store_size 16 (rec_idx_count rp) d2) (\<lambda>d3.
     andthen (each (\<lambda>i d.
        andthen (store_size (8 * (3 + i)) (rec_idx rp ! i) d) (\<lambda>d'.
        andthen (require (\<not> 8 * (3 + of_nat i) \<ge> rec_idx rp ! i) Assert_Failed) (\<lambda>_. Inr d')))
        [0..<length (rec_idx rp)] d3) (\<lambda>d4.
     Inr (p\<lparr>pg_buffer := d4\<rparr>)))))"

definition write_head_insert :: "rpage \<Rightarrow> rid \<Rightarrow> size_t \<Rightarrow> page \<Rightarrow> page res" where
  "write_head_insert rp r idx p =
     andthen (store_size 0 (free_addr_start rp) (pg_buffer p)) (\<lambda>d1.
     andthen (store_size 8 (free_addr_end rp) d1) (\<lambda>d2.
     andthen (store_size 16 (rec_idx_count rp) d2) (\<lambda>d3.
     andthen (store_size (unat (8 * (3 + slot_id r))) idx d3) (\<lambda>d4.
     Inr (p\<lparr>pg_buffer := d4\<rparr>)))))"

definition rpage_insert :: "rec \<Rightarrow> rid \<Rightarrow> rpage \<Rightarrow> page \<Rightarrow> (bool \<times> rid \<times> rpage \<times> page) res" where
  "rpage_insert rc r rp p =
     (if \<not> rpage_enough rp (of_nat (length (rc_data rc))) then Inr (False, r, rp, p)
      else
        let start_idx = free_addr_end rp - of_nat (length (rc_data rc)) - 1 in
        andthen (store (unat start_idx) [0] (pg_buffer p)) (\<lambda>d1.
        andthen (store (unat start_idx + 1) (rc_data rc) d1) (\<lambda>d2.
        let r' = \<lparr>page_id = pg_pid p, slot_id = of_nat (length (rec_idx rp))\<rparr>;
            rp' = \<lparr>free_addr_start = free_addr_start rp + 1, free_addr_end = start_idx,
                   rec_idx_count = rec_idx_count rp + 1, rec_idx = rec_idx rp @ [start_idx]\<rparr> in
        andthen (write_head_insert rp' r' start_idx (p\<lparr>pg_buffer := d2\<rparr>)) (\<lambda>p'.
        Inr (True, r', rp', p')))))"

definition no_slot :: "rpage \<Rightarrow> rid \<Rightarrow> bool" where
  "no_slot rp r \<longleftrightarrow> rec_idx rp = [] \<or> length (rec_idx rp) \<le> unat (slot_id r)"

definition rpage_remove :: "rid \<Rightarrow> rpage \<Rightarrow> page \<Rightarrow> (bool \<times> page) res" where
  "rpage_remove r rp p =
     (if no_slot rp r then Inr (False, p)
      else
        let start_idx = rec_idx rp ! unat (slot_id r) in
        andthen (store (unat start_idx) [1] (pg_buffer p)) (\<lambda>d. Inr (True, p\<lparr>pg_buffer := d\<rparr>)))"

definition rpage_contain :: "rid \<Rightarrow> rpage \<Rightarrow> page \<Rightarrow> rc res" where
  "rpage_contain r rp p =
     (if no_slot rp r then Inr OUT_OF_RANGE
      else
        let start_idx = rec_idx rp ! unat (slot_id r) in
        andthen (load (unat start_idx) 1 (pg_buffer p)) (\<lambda>s.
        Inr (if s = [1] then RECORD_IS_DELETED else SUCCESS)))"

definition slot_end :: "rpage \<Rightarrow> rid \<Rightarrow> size_t" where
  "slot_end rp r =
     (if slot_id r = 0 then of_nat PAGE_SIZE else rec_idx rp ! unat (slot_id r - 1))"

definition rpage_get :: "rec \<Rightarrow> rid \<Rightarrow> rpage \<Rightarrow> page \<Rightarrow> (bool \<times> rec) res" where
  "rpage_get rc r rp p =
     (if no_slot rp r then Inr (False, rc)
      else
        let start_idx = rec_idx rp ! unat (slot_id r); end_idx = slot_end rp r in
        andthen (load (unat start_idx) 1 (pg_buffer p)) (\<lambda>s.
        if s = [1] then Inr (False, rc\<lparr>rc_is_deleted := True\<rparr>)
        else
          andthen (load (unat start_idx + 1) (unat (end_idx - start_idx - 1)) (pg_buffer p)) (\<lambda>d.
          Inr (True, rc\<lparr>rc_data := d, rc_is_deleted := False, rc_rid := r\<rparr>))))"

definition rpage_get_view :: "recview \<Rightarrow> rid \<Rightarrow> rpage \<Rightarrow> page \<Rightarrow> (bool \<times> recview) res" where
  "rpage_get_view rv r rp p =
     (if no_slot rp r then Inr (False, rv)
      else
        let start_idx = rec_idx rp ! unat (slot_id r); end_idx = slot_end rp r in
        andthen (load (unat start_idx) 1 (pg_buffer p)) (\<lambda>s.
        if s = [1] then Inr (False, rv\<lparr>rv_is_deleted := True\<rparr>)
        else Inr (True, rv\<lparr>rv_data := (unat start_idx + 1, unat end_idx), rv_is_deleted := False,
                           rv_rid := r\<rparr>)))"

section \<open>What a page holds\<close>

definition word_at :: "nat \<Rightarrow> bytes \<Rightarrow> size_t" where
  "word_at k b = le_word (chunk (k * 8) 8 b)"

definition slot_count :: "bytes \<Rightarrow> nat" where
  "slot_count b = unat (word_at 2 b)"

definition slot_off :: "bytes \<Rightarrow> nat \<Rightarrow> nat" where
  "slot_off b i = unat (word_at (3 + i) b)"

text \<open>The upper end of slot \<open>i\<close>; \<open>slot_lim b (slot_count b)\<close> is where the free space ends.\<close>

definition slot_lim :: "bytes \<Rightarrow> nat \<Rightarrow> nat" where
  "slot_lim b i = (if i = 0 then PAGE_SIZE else slot_off b (i - 1))"

definition slot_at :: "bytes \<Rightarrow> nat \<Rightarrow> bytes option" where
  "slot_at b i =
     (if b ! slot_off b i = 1 then None
      else Some (chunk (slot_off b i + 1) (slot_lim b i - slot_off b i - 1) b))"

text \<open>The records of a page, by slot; a deleted one is \<open>None\<close>.\<close>

definition slots_of :: "bytes \<Rightarrow> bytes option list" where
  "slots_of b = map (slot_at b) [0..<slot_count b]"

definition page_wf :: "bytes \<Rightarrow> bool" where
  "page_wf b \<longleftrightarrow>
     length b = PAGE_SIZE \<and> unat (word_at 1 b) = slot_lim b (slot_count b) \<and>
     24 + 8 * slot_count b \<le> slot_lim b (slot_count b) \<and>
     (\<forall>i < slot_count b. slot_off b i < slot_lim b i)"

text \<open>A page of a file that was never used as a record page.\<close>

definition page_unused :: "bytes \<Rightarrow> bool" where
  "page_unused b \<longleftrightarrow> length b = PAGE_SIZE \<and> word_at 1 b = 0 \<and> word_at 2 b = 0"

definition rpage_of :: "bytes \<Rightarrow> rpage" where
  "rpage_of b = \<lparr>free_addr_start = word_at 0 b, free_addr_end = word_at 1 b,
                 rec_idx_count = word_at 2 b,
                 rec_idx = map (\<lambda>i. word_at (3 + i) b) [0..<slot_count b]\<rparr>"

subsection \<open>Reading and writing the header words\<close>

lemma word_at_write:
  assumes "off = j * 8" "off + 8 \<le> length b" "k * 8 + 8 \<le> length b"
  shows "word_at k (blit off (le_bytes 8 w) b) = (if k = j then w else word_at k b)"
proof (cases "k = j")
  case True
  with assms show ?thesis by (simp add: word_at_def size_field.read_written le_word_le_bytes)
next
  case False
  then have "k * 8 + 8 \<le> off \<or> off + 8 \<le> k * 8" using assms(1) by linarith
  with False assms show ?thesis by (simp add: word_at_def size_field.read_other)
qed

lemma word_at_beside:
  "off + length src \<le> length b \<Longrightarrow> k * 8 + 8 \<le> off \<Longrightarrow>
   word_at k (blit off src b) = word_at k b"
  by (simp add: word_at_def size_field.read_beside)

lemma load_size_word:
  "off = k * 8 \<Longrightarrow> off + 8 \<le> length b \<Longrightarrow> load_size off b = Inr (word_at k b)"
  by (simp add: load_size_def load_def word_at_def)

lemma store_size_blit:
  "off + 8 \<le> length b \<Longrightarrow> store_size off w b = Inr (blit off (le_bytes 8 w) b)"
  by (simp add: store_size_def store_def)

lemma read_rec_idx_words:
  assumes "24 + 8 * unat count \<le> length b"
  shows "read_rec_idx b count = Inr (map (\<lambda>i. word_at (3 + i) b) [0..<unat count])"
proof -
  have "each (\<lambda>i acc. andthen (load_size ((3 + i) * 8) b) (\<lambda>idx. Inr (acc @ [idx]))) [0..<n] [] =
      Inr (map (\<lambda>i. word_at (3 + i) b) [0..<n])" if "24 + 8 * n \<le> length b" for n
    using that
    by (induction n) (simp_all add: each_append load_size_word [where k = "3 + m" for m])
  with assms show ?thesis by (simp add: read_rec_idx_def)
qed

subsection \<open>The layout of the slots\<close>

lemma slot_lim_simps [simp]: "slot_lim b 0 = PAGE_SIZE" "slot_lim b (Suc i) = slot_off b i"
  by (simp_all add: slot_lim_def)

lemma page_wfD:
  assumes "page_wf b"
  shows "length b = PAGE_SIZE" "unat (word_at 1 b) = slot_lim b (slot_count b)"
    "24 + 8 * slot_count b \<le> slot_lim b (slot_count b)"
    "i < slot_count b \<Longrightarrow> slot_off b i < slot_lim b i"
  using assms unfolding page_wf_def by blast+

lemma slot_lim_mono:
  assumes "page_wf b" "i \<le> j" "j \<le> slot_count b"
  shows "slot_lim b j \<le> slot_lim b i"
  using assms(2,3)
proof (induction j rule: dec_induct)
  case (step k)
  then have "slot_off b k < slot_lim b k" using page_wfD(4) [OF assms(1)] by simp
  with step show ?case by simp
qed simp

lemma slot_bounds:
  assumes "page_wf b" "i < slot_count b"
  shows "slot_off b i < slot_lim b i" "slot_lim b i \<le> PAGE_SIZE"
    "slot_lim b (slot_count b) \<le> slot_off b i" "24 + 8 * slot_count b \<le> slot_off b i"
proof -
  show "slot_off b i < slot_lim b i" using page_wfD(4) [OF assms] .
  show "slot_lim b i \<le> PAGE_SIZE"
    using slot_lim_mono [OF assms(1), of 0 i] assms(2) by simp
  show "slot_lim b (slot_count b) \<le> slot_off b i"
    using slot_lim_mono [OF assms(1), of "Suc i" "slot_count b"] assms(2) by simp
  then show "24 + 8 * slot_count b \<le> slot_off b i"
    using page_wfD(3) [OF assms(1)] by simp
qed

lemma slot_at_cong:
  assumes "slot_off b' i = slot_off b i" "slot_lim b' i = slot_lim b i"
    and "\<And>k. slot_off b i \<le> k \<Longrightarrow> k < slot_lim b i \<Longrightarrow> b' ! k = b ! k"
    and "slot_off b i < slot_lim b i" "slot_lim b i \<le> length b" "length b' = length b"
  shows "slot_at b' i = slot_at b i"
proof -
  have "chunk (slot_off b i + 1) (slot_lim b i - slot_off b i - 1) b' =
      chunk (slot_off b i + 1) (slot_lim b i - slot_off b i - 1) b"
    by (rule nth_equalityI) (use assms(3-6) in \<open>auto simp: nth_chunk\<close>)
  with assms show ?thesis by (simp add: slot_at_def)
qed

lemma length_slots_of [simp]: "length (slots_of b) = slot_count b"
  by (simp add: slots_of_def)

lemma slots_of_nth [simp]: "i < slot_count b \<Longrightarrow> slots_of b ! i = slot_at b i"
  by (simp add: slots_of_def)

section \<open>Opening a page\<close>

lemma page_wf_length [simp]: "page_wf b \<Longrightarrow> length b = PAGE_SIZE"
  by (rule page_wfD(1))

lemma page_wf_fits: "page_wf b \<Longrightarrow> 24 + 8 * slot_count b \<le> PAGE_SIZE"
  using slot_lim_mono [of b 0 "slot_count b"] page_wfD(3) [of b] by simp

lemma free_end_nonzero: "page_wf b \<Longrightarrow> word_at 1 b \<noteq> 0"
  using page_wfD(2,3) [of b] by (metis add_is_0 le_zero_eq unat_0 zero_neq_numeral)

lemma init_correct:
  assumes "page_wf b" "pg_buffer p = b"
  shows "rpage_init p = Inr (rpage_of b, p)"
proof -
  have n: "24 + 8 * slot_count b \<le> length b" using page_wf_fits [OF assms(1)] assms(1) by simp
  have "word_at 1 b \<noteq> 0" by (rule free_end_nonzero [OF assms(1)])
  moreover have "load_size 0 b = Inr (word_at 0 b)" "load_size 8 b = Inr (word_at 1 b)"
    "load_size 16 b = Inr (word_at 2 b)"
    using n by (simp_all add: load_size_word [where k = 0] load_size_word [where k = 1]
        load_size_word [where k = 2])
  ultimately show ?thesis
    using read_rec_idx_words [of "word_at 2 b" b] n assms(2)
    by (simp add: rpage_init_def rpage_of_def slot_count_def)
qed

definition page_formatted :: "bytes \<Rightarrow> bytes" where
  "page_formatted b = (if word_at 1 b = 0 then blit 8 (le_bytes 8 (of_nat PAGE_SIZE :: size_t)) b else b)"

lemma formatted_wf: "page_wf b \<Longrightarrow> page_formatted b = b"
  using free_end_nonzero by (simp add: page_formatted_def)

lemma formatted_unused:
  assumes "page_unused b"
  shows "page_wf (page_formatted b)" "slots_of (page_formatted b) = []"
proof -
  let ?b = "blit 8 (le_bytes 8 (of_nat PAGE_SIZE :: size_t)) b"
  have b: "page_formatted b = ?b" "length b = PAGE_SIZE" "length ?b = PAGE_SIZE"
    using assms by (auto simp: page_unused_def page_formatted_def PAGE_SIZE_def)
  have "word_at 1 ?b = of_nat PAGE_SIZE" "word_at 2 ?b = 0"
    using assms b(2) by (simp_all add: page_unused_def word_at_write [where j = 1] PAGE_SIZE_def)
  then have "slot_count ?b = 0" "unat (word_at 1 ?b) = PAGE_SIZE"
    by (simp_all add: slot_count_def PAGE_SIZE_def)
  then show "page_wf (page_formatted b)" "slots_of (page_formatted b) = []"
    using b unfolding page_wf_def by (simp_all add: slots_of_def PAGE_SIZE_def)
qed

lemma init_unused:
  assumes "page_unused b" "pg_buffer p = b"
  shows "rpage_init p = Inr (rpage_of (page_formatted b), p\<lparr>pg_buffer := page_formatted b\<rparr>)"
proof -
  let ?b = "blit 8 (le_bytes 8 (of_nat PAGE_SIZE :: size_t)) b"
  have b: "page_formatted b = ?b" "length b = PAGE_SIZE" "length ?b = PAGE_SIZE"
    "word_at 1 b = 0" "word_at 2 b = 0"
    using assms by (auto simp: page_unused_def page_formatted_def PAGE_SIZE_def)
  have w: "word_at 0 ?b = word_at 0 b" "word_at 1 ?b = of_nat PAGE_SIZE" "word_at 2 ?b = 0"
    using b by (simp_all add: word_at_write [where j = 1] PAGE_SIZE_def)
  have "load_size 0 b = Inr (word_at 0 b)" "load_size 8 b = Inr 0" "load_size 16 b = Inr 0"
    "store_size 8 (of_nat PAGE_SIZE) b = Inr ?b"
    using b by (simp_all add: load_size_word [where k = 0] load_size_word [where k = 1]
        load_size_word [where k = 2] store_size_blit PAGE_SIZE_def)
  then show ?thesis
    using w b(1) assms(2) by (simp add: rpage_init_def rpage_of_def read_rec_idx_def slot_count_def)
qed

section \<open>Inserting\<close>

text \<open>The page after an insert at \<open>st\<close>: mark, bytes, header words.\<close>

definition inserted :: "bytes \<Rightarrow> nat \<Rightarrow> bytes \<Rightarrow> bytes" where
  "inserted b st data =
     blit ((3 + slot_count b) * 8) (le_bytes 8 (of_nat st :: size_t))
       (blit 16 (le_bytes 8 (word_at 2 b + 1))
         (blit 8 (le_bytes 8 (of_nat st :: size_t))
           (blit 0 (le_bytes 8 (word_at 0 b + 1)) (blit (st + 1) data (blit st [0] b)))))"

lemma inserted_facts:
  assumes wf: "page_wf b" and st: "24 + 8 * slot_count b + 8 \<le> st"
    "st + length data + 1 = slot_lim b (slot_count b)"
  shows "length (inserted b st data) = PAGE_SIZE"
    "slot_count (inserted b st data) = slot_count b + 1"
    "word_at 0 (inserted b st data) = word_at 0 b + 1"
    "word_at 1 (inserted b st data) = of_nat st"
    "word_at 2 (inserted b st data) = word_at 2 b + 1"
    "i < slot_count b \<Longrightarrow> word_at (3 + i) (inserted b st data) = word_at (3 + i) b"
    "word_at (3 + slot_count b) (inserted b st data) = of_nat st"
    "k \<ge> 32 + 8 * slot_count b \<Longrightarrow> k < PAGE_SIZE \<Longrightarrow>
       inserted b st data ! k = blit (st + 1) data (blit st [0] b) ! k"
proof -
  let ?n = "slot_count b"
  have len: "length b = 1024" using wf by (simp add: PAGE_SIZE_def)
  have fe: "st + length data + 1 \<le> 1024"
    using st(2) slot_lim_mono [OF wf, of 0 ?n] by (simp add: PAGE_SIZE_def)
  let ?b2 = "blit (st + 1) data (blit st [0] b)"
  let ?b3 = "blit 0 (le_bytes 8 (word_at 0 b + 1)) ?b2"
  let ?b4 = "blit 8 (le_bytes 8 (of_nat st :: size_t)) ?b3"
  let ?b5 = "blit 16 (le_bytes 8 (word_at 2 b + 1)) ?b4"
  have l: "length (blit st [0] b) = 1024" "length ?b2 = 1024" "length ?b3 = 1024"
    "length ?b4 = 1024" "length ?b5 = 1024"
    using len fe st(1) by simp_all
  then show "length (inserted b st data) = PAGE_SIZE"
    using st(1) fe by (simp add: inserted_def PAGE_SIZE_def)
  have b2: "word_at j ?b2 = word_at j b" if "j \<le> 3 + ?n" for j
    using that fe st(1) l len by (simp add: word_at_beside)
  have w: "word_at j (inserted b st data) =
      (if j = 3 + ?n then of_nat st else if j = 2 then word_at 2 b + 1
       else if j = 1 then of_nat st else if j = 0 then word_at 0 b + 1 else word_at j b)"
    if "j \<le> 3 + ?n" for j
    using that b2 [OF that] l fe st(1)
    by (simp add: inserted_def word_at_write [where j = "3 + ?n"] word_at_write [where j = 2]
        word_at_write [where j = 1] word_at_write [where j = 0])
  show "word_at 0 (inserted b st data) = word_at 0 b + 1"
    "word_at 1 (inserted b st data) = of_nat st"
    "word_at (3 + slot_count b) (inserted b st data) = of_nat st"
    "i < slot_count b \<Longrightarrow> word_at (3 + i) (inserted b st data) = word_at (3 + i) b"
    by (simp_all add: w)
  show w2: "word_at 2 (inserted b st data) = word_at 2 b + 1" by (simp add: w)
  have "unat (word_at 2 b) + 1 < 2 ^ 64" using st fe by (simp add: slot_count_def)
  then show "slot_count (inserted b st data) = slot_count b + 1"
    by (simp add: w2 slot_count_def unat_word_ariths(1))
  show "k \<ge> 32 + 8 * slot_count b \<Longrightarrow> k < PAGE_SIZE \<Longrightarrow> inserted b st data ! k = ?b2 ! k"
    using l st(1) fe by (simp add: inserted_def nth_blit PAGE_SIZE_def)
qed

lemma inserted_wf:
  assumes wf: "page_wf b" and st: "24 + 8 * slot_count b + 8 \<le> st"
    "st + length data + 1 = slot_lim b (slot_count b)"
  shows "page_wf (inserted b st data)"
    "slots_of (inserted b st data) = slots_of b @ [Some data]"
    "rpage_of (inserted b st data) =
       \<lparr>free_addr_start = word_at 0 b + 1, free_addr_end = of_nat st,
        rec_idx_count = word_at 2 b + 1,
        rec_idx = rec_idx (rpage_of b) @ [of_nat st]\<rparr>"
proof -
  let ?n = "slot_count b"
  let ?b = "inserted b st data"
  note f = inserted_facts [OF assms]
  have fe: "st + length data + 1 \<le> 1024"
    using st(2) slot_lim_mono [OF wf, of 0 ?n] by (simp add: PAGE_SIZE_def)
  have len: "length b = 1024" using wf by (simp add: PAGE_SIZE_def)
  have ust: "unat (of_nat st :: size_t) = st" using fe by (simp add: unat_of_nat)
  have off: "slot_off ?b i = slot_off b i" if "i < ?n" for i
    using that by (simp add: slot_off_def f(6))
  have offn: "slot_off ?b ?n = st" by (simp add: slot_off_def f(7) ust)
  have lim: "slot_lim ?b i = slot_lim b i" if "i \<le> ?n" for i
    using that off by (cases i) simp_all
  show "page_wf ?b"
    unfolding page_wf_def f(2)
    using f(1,4) ust offn off lim slot_bounds(1) [OF wf] st by (auto simp: less_Suc_eq)
  have at: "slot_at ?b i = slot_at b i" if "i < ?n" for i
  proof (rule slot_at_cong)
    fix k assume k: "slot_off b i \<le> k" "k < slot_lim b i"
    then have "slot_lim b ?n \<le> k" "k < PAGE_SIZE"
      using slot_bounds [OF wf that] by linarith+
    then show "?b ! k = b ! k"
      using f(8) [of k] st len fe by (simp add: nth_blit PAGE_SIZE_def)
  qed (use slot_bounds [OF wf that] off lim that f(1) wf in simp_all)
  have "?b ! st = 0"
    using f(8) [of st] st fe len by (simp add: nth_blit PAGE_SIZE_def)
  moreover have "chunk (st + 1) (length data) ?b = data"
  proof (rule nth_equalityI)
    show "length (chunk (st + 1) (length data) ?b) = length data"
      using f(1) fe by (simp add: PAGE_SIZE_def)
    fix i assume "i < length (chunk (st + 1) (length data) ?b)"
    then have i: "i < length data" using f(1) fe by (simp add: PAGE_SIZE_def)
    then have "?b ! (st + 1 + i) = blit (st + 1) data (blit st [0] b) ! (st + 1 + i)"
      using f(8) [of "st + 1 + i"] fe st(1) by (simp add: PAGE_SIZE_def)
    also have "\<dots> = data ! i" using i fe len by (simp add: nth_blit)
    finally show "chunk (st + 1) (length data) ?b ! i = data ! i"
      using i f(1) fe by (simp add: nth_chunk PAGE_SIZE_def)
  qed
  ultimately have "slot_at ?b ?n = Some data"
    using lim [of ?n] st(2) [symmetric] by (simp add: slot_at_def offn)
  with at show "slots_of ?b = slots_of b @ [Some data]"
    by (simp add: slots_of_def f(2))
  show "rpage_of ?b = \<lparr>free_addr_start = word_at 0 b + 1, free_addr_end = of_nat st,
      rec_idx_count = word_at 2 b + 1, rec_idx = rec_idx (rpage_of b) @ [of_nat st]\<rparr>"
    using f by (simp add: rpage_of_def)
qed

text \<open>
  Where an insert of \<open>len\<close> bytes would start. The subtraction wraps for a record that does not
  fit below the free end, and the start is then beyond every page.
\<close>

lemma size_of_nat: "k < 2 ^ 64 \<Longrightarrow> unat (of_nat k :: size_t) = k"
  by (simp add: unat_of_nat)

lemma start_idx_unat:
  assumes wf: "page_wf b" and small: "len < 2 ^ 63"
  shows "unat (word_at 1 b - of_nat len - 1) =
    (if len < slot_lim b (slot_count b) then slot_lim b (slot_count b) - len - 1
     else 2 ^ 64 + slot_lim b (slot_count b) - len - 1)"
proof -
  let ?fe = "slot_lim b (slot_count b)"
  have fe: "?fe \<le> 1024" "unat (word_at 1 b) = ?fe"
    using slot_lim_mono [OF wf, of 0 "slot_count b"] page_wfD(2) [OF wf] by (simp_all add: PAGE_SIZE_def)
  then have w: "word_at 1 b = of_nat ?fe" by (simp add: word_unat_eq_iff unat_of_nat)
  have wrap: "(of_nat (2 ^ 64) :: size_t) = 0" by (simp flip: word_unat_eq_iff)
  show ?thesis
  proof (cases "len < ?fe")
    case True
    then have "(of_nat ?fe - of_nat len - 1 :: size_t) = of_nat (?fe - len - 1)"
      by (simp add: of_nat_diff algebra_simps)
    then have "unat (word_at 1 b - of_nat len - 1) = unat (of_nat (?fe - len - 1) :: size_t)"
      unfolding w by metis
    also have "\<dots> = ?fe - len - 1" using fe(1) by (intro size_of_nat) simp
    finally show ?thesis using True by simp
  next
    case False
    have "(of_nat (2 ^ 64 + ?fe - len - 1) :: size_t) = of_nat (2 ^ 64) + of_nat ?fe - of_nat (len + 1)"
      using small by (subst of_nat_add [symmetric], subst of_nat_diff [symmetric]) simp_all
    also have "\<dots> = of_nat ?fe - of_nat len - 1" by (simp only: wrap) simp
    finally have "unat (word_at 1 b - of_nat len - 1) = unat (of_nat (2 ^ 64 + ?fe - len - 1) :: size_t)"
      using w by simp
    also have "\<dots> = 2 ^ 64 + ?fe - len - 1"
      using False small by (intro size_of_nat) simp
    finally show ?thesis using False by simp
  qed
qed

lemma enough_iff:
  assumes wf: "page_wf b" and small: "len < 2 ^ 63"
  shows "rpage_enough (rpage_of b) (of_nat len) \<longleftrightarrow>
    slot_lim b (slot_count b) \<le> len \<or> 32 + 8 * slot_count b + len + 1 < slot_lim b (slot_count b)"
proof -
  have n: "24 + 8 * slot_count b \<le> 1024" using page_wf_fits [OF wf] by (simp add: PAGE_SIZE_def)
  have "(8 * (3 + of_nat (slot_count b)) + 8 :: size_t) = of_nat (32 + 8 * slot_count b)" by simp
  moreover have "unat (of_nat (32 + 8 * slot_count b) :: size_t) = 32 + 8 * slot_count b"
    using n by (intro size_of_nat) simp
  ultimately have "unat (8 * (3 + of_nat (slot_count b)) + 8 :: size_t) = 32 + 8 * slot_count b"
    by metis
  then show ?thesis
    using start_idx_unat [OF assms] n small
    by (auto simp: rpage_enough_def rpage_of_def Let_def word_less_nat_alt)
qed

lemma slots_fit:
  assumes "page_wf b"
  shows "slot_count b < 128" "unat (of_nat (slot_count b) :: size_t) = slot_count b"
  using page_wf_fits [OF assms] by (simp_all add: PAGE_SIZE_def size_of_nat)

lemma insert_fits:
  assumes wf: "page_wf b" and p: "pg_buffer p = b"
    and fit: "32 + 8 * slot_count b + length (rc_data rc) + 1 < slot_lim b (slot_count b)"
  shows "\<exists>b'. rpage_insert rc r (rpage_of b) p =
      Inr (True, \<lparr>page_id = pg_pid p, slot_id = of_nat (slot_count b)\<rparr>, rpage_of b', p\<lparr>pg_buffer := b'\<rparr>) \<and>
    page_wf b' \<and> slots_of b' = slots_of b @ [Some (rc_data rc)]"
proof -
  let ?fe = "slot_lim b (slot_count b)"
  define st where "st = ?fe - length (rc_data rc) - 1"
  let ?b = "inserted b st (rc_data rc)"
  have fe: "?fe \<le> 1024" using slot_lim_mono [OF wf, of 0 "slot_count b"] by (simp add: PAGE_SIZE_def)
  have st: "24 + 8 * slot_count b + 8 \<le> st" "st + length (rc_data rc) + 1 = ?fe"
    using fit by (simp_all add: st_def)
  have len: "length b = 1024" using wf by (simp add: PAGE_SIZE_def)
  have small: "length (rc_data rc) < 2 ^ 63" using fe st by simp
  have e: "rpage_enough (rpage_of b) (of_nat (length (rc_data rc)))"
    using enough_iff [OF wf small] fit by simp
  have u: "unat (word_at 1 b - of_nat (length (rc_data rc)) - 1) = st"
    using start_idx_unat [OF wf small] st by simp
  then have w: "word_at 1 b - of_nat (length (rc_data rc)) - 1 = of_nat st"
    using fe st by (simp add: word_unat_eq_iff unat_of_nat)
  have s: "unat (24 + 8 * of_nat (slot_count b) :: size_t) = (3 + slot_count b) * 8"
  proof -
    have "(24 + 8 * of_nat (slot_count b) :: size_t) = of_nat ((3 + slot_count b) * 8)" by simp
    moreover have "unat (of_nat ((3 + slot_count b) * 8) :: size_t) = (3 + slot_count b) * 8"
      using slots_fit(1) [OF wf] by (intro size_of_nat) simp
    ultimately show ?thesis by metis
  qed
  have "rpage_insert rc r (rpage_of b) p =
      Inr (True, \<lparr>page_id = pg_pid p, slot_id = of_nat (slot_count b)\<rparr>,
        \<lparr>free_addr_start = word_at 0 b + 1, free_addr_end = of_nat st,
         rec_idx_count = word_at 2 b + 1, rec_idx = rec_idx (rpage_of b) @ [of_nat st]\<rparr>,
        p\<lparr>pg_buffer := ?b\<rparr>)"
    using e st fe len p slots_fit(1) [OF wf]
    by (simp add: rpage_insert_def Let_def w size_of_nat s
        write_head_insert_def store_size_def store_def rpage_of_def inserted_def del: One_nat_def)
  then have "rpage_insert rc r (rpage_of b) p =
      Inr (True, \<lparr>page_id = pg_pid p, slot_id = of_nat (slot_count b)\<rparr>, rpage_of ?b,
        p\<lparr>pg_buffer := ?b\<rparr>)"
    by (simp only: inserted_wf(3) [OF wf st])
  with inserted_wf(1,2) [OF wf st] show ?thesis by blast
qed

lemma insert_refused:
  assumes wf: "page_wf b"
    and "length (rc_data rc) < slot_lim b (slot_count b)"
    and "\<not> 32 + 8 * slot_count b + length (rc_data rc) + 1 < slot_lim b (slot_count b)"
  shows "rpage_insert rc r (rpage_of b) p = Inr (False, r, rpage_of b, p)"
proof -
  have "length (rc_data rc) < 2 ^ 63"
    using assms(2) slot_lim_mono [OF wf, of 0 "slot_count b"] by (simp add: PAGE_SIZE_def)
  with enough_iff [OF wf] assms show ?thesis by (simp add: rpage_insert_def)
qed

lemma insert_overflow:
  assumes wf: "page_wf b" and p: "pg_buffer p = b"
    and big: "slot_lim b (slot_count b) \<le> length (rc_data rc)" "length (rc_data rc) < 2 ^ 63"
  shows "rpage_insert rc r (rpage_of b) p = Inl Out_Of_Bounds"
proof -
  have e: "rpage_enough (rpage_of b) (of_nat (length (rc_data rc)))"
    using enough_iff [OF wf big(2)] big by simp
  have "unat (word_at 1 b - of_nat (length (rc_data rc)) - 1) \<ge> PAGE_SIZE"
    using start_idx_unat [OF wf big(2)] big by (simp add: PAGE_SIZE_def)
  with e p wf show ?thesis
    by (simp add: rpage_insert_def Let_def store_def rpage_of_def)
qed

section \<open>Removing and reading\<close>

lemma no_slot_iff: "no_slot (rpage_of b) r \<longleftrightarrow> slot_count b \<le> unat (slot_id r)"
  by (auto simp: no_slot_def rpage_of_def)

lemma rec_idx_at: "i < slot_count b \<Longrightarrow> unat (rec_idx (rpage_of b) ! i) = slot_off b i"
  by (simp add: rpage_of_def slot_off_def)

lemma load_mark:
  assumes "page_wf b" "i < slot_count b"
  shows "load (slot_off b i) 1 b = Inr [b ! slot_off b i]"
  using slot_bounds [OF assms] assms(1)
  by (simp add: load_def chunk_def take_Suc_conv_app_nth hd_drop_conv_nth list_eq_iff_nth_eq min_def)

lemma remove_correct:
  assumes wf: "page_wf b" and p: "pg_buffer p = b" and s: "unat (slot_id r) < slot_count b"
  shows "\<exists>b'. rpage_remove r (rpage_of b) p = Inr (True, p\<lparr>pg_buffer := b'\<rparr>) \<and> page_wf b' \<and>
    slots_of b' = (slots_of b)[unat (slot_id r) := None] \<and> rpage_of b' = rpage_of b"
proof -
  let ?i = "unat (slot_id r)"
  let ?b = "blit (slot_off b ?i) [1] b"
  note bd = slot_bounds [OF wf s]
  have len: "length b = PAGE_SIZE" "length ?b = PAGE_SIZE" using wf bd by simp_all
  have w: "word_at k ?b = word_at k b" if "k < 3 + slot_count b" for k
    using that bd len by (simp add: word_at_beside)
  have c: "slot_count ?b = slot_count b" by (simp add: slot_count_def w)
  have off: "slot_off ?b j = slot_off b j" if "j < slot_count b" for j
    using that w [of "3 + j"] by (simp add: slot_off_def)
  have lim: "slot_lim ?b j = slot_lim b j" if "j \<le> slot_count b" for j
    using that off by (cases j) simp_all
  have "page_wf ?b"
    using page_wfD [OF wf] len c off lim w [of 1] unfolding page_wf_def by simp
  moreover have "slot_at ?b j = (if j = ?i then None else slot_at b j)" if "j < slot_count b" for j
  proof (cases "j = ?i")
    case True
    then show ?thesis using off [OF that] bd len by (simp add: slot_at_def nth_blit)
  next
    case False
    have "slot_at ?b j = slot_at b j"
    proof (rule slot_at_cong)
      fix k assume k: "slot_off b j \<le> k" "k < slot_lim b j"
      have "k \<noteq> slot_off b ?i"
      proof (cases "j < ?i")
        case True
        then show ?thesis
          using slot_lim_mono [OF wf, of "Suc j" ?i] s bd(1) k by simp
      next
        case F: False
        with False show ?thesis
          using slot_lim_mono [OF wf, of "Suc ?i" j] that k(2) by simp
      qed
      then show "?b ! k = b ! k"
        using k slot_bounds [OF wf that] bd len by (auto simp: nth_blit)
    qed (use that off lim slot_bounds [OF wf that] len in simp_all)
    with False show ?thesis by simp
  qed
  then have "slots_of ?b = (slots_of b)[?i := None]"
    by (intro nth_equalityI) (simp_all add: c nth_list_update)
  moreover have "rpage_of ?b = rpage_of b" by (simp add: rpage_of_def c w)
  moreover have "rpage_remove r (rpage_of b) p = Inr (True, p\<lparr>pg_buffer := ?b\<rparr>)"
    using s p bd len by (simp add: rpage_remove_def no_slot_iff rec_idx_at store_def)
  ultimately show ?thesis by blast
qed

lemma contain_correct:
  assumes "page_wf b" "pg_buffer p = b"
  shows "rpage_contain r (rpage_of b) p =
    Inr (if slot_count b \<le> unat (slot_id r) then OUT_OF_RANGE
         else if slots_of b ! unat (slot_id r) = None then RECORD_IS_DELETED else SUCCESS)"
  using load_mark [OF assms(1), of "unat (slot_id r)"] assms
  by (simp add: rpage_contain_def no_slot_iff rec_idx_at slot_at_def del: One_nat_def)

lemma slot_end_unat:
  assumes "page_wf b" "unat (slot_id r) < slot_count b"
  shows "unat (slot_end (rpage_of b) r) = slot_lim b (unat (slot_id r))"
proof (cases "slot_id r = 0")
  case True
  then show ?thesis by (simp add: slot_end_def PAGE_SIZE_def)
next
  case False
  then have "0 < unat (slot_id r)" by (simp add: unat_gt_0)
  then have "1 \<le> slot_id r" by (simp add: word_le_nat_alt)
  then have "unat (slot_id r - 1) = unat (slot_id r) - 1" by (simp add: unat_sub)
  with \<open>0 < unat (slot_id r)\<close> assms(2) False show ?thesis
    by (simp add: slot_end_def rec_idx_at slot_lim_def)
qed

lemma get_size:
  assumes "page_wf b" "i = unat (slot_id r)" "i < slot_count b"
  shows "unat (slot_end (rpage_of b) r - rec_idx (rpage_of b) ! i - 1) =
    slot_lim b i - slot_off b i - 1"
proof -
  let ?e = "slot_end (rpage_of b) r" and ?s = "rec_idx (rpage_of b) ! i"
  have u: "unat ?e = slot_lim b i" "unat ?s = slot_off b i" "slot_off b i < slot_lim b i"
    using assms slot_end_unat rec_idx_at slot_bounds(1) by simp_all
  then have "?s \<le> ?e" by (simp add: word_le_nat_alt)
  then have d: "unat (?e - ?s) = slot_lim b i - slot_off b i" using u by (simp add: unat_sub)
  with u have "1 \<le> ?e - ?s" by (simp add: word_le_nat_alt)
  with d show ?thesis by (simp add: unat_sub)
qed

lemma get_correct:
  assumes wf: "page_wf b" and p: "pg_buffer p = b"
  shows "rpage_get rc r (rpage_of b) p =
    Inr (if slot_count b \<le> unat (slot_id r) then (False, rc)
         else case slots_of b ! unat (slot_id r) of
           None \<Rightarrow> (False, rc\<lparr>rc_is_deleted := True\<rparr>)
         | Some d \<Rightarrow> (True, rc\<lparr>rc_data := d, rc_is_deleted := False, rc_rid := r\<rparr>))"
proof (cases "slot_count b \<le> unat (slot_id r)")
  case True
  then show ?thesis by (simp add: rpage_get_def no_slot_iff)
next
  case False
  then have i: "unat (slot_id r) < slot_count b" by simp
  note bd = slot_bounds [OF wf i]
  have "load (slot_off b (unat (slot_id r)) + 1)
      (slot_lim b (unat (slot_id r)) - slot_off b (unat (slot_id r)) - 1) b =
    Inr (chunk (slot_off b (unat (slot_id r)) + 1)
      (slot_lim b (unat (slot_id r)) - slot_off b (unat (slot_id r)) - 1) b)"
    using bd wf by (simp add: load_def)
  then show ?thesis
    using False p load_mark [OF wf i] get_size [OF wf refl i]
    by (simp add: rpage_get_def no_slot_iff rec_idx_at [OF i] slot_at_def Let_def del: One_nat_def)
qed

lemma get_view_correct:
  assumes wf: "page_wf b" and p: "pg_buffer p = b"
  shows "rpage_get_view rv r (rpage_of b) p =
    Inr (if slot_count b \<le> unat (slot_id r) then (False, rv)
         else if slots_of b ! unat (slot_id r) = None then (False, rv\<lparr>rv_is_deleted := True\<rparr>)
         else (True, rv\<lparr>rv_data := (slot_off b (unat (slot_id r)) + 1, slot_lim b (unat (slot_id r))),
                        rv_is_deleted := False, rv_rid := r\<rparr>))"
  using load_mark [OF wf, of "unat (slot_id r)"] slot_end_unat [OF wf, of r] p
  by (simp add: rpage_get_view_def no_slot_iff rec_idx_at slot_at_def Let_def del: One_nat_def)

section \<open>The rest of the interface\<close>

definition rpage_new :: "page \<Rightarrow> (rpage \<times> page) res" where
  "rpage_new p = rpage_init p"

definition rpage_record_count :: "rpage \<Rightarrow> size_t" where
  "rpage_record_count rp = rec_idx_count rp"

text \<open>On a well-formed page the count is the number of the slots, removed or not.\<close>

lemma record_count_slots:
  assumes "pg_buffer p = b" "page_wf b"
  shows "\<exists>rp. rpage_new p = Inr (rp, p) \<and> unat (rpage_record_count rp) = length (slots_of b)"
  using init_correct [OF assms(2,1)] by (simp add: rpage_new_def rpage_record_count_def rpage_of_def slot_count_def)

definition rec_of_range :: "bytes \<Rightarrow> rec" where
  "rec_of_range bs = rec_append bs (rec_new [])"

definition rec_to_string :: "rec \<Rightarrow> string" where
  "rec_to_string r = vector2string (rc_data r)"

definition rec_to_string_view :: "rec \<Rightarrow> string" where
  "rec_to_string_view r = vector2string (rc_data r)"

lemma rec_of_range_string: "rec_to_string (rec_of_range (string2vector s)) = s" "rec_of_range bs = rec_new bs"
  by (simp_all add: rec_to_string_def rec_of_range_def rec_append_def rec_new_def vector2string_string2vector)

end
