(* ===== verification/Pool_Invariant.thy ===== *)
theory Pool_Invariant
  imports Buffer_Pool
begin

text \<open>
  What the buffer pool keeps and what its operations do. \<open>pool_ok\<close> is the representation
  invariant: the directory, the frames, the free list and the replacer agree. \<open>pool_view\<close>
  abstracts a pool to the contents of the pages (resident ones from their frame, others from the
  file) and \<open>pool_pins\<close> to the pins its clients hold; the operations are specified on these two.
  The interface \<open>page_cache\<close> states that contract for the clients of the pool.
\<close>

section \<open>Invariant and abstraction\<close>

definition pool_view :: "pool \<Rightarrow> page_id \<Rightarrow> bytes" where
  "pool_view bp pid =
     (case map_of (bp_dir bp) pid of
        Some f \<Rightarrow> pg_buffer (bp_pages bp ! f)
      | None \<Rightarrow> disk_page (bp_disk bp) pid)"

definition pool_pins :: "pool \<Rightarrow> page_id \<Rightarrow> size_t" where
  "pool_pins bp pid =
     (case map_of (bp_dir bp) pid of
        Some f \<Rightarrow> pg_pin_count (bp_pages bp ! f)
      | None \<Rightarrow> 0)"

text \<open>The page of the frame agrees with the file or is marked to be written.\<close>

definition pool_saved :: "pool \<Rightarrow> page_id \<Rightarrow> bool" where
  "pool_saved bp pid =
     (case map_of (bp_dir bp) pid of
        Some f \<Rightarrow> pg_dirty (bp_pages bp ! f) \<or>
                  pg_buffer (bp_pages bp ! f) = disk_page (bp_disk bp) pid
      | None \<Rightarrow> True)"

definition frames_ok :: "page list \<Rightarrow> bool" where
  "frames_ok ps \<longleftrightarrow> (\<forall>p \<in> set ps. length (pg_buffer p) = PAGE_SIZE)"

definition dir_ok :: "(page_id \<times> nat) list \<Rightarrow> page list \<Rightarrow> bool" where
  "dir_ok d ps \<longleftrightarrow>
     distinct (map fst d) \<and>
     (\<forall>pid f. map_of d pid = Some f \<longrightarrow> page_ok pid \<and> f < length ps \<and> pg_pid (ps ! f) = pid)"

definition free_ok :: "nat list \<Rightarrow> page list \<Rightarrow> bool" where
  "free_ok fl ps \<longleftrightarrow>
     distinct fl \<and>
     (\<forall>f \<in> set fl. f < length ps \<and> pg_pid (ps ! f) = INVALID_ID \<and> \<not> pg_dirty (ps ! f))"

definition pool_ok :: "pool \<Rightarrow> bool" where
  "pool_ok bp \<longleftrightarrow>
     lru_inv (bp_replacer bp) \<and> lru_capacity (bp_replacer bp) = length (bp_pages bp) \<and>
     frames_ok (bp_pages bp) \<and> dir_ok (bp_dir bp) (bp_pages bp) \<and>
     free_ok (bp_free_list bp) (bp_pages bp) \<and>
     (\<forall>f < length (bp_pages bp). f \<notin> set (bp_free_list bp) \<longrightarrow>
        map_of (bp_dir bp) (pg_pid (bp_pages bp ! f)) = Some f) \<and>
     (\<forall>f. f \<in> set (lru_order (bp_replacer bp)) \<longleftrightarrow>
        f < length (bp_pages bp) \<and> f \<notin> set (bp_free_list bp) \<and>
        pg_pin_count (bp_pages bp ! f) = 0) \<and>
     (\<forall>pid. pool_pins bp pid = 0 \<longrightarrow> pool_saved bp pid)"

lemma page_ok_INVALID [simp]: "\<not> page_ok INVALID_ID"
  by (simp add: page_ok_def INVALID_ID_def unsigned_minus_1_eq_mask mask_eq_exp_minus_1)

lemma pool_okD:
  assumes "pool_ok bp"
  shows "lru_inv (bp_replacer bp)" "lru_capacity (bp_replacer bp) = length (bp_pages bp)"
    "frames_ok (bp_pages bp)" "dir_ok (bp_dir bp) (bp_pages bp)"
    "free_ok (bp_free_list bp) (bp_pages bp)"
    "f < length (bp_pages bp) \<Longrightarrow> f \<notin> set (bp_free_list bp) \<Longrightarrow>
       map_of (bp_dir bp) (pg_pid (bp_pages bp ! f)) = Some f"
    "f \<in> set (lru_order (bp_replacer bp)) \<longleftrightarrow>
       f < length (bp_pages bp) \<and> f \<notin> set (bp_free_list bp) \<and> pg_pin_count (bp_pages bp ! f) = 0"
    "pool_pins bp pid = 0 \<Longrightarrow> pool_saved bp pid"
  using assms by (auto simp: pool_ok_def)

lemma dir_okD:
  assumes "dir_ok d ps" "map_of d pid = Some f"
  shows "page_ok pid" "f < length ps" "pg_pid (ps ! f) = pid"
  using assms by (auto simp: dir_ok_def)

lemma dir_inj:
  "dir_ok d ps \<Longrightarrow> map_of d p = Some f \<Longrightarrow> map_of d q = Some f \<Longrightarrow> p = q"
  by (metis dir_okD(3))

lemma resident_not_free:
  assumes "pool_ok bp" "map_of (bp_dir bp) pid = Some f"
  shows "f \<notin> set (bp_free_list bp)"
proof
  assume "f \<in> set (bp_free_list bp)"
  then have "pg_pid (bp_pages bp ! f) = INVALID_ID"
    using pool_okD(5) [OF assms(1)] by (simp add: free_ok_def)
  with dir_okD [OF pool_okD(4) [OF assms(1)] assms(2)] show False by simp
qed

lemma frames_okD: "frames_ok ps \<Longrightarrow> f < length ps \<Longrightarrow> length (pg_buffer (ps ! f)) = PAGE_SIZE"
  by (simp add: frames_ok_def)

lemma length_pool_view: "pool_ok bp \<Longrightarrow> length (pool_view bp pid) = PAGE_SIZE"
  using frames_okD dir_okD(2) pool_okD(3,4) by (fastforce simp: pool_view_def split: option.split)

lemma frame_at_resident:
  "pool_ok bp \<Longrightarrow> map_of (bp_dir bp) pid = Some f \<Longrightarrow> frame_at f bp = Inr (bp_pages bp ! f)"
  using dir_okD(2) pool_okD(4) by (fastforce simp: frame_at_def)

lemma set_frame_simps [simp]:
  "bp_dir (set_frame f p bp) = bp_dir bp"
  "bp_free_list (set_frame f p bp) = bp_free_list bp"
  "bp_pages (set_frame f p bp) = (bp_pages bp)[f := p]"
  "bp_replacer (set_frame f p bp) = bp_replacer bp"
  "bp_disk (set_frame f p bp) = bp_disk bp"
  "bp_head (set_frame f p bp) = bp_head bp"
  "bp_closed (set_frame f p bp) = bp_closed bp"
  by (simp_all add: set_frame_def)

lemma frames_ok_update:
  "frames_ok ps \<Longrightarrow> length (pg_buffer p) = PAGE_SIZE \<Longrightarrow> frames_ok (ps[f := p])"
  by (auto simp: frames_ok_def dest: set_update_subset_insert [THEN subsetD])

text \<open>Updating a resident frame in place, its page id unchanged.\<close>

lemma nth_update_pid: "pg_pid p = pg_pid (ps ! f) \<Longrightarrow> pg_pid (ps[f := p] ! g) = pg_pid (ps ! g)"
  by (cases "f < length ps") (auto simp: nth_list_update list_update_beyond)

lemma dir_ok_update:
  "dir_ok d ps \<Longrightarrow> pg_pid p = pg_pid (ps ! f) \<Longrightarrow> dir_ok d (ps[f := p])"
  by (simp add: dir_ok_def nth_update_pid)

lemma free_ok_update:
  assumes "free_ok fl ps" "f \<notin> set fl"
  shows "free_ok fl (ps[f := p])"
proof -
  have "ps[f := p] ! g = ps ! g" if "g \<in> set fl" for g
    using that assms(2) by (metis nth_list_update_neq)
  with assms(1) show ?thesis by (simp add: free_ok_def)
qed

lemma pool_ok_update:
  assumes ok: "pool_ok bp" and res: "map_of (bp_dir bp) pid = Some f"
    and p: "pg_pid p = pid" "length (pg_buffer p) = PAGE_SIZE"
    and bp': "bp_dir bp' = bp_dir bp" "bp_free_list bp' = bp_free_list bp"
      "bp_pages bp' = (bp_pages bp)[f := p]" "bp_disk bp' = bp_disk bp"
    and rep: "lru_inv (bp_replacer bp')" "lru_capacity (bp_replacer bp') = lru_capacity (bp_replacer bp)"
      "set (lru_order (bp_replacer bp')) =
         (if pg_pin_count p = 0 then insert f (set (lru_order (bp_replacer bp)))
          else set (lru_order (bp_replacer bp)) - {f})"
    and saved: "pg_pin_count p = 0 \<Longrightarrow> pg_dirty p \<or> pg_buffer p = disk_page (bp_disk bp) pid"
  shows "pool_ok bp'"
    "pool_view bp' = (pool_view bp)(pid := pg_buffer p)"
    "pool_pins bp' = (pool_pins bp)(pid := pg_pin_count p)"
    "q \<noteq> pid \<Longrightarrow> pool_saved bp' q = pool_saved bp q"
    "pool_saved bp' pid \<longleftrightarrow> pg_dirty p \<or> pg_buffer p = disk_page (bp_disk bp) pid"
proof -
  note inv = pool_okD [OF ok]
  note d = dir_okD [OF inv(4) res]
  have nf: "f \<notin> set (bp_free_list bp)" by (rule resident_not_free [OF ok res])
  have here: "bp_pages bp' ! f = p" using d by (simp add: bp')
  have other: "bp_pages bp' ! g = bp_pages bp ! g"
    if "map_of (bp_dir bp) q = Some g" "q \<noteq> pid" for q g
  proof -
    have "g \<noteq> f" using dir_inj [OF inv(4)] that res by blast
    then show ?thesis by (simp add: bp')
  qed
  show "pool_view bp' = (pool_view bp)(pid := pg_buffer p)"
    using res here other by (auto simp: fun_eq_iff pool_view_def bp'(1,4) split: option.split)
  show pins: "pool_pins bp' = (pool_pins bp)(pid := pg_pin_count p)"
    using res here other by (auto simp: fun_eq_iff pool_pins_def bp'(1,4) split: option.split)
  show saved': "q \<noteq> pid \<Longrightarrow> pool_saved bp' q = pool_saved bp q" for q
    using other by (auto simp: pool_saved_def bp'(1,4) split: option.split)
  show here': "pool_saved bp' pid \<longleftrightarrow> pg_dirty p \<or> pg_buffer p = disk_page (bp_disk bp) pid"
    using res here by (simp add: pool_saved_def bp'(1,4))
  have "dir_ok (bp_dir bp) (bp_pages bp')" "free_ok (bp_free_list bp) (bp_pages bp')"
    "frames_ok (bp_pages bp')"
    using inv(3-5) p d nf by (simp_all add: bp' dir_ok_update free_ok_update frames_ok_update)
  moreover have "map_of (bp_dir bp) (pg_pid (bp_pages bp' ! g)) = Some g"
    if "g < length (bp_pages bp)" "g \<notin> set (bp_free_list bp)" for g
    using inv(6) [OF that] d p by (simp add: bp' nth_update_pid)
  moreover have "g \<in> set (lru_order (bp_replacer bp')) \<longleftrightarrow> g < length (bp_pages bp) \<and>
      g \<notin> set (bp_free_list bp) \<and> pg_pin_count (bp_pages bp' ! g) = 0" for g
    using rep(3) inv(7) [of g] d(2) nf by (auto simp: bp' nth_list_update)
  moreover have "pool_pins bp' q = 0 \<longrightarrow> pool_saved bp' q" for q
    using inv(8) [of q] saved saved' [of q] here' by (auto simp: pins)
  ultimately show "pool_ok bp'"
    using rep inv(2) by (simp add: pool_ok_def bp'(1-3))
qed

section \<open>Fetching a resident page\<close>

lemma fetch_hit:
  assumes ok: "pool_ok bp" and res: "map_of (bp_dir bp) pid = Some f"
    and nowrap: "pool_pins bp pid + 1 \<noteq> 0"
  shows "\<exists>bp'. fetch pid bp = Inr (Some f, bp') \<and> pool_ok bp' \<and>
           map_of (bp_dir bp') pid = Some f \<and> bp_head bp' = bp_head bp \<and>
           bp_disk bp' = bp_disk bp \<and> bp_closed bp' = bp_closed bp \<and>
           pool_view bp' = pool_view bp \<and> pool_saved bp' = pool_saved bp \<and>
           pool_pins bp' = (pool_pins bp)(pid := pool_pins bp pid + 1) \<and> bp_dir bp' = bp_dir bp"
proof -
  let ?p = "bp_pages bp ! f"
  note inv = pool_okD [OF ok]
  note d = dir_okD [OF inv(4) res]
  from lru_remove_correct [OF inv(1), of f] obtain rep where
    rep: "lru_remove f (bp_replacer bp) = Inr rep" by blast
  note r = lru.remove_members [OF inv(1) rep]
  define bp' where
    "bp' = (set_frame f (?p\<lparr>pg_pin_count := pg_pin_count ?p + 1\<rparr>) bp)\<lparr>bp_replacer := rep\<rparr>"
  have fet: "fetch pid bp = Inr (Some f, bp')"
    using res frame_at_resident [OF ok res] rep by (simp add: fetch_def bp'_def)
  have now: "pool_view bp pid = pg_buffer ?p" "pool_pins bp pid = pg_pin_count ?p"
    "pool_saved bp pid \<longleftrightarrow> pg_dirty ?p \<or> pg_buffer ?p = disk_page (bp_disk bp) pid"
    using res by (simp_all add: pool_view_def pool_pins_def pool_saved_def)
  have "pool_ok bp'" "pool_view bp' = (pool_view bp)(pid := pg_buffer ?p)"
    "pool_pins bp' = (pool_pins bp)(pid := pg_pin_count ?p + 1)"
    "\<And>q. q \<noteq> pid \<Longrightarrow> pool_saved bp' q = pool_saved bp q"
    "pool_saved bp' pid = pool_saved bp pid"
    using pool_ok_update [OF ok res, of "?p\<lparr>pg_pin_count := pg_pin_count ?p + 1\<rparr>" bp']
      d r nowrap frames_okD [OF inv(3) d(2)] now
    by (simp_all add: bp'_def)
  moreover have "pool_saved bp' = pool_saved bp"
    by (intro ext) (metis calculation(4,5))
  moreover have "bp_dir bp' = bp_dir bp" "bp_disk bp' = bp_disk bp" "bp_head bp' = bp_head bp"
    "bp_closed bp' = bp_closed bp"
    by (simp_all add: bp'_def)
  moreover have "(pool_view bp)(pid := pg_buffer ?p) = pool_view bp"
    using now(1) by (metis fun_upd_triv)
  ultimately show ?thesis using fet res now(2) by simp
qed

section \<open>Taking a frame\<close>

lemma victim_some:
  assumes ok: "pool_ok bp" and v: "victim bp = (Some f, bp1)"
  shows "f < length (bp_pages bp)"
    and "(pg_pid (bp_pages bp ! f) = INVALID_ID \<and> \<not> pg_dirty (bp_pages bp ! f)) \<or>
         (map_of (bp_dir bp) (pg_pid (bp_pages bp ! f)) = Some f \<and> pg_pin_count (bp_pages bp ! f) = 0)"
    and "bp1 = bp\<lparr>bp_free_list := bp_free_list bp1, bp_replacer := bp_replacer bp1\<rparr>"
    and "distinct (bp_free_list bp1)" "set (bp_free_list bp1) = set (bp_free_list bp) - {f}"
    and "lru_inv (bp_replacer bp1)" "lru_capacity (bp_replacer bp1) = lru_capacity (bp_replacer bp)"
    and "set (lru_order (bp_replacer bp1)) = set (lru_order (bp_replacer bp)) - {f}"
proof -
  note inv = pool_okD [OF ok]
  have "f < length (bp_pages bp) \<and>
    ((pg_pid (bp_pages bp ! f) = INVALID_ID \<and> \<not> pg_dirty (bp_pages bp ! f)) \<or>
     (map_of (bp_dir bp) (pg_pid (bp_pages bp ! f)) = Some f \<and> pg_pin_count (bp_pages bp ! f) = 0)) \<and>
    bp1 = bp\<lparr>bp_free_list := bp_free_list bp1, bp_replacer := bp_replacer bp1\<rparr> \<and>
    distinct (bp_free_list bp1) \<and> set (bp_free_list bp1) = set (bp_free_list bp) - {f} \<and>
    lru_inv (bp_replacer bp1) \<and> lru_capacity (bp_replacer bp1) = lru_capacity (bp_replacer bp) \<and>
    set (lru_order (bp_replacer bp1)) = set (lru_order (bp_replacer bp)) - {f}"
  proof (cases "bp_free_list bp = []")
    case False
    then have f: "f = last (bp_free_list bp)" "bp1 = bp\<lparr>bp_free_list := butlast (bp_free_list bp)\<rparr>"
      using v by (auto simp: victim_def)
    have dist: "distinct (bp_free_list bp)" using inv(5) by (simp add: free_ok_def)
    have mem: "f \<in> set (bp_free_list bp)" using f False by simp
    have "f \<notin> set (lru_order (bp_replacer bp))" using inv(7) mem by blast
    moreover have "set (butlast (bp_free_list bp)) = set (bp_free_list bp) - {f}"
      using dist False f by (simp flip: remove1_last)
    ultimately show ?thesis
      using inv(1,5) f mem dist by (auto simp: free_ok_def distinct_butlast)
  next
    case True
    obtain r rep where r: "lru_victim (bp_replacer bp) = (r, rep)" by fastforce
    then have f: "r = Some f" "bp1 = bp\<lparr>bp_replacer := rep\<rparr>"
      using v True by (auto simp: victim_def)
    note m = lru.victim_member [OF inv(1) r [unfolded f(1)]]
    from m(1) inv(7) [of f] inv(6) [of f] True show ?thesis
      using m f by simp
  qed
  then show "f < length (bp_pages bp)"
    and "(pg_pid (bp_pages bp ! f) = INVALID_ID \<and> \<not> pg_dirty (bp_pages bp ! f)) \<or>
         (map_of (bp_dir bp) (pg_pid (bp_pages bp ! f)) = Some f \<and> pg_pin_count (bp_pages bp ! f) = 0)"
    and "bp1 = bp\<lparr>bp_free_list := bp_free_list bp1, bp_replacer := bp_replacer bp1\<rparr>"
    and "distinct (bp_free_list bp1)" "set (bp_free_list bp1) = set (bp_free_list bp) - {f}"
    and "lru_inv (bp_replacer bp1)" "lru_capacity (bp_replacer bp1) = lru_capacity (bp_replacer bp)"
    and "set (lru_order (bp_replacer bp1)) = set (lru_order (bp_replacer bp)) - {f}"
    by blast+
qed

text \<open>No frame is found exactly when every frame holds a pinned page.\<close>

definition all_pinned :: "pool \<Rightarrow> bool" where
  "all_pinned bp \<longleftrightarrow>
     bp_free_list bp = [] \<and> (\<forall>p \<in> set (bp_pages bp). pg_pin_count p \<noteq> 0)"

lemma victim_none:
  assumes ok: "pool_ok bp" and v: "victim bp = (None, bp1)"
  shows "bp1 = bp" "all_pinned bp"
proof -
  note inv = pool_okD [OF ok]
  have fl: "bp_free_list bp = []" using v by (auto simp: victim_def split: if_splits)
  obtain r rep where r: "lru_victim (bp_replacer bp) = (r, rep)" by fastforce
  then have "r = None" "bp1 = bp\<lparr>bp_replacer := rep\<rparr>" using v fl by (auto simp: victim_def)
  with lru.victim_exhausted [OF inv(1)] r
  have e: "lru_order (bp_replacer bp) = []" "rep = bp_replacer bp" by auto
  with \<open>bp1 = _\<close> show "bp1 = bp" by simp
  have "pg_pin_count (bp_pages bp ! g) \<noteq> 0" if "g < length (bp_pages bp)" for g
    using inv(7) [of g] that fl e(1) by auto
  with fl show "all_pinned bp" by (auto simp: all_pinned_def in_set_conv_nth)
qed

lemma all_pinned_victim:
  assumes "pool_ok bp" "all_pinned bp"
  shows "victim bp = (None, bp)"
proof (cases "victim bp")
  case (Pair r bp1)
  show ?thesis
  proof (cases r)
    case None
    with Pair victim_none(1) [OF assms(1)] show ?thesis by simp
  next
    case (Some f)
    with Pair have "victim bp = (Some f, bp1)" by simp
    from victim_some(1,2) [OF assms(1) this] assms(2) nth_mem [of f "bp_pages bp"]
    have "pg_pid (bp_pages bp ! f) = INVALID_ID" "f < length (bp_pages bp)"
      by (auto simp: all_pinned_def)
    moreover have "map_of (bp_dir bp) (pg_pid (bp_pages bp ! f)) = Some f"
      using pool_okD(6) [OF assms(1) calculation(2)] assms(2) by (simp add: all_pinned_def)
    ultimately show ?thesis using dir_okD(1) [OF pool_okD(4) [OF assms(1)]] by fastforce
  qed
qed

text \<open>
  The frame gets the new page: the old one is written back if it is dirty, so nothing is lost.
  \<open>placed\<close> collects what holds afterwards, for any content the caller puts into the frame.
\<close>

definition placed :: "pool \<Rightarrow> page_id \<Rightarrow> nat \<Rightarrow> page \<Rightarrow> pool \<Rightarrow> bool" where
  "placed bp pid f p bp' \<longleftrightarrow>
     pool_ok bp' \<and> map_of (bp_dir bp') pid = Some f \<and>
     (\<forall>q. q \<noteq> pid \<longrightarrow> map_of (bp_dir bp') q \<noteq> None \<longrightarrow> map_of (bp_dir bp) q \<noteq> None) \<and>
     (\<forall>q. pool_pins bp q \<noteq> 0 \<longrightarrow> map_of (bp_dir bp') q = map_of (bp_dir bp) q) \<and>
     (\<forall>q. page_ok q \<longrightarrow> pool_view bp' q = (if q = pid then pg_buffer p else pool_view bp q)) \<and>
     pool_pins bp' = (pool_pins bp)(pid := pg_pin_count p) \<and>
     (\<forall>q. q \<noteq> pid \<longrightarrow> pool_saved bp q \<longrightarrow> pool_saved bp' q) \<and>
     (pool_saved bp' pid \<longleftrightarrow> pg_dirty p \<or> pg_buffer p = disk_page (bp_disk bp) pid)"

lemma write_back:
  assumes ok: "pool_ok bp" and v: "victim bp = (Some f, bp1)"
  shows "\<exists>d. (if pg_dirty (bp_pages bp ! f) then flush_page (pg_pid (bp_pages bp ! f)) bp1
              else Inr bp1) = Inr (bp1\<lparr>bp_disk := d\<rparr>) \<and> next_pid d = next_pid (bp_disk bp) \<and>
             (\<forall>q. page_ok q \<longrightarrow> disk_page d q =
                (if map_of (bp_dir bp) q = Some f then pool_view bp q else disk_page (bp_disk bp) q))"
proof -
  let ?p = "bp_pages bp ! f" let ?old = "pg_pid ?p"
  note inv = pool_okD [OF ok]
  note vs = victim_some [OF ok v]
  have bp1: "bp_dir bp1 = bp_dir bp" "bp_pages bp1 = bp_pages bp" "bp_disk bp1 = bp_disk bp"
    using vs(3) by (metis pool.select_convs pool.surjective pool.update_convs(2,4))+
  have uniq: "q = ?old" if "map_of (bp_dir bp) q = Some f" for q
    using dir_okD(3) [OF inv(4) that] by simp
  show ?thesis
  proof (cases "pg_dirty ?p")
    case True
    then have m: "map_of (bp_dir bp) ?old = Some f" "pg_pin_count ?p = 0" using vs(2) by auto
    note d = dir_okD [OF inv(4) m(1)]
    have "length (pg_buffer ?p) = PAGE_SIZE" by (rule frames_okD [OF inv(3) d(2)])
    moreover obtain d' where d': "write_page ?old (pg_buffer ?p) (bp_disk bp) = Inr d'"
      using disk.write_total [OF d(1)] by blast
    moreover have "next_pid d' = next_pid (bp_disk bp)"
      using d' d(1) by (auto simp: write_page_defined)
    moreover have "flush_page ?old bp1 = Inr (bp1\<lparr>bp_disk := d'\<rparr>)"
      using m(1) d(2) d' by (simp add: flush_page_def frame_at_def bp1)
    moreover have "map_of (bp_dir bp) q = Some f \<longleftrightarrow> q = ?old" for q
      using uniq m(1) by blast
    moreover have "pool_view bp ?old = pg_buffer ?p" using m(1) by (simp add: pool_view_def)
    ultimately show ?thesis
      using True disk.page_write [OF d(1)] by (intro exI [of _ d']) simp
  next
    case False
    have "pool_view bp q = disk_page (bp_disk bp) q" if "map_of (bp_dir bp) q = Some f" for q
    proof -
      have "q = ?old" by (rule uniq [OF that])
      with that vs(2) dir_okD(1) [OF inv(4) that] have "pg_pin_count ?p = 0" by auto
      with that have "pool_pins bp q = 0" by (simp add: pool_pins_def)
      then have "pool_saved bp q" by (rule inv(8))
      with that False show ?thesis by (simp add: pool_saved_def pool_view_def)
    qed
    with False bp1 show ?thesis
      by (intro exI [of _ "bp_disk bp1"]) auto
  qed
qed

text \<open>
  The new state seen from the old one: frame \<open>f\<close> holds the page \<open>p\<close>, its old page is gone from the
  directory and is in the file.
\<close>

definition moved :: "pool \<Rightarrow> pool \<Rightarrow> page_id \<Rightarrow> nat \<Rightarrow> page \<Rightarrow> pool \<Rightarrow> bool" where
  "moved bp bp1 pid f p bp' \<longleftrightarrow>
     bp_pages bp' = (bp_pages bp)[f := p] \<and> bp_free_list bp' = bp_free_list bp1 \<and> bp_replacer bp' = bp_replacer bp1 \<and>
     distinct (map fst (bp_dir bp')) \<and>
     (\<forall>q. map_of (bp_dir bp') q =
        (if q = pid then Some f else if map_of (bp_dir bp) q = Some f then None else map_of (bp_dir bp) q)) \<and>
     (\<forall>q. page_ok q \<longrightarrow> disk_page (bp_disk bp') q =
        (if map_of (bp_dir bp) q = Some f then pool_view bp q else disk_page (bp_disk bp) q))"

lemma movedD:
  assumes "pool_ok bp" "victim bp = (Some f, bp1)" "moved bp bp1 pid f p bp'"
  shows "bp_pages bp' = (bp_pages bp)[f := p]" "bp_free_list bp' = bp_free_list bp1" "bp_replacer bp' = bp_replacer bp1"
    and "distinct (map fst (bp_dir bp'))"
    and "map_of (bp_dir bp') q =
        (if q = pid then Some f else if map_of (bp_dir bp) q = Some f then None else map_of (bp_dir bp) q)"
    and "page_ok q \<Longrightarrow> disk_page (bp_disk bp') q =
        (if map_of (bp_dir bp) q = Some f then pool_view bp q else disk_page (bp_disk bp) q)"
    and "bp_pages bp' ! f = p" "g \<noteq> f \<Longrightarrow> bp_pages bp' ! g = bp_pages bp ! g"
    and "map_of (bp_dir bp) q = Some f \<Longrightarrow> pool_pins bp q = 0"
proof -
  show "pool_pins bp q = 0" if "map_of (bp_dir bp) q = Some f"
    using victim_some(2) [OF assms(1,2)] dir_okD [OF pool_okD(4) [OF assms(1)] that] that by (auto simp: pool_pins_def)
qed (use assms(3) victim_some(1) [OF assms(1,2)] in \<open>simp_all add: moved_def\<close>)

lemma moved_content:
  assumes ok: "pool_ok bp" and v: "victim bp = (Some f, bp1)" and m: "moved bp bp1 pid f p bp'"
    and pid: "page_ok pid" "map_of (bp_dir bp) pid = None"
  shows "page_ok q \<Longrightarrow> pool_view bp' q = (if q = pid then pg_buffer p else pool_view bp q)"
    and "pool_pins bp' = (pool_pins bp)(pid := pg_pin_count p)"
    and "q \<noteq> pid \<Longrightarrow> pool_saved bp q \<Longrightarrow> pool_saved bp' q"
    and "pool_saved bp' pid \<longleftrightarrow> pg_dirty p \<or> pg_buffer p = disk_page (bp_disk bp) pid"
proof -
  note mv = movedD [OF ok v m]
  have there: "bp_pages bp' ! g = bp_pages bp ! g"
    if "map_of (bp_dir bp) q = Some g" "map_of (bp_dir bp) q \<noteq> Some f" for q g
    using that mv(8) by auto
  show "pool_view bp' q = (if q = pid then pg_buffer p else pool_view bp q)" if "page_ok q"
    using mv(6) [OF that] mv(7) there [of q] pid(2)
    by (auto simp: pool_view_def mv(5) split: option.split)
  show "pool_pins bp' = (pool_pins bp)(pid := pg_pin_count p)"
    using mv(7,9) there by (auto simp: fun_eq_iff pool_pins_def mv(5) split: option.split)
  show "pool_saved bp' q" if "q \<noteq> pid" "pool_saved bp q"
    using that there [of q] mv(6) [of q] dir_okD(1) [OF pool_okD(4) [OF ok]]
    by (auto simp: pool_saved_def mv(5) split: option.splits)
  show "pool_saved bp' pid \<longleftrightarrow> pg_dirty p \<or> pg_buffer p = disk_page (bp_disk bp) pid"
    using mv(6) [OF pid(1)] mv(7) pid(2) by (simp add: pool_saved_def mv(5))
qed

lemma moved_ok:
  assumes ok: "pool_ok bp" and v: "victim bp = (Some f, bp1)" and m: "moved bp bp1 pid f p bp'"
    and pid: "page_ok pid" "map_of (bp_dir bp) pid = None"
    and p: "pg_pid p = pid" "pg_pin_count p = 1" "length (pg_buffer p) = PAGE_SIZE"
  shows "pool_ok bp'"
proof -
  note inv = pool_okD [OF ok] and vs = victim_some [OF ok v] and mv = movedD [OF ok v m]
  have "page_ok q \<and> g < length (bp_pages bp') \<and> pg_pid (bp_pages bp' ! g) = q"
    if "map_of (bp_dir bp') q = Some g" for q g
    using that dir_okD [OF inv(4), of q g] mv(7) mv(8) [of g] p(1) pid(1) vs(1)
    by (cases "g = f") (auto simp: mv(5) mv(1) split: if_splits)
  then have "dir_ok (bp_dir bp') (bp_pages bp')" using mv(4) by (simp add: dir_ok_def)
  moreover have "free_ok (bp_free_list bp') (bp_pages bp')"
    using inv(5) vs(4,5) mv(8) by (auto simp: free_ok_def mv(1,2))
  moreover have "frames_ok (bp_pages bp')"
    using inv(3) p(3) by (simp add: mv(1) frames_ok_update)
  moreover have "map_of (bp_dir bp') (pg_pid (bp_pages bp' ! g)) = Some g"
    if "g < length (bp_pages bp')" "g \<notin> set (bp_free_list bp')" for g
  proof (cases "g = f")
    case True
    then show ?thesis using mv(7) p(1) by (simp add: mv(5))
  next
    case False
    then have g: "map_of (bp_dir bp) (pg_pid (bp_pages bp ! g)) = Some g"
      using that inv(6) [of g] vs(5) by (simp add: mv(1,2))
    then have "pg_pid (bp_pages bp ! g) \<noteq> pid" using pid(2) by auto
    with g False show ?thesis using mv(8) by (simp add: mv(5))
  qed
  moreover have "g \<in> set (lru_order (bp_replacer bp')) \<longleftrightarrow> g < length (bp_pages bp') \<and>
      g \<notin> set (bp_free_list bp') \<and> pg_pin_count (bp_pages bp' ! g) = 0" for g
    using inv(7) [of g] vs(5,8) mv(7) mv(8) [of g] p(2)
    by (cases "g = f") (auto simp: mv(1-3))
  moreover have "pool_pins bp' q = 0 \<longrightarrow> pool_saved bp' q" for q
    using inv(8) [of q] moved_content(2) [OF ok v m pid] moved_content(3) [OF ok v m pid, of q] p(2) by auto
  ultimately show ?thesis using vs(6,7) inv(2) by (simp add: pool_ok_def mv(1,3))
qed

lemma moved_placed:
  assumes ok: "pool_ok bp" and v: "victim bp = (Some f, bp1)" and m: "moved bp bp1 pid f p bp'"
    and pid: "page_ok pid" "map_of (bp_dir bp) pid = None"
    and p: "pg_pid p = pid" "pg_pin_count p = 1" "length (pg_buffer p) = PAGE_SIZE"
  shows "placed bp pid f p bp'"
proof -
  note mv = movedD [OF ok v m]
  have "map_of (bp_dir bp') q = map_of (bp_dir bp) q" if "pool_pins bp q \<noteq> 0" for q
    using that mv(9) [of q] pid(2) by (auto simp: mv(5) pool_pins_def split: option.splits)
  with moved_ok [OF assms] moved_content [OF ok v m pid] show ?thesis by (simp add: placed_def mv(5))
qed

lemma install:
  assumes ok: "pool_ok bp" and v: "victim bp = (Some f, bp1)"
    and pid: "page_ok pid" "map_of (bp_dir bp) pid = None"
  shows "\<exists>bp2. change_correspondence f pid bp1 = Inr bp2 \<and>
    frame_at f bp2 = Inr (blank_page\<lparr>pg_pid := pid\<rparr>) \<and> f < length (bp_pages bp) \<and>
    bp_head bp2 = bp_head bp \<and> bp_closed bp2 = bp_closed bp \<and>
    next_pid (bp_disk bp2) = next_pid (bp_disk bp) \<and>
    disk_page (bp_disk bp2) pid = disk_page (bp_disk bp) pid \<and>
    (\<forall>p h. pg_pid p = pid \<longrightarrow> pg_pin_count p = 1 \<longrightarrow> length (pg_buffer p) = PAGE_SIZE \<longrightarrow>
       placed bp pid f p ((set_frame f p bp2)\<lparr>bp_head := h\<rparr>))"
proof -
  let ?p = "bp_pages bp ! f" let ?old = "pg_pid ?p"
  note inv = pool_okD [OF ok] and vs = victim_some [OF ok v]
  have bp1: "bp_dir bp1 = bp_dir bp" "bp_pages bp1 = bp_pages bp" "bp_disk bp1 = bp_disk bp"
    "bp_head bp1 = bp_head bp" "bp_closed bp1 = bp_closed bp"
    using vs(3) by (metis pool.select_convs pool.surjective pool.update_convs(2,4))+
  from write_back [OF ok v] obtain d where
    d: "(if pg_dirty ?p then flush_page ?old bp1 else Inr bp1) = Inr (bp1\<lparr>bp_disk := d\<rparr>)"
    "next_pid d = next_pid (bp_disk bp)"
    "\<And>q. page_ok q \<Longrightarrow> disk_page d q =
       (if map_of (bp_dir bp) q = Some f then pool_view bp q else disk_page (bp_disk bp) q)" by blast
  define bp2 where "bp2 = bp1\<lparr>bp_disk := d,
    bp_dir := AList.update pid f (AList.delete ?old (bp_dir bp)),
    bp_pages := (bp_pages bp)[f := blank_page\<lparr>pg_pid := pid\<rparr>]\<rparr>"
  have "(page_clear_all ?p)\<lparr>pg_pid := pid\<rparr> = blank_page\<lparr>pg_pid := pid\<rparr>"
    using frames_okD [OF inv(3) vs(1)] by (simp add: page_clear_all_def page_clear_data_def blank_page_def)
  then have chg: "change_correspondence f pid bp1 = Inr bp2"
    using vs(1) d(1) by (simp add: change_correspondence_def frame_at_def bp1 bp2_def set_frame_def Let_def)
  have gone: "map_of (bp_dir bp2) q = (if q = pid then Some f else
      if map_of (bp_dir bp) q = Some f then None else map_of (bp_dir bp) q)" for q
  proof -
    have "map_of (bp_dir bp) q = Some f \<longleftrightarrow> q = ?old \<and> map_of (bp_dir bp) q \<noteq> None"
      using vs(2) dir_okD [OF inv(4)] by (metis option.distinct(1) page_ok_INVALID option.exhaust)
    then show ?thesis by (auto simp: bp2_def update_conv' delete_conv')
  qed
  have "distinct (map fst (bp_dir bp2))"
    using inv(4) by (simp add: bp2_def dir_ok_def distinct_update distinct_delete)
  then have "moved bp bp1 pid f p ((set_frame f p bp2)\<lparr>bp_head := h\<rparr>)" for p h
    using d(3) gone by (simp add: moved_def set_frame_def) (simp add: bp2_def)
  with moved_placed [OF ok v _ pid] show ?thesis
    using chg vs(1) d(2,3) pid by (intro exI [of _ bp2]) (simp add: bp2_def frame_at_def bp1)
qed

section \<open>Fetching a page\<close>

definition fetched :: "pool \<Rightarrow> page_id \<Rightarrow> nat \<Rightarrow> pool \<Rightarrow> bool" where
  "fetched bp pid f bp' \<longleftrightarrow>
     pool_ok bp' \<and> map_of (bp_dir bp') pid = Some f \<and>
     (\<forall>q. q \<noteq> pid \<longrightarrow> map_of (bp_dir bp') q \<noteq> None \<longrightarrow> map_of (bp_dir bp) q \<noteq> None) \<and>
     (\<forall>q. pool_pins bp q \<noteq> 0 \<longrightarrow> map_of (bp_dir bp') q = map_of (bp_dir bp) q) \<and>
     bp_head bp' = bp_head bp \<and> bp_closed bp' = bp_closed bp \<and>
     next_pid (bp_disk bp') = next_pid (bp_disk bp) \<and>
     (\<forall>q. page_ok q \<longrightarrow> pool_view bp' q = pool_view bp q) \<and>
     pool_pins bp' = (pool_pins bp)(pid := pool_pins bp pid + 1) \<and>
     (\<forall>q. pool_saved bp q \<longrightarrow> pool_saved bp' q)"

lemma fetch_miss:
  assumes ok: "pool_ok bp" and pid: "page_ok pid" "map_of (bp_dir bp) pid = None"
    and v: "victim bp = (Some f, bp1)"
  shows "\<exists>bp'. fetch pid bp = Inr (Some f, bp') \<and> fetched bp pid f bp'"
proof -
  from install [OF ok v pid] obtain bp2 where
    i: "change_correspondence f pid bp1 = Inr bp2"
    "frame_at f bp2 = Inr (blank_page\<lparr>pg_pid := pid\<rparr>)"
    "bp_head bp2 = bp_head bp" "bp_closed bp2 = bp_closed bp"
    "next_pid (bp_disk bp2) = next_pid (bp_disk bp)"
    "disk_page (bp_disk bp2) pid = disk_page (bp_disk bp) pid"
    and pl: "\<And>p h. pg_pid p = pid \<Longrightarrow> pg_pin_count p = 1 \<Longrightarrow> length (pg_buffer p) = PAGE_SIZE \<Longrightarrow>
       placed bp pid f p ((set_frame f p bp2)\<lparr>bp_head := h\<rparr>)" by blast
  define p where "p = \<lparr>pg_buffer = disk_page (bp_disk bp) pid, pg_pid = pid, pg_pin_count = 1,
                       pg_dirty = False\<rparr>"
  have eq: "(set_frame f p bp2)\<lparr>bp_head := bp_head bp2\<rparr> = set_frame f p bp2"
    by (simp add: set_frame_def)
  have "fetch pid bp = Inr (Some f, set_frame f p bp2)"
    using pid v i disk.read_blank [OF pid(1)] by (simp add: fetch_def p_def blank_page_def)
  moreover have "placed bp pid f p (set_frame f p bp2)"
    by (rule pl [of p "bp_head bp2", unfolded eq]) (simp_all add: p_def)
  moreover have "pool_pins bp pid = 0" "pool_view bp pid = disk_page (bp_disk bp) pid"
    using pid by (simp_all add: pool_pins_def pool_view_def)
  ultimately show ?thesis
    using i by (auto simp: placed_def fetched_def p_def)
qed

lemma fetch_correct:
  assumes ok: "pool_ok bp" and pid: "page_ok pid" and nowrap: "pool_pins bp pid + 1 \<noteq> 0"
  shows "(map_of (bp_dir bp) pid = None \<and> all_pinned bp \<and> fetch pid bp = Inr (None, bp)) \<or>
         (\<exists>f bp'. fetch pid bp = Inr (Some f, bp') \<and> fetched bp pid f bp')"
proof (cases "map_of (bp_dir bp) pid")
  case (Some f)
  from fetch_hit [OF ok Some nowrap] show ?thesis by (auto simp: fetched_def)
next
  case None
  obtain r bp1 where v: "victim bp = (r, bp1)" by fastforce
  show ?thesis
  proof (cases r)
    case None
    with v victim_none [OF ok] \<open>map_of _ _ = None\<close> show ?thesis by (auto simp: fetch_def)
  next
    case (Some f)
    with fetch_miss [OF ok pid \<open>map_of _ _ = None\<close>] v show ?thesis by blast
  qed
qed

lemma fetch_Some:
  assumes "pool_ok bp" "page_ok pid" "pool_pins bp pid + 1 \<noteq> 0" "fetch pid bp = Inr (Some f, bp')"
  shows "fetched bp pid f bp'"
  using fetch_correct [OF assms(1-3)] assms(4) by auto

section \<open>Writing to a pinned page, and letting it go\<close>

lemma put_data_correct:
  assumes ok: "pool_ok bp" and res: "map_of (bp_dir bp) pid = Some f"
    and pinned: "pool_pins bp pid \<noteq> 0" and len: "length bs = PAGE_SIZE"
  shows "\<exists>bp'. put_data f bs bp = Inr bp' \<and> pool_ok bp' \<and> bp_dir bp' = bp_dir bp \<and>
           bp_head bp' = bp_head bp \<and> bp_disk bp' = bp_disk bp \<and> bp_closed bp' = bp_closed bp \<and>
           pool_view bp' = (pool_view bp)(pid := bs) \<and> pool_pins bp' = pool_pins bp \<and>
           (\<forall>q. q \<noteq> pid \<longrightarrow> pool_saved bp' q = pool_saved bp q)"
proof -
  let ?p = "bp_pages bp ! f"
  note inv = pool_okD [OF ok]
  note d = dir_okD [OF inv(4) res]
  define bp' where "bp' = set_frame f (?p\<lparr>pg_buffer := bs\<rparr>) bp"
  have pin: "pg_pin_count ?p \<noteq> 0" "pool_pins bp pid = pg_pin_count ?p"
    using pinned res by (simp_all add: pool_pins_def)
  then have "f \<notin> set (lru_order (bp_replacer bp))" using inv(7) by blast
  note upd = pool_ok_update [OF ok res, of "?p\<lparr>pg_buffer := bs\<rparr>" bp']
  have "pool_ok bp'" "pool_view bp' = (pool_view bp)(pid := bs)"
    "pool_pins bp' = (pool_pins bp)(pid := pg_pin_count ?p)"
    "\<And>q. q \<noteq> pid \<Longrightarrow> pool_saved bp' q = pool_saved bp q"
    using upd d len pin inv(1) \<open>f \<notin> _\<close> by (simp_all add: bp'_def)
  moreover have "put_data f bs bp = Inr bp'"
    using frame_at_resident [OF ok res] by (simp add: put_data_def bp'_def)
  moreover have "(pool_pins bp)(pid := pg_pin_count ?p) = pool_pins bp"
    using pin(2) by (metis fun_upd_triv)
  ultimately show ?thesis by (simp add: bp'_def)
qed

lemma replacer_room:
  assumes "pool_ok bp" "f < length (bp_pages bp)" "f \<notin> set (lru_order (bp_replacer bp))"
  shows "length (lru_order (bp_replacer bp)) < lru_capacity (bp_replacer bp)"
proof -
  note inv = pool_okD [OF assms(1)]
  have "set (lru_order (bp_replacer bp)) \<subseteq> {..<length (bp_pages bp)} - {f}"
    using inv(7) assms(3) by auto
  then have "card (set (lru_order (bp_replacer bp))) \<le> card ({..<length (bp_pages bp)} - {f})"
    by (intro card_mono) simp_all
  then have "length (lru_order (bp_replacer bp)) \<le> length (bp_pages bp) - 1"
    using lru.order_distinct [OF inv(1)] assms(2) by (simp add: distinct_card)
  then show ?thesis using assms(2) inv(2) by simp
qed

lemma unpin_correct:
  assumes ok: "pool_ok bp" and pinned: "pool_pins bp pid \<noteq> 0"
    and saved: "is_dirty \<or> pool_saved bp pid"
  shows "\<exists>bp'. unpin pid is_dirty bp = Inr bp' \<and> pool_ok bp' \<and> bp_dir bp' = bp_dir bp \<and>
           bp_head bp' = bp_head bp \<and> bp_disk bp' = bp_disk bp \<and> bp_closed bp' = bp_closed bp \<and>
           pool_view bp' = pool_view bp \<and>
           pool_pins bp' = (pool_pins bp)(pid := pool_pins bp pid - 1) \<and>
           (\<forall>q. q = pid \<or> pool_saved bp q \<longrightarrow> pool_saved bp' q)"
proof -
  obtain f where res: "map_of (bp_dir bp) pid = Some f"
    using pinned by (auto simp: pool_pins_def split: option.splits)
  let ?p = "bp_pages bp ! f"
  let ?p' = "?p\<lparr>pg_dirty := pg_dirty ?p \<or> is_dirty, pg_pin_count := pg_pin_count ?p - 1\<rparr>"
  note inv = pool_okD [OF ok]
  note d = dir_okD [OF inv(4) res]
  have now: "pool_view bp pid = pg_buffer ?p" "pool_pins bp pid = pg_pin_count ?p"
    "pool_saved bp pid \<longleftrightarrow> pg_dirty ?p \<or> pg_buffer ?p = disk_page (bp_disk bp) pid"
    using res by (simp_all add: pool_view_def pool_pins_def pool_saved_def)
  have out: "f \<notin> set (lru_order (bp_replacer bp))" using inv(7) [of f] pinned now(2) by simp
  note room = replacer_room [OF ok d(2) out]
  from lru_put_correct [OF inv(1), of f] room obtain rep where
    rep: "lru_put f (bp_replacer bp) = Inr rep" by auto
  note r = lru.put_members [OF inv(1) room rep]
  define bp' where "bp' = (set_frame f ?p' bp)
    \<lparr>bp_replacer := (if pg_pin_count ?p - 1 = 0 then rep else bp_replacer bp)\<rparr>"
  have "unpin pid is_dirty bp = Inr bp'"
    using res frame_at_resident [OF ok res] rep
    by (simp add: unpin_def bp'_def Let_def set_frame_def)
  have rep': "lru_inv (bp_replacer bp')"
    "lru_capacity (bp_replacer bp') = lru_capacity (bp_replacer bp)"
    "set (lru_order (bp_replacer bp')) =
       (if pg_pin_count ?p' = 0 then insert f (set (lru_order (bp_replacer bp)))
        else set (lru_order (bp_replacer bp)) - {f})"
    using r inv(1) out by (auto simp: bp'_def)
  have after: "pool_ok bp'" "pool_view bp' = (pool_view bp)(pid := pg_buffer ?p)"
    "pool_pins bp' = (pool_pins bp)(pid := pg_pin_count ?p - 1)"
    "\<And>q. q \<noteq> pid \<Longrightarrow> pool_saved bp' q = pool_saved bp q"
    "pool_saved bp' pid \<longleftrightarrow> pg_dirty ?p' \<or> pg_buffer ?p = disk_page (bp_disk bp) pid"
    using pool_ok_update [OF ok res, of ?p' bp', OF _ _ _ _ _ _ rep'] d saved now(3)
      frames_okD [OF inv(3) d(2)]
    by (auto simp: bp'_def)
  have here: "pool_saved bp' pid" using after(5) saved now(3) by auto
  have "(pool_view bp)(pid := pg_buffer ?p) = pool_view bp"
    using now(1) by (metis fun_upd_triv)
  moreover have "\<forall>q. q = pid \<or> pool_saved bp q \<longrightarrow> pool_saved bp' q"
    using after(4) here by metis
  moreover have "bp_dir bp' = bp_dir bp" "bp_head bp' = bp_head bp" "bp_disk bp' = bp_disk bp"
    "bp_closed bp' = bp_closed bp"
    by (simp_all add: bp'_def)
  ultimately show ?thesis
    using after(1-3) now(2) \<open>unpin pid is_dirty bp = Inr bp'\<close> by simp
qed

section \<open>Page allocation\<close>

text \<open>
  The allocated ids are the members of the header's bitmap. They include every resident page and
  lie below the next id of the file; the header page is one of them.
\<close>

definition pool_ids :: "pool \<Rightarrow> nat set" where
  "pool_ids bp = bm_members (hd_bitmap (bp_head bp))"

definition alloc_ok :: "pool \<Rightarrow> bool" where
  "alloc_ok bp \<longleftrightarrow>
     0 \<in> pool_ids bp \<and> (\<forall>i \<in> pool_ids bp. i < unat (next_pid (bp_disk bp))) \<and>
     (\<forall>pid f. map_of (bp_dir bp) pid = Some f \<longrightarrow> unat pid \<in> pool_ids bp) \<and>
     unat (next_pid (bp_disk bp)) \<le> BFP_MAX_PAGE_NUM + 1"

lemma grow_bitmap_spec:
  "idx < length (grow_bitmap bm idx) * 8"
  "bm_members (grow_bitmap bm idx) = bm_members bm"
  "length bm \<le> length (grow_bitmap bm idx)"
proof (induction bm idx rule: grow_bitmap.induct)
  case (1 bm idx)
  { case 1 show ?case using "1.IH"(1) by (subst grow_bitmap.simps) simp }
  { case 2 show ?case using "1.IH"(2) by (subst grow_bitmap.simps) simp }
  { case 3 show ?case using "1.IH"(3) by (subst grow_bitmap.simps) (auto dest: Suc_leD) }
qed

lemma length_grow_bitmap: "length (grow_bitmap bm idx) = max (length bm) (idx div 8 + 1)"
proof (induction bm idx rule: grow_bitmap.induct)
  case (1 bm idx)
  show ?case
  proof (cases "length bm * 8 \<le> idx")
    case True
    then have "length bm \<le> idx div 8" by linarith
    with True 1 show ?thesis by (subst grow_bitmap.simps) simp
  next
    case False
    then have "idx div 8 < length bm" by linarith
    with False show ?thesis by (subst grow_bitmap.simps) simp
  qed
qed

lemma next_pid_unat:
  assumes "alloc_ok bp"
  shows "0 < unat (next_pid (bp_disk bp))"
    "unat (current_pid (bp_disk bp)) = unat (next_pid (bp_disk bp)) - 1"
proof -
  show "0 < unat (next_pid (bp_disk bp))" using assms by (auto simp: alloc_ok_def)
  then have "1 \<le> next_pid (bp_disk bp)" by (simp add: word_le_nat_alt)
  then show "unat (current_pid (bp_disk bp)) = unat (next_pid (bp_disk bp)) - 1"
    by (simp add: current_pid_def unat_sub)
qed

text \<open>The id that is chosen is free, and every id below it is taken when it is a new one.\<close>

lemma choose_page_id_correct:
  assumes al: "alloc_ok bp" and room: "unat (next_pid (bp_disk bp)) \<le> BFP_MAX_PAGE_NUM"
  shows "\<exists>idx d. choose_page_id bp = Inr (Some idx, bp\<lparr>bp_disk := d\<rparr>) \<and>
           unat idx \<notin> pool_ids bp \<and> unat idx \<le> BFP_MAX_PAGE_NUM \<and>
           unat idx < unat (next_pid d) \<and> unat (next_pid d) \<le> BFP_MAX_PAGE_NUM + 1 \<and>
           unat (next_pid (bp_disk bp)) \<le> unat (next_pid d) \<and> db_file d = db_file (bp_disk bp)"
proof -
  let ?n = "next_pid (bp_disk bp)"
  let ?d = "(bp_disk bp)\<lparr>next_pid := ?n + 1\<rparr>"
  let ?c = "if ?n > of_nat BFP_MAX_PAGE_NUM then None else Some ?n"
  have max: "unat (of_nat BFP_MAX_PAGE_NUM :: size_t) = BFP_MAX_PAGE_NUM"
    by (simp add: BFP_MAX_PAGE_NUM_def PAGE_SIZE_def)
  have small: "unat ?n + 1 < 2 ^ 64" using room by (simp add: BFP_MAX_PAGE_NUM_def PAGE_SIZE_def)
  have suc: "unat (?n + 1) = unat ?n + 1"
    using small by (simp add: unat_word_ariths(1))
  have new: "?c = Some ?n" using room max by (simp add: word_less_nat_alt)
  have fresh: "unat ?n \<notin> pool_ids bp" using al by (auto simp: alloc_ok_def)
  from bm.first_total obtain r where r: "bm_first (hd_bitmap (bp_head bp)) False = Inr r" by blast
  show ?thesis
  proof (cases "\<exists>i. r = Some i \<and> \<not> of_nat i \<ge> current_pid (bp_disk bp)")
    case False
    then have "choose_page_id bp = Inr (?c, bp\<lparr>bp_disk := ?d\<rparr>)"
      using r by (auto simp: choose_page_id_def next_page_id_def split: option.split)
    with new fresh room suc show ?thesis by auto
  next
    case True
    then obtain i where i: "r = Some i" "(of_nat i :: size_t) < current_pid (bp_disk bp)" by auto
    have least: "i \<notin> pool_ids bp" "\<forall>j<i. j \<in> pool_ids bp"
      using bm.first_some [of "hd_bitmap (bp_head bp)" False i] r i(1) by (auto simp: pool_ids_def)
    have "i \<le> unat ?n"
      using least(2) fresh by (meson not_less)
    then have ui: "unat (of_nat i :: size_t) = i"
      using small by (simp add: unat_of_nat)
    have "choose_page_id bp = Inr (Some (of_nat i), bp\<lparr>bp_disk := bp_disk bp\<rparr>)"
      using r i(1) i(2) [folded not_le] by (simp add: choose_page_id_def)
    with least(1) i(2) ui room next_pid_unat [OF al] show ?thesis
      by (intro exI [of _ "of_nat i"] exI [of _ "bp_disk bp"]) (auto simp: word_less_nat_alt)
  qed
qed

text \<open>The header and the file do not take part in the bookkeeping of the frames.\<close>

lemma pool_ok_only:
  assumes "pool_ok bp" "bp_dir bp' = bp_dir bp" "bp_free_list bp' = bp_free_list bp"
    "bp_pages bp' = bp_pages bp" "bp_replacer bp' = bp_replacer bp"
    "db_file (bp_disk bp') = db_file (bp_disk bp)"
  shows "pool_ok bp'" "pool_view bp' = pool_view bp" "pool_pins bp' = pool_pins bp"
    "pool_saved bp' = pool_saved bp"
proof -
  have "disk_page (bp_disk bp') = disk_page (bp_disk bp)"
    using assms(6) by (simp add: fun_eq_iff disk_page_def)
  then show "pool_view bp' = pool_view bp" "pool_pins bp' = pool_pins bp"
    "pool_saved bp' = pool_saved bp"
    using assms(2,4)
    by (simp_all add: fun_eq_iff pool_view_def pool_pins_def pool_saved_def split: option.split)
  then show "pool_ok bp'"
    using assms by (simp add: pool_ok_def)
qed

lemma all_pinned_only:
  "bp_free_list bp' = bp_free_list bp \<Longrightarrow> bp_pages bp' = bp_pages bp \<Longrightarrow>
   all_pinned bp' \<longleftrightarrow> all_pinned bp"
  by (simp add: all_pinned_def)

lemma change_correspondence_head:
  "change_correspondence f pid (bp\<lparr>bp_head := h\<rparr>) =
     andthen (change_correspondence f pid bp) (\<lambda>b. Inr (b\<lparr>bp_head := h\<rparr>))"
  by (auto simp: change_correspondence_def flush_page_def frame_at_def andthen_def Let_def
        set_frame_def split: sum.splits option.splits)

definition created :: "pool \<Rightarrow> nat \<Rightarrow> page_id \<Rightarrow> pool \<Rightarrow> bool" where
  "created bp f idx bp' \<longleftrightarrow>
     pool_ok bp' \<and> alloc_ok bp' \<and> map_of (bp_dir bp') idx = Some f \<and>
     unat idx \<notin> pool_ids bp \<and> pool_ids bp' = insert (unat idx) (pool_ids bp) \<and>
     unat idx \<le> BFP_MAX_PAGE_NUM \<and> bp_closed bp' = bp_closed bp \<and>
     length (hd_bitmap (bp_head bp')) =
       max (length (hd_bitmap (bp_head bp))) (unat idx div 8 + 1) \<and>
     hd_page_num (bp_head bp') = hd_page_num (bp_head bp) + 1 \<and>
     hd_phy_num (bp_head bp') = hd_phy_num (bp_head bp) + 1 \<and>
     (\<forall>q. pool_pins bp q \<noteq> 0 \<longrightarrow> map_of (bp_dir bp') q = map_of (bp_dir bp) q) \<and>
     (\<forall>q. page_ok q \<longrightarrow> pool_view bp' q =
        (if q = idx then replicate PAGE_SIZE 0 else pool_view bp q)) \<and>
     pool_pins bp' = (pool_pins bp)(idx := 1) \<and>
     (\<forall>q. pool_saved bp q \<longrightarrow> pool_saved bp' q) \<and>
     (\<exists>d. choose_page_id bp = Inr (Some idx, bp\<lparr>bp_disk := d\<rparr>) \<and>
          next_pid (bp_disk bp') = next_pid d)"

lemma new_page_None:
  assumes "new_page bp = Inr (None, bp')" "pool_ok bp"
    "choose_page_id bp = Inr (Some idx, bp\<lparr>bp_disk := d\<rparr>)" "db_file d = db_file (bp_disk bp)"
  shows "all_pinned bp"
proof -
  let ?bp1 = "bp\<lparr>bp_disk := d\<rparr>"
  have ok1: "pool_ok ?bp1" by (rule pool_ok_only(1) [OF assms(2)]) (simp_all add: assms(4))
  obtain r bp2 where v: "victim ?bp1 = (r, bp2)" by fastforce
  have "r = None"
    using assms(1,3) v
    by (auto simp: new_page_def andthen_def Let_def split: option.splits sum.splits)
  with victim_none(2) [OF ok1] v show ?thesis by (simp add: all_pinned_def)
qed

lemma alloc_ok_mono:
  assumes "alloc_ok bp" "pool_ids bp \<subseteq> pool_ids bp'"
    and "\<forall>i \<in> pool_ids bp'. i < unat (next_pid (bp_disk bp'))"
    and "unat (next_pid (bp_disk bp')) \<le> BFP_MAX_PAGE_NUM + 1"
    and "\<forall>q. map_of (bp_dir bp') q \<noteq> None \<longrightarrow>
           unat q \<in> pool_ids bp' \<or> map_of (bp_dir bp) q \<noteq> None"
  shows "alloc_ok bp'"
  using assms unfolding alloc_ok_def by (metis (no_types, lifting) option.discI option.exhaust subsetD)

lemma placed_alloc_ok:
  assumes al: "alloc_ok bp" and pl: "placed (bp\<lparr>bp_disk := d\<rparr>) idx f p bp'"
    and ids: "pool_ids bp' = insert (unat idx) (pool_ids bp)" and nx: "next_pid (bp_disk bp') = next_pid d"
    and idx: "unat idx < unat (next_pid d)" "unat (next_pid d) \<le> BFP_MAX_PAGE_NUM + 1"
      "unat (next_pid (bp_disk bp)) \<le> unat (next_pid d)"
  shows "alloc_ok bp'"
proof (rule alloc_ok_mono [OF al])
  show "\<forall>q. map_of (bp_dir bp') q \<noteq> None \<longrightarrow> unat q \<in> pool_ids bp' \<or> map_of (bp_dir bp) q \<noteq> None"
    using pl by (auto simp: placed_def ids)
  show "\<forall>i \<in> pool_ids bp'. i < unat (next_pid (bp_disk bp'))"
    using al idx(1,3) nx ids by (fastforce simp: alloc_ok_def)
qed (use ids idx(2) nx in auto)

lemma new_page_correct:
  assumes ok: "pool_ok bp" and al: "alloc_ok bp"
    and room: "unat (next_pid (bp_disk bp)) \<le> BFP_MAX_PAGE_NUM" and nf: "\<not> all_pinned bp"
  shows "\<exists>f idx bp'. new_page bp = Inr (Some (f, idx), bp') \<and> created bp f idx bp'"
proof -
  from choose_page_id_correct [OF al room] obtain idx d where
    c: "choose_page_id bp = Inr (Some idx, bp\<lparr>bp_disk := d\<rparr>)" and
    idx: "unat idx \<notin> pool_ids bp" "unat idx \<le> BFP_MAX_PAGE_NUM" "unat idx < unat (next_pid d)"
      "unat (next_pid d) \<le> BFP_MAX_PAGE_NUM + 1"
      "unat (next_pid (bp_disk bp)) \<le> unat (next_pid d)" "db_file d = db_file (bp_disk bp)"
    by blast
  define bp1 where "bp1 = bp\<lparr>bp_disk := d\<rparr>"
  note same = pool_ok_only [OF ok, of bp1, simplified bp1_def, simplified, OF idx(6), folded bp1_def]
  have pid: "page_ok idx" using idx(2) by (simp add: page_ok_def BFP_MAX_PAGE_NUM_def PAGE_SIZE_def)
  have out: "map_of (bp_dir bp1) idx = None"
    using al idx(1) by (auto simp: alloc_ok_def bp1_def)
  obtain f bp2 where v: "victim bp1 = (Some f, bp2)"
    using victim_none(2) [OF same(1)] nf all_pinned_only [of bp1 bp]
    by (cases "victim bp1"; cases "fst (victim bp1)") (auto simp: bp1_def)
  let ?g = "grow_bitmap (hd_bitmap (bp_head bp)) (unat idx)"
  from bm.put_in [of "unat idx" ?g True] grow_bitmap_spec(1) obtain bm where
    bm: "bm_set ?g (unat idx) True = Inr bm" "length bm = length ?g"
      "bm_members bm = insert (unat idx) (pool_ids bp)"
    by (auto simp: grow_bitmap_spec(2) pool_ids_def)
  from install [OF same(1) v pid out] obtain bp3 where
    i: "change_correspondence f idx bp2 = Inr bp3"
    "frame_at f bp3 = Inr (blank_page\<lparr>pg_pid := idx\<rparr>)" "f < length (bp_pages bp1)"
    "bp_head bp3 = bp_head bp1" "bp_closed bp3 = bp_closed bp1"
    "next_pid (bp_disk bp3) = next_pid (bp_disk bp1)"
    and pl: "\<And>p h. pg_pid p = idx \<Longrightarrow> pg_pin_count p = 1 \<Longrightarrow> length (pg_buffer p) = PAGE_SIZE \<Longrightarrow>
       placed bp1 idx f p ((set_frame f p bp3)\<lparr>bp_head := h\<rparr>)" by blast
  have head2: "bp_head bp2 = bp_head bp"
    using victim_some(3) [OF same(1) v]
    by (metis (no_types, lifting) bp1_def pool.select_convs(6) pool.surjective
        pool.update_convs(2,4,5))
  define p where "p = (blank_page\<lparr>pg_pid := idx\<rparr>)\<lparr>pg_pid := idx, pg_dirty := True, pg_pin_count := 1\<rparr>"
  define h where "h = (bp_head bp)\<lparr>hd_bitmap := bm, hd_page_num := hd_page_num (bp_head bp) + 1,
                                    hd_phy_num := hd_phy_num (bp_head bp) + 1\<rparr>"
  define bp' where "bp' = (set_frame f p bp3)\<lparr>bp_head := h\<rparr>"
  have "new_page bp = Inr (Some (f, idx), bp')"
    using c v bm(1) i(1,2)
    by (simp add: new_page_def bp1_def [symmetric] head2 change_correspondence_head
          frame_at_def p_def h_def bp'_def set_frame_def Let_def split: if_splits)
  moreover have "placed bp1 idx f p bp'"
    unfolding bp'_def by (rule pl) (simp_all add: p_def blank_page_def)
  moreover have ids: "pool_ids bp' = insert (unat idx) (pool_ids bp)"
    using bm(3) by (simp add: pool_ids_def bp'_def h_def)
  moreover from calculation(2) have "alloc_ok bp'"
    unfolding bp1_def by (rule placed_alloc_ok [OF al _ ids _ idx(3-5)]) (simp add: bp'_def i(6) bp1_def)
  moreover have "\<exists>d. choose_page_id bp = Inr (Some idx, bp\<lparr>bp_disk := d\<rparr>) \<and>
      next_pid (bp_disk bp') = next_pid d"
    using c i(6) by (auto simp: bp'_def bp1_def)
  ultimately have "created bp f idx bp'"
    using idx i bm(2) same
    by (auto simp: created_def placed_def bp1_def bp'_def h_def length_grow_bitmap p_def blank_page_def)
  with \<open>new_page bp = _\<close> show ?thesis by blast
qed

end
