(* ===== verification/Pool_Durable.thy ===== *)
theory Pool_Durable
  imports Pool_Invariant
begin

text \<open>
  What outlives a buffer pool: the header page, the write-back of the dirty pages by \<open>close\<close>, and the
  pool that a later constructor sets up from the file.
\<close>

section \<open>The header page\<close>

lemma header_write_correct:
  assumes "length (pg_buffer p) = PAGE_SIZE" "16 + length (hd_bitmap h) \<le> PAGE_SIZE"
  shows "\<exists>b. header_write2page h p = Inr (p\<lparr>pg_buffer := b, pg_dirty := True\<rparr>) \<and>
    length b = PAGE_SIZE \<and> le_word (chunk 0 8 b) = hd_page_num h \<and>
    le_word (chunk 8 8 b) = hd_phy_num h \<and> chunk 16 (length (hd_bitmap h)) b = hd_bitmap h"
proof -
  let ?b1 = "blit 0 (le_bytes 8 (hd_page_num h)) (pg_buffer p)"
  let ?b2 = "blit 8 (le_bytes 8 (hd_phy_num h)) ?b1"
  let ?b3 = "blit 16 (hd_bitmap h) ?b2"
  have l: "length ?b1 = PAGE_SIZE" "length ?b2 = PAGE_SIZE" "length ?b3 = PAGE_SIZE"
    using assms by (simp_all add: PAGE_SIZE_def)
  have "header_write2page h p = Inr (p\<lparr>pg_buffer := ?b3, pg_dirty := True\<rparr>)"
    using assms l by (simp add: header_write2page_def store_def PAGE_SIZE_def)
  moreover have "le_word (chunk 0 8 ?b3) = hd_page_num h"
    using assms l size_field.read_written [of 0 "pg_buffer p" "hd_page_num h"]
      size_field.read_beside [of 16 "hd_bitmap h" ?b2 0] size_field.read_other [of 8 ?b1 0 "hd_phy_num h"]
    by (simp add: PAGE_SIZE_def)
  moreover have "le_word (chunk 8 8 ?b3) = hd_phy_num h"
    using assms l size_field.read_written [of 8 ?b1 "hd_phy_num h"]
      size_field.read_beside [of 16 "hd_bitmap h" ?b2 8]
    by (simp add: PAGE_SIZE_def)
  moreover have "chunk 16 (length (hd_bitmap h)) ?b3 = hd_bitmap h"
    using assms l by simp
  ultimately show ?thesis using l by blast
qed

lemma header_write_overflow:
  assumes "length (pg_buffer p) = PAGE_SIZE" "PAGE_SIZE < 16 + length (hd_bitmap h)"
  shows "header_write2page h p = Inl Out_Of_Bounds"
  using assms by (simp add: header_write2page_def store_def PAGE_SIZE_def)

definition header_ok :: "bfp_header \<Rightarrow> bool" where
  "header_ok h \<longleftrightarrow> hd_page_num h \<noteq> 0 \<and>
     length (hd_bitmap h) = unat (header_bitmap_size (hd_page_num h) (hd_phy_num h)) \<and>
     16 + length (hd_bitmap h) \<le> PAGE_SIZE"

lemma header_read_back:
  assumes "length b = PAGE_SIZE" "16 + length (hd_bitmap h) \<le> PAGE_SIZE" "header_ok h"
    "le_word (chunk 0 8 b) = hd_page_num h" "le_word (chunk 8 8 b) = hd_phy_num h"
    "chunk 16 (length (hd_bitmap h)) b = hd_bitmap h" "pg_buffer p = b"
  shows "header_init h0 p = Inr (False, h, p)"
  using assms by (simp add: header_init_def header_ok_def load_def PAGE_SIZE_def Let_def)

section \<open>Writing everything back\<close>

definition dirty_entries :: "page list \<Rightarrow> (page_id \<times> nat) list \<Rightarrow> (page_id \<times> bytes) list" where
  "dirty_entries ps d =
     map (\<lambda>e. (fst e, pg_buffer (ps ! snd e))) (filter (\<lambda>e. pg_dirty (ps ! snd e)) d)"

lemma flush_entries:
  "\<forall>e \<in> set d. snd e < length ps \<Longrightarrow>
   each (flush_entry ps) d disk = each (\<lambda>(i, b). write_page i b) (dirty_entries ps d) disk"
  by (induction d arbitrary: disk) (auto simp: dirty_entries_def flush_entry_def intro!: andthen_cong)

lemma map_of_dirty_entries:
  assumes "distinct (map fst d)"
  shows "map_of (dirty_entries ps d) q =
    (case map_of d q of Some f \<Rightarrow> if pg_dirty (ps ! f) then Some (pg_buffer (ps ! f)) else None
     | None \<Rightarrow> None)"
  using assms
proof (induction d)
  case (Cons e d)
  have "fst ` set (dirty_entries ps d) \<subseteq> fst ` set d" by (force simp: dirty_entries_def)
  then have "fst e = q \<Longrightarrow> map_of (dirty_entries ps d) q = None"
    using Cons.prems by (auto simp: map_of_eq_None_iff)
  with Cons show ?case by (cases e) (auto simp: dirty_entries_def)
qed (simp add: dirty_entries_def)

lemma write_keeps_next: "write_page i b d = Inr d' \<Longrightarrow> next_pid d' = next_pid d"
  by (auto simp: write_page_def Let_def split: if_splits)

lemma each_writes_keep_next:
  "each (\<lambda>(i, b). write_page i b) ps d = Inr d' \<Longrightarrow> next_pid d' = next_pid d"
proof (induction ps arbitrary: d)
  case (Cons p ps)
  then show ?case by (cases p) (auto simp: res_simps dest!: write_keeps_next)
qed simp

lemma flush_all_correct:
  assumes ok: "pool_ok bp"
  shows "\<exists>d. flush_all_page bp = Inr (bp\<lparr>bp_disk := d\<rparr>) \<and> next_pid d = next_pid (bp_disk bp) \<and>
    (\<forall>q. page_ok q \<longrightarrow> pool_saved bp q \<longrightarrow> disk_page d q = pool_view bp q)"
proof -
  let ?ds = "dirty_entries (bp_pages bp) (bp_dir bp)"
  note inv = pool_okD [OF ok]
  have dist: "distinct (map fst (bp_dir bp))" using inv(4) by (simp add: dir_ok_def)
  have entry: "page_ok (fst e) \<and> snd e < length (bp_pages bp)" if "e \<in> set (bp_dir bp)" for e
    using dir_okD [OF inv(4)] map_of_is_SomeI [OF dist, of "fst e" "snd e"] that by simp
  have "\<forall>(i, b) \<in> set ?ds. page_ok i \<and> length b = PAGE_SIZE"
    using entry frames_okD [OF inv(3)] by (auto simp: dirty_entries_def)
  moreover have "distinct (map fst ?ds)"
    using dist by (simp add: dirty_entries_def comp_def distinct_map_filter)
  ultimately obtain d where d: "each (\<lambda>(i, b). write_page i b) ?ds (bp_disk bp) = Inr d"
    "\<forall>j. page_ok j \<longrightarrow> disk_page d j =
       (case map_of ?ds j of Some b \<Rightarrow> b | None \<Rightarrow> disk_page (bp_disk bp) j)"
    using disk.write_all by blast
  have "flush_all_page bp = Inr (bp\<lparr>bp_disk := d\<rparr>)"
    using d(1) flush_entries [of "bp_dir bp" "bp_pages bp"] entry by (simp add: flush_all_page_def)
  moreover have "disk_page d q = pool_view bp q" if "page_ok q" "pool_saved bp q" for q
    using that d(2) by (cases "map_of (bp_dir bp) q")
      (auto simp: map_of_dirty_entries [OF dist] pool_saved_def pool_view_def)
  ultimately show ?thesis using each_writes_keep_next [OF d(1)] by blast
qed

text \<open>A client rewrites a page it has pinned.\<close>

lemma pinned_update:
  assumes ok: "pool_ok bp" and res: "map_of (bp_dir bp) pid = Some f"
    and pinned: "pool_pins bp pid \<noteq> 0"
    and p: "pg_pid p = pid" "pg_pin_count p = pool_pins bp pid" "length (pg_buffer p) = PAGE_SIZE"
  shows "pool_ok (set_frame f p bp)"
    "pool_view (set_frame f p bp) = (pool_view bp)(pid := pg_buffer p)"
    "pool_pins (set_frame f p bp) = pool_pins bp"
    "q \<noteq> pid \<Longrightarrow> pool_saved (set_frame f p bp) q = pool_saved bp q"
proof -
  have "pg_pin_count (bp_pages bp ! f) = pool_pins bp pid" using res by (simp add: pool_pins_def)
  then have "f \<notin> set (lru_order (bp_replacer bp))"
    using pool_okD(7) [OF ok, of f] pinned by simp
  note upd = pool_ok_update [OF ok res p(1,3), of "set_frame f p bp", simplified]
  show "pool_ok (set_frame f p bp)"
    "pool_view (set_frame f p bp) = (pool_view bp)(pid := pg_buffer p)"
    "q \<noteq> pid \<Longrightarrow> pool_saved (set_frame f p bp) q = pool_saved bp q"
    using upd(1,2,4) pinned p(2) pool_okD(1) [OF ok] \<open>f \<notin> _\<close> by simp_all
  show "pool_pins (set_frame f p bp) = pool_pins bp"
    using upd(3) pinned p(2) pool_okD(1) [OF ok] \<open>f \<notin> _\<close> by (simp add: fun_upd_idem)
qed

text \<open>
  Fetching a page, replacing its frame and letting it go: what \<open>close\<close> and \<open>init\<close> do to
  the header page.
\<close>

lemma fetch_update_unpin:
  assumes f: "fetched bp pid f bp1" and unheld: "pool_pins bp pid = 0"
    and p: "pg_pid p = pid" "pg_pin_count p = 1" "length (pg_buffer p) = PAGE_SIZE"
    and dirty: "dirty \<or> (pg_buffer p = pool_view bp pid \<and> pool_saved bp pid \<and>
                       p = bp_pages bp1 ! f)"
  shows "\<exists>bp2. unpin pid dirty (set_frame f p bp1) = Inr bp2 \<and> pool_ok bp2 \<and>
    bp_dir bp2 = bp_dir bp1 \<and> bp_head bp2 = bp_head bp \<and> bp_disk bp2 = bp_disk bp1 \<and>
    bp_closed bp2 = bp_closed bp \<and>
    (\<forall>q. page_ok q \<longrightarrow> pool_view bp2 q = (if q = pid then pg_buffer p else pool_view bp q)) \<and>
    pool_pins bp2 = pool_pins bp \<and> (\<forall>q. q = pid \<or> pool_saved bp q \<longrightarrow> pool_saved bp2 q)"
proof -
  let ?b = "set_frame f p bp1"
  have f': "pool_ok bp1" "map_of (bp_dir bp1) pid = Some f" "bp_head bp1 = bp_head bp"
    "bp_closed bp1 = bp_closed bp" "\<And>q. page_ok q \<Longrightarrow> pool_view bp1 q = pool_view bp q"
    "pool_pins bp1 = (pool_pins bp)(pid := 1)" "\<And>q. pool_saved bp q \<Longrightarrow> pool_saved bp1 q"
    using f unheld by (auto simp: fetched_def)
  have pin: "pool_pins bp1 pid = 1" using f'(6) by simp
  note u = pinned_update [OF f'(1,2) _ p(1) _ p(3), unfolded pin, simplified, OF p(2)]
  have same: "?b = bp1" if "\<not> dirty"
    using that dirty by (simp add: set_frame_def)
  have "dirty \<or> pool_saved ?b pid"
    using same dirty f'(7) [of pid] by metis
  moreover have "pool_pins ?b pid \<noteq> 0" by (simp add: u(3) pin)
  ultimately obtain bp2 where b2: "unpin pid dirty ?b = Inr bp2" "pool_ok bp2"
    "bp_dir bp2 = bp_dir ?b" "bp_head bp2 = bp_head ?b" "bp_disk bp2 = bp_disk ?b"
    "bp_closed bp2 = bp_closed ?b" "pool_view bp2 = pool_view ?b"
    "pool_pins bp2 = (pool_pins ?b)(pid := pool_pins ?b pid - 1)"
    "\<forall>q. q = pid \<or> pool_saved ?b q \<longrightarrow> pool_saved bp2 q"
    using unpin_correct [OF u(1), of pid dirty] by blast
  have "pool_saved bp2 q" if "q = pid \<or> pool_saved bp q" for q
    using that b2(9) u(4) [of q] f'(7) by blast
  moreover have "pool_pins bp2 = pool_pins bp"
    using b2(8) u(3) f'(6) pin unheld by (simp add: fun_upd_idem)
  ultimately show ?thesis
    using b2 u(2) f' by simp
qed

section \<open>Closing and reopening\<close>

lemma fetch_header:
  assumes ok: "pool_ok bp" and can: "map_of (bp_dir bp) 0 \<noteq> None \<or> \<not> all_pinned bp"
    and unheld: "pool_pins bp 0 = 0"
  shows "\<exists>f bp1. fetch 0 bp = Inr (Some f, bp1) \<and> fetched bp 0 f bp1 \<and>
    frame_at f bp1 = Inr (bp_pages bp1 ! f) \<and> pg_pid (bp_pages bp1 ! f) = 0 \<and>
    pg_pin_count (bp_pages bp1 ! f) = 1 \<and> pg_buffer (bp_pages bp1 ! f) = pool_view bp 0"
proof -
  have zero: "page_ok 0" by (simp add: page_ok_def)
  from fetch_correct [OF ok zero] unheld can obtain f bp1 where
    f: "fetch 0 bp = Inr (Some f, bp1)" "fetched bp 0 f bp1" by auto
  then have b: "pool_ok bp1" "map_of (bp_dir bp1) 0 = Some f" "pool_view bp1 0 = pool_view bp 0"
    "pool_pins bp1 0 = 1"
    using unheld zero by (auto simp: fetched_def)
  with f frame_at_resident [OF b(1,2)] dir_okD(3) [OF pool_okD(4) [OF b(1)] b(2)] show ?thesis
    by (auto simp: pool_view_def pool_pins_def)
qed

definition header_page :: "bfp_header \<Rightarrow> bytes \<Rightarrow> bool" where
  "header_page h b \<longleftrightarrow> (\<forall>h0 p. pg_buffer p = b \<longrightarrow> header_init h0 p = Inr (False, h, p))"

lemma close_correct:
  assumes ok: "pool_ok bp" and op: "\<not> bp_closed bp"
    and can: "map_of (bp_dir bp) 0 \<noteq> None \<or> \<not> all_pinned bp"
    and unheld: "pool_pins bp 0 = 0" and head: "header_ok (bp_head bp)"
    and saved: "\<And>q. pool_saved bp q"
  shows "\<exists>bp'. pool_close bp = Inr bp' \<and> bp_closed bp' \<and>
    header_page (bp_head bp) (disk_page (bp_disk bp') 0) \<and>
    (\<forall>q. page_ok q \<longrightarrow> q \<noteq> 0 \<longrightarrow> disk_page (bp_disk bp') q = pool_view bp q)"
proof -
  from fetch_header [OF ok can unheld] obtain f bp1 where
    f: "fetch 0 bp = Inr (Some f, bp1)" "fetched bp 0 f bp1"
    "frame_at f bp1 = Inr (bp_pages bp1 ! f)" "pg_pid (bp_pages bp1 ! f) = 0"
    "pg_pin_count (bp_pages bp1 ! f) = 1" "pg_buffer (bp_pages bp1 ! f) = pool_view bp 0" by blast
  have h1: "bp_head bp1 = bp_head bp" using f(2) by (simp add: fetched_def)
  obtain b where b:
    "header_write2page (bp_head bp) (bp_pages bp1 ! f) =
       Inr ((bp_pages bp1 ! f)\<lparr>pg_buffer := b, pg_dirty := True\<rparr>)"
    "length b = PAGE_SIZE" "le_word (chunk 0 8 b) = hd_page_num (bp_head bp)"
    "le_word (chunk 8 8 b) = hd_phy_num (bp_head bp)"
    "chunk 16 (length (hd_bitmap (bp_head bp))) b = hd_bitmap (bp_head bp)"
    using header_write_correct [of "bp_pages bp1 ! f" "bp_head bp"] head f(6) length_pool_view [OF ok]
    by (auto simp: header_ok_def)
  let ?p = "(bp_pages bp1 ! f)\<lparr>pg_buffer := b, pg_dirty := True\<rparr>"
  from fetch_update_unpin [OF f(2) unheld, of ?p True] f(4,5) b(2) obtain bp2 where
    u: "unpin 0 True (set_frame f ?p bp1) = Inr bp2" "pool_ok bp2"
    "\<forall>q. page_ok q \<longrightarrow> pool_view bp2 q = (if q = 0 then b else pool_view bp q)"
    "\<forall>q. q = 0 \<or> pool_saved bp q \<longrightarrow> pool_saved bp2 q"
    by auto
  from flush_all_correct [OF u(2)] obtain d where
    d: "flush_all_page bp2 = Inr (bp2\<lparr>bp_disk := d\<rparr>)"
    "\<forall>q. page_ok q \<longrightarrow> pool_saved bp2 q \<longrightarrow> disk_page d q = pool_view bp2 q" by blast
  have "header_page (bp_head bp) b"
    unfolding header_page_def using header_read_back b(2-5) head by (auto simp: header_ok_def)
  moreover have "pool_close bp = Inr (bp2\<lparr>bp_disk := d, bp_closed := True\<rparr>)"
    using op f(1,3,4) b(1) u(1) d(1) by (simp add: pool_close_def h1)
  moreover have "page_ok 0" by (simp add: page_ok_def)
  ultimately show ?thesis using d(2) u(3,4) saved by simp
qed

lemma disk_page_open [simp]: "disk_page (disk_open (Some (db_file d))) = disk_page d"
  by (simp add: fun_eq_iff disk_page_def disk_open_def)

lemma disk_page_open_None: "disk_page (disk_open None) q = replicate PAGE_SIZE 0"
  by (simp add: disk_page_def disk_open_def list_eq_iff_nth_eq)

lemma pool_blank_ok:
  "pool_ok (pool_blank n d)" "pool_view (pool_blank n d) = disk_page d"
  "pool_pins (pool_blank n d) = (\<lambda>_. 0)" "pool_saved (pool_blank n d) = (\<lambda>_. True)"
  "0 < n \<Longrightarrow> \<not> all_pinned (pool_blank n d)"
  by (auto simp: pool_blank_def pool_ok_def pool_view_def pool_pins_def pool_saved_def fun_eq_iff
      frames_ok_def dir_ok_def free_ok_def blank_page_def all_pinned_def lru_new_def [THEN arg_cong [where f = lru_capacity]])

text \<open>Writing one resident page to the file.\<close>

lemma flush_page_correct:
  assumes ok: "pool_ok bp"
  shows "\<exists>d. flush_page pid bp = Inr (bp\<lparr>bp_disk := d\<rparr>) \<and> pool_ok (bp\<lparr>bp_disk := d\<rparr>) \<and>
    next_pid d = next_pid (bp_disk bp) \<and>
    (\<forall>q. page_ok q \<longrightarrow> pool_view (bp\<lparr>bp_disk := d\<rparr>) q = pool_view bp q) \<and>
    pool_pins (bp\<lparr>bp_disk := d\<rparr>) = pool_pins bp \<and>
    (\<forall>q. pool_saved bp q \<longrightarrow> pool_saved (bp\<lparr>bp_disk := d\<rparr>) q)"
proof (cases "map_of (bp_dir bp) pid")
  case None
  with ok show ?thesis by (intro exI [of _ "bp_disk bp"]) (simp add: flush_page_def)
next
  case (Some f)
  note inv = pool_okD [OF ok]
  note d = dir_okD [OF inv(4) Some]
  let ?b = "pg_buffer (bp_pages bp ! f)"
  from disk.write_total [OF d(1)] obtain d' where w: "write_page pid ?b (bp_disk bp) = Inr d'" by blast
  have page: "disk_page d' q = (if q = pid then ?b else disk_page (bp_disk bp) q)" if "page_ok q" for q
    using disk_page_write [OF d(1) that _ w] frames_okD [OF inv(3) d(2)] by simp
  let ?bp = "bp\<lparr>bp_disk := d'\<rparr>"
  have fl: "flush_page pid bp = Inr ?bp"
    using Some frame_at_resident [OF ok Some] w by (simp add: flush_page_def)
  have pins: "pool_pins ?bp = pool_pins bp"
    by (simp add: fun_eq_iff pool_pins_def split: option.split)
  have view: "pool_view ?bp q = pool_view bp q" if "page_ok q" for q
    using Some page [OF that] by (auto simp: pool_view_def split: option.split)
  have saved: "pool_saved ?bp q" if "pool_saved bp q" for q
    using that Some page [of q] dir_okD(1) [OF inv(4), of q]
    by (auto simp: pool_saved_def split: option.splits)
  have "pool_ok ?bp" using ok saved by (simp add: pool_ok_def pins)
  with fl pins view saved write_keeps_next [OF w] show ?thesis by blast
qed

definition ready :: "pool \<Rightarrow> bfp_header \<Rightarrow> (page_id \<Rightarrow> bytes) \<Rightarrow> bool" where
  "ready bp h view \<longleftrightarrow>
     pool_ok bp \<and> bp_head bp = h \<and> next_pid (bp_disk bp) = hd_phy_num h \<and>
     \<not> bp_closed bp \<and> pool_pins bp = (\<lambda>_. 0) \<and> (\<forall>q. pool_saved bp q) \<and>
     (\<forall>q f. map_of (bp_dir bp) q = Some f \<longrightarrow> q = 0) \<and> map_of (bp_dir bp) 0 \<noteq> None \<and>
     (\<forall>q. page_ok q \<longrightarrow> q \<noteq> 0 \<longrightarrow> pool_view bp q = view q)"

lemma set_next_ready:
  assumes "pool_ok bp" "bp_head bp = h" "\<not> bp_closed bp" "pool_pins bp = (\<lambda>_. 0)"
    "\<And>q. pool_saved bp q" "\<And>q f. map_of (bp_dir bp) q = Some f \<Longrightarrow> q = 0"
    "map_of (bp_dir bp) 0 \<noteq> None"
    "\<And>q. page_ok q \<Longrightarrow> q \<noteq> 0 \<Longrightarrow> pool_view bp q = view q"
  shows "ready (bp\<lparr>bp_disk := set_next_page_id (hd_phy_num h) (bp_disk bp)\<rparr>) h view"
proof -
  note same = pool_ok_only [OF assms(1),
      of "bp\<lparr>bp_disk := set_next_page_id (hd_phy_num h) (bp_disk bp)\<rparr>"]
  then show ?thesis
    using assms by (auto simp: ready_def set_next_page_id_def)
qed

text \<open>The first fetch of \<open>init\<close>, on the pool the constructor built.\<close>

lemma blank_fetch_header:
  assumes "0 < n"
  shows "\<exists>f bp1. fetch 0 (pool_blank n d) = Inr (Some f, bp1) \<and> fetched (pool_blank n d) 0 f bp1 \<and>
    frame_at f bp1 = Inr (bp_pages bp1 ! f) \<and> pg_pid (bp_pages bp1 ! f) = 0 \<and>
    pg_pin_count (bp_pages bp1 ! f) = 1 \<and> pg_buffer (bp_pages bp1 ! f) = disk_page d 0 \<and>
    (\<forall>q g. map_of (bp_dir bp1) q = Some g \<longrightarrow> q = 0)"
proof -
  from fetch_header [of "pool_blank n d"] assms obtain f bp1 where
    f: "fetch 0 (pool_blank n d) = Inr (Some f, bp1)" "fetched (pool_blank n d) 0 f bp1"
      "frame_at f bp1 = Inr (bp_pages bp1 ! f)" "pg_pid (bp_pages bp1 ! f) = 0"
      "pg_pin_count (bp_pages bp1 ! f) = 1" "pg_buffer (bp_pages bp1 ! f) = disk_page d 0"
    by (auto simp: pool_blank_ok)
  moreover have "map_of (bp_dir (pool_blank n d)) q = None" for q by (simp add: pool_blank_def)
  with f(2) have "map_of (bp_dir bp1) q = Some g \<Longrightarrow> q = 0" for q g
    by (auto simp: fetched_def)
  ultimately show ?thesis by blast
qed

lemma open_existing:
  assumes "0 < n" and head: "header_page h (disk_page d 0)"
  shows "\<exists>bp. pool_open (Some (db_file d)) n = Inr bp \<and> ready bp h (disk_page d)"
proof -
  let ?b = "pool_blank n (disk_open (Some (db_file d)))"
  from blank_fetch_header [OF assms(1), of "disk_open (Some (db_file d))"] obtain f bp1 where
    f: "fetch 0 ?b = Inr (Some f, bp1)" "fetched ?b 0 f bp1"
      "frame_at f bp1 = Inr (bp_pages bp1 ! f)" "pg_pid (bp_pages bp1 ! f) = 0"
      "pg_pin_count (bp_pages bp1 ! f) = 1" "pg_buffer (bp_pages bp1 ! f) = disk_page d 0"
      "\<And>q g. map_of (bp_dir bp1) q = Some g \<Longrightarrow> q = 0"
    by auto
  let ?p = "bp_pages bp1 ! f"
  have h: "header_init (bp_head bp1) ?p = Inr (False, h, ?p)"
    using head f(6) by (simp add: header_page_def)
  have len: "length (pg_buffer ?p) = PAGE_SIZE" by (simp add: f(6))
  have res: "map_of (bp_dir bp1) 0 \<noteq> None" using f(2) by (simp add: fetched_def)
  from fetch_update_unpin [OF f(2) _ f(4,5) len, of False] obtain bp2 where
    u: "unpin 0 False (set_frame f ?p bp1) = Inr bp2" "pool_ok bp2" "bp_dir bp2 = bp_dir bp1"
      "bp_closed bp2 = bp_closed ?b" "pool_pins bp2 = pool_pins ?b"
      "\<forall>q. page_ok q \<longrightarrow> pool_view bp2 q = (if q = 0 then pg_buffer ?p else pool_view ?b q)"
      "\<forall>q. q = 0 \<or> pool_saved ?b q \<longrightarrow> pool_saved bp2 q"
    by (auto simp: f(6) pool_blank_ok)
  have head: "unpin 0 False ((set_frame f ?p bp1)\<lparr>bp_head := h\<rparr>) = Inr (bp2\<lparr>bp_head := h\<rparr>)"
    using u(1) by (auto simp: unpin_def set_frame_def frame_at_def Let_def andthen_def
        split: option.splits sum.splits if_splits)
  define bp3 where "bp3 = bp2\<lparr>bp_head := h\<rparr>"
  note same = pool_ok_only [OF u(2), of bp3, simplified bp3_def, simplified, folded bp3_def]
  have "ready (bp3\<lparr>bp_disk := set_next_page_id (hd_phy_num h) (bp_disk bp3)\<rparr>) h (disk_page d)"
    using u(3-7) f(7) same res
    by (intro set_next_ready) (auto simp: bp3_def pool_blank_ok, simp add: pool_blank_def)
  with f(1,3) h head show ?thesis
    by (simp add: pool_open_def pool_init_def bp3_def)
qed

definition first_header :: bfp_header where
  "first_header = \<lparr>hd_page_num = 1, hd_phy_num = 1, hd_bitmap = [1]\<rparr>"

lemma chunk_zeros: "off + k \<le> n \<Longrightarrow> chunk off k (replicate n 0) = replicate k 0"
  by (simp add: chunk_def min_def)

lemma first_bitmap: "bm_set [0] 0 True = Inr [1]" "bm_members [1] = {0}"
  by (auto simp: bm_set_def bm_members_def bit_1_iff split: if_splits)

lemma header_init_fresh:
  assumes "pg_buffer p = replicate PAGE_SIZE 0"
  shows "\<exists>b. header_init h p =
       Inr (True, first_header, p\<lparr>pg_buffer := b, pg_dirty := True\<rparr>) \<and> length b = PAGE_SIZE"
proof -
  have eq: "h\<lparr>hd_page_num := 1, hd_phy_num := 1, hd_bitmap := [1]\<rparr> = first_header"
    by (simp add: first_header_def)
  have "16 + length (hd_bitmap first_header) \<le> PAGE_SIZE"
    by (simp add: first_header_def PAGE_SIZE_def)
  then obtain b where b: "header_write2page first_header p = Inr (p\<lparr>pg_buffer := b, pg_dirty := True\<rparr>)"
    "length b = PAGE_SIZE"
    using header_write_correct [of p first_header] assms by auto
  have "load 0 8 (pg_buffer p) = Inr (replicate 8 0)" "load 8 8 (pg_buffer p) = Inr (replicate 8 0)"
    by (simp_all add: assms load_def chunk_zeros PAGE_SIZE_def)
  then have "header_init h p = Inr (True, first_header, p\<lparr>pg_buffer := b, pg_dirty := True\<rparr>)"
    using b(1) by (simp add: header_init_def first_bitmap(1) eq del: replicate.simps)
  with b(2) show ?thesis by blast
qed

lemma open_new:
  assumes "0 < n"
  shows "\<exists>bp. pool_open None n = Inr bp \<and> ready bp first_header (\<lambda>_. replicate PAGE_SIZE 0)"
proof -
  let ?b = "pool_blank n (disk_open None)"
  from blank_fetch_header [OF assms(1), of "disk_open None"] obtain f bp1 where
    f: "fetch 0 ?b = Inr (Some f, bp1)" "fetched ?b 0 f bp1"
      "frame_at f bp1 = Inr (bp_pages bp1 ! f)" "pg_pid (bp_pages bp1 ! f) = 0"
      "pg_pin_count (bp_pages bp1 ! f) = 1"
      "pg_buffer (bp_pages bp1 ! f) = replicate PAGE_SIZE 0"
      "\<And>q g. map_of (bp_dir bp1) q = Some g \<Longrightarrow> q = 0"
    by (auto simp: disk_page_open_None)
  from header_init_fresh [OF f(6)] obtain b where
    h: "header_init (bp_head bp1) (bp_pages bp1 ! f) =
      Inr (True, first_header, (bp_pages bp1 ! f)\<lparr>pg_buffer := b, pg_dirty := True\<rparr>)"
      "length b = PAGE_SIZE" by blast
  define p where "p = (bp_pages bp1 ! f)\<lparr>pg_buffer := b, pg_dirty := True\<rparr>"
  have p: "pg_pid p = 0" "pg_pin_count p = 1" "length (pg_buffer p) = PAGE_SIZE"
    using f(4,5) h(2) by (simp_all add: p_def)
  have res: "map_of (bp_dir bp1) 0 \<noteq> None" using f(2) by (simp add: fetched_def)
  from fetch_update_unpin [OF f(2) _ p, of True] obtain bp2 where
    u: "unpin 0 True (set_frame f p bp1) = Inr bp2" "pool_ok bp2" "bp_dir bp2 = bp_dir bp1"
      "bp_closed bp2 = bp_closed ?b" "pool_pins bp2 = pool_pins ?b"
      "\<forall>q. page_ok q \<longrightarrow> pool_view bp2 q = (if q = 0 then pg_buffer p else pool_view ?b q)"
      "\<forall>q. q = 0 \<or> pool_saved ?b q \<longrightarrow> pool_saved bp2 q"
    by (auto simp: pool_blank_ok)
  define bp3 where "bp3 = bp2\<lparr>bp_head := first_header\<rparr>"
  have head: "unpin 0 True ((set_frame f p bp1)\<lparr>bp_head := first_header\<rparr>) = Inr bp3"
    using u(1) by (auto simp: unpin_def set_frame_def frame_at_def Let_def andthen_def bp3_def
        split: option.splits sum.splits if_splits)
  note same = pool_ok_only [OF u(2), of bp3, simplified bp3_def, simplified, folded bp3_def]
  from flush_page_correct [OF same(1), of 0] obtain d where
    d: "flush_page 0 bp3 = Inr (bp3\<lparr>bp_disk := d\<rparr>)" "pool_ok (bp3\<lparr>bp_disk := d\<rparr>)"
      "\<forall>q. page_ok q \<longrightarrow> pool_view (bp3\<lparr>bp_disk := d\<rparr>) q = pool_view bp3 q"
      "pool_pins (bp3\<lparr>bp_disk := d\<rparr>) = pool_pins bp3"
      "\<forall>q. pool_saved bp3 q \<longrightarrow> pool_saved (bp3\<lparr>bp_disk := d\<rparr>) q" by blast
  define bp4 where "bp4 = bp3\<lparr>bp_disk := d\<rparr>"
  note d' = d [folded bp4_def]
  have "bp_dir bp4 = bp_dir bp1" "bp_closed bp4 = False" "bp_head bp4 = first_header"
    using u(3,4) by (simp_all add: bp4_def bp3_def pool_blank_def)
  then have "ready (bp4\<lparr>bp_disk := set_next_page_id (hd_phy_num first_header) (bp_disk bp4)\<rparr>)
      first_header (\<lambda>_. replicate PAGE_SIZE 0)"
    using u(5-7) f(7) same d' res
    by (intro set_next_ready) (auto simp: pool_blank_ok disk_page_open_None)
  with f(1,3) h head d'(1) show ?thesis
    by (simp add: pool_open_def pool_init_def p_def)
qed

section \<open>A file without deletions\<close>

text \<open>
  The header of a file whose pages were never deleted: the allocated ids are those below the
  counters, and the bitmap has exactly the bytes the header will be read back with.
\<close>

definition dense :: "pool \<Rightarrow> bool" where
  "dense bp \<longleftrightarrow>
     pool_ids bp = {..<unat (hd_phy_num (bp_head bp))} \<and>
     hd_page_num (bp_head bp) = hd_phy_num (bp_head bp) \<and>
     next_pid (bp_disk bp) = hd_phy_num (bp_head bp) \<and>
     length (hd_bitmap (bp_head bp)) = (unat (hd_phy_num (bp_head bp)) + 7) div 8 \<and>
     hd_phy_num (bp_head bp) \<noteq> 0"

lemma ceil_div_8: "(k + 7) div 8 = k div 8 + (if k mod 8 = 0 then 0 else 1)" for k :: nat
proof -
  obtain q r where k: "k = q * 8 + r" "r < 8" by (metis div_mult_mod_eq mod_less_divisor zero_less_numeral)
  have "(k + 7) div 8 = q + (r + 7) div 8" by (simp add: k add.assoc)
  moreover have "(r + 7) div 8 = (if r = 0 then 0 else 1)"
    using k(2) by (auto simp: div_nat_eqI)
  ultimately show ?thesis using k by simp
qed

lemma header_bitmap_size_dense:
  assumes "p \<noteq> 0"
  shows "unat (header_bitmap_size p p) = (unat p + 7) div 8"
proof -
  have pos: "0 < unat p" using assms by (simp add: unat_gt_0)
  show ?thesis
  proof (cases "p > 8")
    case False
    then have "unat p \<le> 8" by (simp add: word_less_nat_alt not_less)
    with pos False have "(unat p + 7) div 8 = 1" by linarith
    with False show ?thesis by (simp add: header_bitmap_size_def)
  next
    case True
    have d: "unat (p div 8) = unat p div 8" "unat (p mod 8) = unat p mod 8"
      by (simp_all add: unat_div unat_mod)
    then have "unat (p div 8) + 1 < 2 ^ 64" using unsigned_less [of p, where 'a = nat] by simp
    then have s: "unat (p div 8 + 1) = unat p div 8 + 1" by (simp add: unat_word_ariths(1) d)
    have z: "p mod 8 = 0 \<longleftrightarrow> unat p mod 8 = 0" using d(2) by (metis unat_eq_zero)
    with True s z d(1) show ?thesis by (simp add: header_bitmap_size_def ceil_div_8)
  qed
qed

lemma dense_header_ok:
  assumes "dense bp" "unat (hd_phy_num (bp_head bp)) \<le> BFP_MAX_PAGE_NUM"
  shows "header_ok (bp_head bp)"
  using assms header_bitmap_size_dense [of "hd_phy_num (bp_head bp)"]
  by (auto simp: header_ok_def dense_def BFP_MAX_PAGE_NUM_def PAGE_SIZE_def)

lemma dense_choose:
  assumes al: "alloc_ok bp" and de: "dense bp"
    and c: "choose_page_id bp = Inr (Some idx, bp\<lparr>bp_disk := d\<rparr>)"
  shows "idx = next_pid (bp_disk bp)" "next_pid d = next_pid (bp_disk bp) + 1"
proof -
  let ?n = "next_pid (bp_disk bp)"
  from bm.first_total obtain r where r: "bm_first (hd_bitmap (bp_head bp)) False = Inr r" by blast
  have "r = None \<or> r = Some (unat ?n)"
  proof (cases r)
    case (Some i)
    have "i \<notin> pool_ids bp" "\<forall>j<i. j \<in> pool_ids bp"
      using bm.first_some [of "hd_bitmap (bp_head bp)" False i] r Some by (auto simp: pool_ids_def)
    then have "i = unat ?n" using de by (auto simp: dense_def not_less) (metis order_le_less less_irrefl)
    with Some show ?thesis by simp
  qed simp
  moreover have "\<not> ?n < current_pid (bp_disk bp)"
    using next_pid_unat [OF al] by (simp add: word_less_nat_alt)
  moreover have "bp\<lparr>bp_disk := e\<rparr> = bp\<lparr>bp_disk := e'\<rparr> \<longleftrightarrow> e = e'" for e e'
    by (metis pool.select_convs(5) pool.surjective pool.update_convs(5))
  ultimately show "idx = ?n" "next_pid d = ?n + 1"
    using c r by (auto simp: choose_page_id_def next_page_id_def split: if_splits)
qed

lemma dense_created:
  assumes al: "alloc_ok bp" and de: "dense bp" and cr: "created bp f idx bp'"
    and room: "unat (next_pid (bp_disk bp)) < BFP_MAX_PAGE_NUM"
  shows "dense bp'"
proof -
  let ?n = "hd_phy_num (bp_head bp)"
  obtain d where d: "choose_page_id bp = Inr (Some idx, bp\<lparr>bp_disk := d\<rparr>)"
    "next_pid (bp_disk bp') = next_pid d" using cr by (auto simp: created_def)
  note idx = dense_choose [OF al de d(1)]
  have n: "idx = ?n" "next_pid (bp_disk bp') = ?n + 1" using idx d(2) de by (auto simp: dense_def)
  have small: "unat ?n < BFP_MAX_PAGE_NUM" using room de by (simp add: dense_def)
  then have s: "unat (?n + 1) = unat ?n + 1"
    by (simp add: unat_word_ariths(1) BFP_MAX_PAGE_NUM_def PAGE_SIZE_def)
  then have "?n + 1 \<noteq> 0" by (metis add_is_0 unat_0 zero_neq_one)
  moreover have "max ((unat ?n + 7) div 8) (unat ?n div 8 + 1) = (unat ?n + 1 + 7) div 8"
    by linarith
  ultimately show ?thesis
    using cr de n s by (auto simp: dense_def created_def)
qed

end
