(* ===== verification/Pool_Leak.thy ===== *)
theory Pool_Leak
  imports Pool_Durable
begin

text \<open>
  The buffer pool under clients that let go of a page once too often. The pin count of such a page
  wraps around, so that from then on it does not say how many clients hold the page. Nothing but
  \<open>unpin\<close> reads the counts: every other operation commutes with changing them (\<open>repin\<close>). A pool with
  such pages is therefore related to one with the right counts (\<open>settled\<close>), in which a frame
  counts as pinned when it is neither free nor in the replacer.
\<close>

section \<open>Changing the pin counts\<close>

definition repin :: "(nat \<Rightarrow> size_t) \<Rightarrow> pool \<Rightarrow> pool" where
  "repin g bp = bp\<lparr>bp_pages :=
     map (\<lambda>f. (bp_pages bp ! f)\<lparr>pg_pin_count := g f\<rparr>) [0..<length (bp_pages bp)]\<rparr>"

lemma repin_simps [simp]:
  "bp_dir (repin g bp) = bp_dir bp" "bp_free_list (repin g bp) = bp_free_list bp"
  "bp_replacer (repin g bp) = bp_replacer bp" "bp_disk (repin g bp) = bp_disk bp"
  "bp_head (repin g bp) = bp_head bp" "bp_closed (repin g bp) = bp_closed bp"
  "length (bp_pages (repin g bp)) = length (bp_pages bp)"
  "f < length (bp_pages bp) \<Longrightarrow> bp_pages (repin g bp) ! f = (bp_pages bp ! f)\<lparr>pg_pin_count := g f\<rparr>"
  by (simp_all add: repin_def)

lemma repin_repin [simp]: "repin g (repin h bp) = repin g bp"
  by (simp add: repin_def)

lemma frame_at_repin:
  "frame_at f (repin g bp) = andthen (frame_at f bp) (\<lambda>p. Inr (p\<lparr>pg_pin_count := g f\<rparr>))"
  by (simp add: frame_at_def)

lemma repin_set_frame:
  "set_frame f p (repin g bp) = repin (g(f := pg_pin_count p)) (set_frame f p bp)"
  by (cases "f < length (bp_pages bp)")
    (auto simp: set_frame_def repin_def nth_list_update list_update_beyond
      intro!: pool.equality nth_equalityI)

lemma repin_set_frame_count:
  "repin g (set_frame f (p\<lparr>pg_pin_count := c\<rparr>) bp) = repin g (set_frame f p bp)"
  "repin g (set_frame f (p\<lparr>pg_pin_count := c, pg_buffer := bs\<rparr>) bp) =
     repin g (set_frame f (p\<lparr>pg_buffer := bs\<rparr>) bp)"
  by (cases "f < length (bp_pages bp)";
      auto simp: set_frame_def repin_def nth_list_update list_update_beyond
        intro!: pool.equality nth_equalityI)+

lemma repin_updates:
  "repin g (bp\<lparr>bp_dir := d\<rparr>) = (repin g bp)\<lparr>bp_dir := d\<rparr>"
  "repin g (bp\<lparr>bp_free_list := l\<rparr>) = (repin g bp)\<lparr>bp_free_list := l\<rparr>"
  "repin g (bp\<lparr>bp_replacer := r\<rparr>) = (repin g bp)\<lparr>bp_replacer := r\<rparr>"
  "repin g (bp\<lparr>bp_disk := k\<rparr>) = (repin g bp)\<lparr>bp_disk := k\<rparr>"
  "repin g (bp\<lparr>bp_head := h\<rparr>) = (repin g bp)\<lparr>bp_head := h\<rparr>"
  "repin g (bp\<lparr>bp_closed := b\<rparr>) = (repin g bp)\<lparr>bp_closed := b\<rparr>"
  by (simp_all add: repin_def)

text \<open>The operations that do not look at the counts.\<close>

lemma victim_repin: "victim (repin g bp) = (case victim bp of (r, bp1) \<Rightarrow> (r, repin g bp1))"
  by (simp add: victim_def repin_updates split: prod.split)

lemma flush_page_repin:
  "flush_page pid (repin g bp) = andthen (flush_page pid bp) (\<lambda>b. Inr (repin g b))"
  by (simp add: flush_page_def frame_at_def repin_updates andthen_def split: option.split sum.split)

lemma change_correspondence_repin:
  "change_correspondence f pid (repin g bp) =
     andthen (change_correspondence f pid bp) (\<lambda>b. Inr (repin (g(f := 0)) b))"
proof (cases "f < length (bp_pages bp)")
  case False
  then show ?thesis by (simp add: change_correspondence_def frame_at_def)
next
  case True
  let ?p = "bp_pages bp ! f"
  have c: "(page_clear_all (?p\<lparr>pg_pin_count := c\<rparr>))\<lparr>pg_pid := pid\<rparr> =
      ((page_clear_all ?p)\<lparr>pg_pid := pid\<rparr>)\<lparr>pg_pin_count := 0\<rparr>" for c
    by (simp add: page_clear_all_def page_clear_data_def)
  show ?thesis
    using True
    by (auto simp: change_correspondence_def frame_at_def c repin_set_frame repin_set_frame_count flush_page_repin
        repin_updates [symmetric] Let_def andthen_def split: sum.split)
qed

lemma fetch_repin_hit:
  assumes "map_of (bp_dir bp) pid = Some f"
  shows "fetch pid (repin g bp) =
    andthen (fetch pid bp) (\<lambda>(r, b). Inr (r, repin (g(f := g f + 1)) b))"
  using assms
  by (auto simp: fetch_def frame_at_def andthen_def repin_set_frame repin_set_frame_count repin_updates
      split: sum.split)

lemma fetch_repin_miss:
  assumes "map_of (bp_dir bp) pid = None" "victim bp = (Some f, bp1)"
  shows "fetch pid (repin g bp) = andthen (fetch pid bp) (\<lambda>(r, b). Inr (r, repin (g(f := 1)) b))"
  using assms
  by (auto simp: fetch_def victim_repin change_correspondence_repin frame_at_def andthen_def
      split: sum.split)
    (auto simp: repin_set_frame)

lemma choose_page_id_repin:
  "choose_page_id (repin g bp) = andthen (choose_page_id bp) (\<lambda>(i, b). Inr (i, repin g b))"
  by (simp add: choose_page_id_def andthen_def next_page_id_def repin_updates
      split: sum.split option.split)

lemma new_page_repin:
  assumes "choose_page_id bp = Inr (Some idx, bp1)" "victim bp1 = (Some f, bp2)"
  shows "new_page (repin g bp) = andthen (new_page bp) (\<lambda>(r, b). Inr (r, repin (g(f := 1)) b))"
  using assms
  by (auto simp: new_page_def choose_page_id_repin victim_repin Let_def repin_updates [symmetric]
      change_correspondence_repin frame_at_def andthen_def repin_set_frame repin_set_frame_count
      split: sum.split)

lemma put_data_repin:
  "put_data f bs (repin g bp) = andthen (put_data f bs bp) (\<lambda>b. Inr (repin g b))"
  by (simp add: put_data_def frame_at_def repin_set_frame repin_set_frame_count)

lemma unpin_repin:
  assumes "map_of (bp_dir bp) pid = Some f" "f < length (bp_pages bp)"
    and "g f - 1 = 0 \<longleftrightarrow> pg_pin_count (bp_pages bp ! f) - 1 = 0"
  shows "unpin pid d (repin g bp) = andthen (unpin pid d bp) (\<lambda>b. Inr (repin (g(f := g f - 1)) b))"
  using assms
  by (auto simp: unpin_def frame_at_def Let_def andthen_def repin_set_frame repin_set_frame_count repin_updates
      split: sum.split)

section \<open>The pool with the counts set right\<close>

definition pool_fixed :: "pool \<Rightarrow> page_id \<Rightarrow> bool" where
  "pool_fixed bp pid \<longleftrightarrow>
     (case map_of (bp_dir bp) pid of
        Some f \<Rightarrow> f \<notin> set (bp_free_list bp) \<and> f \<notin> set (lru_order (bp_replacer bp))
      | None \<Rightarrow> False)"

definition settled :: "pool \<Rightarrow> pool" where
  "settled bp = repin (\<lambda>f. if f \<in> set (bp_free_list bp) \<or> f \<in> set (lru_order (bp_replacer bp))
                          then 0 else 1) bp"

lemma repin_own: "repin (\<lambda>f. pg_pin_count (bp_pages bp ! f)) bp = bp"
  by (auto simp: repin_def intro!: pool.equality nth_equalityI)

lemma settled_repin [simp]: "settled (repin g bp) = settled bp"
  by (simp add: settled_def)

lemma fixed_repin [simp]: "pool_fixed (repin g bp) = pool_fixed bp"
  by (simp add: fun_eq_iff pool_fixed_def split: option.split)

lemma repin_resident:
  assumes "pool_ok (repin h bp)" "map_of (bp_dir bp) q = Some f"
  shows "f < length (bp_pages bp)" "f \<notin> set (bp_free_list bp)"
  using dir_okD(2) [OF pool_okD(4) [OF assms(1)], of q f] resident_not_free [OF assms(1), of q f] assms(2)
  by simp_all

lemma repin_view:
  assumes "pool_ok (repin h bp)"
  shows "pool_view (repin g bp) = pool_view bp" "pool_saved (repin g bp) = pool_saved bp"
    "map_of (bp_dir bp) q = Some f \<Longrightarrow> pool_pins (repin g bp) q = g f"
  using repin_resident [OF assms]
  by (auto simp: fun_eq_iff pool_view_def pool_saved_def pool_pins_def split: option.split)

lemma pool_ok_repin:
  assumes ok: "pool_ok (repin h bp)"
    and g: "\<And>f. f < length (bp_pages bp) \<Longrightarrow> f \<notin> set (bp_free_list bp) \<Longrightarrow> g f = 0 \<longleftrightarrow> h f = 0"
  shows "pool_ok (repin g bp)"
proof -
  note inv = pool_okD [OF ok, simplified] and res = repin_resident [OF ok]
  have pid: "f < length (bp_pages bp) \<Longrightarrow> pg_pid (bp_pages (repin g bp) ! f) = pg_pid (bp_pages (repin h bp) ! f)" for f
    by simp
  have "frames_ok (bp_pages (repin g bp))"
    using inv(3) by (auto simp: frames_ok_def repin_def)
  moreover have "dir_ok (bp_dir bp) (bp_pages (repin g bp))"
    using inv(4) res by (auto simp: dir_ok_def)
  moreover have "free_ok (bp_free_list bp) (bp_pages (repin g bp))"
    using inv(5) by (auto simp: free_ok_def)
  moreover have "pool_saved (repin g bp) q" if "pool_pins (repin g bp) q = 0" for q
  proof -
    have "pool_pins (repin h bp) q = 0"
      using that res [of q] g by (cases "map_of (bp_dir bp) q") (auto simp: pool_pins_def)
    with inv(8) [of q] show ?thesis by (simp add: repin_view(2) [OF ok])
  qed
  ultimately show ?thesis
    using inv(1,2,6,7) g by (auto simp: pool_ok_def)
qed

lemma settled_ok:
  assumes "pool_ok (repin h bp)"
  shows "pool_ok (settled bp)"
  unfolding settled_def
proof (rule pool_ok_repin [OF assms])
  fix f assume "f < length (bp_pages bp)" "f \<notin> set (bp_free_list bp)"
  with pool_okD(7) [OF assms, of f] show "((if f \<in> set (bp_free_list bp) \<or>
      f \<in> set (lru_order (bp_replacer bp)) then 0 else 1 :: size_t) = 0) = (h f = 0)"
    by simp
qed

lemma pool_ok_settled: "pool_ok bp \<Longrightarrow> pool_ok (settled bp)"
  using settled_ok [of "\<lambda>f. pg_pin_count (bp_pages bp ! f)" bp] by (simp add: repin_own)

lemma fixed_pins:
  assumes "pool_ok bp"
  shows "pool_fixed bp q \<longleftrightarrow> pool_pins bp q \<noteq> 0"
proof (cases "map_of (bp_dir bp) q")
  case (Some f)
  with dir_okD(2) [OF pool_okD(4) [OF assms]] resident_not_free [OF assms] pool_okD(7) [OF assms, of f]
  show ?thesis by (auto simp: pool_fixed_def pool_pins_def)
qed (simp add: pool_fixed_def pool_pins_def)

lemma settled_pins: "pool_ok (settled bp) \<Longrightarrow> pool_pins (settled bp) q = (if pool_fixed bp q then 1 else 0)"
  using repin_resident [of _ bp q]
  by (auto simp: settled_def pool_pins_def pool_fixed_def split: option.split)

section \<open>Fetching\<close>

lemma victim_None_same:
  "lru_inv (bp_replacer bp) \<Longrightarrow> victim bp = (None, bp1) \<Longrightarrow> bp1 = bp"
  using lru.victim_exhausted [of "bp_replacer bp"]
  by (auto simp: victim_def split: if_splits prod.splits)

lemma fetch_settled:
  assumes ok: "pool_ok (settled bp)" and pid: "page_ok pid"
  shows "(map_of (bp_dir bp) pid = None \<and> all_pinned (settled bp) \<and> fetch pid bp = Inr (None, bp)) \<or>
    (\<exists>f bp' g. fetch pid bp = Inr (Some f, bp') \<and> fetched (settled bp) pid f (repin g bp') \<and>
       fetch pid (settled bp) = Inr (Some f, repin g bp'))"
proof -
  obtain g0 where n: "settled bp = repin g0 bp" by (simp add: settled_def)
  have "pool_pins (settled bp) pid + 1 \<noteq> 0" by (simp add: settled_pins [OF ok])
  note f = fetch_correct [OF ok pid this]
  show ?thesis
  proof (cases "map_of (bp_dir bp) pid")
    case (Some f0)
    with f fetch_repin_hit [OF Some, of g0] show ?thesis
      by (auto simp: n andthen_eq_Inr_iff)
  next
    case None
    obtain r bp1 where v: "victim bp = (r, bp1)" by fastforce
    show ?thesis
    proof (cases r)
      case (Some f0)
      with f fetch_repin_miss [OF None, of f0 bp1 g0] v show ?thesis
        by (auto simp: n andthen_eq_Inr_iff) (auto simp: fetch_def None victim_repin v res_simps)
    next
      case no: None
      then have "fetch pid (settled bp) = Inr (None, repin g0 bp1)" "bp1 = bp"
        using v None victim_None_same [of bp bp1] pool_okD(1) [OF ok]
        by (simp_all add: n fetch_def victim_repin)
      moreover have "fetch pid bp = Inr (None, bp)" using v no None calculation(2) by (simp add: fetch_def)
      ultimately show ?thesis using f None by auto
    qed
  qed
qed

text \<open>What a fetch does to the frames themselves: one frame gets another page.\<close>

definition reframed :: "pool \<Rightarrow> page_id \<Rightarrow> nat \<Rightarrow> page \<Rightarrow> pool \<Rightarrow> bool" where
  "reframed bp pid f p bp' \<longleftrightarrow>
     bp_pages bp' = (bp_pages bp)[f := p] \<and> f < length (bp_pages bp) \<and>
     map_of (bp_dir bp') pid = Some f \<and>
     (\<forall>q. q \<noteq> pid \<longrightarrow> map_of (bp_dir bp') q = None \<or> map_of (bp_dir bp') q = map_of (bp_dir bp) q)"

lemma victim_frames: "victim bp = (r, bp1) \<Longrightarrow> bp_pages bp1 = bp_pages bp \<and> bp_dir bp1 = bp_dir bp"
  by (auto simp: victim_def split: if_splits prod.splits)

lemma change_correspondence_frames:
  assumes "change_correspondence f pid bp = Inr bp'"
  shows "\<exists>p. reframed bp pid f p bp'"
proof -
  have fl: "flush_page i b = Inr b' \<Longrightarrow> bp_pages b' = bp_pages b \<and> bp_dir b' = bp_dir b" for i b b'
    by (auto simp: flush_page_def res_simps split: option.splits)
  then show ?thesis
    using assms by (auto simp: reframed_def change_correspondence_def res_simps frame_at_def set_frame_def Let_def
        update_conv' delete_conv' split: if_splits)
qed

lemma fetch_frames:
  assumes "fetch pid bp = Inr (Some f, bp')"
  shows "\<exists>p. reframed bp pid f p bp' \<and>
    pg_pin_count p = (if map_of (bp_dir bp) pid = None then 1 else pg_pin_count (bp_pages bp ! f) + 1)"
proof (cases "map_of (bp_dir bp) pid")
  case (Some f0)
  with assms show ?thesis
    by (auto simp: reframed_def fetch_def res_simps frame_at_def set_frame_def split: if_splits)
next
  case None
  then obtain bp1 bp2 page where v: "victim bp = (Some f, bp1)"
    and c: "change_correspondence f pid bp1 = Inr bp2"
    and e: "bp' = set_frame f (page\<lparr>pg_buffer := read_page pid (pg_buffer page) (bp_disk bp2),
                                 pg_pin_count := 1, pg_pid := pid, pg_dirty := False\<rparr>) bp2"
    using assms by (auto simp: fetch_def res_simps split: prod.splits option.splits)
  from change_correspondence_frames [OF c] None e victim_frames [OF v] show ?thesis
    by (auto simp: set_frame_def reframed_def)
qed

lemma new_page_frames:
  assumes "new_page bp = Inr (Some (f, idx), bp')"
  shows "\<exists>p. reframed bp idx f p bp' \<and> pg_pin_count p = 1"
proof -
  have ch: "choose_page_id b = Inr (i, b') \<Longrightarrow> bp_pages b' = bp_pages b \<and> bp_dir b' = bp_dir b" for b b' i
    by (auto simp: choose_page_id_def next_page_id_def res_simps split: option.splits if_splits)
  obtain i bp1 where i: "choose_page_id bp = Inr (i, bp1)"
    using assms by (auto simp: new_page_def res_simps)
  obtain r bp2 where v: "victim bp1 = (r, bp2)" by fastforce
  have r: "i = Some idx" "r = Some f" using assms i v
    by (auto simp: new_page_def res_simps Let_def split: option.splits)
  then obtain bm bp4 res h where c:
    "change_correspondence f idx (bp2\<lparr>bp_head := (bp_head bp2)\<lparr>hd_bitmap := bm\<rparr>\<rparr>) = Inr bp4"
    "bp' = set_frame f (res\<lparr>pg_pid := idx, pg_dirty := True, pg_pin_count := 1\<rparr>) (bp4\<lparr>bp_head := h\<rparr>)"
    using assms i v by (auto simp: new_page_def res_simps Let_def)
  from change_correspondence_frames [OF c(1)] ch [OF i] victim_frames [OF v] r c(2) show ?thesis
    by (auto simp: set_frame_def reframed_def)
qed

section \<open>What clients hold\<close>

lemma fetched_alloc:
  assumes "alloc_ok bp" "fetched bp pid f bp'" "unat pid \<in> pool_ids bp"
  shows "alloc_ok bp'"
proof (rule alloc_ok_mono [OF assms(1)])
  have h: "bp_head bp' = bp_head bp" "next_pid (bp_disk bp') = next_pid (bp_disk bp)"
    using assms(2) by (simp_all add: fetched_def)
  then show "pool_ids bp \<subseteq> pool_ids bp'" "\<forall>i\<in>pool_ids bp'. i < unat (next_pid (bp_disk bp'))"
    "unat (next_pid (bp_disk bp')) \<le> BFP_MAX_PAGE_NUM + 1"
    using assms(1) by (simp_all add: alloc_ok_def pool_ids_def)
  show "\<forall>q. map_of (bp_dir bp') q \<noteq> None \<longrightarrow>
      unat q \<in> pool_ids bp' \<or> map_of (bp_dir bp) q \<noteq> None"
    using assms(2,3) h by (auto simp: fetched_def pool_ids_def)
qed

lemma alloc_ok_same:
  "alloc_ok bp \<Longrightarrow> bp_dir bp' = bp_dir bp \<Longrightarrow> bp_head bp' = bp_head bp \<Longrightarrow>
   bp_disk bp' = bp_disk bp \<Longrightarrow> alloc_ok bp'"
  by (simp add: alloc_ok_def pool_ids_def)

text \<open>
  \<open>H\<close> are the pages the clients hold. The counts of the pages of \<open>S\<close> are not to be trusted; such a
  page may stay fixed in its frame although nobody holds it.
\<close>

definition pool_held :: "page_id set \<Rightarrow> pool \<Rightarrow> page_id set \<Rightarrow> bool" where
  "pool_held S bp H \<longleftrightarrow> pool_ok (settled bp) \<and> alloc_ok bp \<and>
     (\<forall>q. pool_fixed bp q \<longrightarrow> q \<in> S \<or> q \<in> H) \<and> (\<forall>q \<in> H. pool_fixed bp q) \<and>
     (\<forall>q. q \<notin> S \<longrightarrow> pool_pins bp q = (if q \<in> H then 1 else 0)) \<and>
     (\<forall>q. q \<notin> H \<longrightarrow> pool_saved bp q)"

lemma pool_heldD:
  assumes "pool_held S bp H"
  shows "pool_ok (settled bp)" "alloc_ok bp" "pool_fixed bp q \<Longrightarrow> q \<in> S \<or> q \<in> H"
    "q \<in> H \<Longrightarrow> pool_fixed bp q" "q \<notin> S \<Longrightarrow> pool_pins bp q = (if q \<in> H then 1 else 0)"
    "q \<notin> H \<Longrightarrow> pool_saved bp q"
  using assms by (auto simp: pool_held_def)

lemma settled_view:
  assumes "pool_ok (settled bp)"
  shows "pool_view (settled bp) = pool_view bp" "pool_saved (settled bp) = pool_saved bp"
  using repin_view(1,2) [of _ bp] assms by (auto simp: settled_def)

lemma alloc_ok_repin [simp]: "alloc_ok (repin g bp) = alloc_ok bp"
  by (simp add: alloc_ok_def pool_ids_def)

lemma settled_simps [simp]:
  "bp_dir (settled bp) = bp_dir bp" "bp_head (settled bp) = bp_head bp"
  "bp_closed (settled bp) = bp_closed bp" "bp_disk (settled bp) = bp_disk bp"
  "alloc_ok (settled bp) = alloc_ok bp" "pool_ids (settled bp) = pool_ids bp"
  "length (bp_pages (settled bp)) = length (bp_pages bp)"
  by (simp_all add: settled_def pool_ids_def)

lemma reframed_pins:
  assumes "reframed bp pid f p bp'"
  shows "pool_pins bp' pid = pg_pin_count p"
    "pool_ok (repin g bp') \<Longrightarrow> q \<noteq> pid \<Longrightarrow>
       pool_pins bp' q = (if map_of (bp_dir bp') q = None then 0 else pool_pins bp q)"
proof -
  note r = assms [unfolded reframed_def]
  then show "pool_pins bp' pid = pg_pin_count p" by (simp add: pool_pins_def)
  assume ok': "pool_ok (repin g bp')" and q: "q \<noteq> pid"
  have "g0 \<noteq> f" if "map_of (bp_dir bp') q = Some g0" for g0
    using dir_inj [OF pool_okD(4) [OF ok'], of q g0 pid] that r q by auto
  then show "pool_pins bp' q = (if map_of (bp_dir bp') q = None then 0 else pool_pins bp q)"
    using r q by (auto simp: pool_pins_def split: option.split)
qed

lemma fetched_fixed:
  assumes "pool_ok (settled bp)" "fetched (settled bp) pid f (repin g bp')"
  shows "pool_fixed bp' q \<longleftrightarrow> q = pid \<or> pool_fixed bp q"
    "pool_fixed bp q \<Longrightarrow> map_of (bp_dir bp') q = map_of (bp_dir bp) q"
proof -
  have ok': "pool_ok (repin g bp')" and
    "pool_pins (repin g bp') = (pool_pins (settled bp))(pid := pool_pins (settled bp) pid + 1)"
    using assms(2) unfolding fetched_def by blast+
  then show "pool_fixed bp' q \<longleftrightarrow> q = pid \<or> pool_fixed bp q"
    using fixed_pins [OF ok', of q] by (simp add: settled_pins [OF assms(1)])
  show "pool_fixed bp q \<Longrightarrow> map_of (bp_dir bp') q = map_of (bp_dir bp) q"
    using assms(2) settled_pins [OF assms(1), of q] by (simp add: fetched_def)
qed

lemma fetched_pins:
  assumes h: "pool_held S bp H" and pid: "pid \<notin> H"
    and f: "fetch pid bp = Inr (Some f, bp')" "fetched (settled bp) pid f (repin g bp')" and q: "q \<notin> S"
  shows "pool_pins bp' q = (if q \<in> insert pid H then 1 else 0)"
proof -
  note hd = pool_heldD [OF h]
  have ok': "pool_ok (repin g bp')" using f(2) unfolding fetched_def by blast
  obtain p where p: "reframed bp pid f p bp'"
    "pg_pin_count p = (if map_of (bp_dir bp) pid = None then 1 else pg_pin_count (bp_pages bp ! f) + 1)"
    using fetch_frames [OF f(1)] by blast
  show ?thesis
  proof (cases "q = pid")
    case True
    have "pg_pin_count p = 1"
    proof (cases "map_of (bp_dir bp) pid")
      case (Some f0)
      then have "f0 = f" using f(1) by (auto simp: fetch_def res_simps)
      with Some hd(5) [OF q] True pid p(2) show ?thesis by (simp add: pool_pins_def)
    qed (simp add: p(2))
    with True reframed_pins(1) [OF p(1)] show ?thesis by simp
  next
    case False
    note reframed_pins(2) [OF p(1) _ False]
    moreover have "map_of (bp_dir bp') q \<noteq> None" if "q \<in> H"
      using fetched_fixed(2) [OF hd(1) f(2) hd(4) [OF that]] hd(4) [OF that]
      by (auto simp: pool_fixed_def split: option.splits)
    ultimately show ?thesis using ok' hd(5) [OF q] False by auto
  qed
qed

lemma held_fetched:
  assumes h: "pool_held S bp H" and pid: "unat pid \<in> pool_ids bp" "pid \<notin> H"
    and f: "fetch pid bp = Inr (Some f, bp')" "fetched (settled bp) pid f (repin g bp')"
  shows "pool_held S bp' (insert pid H)" "map_of (bp_dir bp') pid = Some f" "bp_head bp' = bp_head bp"
    "bp_closed bp' = bp_closed bp" "next_pid (bp_disk bp') = next_pid (bp_disk bp)"
    "length (bp_pages bp') = length (bp_pages bp)" "pool_saved bp' pid"
    "page_ok q \<Longrightarrow> pool_view bp' q = pool_view bp q"
proof -
  note hd = pool_heldD [OF h]
  note fd = f(2) [unfolded fetched_def, simplified settled_simps repin_simps settled_view [OF hd(1)]]
  have ok': "pool_ok (repin g bp')" using fd by blast
  note rv = repin_view(1,2) [OF ok', where g = g]
  have "alloc_ok bp'" using fetched_alloc [OF _ f(2)] hd(2) pid(1) by simp
  then show "pool_held S bp' (insert pid H)"
    unfolding pool_held_def
    using settled_ok [OF ok'] fetched_fixed(1) [OF hd(1) f(2)] hd fetched_pins [OF h pid(2) f] fd rv by auto
  show "pool_saved bp' pid" using fd rv hd(6) [OF pid(2)] by simp
  show "length (bp_pages bp') = length (bp_pages bp)" using fetch_frames [OF f(1)] by (auto simp: reframed_def)
  show "page_ok q \<Longrightarrow> pool_view bp' q = pool_view bp q" using fd rv by simp
qed (use f(2) in \<open>simp_all add: fetched_def\<close>)

text \<open>A fetch fails only when every frame is fixed by a page that is held or miscounted.\<close>

lemma all_pinned_held:
  assumes h: "pool_held S bp H" and fin: "finite S" "finite H" and a: "all_pinned (settled bp)"
  shows "length (bp_pages bp) \<le> card (S \<union> H)"
proof -
  note hd = pool_heldD [OF h] and inv = pool_okD [OF pool_heldD(1) [OF h]]
  let ?n = "length (bp_pages bp)" and ?pid = "\<lambda>f. pg_pid (bp_pages (settled bp) ! f)"
  have r: "map_of (bp_dir bp) (?pid f) = Some f" "pool_fixed bp (?pid f)" if "f < ?n" for f
  proof -
    have nf: "f \<notin> set (bp_free_list bp)" using a by (simp add: all_pinned_def settled_def)
    then show m: "map_of (bp_dir bp) (?pid f) = Some f" using inv(6) [of f] that by (simp add: settled_def)
    have "pg_pin_count (bp_pages (settled bp) ! f) \<noteq> 0" using a that by (simp add: all_pinned_def)
    with m nf that inv(7) [of f] show "pool_fixed bp (?pid f)"
      by (simp add: pool_fixed_def settled_def)
  qed
  have "inj_on ?pid {..<?n}" using r(1) by (intro inj_onI) (metis lessThan_iff option.inject)
  moreover have "?pid ` {..<?n} \<subseteq> S \<union> H" using r(2) hd(3) by blast
  ultimately show ?thesis using fin card_inj_on_le [of ?pid "{..<?n}" "S \<union> H"] by simp
qed

section \<open>Writing to a held page, and letting it go\<close>

lemma held_frame:
  assumes "pool_held S bp H" "map_of (bp_dir bp) pid = Some f"
  shows "f < length (bp_pages bp)" "f \<notin> set (bp_free_list bp)"
    "frame_at f bp = Inr (bp_pages bp ! f)" "pg_pid (bp_pages bp ! f) = pid"
    "length (pg_buffer (bp_pages bp ! f)) = PAGE_SIZE"
proof -
  have ok: "pool_ok (settled bp)" using assms(1) by (simp add: pool_held_def)
  then show f: "f < length (bp_pages bp)" "f \<notin> set (bp_free_list bp)"
    using repin_resident [of _ bp pid f] assms(2) by (auto simp: settled_def)
  then show "frame_at f bp = Inr (bp_pages bp ! f)" by (simp add: frame_at_def)
  show "pg_pid (bp_pages bp ! f) = pid"
    using dir_okD(3) [OF pool_okD(4) [OF ok], of pid f] assms(2) f(1) by (simp add: settled_def)
  show "length (pg_buffer (bp_pages bp ! f)) = PAGE_SIZE"
    using frames_okD [OF pool_okD(3) [OF ok], of f] f(1) by (simp add: settled_def)
qed

lemma set_frame_pins:
  assumes "pool_held S bp H" "map_of (bp_dir bp) pid = Some f" "bp_pages bp' = (bp_pages bp)[f := p]"
    "bp_dir bp' = bp_dir bp"
  shows "pool_pins bp' = (pool_pins bp)(pid := pg_pin_count p)"
proof -
  have ok: "pool_ok (settled bp)" using assms(1) by (simp add: pool_held_def)
  have "f \<noteq> g" if "map_of (bp_dir bp) q = Some g" "q \<noteq> pid" for q g
    using dir_inj [OF pool_okD(4) [OF ok], of q g pid] that assms(2) by auto
  then show ?thesis
    using held_frame(1) [OF assms(1,2)] assms(2-4)
    by (auto simp: fun_eq_iff pool_pins_def split: option.split)
qed

lemma held_put:
  assumes h: "pool_held S bp H" and f: "map_of (bp_dir bp) pid = Some f" "pid \<in> H"
    and len: "length bs = PAGE_SIZE"
  shows "\<exists>bp'. put_data f bs bp = Inr bp' \<and> pool_held S bp' H \<and> bp_dir bp' = bp_dir bp \<and>
    bp_head bp' = bp_head bp \<and> bp_disk bp' = bp_disk bp \<and> bp_closed bp' = bp_closed bp \<and>
    length (bp_pages bp') = length (bp_pages bp) \<and> pool_view bp' = (pool_view bp)(pid := bs)"
proof -
  note hd = pool_heldD [OF h] and fr = held_frame [OF h f(1)]
  define bp' where "bp' = set_frame f ((bp_pages bp ! f)\<lparr>pg_buffer := bs\<rparr>) bp"
  have put: "put_data f bs bp = Inr bp'" using fr(3) by (simp add: put_data_def bp'_def)
  have pins: "pool_pins bp' = pool_pins bp"
    using set_frame_pins [OF h f(1), of bp'] f(1) by (simp add: bp'_def pool_pins_def fun_upd_idem)
  obtain g where g: "settled bp = repin g bp" by (simp add: settled_def)
  have "pool_pins (settled bp) pid \<noteq> 0" using settled_pins [OF hd(1)] hd(4) [OF f(2)] by simp
  with put_data_correct [OF hd(1), of pid f bs] f(1) len put have
    n: "pool_ok (repin g bp')" "pool_view (repin g bp') = (pool_view (settled bp))(pid := bs)"
      "\<And>q. q \<noteq> pid \<Longrightarrow> pool_saved (repin g bp') q = pool_saved (settled bp) q"
    by (auto simp: g put_data_repin)
  note rv = repin_view(1,2) [OF n(1), where g = g]
  have "pool_fixed bp' = pool_fixed bp" by (simp add: fun_eq_iff pool_fixed_def bp'_def split: option.split)
  moreover have "alloc_ok bp'" using alloc_ok_same [OF hd(2)] by (simp add: bp'_def)
  ultimately have "pool_held S bp' H"
    unfolding pool_held_def using settled_ok [OF n(1)] hd pins n(3) rv settled_view [OF hd(1)] f(2)
    by (metis (no_types, lifting))
  with put n(2) rv(1) settled_view(1) [OF hd(1)] show ?thesis by (simp add: bp'_def)
qed

text \<open>
  Unpinning a page that is fixed in its frame: the frame goes to the replacer when the count gets
  to zero, whatever the count was worth.
\<close>

lemma unpin_fixed:
  assumes h: "pool_held S bp H" and pid: "pool_fixed bp pid" and saved: "is_dirty \<or> pool_saved bp pid"
  shows "\<exists>bp'. unpin pid is_dirty bp = Inr bp' \<and> pool_ok (settled bp') \<and>
    bp_dir bp' = bp_dir bp \<and> bp_head bp' = bp_head bp \<and> bp_disk bp' = bp_disk bp \<and>
    bp_closed bp' = bp_closed bp \<and> length (bp_pages bp') = length (bp_pages bp) \<and>
    pool_view bp' = pool_view bp \<and> pool_pins bp' = (pool_pins bp)(pid := pool_pins bp pid - 1) \<and>
    (\<forall>q. pool_fixed bp' q \<longleftrightarrow> (if q = pid then pool_pins bp pid \<noteq> 1 else pool_fixed bp q)) \<and>
    (\<forall>q. q = pid \<or> pool_saved bp q \<longrightarrow> pool_saved bp' q)"
proof -
  note hd = pool_heldD [OF h]
  obtain f where f: "map_of (bp_dir bp) pid = Some f" "f \<notin> set (lru_order (bp_replacer bp))"
    using pid by (auto simp: pool_fixed_def split: option.splits)
  note fr = held_frame [OF h f(1)]
  let ?c = "pg_pin_count (bp_pages bp ! f)"
  have pc: "pool_pins bp pid = ?c" using f(1) by (simp add: pool_pins_def)
  define g :: "nat \<Rightarrow> size_t" where "g = (\<lambda>i. if i \<in> set (bp_free_list bp) \<or> i \<in> set (lru_order (bp_replacer bp)) then 0
     else if i = f \<and> ?c \<noteq> 1 then 2 else 1)"
  have gf: "g f = (if ?c = 1 then 1 else 2)" using f(2) fr(2) by (simp add: g_def)
  have gnz: "g f \<noteq> 0" by (simp add: gf)
  have ok: "pool_ok (repin g bp)"
    by (rule pool_ok_repin [OF hd(1) [unfolded settled_def]]) (simp add: g_def)
  note rv = repin_view [OF ok]
  have "pool_pins (repin g bp) pid = g f" using rv(3) [OF f(1)] .
  with unpin_correct [OF ok, of pid is_dirty] saved gnz obtain n where
    n: "unpin pid is_dirty (repin g bp) = Inr n" "pool_ok n" "bp_dir n = bp_dir bp" "bp_head n = bp_head bp"
      "bp_disk n = bp_disk bp" "bp_closed n = bp_closed bp" "pool_view n = pool_view (repin g bp)"
      "pool_pins n = (pool_pins (repin g bp))(pid := g f - 1)"
      "\<forall>q. q = pid \<or> pool_saved (repin g bp) q \<longrightarrow> pool_saved n q"
    by (auto simp: rv(2))
  have "(g f - 1 = 0) = (?c - 1 = 0)" using gf by (auto simp: eq_iff_diff_eq_0 [symmetric])
  from unpin_repin [OF f(1) fr(1), of g, OF this] n(1) obtain bp' where
    u: "unpin pid is_dirty bp = Inr bp'" "n = repin (g(f := g f - 1)) bp'"
    by (auto simp: andthen_eq_Inr_iff)
  obtain p where p: "bp_pages bp' = (bp_pages bp)[f := p]" "pg_pin_count p = ?c - 1"
    using u(1) f(1) fr(3) by (auto simp: unpin_def Let_def set_frame_def res_simps split: if_splits)
  have d: "bp_dir bp' = bp_dir bp" using n(3) u(2) by simp
  have ok': "pool_ok (repin (g(f := g f - 1)) bp')" using n(2) u(2) by simp
  note rv' = repin_view [OF ok', where g = "g(f := g f - 1)"]
  have "pool_pins (repin g bp) q \<noteq> 0 \<longleftrightarrow> pool_fixed bp q" for q
    using fixed_pins [OF ok, of q] by simp
  then have "pool_fixed bp' q \<longleftrightarrow> (if q = pid then ?c \<noteq> 1 else pool_fixed bp q)" for q
    using fixed_pins [OF ok', of q] n(8) u(2) gf by (simp split: if_splits)
  with u d n(4-7,9) settled_ok [OF ok'] rv(1,2) rv'(1,2) p set_frame_pins [OF h f(1) p(1) d] pc
  show ?thesis by simp
qed

lemma held_unpin:
  assumes h: "pool_held S bp H" and pid: "pid \<in> H" and saved: "is_dirty \<or> pool_saved bp pid"
  shows "\<exists>bp'. unpin pid is_dirty bp = Inr bp' \<and> pool_held S bp' (H - {pid}) \<and>
    bp_dir bp' = bp_dir bp \<and> bp_head bp' = bp_head bp \<and> bp_disk bp' = bp_disk bp \<and>
    bp_closed bp' = bp_closed bp \<and> length (bp_pages bp') = length (bp_pages bp) \<and>
    pool_view bp' = pool_view bp \<and> (pool_fixed bp' pid \<or> pool_pins bp' pid = 0)"
proof -
  note hd = pool_heldD [OF h]
  from unpin_fixed [OF h hd(4) [OF pid] saved] obtain bp' where
    u: "unpin pid is_dirty bp = Inr bp'" "pool_ok (settled bp')" "bp_dir bp' = bp_dir bp"
      "bp_head bp' = bp_head bp" "bp_disk bp' = bp_disk bp" "bp_closed bp' = bp_closed bp"
      "length (bp_pages bp') = length (bp_pages bp)" "pool_view bp' = pool_view bp"
      "pool_pins bp' = (pool_pins bp)(pid := pool_pins bp pid - 1)"
      "\<And>q. pool_fixed bp' q \<longleftrightarrow> (if q = pid then pool_pins bp pid \<noteq> 1 else pool_fixed bp q)"
      "\<And>q. q = pid \<or> pool_saved bp q \<Longrightarrow> pool_saved bp' q" by blast
  have "q \<in> S \<or> q \<in> H - {pid}" if "pool_fixed bp' q" for q
    using that u(10) [of q] hd(3) [of q] hd(5) [of pid] pid by (auto split: if_splits)
  then have "pool_held S bp' (H - {pid})"
    unfolding pool_held_def using u(2,9-11) hd alloc_ok_same [OF hd(2) u(3-5)] pid by auto
  with u show ?thesis by auto
qed

text \<open>A client that is gone without a word leaves the page fixed.\<close>

lemma held_abandoned:
  assumes "pool_held S bp (insert pid H)" "pool_saved bp pid"
  shows "pool_held (insert pid S) bp (H - {pid})"
  using assms unfolding pool_held_def by auto

text \<open>
  A client lets a page go that it does not hold any more, as the destructor of a scanner does: the
  count of the page is not to be trusted from then on.
\<close>

definition let_go :: "pool \<Rightarrow> page_id \<Rightarrow> bool" where
  "let_go bp pid \<longleftrightarrow> map_of (bp_dir bp) pid \<noteq> None \<and> (pool_fixed bp pid \<or> pool_pins bp pid = 0)"

lemma held_unpin_again:
  assumes h: "pool_held S bp H" and pid: "pid \<notin> H" and g: "let_go bp pid"
  shows "\<exists>bp'. unpin pid False bp = Inr bp' \<and> pool_held (insert pid S) bp' H \<and>
    bp_head bp' = bp_head bp \<and> bp_disk bp' = bp_disk bp \<and> bp_closed bp' = bp_closed bp \<and>
    length (bp_pages bp') = length (bp_pages bp) \<and> pool_view bp' = pool_view bp \<and>
    pool_pins bp' = (pool_pins bp)(pid := pool_pins bp pid - 1)"
proof (cases "pool_fixed bp pid")
  case True
  note hd = pool_heldD [OF h]
  from unpin_fixed [OF h True, of False] hd(6) [OF pid] obtain bp' where
    u: "unpin pid False bp = Inr bp'" "pool_ok (settled bp')" "bp_dir bp' = bp_dir bp"
      "bp_head bp' = bp_head bp" "bp_disk bp' = bp_disk bp" "bp_closed bp' = bp_closed bp"
      "length (bp_pages bp') = length (bp_pages bp)" "pool_view bp' = pool_view bp"
      "pool_pins bp' = (pool_pins bp)(pid := pool_pins bp pid - 1)"
      "\<And>q. pool_fixed bp' q \<longleftrightarrow> (if q = pid then pool_pins bp pid \<noteq> 1 else pool_fixed bp q)"
      "\<And>q. q = pid \<or> pool_saved bp q \<Longrightarrow> pool_saved bp' q" by blast
  have "q \<in> insert pid S \<or> q \<in> H" if "pool_fixed bp' q" for q
    using that u(10) [of q] hd(3) [of q] by (auto split: if_splits)
  then have "pool_held (insert pid S) bp' H"
    unfolding pool_held_def using u(2,9-11) hd alloc_ok_same [OF hd(2) u(3-5)] pid by auto
  with u show ?thesis by blast
next
  case False
  note hd = pool_heldD [OF h]
  from g False obtain f where f: "map_of (bp_dir bp) pid = Some f" "pool_pins bp pid = 0"
    by (auto simp: let_go_def)
  note fr = held_frame [OF h f(1)]
  define p where "p = (bp_pages bp ! f)\<lparr>pg_pin_count := - 1\<rparr>"
  define bp' where "bp' = set_frame f p bp"
  have u: "unpin pid False bp = Inr bp'"
    using f fr(3) by (simp add: unpin_def Let_def pool_pins_def bp'_def p_def)
  have pages: "bp_pages bp' = (bp_pages bp)[f := p]" "bp_dir bp' = bp_dir bp" by (simp_all add: bp'_def)
  note pins = set_frame_pins [OF h f(1) pages]
  have "repin g bp' = repin g bp" for g
    unfolding bp'_def p_def repin_set_frame_count by (simp add: set_frame_def)
  then have same: "settled bp' = settled bp" by (simp add: settled_def bp'_def)
  then have "pool_ok (settled bp')" using hd(1) by simp
  moreover have "pool_view bp' = pool_view bp" "pool_saved bp' = pool_saved bp"
    using settled_view [OF hd(1)] settled_view [of bp'] hd(1) same by simp_all
  moreover have "pool_fixed bp' = pool_fixed bp"
    by (simp add: fun_eq_iff pool_fixed_def bp'_def split: option.split)
  moreover have "alloc_ok bp'" using alloc_ok_same [OF hd(2)] by (simp add: bp'_def)
  ultimately have "pool_held (insert pid S) bp' H"
    unfolding pool_held_def using hd pid pins by auto
  with u pins f(2) \<open>pool_view bp' = _\<close> show ?thesis by (simp add: bp'_def p_def)
qed

section \<open>New pages\<close>

lemma new_page_settled:
  assumes ok: "pool_ok (settled bp)" and al: "alloc_ok bp"
    and room: "unat (next_pid (bp_disk bp)) \<le> BFP_MAX_PAGE_NUM" and nf: "\<not> all_pinned (settled bp)"
  shows "\<exists>f idx bp' g. new_page bp = Inr (Some (f, idx), bp') \<and> created (settled bp) f idx (repin g bp')"
proof -
  obtain g0 where n: "settled bp = repin g0 bp" by (simp add: settled_def)
  from new_page_correct [OF ok] al room nf obtain f idx b' where
    c: "new_page (settled bp) = Inr (Some (f, idx), b')" "created (settled bp) f idx b'" by auto
  from choose_page_id_correct [OF al room] obtain i d where
    i: "choose_page_id bp = Inr (Some i, bp\<lparr>bp_disk := d\<rparr>)" by blast
  obtain r bp2 where v: "victim (bp\<lparr>bp_disk := d\<rparr>) = (r, bp2)" by fastforce
  have "r \<noteq> None"
    using c(1) i v by (cases r) (auto simp: n new_page_def choose_page_id_repin repin_updates [symmetric] victim_repin)
  then obtain f0 where "r = Some f0" by blast
  with new_page_repin [OF i, of f0 bp2 g0] v c show ?thesis
    by (auto simp: n andthen_eq_Inr_iff)
qed

lemma held_new_page:
  assumes h: "pool_held S bp H" and f: "new_page bp = Inr (Some (f, idx), bp')"
    and c: "created (settled bp) f idx (repin g bp')"
  shows "pool_held S bp' (insert idx H)" "map_of (bp_dir bp') idx = Some f"
    "bp_closed bp' = bp_closed bp" "length (bp_pages bp') = length (bp_pages bp)"
    "page_ok q \<Longrightarrow> pool_view bp' q = (if q = idx then replicate PAGE_SIZE 0 else pool_view bp q)"
proof -
  note hd = pool_heldD [OF h]
  note cr = c [unfolded created_def, simplified settled_simps repin_simps settled_view [OF hd(1)]]
  have ok': "pool_ok (repin g bp')" using cr by blast
  note rv = repin_view(1,2) [OF ok', where g = g]
  obtain p where p: "reframed bp idx f p bp'" "pg_pin_count p = 1" using new_page_frames [OF f] by blast
  have fixed: "pool_fixed bp' q \<longleftrightarrow> q = idx \<or> pool_fixed bp q" for q
  proof -
    have "pool_pins (repin g bp') = (pool_pins (settled bp))(idx := 1)" using cr by blast
    then show ?thesis using fixed_pins [OF ok', of q] by (simp add: settled_pins [OF hd(1)])
  qed
  have pins: "pool_pins bp' q = (if q \<in> insert idx H then 1 else 0)" if "q \<notin> S" for q
  proof (cases "q = idx")
    case True
    then show ?thesis using reframed_pins(1) [OF p(1)] p(2) by simp
  next
    case False
    have "map_of (bp_dir bp') q \<noteq> None" if "q \<in> H"
      using cr settled_pins [OF hd(1), of q] hd(4) [OF that] by (auto simp: pool_fixed_def split: option.splits)
    with reframed_pins(2) [OF p(1) ok' False] hd(5) [OF that] False show ?thesis by auto
  qed
  show "pool_held S bp' (insert idx H)"
    unfolding pool_held_def
    using settled_ok [OF ok'] fixed hd pins cr rv by auto
  show "length (bp_pages bp') = length (bp_pages bp)" using p(1) by (simp add: reframed_def)
  show "page_ok q \<Longrightarrow> pool_view bp' q = (if q = idx then replicate PAGE_SIZE 0 else pool_view bp q)"
    using cr rv by simp
qed (use c in \<open>simp_all add: created_def\<close>)

section \<open>Closing\<close>

lemma flush_entry_repin: "flush_entry (bp_pages (repin g bp)) = flush_entry (bp_pages bp)"
  by (simp add: fun_eq_iff flush_entry_def)

lemma flush_all_page_repin:
  "flush_all_page (repin g bp) = andthen (flush_all_page bp) (\<lambda>b. Inr (repin g b))"
  by (simp add: flush_all_page_def repin_updates andthen_assoc flush_entry_repin)

text \<open>The header page is not among the miscounted ones, so that closing goes as it should.\<close>

lemma close_settled_fetched:
  assumes h: "pool_held S bp {}" and z: "0 \<notin> S" and c: "pool_close (settled bp) = Inr n" and open_bp: "\<not> bp_closed bp"
    and f: "fetch 0 bp = Inr (Some f, bp1)" and fd: "fetched (settled bp) 0 f (repin g bp1)"
    and fs: "fetch 0 (settled bp) = Inr (Some f, repin g bp1)"
  shows "\<exists>bp' g. pool_close bp = Inr bp' \<and> n = repin g bp'"
proof -
  note hd = pool_heldD [OF h]
  have id0: "unat (0 :: size_t) \<in> pool_ids bp" using hd(2) by (simp add: alloc_ok_def)
  note hf = held_fetched [OF h id0 _ f fd, simplified]
  note fr = held_frame [OF hf(1,2)]
  define p where "p = bp_pages bp1 ! f"
  have "pool_pins bp1 0 = 1" using pool_heldD(5) [OF hf(1) z] by simp
  then have pin: "pg_pin_count p = 1" using hf(2) by (simp add: pool_pins_def p_def)
  have ok1: "pool_ok (repin g bp1)" using fd unfolding fetched_def by blast
  have "pool_pins (repin g bp1) 0 = 1"
    using fd settled_pins [OF hd(1), of 0] hd(3) [of 0] z by (auto simp: fetched_def)
  with repin_view(3) [OF ok1 hf(2), of g] have gf: "g f = 1" by simp
  have same: "frame_at f (repin g bp1) = Inr p" "frame_at f bp1 = Inr p"
    using fr(3) pin by (simp_all add: frame_at_repin gf p_def)
  from c open_bp fs same(1) obtain p' b2 b3 where
    w: "header_write2page (bp_head bp1) p = Inr p'" and
    u: "unpin (pg_pid p') True (set_frame f p' (repin g bp1)) = Inr b2"
      "flush_all_page b2 = Inr b3" "n = b3\<lparr>bp_closed := True\<rparr>"
    by (auto simp: pool_close_def res_simps)
  have p': "pg_pin_count p' = 1" "pg_pid p' = 0"
    using w pin fr(4) by (auto simp: header_write2page_def res_simps p_def)
  have "set_frame f p' (repin g bp1) = repin g (set_frame f p' bp1)"
    using gf p'(1) by (simp add: repin_set_frame fun_upd_idem)
  with u(1) p' hf(2) fr(1) gf unpin_repin [of "set_frame f p' bp1" 0 f g True] obtain b2' g' where
    u2: "unpin 0 True (set_frame f p' bp1) = Inr b2'" "b2 = repin g' b2'"
    by (auto simp: res_simps)
  with u(2) obtain b3' where "flush_all_page b2' = Inr b3'" "b3 = repin g' b3'"
    by (auto simp: flush_all_page_repin res_simps)
  with f same(2) w u2(1) p'(2) u(3) open_bp have "pool_close bp = Inr (b3'\<lparr>bp_closed := True\<rparr>)"
    "n = repin g' (b3'\<lparr>bp_closed := True\<rparr>)"
    by (simp_all add: pool_close_def repin_updates)
  then show ?thesis by blast
qed

lemma close_settled:
  assumes h: "pool_held S bp {}" and z: "0 \<notin> S" and c: "pool_close (settled bp) = Inr n"
  shows "\<exists>bp' g. pool_close bp = Inr bp' \<and> n = repin g bp'"
proof (cases "bp_closed bp")
  case True
  then show ?thesis using c by (auto simp: pool_close_def settled_def)
next
  case False
  note hd = pool_heldD [OF h]
  have p0: "page_ok 0" by (simp add: page_ok_def)
  from fetch_settled [OF hd(1) p0] show ?thesis
  proof (elim disjE conjE exE)
    assume f: "fetch 0 bp = Inr (None, bp)" and m: "map_of (bp_dir bp) 0 = None"
      and a: "all_pinned (settled bp)"
    have "victim bp = (None, bp)" using f m
      by (auto simp: fetch_def res_simps split: prod.splits option.splits)
    then have "fetch 0 (settled bp) = Inr (None, settled bp)"
      by (simp add: settled_def fetch_def m victim_repin)
    with c f False show ?thesis by (auto simp: pool_close_def settled_def)
  next
    fix f bp1 g
    assume f: "fetch 0 bp = Inr (Some f, bp1)" and fd: "fetched (settled bp) 0 f (repin g bp1)"
    assume fs: "fetch 0 (settled bp) = Inr (Some f, repin g bp1)"
    show ?thesis by (rule close_settled_fetched [OF h z c False f fd fs])
  qed
qed

end
