(* ===== verification/Page_Cache.thy ===== *)
theory Page_Cache
  imports Pool_Leak
begin

text \<open>
  The buffer pool as its clients see it: the steps they take, the states those steps reach, and the
  interface \<open>page_cache\<close> with the read-only and read-modify-write rounds (fetch, use the
  frame, unpin) that \<open>TableHeap\<close> and \<open>RecordScanner\<close> are made of.
\<close>

section \<open>Runs of clients\<close>

lemma new_page_total:
  assumes ok: "pool_ok bp" and al: "alloc_ok bp"
    and room: "unat (next_pid (bp_disk bp)) \<le> BFP_MAX_PAGE_NUM"
  shows "(\<exists>f idx bp'. new_page bp = Inr (Some (f, idx), bp') \<and> created bp f idx bp') \<or>
    (all_pinned bp \<and> (\<exists>d. new_page bp = Inr (None, bp\<lparr>bp_disk := d\<rparr>) \<and>
       pool_ok (bp\<lparr>bp_disk := d\<rparr>) \<and> alloc_ok (bp\<lparr>bp_disk := d\<rparr>) \<and>
       db_file d = db_file (bp_disk bp)))"
proof (cases "all_pinned bp")
  case False
  with new_page_correct [OF ok al room] show ?thesis by blast
next
  case True
  from choose_page_id_correct [OF al room] obtain idx d where
    c: "choose_page_id bp = Inr (Some idx, bp\<lparr>bp_disk := d\<rparr>)" "db_file d = db_file (bp_disk bp)"
      "unat (next_pid d) \<le> BFP_MAX_PAGE_NUM + 1"
      "unat (next_pid (bp_disk bp)) \<le> unat (next_pid d)" by blast
  let ?b = "bp\<lparr>bp_disk := d\<rparr>"
  have ok': "pool_ok ?b" by (rule pool_ok_only(1) [OF ok]) (simp_all add: c(2))
  have "all_pinned ?b" using True by (simp add: all_pinned_def)
  with c(1) all_pinned_victim [OF ok'] have "new_page bp = Inr (None, ?b)"
    by (simp add: new_page_def)
  moreover have "alloc_ok ?b"
    using al c(3,4) by (fastforce simp: alloc_ok_def pool_ids_def)
  ultimately show ?thesis using True ok' c(2) by blast
qed

text \<open>
  A well-behaved client fetches allocated pages, writes and unpins only pages it has pinned, and
  reports a page it changed as dirty. It asks for new pages while ids are left.
\<close>

inductive pool_step :: "pool \<Rightarrow> pool \<Rightarrow> bool" where
  step_fetch: "unat pid \<in> pool_ids bp \<Longrightarrow> pool_pins bp pid + 1 \<noteq> 0 \<Longrightarrow>
    fetch pid bp = Inr (r, bp') \<Longrightarrow> pool_step bp bp'"
| step_new: "unat (next_pid (bp_disk bp)) \<le> BFP_MAX_PAGE_NUM \<Longrightarrow>
    new_page bp = Inr (r, bp') \<Longrightarrow> pool_step bp bp'"
| step_write: "map_of (bp_dir bp) pid = Some f \<Longrightarrow> pool_pins bp pid \<noteq> 0 \<Longrightarrow>
    length bs = PAGE_SIZE \<Longrightarrow> put_data f bs bp = Inr bp' \<Longrightarrow> pool_step bp bp'"
| step_unpin: "pool_pins bp pid \<noteq> 0 \<Longrightarrow> is_dirty \<or> pool_saved bp pid \<Longrightarrow>
    unpin pid is_dirty bp = Inr bp' \<Longrightarrow> pool_step bp bp'"
| step_flush: "flush_page pid bp = Inr bp' \<Longrightarrow> pool_step bp bp'"
| step_flush_all: "flush_all_page bp = Inr bp' \<Longrightarrow> pool_step bp bp'"

inductive_cases pool_stepE: "pool_step bp bp'"

inductive pool_reach :: "pool \<Rightarrow> pool \<Rightarrow> bool" where
  reach_refl: "pool_reach bp bp"
| reach_step: "pool_reach bp bp1 \<Longrightarrow> pool_step bp1 bp2 \<Longrightarrow> pool_reach bp bp2"

lemma allocated_page_ok:
  assumes "alloc_ok bp" "unat pid \<in> pool_ids bp"
  shows "page_ok pid"
proof -
  have "unat pid < BFP_MAX_PAGE_NUM + 1" using assms by (fastforce simp: alloc_ok_def)
  then show ?thesis by (simp add: page_ok_def BFP_MAX_PAGE_NUM_def PAGE_SIZE_def)
qed

lemma flush_all_ok:
  assumes ok: "pool_ok bp"
  shows "\<exists>d. flush_all_page bp = Inr (bp\<lparr>bp_disk := d\<rparr>) \<and> pool_ok (bp\<lparr>bp_disk := d\<rparr>) \<and>
    next_pid d = next_pid (bp_disk bp) \<and>
    (\<forall>q. page_ok q \<longrightarrow> pool_view (bp\<lparr>bp_disk := d\<rparr>) q = pool_view bp q)"
proof -
  from flush_all_correct [OF ok] obtain d where
    d: "flush_all_page bp = Inr (bp\<lparr>bp_disk := d\<rparr>)" "next_pid d = next_pid (bp_disk bp)"
      "\<And>q. page_ok q \<Longrightarrow> pool_saved bp q \<Longrightarrow> disk_page d q = pool_view bp q" by blast
  let ?b = "bp\<lparr>bp_disk := d\<rparr>"
  have pins: "pool_pins ?b = pool_pins bp"
    by (simp add: fun_eq_iff pool_pins_def split: option.split)
  have "pool_saved ?b q" if "pool_saved bp q" for q
    using that d(3) [of q] dir_okD(1) [OF pool_okD(4) [OF ok], of q]
    by (auto simp: pool_saved_def pool_view_def split: option.splits)
  then have "pool_ok ?b" using ok by (simp add: pool_ok_def pins)
  moreover have "pool_view ?b q = pool_view bp q" if "page_ok q" for q
    using d(3) [OF that] by (auto simp: pool_view_def pool_saved_def split: option.split)
  ultimately show ?thesis using d(1,2) by blast
qed

lemma pool_step_ok:
  assumes "pool_step bp bp'" "pool_ok bp" "alloc_ok bp"
  shows "pool_ok bp' \<and> alloc_ok bp'"
  using assms
proof (induction rule: pool_step.induct)
  case (step_fetch pid bp r bp')
  from fetch_correct [OF step_fetch(4) allocated_page_ok [OF step_fetch(5,1)] step_fetch(2)]
    fetched_alloc [OF step_fetch(5) _ step_fetch(1)] step_fetch
  show ?case by (auto simp: fetched_def)
next
  case (step_new bp r bp')
  from new_page_total [OF step_new(3,4,1)] step_new(2-4) show ?case by (auto simp: created_def)
next
  case (step_write bp pid f bs bp')
  from put_data_correct [OF step_write(5,1-3)] step_write alloc_ok_same show ?case by auto
next
  case (step_unpin bp pid is_dirty bp')
  from unpin_correct [OF step_unpin(4,1,2)] step_unpin alloc_ok_same show ?case by auto
next
  case (step_flush pid bp bp')
  from flush_page_correct [OF step_flush(2), of pid] step_flush show ?case
    by (auto simp: alloc_ok_def pool_ids_def)
next
  case (step_flush_all bp bp')
  from flush_all_ok [OF step_flush_all(2)] step_flush_all show ?case
    by (auto simp: alloc_ok_def pool_ids_def)
qed

lemma pool_reach_ok:
  "pool_reach bp bp' \<Longrightarrow> pool_ok bp \<Longrightarrow> alloc_ok bp \<Longrightarrow> pool_ok bp' \<and> alloc_ok bp'"
  by (induction rule: pool_reach.induct) (auto dest: pool_step_ok)

lemma opened_new:
  assumes "0 < n"
  shows "\<exists>bp. pool_open None n = Inr bp \<and> ready bp first_header (\<lambda>_. replicate PAGE_SIZE 0) \<and>
    alloc_ok bp \<and> dense bp \<and> pool_ids bp = {0}"
proof -
  from open_new [OF assms] obtain bp where
    bp: "pool_open None n = Inr bp" "ready bp first_header (\<lambda>_. replicate PAGE_SIZE 0)" by blast
  then have "pool_ids bp = {0}" "next_pid (bp_disk bp) = 1" "bp_head bp = first_header"
    "\<And>q f. map_of (bp_dir bp) q = Some f \<Longrightarrow> unat q = 0"
    using first_bitmap(2) by (auto simp: ready_def pool_ids_def first_header_def)
  with bp show ?thesis by (auto simp: alloc_ok_def dense_def first_header_def)
qed

section \<open>The interface of the pool\<close>

text \<open>
  What a client that holds the pages \<open>H\<close> relies on: another page can be fetched while a frame is left;
  the frame holds the page; writes to the frame are seen by later fetches and by nobody else; a page
  that is let go keeps its content.
\<close>

locale page_cache =
  fixes fetch :: "'i \<Rightarrow> 's \<Rightarrow> 'e + ('f option \<times> 's)"
    and data :: "'f \<Rightarrow> 's \<Rightarrow> 'e + 'b"
    and put :: "'f \<Rightarrow> 'b \<Rightarrow> 's \<Rightarrow> 'e + 's"
    and release :: "'i \<Rightarrow> bool \<Rightarrow> 's \<Rightarrow> 'e + 's"
    and frame :: "'s \<Rightarrow> 'i \<Rightarrow> 'f option"
    and view :: "'s \<Rightarrow> 'i \<Rightarrow> 'b"
    and clean :: "'s \<Rightarrow> 'i \<Rightarrow> bool"
    and meta :: "'s \<Rightarrow> 'm"
    and ok :: "'s \<Rightarrow> 'i set \<Rightarrow> bool"
    and room :: "'s \<Rightarrow> 'i set \<Rightarrow> bool"
    and valid :: "'s \<Rightarrow> 'i \<Rightarrow> bool"
    and is_page :: "'b \<Rightarrow> bool"
  assumes view_page: "ok s H \<Longrightarrow> is_page (view s i)"
    and valid_meta: "meta s = meta s' \<Longrightarrow> valid s = valid s'"
    and room_meta: "meta s = meta s' \<Longrightarrow> room s = room s'"
    and fetch_law: "ok s H \<Longrightarrow> valid s i \<Longrightarrow> i \<notin> H \<Longrightarrow> room s H \<Longrightarrow>
      \<exists>f s'. fetch i s = Inr (Some f, s') \<and> ok s' (insert i H) \<and> meta s' = meta s \<and>
        frame s' i = Some f \<and> clean s' i \<and> (\<forall>q. valid s q \<longrightarrow> view s' q = view s q)"
    and data_law: "ok s H \<Longrightarrow> frame s i = Some f \<Longrightarrow> data f s = Inr (view s i)"
    and put_law: "ok s H \<Longrightarrow> i \<in> H \<Longrightarrow> frame s i = Some f \<Longrightarrow> is_page b \<Longrightarrow>
      \<exists>s'. put f b s = Inr s' \<and> ok s' H \<and> meta s' = meta s \<and> frame s' = frame s \<and>
        (\<forall>q. valid s q \<longrightarrow> view s' q = (if q = i then b else view s q))"
    and put_same: "ok s H \<Longrightarrow> frame s i = Some f \<Longrightarrow> put f (view s i) s = Inr s"
    and release_law: "ok s H \<Longrightarrow> i \<in> H \<Longrightarrow> dirty \<or> clean s i \<Longrightarrow>
      \<exists>s'. release i dirty s = Inr s' \<and> ok s' (H - {i}) \<and> meta s' = meta s \<and> frame s' = frame s \<and>
        (\<forall>q. valid s q \<longrightarrow> view s' q = view s q)"
begin

text \<open>Two states between which a client cannot tell, but for the content of the page \<open>i\<close>.\<close>

definition alike :: "'s \<Rightarrow> 's \<Rightarrow> 'i \<Rightarrow> 'b \<Rightarrow> bool" where
  "alike s s' i b \<longleftrightarrow> meta s' = meta s \<and> valid s' = valid s \<and> room s' = room s \<and>
     (\<forall>q. valid s q \<longrightarrow> view s' q = (if q = i then b else view s q))"

lemma alikeI:
  "meta s' = meta s \<Longrightarrow> (\<And>q. valid s q \<Longrightarrow> view s' q = (if q = i then b else view s q)) \<Longrightarrow> alike s s' i b"
  using valid_meta [of s' s] room_meta [of s' s] by (simp add: alike_def)

lemma alike_trans: "alike s s1 i b \<Longrightarrow> alike s1 s2 i c \<Longrightarrow> alike s s2 i c"
  by (simp add: alike_def)

definition same :: "'s \<Rightarrow> 's \<Rightarrow> bool" where
  "same s s' \<longleftrightarrow> meta s' = meta s \<and> (\<forall>q. valid s q \<longrightarrow> view s' q = view s q)"

lemma alike_same: "alike s s' i (view s i) \<longleftrightarrow> same s s'"
  using valid_meta [of s' s] room_meta [of s' s] by (auto simp: alike_def same_def)

lemma same_trans: "same s s1 \<Longrightarrow> same s1 s2 \<Longrightarrow> same s s2"
  using valid_meta [of s1 s] by (simp add: same_def)

lemma put_page:
  assumes "ok s H" "i \<in> H" "frame s i = Some f" "is_page b"
  shows "\<exists>s'. put f b s = Inr s' \<and> ok s' H \<and> frame s' = frame s \<and> alike s s' i b"
  using put_law [OF assms] by (fastforce intro: alikeI)

text \<open>A page is brought in, and let go again without or with a change.\<close>

lemma open_page:
  assumes ok: "ok s H" and i: "valid s i" "i \<notin> H" and r: "room s H"
  shows "\<exists>f s'. fetch i s = Inr (Some f, s') \<and> ok s' (insert i H) \<and> frame s' i = Some f \<and>
    data f s' = Inr (view s i) \<and> clean s' i \<and> alike s s' i (view s i)"
  using fetch_law [OF assms] data_law [of _ "insert i H"] i(1) by (fastforce intro!: alikeI)

lemma close_page:
  assumes ok: "ok s (insert i H)" and i: "i \<notin> H" and d: "dirty \<or> clean s i"
  shows "\<exists>s'. release i dirty s = Inr s' \<and> ok s' H \<and> frame s' = frame s \<and> alike s s' i (view s i)"
  using release_law [OF ok _ d] i by (fastforce intro!: alikeI)

lemma modify:
  assumes ok: "ok s (insert i H)" and i: "i \<notin> H" "valid s i" "frame s i = Some f" and b: "is_page b"
  shows "\<exists>s1 s2. put f b s = Inr s1 \<and> release i True s1 = Inr s2 \<and> ok s2 H \<and> alike s s2 i b"
proof -
  from put_page [OF ok _ i(3) b] obtain s1 where s1: "put f b s = Inr s1" "ok s1 (insert i H)" "alike s s1 i b"
    by auto
  from close_page [OF s1(2) i(1), of True] obtain s2 where
    "release i True s1 = Inr s2" "ok s2 H" "alike s1 s2 i (view s1 i)" by auto
  moreover have "view s1 i = b" using s1(3) i(2) by (simp add: alike_def)
  ultimately show ?thesis using s1(1) alike_trans [OF s1(3)] by blast
qed

end

section \<open>The pool provides it\<close>

definition frame_data :: "nat \<Rightarrow> pool \<Rightarrow> bytes res" where
  "frame_data f bp = andthen (frame_at f bp) (\<lambda>p. Inr (pg_buffer p))"

definition pool_valid :: "pool \<Rightarrow> page_id \<Rightarrow> bool" where
  "pool_valid bp pid \<longleftrightarrow> unat pid \<in> pool_ids bp \<and> page_ok pid"

definition pool_good :: "pool \<Rightarrow> bool" where
  "pool_good bp \<longleftrightarrow> pool_ok bp \<and> alloc_ok bp"

definition pool_meta :: "pool \<Rightarrow> bfp_header \<times> page_id \<times> bool \<times> nat" where
  "pool_meta bp = (bp_head bp, next_pid (bp_disk bp), bp_closed bp, length (bp_pages bp))"

text \<open>The pages that are held or miscounted do not take up all frames.\<close>

definition pool_room :: "page_id set \<Rightarrow> pool \<Rightarrow> page_id set \<Rightarrow> bool" where
  "pool_room S bp H \<longleftrightarrow> finite S \<and> finite H \<and> card (S \<union> H) < length (bp_pages bp)"

lemma pool_view_page:
  assumes "pool_held S bp H"
  shows "length (pool_view bp i) = PAGE_SIZE"
  using length_pool_view [of "settled bp" i] pool_heldD(1) [OF assms] settled_view(1) by simp

lemma frame_data_view: "frame_at f bp = Inr (bp_pages bp ! f) \<Longrightarrow> map_of (bp_dir bp) i = Some f \<Longrightarrow>
    frame_data f bp = Inr (pool_view bp i)"
  by (simp add: frame_data_def pool_view_def)

interpretation pool: page_cache fetch frame_data put_data unpin "\<lambda>bp. map_of (bp_dir bp)"
  pool_view pool_saved pool_meta "pool_held S" "pool_room S" pool_valid "\<lambda>b. length b = PAGE_SIZE"
  for S
proof unfold_locales
  fix s H i assume "pool_held S s H"
  then show "length (pool_view s i) = PAGE_SIZE" by (rule pool_view_page)
next
  fix s s' assume "pool_meta s = pool_meta s'"
  then show "pool_valid s = pool_valid s'" "pool_room S s = pool_room S s'"
    by (simp_all add: fun_eq_iff pool_valid_def pool_ids_def pool_meta_def pool_room_def)
next
  fix s H i assume s: "pool_held S s H" "pool_valid s i" "i \<notin> H" "pool_room S s H"
  then have v: "page_ok i" "unat i \<in> pool_ids s" by (simp_all add: pool_valid_def)
  have "\<not> all_pinned (settled s)"
    using all_pinned_held [OF s(1)] s(4) by (auto simp: pool_room_def)
  with fetch_settled [OF pool_heldD(1) [OF s(1)] v(1)] obtain f s' g where
    f: "fetch i s = Inr (Some f, s')" "fetched (settled s) i f (repin g s')" by auto
  note hf = held_fetched [OF s(1) v(2) s(3) f]
  from f(1) hf show "\<exists>f s'. fetch i s = Inr (Some f, s') \<and> pool_held S s' (insert i H) \<and>
      pool_meta s' = pool_meta s \<and> map_of (bp_dir s') i = Some f \<and> pool_saved s' i \<and>
      (\<forall>q. pool_valid s q \<longrightarrow> pool_view s' q = pool_view s q)"
    by (auto simp: pool_meta_def pool_valid_def)
next
  fix s H i f assume "pool_held S s H" "map_of (bp_dir s) i = Some f"
  then show "frame_data f s = Inr (pool_view s i)"
    using frame_data_view held_frame(3) by blast
next
  fix s H i f and b :: bytes
  assume s: "pool_held S s H" "i \<in> H" "map_of (bp_dir s) i = Some f" "length b = PAGE_SIZE"
  then show "\<exists>s'. put_data f b s = Inr s' \<and> pool_held S s' H \<and> pool_meta s' = pool_meta s \<and>
      map_of (bp_dir s') = map_of (bp_dir s) \<and>
      (\<forall>q. pool_valid s q \<longrightarrow> pool_view s' q = (if q = i then b else pool_view s q))"
    using held_put [OF s(1,3,2,4)] by (auto simp: pool_meta_def)
next
  fix s H i f assume s: "pool_held S s H" "map_of (bp_dir s) i = Some f"
  then have "(bp_pages s ! f)\<lparr>pg_buffer := pool_view s i\<rparr> = bp_pages s ! f"
    by (simp add: pool_view_def)
  with held_frame(3) [OF s] show "put_data f (pool_view s i) s = Inr s"
    by (simp add: put_data_def set_frame_def)
next
  fix s H i dirty assume s: "pool_held S s H" "i \<in> H" "dirty \<or> pool_saved s i"
  then show "\<exists>s'. unpin i dirty s = Inr s' \<and> pool_held S s' (H - {i}) \<and> pool_meta s' = pool_meta s \<and>
      map_of (bp_dir s') = map_of (bp_dir s) \<and> (\<forall>q. pool_valid s q \<longrightarrow> pool_view s' q = pool_view s q)"
    using held_unpin [OF s] by (auto simp: pool_meta_def)
qed

end
