(* ===== verification/Record_Scanner.thy ===== *)
theory Record_Scanner
  imports Record_Page Page_Cache
begin

text \<open>
  \<open>PageRecordScanner\<close> and \<open>RecordScanner\<close> of \<open>src/storage/bufferpool/record.hpp\<close>. A
  \<open>RecordPage *\<close> of a scanner is the header it cached when it was opened, with the frame its page
  is in; \<open>None\<close> is \<open>nullptr\<close>. The member template \<open>next\<close> is a function of the \<open>get\<close> it
  is instantiated with.
\<close>

section \<open>Scanning one page\<close>

definition page_scanner_init :: "page \<Rightarrow> rid" where
  "page_scanner_init p = \<lparr>page_id = pg_pid p, slot_id = 0\<rparr>"

definition page_has_next :: "rid \<Rightarrow> rpage \<Rightarrow> page \<Rightarrow> bool res" where
  "page_has_next next_rid rp p =
     andthen (rpage_contain next_rid rp p) (\<lambda>c. Inr (c \<noteq> OUT_OF_RANGE))"

definition next_slot :: "rid \<Rightarrow> rid" where
  "next_slot r = r\<lparr>slot_id := slot_id r + 1\<rparr>"

text \<open>
  The loop of \<open>next\<close>: (code, record, rid, next_rid). A vector of 8-byte words has fewer than
  \<open>2 ^ 64\<close> elements, so that the slot does not wrap before the loop meets the end of the vector.
\<close>

function page_next ::
  "('r \<Rightarrow> rid \<Rightarrow> rpage \<Rightarrow> page \<Rightarrow> (bool \<times> 'r) res) \<Rightarrow> 'r \<Rightarrow> rid \<Rightarrow> rid \<Rightarrow> rpage \<Rightarrow> page \<Rightarrow>
   (rc \<times> 'r \<times> rid \<times> rid) res" where
  "page_next get rc r next_rid rp p =
     andthen (rpage_contain next_rid rp p) (\<lambda>c.
     andthen (get rc next_rid rp p) (\<lambda>(_, rc').
     if c = OUT_OF_RANGE then Inr (c, rc', r, next_rid)
     else if c = SUCCESS then Inr (c, rc', next_rid, next_slot next_rid)
     else if unat (slot_id next_rid) < length (rec_idx rp) \<and> length (rec_idx rp) < 2 ^ 64
     then page_next get rc' r (next_slot next_rid) rp p
     else Inl Out_Of_Bounds))"
  by pat_completeness auto
termination
proof (relation "measure (\<lambda>(get, rc, r, next_rid, rp, p). length (rec_idx rp) - unat (slot_id next_rid))")
  fix next_rid :: rid and rp :: rpage
  assume "unat (slot_id next_rid) < length (rec_idx rp) \<and> length (rec_idx rp) < 2 ^ 64"
  then have "unat (slot_id (next_slot next_rid)) = unat (slot_id next_rid) + 1"
    by (simp add: next_slot_def unat_word_ariths(1))
  with \<open>_ \<and> _\<close> show "((get, rc', r, next_slot next_rid, rp, p), get, rc, r, next_rid, rp, p)
      \<in> measure (\<lambda>(get, rc, r, next_rid, rp, p). length (rec_idx rp) - unat (slot_id next_rid))"
    for get rc rc' r p by (simp add: diff_less_mono2)
qed simp

declare page_next.simps [simp del]

section \<open>Scanning all pages\<close>

record scanner =
  sc_rp :: "(rpage \<times> nat) option"
  sc_next_rid :: rid

definition scanner_blank :: scanner where
  "scanner_blank = \<lparr>sc_rp = None, sc_next_rid = rid_default\<rparr>"

text \<open>\<open>rp_.init(page)\<close> for a frame of the pool.\<close>

definition open_rpage :: "nat \<Rightarrow> pool \<Rightarrow> (rpage \<times> pool) res" where
  "open_rpage f bp =
     andthen (frame_at f bp) (\<lambda>p.
     andthen (rpage_init p) (\<lambda>(rp, p').
     andthen (put_data f (pg_buffer p') bp) (\<lambda>bp'. Inr (rp, bp'))))"

definition scanner_init :: "pool \<Rightarrow> (rc \<times> scanner \<times> pool) res" where
  "scanner_init bp =
     andthen (pool_contain 1 bp) (\<lambda>rc.
     andthen (fetch 1 bp) (\<lambda>(page, bp1).
     case page of
       None \<Rightarrow> if rc = SUCCESS then Inr (INTERNAL_ERROR, scanner_blank, bp1) else Inl Assert_Failed
     | Some f \<Rightarrow>
         andthen (open_rpage f bp1) (\<lambda>(rp, bp2).
         andthen (frame_at f bp2) (\<lambda>p.
         Inr (SUCCESS, \<lparr>sc_rp = Some (rp, f), sc_next_rid = page_scanner_init p\<rparr>, bp2)))))"

definition scanner_page_has_next :: "scanner \<Rightarrow> pool \<Rightarrow> bool res" where
  "scanner_page_has_next sc bp =
     (case sc_rp sc of
        None \<Rightarrow> Inl Null_Pointer
      | Some (rp, f) \<Rightarrow> andthen (frame_at f bp) (\<lambda>p. page_has_next (sc_next_rid sc) rp p))"

definition scanner_has_next :: "scanner \<Rightarrow> pool \<Rightarrow> (bool \<times> scanner \<times> pool) res" where
  "scanner_has_next sc bp =
     andthen (scanner_page_has_next sc bp) (\<lambda>cur_page_has_next.
     if \<not> cur_page_has_next
     then
       andthen (next_pid_after (page_id (sc_next_rid sc)) bp) (\<lambda>contain.
       andthen (unpin (page_id (sc_next_rid sc)) False bp) (\<lambda>bp1.
       case contain of
         None \<Rightarrow> Inr (False, sc, bp1)
       | Some next_id \<Rightarrow>
           let sc1 = \<lparr>sc_rp = None, sc_next_rid = \<lparr>page_id = next_id, slot_id = 0\<rparr>\<rparr> in
           andthen (fetch next_id bp1) (\<lambda>(next_page, bp2).
           case next_page of
             None \<Rightarrow> Inr (True, sc1, bp2)
           | Some f \<Rightarrow>
               andthen (open_rpage f bp2) (\<lambda>(rp, bp3).
               let sc2 = sc1\<lparr>sc_rp := Some (rp, f)\<rparr> in
               andthen (scanner_page_has_next sc2 bp3) (\<lambda>b. Inr (b, sc2, bp3))))))
     else Inr (True, sc, bp))"

definition scanner_next ::
  "('r \<Rightarrow> rid \<Rightarrow> rpage \<Rightarrow> page \<Rightarrow> (bool \<times> 'r) res) \<Rightarrow> 'r \<Rightarrow> rid \<Rightarrow> scanner \<Rightarrow> pool \<Rightarrow>
   (rc \<times> 'r \<times> rid \<times> scanner \<times> pool) res" where
  "scanner_next get rc r sc bp =
     andthen (scanner_has_next sc bp) (\<lambda>(b, sc1, bp1).
     if b
     then
       andthen
         (case sc_rp sc1 of
            Some _ \<Rightarrow> Inr (True, sc1, bp1)
          | None \<Rightarrow>
              andthen (fetch (page_id (sc_next_rid sc1)) bp1) (\<lambda>(next_page, bp2).
              case next_page of
                None \<Rightarrow> Inr (False, sc1, bp2)
              | Some f \<Rightarrow>
                  andthen (open_rpage f bp2) (\<lambda>(rp, bp3). Inr (True, sc1\<lparr>sc_rp := Some (rp, f)\<rparr>, bp3))))
         (\<lambda>(opened, sc2, bp2).
            if opened
            then (case sc_rp sc2 of
                    None \<Rightarrow> Inl Null_Pointer
                  | Some (rp, f) \<Rightarrow>
                      andthen (frame_at f bp2) (\<lambda>p.
                      andthen (page_next get rc r (sc_next_rid sc2) rp p) (\<lambda>(c, rc', r', next_rid).
                      Inr (c, rc', r', sc2\<lparr>sc_next_rid := next_rid\<rparr>, bp2))))
            else Inr (INTERNAL_ERROR, rc, r, sc2, bp2))
     else Inr (OUT_OF_RANGE, rc, r, sc1, bp1))"

definition scanner_destroy :: "scanner \<Rightarrow> pool \<Rightarrow> pool res" where
  "scanner_destroy sc bp = unpin (page_id (sc_next_rid sc)) False bp"

end
