(* ===== verification/Table_Heap.thy ===== *)
theory Table_Heap
  imports Record_Scanner
begin

text \<open>
  \<open>TableHeap\<close> of \<open>src/storage/table_heap/table_heap.hpp\<close>: the records of a table, in the pages
  of a buffer pool. Abstractly a heap is the list of its slots in page order, a removed record
  being \<open>None\<close>: an insert appends, a remove clears a position, a scan returns what is left.
\<close>

section \<open>Definitions\<close>

definition heap_open :: "bytes option \<Rightarrow> pool res" where
  "heap_open content = pool_open content 16"

text \<open>\<open>RecordPage record_page{page}; RID rid; record_page.insert(record, rid)\<close>.\<close>

definition insert_into :: "nat \<Rightarrow> rec \<Rightarrow> pool \<Rightarrow> (bool \<times> pool) res" where
  "insert_into f rc bp =
     andthen (open_rpage f bp) (\<lambda>(rp, bp1).
     andthen (frame_at f bp1) (\<lambda>p.
     andthen (rpage_insert rc rid_default rp p) (\<lambda>(ok, _, _, p').
     andthen (put_data f (pg_buffer p') bp1) (\<lambda>bp2. Inr (ok, bp2)))))"

definition heap_insert :: "rec \<Rightarrow> pool \<Rightarrow> (bool \<times> pool) res" where
  "heap_insert rc bp =
     (let pid = pool_current_pid bp in
      andthen
        (if pid = INVALID_ID \<or> pool_current_pid bp = 0
         then andthen (new_page bp) (\<lambda>(r, bp1).
              case r of None \<Rightarrow> Inr (False, None, bp1)
                      | Some (f, idx) \<Rightarrow> Inr (True, Some (f, idx), bp1))
         else andthen (fetch pid bp) (\<lambda>(r, bp1).
              case r of None \<Rightarrow> Inr (True, None, bp1)
                      | Some f \<Rightarrow> Inr (True, Some (f, pid), bp1)))
        (\<lambda>(go, page, bp1).
           if \<not> go then Inr (False, bp1)
           else case page of
             None \<Rightarrow> Inl Assert_Failed
           | Some (f, pid1) \<Rightarrow>
               andthen (insert_into f rc bp1) (\<lambda>(ok, bp2).
               if ok then andthen (unpin pid1 True bp2) (\<lambda>bp3. Inr (ok, bp3))
               else
                 andthen (unpin pid1 False bp2) (\<lambda>bp3.
                 andthen (new_page bp3) (\<lambda>(r, bp4).
                 case r of
                   None \<Rightarrow> Inr (False, bp4)
                 | Some (f2, pid2) \<Rightarrow>
                     andthen (insert_into f2 rc bp4) (\<lambda>(ok2, bp5).
                     andthen (unpin pid2 True bp5) (\<lambda>bp6. Inr (ok2, bp6))))))))"

definition heap_remove :: "rid \<Rightarrow> pool \<Rightarrow> (bool \<times> pool) res" where
  "heap_remove r bp =
     andthen (fetch (page_id r) bp) (\<lambda>(page, bp1).
     case page of
       None \<Rightarrow> Inr (False, bp1)
     | Some f \<Rightarrow>
         andthen (open_rpage f bp1) (\<lambda>(rp, bp2).
         andthen (frame_at f bp2) (\<lambda>p.
         andthen (rpage_remove r rp p) (\<lambda>(ok, p').
         andthen (put_data f (pg_buffer p') bp2) (\<lambda>bp3.
         andthen (unpin (page_id r) True bp3) (\<lambda>bp4. Inr (ok, bp4)))))))"

definition heap_close :: "pool \<Rightarrow> pool res" where
  "heap_close bp = pool_close bp"

definition heap_scanner :: "pool \<Rightarrow> (rc \<times> scanner \<times> pool) res" where
  "heap_scanner bp = scanner_init bp"

section \<open>The frame of a held page\<close>

lemma frame_page:
  assumes "pool_held S bp H" "map_of (bp_dir bp) pid = Some f"
  shows "frame_at f bp = Inr (bp_pages bp ! f)" "pg_pid (bp_pages bp ! f) = pid"
    "pg_buffer (bp_pages bp ! f) = pool_view bp pid"
  using held_frame [OF assms] assms(2) by (simp_all add: pool_view_def)

lemma open_rpage_wf:
  assumes "pool_held S bp H" "map_of (bp_dir bp) pid = Some f" "page_wf (pool_view bp pid)"
  shows "open_rpage f bp = Inr (rpage_of (pool_view bp pid), bp)"
  using frame_page [OF assms(1,2)] init_correct [OF assms(3)] pool.put_same [OF assms(1,2)]
  by (simp add: open_rpage_def)

text \<open>A page that was just allocated reads as zeros; opening it formats it.\<close>

lemma word_at_zeros: "k * 8 + 8 \<le> PAGE_SIZE \<Longrightarrow> word_at k (replicate PAGE_SIZE 0) = 0"
  by (simp add: word_at_def chunk_zeros)

lemma zeros_unused: "page_unused (replicate PAGE_SIZE 0)"
  using word_at_zeros [of 1] word_at_zeros [of 2] by (simp add: page_unused_def PAGE_SIZE_def)

lemma zeros_slots: "slots_of (replicate PAGE_SIZE 0) = []"
proof -
  have "slot_count (replicate PAGE_SIZE 0) = 0"
    using word_at_zeros [of 2] by (simp add: slot_count_def PAGE_SIZE_def)
  then show ?thesis using length_slots_of by (metis length_0_conv)
qed

lemma open_rpage_unused:
  assumes "pool_held S bp H" "pid \<in> H" "map_of (bp_dir bp) pid = Some f" "page_unused (pool_view bp pid)"
  shows "\<exists>bp'. open_rpage f bp = Inr (rpage_of (page_formatted (pool_view bp pid)), bp') \<and>
    pool_held S bp' H \<and> map_of (bp_dir bp') = map_of (bp_dir bp) \<and>
    pool.alike S bp bp' pid (page_formatted (pool_view bp pid))"
proof -
  have "length (page_formatted (pool_view bp pid)) = PAGE_SIZE"
    using formatted_unused(1) [OF assms(4)] by simp
  from pool.put_page [OF assms(1-3) this] frame_page [OF assms(1,3)] init_unused [OF assms(4)]
  show ?thesis by (auto simp: open_rpage_def)
qed

section \<open>Inserting into the page of a frame\<close>

definition record_fits :: "bytes \<Rightarrow> rec \<Rightarrow> bool" where
  "record_fits b rc \<longleftrightarrow> 32 + 8 * slot_count b + length (rc_data rc) + 1 < slot_lim b (slot_count b)"

definition record_small :: "rec \<Rightarrow> bool" where
  "record_small rc \<longleftrightarrow> 32 + length (rc_data rc) + 1 < PAGE_SIZE"

lemma alike_view: "pool.alike S bp bp' pid b \<Longrightarrow> pool_valid bp q \<Longrightarrow>
    pool_view bp' q = (if q = pid then b else pool_view bp q)"
  by (simp add: pool.alike_def)

lemma alikeD:
  assumes "pool.alike S bp bp' pid b"
  shows "pool_meta bp' = pool_meta bp" "pool_valid bp' = pool_valid bp" "pool_room S bp' = pool_room S bp"
    "next_pid (bp_disk bp') = next_pid (bp_disk bp)" "bp_closed bp' = bp_closed bp" "dense bp' = dense bp"
  using assms by (simp_all add: pool.alike_def dense_def pool_meta_def pool_ids_def)

lemma insert_into_fits:
  assumes g: "pool_held S bp H" and f: "map_of (bp_dir bp) pid = Some f" and pin: "pid \<in> H"
    and b: "b = page_formatted (pool_view bp pid)"
      "page_wf (pool_view bp pid) \<or> page_unused (pool_view bp pid)" "record_fits b rc"
    and v: "pool_valid bp pid"
  shows "\<exists>bp' b'. insert_into f rc bp = Inr (True, bp') \<and> pool_held S bp' H \<and>
    map_of (bp_dir bp') = map_of (bp_dir bp) \<and> pool.alike S bp bp' pid b' \<and>
    page_wf b' \<and> slots_of b' = slots_of b @ [Some (rc_data rc)]"
proof -
  obtain bp1 where o: "open_rpage f bp = Inr (rpage_of b, bp1)" "pool_held S bp1 H"
    "map_of (bp_dir bp1) = map_of (bp_dir bp)" "pool.alike S bp bp1 pid b"
  proof (cases "page_wf (pool_view bp pid)")
    case True
    then have "pool.alike S bp bp pid b" using b(1) by (simp add: pool.alike_def formatted_wf)
    with that [of bp] True open_rpage_wf [OF g f] g b(1) show ?thesis by (simp add: formatted_wf)
  next
    case False
    with open_rpage_unused [OF g pin f] b that show ?thesis by blast
  qed
  have wf: "page_wf b" using b(1,2) formatted_unused(1) formatted_wf by metis
  have f1: "map_of (bp_dir bp1) pid = Some f" using o(3) f by simp
  note p = frame_page [OF o(2) f1]
  have view1: "pool_view bp1 pid = b" using alike_view [OF o(4) v] by simp
  from insert_fits [OF wf, of "bp_pages bp1 ! f" rc rid_default] p(3) view1 b(3) obtain b' where
    i: "rpage_insert rc rid_default (rpage_of b) (bp_pages bp1 ! f) =
        Inr (True, \<lparr>page_id = pg_pid (bp_pages bp1 ! f), slot_id = of_nat (slot_count b)\<rparr>,
          rpage_of b', (bp_pages bp1 ! f)\<lparr>pg_buffer := b'\<rparr>)"
      "page_wf b'" "slots_of b' = slots_of b @ [Some (rc_data rc)]"
    by (auto simp: record_fits_def)
  from pool.put_page [OF o(2) pin f1, of b'] i(2) obtain bp2 where
    p2: "put_data f b' bp1 = Inr bp2" "pool_held S bp2 H" "map_of (bp_dir bp2) = map_of (bp_dir bp1)"
      "pool.alike S bp1 bp2 pid b'"
    by auto
  have "insert_into f rc bp = Inr (True, bp2)"
    using o(1) p(1) i(1) p2(1) by (simp add: insert_into_def)
  with p2 o(3) pool.alike_trans [OF o(4) p2(4)] i(2,3) show ?thesis
    by (intro exI [of _ bp2] exI [of _ b']) simp
qed

lemma insert_into_refused:
  assumes g: "pool_held S bp H" and f: "map_of (bp_dir bp) pid = Some f"
    and wf: "page_wf (pool_view bp pid)" and full: "\<not> record_fits (pool_view bp pid) rc"
    and small: "length (rc_data rc) < slot_lim (pool_view bp pid) (slot_count (pool_view bp pid))"
  shows "insert_into f rc bp = Inr (False, bp)"
  using open_rpage_wf [OF g f wf] frame_page [OF g f] pool.put_same [OF g f]
    insert_refused [OF wf small] full
  by (simp add: insert_into_def record_fits_def)

section \<open>The heap as a list of pages\<close>

text \<open>
  A heap whose clients hold the pages \<open>H\<close>, and whose pages of \<open>S\<close> were let go too often by earlier
  clients. The held pages may be in the middle of a change; the other ones are well formed.
\<close>

definition heap_in :: "page_id set \<Rightarrow> page_id set \<Rightarrow> pool \<Rightarrow> bool" where
  "heap_in S H bp \<longleftrightarrow> pool_held S bp H \<and> pool_room S bp {} \<and> 0 \<notin> S \<and> dense bp \<and>
     (\<forall>pid. pool_valid bp pid \<longrightarrow> pid \<noteq> 0 \<longrightarrow> pid \<notin> H \<longrightarrow> page_wf (pool_view bp pid))"

definition heap_at :: "page_id set \<Rightarrow> pool \<Rightarrow> bool" where
  "heap_at S bp \<longleftrightarrow> heap_in S {} bp"

abbreviation heap_ok :: "pool \<Rightarrow> bool" where
  "heap_ok \<equiv> heap_at {}"

definition page_slots :: "pool \<Rightarrow> nat \<Rightarrow> bytes option list" where
  "page_slots bp k = slots_of (pool_view bp (of_nat k))"

definition heap_pages :: "pool \<Rightarrow> bytes option list list" where
  "heap_pages bp = map (page_slots bp) [1..<unat (next_pid (bp_disk bp))]"

definition heap_slots :: "pool \<Rightarrow> bytes option list" where
  "heap_slots bp = concat (heap_pages bp)"

lemma heap_inD:
  assumes "heap_in S H bp"
  shows "pool_held S bp H" "pool_room S bp {}" "0 \<notin> S" "dense bp" "alloc_ok bp"
    "pool_valid bp pid \<Longrightarrow> pid \<noteq> 0 \<Longrightarrow> pid \<notin> H \<Longrightarrow> page_wf (pool_view bp pid)"
  using assms by (auto simp: heap_in_def pool_held_def)

lemmas heap_atD = heap_inD [where H = "{}", folded heap_at_def, simplified]

lemma valid_iff: "alloc_ok bp \<Longrightarrow> pool_valid bp pid \<longleftrightarrow> unat pid \<in> pool_ids bp"
  using allocated_page_ok by (auto simp: pool_valid_def)

lemma dense_valid:
  assumes "alloc_ok bp" "dense bp"
  shows "pool_valid bp pid \<longleftrightarrow> unat pid < unat (next_pid (bp_disk bp))"
    "k < unat (next_pid (bp_disk bp)) \<Longrightarrow> unat (of_nat k :: size_t) = k"
proof -
  show "pool_valid bp pid \<longleftrightarrow> unat pid < unat (next_pid (bp_disk bp))"
    using assms by (simp add: valid_iff dense_def)
  have "unat (next_pid (bp_disk bp)) < 2 ^ 64" using unsigned_less [of "next_pid (bp_disk bp)", where 'a = nat]
    by simp
  then show "k < unat (next_pid (bp_disk bp)) \<Longrightarrow> unat (of_nat k :: size_t) = k" by (simp add: size_of_nat)
qed

lemma heap_pages_nth:
  assumes "i + 1 < unat (next_pid (bp_disk bp))"
  shows "heap_pages bp ! i = page_slots bp (Suc i)"
  using assms by (simp add: heap_pages_def)

lemma length_heap_pages [simp]: "length (heap_pages bp) = unat (next_pid (bp_disk bp)) - 1"
  by (simp add: heap_pages_def)

text \<open>Changing one page.\<close>

lemma alike_slots:
  assumes al: "alloc_ok bp" and de: "dense bp" and a: "pool.alike S bp bp' pid b"
    and k: "k < unat (next_pid (bp_disk bp))"
  shows "page_slots bp' k = (if k = unat pid then slots_of b else page_slots bp k)"
proof -
  note u = dense_valid(2) [OF al de k]
  then have "pool_valid bp (of_nat k)" using k by (simp add: dense_valid(1) [OF al de])
  moreover have "of_nat k = pid \<longleftrightarrow> k = unat pid" using u by auto
  ultimately show ?thesis using alike_view [OF a] by (simp add: page_slots_def)
qed

lemma alike_pages:
  assumes al: "alloc_ok bp" and de: "dense bp" and a: "pool.alike S bp bp' pid b"
    and pid: "pool_valid bp pid" "pid \<noteq> 0"
  shows "heap_pages bp' = (heap_pages bp)[unat pid - 1 := slots_of b]"
proof (rule nth_equalityI)
  show "length (heap_pages bp') = length ((heap_pages bp)[unat pid - 1 := slots_of b])"
    by (simp add: alikeD(4) [OF a])
  fix i assume "i < length (heap_pages bp')"
  then have i: "i + 1 < unat (next_pid (bp_disk bp))" by (simp add: alikeD(4) [OF a])
  have "Suc i = unat pid \<longleftrightarrow> unat pid - 1 = i" using pid(2) by (auto simp: unat_gt_0 [symmetric])
  with i alike_slots [OF al de a, of "Suc i"]
  show "heap_pages bp' ! i = (heap_pages bp)[unat pid - 1 := slots_of b] ! i"
    by (simp add: heap_pages_nth alikeD(4) [OF a] nth_list_update)
qed

lemma alike_heap:
  assumes al: "alloc_ok bp" and de: "dense bp" and a: "pool.alike S bp bp' pid (pool_view bp pid)"
  shows "k < unat (next_pid (bp_disk bp)) \<Longrightarrow> page_slots bp' k = page_slots bp k"
    "heap_pages bp' = heap_pages bp"
proof -
  show k: "k < unat (next_pid (bp_disk bp)) \<Longrightarrow> page_slots bp' k = page_slots bp k" for k
    using alike_slots [OF al de a, of k] by (auto simp: page_slots_def)
  show "heap_pages bp' = heap_pages bp"
    unfolding heap_pages_def alikeD(4) [OF a] by (rule map_cong) (simp_all add: k)
qed

text \<open>Where no page was let go too often, this is the invariant of the pool with no page pinned.\<close>

lemma good_held:
  assumes "pool_good bp" "pool_pins bp = (\<lambda>_. 0)"
  shows "pool_held {} bp {}"
proof -
  have ok: "pool_ok bp" "alloc_ok bp" using assms(1) by (simp_all add: pool_good_def)
  then show ?thesis
    using pool_ok_settled [OF ok(1)] fixed_pins [OF ok(1)] pool_okD(8) [OF ok(1)] assms(2)
    by (simp add: pool_held_def)
qed

lemma held_good:
  assumes "pool_held {} bp {}"
  shows "pool_good bp" "pool_pins bp = (\<lambda>_. 0)"
proof -
  note h = pool_heldD [OF assms]
  show pins: "pool_pins bp = (\<lambda>_. 0)" using h(5) by auto
  have "pg_pin_count (bp_pages bp ! f) = 0 \<and> f \<in> set (lru_order (bp_replacer bp))"
    if "f < length (bp_pages bp)" "f \<notin> set (bp_free_list bp)" for f
  proof -
    have m: "map_of (bp_dir bp) (pg_pid (bp_pages (settled bp) ! f)) = Some f"
      using pool_okD(6) [OF h(1), of f] that by (simp add: settled_def)
    then have "\<not> pool_fixed bp (pg_pid (bp_pages (settled bp) ! f))" using h(3) by blast
    with m that(2) have "f \<in> set (lru_order (bp_replacer bp))" by (simp add: pool_fixed_def)
    moreover have "pg_pin_count (bp_pages bp ! f) = 0"
      using m fun_cong [OF pins, of "pg_pid (bp_pages (settled bp) ! f)"] by (simp add: pool_pins_def)
    ultimately show ?thesis by simp
  qed
  note zero = this
  have "pool_ok (repin (\<lambda>f. pg_pin_count (bp_pages bp ! f)) bp)"
    by (rule pool_ok_repin [OF h(1) [unfolded settled_def]]) (simp add: zero)
  with h(2) show "pool_good bp" by (simp add: pool_good_def repin_own)
qed

lemma heap_okI:
  assumes "pool_good bp" "pool_pins bp = (\<lambda>_. 0)" "dense bp" "bp_pages bp \<noteq> []"
    and "\<And>pid. pool_valid bp pid \<Longrightarrow> pid \<noteq> 0 \<Longrightarrow> page_wf (pool_view bp pid)"
  shows "heap_ok bp"
  using good_held [OF assms(1,2)] assms(3-5) by (simp add: heap_at_def heap_in_def pool_room_def)

lemma heap_okD:
  assumes "heap_ok bp"
  shows "pool_good bp" "pool_pins bp = (\<lambda>_. 0)" "dense bp" "bp_pages bp \<noteq> []" "\<not> all_pinned bp"
proof -
  note h = heap_atD [OF assms]
  show g: "pool_good bp" "pool_pins bp = (\<lambda>_. 0)" using held_good [OF h(1)] by auto
  show "dense bp" by (rule h(4))
  show ne: "bp_pages bp \<noteq> []" using h(2) by (simp add: pool_room_def)
  show "\<not> all_pinned bp"
  proof
    assume a: "all_pinned bp"
    then have e: "bp_free_list bp = []" "pg_pin_count (bp_pages bp ! 0) \<noteq> 0"
      using ne by (auto simp: all_pinned_def)
    have "map_of (bp_dir bp) (pg_pid (bp_pages bp ! 0)) = Some 0"
      using pool_okD(6) [of bp 0] g(1) e(1) ne by (simp add: pool_good_def)
    with e(2) fun_cong [OF g(2), of "pg_pid (bp_pages bp ! 0)"] show False by (simp add: pool_pins_def)
  qed
qed

section \<open>Rounds of a client\<close>

definition pool_kept :: "pool \<Rightarrow> pool \<Rightarrow> bool" where
  "pool_kept bp bp' \<longleftrightarrow> bp_closed bp' = bp_closed bp \<and> length (bp_pages bp') = length (bp_pages bp)"

lemma pool_kept_meta: "pool_meta bp' = pool_meta bp \<Longrightarrow> pool_kept bp bp'"
  by (simp add: pool_kept_def pool_meta_def)

lemmas alike_kept = alikeD(1) [THEN pool_kept_meta]

lemma pool_kept_trans: "pool_kept bp bp1 \<Longrightarrow> pool_kept bp1 bp2 \<Longrightarrow> pool_kept bp bp2"
  by (simp add: pool_kept_def)

lemma heap_in_alike:
  assumes "heap_in S {pid} bp" "pool_held S bp' {pid}" "pool.alike S bp bp' pid b"
  shows "heap_in S {pid} bp'"
  using assms(1,2) alikeD [OF assms(3)] alike_view [OF assms(3)] by (auto simp: heap_in_def)

lemma heap_fetch:
  assumes ok: "heap_at S bp" and v: "pool_valid bp pid"
  shows "\<exists>f bp1. fetch pid bp = Inr (Some f, bp1) \<and> heap_in S {pid} bp1 \<and>
    map_of (bp_dir bp1) pid = Some f \<and> pool_saved bp1 pid \<and> pool_view bp1 pid = pool_view bp pid \<and>
    pool.alike S bp bp1 pid (pool_view bp pid)"
proof -
  note h = heap_atD [OF ok]
  from pool.open_page [OF h(1) v _ h(2)] obtain f bp1 where
    f: "fetch pid bp = Inr (Some f, bp1)" "pool_held S bp1 {pid}" "map_of (bp_dir bp1) pid = Some f"
      "pool_saved bp1 pid" "pool.alike S bp bp1 pid (pool_view bp pid)" by auto
  have "heap_in S {pid} bp1"
    using f(2) h alikeD [OF f(5)] alike_view [OF f(5)] by (auto simp: heap_in_def)
  with f alike_view [OF f(5) v] show ?thesis by simp
qed

text \<open>Letting the only held page go restores the invariant of the heap.\<close>

lemma heap_release:
  assumes h: "heap_in S {pid} bp" and v: "pool_valid bp pid" and wf: "pid \<noteq> 0 \<Longrightarrow> page_wf (pool_view bp pid)"
    and d: "dirty \<or> pool_saved bp pid"
  shows "\<exists>bp'. unpin pid dirty bp = Inr bp' \<and> heap_at S bp' \<and> let_go bp' pid \<and>
    pool_view bp' pid = pool_view bp pid \<and> pool.alike S bp bp' pid (pool_view bp pid)"
proof -
  note hd = heap_inD [OF h]
  from held_unpin [OF hd(1) _ d] obtain bp' where
    u: "unpin pid dirty bp = Inr bp'" "pool_held S bp' {}" "bp_dir bp' = bp_dir bp" "bp_head bp' = bp_head bp"
      "bp_disk bp' = bp_disk bp" "bp_closed bp' = bp_closed bp" "length (bp_pages bp') = length (bp_pages bp)"
      "pool_view bp' = pool_view bp" "pool_fixed bp' pid \<or> pool_pins bp' pid = 0" by auto
  have a: "pool.alike S bp bp' pid (pool_view bp pid)"
    by (rule pool.alikeI) (simp_all add: pool_meta_def u)
  have "heap_at S bp'"
    unfolding heap_at_def heap_in_def using u(2,8) hd alikeD [OF a] wf by auto
  moreover have "let_go bp' pid"
    using u(3,9) pool_heldD(4) [OF hd(1), of pid] by (auto simp: let_go_def pool_fixed_def split: option.splits)
  ultimately show ?thesis using u(1,8) a by auto
qed

text \<open>A new page: the next id of the file, and all zeros.\<close>

lemma heap_new_page:
  assumes ok: "heap_at S bp" and room: "unat (next_pid (bp_disk bp)) < BFP_MAX_PAGE_NUM"
  defines "n \<equiv> next_pid (bp_disk bp)"
  shows "\<exists>f bp1. new_page bp = Inr (Some (f, n), bp1) \<and> heap_in S {n} bp1 \<and>
    map_of (bp_dir bp1) n = Some f \<and> pool_valid bp1 n \<and> n \<noteq> 0 \<and>
    unat (next_pid (bp_disk bp1)) = unat n + 1 \<and> pool_view bp1 n = replicate PAGE_SIZE 0 \<and>
    heap_pages bp1 = heap_pages bp @ [[]] \<and> pool_kept bp bp1"
proof -
  note h = heap_atD [OF ok]
  have "\<not> all_pinned (settled bp)"
    using all_pinned_held [OF h(1)] h(2) by (auto simp: pool_room_def)
  with new_page_settled [OF pool_heldD(1,2) [OF h(1)]] room obtain f idx bp1 g where
    nw: "new_page bp = Inr (Some (f, idx), bp1)" "created (settled bp) f idx (repin g bp1)" by auto
  note c = nw(2) [unfolded created_def, simplified settled_simps repin_simps]
  note hn = held_new_page [OF h(1) nw]
  have dn: "dense (settled bp) = dense bp" "dense (repin g bp1) = dense bp1"
    by (simp_all add: dense_def pool_ids_def)
  have de1: "dense bp1" using dense_created [of "settled bp" f idx "repin g bp1"] nw(2) room h(4,5) dn by simp
  obtain d where "choose_page_id (settled bp) = Inr (Some idx, (settled bp)\<lparr>bp_disk := d\<rparr>)"
    "next_pid (bp_disk bp1) = next_pid d" using c by blast
  with dense_choose [of "settled bp" idx d] h(4,5) dn have idx: "idx = n" "next_pid (bp_disk bp1) = n + 1"
    by (auto simp: n_def)
  have u: "unat (next_pid (bp_disk bp1)) = unat n + 1"
    using room by (simp add: idx(2) n_def unat_word_ariths(1) BFP_MAX_PAGE_NUM_def PAGE_SIZE_def)
  have al1: "alloc_ok bp1" using hn(1) by (simp add: pool_held_def)
  have val: "pool_valid bp1 q \<longleftrightarrow> q = n \<or> pool_valid bp q" for q
    unfolding dense_valid(1) [OF al1 de1] dense_valid(1) [OF h(5,4)] u
    by (auto simp: n_def less_Suc_eq word_unat_eq_iff)
  have z: "pool_view bp1 n = replicate PAGE_SIZE 0"
    using hn(5) [of n] val [of n] by (simp add: idx(1) pool_valid_def)
  have old: "pool_view bp1 q = pool_view bp q" if "pool_valid bp q" for q
    using hn(5) [of q] that dense_valid(1) [OF h(5,4), of q] by (auto simp: idx(1) n_def pool_valid_def)
  have nz: "n \<noteq> 0" using h(4) by (simp add: dense_def n_def)
  have "heap_in S {n} bp1"
    unfolding heap_in_def using hn(1,4) h de1 val old by (auto simp: idx(1) pool_room_def)
  moreover have "heap_pages bp1 = heap_pages bp @ [[]]"
  proof -
    have "page_slots bp1 k = page_slots bp k" if "k < unat n" for k
      using old [of "of_nat k"] that dense_valid [OF h(5,4)] by (simp add: page_slots_def n_def)
    moreover have "page_slots bp1 (unat n) = []"
      using z by (simp add: page_slots_def zeros_slots)
    moreover have "1 \<le> unat n" using nz by (simp add: unat_gt_0 Suc_le_eq)
    ultimately show ?thesis by (simp add: heap_pages_def u n_def [symmetric])
  qed
  ultimately show ?thesis using nw(1) hn(2-4) val nz u z by (simp add: idx(1) pool_kept_def)
qed

section \<open>Inserting a record\<close>

text \<open>The page an insert tries first is the last one of the file.\<close>

definition last_page :: "pool \<Rightarrow> bytes" where
  "last_page bp = pool_view bp (pool_current_pid bp)"

lemma heap_last:
  assumes ok: "heap_at S bp"
  shows "next_pid (bp_disk bp) \<noteq> 0" "unat (pool_current_pid bp) = unat (next_pid (bp_disk bp)) - 1"
    "pool_current_pid bp \<noteq> INVALID_ID" "pool_valid bp (pool_current_pid bp)"
    "pool_current_pid bp \<noteq> 0 \<Longrightarrow> page_wf (last_page bp)"
    "pool_current_pid bp = 0 \<longleftrightarrow> heap_pages bp = []"
    "pool_current_pid bp \<noteq> 0 \<Longrightarrow> last (heap_pages bp) = slots_of (last_page bp)"
proof -
  note h = heap_atD [OF ok]
  show nz: "next_pid (bp_disk bp) \<noteq> 0" using h(4) by (simp add: dense_def)
  show u: "unat (pool_current_pid bp) = unat (next_pid (bp_disk bp)) - 1"
    using next_pid_unat(2) [OF h(5)] by (simp add: pool_current_pid_def)
  with next_pid_unat(1) [OF h(5)] show v: "pool_valid bp (pool_current_pid bp)"
    by (simp add: dense_valid(1) [OF h(5,4)])
  then show "pool_current_pid bp \<noteq> INVALID_ID" by (auto simp: pool_valid_def)
  show "pool_current_pid bp \<noteq> 0 \<Longrightarrow> page_wf (last_page bp)"
    using h(6) [OF v] by (simp add: last_page_def)
  have "pool_current_pid bp = 0 \<longleftrightarrow> unat (next_pid (bp_disk bp)) - 1 = 0"
    by (metis u unat_eq_zero)
  then show e: "pool_current_pid bp = 0 \<longleftrightarrow> heap_pages bp = []"
    by (metis length_heap_pages length_0_conv)
  show "last (heap_pages bp) = slots_of (last_page bp)" if "pool_current_pid bp \<noteq> 0"
  proof -
    have "heap_pages bp \<noteq> []" using that e by simp
    then have "1 < unat (next_pid (bp_disk bp))" by (metis length_heap_pages length_greater_0_conv zero_less_diff)
    with \<open>heap_pages bp \<noteq> []\<close> have "last (heap_pages bp) = page_slots bp (unat (pool_current_pid bp))"
      by (simp add: last_conv_nth heap_pages_nth u Suc_diff_Suc)
    then show ?thesis by (simp add: page_slots_def last_page_def)
  qed
qed

lemma fits_fresh:
  "record_small rc \<Longrightarrow> record_fits (page_formatted (replicate PAGE_SIZE 0)) rc"
  using formatted_unused [OF zeros_unused]
  by (metis record_fits_def record_small_def slot_lim_simps(1) length_slots_of list.size(3)
      add.right_neutral mult_0_right)

lemma insert_fresh:
  assumes ok: "heap_at S bp" and room: "unat (next_pid (bp_disk bp)) < BFP_MAX_PAGE_NUM"
    and small: "record_small rc"
  shows "\<exists>f idx bp1 bp2 bp3. new_page bp = Inr (Some (f, idx), bp1) \<and>
    insert_into f rc bp1 = Inr (True, bp2) \<and> unpin idx True bp2 = Inr bp3 \<and> heap_at S bp3 \<and>
    heap_pages bp3 = heap_pages bp @ [[Some (rc_data rc)]] \<and> pool_kept bp bp3"
proof -
  let ?n = "next_pid (bp_disk bp)"
  from heap_new_page [OF ok room] obtain f bp1 where
    n: "new_page bp = Inr (Some (f, ?n), bp1)" "heap_in S {?n} bp1" "map_of (bp_dir bp1) ?n = Some f"
      "pool_valid bp1 ?n" "?n \<noteq> 0" "unat (next_pid (bp_disk bp1)) = unat ?n + 1"
      "pool_view bp1 ?n = replicate PAGE_SIZE 0" "heap_pages bp1 = heap_pages bp @ [[]]"
      "pool_kept bp bp1" by blast
  note h1 = heap_inD [OF n(2)]
  from insert_into_fits [OF h1(1) n(3) _ refl, of rc] zeros_unused n(4,7) fits_fresh [OF small]
  obtain bp2 b' where
    i: "insert_into f rc bp1 = Inr (True, bp2)" "pool_held S bp2 {?n}" "pool.alike S bp1 bp2 ?n b'"
      "page_wf b'" "slots_of b' = [Some (rc_data rc)]"
    by (auto simp: formatted_unused(2) [OF zeros_unused])
  have b': "pool_view bp2 ?n = b'" using alike_view [OF i(3) n(4)] by simp
  from heap_release [OF heap_in_alike [OF n(2) i(2,3)], of True] b' i(4) alikeD(2) [OF i(3)] n(4)
  obtain bp3 where
    r: "unpin ?n True bp2 = Inr bp3" "heap_at S bp3" "pool.alike S bp2 bp3 ?n b'" by auto
  note a = pool.alike_trans [OF i(3) r(3)]
  have "unat ?n - 1 = length (heap_pages bp)" by simp
  then have "heap_pages bp3 = heap_pages bp @ [[Some (rc_data rc)]]"
    unfolding alike_pages [OF h1(5,4) a n(4,5)] n(8) i(5) by (simp add: list_update_append)
  with n(1) i(1) r(1,2) pool_kept_trans [OF n(9) alike_kept [OF a]] show ?thesis by blast
qed

text \<open>The record fits into the last page: its slots get one more.\<close>

lemma insert_last:
  assumes ok: "heap_at S bp" and nz: "pool_current_pid bp \<noteq> 0" and fits: "record_fits (last_page bp) rc"
  shows "\<exists>bp'. heap_insert rc bp = Inr (True, bp') \<and> heap_at S bp' \<and>
    heap_pages bp' = butlast (heap_pages bp) @ [last (heap_pages bp) @ [Some (rc_data rc)]] \<and>
    pool_kept bp bp'"
proof -
  let ?p = "pool_current_pid bp"
  note l = heap_last [OF ok] and h = heap_atD [OF ok]
  from heap_fetch [OF ok l(4)] obtain f bp1 where
    f: "fetch ?p bp = Inr (Some f, bp1)" "heap_in S {?p} bp1" "map_of (bp_dir bp1) ?p = Some f"
      "pool_view bp1 ?p = last_page bp" "pool.alike S bp bp1 ?p (last_page bp)"
    unfolding last_page_def by blast
  have v1: "pool_valid bp1 ?p" using l(4) alikeD(2) [OF f(5)] by simp
  from insert_into_fits [OF heap_inD(1) [OF f(2)] f(3) _ refl, of rc] f(4) l(5) [OF nz] fits v1
  obtain bp2 b' where
    i: "insert_into f rc bp1 = Inr (True, bp2)" "pool_held S bp2 {?p}" "pool.alike S bp1 bp2 ?p b'"
      "page_wf b'" "slots_of b' = slots_of (last_page bp) @ [Some (rc_data rc)]"
    by (auto simp: formatted_wf)
  have b': "pool_view bp2 ?p = b'" using alike_view [OF i(3) v1] by simp
  from heap_release [OF heap_in_alike [OF f(2) i(2,3)], of True] b' i(4) alikeD(2) [OF i(3)] v1
  obtain bp3 where
    r: "unpin ?p True bp2 = Inr bp3" "heap_at S bp3" "pool.alike S bp2 bp3 ?p b'" by auto
  note a = pool.alike_trans [OF f(5) pool.alike_trans [OF i(3) r(3)]]
  have "heap_insert rc bp = Inr (True, bp3)"
    using f(1) i(1) r(1) l(3) nz by (simp add: heap_insert_def Let_def)
  moreover have "heap_pages bp3 = butlast (heap_pages bp) @ [last (heap_pages bp) @ [Some (rc_data rc)]]"
  proof -
    have ne: "heap_pages bp \<noteq> []" using l(6) nz by simp
    have "unat ?p - 1 = length (butlast (heap_pages bp))" by (simp add: l(2))
    moreover have "(butlast ps @ [last ps])[length (butlast ps) := x] = butlast ps @ [x]" for ps :: "'z list" and x
      by (simp add: list_update_append)
    ultimately show ?thesis
      using alike_pages [OF h(5,4) a l(4) nz] i(5) l(7) [OF nz] ne by (metis append_butlast_last_id)
  qed
  ultimately show ?thesis using r(2) alike_kept [OF a] by blast
qed

text \<open>It does not fit, or there is no page yet: a new page starts with it.\<close>

lemma insert_new_page:
  assumes ok: "heap_at S bp" and room: "unat (next_pid (bp_disk bp)) < BFP_MAX_PAGE_NUM"
    and small: "record_small rc"
    and full: "pool_current_pid bp \<noteq> 0 \<Longrightarrow> \<not> record_fits (last_page bp) rc \<and>
      length (rc_data rc) < slot_lim (last_page bp) (slot_count (last_page bp))"
  shows "\<exists>bp'. heap_insert rc bp = Inr (True, bp') \<and> heap_at S bp' \<and>
    heap_pages bp' = heap_pages bp @ [[Some (rc_data rc)]] \<and> pool_kept bp bp'"
proof (cases "pool_current_pid bp = 0")
  case True
  from insert_fresh [OF ok room small] True show ?thesis
    by (auto simp: heap_insert_def Let_def)
next
  case False
  let ?p = "pool_current_pid bp"
  note l = heap_last [OF ok] and h = heap_atD [OF ok]
  from heap_fetch [OF ok l(4)] obtain f bp1 where
    f: "fetch ?p bp = Inr (Some f, bp1)" "heap_in S {?p} bp1" "map_of (bp_dir bp1) ?p = Some f"
      "pool_saved bp1 ?p" "pool_view bp1 ?p = last_page bp" "pool.alike S bp bp1 ?p (last_page bp)"
    unfolding last_page_def by blast
  have i: "insert_into f rc bp1 = Inr (False, bp1)"
    using insert_into_refused [OF heap_inD(1) [OF f(2)] f(3)] f(5) l(5) [OF False] full [OF False] by simp
  from heap_release [OF f(2), of False] f(4,5) l(4,5) alikeD(2) [OF f(6)] obtain bp2 where
    r: "unpin ?p False bp1 = Inr bp2" "heap_at S bp2" "pool.alike S bp1 bp2 ?p (last_page bp)" by auto
  have a: "pool.alike S bp bp2 ?p (pool_view bp ?p)"
    using pool.alike_trans [OF f(6) r(3)] by (simp add: last_page_def)
  have room2: "unat (next_pid (bp_disk bp2)) < BFP_MAX_PAGE_NUM" using room by (simp add: alikeD(4) [OF a])
  from insert_fresh [OF r(2) room2 small] obtain f2 idx bp3 bp4 bp5 where
    w: "new_page bp2 = Inr (Some (f2, idx), bp3)" "insert_into f2 rc bp3 = Inr (True, bp4)"
      "unpin idx True bp4 = Inr bp5" "heap_at S bp5"
      "heap_pages bp5 = heap_pages bp2 @ [[Some (rc_data rc)]]" "pool_kept bp2 bp5" by blast
  have "heap_insert rc bp = Inr (True, bp5)"
    using f(1) i r(1) l(3) False w(1-3) by (simp add: heap_insert_def Let_def)
  with w(4-6) alike_heap(2) [OF h(5,4) a] pool_kept_trans [OF alike_kept [OF a]] show ?thesis by auto
qed

text \<open>
  A record as long as the free end of the last page makes the check for space wrap: the insert
  writes outside the page.
\<close>

lemma insert_wraps:
  assumes ok: "heap_at S bp" and nz: "pool_current_pid bp \<noteq> 0"
    and big: "slot_lim (last_page bp) (slot_count (last_page bp)) \<le> length (rc_data rc)"
      "length (rc_data rc) < 2 ^ 63"
  shows "heap_insert rc bp = Inl Out_Of_Bounds"
proof -
  let ?p = "pool_current_pid bp"
  note l = heap_last [OF ok]
  from heap_fetch [OF ok l(4)] obtain f bp1 where
    f: "fetch ?p bp = Inr (Some f, bp1)" "heap_in S {?p} bp1" "map_of (bp_dir bp1) ?p = Some f"
      "pool_view bp1 ?p = last_page bp"
    unfolding last_page_def by blast
  note g = heap_inD(1) [OF f(2)]
  have "insert_into f rc bp1 = Inl Out_Of_Bounds"
    using open_rpage_wf [OF g f(3)] frame_page [OF g f(3)] f(4) l(5) [OF nz]
      insert_overflow [OF l(5) [OF nz] _ big]
    by (simp add: insert_into_def)
  with f(1) l(3) nz show ?thesis by (simp add: heap_insert_def Let_def)
qed

text \<open>
  What an insert does to the list of pages: the record goes to the last page when it fits, and
  starts a new page otherwise.
\<close>

definition pages_full :: "pool \<Rightarrow> bool" where
  "pages_full bp \<longleftrightarrow> [] \<notin> set (heap_pages bp)"

lemma heap_insert_pages:
  assumes ok: "heap_at S bp" and room: "unat (next_pid (bp_disk bp)) < BFP_MAX_PAGE_NUM"
    and small: "record_small rc"
    and below: "pool_current_pid bp \<noteq> 0 \<Longrightarrow>
      length (rc_data rc) < slot_lim (last_page bp) (slot_count (last_page bp))"
  shows "\<exists>bp'. heap_insert rc bp = Inr (True, bp') \<and> heap_at S bp' \<and> pool_kept bp bp' \<and>
    heap_pages bp' =
      (if heap_pages bp \<noteq> [] \<and> record_fits (last_page bp) rc
       then butlast (heap_pages bp) @ [last (heap_pages bp) @ [Some (rc_data rc)]]
       else heap_pages bp @ [[Some (rc_data rc)]])"
proof (cases "heap_pages bp \<noteq> [] \<and> record_fits (last_page bp) rc")
  case True
  with insert_last [OF ok] heap_last(6) [OF ok] show ?thesis by auto
next
  case False
  then have "pool_current_pid bp \<noteq> 0 \<Longrightarrow> \<not> record_fits (last_page bp) rc \<and>
      length (rc_data rc) < slot_lim (last_page bp) (slot_count (last_page bp))"
    using below heap_last(6) [OF ok] by blast
  from insert_new_page [OF ok room small this] False show ?thesis by auto
qed

lemma heap_insert_correct:
  assumes "heap_at S bp" "unat (next_pid (bp_disk bp)) < BFP_MAX_PAGE_NUM" "record_small rc"
    and "pool_current_pid bp \<noteq> 0 \<Longrightarrow>
      length (rc_data rc) < slot_lim (last_page bp) (slot_count (last_page bp))"
  shows "\<exists>bp'. heap_insert rc bp = Inr (True, bp') \<and> heap_at S bp' \<and>
    heap_slots bp' = heap_slots bp @ [Some (rc_data rc)] \<and> (pages_full bp \<longrightarrow> pages_full bp')"
proof -
  have c: "concat ps = concat (butlast ps) @ last ps" if "ps \<noteq> []" for ps :: "'z list list"
    using that by (metis append_butlast_last_id concat.simps concat_append append_Nil2)
  from heap_insert_pages [OF assms] obtain bp' where
    b: "heap_insert rc bp = Inr (True, bp')" "heap_at S bp'"
      "heap_pages bp' = (if heap_pages bp \<noteq> [] \<and> record_fits (last_page bp) rc
         then butlast (heap_pages bp) @ [last (heap_pages bp) @ [Some (rc_data rc)]]
         else heap_pages bp @ [[Some (rc_data rc)]])" by blast
  then have "heap_slots bp' = heap_slots bp @ [Some (rc_data rc)]"
    using c [of "heap_pages bp"] by (auto simp: heap_slots_def)
  moreover have "pages_full bp \<longrightarrow> pages_full bp'"
    using b(3) by (auto simp: pages_full_def dest: in_set_butlastD)
  ultimately show ?thesis using b(1,2) by blast
qed

end
