(* ===== verification/Heap_Scan.thy ===== *)
theory Heap_Scan
  imports Table_Heap
begin

text \<open>
  Removing a record from a heap and scanning it: what \<open>TableHeap::remove\<close> does to the list of slots
  and what the calls of \<open>RecordScanner::next\<close> return, one after the other.
\<close>

section \<open>Removing\<close>

lemma heap_remove_pages:
  assumes ok: "heap_at S bp" and v: "pool_valid bp (page_id r)" "page_id r \<noteq> 0"
  shows "\<exists>bp' b'. heap_remove r bp =
      Inr (unat (slot_id r) < length (page_slots bp (unat (page_id r))), bp') \<and> heap_at S bp' \<and>
    pool.alike S bp bp' (page_id r) b' \<and>
    slots_of b' = (page_slots bp (unat (page_id r)))[unat (slot_id r) := None]"
proof -
  let ?p = "page_id r" and ?b = "pool_view bp (page_id r)"
  note h = heap_atD [OF ok]
  have wf: "page_wf ?b" by (rule h(6) [OF v])
  from heap_fetch [OF ok v(1)] obtain f bp1 where
    f: "fetch ?p bp = Inr (Some f, bp1)" "heap_in S {?p} bp1" "map_of (bp_dir bp1) ?p = Some f"
      "pool_view bp1 ?p = ?b" "pool.alike S bp bp1 ?p ?b" by blast
  note g = heap_inD(1) [OF f(2)]
  note fr = frame_page [OF g f(3), unfolded f(4)]
  define hit where "hit = (unat (slot_id r) < slot_count ?b)"
  obtain b' where b': "rpage_remove r (rpage_of ?b) (bp_pages bp1 ! f) =
        Inr (hit, (bp_pages bp1 ! f)\<lparr>pg_buffer := b'\<rparr>)" "page_wf b'"
      "slots_of b' = (slots_of ?b)[unat (slot_id r) := None]"
  proof (cases hit)
    case True
    with remove_correct [OF wf fr(3), of r] that show ?thesis by (auto simp: hit_def)
  next
    case False
    then have "rpage_remove r (rpage_of ?b) (bp_pages bp1 ! f) =
        Inr (hit, (bp_pages bp1 ! f)\<lparr>pg_buffer := ?b\<rparr>)"
      using fr(3) by (simp add: rpage_remove_def no_slot_iff hit_def)
    with that [of ?b] wf False show ?thesis by (simp add: hit_def list_update_beyond)
  qed
  from pool.put_page [OF g _ f(3), of b'] b'(2) obtain bp2 where
    p: "put_data f b' bp1 = Inr bp2" "pool_held S bp2 {?p}" "pool.alike S bp1 bp2 ?p b'" by auto
  note a = pool.alike_trans [OF f(5) p(3)]
  have view: "pool_view bp2 ?p = b'" using alike_view [OF a v(1)] by simp
  from heap_release [OF heap_in_alike [OF f(2) p(2,3)], of True] view b'(2) alikeD(2) [OF a] v(1) obtain bp3 where
    r: "unpin ?p True bp2 = Inr bp3" "heap_at S bp3" "pool.alike S bp2 bp3 ?p b'" by auto
  have "heap_remove r bp = Inr (hit, bp3)"
    using f(1) open_rpage_wf [OF g f(3)] f(4) wf fr(1) b'(1) p(1) r(1)
    by (simp add: heap_remove_def)
  moreover have "page_slots bp (unat ?p) = slots_of ?b" by (simp add: page_slots_def)
  ultimately show ?thesis using r(2) b'(3) pool.alike_trans [OF a r(3)]
    by (intro exI [of _ bp3] exI [of _ b']) (simp add: hit_def)
qed

lemma heap_remove_correct:
  assumes ok: "heap_at S bp" and v: "pool_valid bp (page_id r)" "page_id r \<noteq> 0"
  shows "\<exists>bp'. heap_remove r bp =
      Inr (unat (slot_id r) < length (page_slots bp (unat (page_id r))), bp') \<and> heap_at S bp' \<and>
    pool_meta bp' = pool_meta bp \<and>
    (\<forall>k < unat (next_pid (bp_disk bp)). page_slots bp' k =
       (if k = unat (page_id r) then (page_slots bp k)[unat (slot_id r) := None] else page_slots bp k))"
  using heap_remove_pages [OF assms] alike_slots [OF heap_atD(5,4) [OF ok]] alikeD(1) by metis

section \<open>Scanning a page\<close>

definition live :: "'a option list \<Rightarrow> 'a list" where
  "live ss = List.map_filter id ss"

lemma live_simps [simp]:
  "live [] = []" "live (None # ss) = live ss" "live (Some d # ss) = d # live ss"
  "live (ss @ ts) = live ss @ live ts"
  by (simp_all add: live_def List.map_filter_def)

lemma live_Nil_iff: "live ss = [] \<longleftrightarrow> (\<forall>s \<in> set ss. s = None)"
  by (auto simp: live_def List.map_filter_def filter_empty_conv)

lemma next_slot_nat: "next_slot \<lparr>page_id = pid, slot_id = of_nat i\<rparr> = \<lparr>page_id = pid, slot_id = of_nat (Suc i)\<rparr>"
  by (simp add: next_slot_def add.commute)

lemma page_next_correct:
  assumes wf: "page_wf b" and p: "pg_buffer p = b" and i: "i \<le> slot_count b"
  shows "(live (drop i (slots_of b)) = [] \<and>
      (\<exists>rc'. page_next rpage_get rc r \<lparr>page_id = pid, slot_id = of_nat i\<rparr> (rpage_of b) p =
         Inr (OUT_OF_RANGE, rc', r, \<lparr>page_id = pid, slot_id = of_nat (slot_count b)\<rparr>))) \<or>
    (\<exists>d j. i \<le> j \<and> j < slot_count b \<and> slots_of b ! j = Some d \<and>
       live (drop i (slots_of b)) = d # live (drop (Suc j) (slots_of b)) \<and>
       page_next rpage_get rc r \<lparr>page_id = pid, slot_id = of_nat i\<rparr> (rpage_of b) p =
         Inr (SUCCESS, \<lparr>rc_is_deleted = False, rc_rid = \<lparr>page_id = pid, slot_id = of_nat j\<rparr>, rc_data = d\<rparr>,
           \<lparr>page_id = pid, slot_id = of_nat j\<rparr>, \<lparr>page_id = pid, slot_id = of_nat (Suc j)\<rparr>))"
  using i
proof (induction "slot_count b - i" arbitrary: i rc)
  case 0
  let ?r = "\<lparr>page_id = pid, slot_id = of_nat i\<rparr>"
  have e: "i = slot_count b" "unat (slot_id ?r) = slot_count b"
    using 0 slots_fit [OF wf] by simp_all
  then have "page_next rpage_get rc r ?r (rpage_of b) p = Inr (OUT_OF_RANGE, rc, r, ?r)"
    by (subst page_next.simps) (simp add: contain_correct [OF wf p] get_correct [OF wf p])
  with e(1) show ?case by simp
next
  case (Suc k)
  let ?r = "\<lparr>page_id = pid, slot_id = of_nat i\<rparr>"
  have lt: "i < slot_count b" using Suc(2,3) by simp
  then have u: "unat (of_nat i :: size_t) = i" using slots_fit(1) [OF wf] by (simp add: size_of_nat)
  have dr: "drop i (slots_of b) = slots_of b ! i # drop (Suc i) (slots_of b)"
    using lt by (metis Cons_nth_drop_Suc length_slots_of)
  show ?case
  proof (cases "slots_of b ! i")
    case (Some d)
    then have "page_next rpage_get rc r ?r (rpage_of b) p =
        Inr (SUCCESS, \<lparr>rc_is_deleted = False, rc_rid = ?r, rc_data = d\<rparr>, ?r, next_slot ?r)"
      using lt u by (subst page_next.simps) (simp add: contain_correct [OF wf p] get_correct [OF wf p])
    with Some lt dr show ?thesis by (auto simp: next_slot_nat)
  next
    case None
    have len: "length (rec_idx (rpage_of b)) = slot_count b" by (simp add: rpage_of_def)
    have step: "page_next rpage_get rc r ?r (rpage_of b) p =
        page_next rpage_get (rc\<lparr>rc_is_deleted := True\<rparr>) r (next_slot ?r) (rpage_of b) p"
      using lt u None slots_fit(1) [OF wf]
      by (subst page_next.simps) (simp add: contain_correct [OF wf p] get_correct [OF wf p] len)
    have same: "live (drop i (slots_of b)) = live (drop (Suc i) (slots_of b))"
      unfolding dr None by simp
    have "k = slot_count b - Suc i" "Suc i \<le> slot_count b" using Suc(2) lt by simp_all
    from Suc(1) [OF this, of "rc\<lparr>rc_is_deleted := True\<rparr>"] show ?thesis
      unfolding step next_slot_nat same by (elim disjE exE conjE) (blast dest: Suc_leD)+
  qed
qed

section \<open>Scanning the heap\<close>

text \<open>
  A scanner at slot \<open>i\<close> of page \<open>pid\<close>: the pool is the one the scan began with, but for the page
  the scanner has pinned.
\<close>

definition scanning :: "page_id set \<Rightarrow> pool \<Rightarrow> page_id \<Rightarrow> nat \<Rightarrow> scanner \<Rightarrow> pool \<Rightarrow> bool" where
  "scanning S bp0 pid i sc bp \<longleftrightarrow>
     heap_in S {pid} bp \<and> pool_saved bp pid \<and> pool.same bp0 bp \<and>
     (\<exists>f. map_of (bp_dir bp) pid = Some f \<and>
          sc = \<lparr>sc_rp = Some (rpage_of (pool_view bp0 pid), f),
                sc_next_rid = \<lparr>page_id = pid, slot_id = of_nat i\<rparr>\<rparr>)"

definition data_page :: "pool \<Rightarrow> page_id \<Rightarrow> bool" where
  "data_page bp pid \<longleftrightarrow> pool_valid bp pid \<and> pid \<noteq> 0"

lemma data_page_wf: "heap_at S bp \<Longrightarrow> data_page bp pid \<Longrightarrow> page_wf (pool_view bp pid)"
  by (simp add: heap_atD(6) data_page_def)

lemma sameD:
  assumes "pool.same bp bp'"
  shows "pool_meta bp' = pool_meta bp" "pool_valid bp' = pool_valid bp" "next_pid (bp_disk bp') = next_pid (bp_disk bp)"
    "pool_valid bp q \<Longrightarrow> pool_view bp' q = pool_view bp q" "dense bp' = dense bp" "bp_closed bp' = bp_closed bp"
proof -
  have a: "pool.alike {} bp bp' 0 (pool_view bp 0)" using assms by (simp add: pool.alike_same)
  show "pool_meta bp' = pool_meta bp" "pool_valid bp' = pool_valid bp" "next_pid (bp_disk bp') = next_pid (bp_disk bp)"
    "dense bp' = dense bp" "bp_closed bp' = bp_closed bp" by (rule alikeD [OF a])+
  show "pool_valid bp q \<Longrightarrow> pool_view bp' q = pool_view bp q" using assms by (simp add: pool.same_def)
qed

lemma same_pages:
  assumes "heap_at S bp" "pool.same bp bp'"
  shows "heap_pages bp' = heap_pages bp"
  using alike_heap(2) [OF heap_atD(5,4) [OF assms(1)]] pool.alike_same [of S bp bp' 0] assms(2) by blast

text \<open>Fetching a page of the heap and opening it puts a scanner at its first slot.\<close>

lemma scan_page_start:
  assumes ok: "heap_at S bp" and eq: "pool.same bp0 bp" and d: "data_page bp0 pid"
  shows "\<exists>f bp1. fetch pid bp = Inr (Some f, bp1) \<and>
    open_rpage f bp1 = Inr (rpage_of (pool_view bp0 pid), bp1) \<and>
    frame_at f bp1 = Inr (bp_pages bp1 ! f) \<and> pg_pid (bp_pages bp1 ! f) = pid \<and>
    pg_buffer (bp_pages bp1 ! f) = pool_view bp0 pid \<and>
    scanning S bp0 pid 0 \<lparr>sc_rp = Some (rpage_of (pool_view bp0 pid), f),
                          sc_next_rid = \<lparr>page_id = pid, slot_id = 0\<rparr>\<rparr> bp1"
proof -
  have d1: "data_page bp pid" "pool_view bp pid = pool_view bp0 pid"
    using d sameD(2,4) [OF eq] by (simp_all add: data_page_def)
  then have "pool_valid bp pid" by (simp add: data_page_def)
  from heap_fetch [OF ok this, unfolded pool.alike_same, unfolded d1(2)] obtain f bp1 where
    f: "fetch pid bp = Inr (Some f, bp1)" "heap_in S {pid} bp1" "map_of (bp_dir bp1) pid = Some f"
      "pool_saved bp1 pid" "pool_view bp1 pid = pool_view bp0 pid" "pool.same bp bp1" by blast
  have "page_wf (pool_view bp0 pid)" using data_page_wf [OF ok d1(1)] d1(2) by simp
  with open_rpage_wf [OF heap_inD(1) [OF f(2)] f(3)] f(5)
  have "open_rpage f bp1 = Inr (rpage_of (pool_view bp0 pid), bp1)" by simp
  with f pool.same_trans [OF eq f(6)] frame_page [OF heap_inD(1) [OF f(2)] f(3)]
  show ?thesis by (auto simp: scanning_def)
qed

lemma scanning_page:
  assumes s: "scanning S bp0 pid i sc bp" and d: "data_page bp0 pid"
  shows "\<exists>f. sc_rp sc = Some (rpage_of (pool_view bp0 pid), f) \<and>
    frame_at f bp = Inr (bp_pages bp ! f) \<and> pg_buffer (bp_pages bp ! f) = pool_view bp0 pid \<and>
    sc_next_rid sc = \<lparr>page_id = pid, slot_id = of_nat i\<rparr>"
  using s d frame_page(1,3) [OF heap_inD(1), of S _ bp pid] sameD(4) [of bp0 bp pid]
  by (auto simp: scanning_def data_page_def)

lemma scan_has_next_here:
  assumes ok: "heap_at S bp0" and d: "data_page bp0 pid" and s: "scanning S bp0 pid i sc bp"
    and i: "i \<le> slot_count (pool_view bp0 pid)"
  shows "scanner_page_has_next sc bp = Inr (i < slot_count (pool_view bp0 pid))"
proof -
  note wf = data_page_wf [OF ok d]
  have "unat (of_nat i :: size_t) = i" using slots_fit(1) [OF wf] i by (simp add: size_of_nat)
  with scanning_page [OF s d] contain_correct [OF wf] show ?thesis
    by (auto simp: scanner_page_has_next_def page_has_next_def)
qed

lemma next_pid_dense:
  assumes de: "dense bp" and lt: "unat pid < unat (next_pid (bp_disk bp))"
  shows "next_pid_after pid bp =
    Inr (if unat pid + 1 < unat (next_pid (bp_disk bp)) then Some (pid + 1) else None)"
proof -
  let ?m = "hd_bitmap (bp_head bp)" and ?n = "unat (next_pid (bp_disk bp))"
  have ids: "bm_members ?m = {..<?n}" using de by (simp add: dense_def pool_ids_def)
  have cap: "unat pid < length ?m * 8" using bm_members_bound [of "unat pid" ?m] ids lt by simp
  show ?thesis
  proof (cases "unat pid + 1 < ?n")
    case True
    then have "unat pid + 1 < length ?m * 8" using bm_members_bound [of "unat pid + 1" ?m] ids by simp
    then have "bm_scan ?m True (unat pid + 1) = Inr (Some (unat pid + 1))"
      using True ids by (simp add: bm_scan_Some)
    with True cap show ?thesis by (simp add: next_pid_after_def bm_first_after_def add.commute)
  next
    case False
    then have "bm_scan ?m True (unat pid + 1) = Inr None"
      using ids by (auto simp: bm_scan_None)
    with False cap show ?thesis by (simp add: next_pid_after_def bm_first_after_def)
  qed
qed

text \<open>At the end of a page the scanner lets it go \<dots>\<close>

lemma scan_release_page:
  assumes ok: "heap_at S bp0" and d: "data_page bp0 pid"
    and s: "scanning S bp0 pid (slot_count (pool_view bp0 pid)) sc bp"
  shows "\<exists>bp1. unpin pid False bp = Inr bp1 \<and> heap_at S bp1 \<and> let_go bp1 pid \<and> pool.same bp0 bp1"
    "scanner_page_has_next sc bp = Inr False" "page_id (sc_next_rid sc) = pid"
    "next_pid_after pid bp =
       Inr (if unat pid + 1 < unat (next_pid (bp_disk bp0)) then Some (pid + 1) else None)"
proof -
  have b: "heap_in S {pid} bp" "pool_saved bp pid" "pool.same bp0 bp"
    using s by (simp_all add: scanning_def)
  have v: "pool_valid bp pid" "page_wf (pool_view bp pid)"
    using d data_page_wf [OF ok d] sameD(2,4) [OF b(3)] by (simp_all add: data_page_def)
  from heap_release [OF b(1) v(1), of False] v(2) b(2) obtain bp1 where
    "unpin pid False bp = Inr bp1" "heap_at S bp1" "let_go bp1 pid" "pool.same bp bp1"
    unfolding pool.alike_same by blast
  with pool.same_trans [OF b(3)]
  show "\<exists>bp1. unpin pid False bp = Inr bp1 \<and> heap_at S bp1 \<and> let_go bp1 pid \<and> pool.same bp0 bp1"
    by blast
  show "scanner_page_has_next sc bp = Inr False" using scan_has_next_here [OF ok d s] by simp
  show "page_id (sc_next_rid sc) = pid" using scanning_page [OF s d] by auto
  show "next_pid_after pid bp =
      Inr (if unat pid + 1 < unat (next_pid (bp_disk bp0)) then Some (pid + 1) else None)"
    using next_pid_dense [OF heap_inD(4) [OF b(1)], of pid] v(1) sameD(3) [OF b(3)]
      dense_valid(1) [OF heap_inD(5,4) [OF b(1)]] by simp
qed

text \<open>\<dots> and moves to the next one, or is at the end.\<close>

lemma scan_leave_page:
  assumes ok: "heap_at S bp0" and d: "data_page bp0 pid"
    and s: "scanning S bp0 pid (slot_count (pool_view bp0 pid)) sc bp"
  shows "if unat pid + 1 < unat (next_pid (bp_disk bp0))
    then \<exists>sc' bp'. scanner_has_next sc bp =
           Inr (slot_count (pool_view bp0 (pid + 1)) > 0, sc', bp') \<and>
         data_page bp0 (pid + 1) \<and> scanning S bp0 (pid + 1) 0 sc' bp'
    else \<exists>bp'. scanner_has_next sc bp = Inr (False, sc, bp') \<and> heap_at S bp' \<and>
         let_go bp' pid \<and> pool.same bp0 bp'"
proof -
  note h0 = heap_atD [OF ok] and r = scan_release_page [OF ok d s]
  from r(1) obtain bp1 where
    r1: "unpin pid False bp = Inr bp1" "heap_at S bp1" "let_go bp1 pid" "pool.same bp0 bp1" by blast
  show ?thesis
  proof (cases "unat pid + 1 < unat (next_pid (bp_disk bp0))")
    case False
    then show ?thesis using r(2-4) r1 by (simp add: scanner_has_next_def)
  next
    case True
    have u: "unat (pid + 1) = unat pid + 1"
      using True unsigned_less [of "next_pid (bp_disk bp0)", where 'a = nat]
      by (simp add: unat_word_ariths(1))
    then have "pid + 1 \<noteq> 0" by (metis add_is_0 unat_0 zero_neq_one)
    then have d1: "data_page bp0 (pid + 1)"
      using True u by (simp add: data_page_def dense_valid(1) [OF h0(5,4)])
    let ?s = "\<lambda>f. \<lparr>sc_rp = Some (rpage_of (pool_view bp0 (pid + 1)), f),
                    sc_next_rid = \<lparr>page_id = pid + 1, slot_id = 0\<rparr>\<rparr>"
    from scan_page_start [OF r1(2,4) d1] obtain f bp2 where
      st: "fetch (pid + 1) bp1 = Inr (Some f, bp2)"
        "open_rpage f bp2 = Inr (rpage_of (pool_view bp0 (pid + 1)), bp2)"
        "scanning S bp0 (pid + 1) 0 (?s f) bp2" by blast
    then have "scanner_page_has_next (?s f) bp2 = Inr (slot_count (pool_view bp0 (pid + 1)) > 0)"
      using scan_has_next_here [OF ok d1 st(3)] by simp
    then have "scanner_has_next sc bp = Inr (slot_count (pool_view bp0 (pid + 1)) > 0, ?s f, bp2)"
      using r(2-4) r1(1) True st(1,2) by (simp add: scanner_has_next_def Let_def)
    with True d1 st(3) show ?thesis by auto
  qed
qed

section \<open>What the calls of next return\<close>

text \<open>
  The scan a client drives: \<open>next\<close> into a fresh record until it does not succeed (\<open>fuel\<close> bounds the
  number of calls).
\<close>

fun scan_all :: "nat \<Rightarrow> scanner \<Rightarrow> pool \<Rightarrow> (bytes list \<times> rc option \<times> scanner \<times> pool) res" where
  "scan_all 0 sc bp = Inr ([], None, sc, bp)"
| "scan_all (Suc fuel) sc bp =
     andthen (scanner_next rpage_get (rec_new []) rid_default sc bp) (\<lambda>(c, rc, _, sc1, bp1).
     if c = SUCCESS
     then andthen (scan_all fuel sc1 bp1) (\<lambda>(ds, c', sc2, bp2). Inr (rc_data rc # ds, c', sc2, bp2))
     else Inr ([], Some c, sc1, bp1))"

text \<open>
  What they return of a list of pages. A scan stops early in two cases: \<open>next\<close> gives up when the rest of a
  page is removed, and \<open>has_next\<close> looks at one page beyond the current one only, which must not be empty.
\<close>

fun scan_pages :: "'a option list list \<Rightarrow> 'a list" where
  "scan_pages [] = []"
| "scan_pages (ss # ps) = live ss @ (if ss = [] \<or> last ss = None then [] else scan_pages ps)"

text \<open>The first page may be empty.\<close>

fun scan_slots :: "'a option list list \<Rightarrow> 'a list" where
  "scan_slots [] = []"
| "scan_slots (ss # ps) = (if ss = [] then scan_pages ps else scan_pages (ss # ps))"

text \<open>Every page holds a record, and its last slot is not removed: then nothing is left out.\<close>

definition scannable :: "pool \<Rightarrow> bool" where
  "scannable bp \<longleftrightarrow> (\<forall>ss \<in> set (heap_pages bp). ss \<noteq> [] \<and> last ss \<noteq> None)"

lemma scan_pages_all: "\<forall>ss \<in> set ps. ss \<noteq> [] \<and> last ss \<noteq> None \<Longrightarrow> scan_pages ps = live (concat ps)"
  by (induction ps) auto

lemma scan_slots_all: "scannable bp \<Longrightarrow> scan_slots (heap_pages bp) = live (heap_slots bp)"
  using scan_pages_all [of "heap_pages bp"]
  by (cases "heap_pages bp") (auto simp: scannable_def heap_slots_def)

definition rest :: "pool \<Rightarrow> nat \<Rightarrow> nat \<Rightarrow> bytes list" where
  "rest bp k i =
     (let ss = drop i (page_slots bp k) in
      live ss @ (if ss \<noteq> [] \<and> last ss = None then []
                 else scan_pages (map (page_slots bp) [Suc k..<unat (next_pid (bp_disk bp))])))"

lemma data_page_nat:
  assumes "heap_at S bp" "data_page bp pid"
  shows "unat pid \<in> {1..<unat (next_pid (bp_disk bp))}" "of_nat (unat pid) = pid"
    "page_slots bp (unat pid) = slots_of (pool_view bp pid)"
    "slots_of (pool_view bp pid) \<in> set (heap_pages bp)"
proof -
  show n: "unat pid \<in> {1..<unat (next_pid (bp_disk bp))}"
    using assms dense_valid(1) [OF heap_atD(5,4)] by (auto simp: data_page_def Suc_le_eq unat_gt_0)
  show p: "page_slots bp (unat pid) = slots_of (pool_view bp pid)" by (simp add: page_slots_def)
  show "slots_of (pool_view bp pid) \<in> set (heap_pages bp)"
    using n unfolding p [symmetric] heap_pages_def by auto
qed simp

lemma scannable_rest:
  assumes "heap_at S bp" "scannable bp" "data_page bp pid" "i < slot_count (pool_view bp pid)"
  shows "live (drop i (slots_of (pool_view bp pid))) \<noteq> []"
proof -
  let ?ss = "slots_of (pool_view bp pid)"
  have "last ?ss \<noteq> None"
    using assms(2) data_page_nat(4) [OF assms(1,3)] unfolding scannable_def by blast
  moreover have "last ?ss \<in> set (drop i ?ss)"
    using assms(4) by (metis last_drop last_in_set length_drop length_slots_of list.size(3) not_less_iff_gr_or_eq
        zero_less_diff)
  ultimately show ?thesis by (auto simp: live_Nil_iff)
qed

lemma last_slot_behind:
  assumes "i \<le> j" "j < length ss" "ss ! j = Some d"
  shows "last (drop i ss) = None \<longleftrightarrow> drop (Suc j) ss \<noteq> [] \<and> last (drop (Suc j) ss) = None"
proof (cases "Suc j = length ss")
  case True
  with assms have "last ss = Some d" by (metis diff_Suc_1 last_conv_nth length_0_conv nat.distinct(1))
  with assms(1,2) True show ?thesis by simp
qed (use assms in simp)

text \<open>One call of \<open>next\<close>: a record, or the end of the scan on a page that is still pinned.\<close>

definition scan_stops :: "page_id set \<Rightarrow> pool \<Rightarrow> scanner \<Rightarrow> pool \<Rightarrow> bool" where
  "scan_stops S bp0 sc bp \<longleftrightarrow>
     \<not> scannable bp0 \<and> heap_in S {page_id (sc_next_rid sc)} bp \<and> pool_saved bp (page_id (sc_next_rid sc)) \<and> pool.same bp0 bp"

lemma scanning_stops: "scanning S bp0 pid i sc bp \<Longrightarrow> \<not> scannable bp0 \<Longrightarrow> scan_stops S bp0 sc bp"
  by (auto simp: scanning_def scan_stops_def)

lemma scan_next_here:
  assumes ok: "heap_at S bp0" and d: "data_page bp0 pid"
    and s: "scanning S bp0 pid i sc bp" and i: "i < slot_count (pool_view bp0 pid)"
    and h: "scanner_has_next sc' bp' = Inr (True, sc, bp)"
  obtains (found) dat j sc2 r2 where
    "scanner_next rpage_get (rec_new []) rid_default sc' bp' =
       Inr (SUCCESS, \<lparr>rc_is_deleted = False, rc_rid = r2, rc_data = dat\<rparr>, r2, sc2, bp)"
    "scanning S bp0 pid (Suc j) sc2 bp" "j < slot_count (pool_view bp0 pid)"
    "rest bp0 (unat pid) i = dat # rest bp0 (unat pid) (Suc j)"
  | (stops) rc' sc2 where
    "scanner_next rpage_get (rec_new []) rid_default sc' bp' = Inr (OUT_OF_RANGE, rc', rid_default, sc2, bp)"
    "scan_stops S bp0 sc2 bp" "rest bp0 (unat pid) i = []"
proof -
  let ?ss = "slots_of (pool_view bp0 pid)"
  note wf = data_page_wf [OF ok d] and n = data_page_nat [OF ok d]
  from scanning_page [OF s d] obtain f where
    f: "sc_rp sc = Some (rpage_of (pool_view bp0 pid), f)" "frame_at f bp = Inr (bp_pages bp ! f)"
      "pg_buffer (bp_pages bp ! f) = pool_view bp0 pid"
      "sc_next_rid sc = \<lparr>page_id = pid, slot_id = of_nat i\<rparr>" by blast
  let ?sc = "\<lambda>k. sc\<lparr>sc_next_rid := \<lparr>page_id = pid, slot_id = of_nat k\<rparr>\<rparr>"
  have moved: "scanning S bp0 pid k (?sc k) bp" for k using s by (auto simp: scanning_def)
  consider (none) rc' where "live (drop i ?ss) = []"
      "page_next rpage_get (rec_new []) rid_default \<lparr>page_id = pid, slot_id = of_nat i\<rparr>
         (rpage_of (pool_view bp0 pid)) (bp_pages bp ! f) =
       Inr (OUT_OF_RANGE, rc', rid_default, \<lparr>page_id = pid, slot_id = of_nat (slot_count (pool_view bp0 pid))\<rparr>)"
    | (some) dat j where "i \<le> j" "j < slot_count (pool_view bp0 pid)" "?ss ! j = Some dat"
      "live (drop i ?ss) = dat # live (drop (Suc j) ?ss)"
      "page_next rpage_get (rec_new []) rid_default \<lparr>page_id = pid, slot_id = of_nat i\<rparr>
         (rpage_of (pool_view bp0 pid)) (bp_pages bp ! f) =
       Inr (SUCCESS, \<lparr>rc_is_deleted = False, rc_rid = \<lparr>page_id = pid, slot_id = of_nat j\<rparr>, rc_data = dat\<rparr>,
         \<lparr>page_id = pid, slot_id = of_nat j\<rparr>, \<lparr>page_id = pid, slot_id = of_nat (Suc j)\<rparr>)"
    using page_next_correct [OF wf f(3) less_imp_le [OF i], where r = rid_default and rc = "rec_new []" and pid = pid] by blast
  then show thesis
  proof cases
    case none
    have "drop i ?ss \<noteq> []" "last (drop i ?ss) = None"
      using i none(1) last_in_set [of "drop i ?ss"] by (auto simp: live_Nil_iff)
    then have "rest bp0 (unat pid) i = []" using none(1) n(3) by (simp add: rest_def Let_def)
    moreover have "\<not> scannable bp0" using scannable_rest [OF ok _ d i] none(1) by blast
    ultimately show thesis
      using h f none(2) scanning_stops [OF moved]
      by (intro stops [of rc' "?sc (slot_count (pool_view bp0 pid))"]) (simp_all add: scanner_next_def)
  next
    case some
    have "last (drop i ?ss) = None \<longleftrightarrow> drop (Suc j) ?ss \<noteq> [] \<and> last (drop (Suc j) ?ss) = None"
      using last_slot_behind [OF some(1) _ some(3)] some(2) by simp
    then have "rest bp0 (unat pid) i = dat # rest bp0 (unat pid) (Suc j)"
      using some(1,2,4) n(3) by (auto simp: rest_def Let_def)
    with h f some(2,5) moved [of "Suc j"] show thesis
      by (intro found [of "\<lparr>page_id = pid, slot_id = of_nat j\<rparr>" dat "?sc (Suc j)" j])
        (simp_all add: scanner_next_def del: of_nat_Suc)
  qed
qed

lemma rest_end:
  assumes "heap_at S bp" "data_page bp pid" "\<not> unat pid + 1 < unat (next_pid (bp_disk bp))"
  shows "rest bp (unat pid) (slot_count (pool_view bp pid)) = []"
  using assms(3) data_page_nat [OF assms(1,2)] by (simp add: rest_def)

lemma rest_next_page:
  assumes "heap_at S bp" "data_page bp pid" "unat pid + 1 < unat (next_pid (bp_disk bp))" "data_page bp (pid + 1)"
  shows "rest bp (unat pid) (slot_count (pool_view bp pid)) =
    (if slot_count (pool_view bp (pid + 1)) = 0 then [] else rest bp (unat (pid + 1)) 0)"
proof -
  have u: "unat (pid + 1) = unat pid + 1"
    using assms(3) unsigned_less [of "next_pid (bp_disk bp)", where 'a = nat]
    by (simp add: unat_word_ariths(1))
  have "slots_of (pool_view bp (pid + 1)) = [] \<longleftrightarrow> slot_count (pool_view bp (pid + 1)) = 0"
    by (metis length_0_conv length_slots_of)
  with assms(3) u data_page_nat(3) [OF assms(1,2)] data_page_nat(3) [OF assms(1,4)] show ?thesis
    by (auto simp: rest_def Let_def upt_conv_Cons)
qed

text \<open>The call at the end of a page that is not the last one.\<close>

lemma scan_next_page:
  assumes ok: "heap_at S bp0" and d: "data_page bp0 pid"
    and s: "scanning S bp0 pid (slot_count (pool_view bp0 pid)) sc bp"
    and next_page: "unat pid + 1 < unat (next_pid (bp_disk bp0))"
  obtains (found) dat j sc2 r2 bp1 where "data_page bp0 (pid + 1)"
    "scanner_next rpage_get (rec_new []) rid_default sc bp =
       Inr (SUCCESS, \<lparr>rc_is_deleted = False, rc_rid = r2, rc_data = dat\<rparr>, r2, sc2, bp1)"
    "scanning S bp0 (pid + 1) (Suc j) sc2 bp1" "j < slot_count (pool_view bp0 (pid + 1))"
    "rest bp0 (unat pid) (slot_count (pool_view bp0 pid)) = dat # rest bp0 (unat (pid + 1)) (Suc j)"
  | (stops) rc' sc2 bp1 where
    "scanner_next rpage_get (rec_new []) rid_default sc bp = Inr (OUT_OF_RANGE, rc', rid_default, sc2, bp1)"
    "scan_stops S bp0 sc2 bp1" "rest bp0 (unat pid) (slot_count (pool_view bp0 pid)) = []"
proof -
  from scan_leave_page [OF ok d s] next_page obtain sc1 bp1 where
    l: "scanner_has_next sc bp = Inr (slot_count (pool_view bp0 (pid + 1)) > 0, sc1, bp1)"
      "data_page bp0 (pid + 1)" "scanning S bp0 (pid + 1) 0 sc1 bp1" by auto
  note r = rest_next_page [OF ok d next_page l(2)]
  show thesis
  proof (cases "slot_count (pool_view bp0 (pid + 1)) = 0")
    case True
    then have "slots_of (pool_view bp0 (pid + 1)) = []" by (metis length_0_conv length_slots_of)
    with data_page_nat(4) [OF ok l(2)] have "\<not> scannable bp0" unfolding scannable_def by metis
    with True l(1) r scanning_stops [OF l(3)] show thesis
      by (intro stops [of "rec_new []" sc1 bp1]) (simp_all add: scanner_next_def)
  next
    case False
    then have "0 < slot_count (pool_view bp0 (pid + 1))" "scanner_has_next sc bp = Inr (True, sc1, bp1)" using l(1) by simp_all
    from ok l(2,3) this show thesis
    proof (cases rule: scan_next_here)
      case (found dat j sc2 r2)
      with False r l(2) that(1) show thesis by simp
    next
      case (stops rc' sc2)
      with False r that(2) show thesis by simp
    qed
  qed
qed

text \<open>The scan from a position: it ends behind the last page, which it has let go, or stops on a page before.\<close>

definition scan_ends :: "page_id set \<Rightarrow> pool \<Rightarrow> scanner \<Rightarrow> pool \<Rightarrow> bool" where
  "scan_ends S bp0 sc bp \<longleftrightarrow>
     heap_at S bp \<and> let_go bp (page_id (sc_next_rid sc)) \<and> page_id (sc_next_rid sc) = pool_current_pid bp0 \<and> pool.same bp0 bp"

lemma scan_finish:
  assumes ok: "heap_at S bp0" and d: "data_page bp0 pid"
    and s: "scanning S bp0 pid (slot_count (pool_view bp0 pid)) sc bp"
    and last: "\<not> unat pid + 1 < unat (next_pid (bp_disk bp0))"
  shows "\<exists>bp'. scanner_next rpage_get (rec_new []) rid_default sc bp = Inr (OUT_OF_RANGE, rec_new [], rid_default, sc, bp') \<and>
    scan_ends S bp0 sc bp'"
proof -
  from scan_leave_page [OF ok d s] last obtain bp1 where
    l: "scanner_has_next sc bp = Inr (False, sc, bp1)" "heap_at S bp1" "let_go bp1 pid" "pool.same bp0 bp1" by auto
  moreover have "unat pid = unat (pool_current_pid bp0)"
    using last data_page_nat(1) [OF ok d] by (auto simp: heap_last(2) [OF ok])
  then have "page_id (sc_next_rid sc) = pool_current_pid bp0" "page_id (sc_next_rid sc) = pid"
    using scanning_page [OF s d] by (auto simp: word_unat_eq_iff)
  ultimately show ?thesis by (simp add: scanner_next_def scan_ends_def)
qed

lemma scan_all_from:
  assumes ok: "heap_at S bp0"
  shows "data_page bp0 pid \<Longrightarrow> scanning S bp0 pid i sc bp \<Longrightarrow>
    i \<le> slot_count (pool_view bp0 pid) \<Longrightarrow> length (rest bp0 (unat pid) i) < fuel \<Longrightarrow>
    \<exists>sc' bp'. scan_all fuel sc bp = Inr (rest bp0 (unat pid) i, Some OUT_OF_RANGE, sc', bp') \<and>
      (scan_ends S bp0 sc' bp' \<or> scan_stops S bp0 sc' bp')"
proof (induction fuel arbitrary: pid i sc bp)
  case (Suc fuel)
  note d = Suc.prems(1) and s = Suc.prems(2)
  consider (here) "i < slot_count (pool_view bp0 pid)"
    | (next_page) "i = slot_count (pool_view bp0 pid)" "unat pid + 1 < unat (next_pid (bp_disk bp0))"
    | (finish) "i = slot_count (pool_view bp0 pid)" "\<not> unat pid + 1 < unat (next_pid (bp_disk bp0))"
    using Suc.prems(3) by linarith
  then show ?case
  proof cases
    case here
    have h: "scanner_has_next sc bp = Inr (True, sc, bp)"
      using scan_has_next_here [OF ok d s] here by (simp add: scanner_has_next_def)
    from ok d s here h show ?thesis
    proof (cases rule: scan_next_here)
      case (found dat j sc2 r2)
      with Suc.IH [OF d found(2)] Suc.prems(4) show ?thesis by auto
    qed simp
  next
    case next_page
    from ok d s [unfolded next_page(1)] next_page(2) show ?thesis
    proof (cases rule: scan_next_page)
      case (found dat j sc2 r2 bp1)
      with Suc.IH [OF found(1,3)] Suc.prems(4) next_page(1) show ?thesis by auto
    qed (simp add: next_page(1))
  next
    case finish
    from scan_finish [OF ok d s [unfolded finish(1)] finish(2)] rest_end [OF ok d finish(2)] finish(1) show ?thesis by auto
  qed
qed simp

text \<open>A whole scan: the records of the heap that are not removed, in order.\<close>

lemma heap_scan_start:
  assumes ok: "heap_at S bp" and some: "pool_current_pid bp \<noteq> 0"
  shows "\<exists>s bp1. heap_scanner bp = Inr (SUCCESS, s, bp1) \<and> scanning S bp 1 0 s bp1"
    "data_page bp 1" "rest bp 1 0 = scan_slots (heap_pages bp)"
proof -
  note h = heap_atD [OF ok] and l = heap_last [OF ok]
  have two: "1 < unat (next_pid (bp_disk bp))"
    using l(6) some by (metis length_heap_pages length_greater_0_conv zero_less_diff)
  show v: "data_page bp 1"
    using dense_valid(1) [OF h(5,4), of 1] two by (simp add: data_page_def)
  have "pool.same bp bp" by (simp add: pool.same_def)
  from scan_page_start [OF ok this v] obtain f bp1 where
    st: "fetch 1 bp = Inr (Some f, bp1)" "open_rpage f bp1 = Inr (rpage_of (pool_view bp 1), bp1)"
      "frame_at f bp1 = Inr (bp_pages bp1 ! f)" "pg_pid (bp_pages bp1 ! f) = 1"
      "scanning S bp 1 0 \<lparr>sc_rp = Some (rpage_of (pool_view bp 1), f),
         sc_next_rid = \<lparr>page_id = 1, slot_id = 0\<rparr>\<rparr> bp1" by blast
  have "1 \<in> bm_members (hd_bitmap (bp_head bp))"
    using v by (simp add: data_page_def pool_valid_def pool_ids_def)
  then have "pool_contain 1 bp = Inr SUCCESS"
    using bm_members_bound [of 1] by (simp add: pool_contain_def bm_get_eq not_le)
  with st show "\<exists>s bp1. heap_scanner bp = Inr (SUCCESS, s, bp1) \<and> scanning S bp 1 0 s bp1"
    by (auto simp: heap_scanner_def scanner_init_def page_scanner_init_def)
  show "rest bp 1 0 = scan_slots (heap_pages bp)"
    using two by (simp add: rest_def Let_def heap_pages_def upt_conv_Cons)
qed

lemma heap_scan_returns:
  assumes ok: "heap_at S bp" and some: "pool_current_pid bp \<noteq> 0" and fuel: "length (scan_slots (heap_pages bp)) < fuel"
  shows "\<exists>s bp1 s2 bp2. heap_scanner bp = Inr (SUCCESS, s, bp1) \<and>
    scan_all fuel s bp1 = Inr (scan_slots (heap_pages bp), Some OUT_OF_RANGE, s2, bp2) \<and>
    heap_pages bp2 = heap_pages bp \<and> (scan_ends S bp s2 bp2 \<or> scan_stops S bp s2 bp2)"
proof -
  note st = heap_scan_start [OF ok some]
  from st(1) obtain s bp1 where s: "heap_scanner bp = Inr (SUCCESS, s, bp1)" "scanning S bp 1 0 s bp1" by blast
  from scan_all_from [OF ok st(2) s(2), of fuel] st(3) fuel obtain s2 bp2 where
    e: "scan_all fuel s bp1 = Inr (scan_slots (heap_pages bp), Some OUT_OF_RANGE, s2, bp2)"
      "scan_ends S bp s2 bp2 \<or> scan_stops S bp s2 bp2" by auto
  from e(2) have "pool.same bp bp2" by (auto simp: scan_ends_def scan_stops_def)
  with s(1) e same_pages [OF ok] show ?thesis by blast
qed

lemma heap_scan_correct:
  assumes ok: "heap_at S bp" and sc: "scannable bp" and some: "pool_current_pid bp \<noteq> 0"
    and fuel: "length (live (heap_slots bp)) < fuel"
  shows "\<exists>s bp1 s2 bp2. heap_scanner bp = Inr (SUCCESS, s, bp1) \<and>
    scan_all fuel s bp1 = Inr (live (heap_slots bp), Some OUT_OF_RANGE, s2, bp2) \<and>
    heap_at S bp2 \<and> heap_pages bp2 = heap_pages bp \<and> let_go bp2 (page_id (sc_next_rid s2)) \<and>
    page_id (sc_next_rid s2) = pool_current_pid bp \<and> pool.same bp bp2"
proof -
  note all = scan_slots_all [OF sc]
  from heap_scan_returns [OF ok some, of fuel] fuel obtain s bp1 s2 bp2 where
    "heap_scanner bp = Inr (SUCCESS, s, bp1)" "scan_all fuel s bp1 = Inr (live (heap_slots bp), Some OUT_OF_RANGE, s2, bp2)"
    "heap_pages bp2 = heap_pages bp" "scan_ends S bp s2 bp2 \<or> scan_stops S bp s2 bp2" unfolding all by blast
  with sc show ?thesis by (auto simp: scan_ends_def scan_stops_def)
qed

text \<open>
  The destructor of the scanner unpins the page the scan ended in once more. The heap is as before,
  but the count of that page is not to be trusted from then on.
\<close>

lemma scan_destroyed:
  assumes ok: "heap_at S bp" and g: "let_go bp (page_id (sc_next_rid sc))"
    and nz: "page_id (sc_next_rid sc) \<noteq> 0"
    and room: "card (insert (page_id (sc_next_rid sc)) S) < length (bp_pages bp)"
  shows "\<exists>bp'. scanner_destroy sc bp = Inr bp' \<and> heap_at (insert (page_id (sc_next_rid sc)) S) bp' \<and>
    pool.same bp bp'"
proof -
  let ?p = "page_id (sc_next_rid sc)"
  note h = heap_atD [OF ok]
  from held_unpin_again [OF h(1) _ g] obtain bp' where
    u: "unpin ?p False bp = Inr bp'" "pool_held (insert ?p S) bp' {}" "bp_head bp' = bp_head bp"
      "bp_disk bp' = bp_disk bp" "bp_closed bp' = bp_closed bp" "length (bp_pages bp') = length (bp_pages bp)"
      "pool_view bp' = pool_view bp" by auto
  have s: "pool.same bp bp'" using u by (simp add: pool.same_def pool_meta_def)
  have "heap_at (insert ?p S) bp'"
    using u(2,6,7) h nz room sameD(2,5) [OF s]
    by (auto simp: heap_at_def heap_in_def pool_room_def)
  with u(1) s show ?thesis by (simp add: scanner_destroy_def)
qed

text \<open>A scanner that is opened and never destroyed keeps the first page.\<close>

lemma scan_abandoned:
  assumes ok: "heap_at S bp" and some: "pool_current_pid bp \<noteq> 0" and room: "card (insert 1 S) < length (bp_pages bp)"
  shows "\<exists>s bp1. heap_scanner bp = Inr (SUCCESS, s, bp1) \<and> heap_at (insert 1 S) bp1 \<and> pool.same bp bp1"
proof -
  from heap_scan_start(1) [OF ok some] obtain s bp1 where
    s: "heap_scanner bp = Inr (SUCCESS, s, bp1)" "heap_in S {1} bp1" "pool_saved bp1 1" "pool.same bp bp1"
    by (auto simp: scanning_def)
  note h = heap_inD [OF s(2)] and h0 = heap_atD [OF ok] and v = heap_scan_start(2) [OF ok some]
  have "pool_held (insert 1 S) bp1 {}" using held_abandoned [of S bp1 1 "{}"] h(1) s(3) by simp
  moreover have "page_wf (pool_view bp1 pid)" if "pool_valid bp1 pid" "pid \<noteq> 0" for pid
    using that sameD(2,4) [OF s(4)] h0(6) [of pid] by simp
  ultimately have "heap_at (insert 1 S) bp1"
    using h(2-4) room sameD(1) [OF s(4)] by (auto simp: heap_at_def heap_in_def pool_room_def pool_meta_def)
  with s(1,4) show ?thesis by blast
qed

end
