(* ===== verification/Pool_Properties.thy ===== *)
theory Pool_Properties
  imports Heap_Scan
begin

text \<open>
  The properties of the buffer pool and of what it is made of: the file, the page ids, the
  replacement policy. Their instances are pools that were just opened on an empty file.
\<close>

section \<open>Instances\<close>

lemma change_correspondence_length:
  "change_correspondence f pid bp = Inr bp' \<Longrightarrow> length (bp_pages bp') = length (bp_pages bp)"
  using change_correspondence_frames [of f pid bp bp'] by (auto simp: reframed_def)

lemma fetch_length: "fetch pid bp = Inr (r, bp') \<Longrightarrow> length (bp_pages bp') = length (bp_pages bp)"
  using fetch_frames [of pid bp _ bp'] victim_frames [of bp]
  by (cases r) (auto simp: reframed_def, auto simp: fetch_def res_simps split: option.splits prod.splits)

lemma unpin_length: "unpin pid d bp = Inr bp' \<Longrightarrow> length (bp_pages bp') = length (bp_pages bp)"
  by (auto simp: unpin_def res_simps Let_def set_frame_def split: option.splits if_splits)

lemma pool_open_frames:
  assumes "pool_open f n = Inr bp"
  shows "length (bp_pages bp) = n"
proof -
  have "length (bp_pages (pool_blank n (disk_open f))) = n" by (simp add: pool_blank_def)
  moreover have "flush_page 0 b = Inr b' \<Longrightarrow> length (bp_pages b') = length (bp_pages b)" for b b'
    by (auto simp: flush_page_def res_simps split: option.splits)
  ultimately show ?thesis
    using assms unfolding pool_open_def pool_init_def
    by (auto simp: res_simps set_frame_def dest!: fetch_length unpin_length split: option.splits if_splits)
qed

lemma opened_pool:
  assumes "0 < n"
  shows "\<exists>bp. pool_open None n = Inr bp \<and> heap_ok bp \<and> heap_slots bp = [] \<and>
    heap_pages bp = [] \<and> length (bp_pages bp) = n \<and> unat (next_pid (bp_disk bp)) = 1 \<and> \<not> bp_closed bp \<and> map_of (bp_dir bp) 0 \<noteq> None \<and>
    pool_ids bp = {0} \<and> hd_phy_num (bp_head bp) = 1 \<and> pages_full bp \<and>
    (\<forall>q. page_ok q \<longrightarrow> q \<noteq> 0 \<longrightarrow> pool_view bp q = replicate PAGE_SIZE 0)"
proof -
  from opened_new [OF assms] obtain bp where
    b: "pool_open None n = Inr bp" "ready bp first_header (\<lambda>_. replicate PAGE_SIZE 0)"
      "alloc_ok bp" "dense bp" "pool_ids bp = {0}" by blast
  have nx: "unat (next_pid (bp_disk bp)) = 1"
    using b(2) by (simp add: ready_def first_header_def)
  have g: "pool_good bp" using b(2,3) by (simp add: ready_def pool_good_def)
  have len: "length (bp_pages bp) = n" by (rule pool_open_frames [OF b(1)])
  have "heap_ok bp"
  proof (rule heap_okI [OF g])
    show "bp_pages bp \<noteq> []" using len assms by auto
    show "page_wf (pool_view bp pid)" if "pool_valid bp pid" "pid \<noteq> 0" for pid
      using that b(5) by (simp add: pool_valid_def unat_eq_zero)
  qed (use b(2,4) in \<open>simp_all add: ready_def\<close>)
  with b nx len show ?thesis
    by (auto simp: heap_slots_def heap_pages_def pages_full_def ready_def first_header_def)
qed

lemma heap_grows:
  assumes ok: "heap_ok bp" and room: "unat (next_pid (bp_disk bp)) < BFP_MAX_PAGE_NUM"
  shows "\<exists>bp'. heap_ok bp' \<and> unat (next_pid (bp_disk bp')) = unat (next_pid (bp_disk bp)) + 1"
proof -
  have "record_small (rec_new [])" by (simp add: record_small_def rec_new_def PAGE_SIZE_def)
  from insert_fresh [OF ok room this] obtain bp' where
    b: "heap_ok bp'" "heap_pages bp' = heap_pages bp @ [[Some (rc_data (rec_new []))]]" by blast
  have "0 < unat (next_pid (bp_disk bp))" "0 < unat (next_pid (bp_disk bp'))"
    using heap_last(1) [OF ok] heap_last(1) [OF b(1)] by (simp_all add: unat_gt_0)
  moreover have "length (heap_pages bp') = length (heap_pages bp) + 1" using b(2) by simp
  ultimately have "unat (next_pid (bp_disk bp')) = unat (next_pid (bp_disk bp)) + 1"
    unfolding length_heap_pages by linarith
  with b(1) show ?thesis by blast
qed

lemma heap_of_size:
  assumes "1 \<le> n" "n \<le> BFP_MAX_PAGE_NUM"
  shows "\<exists>bp. heap_ok bp \<and> unat (next_pid (bp_disk bp)) = n"
  using assms
proof (induction n rule: dec_induct)
  case base
  from opened_pool [of 1] show ?case by auto
next
  case (step n)
  then obtain bp where "heap_ok bp" "unat (next_pid (bp_disk bp)) = n" by auto
  with heap_grows [of bp] step.prems show ?case by auto
qed

lemma first_page:
  "\<exists>bp f bp'. pool_open None 2 = Inr bp \<and> heap_ok bp \<and> new_page bp = Inr (Some (f, 1), bp') \<and>
     pool_step bp bp' \<and> created bp f 1 bp' \<and> pool_good bp'"
proof -
  from opened_pool [of 2] obtain bp where
    b: "pool_open None 2 = Inr bp" "heap_ok bp" "unat (next_pid (bp_disk bp)) = 1" by auto
  then have h: "pool_ok bp" "alloc_ok bp" "\<not> all_pinned bp" "dense bp"
    using heap_okD by (auto simp: pool_good_def)
  have room: "unat (next_pid (bp_disk bp)) \<le> BFP_MAX_PAGE_NUM"
    using b(3) by (simp add: BFP_MAX_PAGE_NUM_def PAGE_SIZE_def)
  from new_page_correct [OF h(1,2) room h(3)] obtain f idx bp' where
    n: "new_page bp = Inr (Some (f, idx), bp')" "created bp f idx bp'" by blast
  then obtain d where "choose_page_id bp = Inr (Some idx, bp\<lparr>bp_disk := d\<rparr>)"
    by (auto simp: created_def)
  with dense_choose(1) [OF h(2,4)] b(3) have "idx = 1" by (simp add: word_unat_eq_iff)
  moreover have "pool_good bp'" using n(2) by (simp add: created_def pool_good_def)
  ultimately show ?thesis using step_new [OF room n(1)] b(1,2) n by blast
qed

section \<open>Runs of the pool\<close>

text \<open>C10: Every state that well-behaved clients of a newly opened pool reach is consistent: the directory,
  the frames, the free list, the replacer and the file agree, the resident pages are allocated ones, and
  no page that nobody holds has changes that eviction would lose. Well-behaved clients fetch allocated
  pages whose pin count does not wrap, write and unpin only pages that are pinned, report a page they have
  changed as dirty when they let it go, ask for a new page only while ids are left, and flush whenever they
  like. (The destructor of a scanner is no such client: it unpins a page once too often, and the state it
  leaves is not consistent in this sense. \<open>Pool_Leak\<close> is about those states.)\<close>

theorem pool_runs_consistent:
  assumes "0 < n" "pool_open None n = Inr bp" "pool_reach bp bp'"
  shows "pool_ok bp' \<and> alloc_ok bp'"
proof -
  have "pool_ok bp" "alloc_ok bp"
    using opened_pool [OF assms(1)] assms(2) heap_okD(1) by (auto simp: pool_good_def)
  with pool_reach_ok [OF assms(3)] show ?thesis by blast
qed

theorem pool_runs_consistent_witness:
  "\<exists>bp bp' f. pool_open None 2 = Inr bp \<and> new_page bp = Inr (Some (f, 1), bp') \<and>
     pool_ok bp' \<and> alloc_ok bp'"
proof -
  from first_page obtain bp f bp' where
    b: "pool_open None 2 = Inr bp" "new_page bp = Inr (Some (f, 1), bp')" "pool_step bp bp'" by blast
  from reach_step [OF reach_refl b(3)] pool_runs_consistent [OF _ b(1)] b(1,2) show ?thesis by auto
qed

text \<open>C11: Only a write to a pinned page changes its content: whatever else happens in the pool (fetches
  that evict it, new pages, unpins, flushes), a page that was allocated reads as before.\<close>

theorem pool_step_keeps_pages:
  assumes "pool_step bp bp'" "pool_good bp" "pool_valid bp pid" "pool_view bp' pid \<noteq> pool_view bp pid"
  shows "\<exists>f bs. map_of (bp_dir bp) pid = Some f \<and> pool_pins bp pid \<noteq> 0 \<and>
    put_data f bs bp = Inr bp' \<and> pool_view bp' pid = bs"
  using assms
proof (induction rule: pool_step.induct)
  case (step_fetch q bp r bp')
  then have "page_ok q" using allocated_page_ok by (auto simp: pool_good_def)
  from fetch_correct [of bp q, OF _ this step_fetch(2)] step_fetch(3-6) show ?case
    by (auto simp: fetched_def pool_good_def pool_valid_def)
next
  case (step_new bp r bp')
  from new_page_total [of bp, OF _ _ step_new(1)] step_new(2-5) pool_ok_only(2) [of bp bp']
  show ?case by (auto simp: created_def pool_good_def pool_valid_def split: if_splits)
next
  case (step_write bp q f bs bp')
  from put_data_correct [of bp q f bs] step_write have "pool_view bp' = (pool_view bp)(q := bs)"
    by (auto simp: pool_good_def)
  with step_write show ?case by (cases "pid = q") auto
next
  case (step_unpin bp q is_dirty bp')
  from unpin_correct [of bp q is_dirty] step_unpin show ?case by (auto simp: pool_good_def)
next
  case (step_flush q bp bp')
  from flush_page_correct [of bp q] step_flush show ?case by (auto simp: pool_good_def pool_valid_def)
next
  case (step_flush_all bp bp')
  from flush_all_ok [of bp] step_flush_all show ?case by (auto simp: pool_good_def pool_valid_def)
qed

theorem pool_step_keeps_pages_witness:
  "\<exists>bp f bp1 bp2. pool_open None 2 = Inr bp \<and> new_page bp = Inr (Some (f, 1), bp1) \<and>
     put_data f (replicate PAGE_SIZE 7) bp1 = Inr bp2 \<and>
     (\<exists>f bs. map_of (bp_dir bp1) 1 = Some f \<and> pool_pins bp1 1 \<noteq> 0 \<and>
        put_data f bs bp1 = Inr bp2 \<and> pool_view bp2 1 = bs)"
proof -
  from first_page obtain bp f bp1 where
    b: "pool_open None 2 = Inr bp" "new_page bp = Inr (Some (f, 1), bp1)" "created bp f 1 bp1"
      "pool_good bp1" by blast
  then have c: "map_of (bp_dir bp1) 1 = Some f" "pool_pins bp1 1 = 1" "pool_valid bp1 1"
      "pool_view bp1 1 = replicate PAGE_SIZE 0"
    by (simp_all add: created_def valid_iff page_ok_def)
  from put_data_correct [of bp1 1 f "replicate PAGE_SIZE 7"] c b(4) obtain bp2 where
    p: "put_data f (replicate PAGE_SIZE 7) bp1 = Inr bp2"
      "pool_view bp2 = (pool_view bp1)(1 := replicate PAGE_SIZE 7)" by (auto simp: pool_good_def)
  have "pool_step bp1 bp2" by (rule step_write [OF c(1) _ _ p(1)]) (simp_all add: c)
  moreover have "pool_view bp2 1 \<noteq> pool_view bp1 1"
    using p(2) c(4) by (simp add: replicate_eq_replicate PAGE_SIZE_def)
  ultimately show ?thesis
    using pool_step_keeps_pages [OF _ b(4) c(3)] b(1,2) p(1) by blast
qed

text \<open>C19: Fetching an allocated page: either the page is not in the pool and every frame holds a page
  somebody has pinned, and nothing changes; or the frame that is returned holds the page's content,
  the page has one pin more, and neither the content of any page nor the pins of another change.\<close>

theorem fetch_reads_page:
  assumes "pool_good bp" "pool_valid bp pid" "pool_pins bp pid + 1 \<noteq> 0"
  shows "(fetch pid bp = Inr (None, bp) \<and> all_pinned bp \<and> map_of (bp_dir bp) pid = None) \<or>
    (\<exists>f bp'. fetch pid bp = Inr (Some f, bp') \<and> pool_good bp' \<and>
       frame_data f bp' = Inr (pool_view bp pid) \<and>
       pool_pins bp' = (pool_pins bp)(pid := pool_pins bp pid + 1) \<and>
       (\<forall>q. page_ok q \<longrightarrow> pool_view bp' q = pool_view bp q))"
proof -
  have h: "pool_ok bp" "alloc_ok bp" "page_ok pid" "unat pid \<in> pool_ids bp"
    using assms(1,2) by (auto simp: pool_good_def pool_valid_def)
  have "frame_data f bp' = Inr (pool_view bp pid) \<and> pool_good bp'" if "fetched bp pid f bp'" for f bp'
  proof -
    have g: "pool_good bp'" using that fetched_alloc [OF h(2) that h(4)]
      by (simp add: pool_good_def fetched_def)
    have m: "map_of (bp_dir bp') pid = Some f" using that by (simp add: fetched_def)
    with g frame_data_view [OF frame_at_resident m] that h(3) show ?thesis
      by (simp add: fetched_def pool_good_def)
  qed
  with fetch_correct [OF h(1,3) assms(3)] show ?thesis by (auto simp: fetched_def)
qed

theorem fetch_reads_page_witness:
  "\<exists>bp f bp'. pool_open None 2 = Inr bp \<and> fetch 0 bp = Inr (Some f, bp') \<and>
     frame_data f bp' = Inr (pool_view bp 0) \<and> pool_pins bp' = (\<lambda>_. 0)(0 := 1)"
proof -
  from opened_pool [of 2] obtain bp where
    b: "pool_open None 2 = Inr bp" "heap_ok bp" "map_of (bp_dir bp) 0 \<noteq> None" "pool_ids bp = {0}" by auto
  note h = heap_okD [OF b(2)]
  have "pool_valid bp 0" using b(4) by (simp add: pool_valid_def page_ok_def)
  from fetch_reads_page [OF h(1) this] h(2) b(1,3) show ?thesis by auto
qed

text \<open>C20: A new page: in a consistent pool with a frame that is not pinned and ids left, the call succeeds
  with an id that was not allocated; the page is allocated, pinned once and reads as zeros, every
  other page reads as before, and the pool stays consistent.\<close>

theorem new_page_fresh:
  assumes "pool_good bp" "unat (next_pid (bp_disk bp)) \<le> BFP_MAX_PAGE_NUM" "\<not> all_pinned bp"
  shows "\<exists>f idx bp'. new_page bp = Inr (Some (f, idx), bp') \<and> pool_good bp' \<and>
    unat idx \<notin> pool_ids bp \<and> pool_ids bp' = insert (unat idx) (pool_ids bp) \<and>
    pool_pins bp' = (pool_pins bp)(idx := 1) \<and> frame_data f bp' = Inr (replicate PAGE_SIZE 0) \<and>
    (\<forall>q. page_ok q \<longrightarrow> q \<noteq> idx \<longrightarrow> pool_view bp' q = pool_view bp q)"
proof -
  have h: "pool_ok bp" "alloc_ok bp" using assms(1) by (auto simp: pool_good_def)
  from new_page_correct [OF h assms(2,3)] obtain f idx bp' where
    n: "new_page bp = Inr (Some (f, idx), bp')" "created bp f idx bp'" by blast
  then have g: "pool_good bp'" "map_of (bp_dir bp') idx = Some f" "unat idx \<le> BFP_MAX_PAGE_NUM"
    by (simp_all add: created_def pool_good_def)
  then have "page_ok idx" by (simp add: page_ok_def BFP_MAX_PAGE_NUM_def PAGE_SIZE_def)
  with frame_data_view [OF frame_at_resident g(2)] n g(1) show ?thesis by (auto simp: created_def pool_good_def)
qed

theorem new_page_fresh_witness:
  "\<exists>bp f idx bp'. pool_open None 2 = Inr bp \<and> new_page bp = Inr (Some (f, idx), bp') \<and>
     pool_ids bp' = insert (unat idx) {0} \<and> frame_data f bp' = Inr (replicate PAGE_SIZE 0)"
proof -
  from opened_pool [of 2] obtain bp where
    b: "pool_open None 2 = Inr bp" "heap_ok bp" "unat (next_pid (bp_disk bp)) = 1" "pool_ids bp = {0}" by auto
  note h = heap_okD [OF b(2)]
  have "unat (next_pid (bp_disk bp)) \<le> BFP_MAX_PAGE_NUM"
    using b(3) by (simp add: BFP_MAX_PAGE_NUM_def PAGE_SIZE_def)
  from new_page_fresh [OF h(1) this h(5)] b(1,4) show ?thesis by auto
qed

section \<open>Closing and reopening\<close>

lemma close_held:
  assumes ok: "heap_at S bp" and op: "\<not> bp_closed bp" and room: "unat (next_pid (bp_disk bp)) \<le> BFP_MAX_PAGE_NUM"
  shows "\<exists>bp'. pool_close bp = Inr bp' \<and> bp_closed bp' \<and>
    header_page (bp_head bp) (disk_page (bp_disk bp') 0) \<and>
    (\<forall>q. page_ok q \<longrightarrow> q \<noteq> 0 \<longrightarrow> disk_page (bp_disk bp') q = pool_view bp q)"
proof -
  note h = heap_atD [OF ok]
  note s = pool_heldD [OF h(1)]
  have hd: "header_ok (bp_head bp)"
    using dense_header_ok [OF h(4)] h(4) room by (simp add: dense_def)
  have np: "\<not> all_pinned (settled bp)" using all_pinned_held [OF h(1)] h(2) by (auto simp: pool_room_def)
  have "pool_pins (settled bp) 0 = 0" using settled_pins [OF s(1), of 0] s(3) [of 0] h(3) by auto
  with close_correct [OF s(1)] op np hd settled_view [OF s(1)] s(6) obtain n where
    c: "pool_close (settled bp) = Inr n" "bp_closed n" "header_page (bp_head bp) (disk_page (bp_disk n) 0)"
      "\<forall>q. page_ok q \<longrightarrow> q \<noteq> 0 \<longrightarrow> disk_page (bp_disk n) q = pool_view bp q" by auto
  with close_settled [OF h(1,3) c(1)] show ?thesis by auto
qed

lemma reopened:
  assumes ok: "heap_at S bp" and op: "\<not> bp_closed bp"
    and room: "unat (next_pid (bp_disk bp)) \<le> BFP_MAX_PAGE_NUM" and m: "0 < m"
  shows "\<exists>bp' bp''. pool_close bp = Inr bp' \<and> bp_closed bp' \<and>
    pool_open (Some (db_file (bp_disk bp'))) m = Inr bp'' \<and> heap_ok bp'' \<and> \<not> bp_closed bp'' \<and>
    length (bp_pages bp'') = m \<and> pool_ids bp'' = pool_ids bp \<and> heap_pages bp'' = heap_pages bp \<and>
    (\<forall>q. page_ok q \<longrightarrow> q \<noteq> 0 \<longrightarrow> pool_view bp'' q = pool_view bp q)"
proof -
  note h = heap_atD [OF ok]
  from close_held [OF ok op room] obtain bp' where
    c: "pool_close bp = Inr bp'" "bp_closed bp'" "header_page (bp_head bp) (disk_page (bp_disk bp') 0)"
      "\<forall>q. page_ok q \<longrightarrow> q \<noteq> 0 \<longrightarrow> disk_page (bp_disk bp') q = pool_view bp q" by blast
  from open_existing [OF m c(3)] obtain bp'' where
    o: "pool_open (Some (db_file (bp_disk bp'))) m = Inr bp''"
      "ready bp'' (bp_head bp) (disk_page (bp_disk bp'))" by blast
  have r: "bp_head bp'' = bp_head bp" "next_pid (bp_disk bp'') = next_pid (bp_disk bp)"
    "pool_ok bp''" "pool_pins bp'' = (\<lambda>_. 0)" "\<not> bp_closed bp''"
    "\<And>q f. map_of (bp_dir bp'') q = Some f \<Longrightarrow> q = 0"
    "\<And>q. page_ok q \<Longrightarrow> q \<noteq> 0 \<Longrightarrow> pool_view bp'' q = pool_view bp q"
    using o(2) c(4) h(4) by (auto simp: ready_def dense_def)
  have ids: "pool_ids bp'' = pool_ids bp" by (simp add: pool_ids_def r(1))
  then have val: "pool_valid bp'' = pool_valid bp" by (simp add: fun_eq_iff pool_valid_def)
  have al: "alloc_ok bp''"
    using h(5) r(6) by (fastforce simp: alloc_ok_def ids r(2))
  have len: "length (bp_pages bp'') = m" by (rule pool_open_frames [OF o(1)])
  have "heap_ok bp''"
  proof (rule heap_okI)
    show "pool_good bp''" using al r(3) by (simp add: pool_good_def)
    show "dense bp''" using h(4) by (simp add: dense_def pool_ids_def r(1,2))
    show "bp_pages bp'' \<noteq> []" using len m by auto
    show "page_wf (pool_view bp'' pid)" if "pool_valid bp'' pid" "pid \<noteq> 0" for pid
      using h(6) [of pid] r(7) [of pid] that by (simp add: val pool_valid_def)
  qed (rule r(4))
  moreover have "page_slots bp'' k = page_slots bp k" if "k \<in> set [1..<unat (next_pid (bp_disk bp))]" for k
  proof -
    have lt: "k < unat (next_pid (bp_disk bp))" "0 < k" using that by simp_all
    note u = dense_valid(2) [OF h(5,4) lt(1)]
    then have "of_nat k \<noteq> (0 :: size_t)" using lt(2) by (metis less_not_refl2 unat_0)
    with r(7) [of "of_nat k"] dense_valid(1) [OF h(5,4), of "of_nat k"] u lt(1) show ?thesis
      by (simp add: page_slots_def pool_valid_def)
  qed
  then have "heap_pages bp'' = heap_pages bp"
    unfolding heap_pages_def r(2) by (rule map_cong [OF refl])
  ultimately show ?thesis using c(1,2) o(1) ids r(5,7) len by blast
qed

text \<open>C9: Closing a file and opening it again, with any number of frames, loses nothing: the same pages are
  allocated, and the heap holds the same records on the same pages. This holds also after scans whose
  destructors spoiled the pin counts of the pages of \<open>S\<close>; reopening forgets those.\<close>

theorem close_reopen_keeps_heap:
  assumes "heap_at S bp" "\<not> bp_closed bp" "unat (next_pid (bp_disk bp)) \<le> BFP_MAX_PAGE_NUM" "0 < m"
  shows "\<exists>bp' bp''. pool_close bp = Inr bp' \<and>
    pool_open (Some (db_file (bp_disk bp'))) m = Inr bp'' \<and> heap_ok bp'' \<and>
    pool_ids bp'' = pool_ids bp \<and> heap_pages bp'' = heap_pages bp \<and> heap_slots bp'' = heap_slots bp"
  using reopened [OF assms] by (auto simp: heap_slots_def)

theorem close_reopen_keeps_heap_witness:
  "\<exists>bp bp' bp''. pool_open None 2 = Inr bp \<and> pool_close bp = Inr bp' \<and>
     pool_open (Some (db_file (bp_disk bp'))) 3 = Inr bp'' \<and> pool_ids bp'' = {0}"
proof -
  from opened_pool [of 2] obtain bp where
    b: "pool_open None 2 = Inr bp" "heap_ok bp" "unat (next_pid (bp_disk bp)) = 1" "pool_ids bp = {0}"
      "\<not> bp_closed bp" by auto
  have "unat (next_pid (bp_disk bp)) \<le> BFP_MAX_PAGE_NUM"
    using b(3) by (simp add: BFP_MAX_PAGE_NUM_def PAGE_SIZE_def)
  from close_reopen_keeps_heap [OF b(2,5) this, of 3] b(1,4) show ?thesis by auto
qed

text \<open>The header of a file is read back as it was written: for a header whose bitmap has the length its
  counters stand for and fits the page, \<open>init\<close> on the page \<open>write2page\<close> left yields the header.\<close>

lemma header_roundtrip:
  assumes "length (pg_buffer p) = PAGE_SIZE" "header_ok h"
  shows "\<exists>p'. header_write2page h p = Inr p' \<and> header_init h0 p' = Inr (False, h, p') \<and> pg_dirty p'"
proof -
  from header_write_correct [OF assms(1), of h] assms(2) obtain b where
    b: "header_write2page h p = Inr (p\<lparr>pg_buffer := b, pg_dirty := True\<rparr>)" "length b = PAGE_SIZE"
      "le_word (chunk 0 8 b) = hd_page_num h" "le_word (chunk 8 8 b) = hd_phy_num h"
      "chunk 16 (length (hd_bitmap h)) b = hd_bitmap h" by (auto simp: header_ok_def)
  with header_read_back [OF b(2) _ assms(2) b(3-5)] assms(2) show ?thesis by (auto simp: header_ok_def)
qed

lemma header_roundtrip_instance:
  "\<exists>p'. header_write2page first_header blank_page = Inr p' \<and>
     header_init header_default p' = Inr (False, first_header, p')"
proof -
  have "header_ok first_header"
    by (simp add: header_ok_def first_header_def header_bitmap_size_def PAGE_SIZE_def)
  from header_roundtrip [OF _ this, of blank_page header_default] show ?thesis
    by (auto simp: blank_page_def)
qed

text \<open>C25: The last page id is one too many: when 8064 pages are allocated, \<open>new_page\<close> still succeeds, the
  bitmap becomes 1009 bytes long, and writing the header from then on runs over the end of the page.\<close>

theorem last_id_overflows_header:
  assumes "pool_good bp" "dense bp" "unat (next_pid (bp_disk bp)) = BFP_MAX_PAGE_NUM"
    "\<not> all_pinned bp" "length (pg_buffer p) = PAGE_SIZE"
  shows "\<exists>f bp'. new_page bp = Inr (Some (f, of_nat BFP_MAX_PAGE_NUM), bp') \<and>
    length (hd_bitmap (bp_head bp')) = BFP_BITMAP_MAX_SIZE + 1 \<and>
    header_write2page (bp_head bp') p = Inl Out_Of_Bounds"
proof -
  have h: "pool_ok bp" "alloc_ok bp" using assms(1) by (auto simp: pool_good_def)
  from new_page_correct [OF h _ assms(4)] assms(3) obtain f idx bp' where
    n: "new_page bp = Inr (Some (f, idx), bp')" "created bp f idx bp'" by auto
  then obtain d where "choose_page_id bp = Inr (Some idx, bp\<lparr>bp_disk := d\<rparr>)"
    by (auto simp: created_def)
  with dense_choose(1) [OF h(2) assms(2)] have i: "idx = next_pid (bp_disk bp)" by simp
  then have u: "unat idx = BFP_MAX_PAGE_NUM" using assms(3) by simp
  then have e: "idx = of_nat BFP_MAX_PAGE_NUM"
    by (simp add: word_unat_eq_iff size_of_nat BFP_MAX_PAGE_NUM_def PAGE_SIZE_def)
  have "length (hd_bitmap (bp_head bp)) = (BFP_MAX_PAGE_NUM + 7) div 8"
    using assms(2,3) by (simp add: dense_def)
  then have len: "length (hd_bitmap (bp_head bp')) = BFP_BITMAP_MAX_SIZE + 1"
    using n(2) u by (simp add: created_def BFP_BITMAP_MAX_SIZE_def BFP_MAX_PAGE_NUM_def PAGE_SIZE_def)
  then have "header_write2page (bp_head bp') p = Inl Out_Of_Bounds"
    by (intro header_write_overflow [OF assms(5)]) (simp add: BFP_BITMAP_MAX_SIZE_def PAGE_SIZE_def)
  with n(1) e len show ?thesis by auto
qed

theorem last_id_overflows_header_witness:
  "\<exists>bp f bp'. heap_ok bp \<and> new_page bp = Inr (Some (f, of_nat BFP_MAX_PAGE_NUM), bp') \<and>
     header_write2page (bp_head bp') blank_page = Inl Out_Of_Bounds"
proof -
  from heap_of_size [of BFP_MAX_PAGE_NUM] obtain bp where
    b: "heap_ok bp" "unat (next_pid (bp_disk bp)) = BFP_MAX_PAGE_NUM"
    by (auto simp: BFP_MAX_PAGE_NUM_def PAGE_SIZE_def)
  note h = heap_okD [OF b(1)]
  from last_id_overflows_header [OF h(1,3) b(2) h(5), of blank_page] b(1) show ?thesis
    by (auto simp: blank_page_def)
qed

section \<open>Deleting a page\<close>

lemma put_keeps_members:
  assumes "lru_inv s" "length (lru_order s) < lru_capacity s" "f \<in> set (lru_order s)"
  shows "\<exists>s'. lru_put g s = Inr s' \<and> f \<in> set (lru_order s')"
proof -
  from lru_put_correct [OF assms(1), of g] assms(2) obtain s' where s': "lru_put g s = Inr s'" by auto
  with lru.put_members(2) [OF assms(1,2) s'] assms(3) show ?thesis by auto
qed

text \<open>Fetching a resident page and letting it go keeps every other frame in the replacer.\<close>

lemma rewrite_header_keeps:
  assumes res: "map_of (bp_dir bp) 0 = Some g" "g < length (bp_pages bp)"
    "pg_pid (bp_pages bp ! g) = 0" "length (pg_buffer (bp_pages bp ! g)) = PAGE_SIZE"
    and lru: "lru_inv (bp_replacer bp)" "f \<in> set (lru_order (bp_replacer bp))" "f \<noteq> g"
      "g \<in> set (lru_order (bp_replacer bp)) \<or>
       length (lru_order (bp_replacer bp)) < lru_capacity (bp_replacer bp)"
    and fits: "16 + length (hd_bitmap (bp_head bp)) \<le> PAGE_SIZE"
  shows "\<exists>bp'. rewrite_header bp = Inr bp' \<and> bp_free_list bp' = bp_free_list bp \<and>
    f \<in> set (lru_order (bp_replacer bp'))"
proof -
  let ?p = "bp_pages bp ! g"
  from lru_remove_correct [OF lru(1), of g] obtain rep where
    rep: "lru_remove g (bp_replacer bp) = Inr rep" "lru_inv rep"
      "lru_order rep = remove1 g (lru_order (bp_replacer bp))"
      "lru_capacity rep = lru_capacity (bp_replacer bp)" by blast
  have f: "f \<in> set (lru_order rep)" using rep(3) lru(2,3) by simp
  have "length (lru_order (bp_replacer bp)) \<le> lru_capacity (bp_replacer bp)"
    "0 < length (lru_order (bp_replacer bp))"
    using lru.order_bound [OF lru(1)] length_pos_if_in_set [OF lru(2)] by simp_all
  then have "length (lru_order (bp_replacer bp)) - 1 < lru_capacity (bp_replacer bp)"
    by linarith
  then have room: "length (lru_order rep) < lru_capacity rep"
    using lru(4) by (auto simp: rep(3,4) length_remove1)
  obtain rep2 where put: "lru_put g rep = Inr rep2" "f \<in> set (lru_order rep2)"
    using put_keeps_members [OF rep(2) room f] by blast
  define bp1 where "bp1 = (set_frame g (?p\<lparr>pg_pin_count := pg_pin_count ?p + 1\<rparr>) bp)\<lparr>bp_replacer := rep\<rparr>"
  have b1: "fetch 0 bp = Inr (Some g, bp1)"
    using res(1,2) rep(1) by (simp add: fetch_def frame_at_def bp1_def)
  have s1: "bp_dir bp1 = bp_dir bp" "bp_head bp1 = bp_head bp" "bp_replacer bp1 = rep"
    "bp_free_list bp1 = bp_free_list bp" "length (bp_pages bp1) = length (bp_pages bp)"
    "bp_pages bp1 ! g = ?p\<lparr>pg_pin_count := pg_pin_count ?p + 1\<rparr>"
    using res(2) by (simp_all add: bp1_def)
  obtain b where w: "header_write2page (bp_head bp) (bp_pages bp1 ! g) =
      Inr ((bp_pages bp1 ! g)\<lparr>pg_buffer := b, pg_dirty := True\<rparr>)"
    using header_write_correct [of "bp_pages bp1 ! g" "bp_head bp"] s1(6) res(4) fits by auto
  have "rewrite_header bp = unpin 0 True (set_frame g ((bp_pages bp1 ! g)\<lparr>pg_buffer := b, pg_dirty := True\<rparr>) bp1)"
    using b1 w s1 res(2,3) by (simp add: rewrite_header_def frame_at_def)
  then show ?thesis
    using res(1,2) s1 put f by (auto simp: unpin_def frame_at_def Let_def)
qed

text \<open>C26: Deleting a resident page that nobody holds puts its frame into the free list but leaves it in
  the replacer: two later allocations can be given the same frame.\<close>

theorem delete_page_duplicates_frame:
  assumes "pool_good bp" "header_ok (bp_head bp)"
    "map_of (bp_dir bp) pid = Some f" "pool_pins bp pid = 0" "pid \<noteq> 0"
    "map_of (bp_dir bp) 0 = Some g" "pid < hd_phy_num (bp_head bp)"
  shows "\<exists>bp'. delete_page pid bp = Inr bp' \<and> f \<in> set (bp_free_list bp') \<and>
    f \<in> set (lru_order (bp_replacer bp'))"
proof -
  have h: "pool_ok bp" "alloc_ok bp" using assms(1) by (auto simp: pool_good_def)
  note inv = pool_okD [OF h(1)]
  note df = dir_okD [OF inv(4) assms(3)] and dg = dir_okD [OF inv(4) assms(6)]
  have fg: "f \<noteq> g" using dir_inj [OF inv(4) assms(3)] assms(5,6) by auto
  have "unat pid \<in> pool_ids bp" using h(2) assms(3) by (auto simp: alloc_ok_def)
  then have "unat pid < length (hd_bitmap (bp_head bp)) * 8"
    by (auto simp: pool_ids_def dest: bm_members_bound)
  then obtain bm where bm: "bm_set (hd_bitmap (bp_head bp)) (unat pid) False = Inr bm"
    "length bm = length (hd_bitmap (bp_head bp))"
    using bm_set_defined bm_set_shape(1) by metis
  define bp3 where "bp3 = drop_page_num
    ((set_frame f (page_clear_all (bp_pages bp ! f)) (bp\<lparr>bp_head := (bp_head bp)\<lparr>hd_bitmap := bm\<rparr>\<rparr>))
       \<lparr>bp_free_list := f # bp_free_list bp, bp_dir := AList.delete pid (bp_dir bp)\<rparr>)"
  have "\<not> pid \<ge> hd_phy_num (bp_head bp)" using assms(7) by simp
  then have del: "delete_page pid bp = rewrite_header bp3"
    using assms(3) df bm(1) by (simp add: delete_page_def frame_at_def bp3_def Let_def)
  have fresh: "f \<notin> set (bp_free_list bp)" by (rule resident_not_free [OF h(1) assms(3)])
  have "pg_pin_count (bp_pages bp ! f) = 0" using assms(3,4) by (simp add: pool_pins_def)
  then have lf: "f \<in> set (lru_order (bp_replacer bp))" using inv(7) [of f] df(2) fresh by simp
  have "g \<in> set (lru_order (bp_replacer bp)) \<or>
      length (lru_order (bp_replacer bp)) < lru_capacity (bp_replacer bp)"
    using replacer_room [OF h(1) dg(2)] by blast
  moreover have "map_of (bp_dir bp3) 0 = Some g"
    using assms(5,6) by (simp add: bp3_def drop_page_num_def delete_conv')
  moreover have "16 + length (hd_bitmap (bp_head bp3)) \<le> PAGE_SIZE"
    using assms(2) bm(2) by (simp add: bp3_def drop_page_num_def header_ok_def)
  ultimately obtain bp' where "rewrite_header bp3 = Inr bp'" "bp_free_list bp' = bp_free_list bp3"
    "f \<in> set (lru_order (bp_replacer bp'))"
    using rewrite_header_keeps [of bp3 g f] dg fg inv(1) lf frames_okD [OF inv(3) dg(2)]
    by (auto simp: bp3_def drop_page_num_def)
  with del show ?thesis by (auto simp: bp3_def drop_page_num_def)
qed

text \<open>A pool of two frames that hold the header page and page 1, neither of them pinned.\<close>

definition idle_page :: "page_id \<Rightarrow> page" where
  "idle_page pid = \<lparr>pg_buffer = replicate PAGE_SIZE 0, pg_pid = pid, pg_pin_count = 0, pg_dirty = True\<rparr>"

definition idle_pool :: pool where
  "idle_pool =
     \<lparr>bp_dir = [(0, 0), (1, 1)], bp_free_list = [], bp_pages = [idle_page 0, idle_page 1],
      bp_replacer = \<lparr>lru_list = [(0, 0), (1, 1)], lru_dir = [(0, Some 0), (1, Some 1)],
                     lru_capacity = 2, lru_fresh = 2\<rparr>,
      bp_disk = \<lparr>db_file = [], next_pid = 2\<rparr>,
      bp_head = \<lparr>hd_page_num = 2, hd_phy_num = 2, hd_bitmap = [3]\<rparr>, bp_closed = False\<rparr>"

lemma bit_3: "bit (3 :: byte) k \<longleftrightarrow> k < 2"
proof -
  have m: "(3 :: byte) = mask 2" by (simp add: mask_eq_exp_minus_1)
  show ?thesis unfolding m bit_mask_iff by auto
qed

lemma bitmap_3: "bm_members [3] = {0, 1}"
proof (rule set_eqI)
  fix i
  have "i \<in> bm_members [3] \<longleftrightarrow> i < 8 \<and> bit (3 :: byte) i"
    by (auto simp: bm_members_def)
  then show "i \<in> bm_members [3] \<longleftrightarrow> i \<in> {0, 1}" unfolding bit_3 by auto
qed

lemma idle_pool_good: "pool_good idle_pool"
proof -
  have dir: "map_of (bp_dir idle_pool) pid = Some f \<longleftrightarrow> pid = 0 \<and> f = 0 \<or> pid = 1 \<and> f = 1" for pid f
    by (auto simp: idle_pool_def)
  have "pool_saved idle_pool pid" for pid
    using dir [of pid] by (auto simp: pool_saved_def idle_pool_def idle_page_def split: option.split)
  moreover have "lru_inv (bp_replacer idle_pool)"
    by (auto simp: lru_inv_def idle_pool_def dir_points_def split: if_splits)
  moreover have "dir_ok (bp_dir idle_pool) (bp_pages idle_pool)"
    unfolding dir_ok_def dir by (auto simp: idle_pool_def idle_page_def page_ok_def)
  moreover have "map_of (bp_dir idle_pool) (pg_pid (bp_pages idle_pool ! f)) = Some f" if "f < 2" for f
    using that by (auto simp: idle_pool_def idle_page_def less_2_cases_iff)
  moreover have "f \<in> set (lru_order (bp_replacer idle_pool)) \<longleftrightarrow>
      f < 2 \<and> pg_pin_count (bp_pages idle_pool ! f) = 0" for f
    by (auto simp: idle_pool_def idle_page_def lru_order_def less_2_cases_iff)
  moreover have "length (bp_pages idle_pool) = 2" "bp_free_list idle_pool = []"
    "lru_capacity (bp_replacer idle_pool) = 2" "frames_ok (bp_pages idle_pool)"
    by (simp_all add: idle_pool_def idle_page_def frames_ok_def)
  ultimately have "pool_ok idle_pool"
    unfolding pool_ok_def by (simp add: free_ok_def)
  moreover have "alloc_ok idle_pool"
    unfolding alloc_ok_def dir
    by (simp add: idle_pool_def pool_ids_def bitmap_3 BFP_MAX_PAGE_NUM_def PAGE_SIZE_def)
  ultimately show ?thesis by (simp add: pool_good_def)
qed

theorem delete_page_duplicates_frame_witness:
  "\<exists>bp'. delete_page 1 idle_pool = Inr bp' \<and> 1 \<in> set (bp_free_list bp') \<and>
     1 \<in> set (lru_order (bp_replacer bp'))"
  by (rule delete_page_duplicates_frame [OF idle_pool_good, where g = 0])
    (simp_all add: idle_pool_def idle_page_def header_ok_def header_bitmap_size_def pool_pins_def PAGE_SIZE_def)

section \<open>The file, the page ids, the replacement policy\<close>

text \<open>What is written to a page of the file is read back, and no other page changes.\<close>

lemma disk_read_after_write:
  assumes "page_ok pid" "length src = PAGE_SIZE"
  shows "\<exists>d'. write_page pid src d = Inr d' \<and>
    read_page pid (replicate PAGE_SIZE 0) d' = src \<and>
    (\<forall>q. page_ok q \<longrightarrow> q \<noteq> pid \<longrightarrow>
       read_page q (replicate PAGE_SIZE 0) d' = read_page q (replicate PAGE_SIZE 0) d)"
proof -
  from disk.write_total [OF assms(1)] obtain d' where d': "write_page pid src d = Inr d'" by blast
  with disk.read_after_write [OF assms d'] disk.page_write [OF assms(1) _ assms(2) d'] show ?thesis
    by (simp add: disk.read_blank)
qed

lemma disk_read_after_write_instance:
  "\<exists>d'. write_page 2 (replicate PAGE_SIZE 7) (disk_open None) = Inr d' \<and>
     read_page 2 (replicate PAGE_SIZE 0) d' = replicate PAGE_SIZE 7"
  using disk_read_after_write [of 2 "replicate PAGE_SIZE 7" "disk_open None"]
  by (auto simp: page_ok_def)

text \<open>The search for a page id: \<open>first_after\<close> never fails, and yields the least position beyond the
  current one that holds the wanted bit, or nothing when there is none.\<close>

lemma bitmap_first_after:
  "\<exists>r. bm_first_after data b cur = Inr r \<and>
     (case r of
        Some k \<Rightarrow> cur < k \<and> k < length data * 8 \<and> (k \<in> bm_members data) = b \<and>
                  (\<forall>j. cur < j \<and> j < k \<longrightarrow> (j \<in> bm_members data) \<noteq> b)
      | None \<Rightarrow> \<forall>j. cur < j \<and> j < length data * 8 \<longrightarrow> (j \<in> bm_members data) \<noteq> b)"
proof (cases "length data * 8 \<le> cur")
  case True
  then show ?thesis by (auto simp: bm_first_after_def)
next
  case False
  then have eq: "bm_first_after data b cur = bm_scan data b (Suc cur)" by (simp add: bm_first_after_def)
  from bm_scan_total [of data b "Suc cur"] obtain r where r: "bm_scan data b (Suc cur) = Inr r" by blast
  then show ?thesis
    unfolding eq
    by (intro exI [of _ r], cases r) (auto simp: bm_scan_None bm_scan_Some Suc_le_eq)
qed

lemma bitmap_first_after_instance: "bm_first_after [3] True 0 = Inr (Some 1)"
proof -
  from bitmap_first_after [of "[3]" True 0] obtain r where
    r: "bm_first_after [3] True 0 = Inr r"
      "case r of
         Some k \<Rightarrow> 0 < k \<and> k < length [3 :: byte] * 8 \<and> (k \<in> bm_members [3]) = True \<and>
                   (\<forall>j. 0 < j \<and> j < k \<longrightarrow> (j \<in> bm_members [3]) \<noteq> True)
       | None \<Rightarrow> \<forall>j. 0 < j \<and> j < length [3 :: byte] * 8 \<longrightarrow> (j \<in> bm_members [3]) \<noteq> True"
    by blast
  then have "r = Some 1" by (cases r) (auto simp: bitmap_3)
  with r(1) show ?thesis by simp
qed

text \<open>C28: After any series of puts into an empty replacer of capacity \<open>cap\<close>, the replacer holds the most
  recently put elements, at most \<open>cap\<close> of them, and the next victim is the oldest of those.\<close>

theorem lru_keeps_recent:
  fixes ts :: "'a list"
  assumes "0 < cap"
  shows "\<exists>s. each lru_put ts (lru_new cap) = Inr s \<and> lru_inv s \<and>
    lru_order s = take cap (rev (remdups ts)) \<and>
    fst (lru_victim s) =
      (if ts = [] then None else Some (last (take cap (rev (remdups ts)))))"
proof -
  have "lru_capacity (lru_new cap :: 'a lru) = cap" by (simp add: lru_new_def)
  with lru.puts_recency [of "lru_new cap" ts] assms obtain s where
    s: "each lru_put ts (lru_new cap) = Inr s" "lru_inv s" "lru_order s = take cap (rev (remdups ts))"
    by auto
  have ne: "ts = [] \<longleftrightarrow> lru_order s = []" using s(3) assms by auto
  have "fst (lru_victim s) = (if ts = [] then None else Some (last (lru_order s)))"
  proof (cases "ts = []")
    case True
    with lru_victim_correct(1) [OF s(2)] ne show ?thesis by simp
  next
    case False
    with lru_victim_correct(2) [OF s(2)] ne show ?thesis by auto
  qed
  with s show ?thesis by simp
qed

theorem lru_keeps_recent_witness:
  "\<exists>s. each lru_put [1, 2, 1, 3 :: nat] (lru_new 2) = Inr s \<and> lru_order s = [3, 1] \<and>
     fst (lru_victim s) = Some 1"
  using lru_keeps_recent [of 2 "[1, 2, 1, 3 :: nat]"] by auto

text \<open>C29: Touching an element makes its directory entry point at the node that was in front before: after a
  touch of the older of two elements, removing it removes the other one.\<close>

theorem lru_touch_misdirects:
  assumes "a \<noteq> b"
  shows "\<exists>s s1 s2. each lru_put [a, b] (lru_new 2) = Inr s \<and> lru_touch a s = Inr (True, s1) \<and>
    lru_order s1 = [a, b] \<and> lru_remove a s1 = Inr s2 \<and> lru_order s2 = [a]"
  using assms
  by (simp add: lru_put_def lru_new_def list_push_front_def dir_emplace_def list_begin_def lru_touch_def
      list_erase_def lru_remove_def lru_order_def Let_def)

theorem lru_touch_misdirects_witness:
  "\<exists>s s1 s2. each lru_put [1, 2 :: nat] (lru_new 2) = Inr s \<and> lru_touch 1 s = Inr (True, s1) \<and>
     lru_order s1 = [1, 2] \<and> lru_remove 1 s1 = Inr s2 \<and> lru_order s2 = [1]"
  using lru_touch_misdirects [of "1 :: nat" 2] by simp

end
