(* ===== verification/Storage_Properties.thy ===== *)
theory Storage_Properties
  imports Pool_Properties
begin

text \<open>
  The properties of the table heap and of the record pages it is made of, each with a concrete
  instance where it has hypotheses: a heap that was just opened, one that holds one record.
\<close>

section \<open>Concrete heaps\<close>

lemma one_record_heap:
  "\<exists>bp. heap_ok bp \<and> heap_pages bp = [[Some [65]]] \<and> pool_current_pid bp \<noteq> 0 \<and>
     length (bp_pages bp) = 16"
proof -
  from opened_pool [of 16] obtain bp where
    b: "heap_ok bp" "heap_pages bp = []" "unat (next_pid (bp_disk bp)) = 1" "length (bp_pages bp) = 16" by auto
  have "pool_current_pid bp = 0" using heap_last(6) [OF b(1)] b(2) by simp
  with heap_insert_pages [OF b(1), of "rec_new [65]"] b obtain bp' where
    i: "heap_ok bp'" "heap_pages bp' = [[Some [65]]]" "pool_kept bp bp'"
    by (auto simp: record_small_def rec_new_def PAGE_SIZE_def BFP_MAX_PAGE_NUM_def)
  with heap_last(6) [OF i(1)] b(4) show ?thesis by (auto simp: pool_kept_def)
qed

lemma scannable_live:
  assumes "pages_full bp" "\<forall>s \<in> set (heap_slots bp). s \<noteq> None"
  shows "scannable bp"
  unfolding scannable_def
proof
  fix ss assume ss: "ss \<in> set (heap_pages bp)"
  then have ne: "ss \<noteq> []" using assms(1) by (auto simp: pages_full_def)
  moreover have "last ss \<in> set (heap_slots bp)" using ss last_in_set [OF ne] by (auto simp: heap_slots_def)
  ultimately show "ss \<noteq> [] \<and> last ss \<noteq> None" using assms(2) by blast
qed

section \<open>The table heap\<close>

text \<open>C7: Inserting a record whose bytes are shorter than the free end of the last page succeeds and
  appends it to the heap: the record goes to the last page when it fits and starts a new page
  otherwise, so that the list of slots is the old one followed by the record; the heap is well
  formed again. Pages whose pin counts were spoiled by earlier scans (\<open>S\<close>) do not matter.\<close>

theorem heap_insert_appends:
  assumes "heap_at S bp" "unat (next_pid (bp_disk bp)) < BFP_MAX_PAGE_NUM" "record_small rc"
    and "pool_current_pid bp \<noteq> 0 \<Longrightarrow>
      length (rc_data rc) < slot_lim (last_page bp) (slot_count (last_page bp))"
  shows "\<exists>bp'. heap_insert rc bp = Inr (True, bp') \<and> heap_at S bp' \<and>
    heap_slots bp' = heap_slots bp @ [Some (rc_data rc)] \<and>
    heap_pages bp' =
      (if heap_pages bp \<noteq> [] \<and> record_fits (last_page bp) rc
       then butlast (heap_pages bp) @ [last (heap_pages bp) @ [Some (rc_data rc)]]
       else heap_pages bp @ [[Some (rc_data rc)]])"
  using heap_insert_pages [OF assms] heap_insert_correct [OF assms] by auto

theorem heap_insert_appends_witness:
  "\<exists>bp bp'. pool_open None 16 = Inr bp \<and> heap_insert (rec_new [65]) bp = Inr (True, bp') \<and>
     heap_slots bp' = [Some [65]]"
proof -
  from opened_pool [of 16] obtain bp where
    b: "pool_open None 16 = Inr bp" "heap_ok bp" "heap_slots bp = []"
      "unat (next_pid (bp_disk bp)) = 1" by auto
  have "pool_current_pid bp = 0" using heap_last(2) [OF b(2)] b(4) by (simp add: unat_eq_zero)
  with heap_insert_appends [OF b(2), of "rec_new [65]"] b show ?thesis
    by (auto simp: record_small_def rec_new_def PAGE_SIZE_def BFP_MAX_PAGE_NUM_def)
qed

text \<open>C8: Scanning a heap with a page: a fresh scanner opens, the calls of \<open>next\<close> return the records of
  \<open>scan_slots\<close>, in heap order, and then the code for the end; the pages are as before. Page by page these
  are the records that were not removed, up to the first page that ends in a removed one or is followed
  by an empty page: there the scan stops early. When there is no such page, they are all records that were
  not removed, and the scan leaves no page of the heap pinned.\<close>

theorem heap_scan_returns_live:
  assumes "heap_at S bp" "pool_current_pid bp \<noteq> 0" "length (scan_slots (heap_pages bp)) < fuel"
  shows "\<exists>s bp1 s2 bp2. heap_scanner bp = Inr (SUCCESS, s, bp1) \<and>
    scan_all fuel s bp1 = Inr (scan_slots (heap_pages bp), Some OUT_OF_RANGE, s2, bp2) \<and>
    heap_pages bp2 = heap_pages bp \<and>
    (scannable bp \<longrightarrow> scan_slots (heap_pages bp) = live (heap_slots bp) \<and> heap_at S bp2)"
  using heap_scan_returns [OF assms] scan_slots_all [of bp] by (auto simp: scan_ends_def scan_stops_def)

text \<open>A heap of one record.\<close>

theorem heap_scan_returns_live_witness:
  "\<exists>bp s bp1 s2 bp2. heap_slots bp = [Some [65]] \<and> heap_scanner bp = Inr (SUCCESS, s, bp1) \<and>
     scan_all 2 s bp1 = Inr ([[65]], Some OUT_OF_RANGE, s2, bp2)"
proof -
  from one_record_heap obtain bp where
    b: "heap_ok bp" "heap_pages bp = [[Some [65]]]" "pool_current_pid bp \<noteq> 0" by blast
  then have "heap_slots bp = [Some [65]]" "scan_slots (heap_pages bp) = [[65]]" by (simp_all add: heap_slots_def)
  with heap_scan_returns_live [OF b(1,3), of 2] show ?thesis by auto
qed

text \<open>
  What an early stop leaves out: the pages behind one that ends in a removed record, and those behind an
  empty one.
\<close>

lemma scan_stops_early:
  "scan_slots [[Some a, None], [Some b]] = [a]" "scan_slots [[Some a], [], [Some b]] = [a]"
  "scan_slots [[None, Some a], [Some b, None]] = [a, b]"
  by simp_all

text \<open>C23: Removing a record clears its slot, and nothing else: the answer says whether the page has the
  slot, and every other slot of every page is as before.\<close>

theorem heap_remove_clears:
  assumes "heap_at S bp" "pool_valid bp (page_id r)" "page_id r \<noteq> 0"
  shows "\<exists>bp'. heap_remove r bp =
      Inr (unat (slot_id r) < length (page_slots bp (unat (page_id r))), bp') \<and> heap_at S bp' \<and>
    (\<forall>k < unat (next_pid (bp_disk bp)). page_slots bp' k =
       (if k = unat (page_id r) then (page_slots bp k)[unat (slot_id r) := None] else page_slots bp k))"
  using heap_remove_correct [OF assms] by blast

theorem heap_remove_clears_witness:
  "\<exists>bp bp'. heap_slots bp = [Some [65]] \<and>
     heap_remove \<lparr>page_id = 1, slot_id = 0\<rparr> bp = Inr (True, bp') \<and> page_slots bp' 1 = [None]"
proof -
  from one_record_heap obtain bp where
    b: "heap_ok bp" "heap_pages bp = [[Some [65]]]" "pool_current_pid bp \<noteq> 0" by blast
  note h = heap_atD [OF b(1)]
  have "length (heap_pages bp) = 1" by (simp add: b(2))
  then have two: "1 < unat (next_pid (bp_disk bp))" by simp
  then have one: "page_slots bp 1 = [Some [65]]" using heap_pages_nth [of 0 bp] b(2) by simp
  have "pool_valid bp 1" using dense_valid(1) [OF h(5,4), of 1] two by simp
  moreover have "heap_slots bp = [Some [65]]" using b(2) by (simp add: heap_slots_def)
  ultimately show ?thesis
    using heap_remove_clears [OF b(1), of "\<lparr>page_id = 1, slot_id = 0\<rparr>"] one two by auto
qed

text \<open>C24: A record at least as long as the free end of the last page makes the check for space wrap
  around: the insert is not refused and writes outside the page.\<close>

theorem heap_insert_overflows:
  assumes "heap_at S bp" "pool_current_pid bp \<noteq> 0"
    and "slot_lim (last_page bp) (slot_count (last_page bp)) \<le> length (rc_data rc)"
    and "length (rc_data rc) < 2 ^ 63"
  shows "heap_insert rc bp = Inl Out_Of_Bounds"
  by (rule insert_wraps [OF assms])

theorem heap_insert_overflows_witness:
  "\<exists>bp. heap_slots bp = [Some [65]] \<and> heap_insert (rec_new (replicate 1024 0)) bp = Inl Out_Of_Bounds"
proof -
  from one_record_heap obtain bp where
    b: "heap_ok bp" "heap_pages bp = [[Some [65]]]" "pool_current_pid bp \<noteq> 0" by blast
  have "slot_lim (last_page bp) (slot_count (last_page bp)) \<le> 1024"
    using slot_lim_mono [OF heap_last(5) [OF b(1,3)], of 0] by (simp add: PAGE_SIZE_def)
  moreover have "heap_slots bp = [Some [65]]" using b(2) by (simp add: heap_slots_def)
  ultimately show ?thesis
    using heap_insert_overflows [OF b(1,3), of "rec_new (replicate 1024 0)"] by (auto simp: rec_new_def)
qed

text \<open>C27: A scan driven to its end and then destroyed unpins the last page a second time: its pin count
  wraps below zero, so that it does not say any more how many clients hold the page. The heap itself
  is as before, up to this count.\<close>

theorem scan_leaks_page:
  assumes "heap_ok bp" "scannable bp" "pool_current_pid bp \<noteq> 0" "1 < length (bp_pages bp)"
    and "length (live (heap_slots bp)) < fuel"
  shows "\<exists>s bp1 ds c s2 bp2 bp3 p. heap_scanner bp = Inr (SUCCESS, s, bp1) \<and>
    scan_all fuel s bp1 = Inr (ds, c, s2, bp2) \<and> scanner_destroy s2 bp2 = Inr bp3 \<and>
    p = page_id (sc_next_rid s2) \<and> p = pool_current_pid bp \<and> pool_pins bp3 p = - 1 \<and> heap_at {p} bp3 \<and>
    heap_pages bp3 = heap_pages bp"
proof -
  from heap_scan_correct [OF assms(1-3,5)] obtain s bp1 s2 bp2 where
    r: "heap_scanner bp = Inr (SUCCESS, s, bp1)"
      "scan_all fuel s bp1 = Inr (live (heap_slots bp), Some OUT_OF_RANGE, s2, bp2)"
      "heap_ok bp2" "heap_pages bp2 = heap_pages bp" "let_go bp2 (page_id (sc_next_rid s2))" "pool.same bp bp2"
      "page_id (sc_next_rid s2) = pool_current_pid bp" by blast
  have len: "length (bp_pages bp2) = length (bp_pages bp)"
    using sameD(1) [OF r(6)] by (simp add: pool_meta_def)
  note h = heap_atD [OF r(3)]
  have nz: "page_id (sc_next_rid s2) \<noteq> 0" using r(7) assms(3) by simp
  from scan_destroyed [OF r(3,5) nz] assms(4) len obtain bp3 where
    d: "scanner_destroy s2 bp2 = Inr bp3" "heap_at {page_id (sc_next_rid s2)} bp3" "pool.same bp2 bp3" by auto
  have "pool_pins bp3 (page_id (sc_next_rid s2)) = - 1"
    using held_unpin_again [OF h(1) _ r(5)] d(1) heap_okD(2) [OF r(3)] by (auto simp: scanner_destroy_def)
  with r(1,2,4,7) d same_pages [OF r(3) d(3)] show ?thesis by auto
qed

theorem scan_leaks_page_witness:
  "\<exists>bp s bp1 ds c s2 bp2 bp3. heap_slots bp = [Some [65]] \<and>
    heap_scanner bp = Inr (SUCCESS, s, bp1) \<and> scan_all 2 s bp1 = Inr (ds, c, s2, bp2) \<and>
    scanner_destroy s2 bp2 = Inr bp3 \<and> pool_pins bp3 (page_id (sc_next_rid s2)) = - 1"
proof -
  from one_record_heap obtain bp where
    b: "heap_ok bp" "heap_pages bp = [[Some [65]]]" "pool_current_pid bp \<noteq> 0" "length (bp_pages bp) = 16" by blast
  then have "heap_slots bp = [Some [65]]" "scannable bp" by (simp_all add: heap_slots_def scannable_def)
  with scan_leaks_page [OF b(1) _ b(3), of 2] b(4) show ?thesis by auto
qed

section \<open>Record pages\<close>

text \<open>C21: What an insert into a well-formed page does, on every branch: the record that fits below the
  free end gets the next slot and the page stays well formed with the other slots as they were; one
  that does not fit is refused and changes nothing; one at least as long as the free end writes
  outside the page.\<close>

theorem rpage_insert_cases:
  assumes "page_wf b" "pg_buffer p = b" "length (rc_data rc) < 2 ^ 63"
  shows "if slot_lim b (slot_count b) \<le> length (rc_data rc)
    then rpage_insert rc r (rpage_of b) p = Inl Out_Of_Bounds
    else if record_fits b rc
    then \<exists>b'. rpage_insert rc r (rpage_of b) p =
           Inr (True, \<lparr>page_id = pg_pid p, slot_id = of_nat (slot_count b)\<rparr>, rpage_of b', p\<lparr>pg_buffer := b'\<rparr>) \<and>
         page_wf b' \<and> slots_of b' = slots_of b @ [Some (rc_data rc)]
    else rpage_insert rc r (rpage_of b) p = Inr (False, r, rpage_of b, p)"
  using insert_overflow [OF assms(1,2) _ assms(3)] insert_fits [OF assms(1,2), of rc r]
    insert_refused [OF assms(1), of rc r p]
  by (simp add: record_fits_def)

definition empty_page :: bytes where
  "empty_page = page_formatted (replicate PAGE_SIZE 0)"

lemma empty_page_wf: "page_wf empty_page" "slots_of empty_page = []" "slot_count empty_page = 0"
  using formatted_unused [OF zeros_unused] length_slots_of [of empty_page]
  by (simp_all add: empty_page_def)

theorem rpage_insert_cases_witness:
  "\<exists>b'. rpage_insert (rec_new [65]) rid_default (rpage_of empty_page) (blank_page\<lparr>pg_buffer := empty_page\<rparr>) =
      Inr (True, \<lparr>page_id = INVALID_ID, slot_id = 0\<rparr>, rpage_of b', blank_page\<lparr>pg_buffer := b'\<rparr>) \<and>
    page_wf b' \<and> slots_of b' = [Some [65]]"
  using rpage_insert_cases [OF empty_page_wf(1), of "blank_page\<lparr>pg_buffer := empty_page\<rparr>" "rec_new [65]" rid_default]
  by (simp add: empty_page_wf record_fits_def rec_new_def PAGE_SIZE_def blank_page_def)

text \<open>C22: Reopening the page an insert left: the header read back from the bytes is the one the insert
  kept in memory, and a get of the returned rid yields the record that was inserted.\<close>

theorem rpage_insert_get:
  assumes "page_wf b" "pg_buffer p = b" "length (rc_data rc) < slot_lim b (slot_count b)" "record_fits b rc"
  shows "\<exists>r' rp' p'. rpage_insert rc r (rpage_of b) p = Inr (True, r', rp', p') \<and>
    rpage_init p' = Inr (rp', p') \<and> rpage_contain r' rp' p' = Inr SUCCESS \<and>
    rpage_get rc0 r' rp' p' = Inr (True, rc0\<lparr>rc_data := rc_data rc, rc_is_deleted := False, rc_rid := r'\<rparr>)"
proof -
  from insert_fits [OF assms(1,2), of rc r] assms(4) obtain b' where
    i: "rpage_insert rc r (rpage_of b) p =
      Inr (True, \<lparr>page_id = pg_pid p, slot_id = of_nat (slot_count b)\<rparr>, rpage_of b', p\<lparr>pg_buffer := b'\<rparr>)"
      "page_wf b'" "slots_of b' = slots_of b @ [Some (rc_data rc)]"
    by (auto simp: record_fits_def)
  have "slot_count b' = slot_count b + 1" using i(3) by (metis length_slots_of length_append_singleton Suc_eq_plus1)
  moreover have "slots_of b' ! slot_count b = Some (rc_data rc)" using i(3) by (metis length_slots_of nth_append_length)
  ultimately show ?thesis
    using i init_correct [OF i(2), of "p\<lparr>pg_buffer := b'\<rparr>"] slots_fit(2) [OF assms(1)]
      contain_correct [OF i(2), of "p\<lparr>pg_buffer := b'\<rparr>"] get_correct [OF i(2), of "p\<lparr>pg_buffer := b'\<rparr>"]
    by (simp del: slots_of_nth)
qed

theorem rpage_insert_get_witness:
  "\<exists>r' rp' p'. rpage_insert (rec_new [65]) rid_default (rpage_of empty_page) (blank_page\<lparr>pg_buffer := empty_page\<rparr>) =
      Inr (True, r', rp', p') \<and> rpage_init p' = Inr (rp', p') \<and>
    rpage_get (rec_new []) r' rp' p' = Inr (True, (rec_new [])\<lparr>rc_data := [65], rc_is_deleted := False, rc_rid := r'\<rparr>)"
  using rpage_insert_get [OF empty_page_wf(1), of "blank_page\<lparr>pg_buffer := empty_page\<rparr>" "rec_new [65]" rid_default "rec_new []"]
  by (auto simp: empty_page_wf record_fits_def rec_new_def PAGE_SIZE_def blank_page_def)

text \<open>Removing an existing slot leaves a well-formed page whose slot reads as deleted from then on:
  contain and get say so; a slot the page does not have is not removed.\<close>

lemma rpage_remove_get:
  assumes "page_wf b" "pg_buffer p = b"
  shows "if unat (slot_id r) < slot_count b
    then \<exists>b'. rpage_remove r (rpage_of b) p = Inr (True, p\<lparr>pg_buffer := b'\<rparr>) \<and> page_wf b' \<and>
         slots_of b' = (slots_of b)[unat (slot_id r) := None] \<and>
         rpage_contain r (rpage_of b') (p\<lparr>pg_buffer := b'\<rparr>) = Inr RECORD_IS_DELETED \<and>
         rpage_get rc r (rpage_of b') (p\<lparr>pg_buffer := b'\<rparr>) = Inr (False, rc\<lparr>rc_is_deleted := True\<rparr>)
    else rpage_remove r (rpage_of b) p = Inr (False, p)"
proof (cases "unat (slot_id r) < slot_count b")
  case True
  from remove_correct [OF assms True] obtain b' where
    b': "rpage_remove r (rpage_of b) p = Inr (True, p\<lparr>pg_buffer := b'\<rparr>)" "page_wf b'"
      "slots_of b' = (slots_of b)[unat (slot_id r) := None]" by blast
  have "slot_count b' = slot_count b" using b'(3) by (metis length_slots_of length_list_update)
  moreover have "slots_of b' ! unat (slot_id r) = None" using b'(3) True by simp
  ultimately show ?thesis
    using True b' contain_correct [OF b'(2), of "p\<lparr>pg_buffer := b'\<rparr>" r]
      get_correct [OF b'(2), of "p\<lparr>pg_buffer := b'\<rparr>" rc r]
    by (simp del: slots_of_nth) (rule exI [of _ b'], simp)
next
  case False
  then show ?thesis by (simp add: rpage_remove_def no_slot_iff)
qed

lemma rpage_remove_get_instance:
  "rpage_remove \<lparr>page_id = 0, slot_id = 3\<rparr> (rpage_of empty_page) (blank_page\<lparr>pg_buffer := empty_page\<rparr>) =
     Inr (False, blank_page\<lparr>pg_buffer := empty_page\<rparr>)"
  using rpage_remove_get [OF empty_page_wf(1), of "blank_page\<lparr>pg_buffer := empty_page\<rparr>" "\<lparr>page_id = 0, slot_id = 3\<rparr>"]
  by (simp add: empty_page_wf)

end
