(* ===== verification/Float32.thy ===== *)
theory Float32
  imports Tadis_Base
begin

text \<open>
  The C++ types \<open>float\<close>, \<open>long\<close> and \<open>int\<close> as the SQL values use them. A \<open>float\<close> is its IEEE
  binary32 pattern, a 32-bit word; its magnitude is counted in units of \<open>2 ^ -149\<close>, the smallest
  positive number, so that all arithmetic is on naturals. A \<open>long\<close> is an \<open>int\<close> within range:
  where an operation could leave the range, the model has a fault. What the standard library does
  with a \<open>float\<close> is here: reading a decimal (\<open>std::stof\<close>), subtraction, the conversion to
  \<open>int\<close>, and printing (\<open>std::to_string\<close>).
\<close>

unbundle bit_operations_syntax

section \<open>Integers\<close>

definition long_range :: "int \<Rightarrow> bool" where
  "long_range x \<longleftrightarrow> - (2 ^ 63) \<le> x \<and> x < 2 ^ 63"

definition int_range :: "int \<Rightarrow> bool" where
  "int_range x \<longleftrightarrow> - (2 ^ 31) \<le> x \<and> x < 2 ^ 31"

text \<open>A \<open>long\<close> result, undefined when it overflows; the conversion of a \<open>long\<close> to \<open>int\<close>.\<close>

definition to_long :: "int \<Rightarrow> int res" where
  "to_long x = (if long_range x then Inr x else Inl Signed_Overflow)"

definition to_int :: "int \<Rightarrow> int" where
  "to_int x = (x + 2 ^ 31) mod 2 ^ 32 - 2 ^ 31"

lemma to_int_range: "int_range (to_int x)"
proof -
  have "0 \<le> (x + 2147483648) mod 4294967296" "(x + 2147483648) mod 4294967296 < 4294967296"
    by simp_all
  then show ?thesis by (simp add: to_int_def int_range_def)
qed

lemma to_int_id: "int_range x \<Longrightarrow> to_int x = x"
  by (simp add: to_int_def int_range_def)

section \<open>Patterns\<close>

definition float_sign :: "32 word \<Rightarrow> bool" where
  "float_sign w \<longleftrightarrow> bit w 31"

definition float_exp :: "32 word \<Rightarrow> nat" where
  "float_exp w = unat w div 2 ^ 23 mod 2 ^ 8"

definition float_frac :: "32 word \<Rightarrow> nat" where
  "float_frac w = unat w mod 2 ^ 23"

definition float_finite :: "32 word \<Rightarrow> bool" where
  "float_finite w \<longleftrightarrow> float_exp w \<noteq> 255"

text \<open>The magnitude and the value of a finite number, in units of \<open>2 ^ -149\<close>.\<close>

definition float_units :: "32 word \<Rightarrow> nat" where
  "float_units w =
     (if float_exp w = 0 then float_frac w else (2 ^ 23 + float_frac w) * 2 ^ (float_exp w - 1))"

definition float_val :: "32 word \<Rightarrow> int" where
  "float_val w = (if float_sign w then - int (float_units w) else int (float_units w))"

definition float_neg :: "32 word \<Rightarrow> 32 word" where
  "float_neg w = w XOR 2 ^ 31"

section \<open>Rounding\<close>

text \<open>Round to the nearest integer, ties to even.\<close>

definition round_even :: "nat \<Rightarrow> nat \<Rightarrow> nat" where
  "round_even n d =
     (let q = n div d; r = n mod d in if d < 2 * r \<or> (2 * r = d \<and> odd q) then q + 1 else q)"

text \<open>The exponent at which a magnitude \<open>n / d\<close> has at most 24 digits.\<close>

function float_scale :: "nat \<Rightarrow> nat \<Rightarrow> nat \<Rightarrow> nat" where
  "float_scale n d s = (if n < d * 2 ^ (s + 24) \<or> 256 \<le> s then s else float_scale n d (s + 1))"
  by pat_completeness auto
termination
  by (relation "measure (\<lambda>(n, d, s). 256 - s)") auto

declare float_scale.simps [simp del]

text \<open>
  The pattern of the number nearest to \<open>n / d\<close> units: \<open>s * 2 ^ 23 + m\<close> for the mantissa \<open>m\<close> at the
  scale \<open>s\<close>; the mantissa's leading one, or a carry out of the mantissa, adds to the exponent.
  \<open>None\<close> is overflow.
\<close>

definition float_round :: "nat \<Rightarrow> nat \<Rightarrow> 32 word option" where
  "float_round n d =
     (let s = float_scale n d 0; b = s * 2 ^ 23 + round_even n (d * 2 ^ s)
      in if b < 255 * 2 ^ 23 then Some (of_nat b) else None)"

section \<open>The operations of the standard library\<close>

text \<open>
  \<open>std::stof\<close> of the decimal \<open>n / 10 ^ k\<close>: it throws when the number overflows, and when it is so
  small that it is rounded in the subnormal range.
\<close>

definition stof_decimal :: "nat \<Rightarrow> nat \<Rightarrow> 32 word res" where
  "stof_decimal n k =
     (let u = n * 2 ^ 149; d = 10 ^ k in
      if u * 4 < d * (2 ^ 25 - 1) \<and> \<not> d dvd u then Inl Uncaught_Exception
      else case float_round u d of Some w \<Rightarrow> Inr w | None \<Rightarrow> Inl Uncaught_Exception)"

text \<open>
  The difference of two numbers converted to \<open>int\<close>: the difference is rounded to a float, its
  fraction is cut off. Undefined for infinities, for NaNs and beyond the range of \<open>int\<close>.
\<close>

definition float_diff_int :: "32 word \<Rightarrow> 32 word \<Rightarrow> int res" where
  "float_diff_int a b =
     (if float_finite a \<and> float_finite b
      then (let v = float_val a - float_val b in
            case float_round (nat \<bar>v\<bar>) 1 of
              None \<Rightarrow> Inl Bad_Conversion
            | Some w \<Rightarrow>
                let q = int (float_units w div 2 ^ 149); r = (if v < 0 then - q else q)
                in if int_range r then Inr r else Inl Bad_Conversion)
      else Inl Bad_Conversion)"

definition digit_char :: "nat \<Rightarrow> char" where
  "digit_char n = char_of (n + of_char (CHR ''0''))"

function nat_digits :: "nat \<Rightarrow> string" where
  "nat_digits n = (if n < 10 then [digit_char n] else nat_digits (n div 10) @ [digit_char (n mod 10)])"
  by pat_completeness auto
termination
  by (relation "measure id") auto

declare nat_digits.simps [simp del]

text \<open>\<open>std::to_string\<close> of a \<open>long\<close> and, through \<open>%f\<close>, of a \<open>float\<close>.\<close>

definition long_to_string :: "int \<Rightarrow> string" where
  "long_to_string x = (if x < 0 then CHR ''-'' # nat_digits (nat (- x)) else nat_digits (nat x))"

definition pad_digits :: "nat \<Rightarrow> nat \<Rightarrow> string" where
  "pad_digits k n = (let s = nat_digits n in replicate (k - length s) CHR ''0'' @ s)"

definition float_to_string :: "32 word \<Rightarrow> string" where
  "float_to_string w =
     (if float_sign w then ''-'' else []) @
     (if float_exp w = 255 then (if float_frac w = 0 then ''inf'' else ''nan'')
      else (let m = round_even (float_units w * 10 ^ 6) (2 ^ 149) in
            nat_digits (m div 10 ^ 6) @ ''.'' @ pad_digits 6 (m mod 10 ^ 6)))"

end
