(* ===== verification/Sql_Lexer.thy ===== *)
theory Sql_Lexer
  imports Float32 Common
begin

text \<open>
  \<open>Lexer\<close> of \<open>src/sql/parser/lexer.hpp\<close>, on a \<open>std::string\<close> as the program instantiates it: the
  character at the end of the input is NUL, one beyond it does not exist. \<open>cur_val_\<close> is a
  \<open>std::any\<close>; its alternatives are the types the program puts into one. A scanning loop is the
  longest prefix of what is left of the input.
\<close>

section \<open>Tokens and values\<close>

datatype token =
    SELECT_T | INSERT_T | CREATE_T | DELETE_T | UPDATE_T | DROP_T
  | FROM_T | WHERE_T | INTO_T | VALUES_T | TABLE_T | ID_T
  | PLUS_T | MINUS_T | FLOAT_T | INTEGER_T | STRING_T
  | COLON_T | DOT_T | COMMAS_T | STAR_T | ASSIGN_T | NOT_EQ_T | GREATER_T | SMALLER_T
  | LBRACE_T | RBRACE_T
  | IN_T | IS_T | NOT_T | NULL_T | NULLABLE_T
  | S_CHAR_T | S_VARCHAR_T | S_INT_T | S_FLOAT_T
  | BAD_EXPR

record rel_attr =
  ra_table :: string
  ra_attribute :: string

datatype any =
    Any_Empty
  | Any_Long int
  | Any_Float "32 word"
  | Any_String string
  | Any_Rel rel_attr

definition any_long :: "any \<Rightarrow> int res" where
  "any_long a = (case a of Any_Long n \<Rightarrow> Inr n | _ \<Rightarrow> Inl Bad_Any_Cast)"

definition any_float :: "any \<Rightarrow> 32 word res" where
  "any_float a = (case a of Any_Float w \<Rightarrow> Inr w | _ \<Rightarrow> Inl Bad_Any_Cast)"

definition any_string :: "any \<Rightarrow> string res" where
  "any_string a = (case a of Any_String s \<Rightarrow> Inr s | _ \<Rightarrow> Inl Bad_Any_Cast)"

definition any_rel :: "any \<Rightarrow> rel_attr res" where
  "any_rel a = (case a of Any_Rel r \<Rightarrow> Inr r | _ \<Rightarrow> Inl Bad_Any_Cast)"

section \<open>The lexer\<close>

record lexer =
  lx_input :: string
  lx_p :: nat
  lx_val :: any

definition lexer_init :: "string \<Rightarrow> lexer" where
  "lexer_init input = \<lparr>lx_input = input, lx_p = 0, lx_val = Any_Empty\<rparr>"

definition spec_token :: "(string \<times> token) list" where
  "spec_token =
     [(''SELECT'', SELECT_T), (''INSERT'', INSERT_T), (''UPDATE'', UPDATE_T), (''CREATE'', CREATE_T),
      (''DELETE'', DELETE_T), (''DROP'', DROP_T),
      (''INTO'', INTO_T), (''FROM'', FROM_T), (''WHERE'', WHERE_T), (''INFO'', INTO_T),
      (''TABLE'', TABLE_T), (''VALUES'', VALUES_T),
      (''IN'', IN_T), (''IS'', IS_T), (''NOT'', NOT_T), (''NULL'', NULL_T), (''NULLABLE'', NULLABLE_T),
      (''CHAR'', S_CHAR_T), (''VARCHAR'', S_VARCHAR_T), (''INT'', S_INT_T), (''FLOAT'', S_FLOAT_T)]"

definition lexer_eof :: "lexer \<Rightarrow> bool" where
  "lexer_eof lx \<longleftrightarrow> length (lx_input lx) \<le> lx_p lx"

text \<open>\<open>input_[i]\<close> of a \<open>std::string\<close>.\<close>

definition input_at :: "string \<Rightarrow> nat \<Rightarrow> char res" where
  "input_at s i =
     (if i < length s then Inr (s ! i) else if i = length s then Inr (CHR 0x00) else Inl Out_Of_Bounds)"

definition char_between :: "char \<Rightarrow> char \<Rightarrow> char \<Rightarrow> bool" where
  "char_between lo hi c \<longleftrightarrow> (of_char lo :: nat) \<le> of_char c \<and> (of_char c :: nat) \<le> of_char hi"

definition is_digit :: "char \<Rightarrow> bool" where
  "is_digit c \<longleftrightarrow> char_between (CHR ''0'') (CHR ''9'') c"

definition is_id_start :: "char \<Rightarrow> bool" where
  "is_id_start c \<longleftrightarrow>
     char_between (CHR ''a'') (CHR ''z'') c \<or> char_between (CHR ''A'') (CHR ''Z'') c \<or> c = CHR ''_''"

definition is_id_char :: "char \<Rightarrow> bool" where
  "is_id_char c \<longleftrightarrow> is_id_start c \<or> is_digit c"

definition skip_blank :: "lexer \<Rightarrow> lexer" where
  "skip_blank lx =
     lx\<lparr>lx_p := lx_p lx + length (takeWhile (\<lambda>c. c = CHR '' '') (drop (lx_p lx) (lx_input lx)))\<rparr>"

definition digit_val :: "char \<Rightarrow> nat" where
  "digit_val c = of_char c - of_char (CHR ''0'')"

definition digits_val :: "string \<Rightarrow> nat" where
  "digits_val ds = foldl (\<lambda>num c. digit_val c + num * 10) 0 ds"

text \<open>The characters of the class from a position on; the loops stop at the NUL at the latest.\<close>

definition run_of :: "(char \<Rightarrow> bool) \<Rightarrow> nat \<Rightarrow> string \<Rightarrow> string" where
  "run_of P p s = takeWhile P (drop p s)"

text \<open>\<open>std::stof\<close> of what \<open>parse_num\<close> cuts out: digits, a point, digits.\<close>

definition stof :: "string \<Rightarrow> 32 word res" where
  "stof s =
     (let a = takeWhile is_digit s; b = takeWhile is_digit (drop (length a + 1) s)
      in stof_decimal (digits_val (a @ b)) (length b))"

definition parse_num :: "lexer \<Rightarrow> (token \<times> lexer) res" where
  "parse_num lx =
     (let input = lx_input lx; ds = run_of is_digit (lx_p lx) input; end = lx_p lx + length ds in
      andthen (each (\<lambda>c num. to_long (int (digit_val c) + num * 10)) ds 0) (\<lambda>num.
      andthen (input_at input end) (\<lambda>ch.
      if ch = CHR ''.''
      then
        (let old_end = end; end2 = end + 1 + length (run_of is_digit (end + 1) input) in
         if old_end = end2 - 1 then Inr (BAD_EXPR, lx\<lparr>lx_p := end2\<rparr>)
         else andthen (stof (take (end2 - lx_p lx - 1) (drop (lx_p lx) input))) (\<lambda>f.
              Inr (FLOAT_T, lx\<lparr>lx_val := Any_Float f, lx_p := end2\<rparr>)))
      else Inr (INTEGER_T, lx\<lparr>lx_p := end, lx_val := Any_Long num\<rparr>))))"

definition single :: "char \<Rightarrow> token option" where
  "single ch =
     (if ch = CHR ''+'' then Some PLUS_T
      else if ch = CHR ''='' then Some ASSIGN_T
      else if ch = CHR ''>'' then Some GREATER_T
      else if ch = CHR '','' then Some COMMAS_T
      else if ch = CHR ''*'' then Some STAR_T
      else if ch = CHR ''.'' then Some DOT_T
      else if ch = CHR '';'' then Some COLON_T
      else if ch = CHR ''('' then Some LBRACE_T
      else if ch = CHR '')'' then Some RBRACE_T
      else None)"

definition number_token :: "lexer \<Rightarrow> (rc \<times> token \<times> lexer) res" where
  "number_token lx =
     andthen (parse_num lx) (\<lambda>(tk, lx'). Inr (if tk = BAD_EXPR then SYNTAX_ERROR else SUCCESS, tk, lx'))"

text \<open>The cases of the switch: an identifier or keyword, a minus or a negative number, \<open><\<close>, a string.\<close>

definition lex_word :: "lexer \<Rightarrow> rc \<times> token \<times> lexer" where
  "lex_word lx =
     (let w = run_of is_id_char (lx_p lx) (lx_input lx);
          token = (case map_of spec_token (to_upper w) of Some t \<Rightarrow> t | None \<Rightarrow> ID_T);
          lx1 = (if token = ID_T then lx\<lparr>lx_val := Any_String w\<rparr> else lx)
      in (SUCCESS, token, lx1\<lparr>lx_p := lx_p lx + length w\<rparr>))"

definition next_is :: "(char \<Rightarrow> bool) \<Rightarrow> lexer \<Rightarrow> bool" where
  "next_is P lx \<longleftrightarrow> lx_p lx + 1 < length (lx_input lx) \<and> P (lx_input lx ! (lx_p lx + 1))"

definition advance :: "nat \<Rightarrow> lexer \<Rightarrow> lexer" where
  "advance n lx = lx\<lparr>lx_p := lx_p lx + n\<rparr>"

definition negate_val :: "token \<Rightarrow> any \<Rightarrow> any res" where
  "negate_val tk v =
     (if tk = INTEGER_T
      then andthen (any_long v) (\<lambda>n. andthen (to_long (n * -1)) (\<lambda>m. Inr (Any_Long m)))
      else if tk = FLOAT_T then andthen (any_float v) (\<lambda>f. Inr (Any_Float (float_neg f)))
      else Inr v)"

definition lex_minus :: "lexer \<Rightarrow> (rc \<times> token \<times> lexer) res" where
  "lex_minus lx =
     (if next_is is_digit lx
      then
        andthen (parse_num (advance 1 lx)) (\<lambda>(tk, lx1).
        andthen (negate_val tk (lx_val lx1)) (\<lambda>v. Inr (SUCCESS, tk, lx1\<lparr>lx_val := v\<rparr>)))
      else Inr (SUCCESS, MINUS_T, advance 1 lx))"

definition lex_smaller :: "lexer \<Rightarrow> rc \<times> token \<times> lexer" where
  "lex_smaller lx =
     (if next_is (\<lambda>c. c = CHR ''>'') lx then (SUCCESS, NOT_EQ_T, advance 2 lx)
      else (SUCCESS, SMALLER_T, advance 1 lx))"

definition quote :: char where "quote = CHR 0x27"

definition lex_string :: "lexer \<Rightarrow> rc \<times> token \<times> lexer" where
  "lex_string lx =
     (let body = run_of (\<lambda>c. c \<noteq> quote) (lx_p lx + 1) (lx_input lx); end = lx_p lx + 1 + length body in
      if end = lx_p lx + 1 then (SYNTAX_ERROR, BAD_EXPR, lx)
      else (SUCCESS, STRING_T, lx\<lparr>lx_val := Any_String body, lx_p := end + 1\<rparr>))"

text \<open>The token at the position, blanks skipped. The loop around the switch runs at most once.\<close>

definition lex_token :: "lexer \<Rightarrow> (rc \<times> token \<times> lexer) res" where
  "lex_token lx =
     andthen (input_at (lx_input lx) (lx_p lx)) (\<lambda>ch.
     if \<not> lx_p lx < length (lx_input lx) then Inr (SYNTAX_ERROR, BAD_EXPR, lx)
     else if is_id_start ch then Inr (lex_word lx)
     else if ch = CHR ''0'' \<and> next_is is_digit lx then Inr (SYNTAX_ERROR, BAD_EXPR, lx)
     else if is_digit ch then number_token lx
     else if ch = CHR ''-'' then lex_minus lx
     else if ch = CHR ''<'' then Inr (lex_smaller lx)
     else if ch = quote then Inr (lex_string lx)
     else (case single ch of
             Some t \<Rightarrow> Inr (SUCCESS, t, advance 1 lx)
           | None \<Rightarrow> Inr (SYNTAX_ERROR, BAD_EXPR, lx)))"

text \<open>(code, token, the position before, the lexer).\<close>

definition internal_next :: "lexer \<Rightarrow> (rc \<times> token \<times> nat \<times> lexer) res" where
  "internal_next lx =
     andthen (lex_token (skip_blank lx)) (\<lambda>(rc, tk, lx'). Inr (rc, tk, lx_p lx, lx'))"

definition lex_next :: "lexer \<Rightarrow> (rc \<times> token \<times> lexer) res" where
  "lex_next lx = andthen (internal_next lx) (\<lambda>(rc, tk, _, lx'). Inr (rc, tk, lx'))"

definition lex_next_if :: "token \<Rightarrow> lexer \<Rightarrow> (rc \<times> token \<times> lexer) res" where
  "lex_next_if t lx =
     andthen (internal_next lx) (\<lambda>(_, tk, last_p, lx').
     if tk \<noteq> t then Inr (SYNTAX_ERROR, tk, lx'\<lparr>lx_p := last_p\<rparr>) else Inr (SUCCESS, tk, lx'))"

definition lex_peek :: "lexer \<Rightarrow> (rc \<times> token \<times> lexer) res" where
  "lex_peek lx = andthen (internal_next lx) (\<lambda>(rc, tk, last_p, lx'). Inr (rc, tk, lx'\<lparr>lx_p := last_p\<rparr>))"

text \<open>\<open>std::move\<close> out of \<open>cur_ref<std::string>()\<close>: the string, leaving an empty one behind.\<close>

definition take_string :: "lexer \<Rightarrow> (string \<times> lexer) res" where
  "take_string lx = andthen (any_string (lx_val lx)) (\<lambda>s. Inr (s, lx\<lparr>lx_val := Any_String []\<rparr>))"

section \<open>Progress\<close>

text \<open>
  A call of the lexer leaves the input alone, and a token other than the bad one is at least one
  character long: the position grows, to at most one beyond the end.
\<close>

definition lex_moves :: "lexer \<Rightarrow> token \<Rightarrow> lexer \<Rightarrow> bool" where
  "lex_moves lx tk lx' \<longleftrightarrow>
     lx_input lx' = lx_input lx \<and> lx_p lx \<le> lx_p lx' \<and>
     (tk \<noteq> BAD_EXPR \<longrightarrow> lx_p lx < lx_p lx' \<and> lx_p lx' \<le> length (lx_input lx) + 1)"

lemma length_run_of: "p \<le> length s \<Longrightarrow> p + length (run_of P p s) \<le> length s"
  using length_takeWhile_le [of P "drop p s"] by (simp add: run_of_def)

lemma run_of_Cons:
  assumes "p < length s" "P (s ! p)"
  shows "run_of P p s = s ! p # run_of P (p + 1) s"
proof -
  have "drop p s = s ! p # drop (Suc p) s" using assms(1) by (simp add: Cons_nth_drop_Suc)
  then show ?thesis using assms(2) by (simp add: run_of_def)
qed

lemma run_of_nonempty: "p < length s \<Longrightarrow> P (s ! p) \<Longrightarrow> 0 < length (run_of P p s)"
  by (simp add: run_of_Cons)

lemma input_at_dot: "input_at s i = Inr (CHR ''.'') \<Longrightarrow> i < length s"
  by (auto simp: input_at_def split: if_splits)

lemma run_bounds:
  assumes "p < length s" "P (s ! p)"
  shows "0 < length (run_of P p s)" "p + length (run_of P p s) \<le> length s"
  using assms run_of_nonempty length_run_of [of p s P] by simp_all

lemma parse_num_moves:
  assumes "parse_num lx = Inr (tk, lx')" "lx_p lx < length (lx_input lx)" "is_digit (lx_input lx ! lx_p lx)"
  shows "lx_input lx' = lx_input lx" "lx_p lx < lx_p lx'" "lx_p lx' \<le> length (lx_input lx)"
proof -
  define k where "k = length (run_of is_digit (lx_p lx) (lx_input lx))"
  have d: "0 < k" "lx_p lx + k \<le> length (lx_input lx)"
    using run_bounds [OF assms(2), of is_digit] assms(3) by (simp_all add: k_def)
  have e: "lx_p lx + k + 1 + length (run_of is_digit (lx_p lx + k + 1) (lx_input lx)) \<le> length (lx_input lx)"
    if "input_at (lx_input lx) (lx_p lx + k) = Inr (CHR ''.'')"
    using input_at_dot [OF that] length_run_of [of "lx_p lx + k + 1" "lx_input lx" is_digit] by simp
  show "lx_input lx' = lx_input lx" "lx_p lx < lx_p lx'" "lx_p lx' \<le> length (lx_input lx)"
    using assms(1) d e
    by (auto simp: parse_num_def Let_def res_simps k_def [symmetric] split: if_splits)
qed

lemma number_token_moves:
  assumes "number_token lx = Inr (rc, tk, lx')" "lx_p lx < length (lx_input lx)" "is_digit (lx_input lx ! lx_p lx)"
  shows "lex_moves lx tk lx'"
proof -
  have "parse_num lx = Inr (tk, lx')"
    using assms(1) by (auto simp: number_token_def res_simps)
  from parse_num_moves [OF this assms(2,3)] show ?thesis by (simp add: lex_moves_def)
qed

lemma lex_minus_moves:
  assumes "lex_minus lx = Inr (rc, tk, lx')" "lx_p lx < length (lx_input lx)"
  shows "lex_moves lx tk lx'"
proof (cases "next_is is_digit lx")
  case True
  with assms(1) obtain lx1 v where n: "parse_num (advance 1 lx) = Inr (tk, lx1)" "lx' = lx1\<lparr>lx_val := v\<rparr>"
    by (auto simp: lex_minus_def res_simps)
  have "lx_p (advance 1 lx) < length (lx_input (advance 1 lx))"
       "is_digit (lx_input (advance 1 lx) ! lx_p (advance 1 lx))"
    using True by (simp_all add: next_is_def advance_def)
  from parse_num_moves [OF n(1) this] show ?thesis
    by (simp add: n(2) lex_moves_def advance_def)
next
  case False
  with assms show ?thesis by (auto simp: lex_minus_def lex_moves_def advance_def)
qed

lemma lex_smaller_moves:
  "lx_p lx < length (lx_input lx) \<Longrightarrow> lex_smaller lx = (rc, tk, lx') \<Longrightarrow> lex_moves lx tk lx'"
  by (auto simp: lex_smaller_def lex_moves_def advance_def next_is_def split: if_splits)

lemma lex_string_moves:
  assumes "lx_p lx < length (lx_input lx)" "lex_string lx = (rc, tk, lx')"
  shows "lex_moves lx tk lx'"
proof -
  have "lx_p lx + 1 + length (run_of (\<lambda>c. c \<noteq> quote) (lx_p lx + 1) (lx_input lx)) \<le> length (lx_input lx)"
    using length_run_of [of "lx_p lx + 1" "lx_input lx"] assms(1) by simp
  then show ?thesis using assms(2)
    by (auto simp: lex_string_def lex_moves_def Let_def split: if_splits)
qed

lemma lex_word_moves:
  assumes "lx_p lx < length (lx_input lx)" "is_id_start (lx_input lx ! lx_p lx)" "lex_word lx = (rc, tk, lx')"
  shows "lex_moves lx tk lx'"
  using run_bounds [OF assms(1), of is_id_char] assms(2,3)
  by (auto simp: lex_word_def Let_def lex_moves_def is_id_char_def)

lemma lex_token_moves:
  assumes "lex_token lx = Inr (rc, tk, lx')"
  shows "lex_moves lx tk lx'"
proof (cases "lx_p lx < length (lx_input lx)")
  case False
  with assms show ?thesis by (auto simp: lex_token_def res_simps lex_moves_def)
next
  case True
  then have ch: "input_at (lx_input lx) (lx_p lx) = Inr (lx_input lx ! lx_p lx)" by (simp add: input_at_def)
  have bad: "lex_moves lx BAD_EXPR lx" and adv: "lex_moves lx t (advance 1 lx)" for t
    using True by (simp_all add: lex_moves_def advance_def)
  show ?thesis
    using assms True number_token_moves lex_minus_moves lex_smaller_moves lex_string_moves lex_word_moves bad adv
    by (simp add: lex_token_def ch split: if_splits option.splits; metis)
qed

lemma internal_next_moves:
  assumes "internal_next lx = Inr (rc, tk, last_p, lx')"
  shows "last_p = lx_p lx" "lex_moves lx tk lx'"
proof -
  have sk: "lx_input (skip_blank lx) = lx_input lx" "lx_p lx \<le> lx_p (skip_blank lx)"
    by (simp_all add: skip_blank_def)
  from assms have "lex_token (skip_blank lx) = Inr (rc, tk, lx')" and l: "last_p = lx_p lx"
    by (auto simp: internal_next_def res_simps)
  with lex_token_moves [OF this(1)] sk show "last_p = lx_p lx" "lex_moves lx tk lx'"
    by (auto simp: lex_moves_def)
qed

text \<open>What is left to read, which every loop of the parser shrinks.\<close>

definition lex_left :: "lexer \<Rightarrow> nat" where
  "lex_left lx = length (lx_input lx) + 2 - lx_p lx"

lemma lex_moves_left:
  assumes "lex_moves lx tk lx'"
  shows "lex_left lx' \<le> lex_left lx" "tk \<noteq> BAD_EXPR \<Longrightarrow> lex_left lx' < lex_left lx"
  using assms by (auto simp: lex_moves_def lex_left_def)

lemma lex_next_left:
  assumes "lex_next lx = Inr (rc, tk, lx')"
  shows "lex_left lx' \<le> lex_left lx" "tk \<noteq> BAD_EXPR \<Longrightarrow> lex_left lx' < lex_left lx"
proof -
  from assms obtain lp where "internal_next lx = Inr (rc, tk, lp, lx')"
    by (auto simp: lex_next_def res_simps)
  note m = lex_moves_left [OF internal_next_moves(2) [OF this]]
  show "lex_left lx' \<le> lex_left lx" "tk \<noteq> BAD_EXPR \<Longrightarrow> lex_left lx' < lex_left lx"
    by (fact m)+
qed

lemma lex_next_if_left:
  assumes "lex_next_if t lx = Inr (rc, tk, lx')"
  shows "lex_left lx' \<le> lex_left lx" "rc = SUCCESS \<Longrightarrow> t \<noteq> BAD_EXPR \<Longrightarrow> lex_left lx' < lex_left lx"
proof -
  from assms obtain rc0 lp lx1 where n: "internal_next lx = Inr (rc0, tk, lp, lx1)"
    and e: "lx' = (if tk \<noteq> t then lx1\<lparr>lx_p := lp\<rparr> else lx1)" "rc = SUCCESS \<Longrightarrow> tk = t"
    by (auto simp: lex_next_if_def res_simps split: if_splits)
  note m = internal_next_moves [OF n]
  have "lex_left (lx1\<lparr>lx_p := lp\<rparr>) = lex_left lx"
    using m by (simp add: lex_left_def lex_moves_def)
  then show "lex_left lx' \<le> lex_left lx" "rc = SUCCESS \<Longrightarrow> t \<noteq> BAD_EXPR \<Longrightarrow> lex_left lx' < lex_left lx"
    using e lex_moves_left [OF m(2)] by (auto split: if_splits)
qed

lemma lex_peek_left: "lex_peek lx = Inr (rc, tk, lx') \<Longrightarrow> lex_left lx' = lex_left lx"
  using internal_next_moves by (fastforce simp: lex_peek_def res_simps lex_left_def lex_moves_def)

lemma take_string_left: "take_string lx = Inr (s, lx') \<Longrightarrow> lex_left lx' = lex_left lx"
  by (auto simp: take_string_def res_simps lex_left_def)

text \<open>The lexer has a \<open>to_upper\<close> of its own, which hides the one of \<open>Common\<close> and does the same.\<close>

definition lexer_to_upper :: "string \<Rightarrow> string" where
  "lexer_to_upper s = map (\<lambda>ch. if char_between (CHR ''a'') (CHR ''z'') ch then char_up ch else ch) s"

lemma lexer_to_upper_is: "lexer_to_upper = to_upper"
proof -
  have "(if char_between (CHR ''a'') (CHR ''z'') ch then char_up ch else ch) = char_up ch" for ch
    by (auto simp: char_up_def char_between_def)
  then show ?thesis by (simp add: fun_eq_iff lexer_to_upper_def to_upper_def)
qed

end
