(* ===== verification/Sql_Text.thy ===== *)
theory Sql_Text
  imports Sql_Lexer
begin

text \<open>
  The lexer as an inverse: a lexeme has a text, a token and perhaps a value, and reading a sequence
  of lexemes that are printed one after the other, a blank before each, yields their tokens and
  values. The parser's round trips rest on this.
\<close>

section \<open>Lexemes\<close>

definition keyword_table :: "(token \<times> string) list" where
  "keyword_table =
     [(SELECT_T, ''SELECT''), (INSERT_T, ''INSERT''), (CREATE_T, ''CREATE''), (DELETE_T, ''DELETE''),
      (UPDATE_T, ''UPDATE''), (DROP_T, ''DROP''), (FROM_T, ''FROM''), (WHERE_T, ''WHERE''),
      (INTO_T, ''INTO''), (VALUES_T, ''VALUES''), (TABLE_T, ''TABLE''), (IN_T, ''IN''), (IS_T, ''IS''),
      (NOT_T, ''NOT''), (NULL_T, ''NULL''), (NULLABLE_T, ''NULLABLE''), (S_CHAR_T, ''CHAR''),
      (S_VARCHAR_T, ''VARCHAR''), (S_INT_T, ''INT''), (S_FLOAT_T, ''FLOAT'')]"

definition sign_table :: "(token \<times> string) list" where
  "sign_table =
     [(PLUS_T, ''+''), (MINUS_T, ''-''), (COLON_T, '';''), (DOT_T, ''.''), (COMMAS_T, '',''), (STAR_T, ''*''),
      (ASSIGN_T, ''=''), (NOT_EQ_T, ''<>''), (GREATER_T, ''>''), (SMALLER_T, ''<''),
      (LBRACE_T, ''(''), (RBRACE_T, '')'')]"

definition mark_table :: "(token \<times> string) list" where
  "mark_table = keyword_table @ sign_table"

datatype lexeme = Mark token | Name string | Number int | Text string

fun lexeme_ok :: "lexeme \<Rightarrow> bool" where
  "lexeme_ok (Mark t) \<longleftrightarrow> map_of mark_table t \<noteq> None"
| "lexeme_ok (Name s) \<longleftrightarrow>
     s \<noteq> [] \<and> is_id_start (hd s) \<and> list_all is_id_char s \<and> map_of spec_token (to_upper s) = None"
| "lexeme_ok (Number n) \<longleftrightarrow> long_range n \<and> n \<noteq> - (2 ^ 63)"
| "lexeme_ok (Text s) \<longleftrightarrow> s \<noteq> [] \<and> quote \<notin> set s"

fun lexeme_text :: "lexeme \<Rightarrow> string" where
  "lexeme_text (Mark t) =
     (case map_of mark_table t of Some s \<Rightarrow> s | None \<Rightarrow> [])"
| "lexeme_text (Name s) = s"
| "lexeme_text (Number n) = long_to_string n"
| "lexeme_text (Text s) = quote # s @ [quote]"

fun lexeme_token :: "lexeme \<Rightarrow> token" where
  "lexeme_token (Mark t) = t"
| "lexeme_token (Name s) = ID_T"
| "lexeme_token (Number n) = INTEGER_T"
| "lexeme_token (Text s) = STRING_T"

fun lexeme_val :: "lexeme \<Rightarrow> any option" where
  "lexeme_val (Mark t) = None"
| "lexeme_val (Name s) = Some (Any_String s)"
| "lexeme_val (Number n) = Some (Any_Long n)"
| "lexeme_val (Text s) = Some (Any_String s)"

definition print_lexemes :: "lexeme list \<Rightarrow> string" where
  "print_lexemes ls = concat (map (\<lambda>l. CHR '' '' # lexeme_text l) ls)"

lemma print_lexemes_simps [simp]:
  "print_lexemes [] = []"
  "print_lexemes (l # ls) = CHR '' '' # lexeme_text l @ print_lexemes ls"
  by (simp_all add: print_lexemes_def)

lemma print_lexemes_append: "print_lexemes (ls @ ms) = print_lexemes ls @ print_lexemes ms"
  by (induction ls) simp_all

text \<open>What follows a lexeme: nothing, or a blank.\<close>

definition spaced :: "string \<Rightarrow> bool" where
  "spaced r \<longleftrightarrow> r = [] \<or> hd r = CHR '' ''"

lemma spaced_print [simp]: "spaced (print_lexemes ls)"
  by (cases ls) (simp_all add: spaced_def)

section \<open>Digits\<close>

lemma digit_char_val:
  assumes "n < 10"
  shows "digit_val (digit_char n) = n" "is_digit (digit_char n)"
  using assms
  by (simp_all add: digit_val_def digit_char_def is_digit_def char_between_def)

lemma nat_digits_digits: "list_all is_digit (nat_digits n)"
proof (induction n rule: nat_digits.induct)
  case (1 n)
  then show ?case
    by (subst nat_digits.simps) (auto simp: digit_char_val)
qed

lemma nat_digits_nonempty: "nat_digits n \<noteq> []"
  by (subst nat_digits.simps) simp

lemma digits_val_snoc: "digits_val (ds @ [d]) = digit_val d + digits_val ds * 10"
  by (simp add: digits_val_def)

lemma digits_val_nat_digits: "digits_val (nat_digits n) = n"
proof (induction n rule: nat_digits.induct)
  case (1 n)
  show ?case
  proof (cases "n < 10")
    case True
    then show ?thesis
      by (subst nat_digits.simps) (simp add: digits_val_def digit_char_val)
  next
    case False
    with 1 show ?thesis
      by (subst nat_digits.simps) (simp add: digits_val_snoc digit_char_val)
  qed
qed

text \<open>No leading zero, other than the number zero itself.\<close>

lemma nat_digits_hd: "0 < n \<Longrightarrow> hd (nat_digits n) \<noteq> CHR ''0''"
proof (induction n rule: nat_digits.induct)
  case (1 n)
  show ?case
  proof (cases "n < 10")
    case True
    have "digit_char n \<noteq> CHR ''0''"
      using digit_char_val(1) [OF True] 1(2) by (auto simp: digit_val_def)
    with True show ?thesis by (subst nat_digits.simps) simp
  next
    case False
    with 1 show ?thesis
      by (subst nat_digits.simps) (simp add: nat_digits_nonempty)
  qed
qed

lemma nat_digits_zero: "nat_digits 0 = ''0''"
  by (subst nat_digits.simps) (simp add: digit_char_def char_of_eq_iff)

text \<open>The loop of \<open>parse_num\<close> stays in range as long as the number does.\<close>

lemma accumulate_digits:
  assumes "long_range (int (digits_val ds))"
  shows "each (\<lambda>c num. to_long (int (digit_val c) + num * 10)) ds 0 = Inr (int (digits_val ds))"
  using assms
proof (induction ds rule: rev_induct)
  case Nil
  then show ?case by (simp add: digits_val_def)
next
  case (snoc d ds)
  have "int (digits_val ds) \<le> int (digits_val (ds @ [d]))" by (simp add: digits_val_snoc)
  with snoc(2) have "long_range (int (digits_val ds))" by (simp add: long_range_def)
  with snoc show ?case
    by (simp add: each_append to_long_def digits_val_snoc mult.commute)
qed

section \<open>Reading a lexeme\<close>

lemma run_of_spaced:
  assumes "drop p s = w @ r" "list_all P w" "spaced r" "\<not> P (CHR '' '')"
  shows "run_of P p s = w"
proof -
  have "takeWhile P (w @ r) = w @ takeWhile P r"
    using assms(2) by (metis list.pred_set takeWhile_append2)
  moreover have "takeWhile P r = []"
    using assms(3,4) by (cases r) (auto simp: spaced_def)
  ultimately show ?thesis by (simp add: run_of_def assms(1))
qed

definition standing :: "lexer \<Rightarrow> string \<Rightarrow> bool" where
  "standing lx s \<longleftrightarrow> lx_p lx \<le> length (lx_input lx) \<and> drop (lx_p lx) (lx_input lx) = s"

lemma standing_Cons:
  assumes "standing lx (c # s)"
  shows "lx_p lx < length (lx_input lx)" "lx_input lx ! lx_p lx = c"
    "drop (Suc (lx_p lx)) (lx_input lx) = s"
  using assms unfolding standing_def
  by (metis drop_eq_Nil leI list.distinct(1), metis hd_drop_conv_nth drop_eq_Nil leI list.distinct(1) list.sel(1),
      metis drop_Suc list.sel(3) tl_drop)

lemma standing_append:
  assumes "standing lx (w @ r)"
  shows "lx_p lx + length w \<le> length (lx_input lx)" "drop (lx_p lx + length w) (lx_input lx) = r"
proof -
  have "length (lx_input lx) - lx_p lx = length w + length r" "lx_p lx \<le> length (lx_input lx)"
    using assms unfolding standing_def by (metis length_append length_drop, simp)
  then show "lx_p lx + length w \<le> length (lx_input lx)" by linarith
  show "drop (lx_p lx + length w) (lx_input lx) = r"
    using assms unfolding standing_def by (metis add.commute append_eq_conv_conj drop_drop)
qed

lemma standing_next_is: "standing lx (c # d # s) \<Longrightarrow> next_is P lx \<longleftrightarrow> P d"
  using standing_Cons [of lx c "d # s"] standing_Cons [of "lx\<lparr>lx_p := Suc (lx_p lx)\<rparr>" d s]
  by (auto simp: next_is_def standing_def)

lemma standing_last_is: "standing lx [c] \<Longrightarrow> \<not> next_is P lx"
  using standing_Cons [of lx c "[]"] by (simp add: next_is_def)


lemma standing_input_at: "standing lx (c # s) \<Longrightarrow> input_at (lx_input lx) (lx_p lx) = Inr c"
  using standing_Cons [of lx c s] by (simp add: input_at_def)

lemma standing_not_next: "standing lx (c # r) \<Longrightarrow> spaced r \<Longrightarrow> \<not> P (CHR '' '') \<Longrightarrow> \<not> next_is P lx"
  using standing_next_is standing_last_is by (cases r) (auto simp: spaced_def)

definition reads :: "lexeme \<Rightarrow> lexer \<Rightarrow> lexer" where
  "reads l lx =
     lx\<lparr>lx_p := lx_p lx + length (lexeme_text l),
        lx_val := (case lexeme_val l of Some v \<Rightarrow> v | None \<Rightarrow> lx_val lx)\<rparr>"

definition keyword_ok :: "token \<times> string \<Rightarrow> bool" where
  "keyword_ok = (\<lambda>(t, w).
     w \<noteq> [] \<and> is_id_start (hd w) \<and> list_all is_id_char w \<and> map_of spec_token (to_upper w) = Some t \<and> t \<noteq> ID_T)"

lemma keyword_table_ok: "list_all keyword_ok keyword_table"
  by code_simp

lemma lex_word_reads:
  assumes "standing lx (w @ r)" "spaced r" "w \<noteq> []" "is_id_start (hd w)" "list_all is_id_char w"
  shows "lex_token lx =
    (let t = (case map_of spec_token (to_upper w) of Some t \<Rightarrow> t | None \<Rightarrow> ID_T) in
     Inr (SUCCESS, t, lx\<lparr>lx_p := lx_p lx + length w, lx_val := (if t = ID_T then Any_String w else lx_val lx)\<rparr>))"
proof -
  obtain c w' where w: "w = c # w'" using assms(3) by (cases w) auto
  have "drop (lx_p lx) (lx_input lx) = w @ r" using assms(1) by (simp add: standing_def)
  moreover have "\<not> is_id_char (CHR '' '')"
    by (simp add: is_id_char_def is_id_start_def is_digit_def char_between_def)
  ultimately have run: "run_of is_id_char (lx_p lx) (lx_input lx) = w"
    using run_of_spaced assms(2,5) by blast
  have "input_at (lx_input lx) (lx_p lx) = Inr c" "lx_p lx < length (lx_input lx)" "is_id_start c"
    using assms(1,4) standing_input_at standing_Cons(1) by (auto simp: w)
  then show ?thesis
    by (simp add: lex_token_def lex_word_def run Let_def)
qed

lemma digit_not_id: "is_digit c \<Longrightarrow> \<not> is_id_start c"
  by (auto simp: is_digit_def is_id_start_def char_between_def)

lemma parse_num_reads:
  assumes "standing lx (w @ r)" "spaced r" "list_all is_digit w" "long_range (int (digits_val w))"
  shows "parse_num lx = Inr (INTEGER_T, lx\<lparr>lx_p := lx_p lx + length w, lx_val := Any_Long (int (digits_val w))\<rparr>)"
proof -
  have "drop (lx_p lx) (lx_input lx) = w @ r" using assms(1) by (simp add: standing_def)
  moreover have "\<not> is_digit (CHR '' '')" by (simp add: is_digit_def char_between_def)
  ultimately have run: "run_of is_digit (lx_p lx) (lx_input lx) = w"
    using run_of_spaced assms(2,3) by blast
  note b = standing_append [OF assms(1)]
  obtain c where c: "input_at (lx_input lx) (lx_p lx + length w) = Inr c" "c \<noteq> CHR ''.''"
  proof (cases r)
    case Nil
    then have "lx_p lx + length w = length (lx_input lx)" using b by simp
    then show ?thesis using that by (simp add: input_at_def)
  next
    case (Cons d r')
    then have "standing (lx\<lparr>lx_p := lx_p lx + length w\<rparr>) (d # r')" "d = CHR '' ''"
      using b assms(2) by (auto simp: standing_def spaced_def)
    then show ?thesis using that standing_input_at by fastforce
  qed
  show ?thesis
    by (simp add: parse_num_def Let_def run accumulate_digits [OF assms(4)] c)
qed


definition sign_ok :: "token \<times> string \<Rightarrow> bool" where
  "sign_ok = (\<lambda>(t, w).
     w \<noteq> [] \<and> \<not> is_id_start (hd w) \<and> \<not> is_digit (hd w) \<and> hd w \<noteq> quote \<and>
     (if t = NOT_EQ_T then w = ''<>''
      else tl w = [] \<and> (if t = SMALLER_T then hd w = CHR ''<'' else hd w \<noteq> CHR ''<'' \<and>
           (if t = MINUS_T then hd w = CHR ''-'' else hd w \<noteq> CHR ''-'' \<and> single (hd w) = Some t))))"

lemma sign_table_ok: "list_all sign_ok sign_table"
  by code_simp

lemma sign_reads:
  assumes "sign_ok (t, w)" "standing lx (w @ r)" "spaced r"
  shows "lex_token lx = Inr (SUCCESS, t, advance (length w) lx)"
proof -
  from assms(1) obtain c w' where w: "w = c # w'" by (cases w) (auto simp: sign_ok_def)
  with assms(2) have st: "standing lx (c # w' @ r)" by simp
  note at = standing_Cons(1) [OF st] standing_input_at [OF st]
  have c: "\<not> is_id_start c" "\<not> is_digit c" "c \<noteq> quote"
    using assms(1) by (simp_all add: w sign_ok_def)
  then have z: "c \<noteq> CHR ''0''" by (auto simp: is_digit_def char_between_def)
  consider "t = NOT_EQ_T" "w' = ''>''" "c = CHR ''<''" | "t = SMALLER_T" "w' = []" "c = CHR ''<''"
    | "t = MINUS_T" "w' = []" "c = CHR ''-''" | "w' = []" "c \<noteq> CHR ''<''" "c \<noteq> CHR ''-''" "single c = Some t"
    using assms(1) unfolding sign_ok_def w prod.case list.sel list.inject by metis
  then show ?thesis
  proof cases
    case 1
    with st have "standing lx (c # CHR ''>'' # r)" by simp
    then have "next_is (\<lambda>c. c = CHR ''>'') lx" by (simp add: standing_next_is)
    with 1 at c z show ?thesis by (simp add: w lex_token_def lex_smaller_def numeral_2_eq_2)
  next
    case 2
    then have "\<not> next_is (\<lambda>c. c = CHR ''>'') lx"
      using standing_not_next [of lx c r] st assms(3) by simp
    with 2 at c z show ?thesis by (simp add: w lex_token_def lex_smaller_def)
  next
    case 3
    have "\<not> is_digit (CHR '' '')" by (simp add: is_digit_def char_between_def)
    with 3 have "\<not> next_is is_digit lx"
      using standing_not_next [of lx c r] st assms(3) by simp
    with 3 at c z show ?thesis by (simp add: w lex_token_def lex_minus_def)
  next
    case 4
    with at c z show ?thesis by (simp add: w lex_token_def)
  qed
qed

lemma mark_reads:
  assumes "lexeme_ok (Mark t)" "standing lx (lexeme_text (Mark t) @ r)" "spaced r"
  shows "lex_token lx = Inr (SUCCESS, t, reads (Mark t) lx)"
proof -
  from assms(1) obtain w where w: "map_of mark_table t = Some w" by auto
  with assms(2) have st: "standing lx (w @ r)" by simp
  from w have "(t, w) \<in> set keyword_table \<or> (t, w) \<in> set sign_table"
    using map_of_SomeD by (fastforce simp: mark_table_def)
  then have "keyword_ok (t, w) \<or> sign_ok (t, w)"
    using keyword_table_ok sign_table_ok unfolding list_all_iff by blast
  then show ?thesis
  proof
    assume "keyword_ok (t, w)"
    then show ?thesis
      using lex_word_reads [OF st assms(3)] w by (simp add: keyword_ok_def reads_def)
  next
    assume "sign_ok (t, w)"
    then show ?thesis
      using sign_reads [OF _ st assms(3)] w by (simp add: reads_def advance_def)
  qed
qed

lemma name_reads:
  assumes "lexeme_ok (Name s)" "standing lx (s @ r)" "spaced r"
  shows "lex_token lx = Inr (SUCCESS, ID_T, reads (Name s) lx)"
  using lex_word_reads [OF assms(2,3)] assms(1) by (simp add: reads_def)

lemma text_reads:
  assumes "lexeme_ok (Text s)" "standing lx (lexeme_text (Text s) @ r)"
  shows "lex_token lx = Inr (SUCCESS, STRING_T, reads (Text s) lx)"
proof -
  have st: "standing lx (quote # s @ quote # r)" using assms(2) by simp
  note at = standing_Cons [OF st] standing_input_at [OF st]
  have "takeWhile (\<lambda>c. c \<noteq> quote) (s @ quote # r) = s"
    using assms(1) by (subst takeWhile_append2) auto
  with at(3) have run: "run_of (\<lambda>c. c \<noteq> quote) (lx_p lx + 1) (lx_input lx) = s"
    by (simp add: run_of_def)
  have "\<not> is_id_start quote" "\<not> is_digit quote" "quote \<noteq> CHR ''0''" "quote \<noteq> CHR ''-''" "quote \<noteq> CHR ''<''"
    by (simp_all add: quote_def is_id_start_def is_digit_def char_between_def)
  then show ?thesis
    using at assms(1) run by (simp add: lex_token_def lex_string_def Let_def reads_def)
qed


lemma nat_number_reads:
  assumes "long_range (int n)" "standing lx (nat_digits n @ r)" "spaced r"
  shows "lex_token lx =
    Inr (SUCCESS, INTEGER_T, lx\<lparr>lx_p := lx_p lx + length (nat_digits n), lx_val := Any_Long (int n)\<rparr>)"
proof -
  obtain c w' where w: "nat_digits n = c # w'" using nat_digits_nonempty by (cases "nat_digits n") auto
  have st: "standing lx (c # w' @ r)" using assms(2) by (simp add: w)
  note at = standing_Cons(1) [OF st] standing_input_at [OF st]
  have d: "is_digit c" "\<not> is_id_start c"
    using nat_digits_digits [of n] digit_not_id by (simp_all add: w)
  have "\<not> (c = CHR ''0'' \<and> next_is is_digit lx)"
  proof (cases "n = 0")
    case True
    have "\<not> is_digit (CHR '' '')" by (simp add: is_digit_def char_between_def)
    with True show ?thesis using standing_not_next [of lx c r] st assms(3) w by (auto simp: nat_digits_zero)
  next
    case False
    then show ?thesis using nat_digits_hd [of n] by (simp add: w)
  qed
  moreover have "parse_num lx =
      Inr (INTEGER_T, lx\<lparr>lx_p := lx_p lx + length (nat_digits n), lx_val := Any_Long (int n)\<rparr>)"
    using parse_num_reads [OF assms(2,3) nat_digits_digits] assms(1) by (simp add: digits_val_nat_digits)
  ultimately show ?thesis
    using at d by (simp add: lex_token_def number_token_def)
qed

lemma neg_number_reads:
  assumes "long_range (int n)" "standing lx (CHR ''-'' # nat_digits n @ r)" "spaced r"
  shows "lex_token lx =
    Inr (SUCCESS, INTEGER_T, lx\<lparr>lx_p := lx_p lx + 1 + length (nat_digits n), lx_val := Any_Long (- int n)\<rparr>)"
proof -
  note at = standing_Cons [OF assms(2)] standing_input_at [OF assms(2)]
  obtain c w' where w: "nat_digits n = c # w'" using nat_digits_nonempty by (cases "nat_digits n") auto
  have "is_digit c" using nat_digits_digits [of n] by (simp add: w)
  then have nx: "next_is is_digit lx" using assms(2) standing_next_is by (simp add: w)
  have "standing (advance 1 lx) (nat_digits n @ r)"
    using at by (simp add: standing_def advance_def)
  from parse_num_reads [OF this assms(3) nat_digits_digits] assms(1)
  have "parse_num (advance 1 lx) =
      Inr (INTEGER_T, lx\<lparr>lx_p := lx_p lx + 1 + length (nat_digits n), lx_val := Any_Long (int n)\<rparr>)"
    by (simp add: digits_val_nat_digits advance_def)
  moreover have "to_long (int n * - 1) = Inr (- int n)"
    using assms(1) by (simp add: to_long_def long_range_def)
  ultimately have "lex_minus lx =
      Inr (SUCCESS, INTEGER_T, lx\<lparr>lx_p := lx_p lx + 1 + length (nat_digits n), lx_val := Any_Long (- int n)\<rparr>)"
    using nx by (simp add: lex_minus_def negate_val_def any_long_def)
  then show ?thesis
    using at by (simp add: lex_token_def is_id_start_def is_digit_def char_between_def)
qed

lemma number_reads:
  assumes "lexeme_ok (Number n)" "standing lx (lexeme_text (Number n) @ r)" "spaced r"
  shows "lex_token lx = Inr (SUCCESS, INTEGER_T, reads (Number n) lx)"
proof (cases "n < 0")
  case True
  with assms have "long_range (int (nat (- n)))" "standing lx (CHR ''-'' # nat_digits (nat (- n)) @ r)"
    by (auto simp: long_range_def long_to_string_def)
  from neg_number_reads [OF this assms(3)] True show ?thesis
    by (simp add: reads_def long_to_string_def)
next
  case False
  with assms have "long_range (int (nat n))" "standing lx (nat_digits (nat n) @ r)"
    by (auto simp: long_to_string_def)
  from nat_number_reads [OF this assms(3)] False show ?thesis
    by (simp add: reads_def long_to_string_def)
qed

lemma lexeme_reads:
  assumes "lexeme_ok l" "standing lx (lexeme_text l @ r)" "spaced r"
  shows "lex_token lx = Inr (SUCCESS, lexeme_token l, reads l lx)"
proof (cases l)
  case (Mark t)
  then show ?thesis using mark_reads assms by simp
next
  case (Name s)
  then show ?thesis using name_reads [of s lx r] assms by simp
next
  case (Number n)
  then show ?thesis using number_reads assms by simp
next
  case (Text s)
  then show ?thesis using text_reads assms by simp
qed

section \<open>Reading a sequence\<close>

text \<open>The lexer stands before the lexemes; reading one stands before the rest.\<close>

definition before :: "lexer \<Rightarrow> lexeme list \<Rightarrow> bool" where
  "before lx ls \<longleftrightarrow> standing lx (print_lexemes ls) \<and> list_all lexeme_ok ls"

definition step_over :: "lexeme \<Rightarrow> lexer \<Rightarrow> lexer" where
  "step_over l lx = reads l (advance 1 lx)"

lemma lexeme_text_no_blank:
  assumes "lexeme_ok l"
  shows "lexeme_text l \<noteq> [] \<and> hd (lexeme_text l) \<noteq> CHR '' ''"
proof (cases l)
  case (Mark t)
  with assms obtain w where w: "map_of mark_table t = Some w" by auto
  then have "(t, w) \<in> set mark_table" using map_of_SomeD by fast
  moreover have "list_all (\<lambda>(t, w). w \<noteq> [] \<and> hd w \<noteq> CHR '' '') mark_table" by code_simp
  ultimately have "w \<noteq> [] \<and> hd w \<noteq> CHR '' ''" by (auto simp: list_all_iff)
  with w Mark show ?thesis by simp
next
  case (Name s)
  with assms show ?thesis by (auto simp: is_id_start_def char_between_def)
next
  case (Number n)
  have "is_digit (hd (nat_digits k))" for k
    using nat_digits_digits [of k] nat_digits_nonempty [of k] by (cases "nat_digits k") auto
  moreover have "\<not> is_digit (CHR '' '')" by (simp add: is_digit_def char_between_def)
  ultimately have "hd (nat_digits k) \<noteq> CHR '' ''" for k by metis
  with Number show ?thesis by (simp add: long_to_string_def nat_digits_nonempty)
next
  case (Text s)
  then show ?thesis by (simp add: quote_def)
qed

lemma before_Cons:
  assumes "before lx (l # ls)"
  shows "internal_next lx = Inr (SUCCESS, lexeme_token l, lx_p lx, step_over l lx)"
    "before (step_over l lx) ls"
proof -
  let ?w = "lexeme_text l"
  have st: "standing lx (CHR '' '' # ?w @ print_lexemes ls)" and ok: "lexeme_ok l" "list_all lexeme_ok ls"
    using assms by (simp_all add: before_def)
  note at = standing_Cons [OF st]
  obtain c w' where w: "?w = c # w'" "c \<noteq> CHR '' ''"
    using lexeme_text_no_blank [OF ok(1)] by (cases ?w) auto
  have "drop (lx_p lx) (lx_input lx) = CHR '' '' # c # w' @ print_lexemes ls"
    using st by (simp add: standing_def w)
  then have sk: "skip_blank lx = advance 1 lx"
    using w(2) by (simp add: skip_blank_def advance_def)
  have st1: "standing (advance 1 lx) (?w @ print_lexemes ls)"
    using at by (simp add: standing_def advance_def)
  from lexeme_reads [OF ok(1) this]
  show "internal_next lx = Inr (SUCCESS, lexeme_token l, lx_p lx, step_over l lx)"
    by (simp add: internal_next_def sk step_over_def)
  show "before (step_over l lx) ls"
    using standing_append [OF st1] ok(2)
    by (simp add: before_def standing_def step_over_def reads_def advance_def)
qed


definition pass :: "lexeme \<Rightarrow> lexer \<Rightarrow> lexer" where
  "pass l lx = (step_over l lx)\<lparr>lx_p := lx_p lx\<rparr>"

lemma before_set_val [simp]: "before (lx\<lparr>lx_val := v\<rparr>) ls = before lx ls"
  by (simp add: before_def standing_def)

lemma step_over_val [simp]:
  "lx_val (step_over l lx) = (case lexeme_val l of Some v \<Rightarrow> v | None \<Rightarrow> lx_val lx)"
  by (simp add: step_over_def reads_def advance_def split: option.splits)

lemma before_pass: "before lx (l # ls) \<Longrightarrow> before (pass l lx) (l # ls)"
  by (simp add: before_def standing_def pass_def step_over_def reads_def advance_def)

lemma before_next: "before lx (l # ls) \<Longrightarrow> lex_next lx = Inr (SUCCESS, lexeme_token l, step_over l lx)"
  by (simp add: lex_next_def before_Cons)

lemma before_peek: "before lx (l # ls) \<Longrightarrow> lex_peek lx = Inr (SUCCESS, lexeme_token l, pass l lx)"
  by (simp add: lex_peek_def before_Cons pass_def)

lemma before_next_if:
  "before lx (l # ls) \<Longrightarrow>
   lex_next_if t lx =
     (if lexeme_token l = t then Inr (SUCCESS, t, step_over l lx)
      else Inr (SYNTAX_ERROR, lexeme_token l, pass l lx))"
  by (auto simp: lex_next_if_def before_Cons pass_def)

lemma before_end:
  assumes "before lx []" "t \<noteq> BAD_EXPR"
  shows "lex_next_if t lx = Inr (SYNTAX_ERROR, BAD_EXPR, lx)"
proof -
  have e: "lx_p lx = length (lx_input lx)"
    using assms(1) by (simp add: before_def standing_def)
  then have "skip_blank lx = lx" by (simp add: skip_blank_def)
  with e assms(2) show ?thesis
    by (simp add: lex_next_if_def internal_next_def lex_token_def input_at_def)
qed

lemma before_name:
  "take_string (step_over (Name s) lx) = Inr (s, (step_over (Name s) lx)\<lparr>lx_val := Any_String []\<rparr>)"
  by (simp add: take_string_def any_string_def)

lemmas lexing = before_Cons(2) before_pass before_next before_peek before_next_if before_name

lemma before_init: "list_all lexeme_ok ls \<Longrightarrow> before (lexer_init (print_lexemes ls)) ls"
  by (simp add: before_def standing_def lexer_init_def)

end
