(* ===== verification/Sql_Ast.thy ===== *)
theory Sql_Ast
  imports Sql_Lexer
begin

text \<open>
  The statements of \<open>src/sql/parser/ast.hpp\<close>. A \<open>Value\<close> is a \<open>std::any\<close> and a type tag, which the
  program keeps in step by hand: a cast to another type throws.
\<close>

datatype cond_op = UNDEFINED_OP | NOT_EQ | EQ | GREATER | SMALLER | IS | IS_NOT | IN

definition token2op :: "token \<Rightarrow> cond_op" where
  "token2op t =
     (case t of NOT_EQ_T \<Rightarrow> NOT_EQ | ASSIGN_T \<Rightarrow> EQ | GREATER_T \<Rightarrow> GREATER | SMALLER_T \<Rightarrow> SMALLER
      | IN_T \<Rightarrow> IN | IS_T \<Rightarrow> IS | _ \<Rightarrow> UNDEFINED_OP)"

datatype attr_type = UNDEFINED_ATTR | REL_ATTR | STRING | INTS | FLOATS | NULL_A | QUERY

section \<open>Values\<close>

record sql_value =
  v_any :: any
  v_type :: attr_type

definition value_default :: sql_value where
  "value_default = \<lparr>v_any = Any_Empty, v_type = UNDEFINED_ATTR\<rparr>"

text \<open>\<open>init\<close> for the types that have one.\<close>

definition value_int :: "int \<Rightarrow> sql_value" where
  "value_int n = \<lparr>v_any = Any_Long n, v_type = INTS\<rparr>"

definition value_float :: "32 word \<Rightarrow> sql_value" where
  "value_float f = \<lparr>v_any = Any_Float f, v_type = FLOATS\<rparr>"

definition value_string :: "string \<Rightarrow> sql_value" where
  "value_string s = \<lparr>v_any = Any_String s, v_type = STRING\<rparr>"

definition value_rel :: "rel_attr \<Rightarrow> sql_value" where
  "value_rel r = \<lparr>v_any = Any_Rel r, v_type = REL_ATTR\<rparr>"

definition value_null :: sql_value where
  "value_null = \<lparr>v_any = Any_Empty, v_type = NULL_A\<rparr>"

text \<open>\<open>std::string::compare\<close>: bytes as unsigned numbers, of which only the sign counts.\<close>

fun string_compare :: "string \<Rightarrow> string \<Rightarrow> int" where
  "string_compare [] [] = 0"
| "string_compare [] (b # bs) = - 1"
| "string_compare (a # as) [] = 1"
| "string_compare (a # as) (b # bs) =
     (if (of_char a :: nat) < of_char b then - 1
      else if (of_char b :: nat) < of_char a then 1 else string_compare as bs)"

definition value_compare :: "sql_value \<Rightarrow> sql_value \<Rightarrow> int res" where
  "value_compare a b =
     (if v_type a \<noteq> v_type b then Inl Assert_Failed
      else case v_type b of
        INTS \<Rightarrow>
          andthen (any_long (v_any a)) (\<lambda>x. andthen (any_long (v_any b)) (\<lambda>y.
          andthen (to_long (x - y)) (\<lambda>d. Inr (to_int d))))
      | FLOATS \<Rightarrow>
          andthen (any_float (v_any a)) (\<lambda>x. andthen (any_float (v_any b)) (\<lambda>y. float_diff_int x y))
      | STRING \<Rightarrow>
          andthen (any_string (v_any a)) (\<lambda>x. andthen (any_string (v_any b)) (\<lambda>y. Inr (string_compare x y)))
      | _ \<Rightarrow> Inl Assert_Failed)"

definition value_to_string :: "sql_value \<Rightarrow> string res" where
  "value_to_string v =
     (case v_type v of
        REL_ATTR \<Rightarrow> andthen (any_rel (v_any v)) (\<lambda>r. Inr (ra_table r @ ''.'' @ ra_attribute r))
      | STRING \<Rightarrow> any_string (v_any v)
      | INTS \<Rightarrow> andthen (any_long (v_any v)) (\<lambda>n. Inr (long_to_string n))
      | FLOATS \<Rightarrow> andthen (any_float (v_any v)) (\<lambda>f. Inr (float_to_string f))
      | NULL_A \<Rightarrow> Inr ''null''
      | QUERY \<Rightarrow> any_string (v_any v)
      | UNDEFINED_ATTR \<Rightarrow> Inr [])"

text \<open>The tag tells what the any holds.\<close>

definition value_ok :: "sql_value \<Rightarrow> bool" where
  "value_ok v \<longleftrightarrow>
     (case v_type v of
        INTS \<Rightarrow> (\<exists>n. v_any v = Any_Long n \<and> long_range n)
      | FLOATS \<Rightarrow> (\<exists>f. v_any v = Any_Float f)
      | STRING \<Rightarrow> (\<exists>s. v_any v = Any_String s)
      | REL_ATTR \<Rightarrow> (\<exists>r. v_any v = Any_Rel r)
      | NULL_A \<Rightarrow> True
      | _ \<Rightarrow> False)"

section \<open>Statements\<close>

record condition =
  c_left :: sql_value
  c_right :: sql_value
  c_op :: cond_op

definition condition_default :: condition where
  "condition_default = \<lparr>c_left = value_default, c_right = value_default, c_op = UNDEFINED_OP\<rparr>"

record select_stmt =
  selist :: "rel_attr list"
  from_list :: "string list"
  cond_list :: "condition list"

record delete_stmt =
  d_tables :: "string list"
  d_conds :: "condition list"

record insert_stmt =
  i_table_name :: string
  i_cols :: "string list"
  i_values :: "sql_value list"

record col_attr =
  ca_name :: string
  ca_type :: string
  ca_size :: size_t

record create_table_stmt =
  ct_col_attrs :: "col_attr list"
  ct_table_name :: string

record drop_stmt =
  ds_table :: string

datatype query_stmt =
    Select select_stmt
  | Delete delete_stmt
  | Insert insert_stmt
  | Create_Table create_table_stmt
  | Drop drop_stmt

definition select_default :: select_stmt where
  "select_default = \<lparr>selist = [], from_list = [], cond_list = []\<rparr>"

datatype query_type = SELECT_Q | INSERT_Q | DELETE_Q | CREATE_Q | DROP_Q

definition is_select :: "query_stmt \<Rightarrow> bool" where
  "is_select q \<longleftrightarrow> (case q of Select _ \<Rightarrow> True | _ \<Rightarrow> False)"

definition is_insert :: "query_stmt \<Rightarrow> bool" where
  "is_insert q \<longleftrightarrow> (case q of Insert _ \<Rightarrow> True | _ \<Rightarrow> False)"

definition is_delete :: "query_stmt \<Rightarrow> bool" where
  "is_delete q \<longleftrightarrow> (case q of Delete _ \<Rightarrow> True | _ \<Rightarrow> False)"

definition is_create_table :: "query_stmt \<Rightarrow> bool" where
  "is_create_table q \<longleftrightarrow> (case q of Create_Table _ \<Rightarrow> True | _ \<Rightarrow> False)"

definition is_drop :: "query_stmt \<Rightarrow> bool" where
  "is_drop q \<longleftrightarrow> (case q of Drop _ \<Rightarrow> True | _ \<Rightarrow> False)"

text \<open>\<open>SqlStmt\<close>: the query and the type its constructor stores beside it.\<close>

definition sql_stmt_type :: "query_stmt \<Rightarrow> query_type" where
  "sql_stmt_type q =
     (if is_select q then SELECT_Q else if is_insert q then INSERT_Q else if is_delete q then DELETE_Q
      else if is_create_table q then CREATE_Q else DROP_Q)"

definition where_is_vaild :: "query_stmt \<Rightarrow> bool res" where
  "where_is_vaild q = (case q of Select s \<Rightarrow> Inr (cond_list s \<noteq> []) | _ \<Rightarrow> Inl Uncaught_Exception)"

section \<open>Comparing\<close>

lemma string_compare_zero: "string_compare a b = 0 \<longleftrightarrow> a = b"
  by (induction a b rule: string_compare.induct) (auto simp: of_char_eq_iff)

lemma string_compare_swap: "string_compare b a = - string_compare a b"
  by (induction a b rule: string_compare.induct) auto

lemma string_compare_trans:
  "string_compare a b < 0 \<Longrightarrow> string_compare b c < 0 \<Longrightarrow> string_compare a c < 0"
proof (induction a b arbitrary: c rule: string_compare.induct)
  case (2 b bs)
  then show ?case by (cases c) auto
next
  case (4 a as b bs)
  define x y where "x = (of_char a :: nat)" and "y = (of_char b :: nat)"
  obtain d ds where c: "c = d # ds" using 4(3) by (cases c) auto
  define z where "z = (of_char d :: nat)"
  note defs = x_def [symmetric] y_def [symmetric] z_def [symmetric]
  show ?case
    using 4(1) [of ds] 4(2,3) by (simp add: c defs split: if_splits)
qed auto

text \<open>
  Integers compare as such as long as they are less than \<open>2 ^ 31\<close> apart; the comparison depends on the
  low 32 bits of the difference only.
\<close>

lemma compare_ints:
  assumes "long_range (m - n)"
  shows "value_compare (value_int m) (value_int n) = Inr (to_int (m - n))"
  using assms by (simp add: value_compare_def value_int_def any_long_def to_long_def)

lemma compare_strings: "value_compare (value_string s) (value_string t) = Inr (string_compare s t)"
  by (simp add: value_compare_def value_string_def any_string_def)

end
