(* ===== verification/Sql_Parser.thy ===== *)
theory Sql_Parser
  imports Sql_Ast
begin

text \<open>
  \<open>Parser\<close> of \<open>src/sql/parser/parser.hpp\<close>. A parsing function returns the code, what it has put into
  its out-parameter by then, and the lexer. The loops are recursions; each round consumes a token,
  which is what their termination proofs show. \<open>do_parse\<close> returns the code and the query.
\<close>

section \<open>Names and values\<close>

text \<open>The second half of an attribute \<open>name\<close> or \<open>table.name\<close> in a select list.\<close>

definition parse_dot :: "string \<Rightarrow> lexer \<Rightarrow> (rc \<times> rel_attr \<times> lexer) res" where
  "parse_dot name lx =
     andthen (lex_peek lx) (\<lambda>(_, tk, lx).
     if tk = DOT_T
     then
       andthen (lex_next lx) (\<lambda>(_, _, lx).
       andthen (lex_next_if ID_T lx) (\<lambda>(rc, _, lx).
       if rc \<noteq> SUCCESS then Inr (rc, \<lparr>ra_table = name, ra_attribute = []\<rparr>, lx)
       else andthen (take_string lx) (\<lambda>(a, lx). Inr (SUCCESS, \<lparr>ra_table = name, ra_attribute = a\<rparr>, lx))))
     else Inr (SUCCESS, \<lparr>ra_table = [], ra_attribute = name\<rparr>, lx))"

text \<open>An attribute of a condition.\<close>

definition parse_rel :: "lexer \<Rightarrow> (rc \<times> sql_value \<times> lexer) res" where
  "parse_rel lx =
     andthen (take_string lx) (\<lambda>(name, lx).
     andthen (lex_next_if DOT_T lx) (\<lambda>(rc1, _, lx).
     if rc1 = SUCCESS
     then
       andthen (lex_next_if ID_T lx) (\<lambda>(rc2, _, lx).
       if rc2 \<noteq> SUCCESS then Inr (rc2, value_rel \<lparr>ra_table = name, ra_attribute = []\<rparr>, lx)
       else andthen (take_string lx) (\<lambda>(a, lx).
            Inr (SUCCESS, value_rel \<lparr>ra_table = name, ra_attribute = a\<rparr>, lx)))
     else Inr (SUCCESS, value_rel \<lparr>ra_table = [], ra_attribute = name\<rparr>, lx)))"

definition parse_value :: "lexer \<Rightarrow> (rc \<times> sql_value \<times> lexer) res" where
  "parse_value lx =
     andthen (lex_next lx) (\<lambda>(rc, tk, lx).
     if rc \<noteq> SUCCESS then Inr (rc, value_default, lx)
     else if tk = ID_T then parse_rel lx
     else if tk = FLOAT_T then andthen (any_float (lx_val lx)) (\<lambda>f. Inr (SUCCESS, value_float f, lx))
     else if tk = INTEGER_T then andthen (any_long (lx_val lx)) (\<lambda>n. Inr (SUCCESS, value_int n, lx))
     else if tk = STRING_T
     then Inr (SUCCESS, \<lparr>v_any = lx_val lx, v_type = STRING\<rparr>, lx\<lparr>lx_val := Any_Empty\<rparr>)
     else if tk = NULL_T then Inr (SUCCESS, value_null, lx)
     else Inl Assert_Failed)"

section \<open>Progress of the pieces\<close>

lemma parse_dot_left: "parse_dot name lx = Inr (rc, r, lx') \<Longrightarrow> lex_left lx' \<le> lex_left lx"
  by (auto simp: parse_dot_def res_simps split: if_splits
      dest!: lex_peek_left lex_next_left(1) lex_next_if_left(1) take_string_left)

lemma parse_rel_left: "parse_rel lx = Inr (rc, v, lx') \<Longrightarrow> lex_left lx' \<le> lex_left lx"
  by (auto simp: parse_rel_def res_simps split: if_splits dest!: lex_next_if_left(1) take_string_left)

lemma lex_left_set_val [simp]: "lex_left (lx\<lparr>lx_val := v\<rparr>) = lex_left lx"
  by (simp add: lex_left_def)

lemma parse_value_left:
  assumes "parse_value lx = Inr (rc, v, lx')"
  shows "lex_left lx' \<le> lex_left lx" "rc = SUCCESS \<Longrightarrow> lex_left lx' < lex_left lx"
proof -
  from assms obtain rc1 tk lx1 where n: "lex_next lx = Inr (rc1, tk, lx1)"
    and r: "rc1 = SUCCESS \<Longrightarrow> tk \<in> {ID_T, FLOAT_T, INTEGER_T, STRING_T, NULL_T} \<and> lex_left lx' \<le> lex_left lx1"
           "rc1 \<noteq> SUCCESS \<Longrightarrow> rc = rc1 \<and> lx' = lx1"
    by (auto simp: parse_value_def res_simps split: if_splits dest: parse_rel_left)
  show "lex_left lx' \<le> lex_left lx" "rc = SUCCESS \<Longrightarrow> lex_left lx' < lex_left lx"
    using lex_next_left [OF n] r by (cases "rc1 = SUCCESS"; force)+
qed

section \<open>Lists\<close>

function parse_attrs :: "lexer \<Rightarrow> rel_attr list \<Rightarrow> (rc \<times> rel_attr list \<times> lexer) res" where
  "parse_attrs lx attrs =
     andthen (lex_next lx) (\<lambda>(rc, tk, lx).
     if rc \<noteq> SUCCESS then Inr (rc, attrs, lx)
     else if tk = STAR_T
     then (if attrs \<noteq> [] then Inr (SYNTAX_ERROR, attrs, lx)
           else Inr (rc, attrs @ [\<lparr>ra_table = [], ra_attribute = ''*''\<rparr>], lx))
     else if tk \<noteq> ID_T then Inr (SYNTAX_ERROR, attrs, lx)
     else
       andthen (take_string lx) (\<lambda>(name, lx).
       andthen (parse_dot name lx) (\<lambda>(rc, rel, lx).
       if rc \<noteq> SUCCESS then Inr (rc, attrs, lx)
       else
         andthen (lex_next_if COMMAS_T lx) (\<lambda>(rc, _, lx).
         if rc \<noteq> SUCCESS then Inr (SUCCESS, attrs @ [rel], lx)
         else parse_attrs lx (attrs @ [rel])))))"
  by pat_completeness auto
termination
  by (relation "measure (lex_left \<circ> fst)")
    (auto dest!: lex_next_left(2) take_string_left parse_dot_left lex_next_if_left(1))

function parse_cols :: "lexer \<Rightarrow> string list \<Rightarrow> (rc \<times> string list \<times> lexer) res" where
  "parse_cols lx cols =
     andthen (lex_next_if ID_T lx) (\<lambda>(rc, _, lx).
     if rc \<noteq> SUCCESS then Inr (rc, cols, lx)
     else
       andthen (take_string lx) (\<lambda>(col, lx).
       andthen (lex_next_if COMMAS_T lx) (\<lambda>(rc1, _, lx).
       if rc1 \<noteq> SUCCESS then Inr (SUCCESS, cols @ [col], lx)
       else parse_cols lx (cols @ [col]))))"
  by pat_completeness auto
termination
  by (relation "measure (lex_left \<circ> fst)")
    (auto dest!: lex_next_if_left(2) take_string_left)

function parse_values :: "lexer \<Rightarrow> sql_value list \<Rightarrow> (rc \<times> sql_value list \<times> lexer) res" where
  "parse_values lx values =
     andthen (parse_value lx) (\<lambda>(rc, v, lx).
     if \<not> rc_success rc then Inr (rc, values, lx)
     else if v_type v = REL_ATTR \<or> v_type v = UNDEFINED_ATTR then Inr (SYNTAX_ERROR, values, lx)
     else
       andthen (lex_next_if COMMAS_T lx) (\<lambda>(rc1, _, lx).
       if rc1 \<noteq> SUCCESS then Inr (SUCCESS, values @ [v], lx)
       else parse_values lx (values @ [v])))"
  by pat_completeness auto
termination
  by (relation "measure (lex_left \<circ> fst)")
    (auto simp: rc_success_def dest!: parse_value_left(2) lex_next_if_left(1))

text \<open>The loop of \<open>parse_from\<close> is the one of \<open>parse_cols\<close>.\<close>

definition parse_from :: "lexer \<Rightarrow> string list \<Rightarrow> (rc \<times> string list \<times> lexer) res" where
  "parse_from lx tables =
     andthen (lex_next lx) (\<lambda>(rc, tk, lx).
     if rc \<noteq> SUCCESS \<or> tk \<noteq> FROM_T then Inr (SYNTAX_ERROR, tables, lx) else parse_cols lx tables)"

function parse_cond_list :: "lexer \<Rightarrow> condition list \<Rightarrow> (rc \<times> condition list \<times> lexer) res" where
  "parse_cond_list lx conds =
     andthen (parse_value lx) (\<lambda>(rc, left, lx).
     if rc \<noteq> SUCCESS then Inr (rc, conds, lx)
     else
       andthen (lex_next lx) (\<lambda>(rc1, tk1, lx).
       if rc1 \<noteq> SUCCESS then Inr (rc1, conds, lx)
       else if token2op tk1 = UNDEFINED_OP then Inr (SYNTAX_ERROR, conds, lx)
       else
         andthen (parse_value lx) (\<lambda>(rc, right, lx).
         if rc \<noteq> SUCCESS then Inr (rc, conds, lx)
         else
           let conds' = conds @ [\<lparr>c_left = left, c_right = right, c_op = token2op tk1\<rparr>] in
           andthen (lex_next_if COMMAS_T lx) (\<lambda>(rc2, _, lx).
           if rc2 \<noteq> SUCCESS then Inr (SUCCESS, conds', lx) else parse_cond_list lx conds'))))"
  by pat_completeness auto
termination
  by (relation "measure (lex_left \<circ> fst)")
    (auto dest!: parse_value_left(2) lex_next_left(1) lex_next_if_left(1))

definition parse_conds :: "lexer \<Rightarrow> condition list \<Rightarrow> (rc \<times> condition list \<times> lexer) res" where
  "parse_conds lx conds =
     andthen (lex_next lx) (\<lambda>(rc, tk, lx).
     if rc \<noteq> SUCCESS then Inr (rc, conds, lx)
     else if tk \<noteq> WHERE_T then Inr (if tk = COLON_T then SUCCESS else SYNTAX_ERROR, conds, lx)
     else parse_cond_list lx conds)"

section \<open>Columns\<close>

text \<open>The length in brackets after \<open>CHAR\<close> or \<open>VARCHAR\<close>.\<close>

definition parse_char_size :: "col_attr \<Rightarrow> lexer \<Rightarrow> (rc \<times> col_attr \<times> lexer) res" where
  "parse_char_size c lx =
     andthen (lex_next_if LBRACE_T lx) (\<lambda>(rc, _, lx).
     if \<not> rc_success rc then Inr (SYNTAX_ERROR, c, lx)
     else
       andthen (lex_next_if INTEGER_T lx) (\<lambda>(rc, _, lx).
       if \<not> rc_success rc then Inr (SYNTAX_ERROR, c, lx)
       else
         andthen (any_long (lx_val lx)) (\<lambda>n.
         andthen (lex_next_if RBRACE_T lx) (\<lambda>(rc, _, lx).
         if \<not> rc_success rc then Inr (SYNTAX_ERROR, c\<lparr>ca_size := of_int n\<rparr>, lx)
         else Inr (SUCCESS, c\<lparr>ca_size := of_int n\<rparr>, lx)))))"

definition parse_col_data_type :: "col_attr \<Rightarrow> lexer \<Rightarrow> (rc \<times> col_attr \<times> lexer) res" where
  "parse_col_data_type c lx =
     andthen (lex_next lx) (\<lambda>(rc, tk, lx).
     if \<not> rc_success rc then Inr (SYNTAX_ERROR, c, lx)
     else if tk = S_INT_T then Inr (SUCCESS, c\<lparr>ca_type := ''INT''\<rparr>, lx)
     else if tk = S_FLOAT_T then Inr (SUCCESS, c\<lparr>ca_type := ''FLOAT''\<rparr>, lx)
     else if tk = S_CHAR_T \<or> tk = S_VARCHAR_T
     then parse_char_size (c\<lparr>ca_type := (if tk = S_CHAR_T then ''CHAR'' else ''VARCHAR'')\<rparr>) lx
     else Inr (SYNTAX_ERROR, c, lx))"

lemma parse_char_size_left: "parse_char_size c lx = Inr (rc, c', lx') \<Longrightarrow> lex_left lx' \<le> lex_left lx"
  by (auto simp: parse_char_size_def res_simps split: if_splits dest!: lex_next_if_left(1))

lemma parse_col_data_type_left:
  "parse_col_data_type c lx = Inr (rc, c', lx') \<Longrightarrow> lex_left lx' \<le> lex_left lx"
  by (auto simp: parse_col_data_type_def res_simps split: if_splits
      dest!: lex_next_left(1) parse_char_size_left)

function parse_col_attrs :: "lexer \<Rightarrow> col_attr list \<Rightarrow> (rc \<times> col_attr list \<times> lexer) res" where
  "parse_col_attrs lx cas =
     andthen (lex_next_if ID_T lx) (\<lambda>(rc, _, lx).
     if \<not> rc_success rc then Inr (SYNTAX_ERROR, cas, lx)
     else
       andthen (take_string lx) (\<lambda>(name, lx).
       andthen (parse_col_data_type \<lparr>ca_name = name, ca_type = [], ca_size = 0\<rparr> lx) (\<lambda>(rc, c, lx).
       if \<not> rc_success rc then Inr (SYNTAX_ERROR, cas, lx)
       else
         andthen (lex_next_if COMMAS_T lx) (\<lambda>(rc, _, lx).
         if \<not> rc_success rc then Inr (SUCCESS, cas @ [c], lx)
         else parse_col_attrs lx (cas @ [c])))))"
  by pat_completeness auto
termination
  by (relation "measure (lex_left \<circ> fst)")
    (auto simp: rc_success_def dest!: lex_next_if_left(2) take_string_left parse_col_data_type_left)

declare parse_attrs.simps [simp del] parse_cols.simps [simp del] parse_values.simps [simp del]
  parse_cond_list.simps [simp del] parse_col_attrs.simps [simp del]


section \<open>Statements\<close>

text \<open>
  A statement function gets the query of the parser, and returns the new one; \<open>parse_select\<close> fills
  the query in place, the others assign it at the end.
\<close>

definition parse_select :: "lexer \<Rightarrow> (rc \<times> query_stmt \<times> lexer) res" where
  "parse_select lx =
     andthen (lex_next lx) (\<lambda>(rc, token, lx).
     if token \<noteq> SELECT_T \<or> rc \<noteq> SUCCESS then Inl Assert_Failed
     else
       andthen (parse_attrs lx []) (\<lambda>(rc, attrs, lx).
       let select = select_default\<lparr>selist := attrs\<rparr> in
       if rc \<noteq> SUCCESS then Inr (rc, Select select, lx)
       else
         andthen (parse_from lx []) (\<lambda>(rc, tables, lx).
         let select = select\<lparr>from_list := tables\<rparr> in
         if rc \<noteq> SUCCESS then Inr (rc, Select select, lx)
         else
           andthen (parse_conds lx []) (\<lambda>(rc, conds, lx).
           Inr (rc, Select (select\<lparr>cond_list := conds\<rparr>), lx)))))"

definition parse_delete :: "query_stmt \<Rightarrow> lexer \<Rightarrow> (rc \<times> query_stmt \<times> lexer) res" where
  "parse_delete q lx =
     andthen (lex_next_if DELETE_T lx) (\<lambda>(rc, _, lx).
     if rc \<noteq> SUCCESS then Inr (rc, q, lx)
     else
       andthen (lex_next_if STAR_T lx) (\<lambda>(_, tk2, lx).
       andthen (parse_from lx []) (\<lambda>(rc, tables, lx).
       if rc \<noteq> SUCCESS then Inr (rc, q, lx)
       else
         andthen (lex_peek lx) (\<lambda>(_, tk3, lx).
         if tk3 = WHERE_T \<and> tk2 = STAR_T then Inr (SYNTAX_ERROR, q, lx)
         else
           andthen (parse_conds lx []) (\<lambda>(rc, conds, lx).
           if rc \<noteq> SUCCESS then Inr (rc, q, lx)
           else
             andthen (lex_next_if COLON_T lx) (\<lambda>(rc4, _, lx).
             Inr (rc4, Delete \<lparr>d_tables = tables, d_conds = conds\<rparr>, lx)))))))"

text \<open>The list of columns of an \<open>INSERT\<close>, up to the word \<open>VALUES\<close>.\<close>

definition parse_insert_cols :: "lexer \<Rightarrow> (rc \<times> string list \<times> lexer) res" where
  "parse_insert_cols lx =
     andthen (lex_next lx) (\<lambda>(rc, tk, lx).
     if rc \<noteq> SUCCESS then Inr (rc, [], lx)
     else if tk = LBRACE_T
     then
       andthen (parse_cols lx []) (\<lambda>(rc, cols, lx).
       if rc \<noteq> SUCCESS then Inr (rc, cols, lx)
       else
         andthen (lex_next_if RBRACE_T lx) (\<lambda>(rc, _, lx).
         if rc \<noteq> SUCCESS then Inr (SYNTAX_ERROR, cols, lx)
         else andthen (lex_next_if VALUES_T lx) (\<lambda>(rc1, _, lx). Inr (rc1, cols, lx))))
     else if tk = VALUES_T then Inr (SUCCESS, [], lx)
     else Inr (SYNTAX_ERROR, [], lx))"

text \<open>The list of values, its brackets and the semicolon.\<close>

definition parse_insert_values :: "lexer \<Rightarrow> (rc \<times> sql_value list \<times> lexer) res" where
  "parse_insert_values lx =
     andthen (lex_next_if LBRACE_T lx) (\<lambda>(rc1, _, lx).
     if rc1 \<noteq> SUCCESS then Inr (rc1, [], lx)
     else
       andthen (parse_values lx []) (\<lambda>(rc, values, lx).
       if rc \<noteq> SUCCESS then Inr (SYNTAX_ERROR, values, lx)
       else
         andthen (lex_next_if RBRACE_T lx) (\<lambda>(rc, _, lx).
         if rc \<noteq> SUCCESS then Inr (SYNTAX_ERROR, values, lx)
         else
           andthen (lex_next_if COLON_T lx) (\<lambda>(rc, _, lx).
           Inr (if rc \<noteq> SUCCESS then SYNTAX_ERROR else SUCCESS, values, lx)))))"

definition parse_insert :: "query_stmt \<Rightarrow> lexer \<Rightarrow> (rc \<times> query_stmt \<times> lexer) res" where
  "parse_insert q lx =
     andthen (lex_next_if INSERT_T lx) (\<lambda>(rc, _, lx).
     if rc \<noteq> SUCCESS then Inr (SYNTAX_ERROR, q, lx)
     else
       andthen (lex_next_if INTO_T lx) (\<lambda>(rc, _, lx).
       if rc \<noteq> SUCCESS then Inr (SYNTAX_ERROR, q, lx)
       else
         andthen (lex_next_if ID_T lx) (\<lambda>(rc, _, lx).
         if rc \<noteq> SUCCESS then Inr (SYNTAX_ERROR, q, lx)
         else
           andthen (take_string lx) (\<lambda>(name, lx).
           andthen (parse_insert_cols lx) (\<lambda>(rc, cols, lx).
           if rc \<noteq> SUCCESS then Inr (rc, q, lx)
           else
             andthen (parse_insert_values lx) (\<lambda>(rc, values, lx).
             if rc \<noteq> SUCCESS then Inr (rc, q, lx)
             else Inr (SUCCESS, Insert \<lparr>i_table_name = name, i_cols = cols, i_values = values\<rparr>, lx)))))))"

definition parse_create_table :: "query_stmt \<Rightarrow> lexer \<Rightarrow> (rc \<times> query_stmt \<times> lexer) res" where
  "parse_create_table q lx =
     andthen (lex_next_if TABLE_T lx) (\<lambda>(rc, _, lx).
     if \<not> rc_success rc then Inr (SYNTAX_ERROR, q, lx)
     else
       andthen (lex_next_if ID_T lx) (\<lambda>(rc, _, lx).
       if \<not> rc_success rc then Inr (SYNTAX_ERROR, q, lx)
       else
         andthen (take_string lx) (\<lambda>(name, lx).
         andthen (lex_next_if LBRACE_T lx) (\<lambda>(rc, _, lx).
         if \<not> rc_success rc then Inr (SYNTAX_ERROR, q, lx)
         else
           andthen (parse_col_attrs lx []) (\<lambda>(rc, cas, lx).
           if \<not> rc_success rc then Inr (SYNTAX_ERROR, q, lx)
           else
             andthen (lex_next_if RBRACE_T lx) (\<lambda>(rc, _, lx).
             if \<not> rc_success rc then Inr (SYNTAX_ERROR, q, lx)
             else
               andthen (lex_next_if COLON_T lx) (\<lambda>(rc, _, lx).
               if \<not> rc_success rc then Inr (SYNTAX_ERROR, q, lx)
               else Inr (SUCCESS, Create_Table \<lparr>ct_col_attrs = cas, ct_table_name = name\<rparr>, lx))))))))"

text \<open>The second test of the source is of a constant, hence absent.\<close>

definition parse_create :: "query_stmt \<Rightarrow> lexer \<Rightarrow> (rc \<times> query_stmt \<times> lexer) res" where
  "parse_create q lx =
     andthen (lex_next_if CREATE_T lx) (\<lambda>(rc, _, lx).
     if \<not> rc_success rc then Inr (SYNTAX_ERROR, q, lx)
     else
       andthen (lex_peek lx) (\<lambda>(_, tk, lx).
       if tk = TABLE_T then parse_create_table q lx else Inr (SYNTAX_ERROR, q, lx)))"

definition parse_drop :: "query_stmt \<Rightarrow> lexer \<Rightarrow> (rc \<times> query_stmt \<times> lexer) res" where
  "parse_drop q lx =
     andthen (lex_next lx) (\<lambda>(rc, tk, lx).
     if \<not> rc_success rc \<or> tk \<noteq> DROP_T then Inr (rc, q, lx)
     else
       andthen (lex_next lx) (\<lambda>(rc, tk, lx).
       if \<not> rc_success rc \<or> tk \<noteq> TABLE_T then Inr (rc, q, lx)
       else
         andthen (lex_next lx) (\<lambda>(rc, tk, lx).
         if \<not> rc_success rc \<or> tk \<noteq> ID_T then Inr (rc, q, lx)
         else
           andthen (take_string lx) (\<lambda>(name, lx).
           let q = Drop \<lparr>ds_table = name\<rparr> in
           andthen (lex_next lx) (\<lambda>(rc, tk, lx).
           Inr (if rc_success rc \<and> tk = COLON_T then SUCCESS else SYNTAX_ERROR, q, lx))))))"

definition do_parse :: "query_stmt \<Rightarrow> lexer \<Rightarrow> (rc \<times> query_stmt \<times> lexer) res" where
  "do_parse q lx =
     andthen (lex_peek lx) (\<lambda>(_, tk, lx).
     if tk = SELECT_T then parse_select lx
     else if tk = CREATE_T then parse_create q lx
     else if tk = DELETE_T then parse_delete q lx
     else if tk = INSERT_T then parse_insert q lx
     else if tk = DROP_T then parse_drop q lx
     else Inr (SYNTAX_ERROR, q, lx))"

text \<open>A new parser on a text, its \<open>do_parse\<close> and its \<open>query\<close>.\<close>

definition parse_sql :: "string \<Rightarrow> (rc \<times> query_stmt) res" where
  "parse_sql input =
     andthen (do_parse (Select select_default) (lexer_init input)) (\<lambda>(rc, q, _). Inr (rc, q))"

end
