(* ===== verification/Sql_Roundtrip.thy ===== *)
theory Sql_Roundtrip
  imports Sql_Text Sql_Parser
begin

text \<open>
  What the parser makes of a printed statement. A statement is printed as a sequence of lexemes; each
  parsing function, standing before what is printed of its result, returns that result and stands
  before the rest. The rest only has to begin with a lexeme the function does not take for a
  continuation.
\<close>

section \<open>Printing\<close>

fun commas :: "lexeme list list \<Rightarrow> lexeme list" where
  "commas [] = []"
| "commas [x] = x"
| "commas (x # y # xs) = x @ Mark COMMAS_T # commas (y # xs)"

definition attr_lexemes :: "rel_attr \<Rightarrow> lexeme list" where
  "attr_lexemes r =
     (if ra_table r = [] then [Name (ra_attribute r)]
      else [Name (ra_table r), Mark DOT_T, Name (ra_attribute r)])"

definition attr_ok :: "rel_attr \<Rightarrow> bool" where
  "attr_ok r \<longleftrightarrow>
     (ra_table r = [] \<or> lexeme_ok (Name (ra_table r))) \<and> lexeme_ok (Name (ra_attribute r))"

definition star_attr :: rel_attr where
  "star_attr = \<lparr>ra_table = [], ra_attribute = ''*''\<rparr>"

definition value_lexemes :: "sql_value \<Rightarrow> lexeme list" where
  "value_lexemes v =
     (case v_any v of
        Any_Long n \<Rightarrow> [Number n]
      | Any_String s \<Rightarrow> [Text s]
      | Any_Rel r \<Rightarrow> attr_lexemes r
      | _ \<Rightarrow> [Mark NULL_T])"

text \<open>The literals without a float: an integer, a string, \<open>NULL\<close>.\<close>

definition literal_ok :: "sql_value \<Rightarrow> bool" where
  "literal_ok v \<longleftrightarrow>
     (case v_any v of
        Any_Long n \<Rightarrow> v = value_int n \<and> lexeme_ok (Number n)
      | Any_String s \<Rightarrow> v = value_string s \<and> lexeme_ok (Text s)
      | _ \<Rightarrow> v = value_null)"

definition operand_ok :: "sql_value \<Rightarrow> bool" where
  "operand_ok v \<longleftrightarrow>
     (case v_any v of Any_Rel r \<Rightarrow> v = value_rel r \<and> attr_ok r | _ \<Rightarrow> literal_ok v)"

definition op_token :: "cond_op \<Rightarrow> token" where
  "op_token c =
     (case c of NOT_EQ \<Rightarrow> NOT_EQ_T | EQ \<Rightarrow> ASSIGN_T | GREATER \<Rightarrow> GREATER_T | SMALLER \<Rightarrow> SMALLER_T
      | IS \<Rightarrow> IS_T | IN \<Rightarrow> IN_T | _ \<Rightarrow> BAD_EXPR)"

definition op_ok :: "cond_op \<Rightarrow> bool" where
  "op_ok c \<longleftrightarrow> c \<noteq> UNDEFINED_OP \<and> c \<noteq> IS_NOT"

definition cond_lexemes :: "condition \<Rightarrow> lexeme list" where
  "cond_lexemes c = value_lexemes (c_left c) @ Mark (op_token (c_op c)) # value_lexemes (c_right c)"

definition cond_ok :: "condition \<Rightarrow> bool" where
  "cond_ok c \<longleftrightarrow> operand_ok (c_left c) \<and> operand_ok (c_right c) \<and> op_ok (c_op c)"

definition type_lexemes :: "col_attr \<Rightarrow> lexeme list" where
  "type_lexemes c =
     (if ca_type c = ''INT'' then [Mark S_INT_T]
      else if ca_type c = ''FLOAT'' then [Mark S_FLOAT_T]
      else [Mark (if ca_type c = ''CHAR'' then S_CHAR_T else S_VARCHAR_T), Mark LBRACE_T,
            Number (int (unat (ca_size c))), Mark RBRACE_T])"

definition col_ok :: "col_attr \<Rightarrow> bool" where
  "col_ok c \<longleftrightarrow>
     lexeme_ok (Name (ca_name c)) \<and>
     (if ca_type c = ''INT'' \<or> ca_type c = ''FLOAT'' then ca_size c = 0
      else (ca_type c = ''CHAR'' \<or> ca_type c = ''VARCHAR'') \<and> unat (ca_size c) < 2 ^ 63)"

definition names_lexemes :: "string list \<Rightarrow> lexeme list" where
  "names_lexemes ns = commas (map (\<lambda>n. [Name n]) ns)"

definition where_lexemes :: "condition list \<Rightarrow> lexeme list" where
  "where_lexemes cs = (if cs = [] then [] else Mark WHERE_T # commas (map cond_lexemes cs))"

fun stmt_lexemes :: "query_stmt \<Rightarrow> lexeme list" where
  "stmt_lexemes (Select s) =
     Mark SELECT_T # (if selist s = [star_attr] then [Mark STAR_T] else commas (map attr_lexemes (selist s))) @
     Mark FROM_T # names_lexemes (from_list s) @ where_lexemes (cond_list s) @ [Mark COLON_T]"
| "stmt_lexemes (Delete d) =
     [Mark DELETE_T, Mark FROM_T] @ names_lexemes (d_tables d) @ where_lexemes (d_conds d) @ [Mark COLON_T]"
| "stmt_lexemes (Insert i) =
     [Mark INSERT_T, Mark INTO_T, Name (i_table_name i)] @
     (if i_cols i = [] then [] else Mark LBRACE_T # names_lexemes (i_cols i) @ [Mark RBRACE_T]) @
     [Mark VALUES_T, Mark LBRACE_T] @ commas (map value_lexemes (i_values i)) @ [Mark RBRACE_T, Mark COLON_T]"
| "stmt_lexemes (Create_Table c) =
     [Mark CREATE_T, Mark TABLE_T, Name (ct_table_name c), Mark LBRACE_T] @
     commas (map (\<lambda>a. Name (ca_name a) # type_lexemes a) (ct_col_attrs c)) @ [Mark RBRACE_T, Mark COLON_T]"
| "stmt_lexemes (Drop d) = [Mark DROP_T, Mark TABLE_T, Name (ds_table d), Mark COLON_T]"

definition names_ok :: "string list \<Rightarrow> bool" where
  "names_ok ns \<longleftrightarrow> ns \<noteq> [] \<and> list_all (\<lambda>n. lexeme_ok (Name n)) ns"

fun stmt_ok :: "query_stmt \<Rightarrow> bool" where
  "stmt_ok (Select s) \<longleftrightarrow>
     (selist s = [star_attr] \<or> selist s \<noteq> [] \<and> list_all attr_ok (selist s)) \<and>
     names_ok (from_list s) \<and> list_all cond_ok (cond_list s)"
| "stmt_ok (Delete d) \<longleftrightarrow> names_ok (d_tables d) \<and> d_conds d \<noteq> [] \<and> list_all cond_ok (d_conds d)"
| "stmt_ok (Insert i) \<longleftrightarrow>
     lexeme_ok (Name (i_table_name i)) \<and> (i_cols i = [] \<or> names_ok (i_cols i)) \<and>
     i_values i \<noteq> [] \<and> list_all literal_ok (i_values i)"
| "stmt_ok (Create_Table c) \<longleftrightarrow>
     lexeme_ok (Name (ct_table_name c)) \<and> ct_col_attrs c \<noteq> [] \<and> list_all col_ok (ct_col_attrs c)"
| "stmt_ok (Drop d) \<longleftrightarrow> lexeme_ok (Name (ds_table d))"

definition print_stmt :: "query_stmt \<Rightarrow> string" where
  "print_stmt q = print_lexemes (stmt_lexemes q)"

section \<open>Reading back\<close>

definition parses :: "(rc \<times> 'a \<times> lexer) res \<Rightarrow> 'a \<Rightarrow> lexeme list \<Rightarrow> bool" where
  "parses m x ls \<longleftrightarrow> (\<exists>lx'. m = Inr (SUCCESS, x, lx') \<and> before lx' ls)"

lemma parsesI: "m = Inr (SUCCESS, x, lx') \<Longrightarrow> before lx' ls \<Longrightarrow> parses m x ls"
  by (auto simp: parses_def)

lemma parsesE:
  assumes "parses m x ls"
  obtains lx' where "m = Inr (SUCCESS, x, lx')" "before lx' ls"
  using assms by (auto simp: parses_def)

text \<open>The lexeme after a list does not continue it.\<close>

definition ends :: "lexeme list \<Rightarrow> bool" where
  "ends ls \<longleftrightarrow> (\<exists>l ms. ls = l # ms \<and> lexeme_token l \<notin> {COMMAS_T, DOT_T})"

lemma ends_Cons [simp]: "ends (l # ms) \<longleftrightarrow> lexeme_token l \<noteq> COMMAS_T \<and> lexeme_token l \<noteq> DOT_T"
  by (simp add: ends_def)

lemma commas_Cons: "xs \<noteq> [] \<Longrightarrow> commas (x # xs) = x @ Mark COMMAS_T # commas xs"
  by (cases xs) simp_all

lemma before_lexeme: "before lx (l # ls) \<Longrightarrow> lexeme_ok l"
  by (simp add: before_def)


text \<open>Where a name has been taken out of the lexer.\<close>

definition past_name :: "string \<Rightarrow> lexer \<Rightarrow> lexer" where
  "past_name s lx = (step_over (Name s) lx)\<lparr>lx_val := Any_String []\<rparr>"

lemma before_past_name: "before lx (Name s # ls) \<Longrightarrow> before (past_name s lx) ls"
  by (simp add: past_name_def before_Cons)

lemma take_name: "take_string (step_over (Name s) lx) = Inr (s, past_name s lx)"
  by (simp add: past_name_def before_name)

lemmas token_reads = before_next before_peek before_next_if

section \<open>Lists\<close>

text \<open>The comma, or the lexeme that ends a list.\<close>

lemma comma_or_end:
  assumes "before lx ls" "ends ls"
  obtains tk lx' where "lex_next_if COMMAS_T lx = Inr (SYNTAX_ERROR, tk, lx')" "before lx' ls"
  using assms before_next_if before_pass by (auto simp: ends_def)

text \<open>
  The loops of the parser over a list with commas share a contract: a round reads one item and puts
  it behind the items so far, then a comma decides whether the loop goes on.
\<close>

definition comma_round ::
  "(lexer \<Rightarrow> 'a list \<Rightarrow> (rc \<times> 'a list \<times> lexer) res) \<Rightarrow> lexer \<Rightarrow> 'a list \<Rightarrow> (rc \<times> 'a list \<times> lexer) res" where
  "comma_round loop lx xs =
     andthen (lex_next_if COMMAS_T lx) (\<lambda>(rc, _, lx). if rc \<noteq> SUCCESS then Inr (SUCCESS, xs, lx) else loop lx xs)"

definition no_dot :: "lexeme list \<Rightarrow> bool" where
  "no_dot ls \<longleftrightarrow> (\<exists>l ms. ls = l # ms \<and> lexeme_token l \<noteq> DOT_T)"

lemma no_dot_Cons [simp]: "no_dot (l # ms) \<longleftrightarrow> lexeme_token l \<noteq> DOT_T"
  by (simp add: no_dot_def)

lemma ends_no_dot: "ends ls \<Longrightarrow> no_dot ls"
  by (auto simp: ends_def no_dot_def)

locale comma_list =
  fixes loop :: "lexer \<Rightarrow> 'a list \<Rightarrow> (rc \<times> 'a list \<times> lexer) res"
    and item_lexemes :: "'a \<Rightarrow> lexeme list"
    and item_ok :: "'a \<Rightarrow> bool"
  assumes item: "item_ok x \<Longrightarrow> no_dot rest \<Longrightarrow> before lx (item_lexemes x @ rest) \<Longrightarrow>
      \<exists>lx1. before lx1 rest \<and> loop lx acc = comma_round loop lx1 (acc @ [x])"
begin

lemma list_parses:
  assumes "xs \<noteq> []" "list_all item_ok xs" "ends ls" "before lx (commas (map item_lexemes xs) @ ls)"
  shows "parses (loop lx acc) (acc @ xs) ls"
  using assms
proof (induction xs arbitrary: lx acc)
  case (Cons x xs)
  show ?case
  proof (cases "xs = []")
    case True
    with Cons.prems have "item_ok x" "before lx (item_lexemes x @ ls)" by simp_all
    from item [OF this(1) ends_no_dot [OF Cons.prems(3)] this(2)] obtain lx1 where
      r: "before lx1 ls" "loop lx acc = comma_round loop lx1 (acc @ [x])" by blast
    obtain tk lx' where "lex_next_if COMMAS_T lx1 = Inr (SYNTAX_ERROR, tk, lx')" "before lx' ls"
      by (rule comma_or_end [OF r(1) Cons.prems(3)])
    then show ?thesis
      by (intro parsesI) (simp_all add: r(2) comma_round_def True)
  next
    case False
    with Cons.prems have "item_ok x"
      "before lx (item_lexemes x @ Mark COMMAS_T # commas (map item_lexemes xs) @ ls)"
      by (simp_all add: commas_Cons)
    from item [OF this(1) _ this(2)] obtain lx1 where
      r: "before lx1 (Mark COMMAS_T # commas (map item_lexemes xs) @ ls)"
         "loop lx acc = comma_round loop lx1 (acc @ [x])"
      by auto
    have "parses (loop (step_over (Mark COMMAS_T) lx1) (acc @ [x])) (acc @ x # xs) ls"
      using Cons.IH [OF False _ Cons.prems(3) before_Cons(2) [OF r(1)], of "acc @ [x]"] Cons.prems(2) by simp
    then show ?thesis
      by (simp add: r(2) comma_round_def before_next_if [OF r(1)])
  qed
qed simp

end

interpretation cols: comma_list parse_cols "\<lambda>n. [Name n]" "\<lambda>n. lexeme_ok (Name n)"
proof
  fix n rest lx acc
  assume b: "before lx ([Name n] @ rest)"
  then have "before lx (Name n # rest)" by simp
  then show "\<exists>lx1. before lx1 rest \<and> parse_cols lx acc = comma_round parse_cols lx1 (acc @ [n])"
    by (intro exI [of _ "past_name n lx"])
      (simp add: parse_cols.simps [of lx] token_reads take_name before_past_name comma_round_def)
qed

lemma parse_attr_dot:
  assumes "before lx (Mark DOT_T # Name a # ls)"
  obtains lx' where "parse_dot t lx = Inr (SUCCESS, \<lparr>ra_table = t, ra_attribute = a\<rparr>, lx')" "before lx' ls"
proof -
  note b1 = before_pass [OF assms]
  note b2 = before_Cons(2) [OF b1]
  have "parse_dot t lx =
      Inr (SUCCESS, \<lparr>ra_table = t, ra_attribute = a\<rparr>, past_name a (step_over (Mark DOT_T) (pass (Mark DOT_T) lx)))"
    by (simp add: parse_dot_def before_peek [OF assms] before_next [OF b1] before_next_if [OF b2] take_name)
  then show ?thesis using that before_past_name [OF b2] by blast
qed

lemma parse_attr_plain:
  assumes "before lx ls" "no_dot ls"
  obtains lx' where "parse_dot a lx = Inr (SUCCESS, \<lparr>ra_table = [], ra_attribute = a\<rparr>, lx')" "before lx' ls"
  using assms before_peek before_pass by (auto simp: parse_dot_def no_dot_def)

interpretation attrs: comma_list parse_attrs attr_lexemes attr_ok
proof
  fix r rest lx acc
  assume d: "no_dot rest" and b: "before lx (attr_lexemes r @ rest)"
  show "\<exists>lx1. before lx1 rest \<and> parse_attrs lx acc = comma_round parse_attrs lx1 (acc @ [r])"
  proof (cases "ra_table r = []")
    case True
    then have b: "before lx (Name (ra_attribute r) # rest)" using b by (simp add: attr_lexemes_def)
    obtain lx1 where r: "parse_dot (ra_attribute r) (past_name (ra_attribute r) lx) =
        Inr (SUCCESS, r, lx1)" "before lx1 rest"
      using parse_attr_plain [OF before_past_name [OF b] d] True
      by (metis rel_attr.surjective unit.exhaust)
    then show ?thesis
      by (intro exI [of _ lx1])
        (simp add: parse_attrs.simps [of lx] before_next [OF b] take_name comma_round_def)
  next
    case False
    then have b: "before lx (Name (ra_table r) # Mark DOT_T # Name (ra_attribute r) # rest)"
      using b by (simp add: attr_lexemes_def)
    obtain lx1 where r: "parse_dot (ra_table r) (past_name (ra_table r) lx) = Inr (SUCCESS, r, lx1)" "before lx1 rest"
      using parse_attr_dot [OF before_past_name [OF b]] by (metis rel_attr.surjective unit.exhaust)
    then show ?thesis
      by (intro exI [of _ lx1])
        (simp add: parse_attrs.simps [of lx] before_next [OF b] take_name comma_round_def)
  qed
qed


section \<open>Values\<close>

lemma rel_eta: "\<lparr>ra_table = ra_table r, ra_attribute = ra_attribute r\<rparr> = r"
  by (cases r) simp

lemma cond_eta: "\<lparr>c_left = c_left c, c_right = c_right c, c_op = c_op c\<rparr> = c"
  by (cases c) simp

lemma col_eta: "\<lparr>ca_name = ca_name c, ca_type = ca_type c, ca_size = ca_size c\<rparr> = c"
  by (cases c) simp

lemma value_cases:
  assumes "literal_ok v"
  obtains n where "v = value_int n" "lexeme_ok (Number n)" | s where "v = value_string s" "lexeme_ok (Text s)"
    | "v = value_null"
  using assms by (cases "v_any v") (auto simp: literal_ok_def)

lemma literal_parses:
  assumes "literal_ok v" "before lx (value_lexemes v @ ls)"
  shows "parses (parse_value lx) v ls"
  using assms(1)
proof (cases rule: value_cases)
  case (1 n)
  with assms(2) have b: "before lx (Number n # ls)" by (simp add: value_lexemes_def value_int_def)
  show ?thesis
    by (rule parsesI [OF _ before_Cons(2) [OF b]])
      (simp add: parse_value_def before_next [OF b] any_long_def 1)
next
  case (2 s)
  with assms(2) have b: "before lx (Text s # ls)" by (simp add: value_lexemes_def value_string_def)
  have "parse_value lx = Inr (SUCCESS, v, (step_over (Text s) lx)\<lparr>lx_val := Any_Empty\<rparr>)"
    by (simp add: parse_value_def before_next [OF b] value_string_def 2)
  then show ?thesis by (rule parsesI) (simp add: before_Cons(2) [OF b])
next
  case 3
  with assms(2) have b: "before lx (Mark NULL_T # ls)" by (simp add: value_lexemes_def value_null_def)
  show ?thesis
    by (rule parsesI [OF _ before_Cons(2) [OF b]]) (simp add: parse_value_def before_next [OF b] 3)
qed

lemma rel_parses:
  assumes "no_dot ls" "before lx (attr_lexemes r @ ls)"
  shows "parses (parse_value lx) (value_rel r) ls"
proof (cases "ra_table r = []")
  case True
  then have b: "before lx (Name (ra_attribute r) # ls)" and r: "r = \<lparr>ra_table = [], ra_attribute = ra_attribute r\<rparr>"
    using assms(2) by (simp_all add: attr_lexemes_def)
  note b1 = before_past_name [OF b]
  from assms(1) obtain l ms where ls: "ls = l # ms" "lexeme_token l \<noteq> DOT_T" by (auto simp: no_dot_def)
  then have "parse_value lx = Inr (SUCCESS, value_rel r, pass l (past_name (ra_attribute r) lx))"
    using b1 r by (simp add: parse_value_def parse_rel_def before_next [OF b] take_name before_next_if)
  then show ?thesis using before_pass b1 ls by (auto intro: parsesI)
next
  case False
  then have b: "before lx (Name (ra_table r) # Mark DOT_T # Name (ra_attribute r) # ls)"
    using assms(2) by (simp add: attr_lexemes_def)
  note b1 = before_past_name [OF b]
  note b2 = before_Cons(2) [OF b1]
  show ?thesis
    by (rule parsesI [OF _ before_past_name [OF b2]])
      (simp add: parse_value_def parse_rel_def before_next [OF b] before_next_if [OF b1] before_next_if [OF b2]
          take_name rel_eta)
qed

lemma operand_parses:
  assumes "operand_ok v" "no_dot ls" "before lx (value_lexemes v @ ls)"
  shows "parses (parse_value lx) v ls"
proof (cases "\<exists>r. v_any v = Any_Rel r")
  case True
  then obtain r where "v = value_rel r" using assms(1) by (auto simp: operand_ok_def)
  with rel_parses [OF assms(2)] assms(3) show ?thesis by (simp add: value_lexemes_def value_rel_def)
next
  case False
  with assms(1) have "literal_ok v" by (auto simp: operand_ok_def split: any.splits)
  from literal_parses [OF this assms(3)] show ?thesis .
qed

interpretation vals: comma_list parse_values value_lexemes literal_ok
proof
  fix v rest lx acc
  assume v: "literal_ok v" and "before lx (value_lexemes v @ rest)"
  from literal_parses [OF this] obtain lx1 where "parse_value lx = Inr (SUCCESS, v, lx1)" "before lx1 rest"
    by (auto elim: parsesE)
  moreover have "v_type v \<noteq> REL_ATTR" "v_type v \<noteq> UNDEFINED_ATTR"
    using v by (auto elim!: value_cases simp: value_int_def value_string_def value_null_def)
  ultimately show "\<exists>lx1. before lx1 rest \<and> parse_values lx acc = comma_round parse_values lx1 (acc @ [v])"
    by (intro exI [of _ lx1]) (simp add: parse_values.simps [of lx] comma_round_def)
qed

lemma token2op_token: "op_ok c \<Longrightarrow> token2op (op_token c) = c"
  by (cases c) (simp_all add: op_ok_def op_token_def token2op_def)

lemma op_token_facts: "op_ok c \<Longrightarrow> op_token c \<noteq> DOT_T"
  by (cases c) (simp_all add: op_ok_def op_token_def)

interpretation conds: comma_list parse_cond_list cond_lexemes cond_ok
proof
  fix c rest lx acc
  assume c: "cond_ok c" and d: "no_dot rest" and "before lx (cond_lexemes c @ rest)"
  then have b: "before lx (value_lexemes (c_left c) @ Mark (op_token (c_op c)) # value_lexemes (c_right c) @ rest)"
    and ok: "operand_ok (c_left c)" "operand_ok (c_right c)" "op_ok (c_op c)"
    by (simp_all add: cond_lexemes_def cond_ok_def)
  have "no_dot (Mark (op_token (c_op c)) # value_lexemes (c_right c) @ rest)"
    using op_token_facts [OF ok(3)] by simp
  from operand_parses [OF ok(1) this b] obtain lx1 where l: "parse_value lx = Inr (SUCCESS, c_left c, lx1)"
    and b1: "before lx1 (Mark (op_token (c_op c)) # value_lexemes (c_right c) @ rest)"
    by (auto elim: parsesE)
  from operand_parses [OF ok(2) d before_Cons(2) [OF b1]] obtain lx2 where
    r: "parse_value (step_over (Mark (op_token (c_op c))) lx1) = Inr (SUCCESS, c_right c, lx2)" "before lx2 rest"
    by (auto elim: parsesE)
  have "c_op c \<noteq> UNDEFINED_OP" using ok(3) by (simp add: op_ok_def)
  then show "\<exists>lx1. before lx1 rest \<and> parse_cond_list lx acc = comma_round parse_cond_list lx1 (acc @ [c])"
    using r by (intro exI [of _ lx2])
      (simp add: parse_cond_list.simps [of lx] l before_next [OF b1] token2op_token [OF ok(3)] comma_round_def Let_def cond_eta cong: if_cong)
qed

section \<open>Column types\<close>

lemma char_size_parses:
  assumes "before lx (Mark LBRACE_T # Number (int (unat n)) # Mark RBRACE_T # ls)"
  shows "parses (parse_char_size c lx) (c\<lparr>ca_size := n\<rparr>) ls"
proof -
  note b1 = before_Cons(2) [OF assms]
  note b2 = before_Cons(2) [OF b1]
  show ?thesis
    by (rule parsesI [OF _ before_Cons(2) [OF b2]])
      (simp add: parse_char_size_def before_next_if [OF assms] before_next_if [OF b1] before_next_if [OF b2]
          any_long_def before_next_if [OF b2, simplified])
qed

lemma type_parses:
  assumes "col_ok c" "before lx (type_lexemes c @ ls)"
  shows "parses (parse_col_data_type \<lparr>ca_name = ca_name c, ca_type = [], ca_size = 0\<rparr> lx) c ls"
proof (cases "ca_type c = ''INT'' \<or> ca_type c = ''FLOAT''")
  case True
  define t where "t = (if ca_type c = ''INT'' then S_INT_T else S_FLOAT_T)"
  have b: "before lx (Mark t # ls)" using True assms(2) by (auto simp: type_lexemes_def t_def)
  have "c = \<lparr>ca_name = ca_name c, ca_type = ca_type c, ca_size = 0\<rparr>" using True assms(1) by (simp add: col_ok_def)
  then have "parse_col_data_type \<lparr>ca_name = ca_name c, ca_type = [], ca_size = 0\<rparr> lx =
      Inr (SUCCESS, c, step_over (Mark t) lx)"
    using True by (cases "ca_type c = ''INT''") (auto simp: parse_col_data_type_def before_next [OF b] t_def)
  then show ?thesis by (rule parsesI [OF _ before_Cons(2) [OF b]])
next
  case False
  define t where "t = (if ca_type c = ''CHAR'' then S_CHAR_T else S_VARCHAR_T)"
  have b: "before lx (Mark t # Mark LBRACE_T # Number (int (unat (ca_size c))) # Mark RBRACE_T # ls)"
    using False assms(2) by (auto simp: type_lexemes_def t_def)
  have ty: "ca_type c = ''CHAR'' \<or> ca_type c = ''VARCHAR''" using False assms(1) by (auto simp: col_ok_def)
  then have "parse_col_data_type \<lparr>ca_name = ca_name c, ca_type = [], ca_size = 0\<rparr> lx =
      parse_char_size \<lparr>ca_name = ca_name c, ca_type = ca_type c, ca_size = 0\<rparr> (step_over (Mark t) lx)"
    by (auto simp: parse_col_data_type_def before_next [OF b] t_def)
  moreover have "parses (parse_char_size \<lparr>ca_name = ca_name c, ca_type = ca_type c, ca_size = 0\<rparr>
      (step_over (Mark t) lx)) c ls"
    using char_size_parses [OF before_Cons(2) [OF b], of "\<lparr>ca_name = ca_name c, ca_type = ca_type c, ca_size = 0\<rparr>"]
    by (simp add: col_eta)
  ultimately show ?thesis by simp
qed

interpretation col_attrs: comma_list parse_col_attrs "\<lambda>a. Name (ca_name a) # type_lexemes a" col_ok
proof
  fix c rest lx acc
  assume c: "col_ok c" and "before lx ((Name (ca_name c) # type_lexemes c) @ rest)"
  then have b: "before lx (Name (ca_name c) # type_lexemes c @ rest)" by simp
  from type_parses [OF c before_past_name [OF b]] obtain lx1 where
    "parse_col_data_type \<lparr>ca_name = ca_name c, ca_type = [], ca_size = 0\<rparr> (past_name (ca_name c) lx) = Inr (SUCCESS, c, lx1)"
    "before lx1 rest"
    by (auto elim: parsesE)
  then show "\<exists>lx1. before lx1 rest \<and> parse_col_attrs lx acc = comma_round parse_col_attrs lx1 (acc @ [c])"
    by (intro exI [of _ lx1])
      (simp add: parse_col_attrs.simps [of lx] before_next_if [OF b] take_name comma_round_def)
qed


section \<open>Statements\<close>

lemma names_parse:
  assumes "names_ok ns" "ends ls" "before lx (names_lexemes ns @ ls)"
  shows "parses (parse_cols lx []) ns ls"
  using cols.list_parses [of ns ls lx "[]"] assms by (simp add: names_ok_def names_lexemes_def)

lemma from_parses:
  assumes "names_ok ns" "ends ls" "before lx (Mark FROM_T # names_lexemes ns @ ls)"
  shows "parses (parse_from lx []) ns ls"
  using names_parse [OF assms(1,2) before_Cons(2) [OF assms(3)]]
  by (simp add: parse_from_def before_next [OF assms(3)])

text \<open>The conditions and the semicolon, which is read only where there is no \<open>WHERE\<close>.\<close>

lemma conds_parse:
  assumes "list_all cond_ok cs" "before lx (where_lexemes cs @ [Mark COLON_T])"
  shows "parses (parse_conds lx []) cs (if cs = [] then [] else [Mark COLON_T])"
proof (cases "cs = []")
  case True
  with assms(2) have b: "before lx [Mark COLON_T]" by (simp add: where_lexemes_def)
  from True show ?thesis
    using before_Cons(2) [OF b] by (auto intro!: parsesI simp: parse_conds_def before_next [OF b])
next
  case False
  with assms(2) have b: "before lx (Mark WHERE_T # commas (map cond_lexemes cs) @ [Mark COLON_T])"
    by (simp add: where_lexemes_def)
  from False conds.list_parses [OF False assms(1) _ before_Cons(2) [OF b], of "[]"] show ?thesis
    by (simp add: parse_conds_def before_next [OF b])
qed

lemma select_parses:
  assumes "stmt_ok (Select s)" "before lx (stmt_lexemes (Select s))"
  shows "\<exists>lx'. parse_select lx = Inr (SUCCESS, Select s, lx')"
proof -
  define tail where "tail = where_lexemes (cond_list s) @ [Mark COLON_T]"
  define list where "list = (if selist s = [star_attr] then [Mark STAR_T] else commas (map attr_lexemes (selist s)))"
  have b: "before lx (Mark SELECT_T # list @ Mark FROM_T # names_lexemes (from_list s) @ tail)"
    using assms(2) by (simp add: tail_def list_def)
  note b1 = before_Cons(2) [OF b]
  have "parses (parse_attrs (step_over (Mark SELECT_T) lx) []) (selist s)
      (Mark FROM_T # names_lexemes (from_list s) @ tail)"
  proof (cases "selist s = [star_attr]")
    case True
    with b1 have b1: "before (step_over (Mark SELECT_T) lx) (Mark STAR_T # Mark FROM_T # names_lexemes (from_list s) @ tail)"
      by (simp add: list_def)
    show ?thesis
      by (rule parsesI [OF _ before_Cons(2) [OF b1]])
        (simp add: parse_attrs.simps before_next [OF b1] True star_attr_def)
  next
    case False
    with attrs.list_parses [of "selist s" _ _ "[]"] b1 assms(1) show ?thesis by (simp add: list_def)
  qed
  then obtain lx2 where a: "parse_attrs (step_over (Mark SELECT_T) lx) [] = Inr (SUCCESS, selist s, lx2)"
    and b2: "before lx2 (Mark FROM_T # names_lexemes (from_list s) @ tail)" by (rule parsesE)
  have "ends tail" by (simp add: tail_def where_lexemes_def)
  then obtain lx3 where f: "parse_from lx2 [] = Inr (SUCCESS, from_list s, lx3)" and b3: "before lx3 tail"
    using from_parses [OF _ _ b2] assms(1) by (auto elim: parsesE)
  obtain lx4 where "parse_conds lx3 [] = Inr (SUCCESS, cond_list s, lx4)"
    using conds_parse [of "cond_list s" lx3] b3 assms(1) by (auto simp: tail_def elim: parsesE)
  then show ?thesis
    by (simp add: parse_select_def before_next [OF b] a f Let_def select_default_def)
qed

lemma delete_parses:
  assumes "stmt_ok (Delete d)" "before lx (stmt_lexemes (Delete d))"
  shows "\<exists>lx'. parse_delete q lx = Inr (SUCCESS, Delete d, lx')"
proof -
  define tail where "tail = where_lexemes (d_conds d) @ [Mark COLON_T]"
  have b: "before lx (Mark DELETE_T # Mark FROM_T # names_lexemes (d_tables d) @ tail)"
    using assms(2) by (simp add: tail_def)
  note b1 = before_Cons(2) [OF b]
  have w: "tail = Mark WHERE_T # commas (map cond_lexemes (d_conds d)) @ [Mark COLON_T]" and "ends tail"
    using assms(1) by (simp_all add: tail_def where_lexemes_def)
  with from_parses [OF _ _ before_pass [OF b1]] assms(1) obtain lx2 where
    f: "parse_from (pass (Mark FROM_T) (step_over (Mark DELETE_T) lx)) [] = Inr (SUCCESS, d_tables d, lx2)"
    and b2: "before lx2 tail"
    by (auto elim: parsesE)
  from b2 have b2: "before lx2 (Mark WHERE_T # commas (map cond_lexemes (d_conds d)) @ [Mark COLON_T])"
    by (simp add: w)
  from before_pass [OF this] have "before (pass (Mark WHERE_T) lx2) (where_lexemes (d_conds d) @ [Mark COLON_T])"
    using assms(1) by (simp add: where_lexemes_def)
  from conds_parse [OF _ this] assms(1) obtain lx3 where
    c: "parse_conds (pass (Mark WHERE_T) lx2) [] = Inr (SUCCESS, d_conds d, lx3)" and b3: "before lx3 [Mark COLON_T]"
    by (auto elim: parsesE)
  show ?thesis
    by (simp add: parse_delete_def before_next_if [OF b] before_next_if [OF b1] f before_peek [OF b2] c
        before_next_if [OF b3])
qed

lemma insert_cols_parse:
  assumes "cs = [] \<or> names_ok cs"
    "before lx ((if cs = [] then [] else Mark LBRACE_T # names_lexemes cs @ [Mark RBRACE_T]) @ Mark VALUES_T # ls)"
  shows "parses (parse_insert_cols lx) cs ls"
proof (cases "cs = []")
  case True
  with assms(2) have b: "before lx (Mark VALUES_T # ls)" by simp
  show ?thesis
    by (rule parsesI [OF _ before_Cons(2) [OF b]]) (simp add: parse_insert_cols_def before_next [OF b] True)
next
  case False
  with assms(2) have b: "before lx (Mark LBRACE_T # names_lexemes cs @ Mark RBRACE_T # Mark VALUES_T # ls)" by simp
  from names_parse [OF _ _ before_Cons(2) [OF b]] False assms(1) obtain lx2 where
    c: "parse_cols (step_over (Mark LBRACE_T) lx) [] = Inr (SUCCESS, cs, lx2)"
    and b2: "before lx2 (Mark RBRACE_T # Mark VALUES_T # ls)"
    by (auto elim: parsesE)
  note b3 = before_Cons(2) [OF b2]
  show ?thesis
    by (rule parsesI [OF _ before_Cons(2) [OF b3]])
      (simp add: parse_insert_cols_def before_next [OF b] c before_next_if [OF b2] before_next_if [OF b3])
qed

lemma insert_values_parse:
  assumes "vs \<noteq> []" "list_all literal_ok vs"
    "before lx (Mark LBRACE_T # commas (map value_lexemes vs) @ Mark RBRACE_T # Mark COLON_T # ls)"
  shows "parses (parse_insert_values lx) vs ls"
proof -
  from vals.list_parses [OF assms(1,2) _ before_Cons(2) [OF assms(3)], of "[]"] obtain lx2 where
    c: "parse_values (step_over (Mark LBRACE_T) lx) [] = Inr (SUCCESS, vs, lx2)"
    and b2: "before lx2 (Mark RBRACE_T # Mark COLON_T # ls)"
    by (auto elim: parsesE)
  note b3 = before_Cons(2) [OF b2]
  show ?thesis
    by (rule parsesI [OF _ before_Cons(2) [OF b3]])
      (simp add: parse_insert_values_def before_next_if [OF assms(3)] c before_next_if [OF b2] before_next_if [OF b3])
qed

lemma insert_parses:
  assumes "stmt_ok (Insert i)" "before lx (stmt_lexemes (Insert i))"
  shows "\<exists>lx'. parse_insert q lx = Inr (SUCCESS, Insert i, lx')"
proof -
  define vals where "vals = Mark LBRACE_T # commas (map value_lexemes (i_values i)) @ [Mark RBRACE_T, Mark COLON_T]"
  define cols where
    "cols = (if i_cols i = [] then [] else Mark LBRACE_T # names_lexemes (i_cols i) @ [Mark RBRACE_T]) @ Mark VALUES_T # vals"
  have b: "before lx (Mark INSERT_T # Mark INTO_T # Name (i_table_name i) # cols)"
    using assms(2) by (simp add: cols_def vals_def)
  note b1 = before_Cons(2) [OF b]
  note b2 = before_Cons(2) [OF b1]
  from insert_cols_parse [of "i_cols i" _ vals] before_past_name [OF b2] assms(1) obtain lx3 where
    c: "parse_insert_cols (past_name (i_table_name i) (step_over (Mark INTO_T) (step_over (Mark INSERT_T) lx))) =
        Inr (SUCCESS, i_cols i, lx3)" and b3: "before lx3 vals"
    by (auto simp: cols_def elim: parsesE)
  from insert_values_parse [of "i_values i" lx3 "[]"] b3 assms(1) obtain lx4 where
    v: "parse_insert_values lx3 = Inr (SUCCESS, i_values i, lx4)"
    by (auto simp: vals_def elim: parsesE)
  show ?thesis
    by (simp add: parse_insert_def before_next_if [OF b] before_next_if [OF b1] before_next_if [OF b2] take_name c v)
qed

lemma create_parses:
  assumes "stmt_ok (Create_Table c)" "before lx (stmt_lexemes (Create_Table c))"
  shows "\<exists>lx'. parse_create q lx = Inr (SUCCESS, Create_Table c, lx')"
proof -
  define rest where
    "rest = commas (map (\<lambda>a. Name (ca_name a) # type_lexemes a) (ct_col_attrs c)) @ [Mark RBRACE_T, Mark COLON_T]"
  have b: "before lx (Mark CREATE_T # Mark TABLE_T # Name (ct_table_name c) # Mark LBRACE_T # rest)"
    using assms(2) by (simp add: rest_def)
  note b1 = before_Cons(2) [OF b]
  note b2 = before_pass [OF b1]
  note b3 = before_Cons(2) [OF b2]
  note b4 = before_past_name [OF b3]
  note b5 = before_Cons(2) [OF b4]
  from col_attrs.list_parses [of "ct_col_attrs c" "[Mark RBRACE_T, Mark COLON_T]" _ "[]"] b5 assms(1)
  obtain lx6 where cas: "parse_col_attrs (step_over (Mark LBRACE_T) (past_name (ct_table_name c)
      (step_over (Mark TABLE_T) (pass (Mark TABLE_T) (step_over (Mark CREATE_T) lx))))) [] =
      Inr (SUCCESS, ct_col_attrs c, lx6)" and b6: "before lx6 [Mark RBRACE_T, Mark COLON_T]"
    by (auto simp: rest_def elim: parsesE)
  note b7 = before_Cons(2) [OF b6]
  show ?thesis
    by (simp add: parse_create_def parse_create_table_def before_next_if [OF b] before_peek [OF b1]
        before_next_if [OF b2] before_next_if [OF b3] before_next_if [OF b4] take_name cas
        before_next_if [OF b6] before_next_if [OF b7])
qed

lemma drop_parses:
  assumes "before lx (stmt_lexemes (Drop d))"
  shows "\<exists>lx'. parse_drop q lx = Inr (SUCCESS, Drop d, lx')"
proof -
  have b: "before lx [Mark DROP_T, Mark TABLE_T, Name (ds_table d), Mark COLON_T]" using assms by simp
  note b1 = before_Cons(2) [OF b]
  note b2 = before_Cons(2) [OF b1]
  note b3 = before_past_name [OF b2]
  show ?thesis
    by (simp add: parse_drop_def before_next [OF b] before_next [OF b1] before_next [OF b2] before_next [OF b3]
        take_name Let_def)
qed

section \<open>The lexemes of a statement\<close>

lemma mark_ok [simp]: "lexeme_ok (Mark t)" if "t \<in> fst ` set mark_table"
  using that by (simp add: map_of_eq_None_iff)

lemma mark_table_tokens:
  "fst ` set mark_table = UNIV - {ID_T, FLOAT_T, INTEGER_T, STRING_T, BAD_EXPR}"
proof -
  have "t \<in> fst ` set mark_table \<longleftrightarrow> t \<notin> {ID_T, FLOAT_T, INTEGER_T, STRING_T, BAD_EXPR}" for t
    by (cases t) (simp_all add: mark_table_def keyword_table_def sign_table_def)
  then show ?thesis by auto
qed

lemma mark_ok_iff: "lexeme_ok (Mark t) \<longleftrightarrow> t \<notin> {ID_T, FLOAT_T, INTEGER_T, STRING_T, BAD_EXPR}"
  using mark_table_tokens by (auto simp: map_of_eq_None_iff set_eq_iff)

lemma commas_ok: "list_all (list_all lexeme_ok) xs \<Longrightarrow> list_all lexeme_ok (commas xs)"
  by (induction xs rule: commas.induct) (simp_all add: mark_ok_iff del: lexeme_ok.simps(1))

lemma commas_map_ok: "list_all P xs \<Longrightarrow> (\<And>x. P x \<Longrightarrow> list_all lexeme_ok (f x)) \<Longrightarrow> list_all lexeme_ok (commas (map f xs))"
  by (rule commas_ok) (auto simp: list_all_iff)

lemma attr_lexemes_ok: "attr_ok r \<Longrightarrow> list_all lexeme_ok (attr_lexemes r)"
  by (auto simp: attr_ok_def attr_lexemes_def mark_ok_iff simp del: lexeme_ok.simps(1))

lemma literal_lexemes_ok: "literal_ok v \<Longrightarrow> list_all lexeme_ok (value_lexemes v)"
  by (erule value_cases)
    (simp_all add: value_lexemes_def value_int_def value_string_def value_null_def mark_ok_iff
      del: lexeme_ok.simps(1))

lemma operand_lexemes_ok: "operand_ok v \<Longrightarrow> list_all lexeme_ok (value_lexemes v)"
  using literal_lexemes_ok [of v] attr_lexemes_ok
  by (auto simp: operand_ok_def value_lexemes_def split: any.splits)

lemma cond_lexemes_ok: "cond_ok c \<Longrightarrow> list_all lexeme_ok (cond_lexemes c)"
  using operand_lexemes_ok
  by (cases "c_op c") (auto simp: cond_ok_def cond_lexemes_def op_token_def op_ok_def mark_ok_iff
      simp del: lexeme_ok.simps(1))

lemma size_lexeme_ok: "unat (w :: size_t) < 2 ^ 63 \<Longrightarrow> lexeme_ok (Number (uint w))"
proof -
  assume "unat w < 2 ^ 63"
  then have "int (unat w) < int (2 ^ 63)" by (simp only: of_nat_less_iff)
  then have "uint w < 9223372036854775808" by simp
  moreover have "0 \<le> uint w" by simp
  ultimately have "- 9223372036854775808 \<le> uint w" "uint w < 9223372036854775808" "uint w \<noteq> - 9223372036854775808"
    by linarith+
  then show ?thesis by (simp add: long_range_def)
qed

lemma col_lexemes_ok:
  assumes "col_ok c"
  shows "list_all lexeme_ok (Name (ca_name c) # type_lexemes c)"
proof -
  have "list_all lexeme_ok (type_lexemes c)"
  proof (cases "ca_type c = ''INT'' \<or> ca_type c = ''FLOAT''")
    case True
    then show ?thesis by (auto simp: type_lexemes_def mark_ok_iff simp del: lexeme_ok.simps(1))
  next
    case False
    with assms have "lexeme_ok (Number (uint (ca_size c)))"
      by (intro size_lexeme_ok) (simp add: col_ok_def)
    with False show ?thesis
      by (simp add: type_lexemes_def mark_ok_iff del: lexeme_ok.simps(1) lexeme_ok.simps(3))
  qed
  with assms show ?thesis by (simp add: col_ok_def)
qed

lemma names_lexemes_ok: "names_ok ns \<Longrightarrow> list_all lexeme_ok (names_lexemes ns)"
  unfolding names_lexemes_def names_ok_def by (rule commas_map_ok) auto

lemma where_lexemes_ok: "list_all cond_ok cs \<Longrightarrow> list_all lexeme_ok (where_lexemes cs)"
  using commas_map_ok [of cond_ok cs cond_lexemes] cond_lexemes_ok
  by (simp add: where_lexemes_def mark_ok_iff del: lexeme_ok.simps(1))

lemma stmt_lexemes_ok: "stmt_ok q \<Longrightarrow> list_all lexeme_ok (stmt_lexemes q)"
  by (cases q)
    (auto simp: mark_ok_iff names_lexemes_ok where_lexemes_ok
      intro!: commas_map_ok [of attr_ok] commas_map_ok [of literal_ok] commas_map_ok [of col_ok]
      attr_lexemes_ok literal_lexemes_ok dest!: col_lexemes_ok simp del: lexeme_ok.simps(1))

text \<open>The parser peeks at the first lexeme, then hands over.\<close>

lemma do_parse_print:
  assumes "stmt_ok q" "before lx (stmt_lexemes q)"
  shows "\<exists>lx'. do_parse q0 lx = Inr (SUCCESS, q, lx')"
proof (cases q)
  case (Select s)
  then obtain ms where ls: "stmt_lexemes q = Mark SELECT_T # ms" by simp
  with before_pass assms(2) have "before (pass (Mark SELECT_T) lx) (stmt_lexemes q)" by simp
  with select_parses [of s] Select assms(1) obtain lx' where
    "parse_select (pass (Mark SELECT_T) lx) = Inr (SUCCESS, q, lx')" by blast
  with assms(2) show ?thesis by (simp add: ls do_parse_def before_peek)
next
  case (Delete d)
  then obtain ms where ls: "stmt_lexemes q = Mark DELETE_T # ms" by simp
  with before_pass assms(2) have "before (pass (Mark DELETE_T) lx) (stmt_lexemes q)" by simp
  with delete_parses [of d] Delete assms(1) obtain lx' where
    "parse_delete q0 (pass (Mark DELETE_T) lx) = Inr (SUCCESS, q, lx')" by blast
  with assms(2) show ?thesis by (simp add: ls do_parse_def before_peek)
next
  case (Insert i)
  then obtain ms where ls: "stmt_lexemes q = Mark INSERT_T # ms" by simp
  with before_pass assms(2) have "before (pass (Mark INSERT_T) lx) (stmt_lexemes q)" by simp
  with insert_parses [of i] Insert assms(1) obtain lx' where
    "parse_insert q0 (pass (Mark INSERT_T) lx) = Inr (SUCCESS, q, lx')" by blast
  with assms(2) show ?thesis by (simp add: ls do_parse_def before_peek)
next
  case (Create_Table c)
  then obtain ms where ls: "stmt_lexemes q = Mark CREATE_T # ms" by simp
  with before_pass assms(2) have "before (pass (Mark CREATE_T) lx) (stmt_lexemes q)" by simp
  with create_parses [of c] Create_Table assms(1) obtain lx' where
    "parse_create q0 (pass (Mark CREATE_T) lx) = Inr (SUCCESS, q, lx')" by blast
  with assms(2) show ?thesis by (simp add: ls do_parse_def before_peek)
next
  case (Drop d)
  then obtain ms where ls: "stmt_lexemes q = Mark DROP_T # ms" by simp
  with before_pass assms(2) have "before (pass (Mark DROP_T) lx) (stmt_lexemes q)" by simp
  with drop_parses [of _ d] Drop obtain lx' where
    "parse_drop q0 (pass (Mark DROP_T) lx) = Inr (SUCCESS, q, lx')" by blast
  with assms(2) show ?thesis by (simp add: ls do_parse_def before_peek)
qed

lemma parse_sql_print: "stmt_ok q \<Longrightarrow> parse_sql (print_stmt q) = Inr (SUCCESS, q)"
  using do_parse_print [of q _ "Select select_default"] before_init [OF stmt_lexemes_ok]
  by (fastforce simp: parse_sql_def print_stmt_def)

end
