(* ===== verification/Sql_Typed.thy ===== *)
theory Sql_Typed
  imports Sql_Parser
begin

text \<open>
  The parser and its casts. The token the lexer returns says what it has left in \<open>cur_val_\<close>; hence no
  cast of the parser fails, and every value of a parsed statement holds what its tag says.
\<close>

section \<open>Tokens and what they leave\<close>

fun token_val_ok :: "token \<Rightarrow> any \<Rightarrow> bool" where
  "token_val_ok ID_T v \<longleftrightarrow> (\<exists>s. v = Any_String s)"
| "token_val_ok STRING_T v \<longleftrightarrow> (\<exists>s. v = Any_String s)"
| "token_val_ok INTEGER_T v \<longleftrightarrow> (\<exists>n. v = Any_Long n \<and> long_range n)"
| "token_val_ok FLOAT_T v \<longleftrightarrow> (\<exists>f. v = Any_Float f)"
| "token_val_ok _ v \<longleftrightarrow> True"

lemma spec_token_not_literal:
  "map_of spec_token w = Some t \<Longrightarrow> token_val_ok t v"
  by (drule map_of_SomeD) (auto simp: spec_token_def)

lemma single_not_literal: "single c = Some t \<Longrightarrow> token_val_ok t v"
  by (auto simp: single_def split: if_splits)

lemma long_neg: "to_long (n * - 1) = Inr m \<Longrightarrow> long_range m"
  by (auto simp: to_long_def split: if_splits)

lemma each_in_range:
  "long_range m \<Longrightarrow> each (\<lambda>c num. to_long (g c + num * 10)) ds m = Inr n \<Longrightarrow> long_range n"
proof (induction ds arbitrary: m)
  case (Cons d ds)
  then obtain k where "to_long (g d + m * 10) = Inr k" "each (\<lambda>c num. to_long (g c + num * 10)) ds k = Inr n"
    by (auto simp: res_simps)
  moreover from this have "long_range k" by (auto simp: to_long_def split: if_splits)
  ultimately show ?case using Cons.IH by blast
qed simp

lemma parse_num_val:
  assumes "parse_num lx = Inr (tk, lx')"
  shows "tk \<in> {BAD_EXPR, INTEGER_T, FLOAT_T}" "token_val_ok tk (lx_val lx')"
proof -
  have "long_range 0" by (simp add: long_range_def)
  note r = each_in_range [OF this, of "\<lambda>c. int (digit_val c)"]
  show "tk \<in> {BAD_EXPR, INTEGER_T, FLOAT_T}" "token_val_ok tk (lx_val lx')"
    using assms r by (auto simp: parse_num_def Let_def res_simps split: if_splits)
qed

lemma lex_minus_val: "lex_minus lx = Inr (rc, tk, lx') \<Longrightarrow> token_val_ok tk (lx_val lx')"
proof (cases "next_is is_digit lx")
  case True
  assume m: "lex_minus lx = Inr (rc, tk, lx')"
  then obtain lx1 v where n: "parse_num (advance 1 lx) = Inr (tk, lx1)" "lx_val lx' = v"
    "negate_val tk (lx_val lx1) = Inr v"
    using True by (auto simp: lex_minus_def res_simps)
  from parse_num_val [OF n(1)] n(2,3) show ?thesis
    by (auto simp: negate_val_def res_simps to_long_def any_long_def any_float_def split: if_splits
        dest!: sym [of "Any_Long _"] sym [of "Any_Float _"])
next
  case False
  assume "lex_minus lx = Inr (rc, tk, lx')"
  with False show ?thesis by (auto simp: lex_minus_def)
qed

lemma lex_token_val: "lex_token lx = Inr (rc, tk, lx') \<Longrightarrow> token_val_ok tk (lx_val lx')"
  using spec_token_not_literal single_not_literal parse_num_val(2) lex_minus_val
  by (auto simp: lex_token_def lex_word_def lex_smaller_def lex_string_def number_token_def Let_def res_simps
      split: if_splits option.splits)

lemma internal_next_val: "internal_next lx = Inr (rc, tk, p, lx') \<Longrightarrow> token_val_ok tk (lx_val lx')"
  using lex_token_val by (fastforce simp: internal_next_def res_simps)

lemma lex_next_val: "lex_next lx = Inr (rc, tk, lx') \<Longrightarrow> token_val_ok tk (lx_val lx')"
  using internal_next_val by (fastforce simp: lex_next_def res_simps)

lemma lex_next_if_val: "lex_next_if t lx = Inr (SUCCESS, tk, lx') \<Longrightarrow> token_val_ok t (lx_val lx')"
  using internal_next_val by (fastforce simp: lex_next_if_def res_simps split: if_splits)

lemma take_string_ok: "token_val_ok ID_T (lx_val lx) \<Longrightarrow> \<exists>s lx'. take_string lx = Inr (s, lx')"
  by (auto simp: take_string_def any_string_def)

section \<open>No bad cast in the lexer\<close>

definition casts_ok :: "'a res \<Rightarrow> bool" where
  "casts_ok m \<longleftrightarrow> m \<noteq> Inl Bad_Any_Cast"

lemma casts_ok_simps [simp]:
  "casts_ok (Inr x)" "casts_ok (Inl e) \<longleftrightarrow> e \<noteq> Bad_Any_Cast"
  by (simp_all add: casts_ok_def)

lemma casts_ok_andthen:
  "casts_ok m \<Longrightarrow> (\<And>x. m = Inr x \<Longrightarrow> casts_ok (f x)) \<Longrightarrow> casts_ok (andthen m f)"
  by (cases m) auto

lemma casts_ok_lib [simp]:
  "casts_ok (to_long n)" "casts_ok (input_at s i)" "casts_ok (stof s)"
  by (auto simp: to_long_def input_at_def stof_def stof_decimal_def Let_def split: option.splits)

lemma casts_ok_each: "casts_ok (each (\<lambda>c num. to_long (g c num)) ds m)"
  by (induction ds arbitrary: m) (auto intro: casts_ok_andthen)

lemma casts_ok_parse_num: "casts_ok (parse_num lx)"
  by (auto simp: parse_num_def Let_def intro!: casts_ok_andthen casts_ok_each)

lemma casts_ok_negate: "token_val_ok tk v \<Longrightarrow> casts_ok (negate_val tk v)"
  by (cases tk) (auto simp: negate_val_def any_long_def any_float_def intro!: casts_ok_andthen)

lemma casts_ok_minus: "casts_ok (lex_minus lx)"
  by (auto simp: lex_minus_def intro!: casts_ok_andthen casts_ok_parse_num casts_ok_negate dest: parse_num_val(2))

lemma casts_ok_lex_token: "casts_ok (lex_token lx)"
  by (auto simp: lex_token_def number_token_def intro!: casts_ok_andthen casts_ok_parse_num casts_ok_minus
      split: option.splits)

lemma casts_ok_internal_next: "casts_ok (internal_next lx)"
  by (auto simp: internal_next_def intro!: casts_ok_andthen casts_ok_lex_token)

lemma casts_ok_lexer [simp]:
  "casts_ok (lex_next lx)" "casts_ok (lex_next_if t lx)" "casts_ok (lex_peek lx)"
  by (auto simp: lex_next_def lex_next_if_def lex_peek_def intro!: casts_ok_andthen casts_ok_internal_next)

lemma casts_ok_take_next: "lex_next lx = Inr (rc, ID_T, lx') \<Longrightarrow> casts_ok (take_string lx')"
  using lex_next_val take_string_ok by fastforce

lemma casts_ok_take_next_if: "lex_next_if ID_T lx = Inr (SUCCESS, tk, lx') \<Longrightarrow> casts_ok (take_string lx')"
  using lex_next_if_val take_string_ok by fastforce

lemma casts_ok_any_long: "token_val_ok INTEGER_T v \<Longrightarrow> casts_ok (any_long v)"
  by (auto simp: any_long_def)

lemma casts_ok_any_float: "token_val_ok FLOAT_T v \<Longrightarrow> casts_ok (any_float v)"
  by (auto simp: any_float_def)

section \<open>No bad cast in the parser\<close>

lemma casts_ok_parse_dot: "casts_ok (parse_dot name lx)"
  by (auto simp: parse_dot_def intro!: casts_ok_andthen casts_ok_take_next_if)

lemma casts_ok_parse_rel: "casts_ok (take_string lx) \<Longrightarrow> casts_ok (parse_rel lx)"
  by (auto simp: parse_rel_def intro!: casts_ok_andthen casts_ok_take_next_if)

lemma casts_ok_parse_value: "casts_ok (parse_value lx)"
  unfolding parse_value_def
  by (rule casts_ok_andthen)
    (auto intro!: casts_ok_parse_rel casts_ok_take_next casts_ok_andthen casts_ok_any_long casts_ok_any_float
      lex_next_val simp del: token_val_ok.simps)

lemma casts_ok_parse_attrs: "casts_ok (parse_attrs lx xs)"
proof (induction "lex_left lx" arbitrary: lx xs rule: less_induct)
  case less
  show ?case
    by (subst parse_attrs.simps)
      (auto intro!: casts_ok_andthen casts_ok_take_next casts_ok_parse_dot less;
       auto dest!: lex_next_left(2) take_string_left parse_dot_left lex_next_if_left(1))
qed

lemma casts_ok_parse_cols: "casts_ok (parse_cols lx xs)"
proof (induction "lex_left lx" arbitrary: lx xs rule: less_induct)
  case less
  show ?case
    by (subst parse_cols.simps)
      (auto intro!: casts_ok_andthen casts_ok_take_next_if less;
       auto dest!: lex_next_if_left(2) take_string_left)
qed

lemma casts_ok_parse_values: "casts_ok (parse_values lx xs)"
proof (induction "lex_left lx" arbitrary: lx xs rule: less_induct)
  case less
  show ?case
    by (subst parse_values.simps)
      (auto intro!: casts_ok_andthen casts_ok_parse_value less;
       auto dest!: parse_value_left(2) lex_next_if_left(1))
qed

lemma casts_ok_parse_cond_list: "casts_ok (parse_cond_list lx xs)"
proof (induction "lex_left lx" arbitrary: lx xs rule: less_induct)
  case less
  show ?case
    by (subst parse_cond_list.simps)
      (auto simp: Let_def intro!: casts_ok_andthen casts_ok_parse_value less;
       auto dest!: parse_value_left(2) lex_next_left(1) lex_next_if_left(1))
qed

lemma casts_ok_type: "casts_ok (parse_col_data_type c lx)"
  by (auto simp: parse_col_data_type_def parse_char_size_def simp del: token_val_ok.simps
      intro!: casts_ok_andthen casts_ok_any_long lex_next_if_val)

lemma casts_ok_parse_col_attrs: "casts_ok (parse_col_attrs lx xs)"
proof (induction "lex_left lx" arbitrary: lx xs rule: less_induct)
  case less
  show ?case
    by (subst parse_col_attrs.simps)
      (auto intro!: casts_ok_andthen casts_ok_take_next_if casts_ok_type less;
       auto dest!: lex_next_if_left(2) take_string_left parse_col_data_type_left)
qed

lemmas casts_ok_lists = casts_ok_parse_attrs casts_ok_parse_cols casts_ok_parse_values
  casts_ok_parse_cond_list casts_ok_parse_col_attrs

lemma casts_ok_from: "casts_ok (parse_from lx xs)" and casts_ok_conds: "casts_ok (parse_conds lx cs)"
  by (auto simp: parse_from_def parse_conds_def intro!: casts_ok_andthen casts_ok_lists)

lemma casts_ok_drop: "casts_ok (parse_drop q lx)"
  by (auto simp: parse_drop_def Let_def intro!: casts_ok_andthen casts_ok_take_next)

lemma casts_ok_do_parse: "casts_ok (do_parse q lx)"
  by (auto simp: do_parse_def parse_select_def parse_create_def parse_create_table_def parse_delete_def
      parse_insert_def parse_insert_cols_def parse_insert_values_def Let_def
      intro!: casts_ok_andthen casts_ok_lists casts_ok_from casts_ok_conds casts_ok_drop casts_ok_take_next_if)


section \<open>Parsed values\<close>

lemma parse_rel_value: "parse_rel lx = Inr (SUCCESS, v, lx') \<Longrightarrow> value_ok v"
  by (auto simp: parse_rel_def res_simps value_ok_def value_rel_def split: if_splits)

lemma parse_value_value:
  assumes "parse_value lx = Inr (SUCCESS, v, lx')"
  shows "value_ok v"
proof -
  from assms obtain tk lx1 where n: "lex_next lx = Inr (SUCCESS, tk, lx1)"
    by (auto simp: parse_value_def res_simps split: if_splits)
  from assms lex_next_val [OF n] show ?thesis
    by (auto simp: parse_value_def n res_simps value_ok_def value_int_def value_float_def value_null_def
        any_long_def any_float_def split: if_splits any.splits dest: parse_rel_value [unfolded value_ok_def])
qed

definition literal_typed :: "sql_value \<Rightarrow> bool" where
  "literal_typed v \<longleftrightarrow> value_ok v \<and> v_type v \<noteq> REL_ATTR"

definition cond_typed :: "condition \<Rightarrow> bool" where
  "cond_typed c \<longleftrightarrow> value_ok (c_left c) \<and> value_ok (c_right c) \<and> c_op c \<noteq> UNDEFINED_OP"

lemma parse_values_typed:
  "list_all literal_typed vs0 \<Longrightarrow> parse_values lx vs0 = Inr (SUCCESS, vs, lx') \<Longrightarrow> list_all literal_typed vs"
proof (induction "lex_left lx" arbitrary: lx vs0 rule: less_induct)
  case less
  from less(3) [unfolded parse_values.simps [of lx]] obtain v lx1 rc tk lx2 where
    v: "parse_value lx = Inr (SUCCESS, v, lx1)" "v_type v \<noteq> REL_ATTR" and
    c: "lex_next_if COMMAS_T lx1 = Inr (rc, tk, lx2)" and
    r: "rc \<noteq> SUCCESS \<Longrightarrow> vs = vs0 @ [v]"
       "rc = SUCCESS \<Longrightarrow> parse_values lx2 (vs0 @ [v]) = Inr (SUCCESS, vs, lx')"
    by (auto simp: res_simps split: if_splits; blast)
  have "list_all literal_typed (vs0 @ [v])"
    using less(2) parse_value_value [OF v(1)] v(2) by (simp add: literal_typed_def)
  moreover have "lex_left lx2 < lex_left lx"
    using parse_value_left(2) [OF v(1)] lex_next_if_left(1) [OF c] by simp
  ultimately show ?case using less(1) r by blast
qed

lemma parse_cond_list_typed:
  "list_all cond_typed cs0 \<Longrightarrow> parse_cond_list lx cs0 = Inr (SUCCESS, cs, lx') \<Longrightarrow> list_all cond_typed cs"
proof (induction "lex_left lx" arbitrary: lx cs0 rule: less_induct)
  case less
  from less(3) [unfolded parse_cond_list.simps [of lx]] obtain l lx1 tk lx2 r lx3 rc tk2 lx4 where
    v: "parse_value lx = Inr (SUCCESS, l, lx1)" "lex_next lx1 = Inr (SUCCESS, tk, lx2)"
       "token2op tk \<noteq> UNDEFINED_OP" "parse_value lx2 = Inr (SUCCESS, r, lx3)" and
    c: "lex_next_if COMMAS_T lx3 = Inr (rc, tk2, lx4)" and
    e: "rc \<noteq> SUCCESS \<Longrightarrow> cs = cs0 @ [\<lparr>c_left = l, c_right = r, c_op = token2op tk\<rparr>]"
       "rc = SUCCESS \<Longrightarrow>
        parse_cond_list lx4 (cs0 @ [\<lparr>c_left = l, c_right = r, c_op = token2op tk\<rparr>]) = Inr (SUCCESS, cs, lx')"
    by (auto simp: res_simps Let_def split: if_splits; blast)
  have "list_all cond_typed (cs0 @ [\<lparr>c_left = l, c_right = r, c_op = token2op tk\<rparr>])"
    using less(2) parse_value_value [OF v(1)] parse_value_value [OF v(4)] v(3) by (simp add: cond_typed_def)
  moreover have "lex_left lx4 < lex_left lx"
    using parse_value_left(2) [OF v(1)] lex_next_left(1) [OF v(2)] parse_value_left(2) [OF v(4)]
      lex_next_if_left(1) [OF c] by simp
  ultimately show ?case using less(1) e by blast
qed

lemma parse_conds_typed: "parse_conds lx [] = Inr (SUCCESS, cs, lx') \<Longrightarrow> list_all cond_typed cs"
  by (auto simp: parse_conds_def res_simps split: if_splits dest: parse_cond_list_typed [rotated])

text \<open>The parts of a statement that hold values.\<close>

fun query_typed :: "query_stmt \<Rightarrow> bool" where
  "query_typed (Select s) \<longleftrightarrow> list_all cond_typed (cond_list s)"
| "query_typed (Delete d) \<longleftrightarrow> list_all cond_typed (d_conds d)"
| "query_typed (Insert i) \<longleftrightarrow> list_all literal_typed (i_values i)"
| "query_typed (Create_Table c) \<longleftrightarrow> True"
| "query_typed (Drop d) \<longleftrightarrow> True"

lemma parse_select_typed: "parse_select lx = Inr (SUCCESS, q, lx') \<Longrightarrow> query_typed q"
  by (auto simp: parse_select_def res_simps Let_def select_default_def split: if_splits dest: parse_conds_typed)

lemma parse_delete_typed: "query_typed q0 \<Longrightarrow> parse_delete q0 lx = Inr (SUCCESS, q, lx') \<Longrightarrow> query_typed q"
  by (auto simp: parse_delete_def res_simps split: if_splits dest: parse_conds_typed)

lemma parse_insert_typed:
  assumes "query_typed q0" "parse_insert q0 lx = Inr (SUCCESS, q, lx')"
  shows "query_typed q"
proof -
  have "list_all literal_typed vs" if "parse_insert_values l = Inr (SUCCESS, vs, l')" for l vs l'
    using that parse_values_typed [of "[]"]
    by (auto simp: parse_insert_values_def res_simps split: if_splits)
  then show ?thesis using assms by (auto simp: parse_insert_def res_simps split: if_splits)
qed

lemma parse_other_typed:
  "query_typed q0 \<Longrightarrow> parse_create q0 lx = Inr (SUCCESS, q, lx') \<Longrightarrow> query_typed q"
  "query_typed q0 \<Longrightarrow> parse_drop q0 lx = Inr (SUCCESS, q, lx') \<Longrightarrow> query_typed q"
  by (auto simp: parse_create_def parse_create_table_def parse_drop_def Let_def res_simps split: if_splits)

lemma do_parse_typed:
  assumes "query_typed q0" "do_parse q0 lx = Inr (SUCCESS, q, lx')"
  shows "query_typed q"
  using assms
  by (auto simp: do_parse_def res_simps split: if_splits
      intro: parse_select_typed parse_delete_typed parse_insert_typed parse_other_typed)

end
