(* ===== verification/Sql_Properties.thy ===== *)
theory Sql_Properties
  imports Sql_Roundtrip Sql_Typed
begin

text \<open>The properties of the lexer, the values and the parser, each with a witness where it has hypotheses.\<close>

section \<open>Lexer\<close>

text \<open>C32: A call of the lexer that returns a token (not the error token) returns the position it started from and moves on by at least one character, to at most one place beyond the end of the text. This is what makes the loops of the parser end.\<close>

theorem lexer_consumes:
  assumes "internal_next lx = Inr (rc, tk, last_p, lx')" "tk \<noteq> BAD_EXPR"
  shows "last_p = lx_p lx \<and> lx_p lx < lx_p lx' \<and> lx_p lx' \<le> length (lx_input lx) + 1 \<and> lx_input lx' = lx_input lx"
  using internal_next_moves [OF assms(1)] assms(2) by (simp add: lex_moves_def)

theorem lexer_consumes_witness:
  "internal_next (lexer_init ''  <> 1'') =
     Inr (SUCCESS, NOT_EQ_T, 0, \<lparr>lx_input = ''  <> 1'', lx_p = 4, lx_val = Any_Empty\<rparr>) \<and> 0 < (4 :: nat)"
proof
  show *: "internal_next (lexer_init ''  <> 1'') =
     Inr (SUCCESS, NOT_EQ_T, 0, \<lparr>lx_input = ''  <> 1'', lx_p = 4, lx_val = Any_Empty\<rparr>)"
    by code_simp
  show "0 < (4 :: nat)" using lexer_consumes [OF *] by simp
qed

text \<open>A decimal literal is read without its last digit: \<open>parse_num\<close> hands the digits before the point and all but the last of the digits after it to \<open>std::stof\<close>.\<close>

lemma float_literal_loses_digit:
  assumes "list_all is_digit a" "list_all is_digit b" "b \<noteq> []" "long_range (int (digits_val a))"
  shows "parse_num (lexer_init (a @ ''.'' @ b)) =
     andthen (stof_decimal (digits_val (a @ butlast b)) (length b - 1))
       (\<lambda>f. Inr (FLOAT_T, \<lparr>lx_input = a @ ''.'' @ b, lx_p = length (a @ ''.'' @ b), lx_val = Any_Float f\<rparr>))"
proof -
  have dot: "\<not> is_digit (CHR ''.'')" by (simp add: is_digit_def char_between_def)
  have run: "run_of is_digit 0 (a @ ''.'' @ b) = a" "run_of is_digit (length a + 1) (a @ ''.'' @ b) = b"
    using assms(1,2) dot by (auto simp: run_of_def list_all_iff takeWhile_append2 takeWhile_eq_all_conv)
  have cut: "take (length a + 1 + length b - 1) (a @ ''.'' @ b) = a @ ''.'' @ butlast b"
    using assms(3) by (cases b rule: rev_cases) auto
  have "\<forall>c \<in> set (butlast b). is_digit c" using assms(2) by (auto simp: list_all_iff dest: in_set_butlastD)
  then have tw: "takeWhile is_digit (butlast b) = butlast b" by simp
  have "stof (a @ ''.'' @ butlast b) = stof_decimal (digits_val (a @ butlast b)) (length b - 1)"
    using assms(1) dot by (simp add: stof_def list_all_iff takeWhile_append2 Let_def tw)
  then show ?thesis
    using assms(3) run cut
    by (simp add: parse_num_def lexer_init_def Let_def accumulate_digits [OF assms(4)] input_at_def nth_append)
qed

lemma float_literal_loses_digit_instance:
  "parse_num (lexer_init ''1.25'') =
     andthen (stof_decimal 12 1) (\<lambda>f. Inr (FLOAT_T, \<lparr>lx_input = ''1.25'', lx_p = 4, lx_val = Any_Float f\<rparr>))"
proof -
  have "list_all is_digit ''1''" "list_all is_digit ''25''" "long_range (int (digits_val ''1''))"
    "digits_val (''1'' @ butlast ''25'') = 12"
    by code_simp+
  with float_literal_loses_digit [of "''1''" "''25''"] show ?thesis by (simp add: numeral_eq_Suc)
qed

section \<open>Values\<close>

text \<open>C33: Comparing two integers of 64 bits keeps the low 32 bits of their difference: the result is the difference where that fits into an \<open>int\<close>, and is 0, which the program takes for equality, exactly when the difference is a multiple of 2^32.\<close>

theorem compare_truncates:
  assumes "long_range (m - n)"
  shows "\<exists>d. value_compare (value_int m) (value_int n) = Inr d \<and> int_range d \<and>
     (int_range (m - n) \<longrightarrow> d = m - n) \<and> (d = 0 \<longleftrightarrow> 2 ^ 32 dvd m - n)"
proof -
  have "to_int (m - n) = 0 \<longleftrightarrow> 2 ^ 32 dvd m - n"
  proof -
    have "(m - n + 2147483648) mod 4294967296 = 2147483648 \<longleftrightarrow> 4294967296 dvd m - n"
      using mod_eq_dvd_iff [of "m - n + 2147483648" 4294967296 2147483648] by simp
    then show ?thesis by (simp add: to_int_def)
  qed
  then show ?thesis
    using compare_ints [OF assms] to_int_range to_int_id by auto
qed

theorem compare_truncates_witness:
  "value_compare (value_int 4294967296) (value_int 0) = Inr 0 \<and> value_compare (value_int 7) (value_int 9) = Inr (- 2)"
proof
  have "long_range (4294967296 - 0)" "long_range (7 - 9)" "int_range (7 - 9)"
    by (simp_all add: long_range_def int_range_def)
  then show "value_compare (value_int 4294967296) (value_int 0) = Inr 0"
    "value_compare (value_int 7) (value_int 9) = Inr (- 2)"
    using compare_truncates [of 4294967296 0] compare_truncates [of 7 9] by auto
qed

section \<open>Parser\<close>

text \<open>C30: Parsing a printed statement returns that statement, for every SELECT, INSERT, CREATE TABLE and DROP TABLE and for every DELETE with a condition, over names, integers, strings and NULL.\<close>

theorem parse_print:
  assumes "stmt_ok q"
  shows "parse_sql (print_stmt q) = Inr (SUCCESS, q)"
  using assms by (rule parse_sql_print)

theorem parse_print_witness:
  "print_stmt (Insert \<lparr>i_table_name = ''t'', i_cols = [''a'', ''b''], i_values = [value_int (- 5), value_null]\<rparr>) =
     '' INSERT INTO t ( a , b ) VALUES ( -5 , NULL ) ;'' \<and>
   parse_sql '' INSERT INTO t ( a , b ) VALUES ( -5 , NULL ) ;'' =
     Inr (SUCCESS, Insert \<lparr>i_table_name = ''t'', i_cols = [''a'', ''b''], i_values = [value_int (- 5), value_null]\<rparr>)"
proof -
  let ?i = "Insert \<lparr>i_table_name = ''t'', i_cols = [''a'', ''b''], i_values = [value_int (- 5), value_null]\<rparr>"
  have "stmt_ok ?i" by code_simp
  moreover have "print_stmt ?i = '' INSERT INTO t ( a , b ) VALUES ( -5 , NULL ) ;''" by code_simp
  ultimately show ?thesis using parse_print [of ?i] by simp
qed

text \<open>C31: On no text does a cast of the lexer or the parser fail, and in a statement that was parsed every value holds what its tag says: literals in the values of an INSERT, literals or attributes in the conditions, whose operators are known.\<close>

theorem parser_types:
  shows "parse_sql s \<noteq> Inl Bad_Any_Cast \<and> (\<forall>q. parse_sql s = Inr (SUCCESS, q) \<longrightarrow> query_typed q)"
proof
  have "casts_ok (parse_sql s)"
    unfolding parse_sql_def by (rule casts_ok_andthen) (auto simp: casts_ok_do_parse)
  then show "parse_sql s \<noteq> Inl Bad_Any_Cast" by (simp add: casts_ok_def)
  have "query_typed (Select select_default)" by (simp add: select_default_def)
  then show "\<forall>q. parse_sql s = Inr (SUCCESS, q) \<longrightarrow> query_typed q"
    using do_parse_typed [of "Select select_default" "lexer_init s"] by (auto simp: parse_sql_def res_simps)
qed

theorem parser_types_witness:
  "parse_sql '' DROP TABLE t ;'' = Inr (SUCCESS, Drop \<lparr>ds_table = ''t''\<rparr>) \<and> query_typed (Drop \<lparr>ds_table = ''t''\<rparr>)"
proof -
  have "parse_sql '' DROP TABLE t ;'' = Inr (SUCCESS, Drop \<lparr>ds_table = ''t''\<rparr>)" by code_simp
  with parser_types [of "'' DROP TABLE t ;''"] show ?thesis by blast
qed

text \<open>A DELETE without a condition, which the comments of the parser list as valid, is a syntax error whatever its tables: \<open>parse_conds\<close> takes the semicolon, then \<open>parse_delete\<close> misses it.\<close>

lemma delete_all_refused:
  assumes "names_ok ts"
  shows "parse_sql (print_stmt (Delete \<lparr>d_tables = ts, d_conds = []\<rparr>)) =
     Inr (SYNTAX_ERROR, Delete \<lparr>d_tables = ts, d_conds = []\<rparr>)"
proof -
  let ?ls = "Mark DELETE_T # Mark FROM_T # names_lexemes ts @ [Mark COLON_T]"
  define lx where "lx = lexer_init (print_lexemes ?ls)"
  have "list_all lexeme_ok ?ls"
    using names_lexemes_ok [OF assms] by (simp add: mark_ok_iff del: lexeme_ok.simps(1))
  then have b: "before lx ?ls" unfolding lx_def by (rule before_init)
  note b1 = before_pass [OF b]
  note b2 = before_Cons(2) [OF b1]
  from from_parses [OF assms _ before_pass [OF b2]] obtain lx3 where
    f: "parse_from (pass (Mark FROM_T) (step_over (Mark DELETE_T) (pass (Mark DELETE_T) lx))) [] = Inr (SUCCESS, ts, lx3)"
    and b3: "before lx3 [Mark COLON_T]"
    by (auto elim: parsesE)
  note b4 = before_pass [OF b3]
  have "do_parse (Select select_default) lx =
      Inr (SYNTAX_ERROR, Delete \<lparr>d_tables = ts, d_conds = []\<rparr>, step_over (Mark COLON_T) (pass (Mark COLON_T) lx3))"
    by (simp add: do_parse_def before_peek [OF b] parse_delete_def before_next_if [OF b1] before_next_if [OF b2] f
        before_peek [OF b3] parse_conds_def before_next [OF b4] before_end [OF before_Cons(2) [OF b4]])
  then show ?thesis
    by (simp add: parse_sql_def print_stmt_def where_lexemes_def lx_def)
qed

lemma delete_all_refused_instance:
  "parse_sql '' DELETE FROM t ;'' = Inr (SYNTAX_ERROR, Delete \<lparr>d_tables = [''t''], d_conds = []\<rparr>)"
proof -
  have "names_ok [''t'']"
    "print_stmt (Delete \<lparr>d_tables = [''t''], d_conds = []\<rparr>) = '' DELETE FROM t ;''"
    by code_simp+
  with delete_all_refused [of "[''t'']"] show ?thesis by simp
qed

end
