(* ===== verification/Std_Map.thy ===== *)
theory Std_Map
  imports Sql_Ast
begin

text \<open>
  \<open>std::map<std::string, T>\<close>, which the JSON objects, the catalog, the storage manager and the
  command table are made of: the entries in the order of the keys. The interface \<open>string_map\<close> states
  what a client relies on, in terms of the partial map a container stands for; the sorted lists
  provide it.
\<close>

section \<open>The interface\<close>

locale string_map =
  fixes find :: "string \<Rightarrow> 'm \<Rightarrow> 'v option"
    and emplace :: "string \<Rightarrow> 'v \<Rightarrow> 'm \<Rightarrow> 'm"
    and erase :: "string \<Rightarrow> 'm \<Rightarrow> 'm"
    and ordered :: "'m \<Rightarrow> bool"
  assumes find_emplace: "ordered m \<Longrightarrow>
      find k' (emplace k v m) = (if k' = k \<and> find k m = None then Some v else find k' m)"
    and find_erase: "ordered m \<Longrightarrow> find k' (erase k m) = (if k' = k then None else find k' m)"
    and ordered_emplace: "ordered m \<Longrightarrow> ordered (emplace k v m)"
    and ordered_erase: "ordered m \<Longrightarrow> ordered (erase k m)"
begin

text \<open>\<open>emplace\<close> does not overwrite.\<close>

lemma emplace_twice: "ordered m \<Longrightarrow> find k m = None \<Longrightarrow> find k (emplace k w (emplace k v m)) = Some v"
  by (simp add: find_emplace ordered_emplace)

lemma emplace_other: "ordered m \<Longrightarrow> k' \<noteq> k \<Longrightarrow> find k' (emplace k v m) = find k' m"
  by (simp add: find_emplace)

lemma emplace_dom: "ordered m \<Longrightarrow> find k' (emplace k v m) \<noteq> None \<longleftrightarrow> k' = k \<or> find k' m \<noteq> None"
  by (auto simp: find_emplace)

lemma erase_emplace:
  "ordered m \<Longrightarrow> find k m = None \<Longrightarrow> find k' (erase k (emplace k v m)) = find k' m"
  by (simp add: find_erase find_emplace ordered_emplace)

end

section \<open>Sorted lists of entries\<close>

fun map_emplace :: "string \<Rightarrow> 'v \<Rightarrow> (string \<times> 'v) list \<Rightarrow> (string \<times> 'v) list" where
  "map_emplace k v [] = [(k, v)]"
| "map_emplace k v ((k', v') # m) =
     (if string_compare k k' = 0 then (k', v') # m
      else if string_compare k k' < 0 then (k, v) # (k', v') # m
      else (k', v') # map_emplace k v m)"

definition map_find :: "string \<Rightarrow> (string \<times> 'v) list \<Rightarrow> 'v option" where
  "map_find k m = map_of m k"

definition map_erase :: "string \<Rightarrow> (string \<times> 'v) list \<Rightarrow> (string \<times> 'v) list" where
  "map_erase k m = filter (\<lambda>e. fst e \<noteq> k) m"

text \<open>\<open>at\<close> throws when the key is missing; a reference to an entry can be assigned through.\<close>

definition map_at :: "string \<Rightarrow> (string \<times> 'v) list \<Rightarrow> 'v res" where
  "map_at k m = (case map_find k m of Some v \<Rightarrow> Inr v | None \<Rightarrow> Inl Uncaught_Exception)"

definition map_assign :: "string \<Rightarrow> 'v \<Rightarrow> (string \<times> 'v) list \<Rightarrow> (string \<times> 'v) list" where
  "map_assign k v m = map (\<lambda>(k', v'). (k', if k' = k then v else v')) m"

fun map_sorted :: "(string \<times> 'v) list \<Rightarrow> bool" where
  "map_sorted [] \<longleftrightarrow> True"
| "map_sorted ((k, v) # m) \<longleftrightarrow> (\<forall>k' \<in> fst ` set m. string_compare k k' < 0) \<and> map_sorted m"

lemma map_emplace_keys: "fst ` set (map_emplace k v m) = insert k (fst ` set m)"
  by (induction k v m rule: map_emplace.induct) (auto simp: string_compare_zero)

lemma map_emplace_sorted: "map_sorted m \<Longrightarrow> map_sorted (map_emplace k v m)"
proof (induction k v m rule: map_emplace.induct)
  case (2 k v k' v' m)
  consider "string_compare k k' = 0" | "string_compare k k' < 0" | "string_compare k' k < 0"
    using string_compare_swap [of k' k] by linarith
  then show ?case
  proof cases
    case 2
    with 2 \<open>map_sorted ((k', v') # m)\<close> show ?thesis by (auto intro: string_compare_trans)
  next
    case 3
    with string_compare_swap [of k' k] \<open>map_sorted ((k', v') # m)\<close> "2.IH" show ?thesis
      by (auto simp: map_emplace_keys)
  qed (use 2 in simp)
qed simp

lemma map_find_emplace:
  "map_sorted m \<Longrightarrow>
   map_find k' (map_emplace k v m) = (if k' = k \<and> map_find k m = None then Some v else map_find k' m)"
proof (induction k v m rule: map_emplace.induct)
  case (2 k v k1 v1 m)
  then have IH: "string_compare k k1 \<noteq> 0 \<Longrightarrow> \<not> string_compare k k1 < 0 \<Longrightarrow>
      map_of (map_emplace k v m) k' = (if k' = k \<and> map_of m k = None then Some v else map_of m k')"
    by (simp add: map_find_def)
  have "map_of m k = None" if "string_compare k k1 < 0"
  proof -
    have "k \<notin> fst ` set m"
      using 2(2) string_compare_trans [OF that, of k] string_compare_zero [of k k] by auto
    then show ?thesis by (simp add: map_of_eq_None_iff)
  qed
  with IH show ?case by (auto simp: map_find_def string_compare_zero)
qed (simp add: map_find_def)

lemma map_find_erase: "map_find k' (map_erase k m) = (if k' = k then None else map_find k' m)"
  by (induction m) (auto simp: map_find_def map_erase_def)

lemma map_erase_sorted: "map_sorted m \<Longrightarrow> map_sorted (map_erase k m)"
  by (induction m rule: map_sorted.induct) (auto simp: map_erase_def)

interpretation smap: string_map map_find map_emplace map_erase map_sorted
  by unfold_locales (simp_all add: map_find_emplace map_find_erase map_emplace_sorted map_erase_sorted)

lemma map_assign_keys [simp]: "map fst (map_assign k v m) = map fst m"
  by (simp add: map_assign_def case_prod_beta comp_def)

lemma map_sorted_cong: "map fst m = map fst m' \<Longrightarrow> map_sorted m = map_sorted m'"
proof (induction m arbitrary: m')
  case (Cons e m)
  then obtain e' r where "m' = e' # r" "fst e' = fst e" "map fst r = map fst m" by (cases m') auto
  moreover from this have "fst ` set r = fst ` set m" by (metis set_map)
  ultimately show ?case using Cons.IH [of r] by (cases e; cases e') simp
qed simp

lemma map_assign_sorted [simp]: "map_sorted (map_assign k v m) = map_sorted m"
  using map_sorted_cong [OF map_assign_keys] .

lemma map_find_assign:
  "map_find k' (map_assign k v m) = (if k' = k \<and> map_find k m \<noteq> None then Some v else map_find k' m)"
  by (induction m) (auto simp: map_find_def map_assign_def)

end
