(* ===== verification/Float64.thy ===== *)
theory Float64
  imports Float32
begin

text \<open>
  The C++ type \<open>double\<close>, the numbers of the JSON values: its IEEE binary64 pattern, the magnitude in
  units of \<open>2 ^ -1074\<close>. The standard library is used for \<open>strtod\<close>, \<open>std::to_string\<close> and the
  conversions from and to integers; on integers below \<open>2 ^ 53\<close> all of them are exact.
\<close>

section \<open>Patterns and rounding\<close>

definition double_sign :: "64 word \<Rightarrow> bool" where
  "double_sign w \<longleftrightarrow> bit w 63"

definition double_exp :: "64 word \<Rightarrow> nat" where
  "double_exp w = unat w div 2 ^ 52 mod 2 ^ 11"

definition double_frac :: "64 word \<Rightarrow> nat" where
  "double_frac w = unat w mod 2 ^ 52"

definition double_units :: "64 word \<Rightarrow> nat" where
  "double_units w =
     (if double_exp w = 0 then double_frac w else (2 ^ 52 + double_frac w) * 2 ^ (double_exp w - 1))"

definition double_neg :: "64 word \<Rightarrow> 64 word" where
  "double_neg w = w XOR 2 ^ 63"

function double_scale :: "nat \<Rightarrow> nat \<Rightarrow> nat \<Rightarrow> nat" where
  "double_scale n d s = (if n < d * 2 ^ (s + 53) \<or> 2048 \<le> s then s else double_scale n d (s + 1))"
  by pat_completeness auto
termination
  by (relation "measure (\<lambda>(n, d, s). 2048 - s)") auto

declare double_scale.simps [simp del]

text \<open>The number nearest to \<open>n / d\<close> units; \<open>None\<close> is overflow.\<close>

definition double_round :: "nat \<Rightarrow> nat \<Rightarrow> 64 word option" where
  "double_round n d =
     (let s = double_scale n d 0; b = s * 2 ^ 52 + round_even n (d * 2 ^ s)
      in if b < 2047 * 2 ^ 52 then Some (of_nat b) else None)"

section \<open>The operations of the standard library\<close>

text \<open>The conversion of an unsigned integer, which never overflows.\<close>

definition double_of_nat :: "nat \<Rightarrow> 64 word" where
  "double_of_nat n = (case double_round (n * 2 ^ 1074) 1 of Some w \<Rightarrow> w | None \<Rightarrow> 0)"

definition double_of_int :: "int \<Rightarrow> 64 word" where
  "double_of_int n = (if n < 0 then double_neg (double_of_nat (nat (- n))) else double_of_nat (nat n))"

text \<open>The integer part, which has to fit the type it is converted to.\<close>

definition double_trunc :: "64 word \<Rightarrow> int res" where
  "double_trunc w =
     (if double_exp w = 2047 then Inl Bad_Conversion
      else let q = int (double_units w div 2 ^ 1074) in Inr (if double_sign w then - q else q))"

definition double_to_int :: "64 word \<Rightarrow> int res" where
  "double_to_int w = andthen (double_trunc w) (\<lambda>n. if int_range n then Inr n else Inl Bad_Conversion)"

definition double_to_size :: "64 word \<Rightarrow> 64 word res" where
  "double_to_size w =
     andthen (double_trunc w) (\<lambda>n. if 0 \<le> n \<and> n < 2 ^ 64 then Inr (of_int n) else Inl Bad_Conversion)"

text \<open>\<open>%f\<close>, as \<open>std::to_string\<close> prints.\<close>

definition double_to_string :: "64 word \<Rightarrow> string" where
  "double_to_string w =
     (if double_sign w then ''-'' else []) @
     (if double_exp w = 2047 then (if double_frac w = 0 then ''inf'' else ''nan'')
      else (let m = round_even (double_units w * 10 ^ 6) (2 ^ 1074) in
            nat_digits (m div 10 ^ 6) @ ''.'' @ pad_digits 6 (m mod 10 ^ 6)))"

text \<open>
  \<open>strtod\<close> of \<open>n * 10 ^ e\<close>: \<open>None\<close> when it overflows, or sets \<open>errno\<close> to \<open>ERANGE\<close> because the number is
  rounded in the subnormal range.
\<close>

definition strtod_decimal :: "bool \<Rightarrow> nat \<Rightarrow> int \<Rightarrow> 64 word option" where
  "strtod_decimal neg n e =
     (let u = n * 2 ^ 1074 * 10 ^ nat e; d = 10 ^ nat (- e) in
      if u * 4 < d * (2 ^ 54 - 1) \<and> \<not> d dvd u then None
      else case double_round u d of
             Some w \<Rightarrow> Some (if neg then double_neg w else w)
           | None \<Rightarrow> None)"

section \<open>Integers are exact\<close>

lemma double_scale_le: "n < d * 2 ^ (k + 53) \<Longrightarrow> s \<le> k \<Longrightarrow> double_scale n d s \<le> k"
proof (induction n d s rule: double_scale.induct)
  case (1 n d s)
  show ?case
  proof (cases "n < d * 2 ^ (s + 53) \<or> 2048 \<le> s")
    case True
    with 1 show ?thesis by (simp add: double_scale.simps [of n d s])
  next
    case False
    with 1(2,3) have "s \<noteq> k" by auto
    with 1 False show ?thesis by (simp add: double_scale.simps [of n d s])
  qed
qed

lemma double_scale_min:
  "s < double_scale n d s \<Longrightarrow> d * 2 ^ (double_scale n d s + 52) \<le> n"
proof (induction n d s rule: double_scale.induct)
  case (1 n d s)
  then have u: "\<not> (n < d * 2 ^ (s + 53) \<or> 2048 \<le> s)"
    by (auto simp: double_scale.simps [of n d s] split: if_splits)
  then have e: "double_scale n d s = double_scale n d (s + 1)" by (simp add: double_scale.simps [of n d s])
  show ?case
  proof (cases "double_scale n d (s + 1) = s + 1")
    case True
    with u e show ?thesis by (simp add: add.commute add.left_commute)
  next
    case False
    moreover have "s + 1 \<le> double_scale n d (s + 1)"
    proof -
      have "t \<le> double_scale n d t" for t
        by (induction n d t rule: double_scale.induct) (subst double_scale.simps, auto)
      then show ?thesis .
    qed
    ultimately show ?thesis using 1(1) [OF u] e by simp
  qed
qed

lemma double_scale_mult: "0 < c \<Longrightarrow> double_scale (n * c) (d * c) s = double_scale n d s"
proof (induction n d s rule: double_scale.induct)
  case (1 n d s)
  have "n * c < d * c * 2 ^ (s + 53) \<longleftrightarrow> n < d * 2 ^ (s + 53)"
    using 1(2) by (metis mult.commute mult.left_commute nat_mult_less_cancel1)
  with 1 show ?case by (simp add: double_scale.simps [of n d s] double_scale.simps [of "n * c" "d * c" s])
qed

lemma round_even_mult: "0 < c \<Longrightarrow> round_even (n * c) (d * c) = round_even n d"
  by (auto simp: round_even_def Let_def simp flip: mult_mod_left)

lemma double_round_mult:
  assumes "0 < c"
  shows "double_round (n * c) (d * c) = double_round n d"
proof -
  have "round_even (n * c) (d * c * 2 ^ s) = round_even n (d * 2 ^ s)" for s
    using round_even_mult [OF assms, of n "d * 2 ^ s"] by (simp add: ac_simps)
  then show ?thesis by (simp add: double_round_def double_scale_mult [OF assms])
qed

lemma round_even_exact: "0 < d \<Longrightarrow> round_even (q * d) d = q"
  by (simp add: round_even_def)

text \<open>A magnitude with at most 53 significant digits is not rounded.\<close>

lemma double_round_exact:
  assumes q: "q < 2 ^ 53" and s: "s = 0 \<or> 2 ^ 52 \<le> q" "s < 2046" and sc: "double_scale (q * 2 ^ s) 1 0 = s"
  obtains w where "double_round (q * 2 ^ s) 1 = Some w" "double_units w = q * 2 ^ s"
    "double_sign w = False" "double_exp w \<noteq> 2047"
proof -
  define b where "b = s * 2 ^ 52 + q"
  define w :: "64 word" where "w = of_nat b"
  have "b \<le> 2045 * 2 ^ 52 + q" using s(2) by (simp add: b_def)
  then have b: "b < 2047 * 2 ^ 52" using q by simp
  then have u: "unat w = b" by (simp add: w_def unat_of_nat take_bit_nat_eq_self)
  have "round_even (q * 2 ^ s) (1 * 2 ^ s) = q" by (simp add: round_even_exact)
  then have r: "double_round (q * 2 ^ s) 1 = Some w"
    using b by (simp only: double_round_def Let_def sc b_def [symmetric] w_def [symmetric] if_True)
  have "bit w 63 \<longleftrightarrow> bit (unat w) 63" by (simp add: bit_simps)
  then have sg: "double_sign w = False"
    using b by (simp add: double_sign_def u bit_iff_odd [of b])
  show ?thesis
  proof (cases "q < 2 ^ 52")
    case True
    with s(1) have "b = q" "s = 0" by (auto simp: b_def)
    then have "double_exp w = 0" "double_frac w = q" using True by (simp_all add: double_exp_def double_frac_def u)
    with \<open>s = 0\<close> show ?thesis by (intro that [OF r _ sg]) (simp_all add: double_units_def)
  next
    case False
    define f where "f = q - 2 ^ 52"
    have f: "q = 2 ^ 52 + f" "f < 2 ^ 52" using False q by (simp_all add: f_def)
    then have bf: "b = f + (s + 1) * 2 ^ 52" by (simp add: b_def)
    have "b mod 2 ^ 52 = f" unfolding bf using f(2) by (simp only: mod_mult_self1 mod_less)
    moreover have "b div 2 ^ 52 = s + 1" unfolding bf using f(2) by (simp add: div_mult_self1)
    ultimately have "b div 2 ^ 52 = s + 1" "b mod 2 ^ 52 = f" by simp_all
    then have "double_exp w = s + 1" "double_frac w = f"
      using s(2) by (simp_all add: double_exp_def double_frac_def u)
    with f(1) s(2) show ?thesis by (intro that [OF r _ sg]) (simp_all add: double_units_def)
  qed
qed

lemma double_of_nat_exact:
  assumes "n < 2 ^ 53"
  shows "double_round (n * 2 ^ 1074) 1 = Some (double_of_nat n)" "double_units (double_of_nat n) = n * 2 ^ 1074"
    "double_sign (double_of_nat n) = False" "double_exp (double_of_nat n) \<noteq> 2047"
proof -
  define s where "s = double_scale (n * 2 ^ 1074) 1 0"
  define q where "q = n * 2 ^ (1074 - s)"
  have "n * 2 ^ 1074 < 1 * 2 ^ (1074 + 53)"
    using assms by (simp add: power_add mult.commute)
  from double_scale_le [OF this, of 0] have le: "s \<le> 1074" by (simp add: s_def)
  have eq: "n * 2 ^ 1074 = q * 2 ^ s"
    using le by (simp add: q_def mult.assoc flip: power_add)
  have q: "q < 2 ^ 53"
  proof -
    have "s < 2048" using le by simp
    then have "n * 2 ^ 1074 < 1 * 2 ^ (s + 53)"
    proof -
      have "n * 2 ^ 1074 < d * 2 ^ (double_scale (n * 2 ^ 1074) d t + 53) \<or> 2048 \<le> double_scale (n * 2 ^ 1074) d t" for d t
        by (induction "n * 2 ^ 1074" d t rule: double_scale.induct) (subst (1 2) double_scale.simps, auto)
      from this [of 1 0] show ?thesis using \<open>s < 2048\<close> by (simp add: s_def)
    qed
    then have "q * 2 ^ s < 2 ^ 53 * 2 ^ s" by (simp only: eq power_add mult.commute mult_1)
    then show ?thesis by simp
  qed
  have lo: "s = 0 \<or> 2 ^ 52 \<le> q"
  proof (cases "s = 0")
    case False
    then have "1 * 2 ^ (s + 52) \<le> n * 2 ^ 1074"
      using double_scale_min [of 0 "n * 2 ^ 1074" 1] by (simp add: s_def)
    then have "2 ^ 52 * 2 ^ s \<le> q * 2 ^ s" by (simp only: eq power_add mult.commute mult_1)
    then show ?thesis by simp
  qed simp
  have "s < 2046" using le by simp
  moreover have "double_scale (n * 2 ^ 1074) 1 0 = s" by (rule s_def [symmetric])
  then have "double_scale (q * 2 ^ s) 1 0 = s" by (simp only: eq)
  ultimately obtain w where
    "double_round (q * 2 ^ s) 1 = Some w" "double_units w = q * 2 ^ s" "double_sign w = False"
      "double_exp w \<noteq> 2047"
    by (rule double_round_exact [OF q lo])
  then have w: "double_round (n * 2 ^ 1074) 1 = Some w" "double_units w = n * 2 ^ 1074" "double_sign w = False"
      "double_exp w \<noteq> 2047"
    by (simp_all only: eq not_False_eq_True)
  then have "double_of_nat n = w" by (simp only: double_of_nat_def option.case)
  with w show "double_round (n * 2 ^ 1074) 1 = Some (double_of_nat n)" "double_units (double_of_nat n) = n * 2 ^ 1074"
    "double_sign (double_of_nat n) = False" "double_exp (double_of_nat n) \<noteq> 2047" by simp_all
qed


lemma double_to_size_exact: "n < 2 ^ 53 \<Longrightarrow> double_to_size (double_of_nat n) = Inr (of_nat n)"
proof -
  assume n: "n < 2 ^ 53"
  note e = double_of_nat_exact [OF n]
  have "double_units (double_of_nat n) div 2 ^ 1074 = n" by (simp only: e(2) nonzero_mult_div_cancel_right) simp
  then have "double_trunc (double_of_nat n) = Inr (int n)" using e(3,4) by (simp add: double_trunc_def)
  with n show ?thesis by (simp add: double_to_size_def)
qed

lemma double_to_int_exact: "n < 2 ^ 31 \<Longrightarrow> double_to_int (double_of_nat n) = Inr (int n)"
proof -
  assume n: "n < 2 ^ 31"
  then have "n < 2 ^ 53" by simp
  note e = double_of_nat_exact [OF this]
  have "double_units (double_of_nat n) div 2 ^ 1074 = n" by (simp only: e(2) nonzero_mult_div_cancel_right) simp
  then have "double_trunc (double_of_nat n) = Inr (int n)" using e(3,4) by (simp add: double_trunc_def)
  with n show ?thesis by (simp add: double_to_int_def int_range_def)
qed

lemma double_of_nat_string:
  assumes "n < 2 ^ 53"
  shows "double_to_string (double_of_nat n) = nat_digits n @ ''.000000''"
proof -
  note e = double_of_nat_exact [OF assms]
  have "round_even (double_units (double_of_nat n) * 10 ^ 6) (2 ^ 1074) = round_even (n * 10 ^ 6 * 2 ^ 1074) (2 ^ 1074)"
    by (simp only: e(2) mult.assoc mult.commute [of "2 ^ 1074"])
  also have "\<dots> = n * 10 ^ 6" by (rule round_even_exact) simp
  finally have m: "round_even (double_units (double_of_nat n) * 10 ^ 6) (2 ^ 1074) = n * 10 ^ 6" .
  have p: "pad_digits 6 0 = ''000000''" by code_simp
  show ?thesis using e(3,4) by (simp add: double_to_string_def m Let_def p del: power_numeral)
qed

lemma strtod_of_nat:
  assumes "n < 2 ^ 53"
  shows "strtod_decimal False (n * 10 ^ 6) (- 6) = Some (double_of_nat n)"
proof -
  have r: "double_round (n * 10 ^ 6 * 2 ^ 1074 * 10 ^ nat (- 6)) (10 ^ nat (- (- 6))) = Some (double_of_nat n)"
  proof -
    have "double_round (n * 10 ^ 6 * 2 ^ 1074 * 10 ^ nat (- 6)) (10 ^ nat (- (- 6))) =
        double_round (n * 2 ^ 1074 * 10 ^ 6) (1 * 10 ^ 6)"
      by (simp only: mult.assoc mult.commute [of "10 ^ 6"]) simp
    also have "\<dots> = double_round (n * 2 ^ 1074) 1" by (rule double_round_mult) simp
    finally show ?thesis using double_of_nat_exact(1) [OF assms] by simp
  qed
  have six: "nat (- (- 6)) = 6" by simp
  have "(10 :: nat) ^ nat (- (- 6)) dvd n * 10 ^ 6 * 2 ^ 1074 * 10 ^ nat (- 6)"
    unfolding six by (intro dvd_mult2 dvd_mult [OF dvd_refl])
  then show ?thesis
    unfolding strtod_decimal_def Let_def by (simp only: r not_True_eq_False simp_thms if_False option.case)
qed

end
