(* ===== verification/Json_Value.thy ===== *)
theory Json_Value
  imports Std_Map Float64
begin

text \<open>
  The JSON values of \<open>src/json/json_value.hpp\<close>. A \<open>Value\<close> is a tag and a union; the two agree, so
  that a value is one constructor. \<open>PSON_ASSERT\<close> only prints (\<open>src/json/json_assert.hpp\<close>): an access
  to another type than the tag's goes on to read the wrong member of the union.
\<close>

datatype json_type = JSON_NULL | JSON_BOOL | JSON_NUMBER | JSON_STRING | JSON_ARRAY | JSON_OBJECT

datatype json =
    JNull
  | JBool bool
  | JNumber "64 word"
  | JString string
  | JArray "json list"
  | JObject "(string \<times> json) list"

type_synonym json_array = "json list"
type_synonym json_object = "(string \<times> json) list"

section \<open>Objects\<close>

definition object_insert :: "string \<Rightarrow> json \<Rightarrow> json_object \<Rightarrow> json_object" where
  "object_insert name v o1 = map_emplace name v o1"

definition object_erase :: "string \<Rightarrow> json_object \<Rightarrow> json_object" where
  "object_erase name o1 = map_erase name o1"

definition object_at :: "string \<Rightarrow> json_object \<Rightarrow> json res" where
  "object_at name o1 = map_at name o1"

definition object_has :: "string \<Rightarrow> json_object \<Rightarrow> bool" where
  "object_has name o1 \<longleftrightarrow> map_find name o1 \<noteq> None"

definition object_empty :: "json_object \<Rightarrow> bool" where
  "object_empty o1 \<longleftrightarrow> o1 = []"

definition object_size :: "json_object \<Rightarrow> nat" where
  "object_size o1 = length o1"

section \<open>Arrays\<close>

text \<open>\<open>values_[i]\<close> is not checked.\<close>

definition array_at :: "int \<Rightarrow> json_array \<Rightarrow> json res" where
  "array_at i a = (if 0 \<le> i \<and> nat i < length a then Inr (a ! nat i) else Inl Out_Of_Bounds)"

definition array_has :: "int \<Rightarrow> json_array \<Rightarrow> bool" where
  "array_has i a \<longleftrightarrow> 0 \<le> i \<and> nat i < length a"

definition array_back :: "json_array \<Rightarrow> json res" where
  "array_back a = (if a = [] then Inl Out_Of_Bounds else Inr (last a))"

definition array_push_back :: "json \<Rightarrow> json_array \<Rightarrow> json_array" where
  "array_push_back v a = a @ [v]"

definition array_pop_back :: "json_array \<Rightarrow> json_array res" where
  "array_pop_back a = (if a = [] then Inl Out_Of_Bounds else Inr (butlast a))"

definition array_size :: "json_array \<Rightarrow> nat" where
  "array_size a = length a"

definition array_empty :: "json_array \<Rightarrow> bool" where
  "array_empty a \<longleftrightarrow> a = []"

section \<open>Values\<close>

fun json_type_of :: "json \<Rightarrow> json_type" where
  "json_type_of JNull = JSON_NULL"
| "json_type_of (JBool _) = JSON_BOOL"
| "json_type_of (JNumber _) = JSON_NUMBER"
| "json_type_of (JString _) = JSON_STRING"
| "json_type_of (JArray _) = JSON_ARRAY"
| "json_type_of (JObject _) = JSON_OBJECT"

definition judge_type :: "json_type \<Rightarrow> json \<Rightarrow> bool" where
  "judge_type t v \<longleftrightarrow> json_type_of v = t"

text \<open>\<open>is<T>\<close>, by the tag of the type.\<close>

definition json_is :: "json_type \<Rightarrow> json \<Rightarrow> bool" where
  "json_is t v \<longleftrightarrow> judge_type t v"

fun init_base :: "json_type \<Rightarrow> json" where
  "init_base JSON_NULL = JNull"
| "init_base JSON_BOOL = JBool False"
| "init_base JSON_NUMBER = JNumber 0"
| "init_base JSON_STRING = JString []"
| "init_base JSON_ARRAY = JArray []"
| "init_base JSON_OBJECT = JObject []"

definition json_of_uint :: "nat \<Rightarrow> json" where
  "json_of_uint n = JNumber (double_of_nat n)"

definition json_of_int :: "int \<Rightarrow> json" where
  "json_of_int n = JNumber (double_of_int n)"

definition json_reset :: "json \<Rightarrow> json" where
  "json_reset v = JNull"

definition json_reset_as :: "json_type \<Rightarrow> json \<Rightarrow> json" where
  "json_reset_as t v = (let _ = json_reset v in init_base t)"

definition json_swap :: "json \<Rightarrow> json \<Rightarrow> json \<times> json" where
  "json_swap a b = (b, a)"

text \<open>(the value, what is left of the other one).\<close>

definition json_move_assign :: "json \<Rightarrow> json \<Rightarrow> json \<times> json" where
  "json_move_assign self v = json_swap (json_reset self) v"

text \<open>\<open>copy_value\<close> assigns the member when the types agree, and builds a new one when they do not.\<close>

definition copy_value :: "json \<Rightarrow> json \<Rightarrow> json" where
  "copy_value self v =
     (if json_type_of self = json_type_of v
      then (case v of
              JNull \<Rightarrow> JNull
            | JBool b \<Rightarrow> (case self of JBool _ \<Rightarrow> JBool b | _ \<Rightarrow> self)
            | JNumber n \<Rightarrow> (case self of JNumber _ \<Rightarrow> JNumber n | _ \<Rightarrow> self)
            | JString s \<Rightarrow> (case self of JString _ \<Rightarrow> JString s | _ \<Rightarrow> self)
            | JArray a \<Rightarrow> (case self of JArray _ \<Rightarrow> JArray a | _ \<Rightarrow> self)
            | JObject o1 \<Rightarrow> (case self of JObject _ \<Rightarrow> JObject o1 | _ \<Rightarrow> self))
      else (case v of
              JNull \<Rightarrow> JNull
            | JBool b \<Rightarrow> JBool b
            | JNumber n \<Rightarrow> JNumber n
            | JString s \<Rightarrow> JString s
            | JArray a \<Rightarrow> JArray a
            | JObject o1 \<Rightarrow> JObject o1))"

lemma copy_value_is: "copy_value self v = v"
  by (cases self; cases v) (simp_all add: copy_value_def)

definition as_bool :: "json \<Rightarrow> bool res" where
  "as_bool v = (case v of JBool b \<Rightarrow> Inr b | _ \<Rightarrow> Inl Wrong_Member)"

definition as_number :: "json \<Rightarrow> 64 word res" where
  "as_number v = (case v of JNumber w \<Rightarrow> Inr w | _ \<Rightarrow> Inl Wrong_Member)"

definition as_string :: "json \<Rightarrow> string res" where
  "as_string v = (case v of JString s \<Rightarrow> Inr s | _ \<Rightarrow> Inl Wrong_Member)"

definition as_array :: "json \<Rightarrow> json_array res" where
  "as_array v = (case v of JArray a \<Rightarrow> Inr a | _ \<Rightarrow> Inl Wrong_Member)"

definition as_object :: "json \<Rightarrow> json_object res" where
  "as_object v = (case v of JObject o1 \<Rightarrow> Inr o1 | _ \<Rightarrow> Inl Wrong_Member)"

text \<open>For the other types \<open>empty\<close> prints and returns false, \<open>size\<close> returns 0.\<close>

definition json_empty :: "json \<Rightarrow> bool" where
  "json_empty v =
     (case v of JNull \<Rightarrow> True | JArray a \<Rightarrow> array_empty a | JObject o1 \<Rightarrow> object_empty o1 | _ \<Rightarrow> False)"

definition json_size :: "json \<Rightarrow> nat" where
  "json_size v =
     (case v of JString s \<Rightarrow> length s | JArray a \<Rightarrow> array_size a | JObject o1 \<Rightarrow> object_size o1 | _ \<Rightarrow> 0)"

definition json_push_back :: "json \<Rightarrow> json \<Rightarrow> json res" where
  "json_push_back x v = andthen (as_array v) (\<lambda>a. Inr (JArray (array_push_back x a)))"

definition json_pop_back :: "json \<Rightarrow> json res" where
  "json_pop_back v = andthen (as_array v) (\<lambda>a. andthen (array_pop_back a) (\<lambda>a. Inr (JArray a)))"

definition json_back :: "json \<Rightarrow> json res" where
  "json_back v = andthen (as_array v) array_back"

definition json_has_index :: "int \<Rightarrow> json \<Rightarrow> bool res" where
  "json_has_index i v = andthen (as_array v) (\<lambda>a. Inr (array_has i a))"

definition json_at_index :: "int \<Rightarrow> json \<Rightarrow> json res" where
  "json_at_index i v = andthen (as_array v) (array_at i)"

definition json_insert :: "string \<Rightarrow> json \<Rightarrow> json \<Rightarrow> json res" where
  "json_insert name x v = andthen (as_object v) (\<lambda>o1. Inr (JObject (object_insert name x o1)))"

definition json_has :: "string \<Rightarrow> json \<Rightarrow> bool res" where
  "json_has name v = andthen (as_object v) (\<lambda>o1. Inr (object_has name o1))"

definition json_at :: "string \<Rightarrow> json \<Rightarrow> json res" where
  "json_at name v = andthen (as_object v) (object_at name)"

definition json_erase :: "string \<Rightarrow> json \<Rightarrow> json res" where
  "json_erase name v = andthen (as_object v) (\<lambda>o1. Inr (JObject (object_erase name o1)))"

lemma init_base_type [simp]: "json_type_of (init_base t) = t"
  by (cases t) simp_all

text \<open>Every object in a value is in the order of its keys: the invariant of \<open>std::map\<close>.\<close>

fun json_ok :: "json \<Rightarrow> bool" where
  "json_ok (JArray vs) \<longleftrightarrow> list_all json_ok vs"
| "json_ok (JObject o1) \<longleftrightarrow> map_sorted o1 \<and> list_all (\<lambda>(k, v). json_ok v) o1"
| "json_ok _ \<longleftrightarrow> True"

lemma map_emplace_all: "list_all P m \<Longrightarrow> P (k, v) \<Longrightarrow> list_all P (map_emplace k v m)"
  by (induction k v m rule: map_emplace.induct) auto

lemma json_insert_ok:
  assumes "json_insert name x v = Inr v'" "json_ok x" "json_ok v"
  shows "json_ok v'"
  using assms
  by (auto simp: json_insert_def as_object_def object_insert_def res_simps map_emplace_sorted
      split: json.splits intro!: map_emplace_all)

lemma json_push_back_ok:
  "json_push_back x v = Inr v' \<Longrightarrow> json_ok x \<Longrightarrow> json_ok v \<Longrightarrow> json_ok v'"
  by (auto simp: json_push_back_def as_array_def array_push_back_def res_simps split: json.splits)

end
