(* ===== verification/Json_Parser.thy ===== *)
theory Json_Parser
  imports Json_Value Sql_Lexer
begin

text \<open>
  \<open>pson::Parser\<close> of \<open>src/json/json_parser.hpp\<close> over the characters of a \<open>std::string\<close>, whose end is a
  NUL. A parsing function returns the value, or none when it returns false, and the new offset; what
  a failed call leaves in its out-parameter is not used by the program. The recursion of values,
  arrays and objects is bounded by fuel; the section on termination shows how much is enough.
\<close>

unbundle bit_operations_syntax

section \<open>Characters\<close>

definition json_char :: "string \<Rightarrow> nat \<Rightarrow> char res" where
  "json_char d i = input_at d i"

definition json_blank :: "char \<Rightarrow> bool" where
  "json_blank ch \<longleftrightarrow> ch = CHR 0x20 \<or> ch = CHR 0x09 \<or> ch = CHR 0x0A \<or> ch = CHR 0x0D"

definition skip_write_blank :: "string \<Rightarrow> nat \<Rightarrow> nat" where
  "skip_write_blank d off = off + length (takeWhile json_blank (drop off d))"

section \<open>Literals\<close>

text \<open>The rest of the word behind its first letter.\<close>

definition word_here :: "string \<Rightarrow> nat \<Rightarrow> string \<Rightarrow> bool" where
  "word_here d off w \<longleftrightarrow> take (length w - 1) (drop (off + 1) d) = tl w"

definition parse_true :: "string \<Rightarrow> nat \<Rightarrow> json option \<times> nat" where
  "parse_true d off =
     (if length d \<le> off + 3 \<or> \<not> word_here d off ''true'' then (None, off)
      else (Some (JBool True), off + 4))"

definition parse_false :: "string \<Rightarrow> nat \<Rightarrow> json option \<times> nat" where
  "parse_false d off =
     (if length d \<le> off + 4 \<or> \<not> word_here d off ''false'' then (None, off)
      else (Some (JBool False), off + 5))"

definition parse_null :: "string \<Rightarrow> nat \<Rightarrow> json option \<times> nat" where
  "parse_null d off =
     (if length d \<le> off + 3 \<or> \<not> word_here d off ''null'' then (None, off)
      else (Some JNull, off + 4))"

section \<open>Numbers\<close>

text \<open>
  \<open>strtod\<close> on what begins with an optional minus and a digit: the longest prefix that is a
  hexadecimal or a decimal number; it is not told where the parser thinks the number ends.
\<close>

definition is_hex :: "char \<Rightarrow> bool" where
  "is_hex c \<longleftrightarrow> is_digit c \<or> char_between (CHR ''a'') (CHR ''f'') c \<or> char_between (CHR ''A'') (CHR ''F'') c"

definition hex_val :: "char \<Rightarrow> nat" where
  "hex_val c =
     (if is_digit c then digit_val c
      else if char_between (CHR ''A'') (CHR ''F'') c then of_char c - (of_char (CHR ''A'') - 10)
      else of_char c - (of_char (CHR ''a'') - 10))"

definition fraction_of :: "(char \<Rightarrow> bool) \<Rightarrow> string \<Rightarrow> string" where
  "fraction_of P r = (case r of c # r' \<Rightarrow> if c = CHR ''.'' then takeWhile P r' else [] | [] \<Rightarrow> [])"

definition exponent_of :: "char set \<Rightarrow> string \<Rightarrow> int" where
  "exponent_of es r =
     (case r of
        c # r' \<Rightarrow>
          if c \<in> es
          then (let neg = (r' \<noteq> [] \<and> hd r' = CHR ''-''); sgn = (r' \<noteq> [] \<and> hd r' \<in> {CHR ''+'', CHR ''-''});
                    e = int (digits_val (takeWhile is_digit (if sgn then tl r' else r')))
                in if neg then - e else e)
          else 0
      | [] \<Rightarrow> 0)"

definition after_fraction :: "(char \<Rightarrow> bool) \<Rightarrow> string \<Rightarrow> string" where
  "after_fraction P r = (case r of c # r' \<Rightarrow> if c = CHR ''.'' then dropWhile P r' else r | [] \<Rightarrow> [])"

definition strtod_hex :: "bool \<Rightarrow> nat \<Rightarrow> int \<Rightarrow> 64 word option" where
  "strtod_hex neg n e =
     (let u = n * 2 ^ 1074 * 2 ^ nat e; d = 2 ^ nat (- e) in
      if u * 4 < d * (2 ^ 54 - 1) \<and> \<not> d dvd u then None
      else map_option (\<lambda>w. if neg then double_neg w else w) (double_round u d))"

definition strtod :: "string \<Rightarrow> 64 word option" where
  "strtod s =
     (let neg = (s \<noteq> [] \<and> hd s = CHR ''-''); r = (if neg then tl s else s) in
      if length r > 2 \<and> r ! 0 = CHR ''0'' \<and> r ! 1 \<in> {CHR ''x'', CHR ''X''} \<and>
         (is_hex (r ! 2) \<or> (r ! 2 = CHR ''.'' \<and> length r > 3 \<and> is_hex (r ! 3)))
      then
        (let h = drop 2 r; a = takeWhile is_hex h; r1 = dropWhile is_hex h; b = fraction_of is_hex r1
         in strtod_hex neg (foldl (\<lambda>n c. hex_val c + n * 16) 0 (a @ b))
              (exponent_of {CHR ''p'', CHR ''P''} (after_fraction is_hex r1) - 4 * int (length b)))
      else
        (let a = takeWhile is_digit r; r1 = dropWhile is_digit r; b = fraction_of is_digit r1
         in strtod_decimal neg (digits_val (a @ b))
              (exponent_of {CHR ''e'', CHR ''E''} (after_fraction is_digit r1) - int (length b))))"

text \<open>The end of the number, as the parser checks it; none when the text is no number.\<close>

definition digits_end :: "string \<Rightarrow> nat \<Rightarrow> nat" where
  "digits_end d e = e + length (takeWhile is_digit (drop e d))"

definition char_is :: "string \<Rightarrow> nat \<Rightarrow> char \<Rightarrow> bool" where
  "char_is d e c \<longleftrightarrow> e < length d \<and> d ! e = c"

definition digit_at :: "string \<Rightarrow> nat \<Rightarrow> bool" where
  "digit_at d e \<longleftrightarrow> e < length d \<and> is_digit (d ! e)"

definition integer_end :: "string \<Rightarrow> nat \<Rightarrow> nat option" where
  "integer_end d begin =
     (let e = (if char_is d begin (CHR ''-'') then begin + 1 else begin) in
      if char_is d e (CHR ''0'') then Some (e + 1)
      else if \<not> digit_at d e then None else Some (digits_end d e))"

definition fraction_end :: "string \<Rightarrow> nat \<Rightarrow> nat option" where
  "fraction_end d e =
     (if char_is d e (CHR ''.'')
      then (if \<not> digit_at d (e + 1) then None else Some (digits_end d (e + 1))) else Some e)"

definition exponent_end :: "string \<Rightarrow> nat \<Rightarrow> nat option" where
  "exponent_end d e =
     (if char_is d e (CHR ''e'') \<or> char_is d e (CHR ''E'')
      then (let e = e + 1; e = (if char_is d e (CHR ''+'') \<or> char_is d e (CHR ''-'') then e + 1 else e)
            in if \<not> digit_at d e then None else Some (digits_end d e))
      else Some e)"

definition parse_number :: "string \<Rightarrow> nat \<Rightarrow> json option \<times> nat" where
  "parse_number d begin =
     (case Option.bind (Option.bind (integer_end d begin) (fraction_end d)) (exponent_end d) of
        None \<Rightarrow> (None, begin)
      | Some e \<Rightarrow>
          (case strtod (drop begin d) of
             None \<Rightarrow> (None, begin)
           | Some res \<Rightarrow> (Some (JNumber res), begin + (e - begin))))"

section \<open>Strings\<close>

text \<open>(whether it was four digits, the number, the offset).\<close>

fun hex_loop :: "nat \<Rightarrow> string \<Rightarrow> nat \<Rightarrow> 32 word \<Rightarrow> (bool \<times> 32 word \<times> nat) res" where
  "hex_loop 0 d off u = Inr (True, u, off)"
| "hex_loop (Suc n) d off u =
     andthen (json_char d off) (\<lambda>ch.
     if is_hex ch then hex_loop n d (off + 1) (push_bit 4 u OR of_nat (hex_val ch))
     else Inr (False, push_bit 4 u, off + 1))"

definition parse_hex4 :: "string \<Rightarrow> nat \<Rightarrow> (bool \<times> 32 word \<times> nat) res" where
  "parse_hex4 d off = hex_loop 4 d off 0"

definition byte_char :: "32 word \<Rightarrow> char" where
  "byte_char w = char_of (unat w)"

definition parse_utf8 :: "string \<Rightarrow> 32 word \<Rightarrow> string" where
  "parse_utf8 s u =
     (if u \<le> 0x7F then s @ [byte_char (u AND 0xFF)]
      else if u \<le> 0x7FF
      then s @ [byte_char (0xC0 OR (drop_bit 6 u AND 0xFF)), byte_char (0x80 OR (u AND 0x3F))]
      else if u \<le> 0xFFFF
      then s @ [byte_char (0xE0 OR (drop_bit 12 u AND 0xFF)), byte_char (0x80 OR (drop_bit 6 u AND 0x3F)),
                byte_char (0x80 OR (u AND 0x3F))]
      else s @ [byte_char (0xF0 OR (drop_bit 18 u AND 0xFF)), byte_char (0x80 OR (drop_bit 12 u AND 0x3F)),
                byte_char (0x80 OR (drop_bit 6 u AND 0x3F)), byte_char (0x80 OR (u AND 0x3F))])"

text \<open>The surrogate pair after the first half.\<close>

definition parse_low_half :: "string \<Rightarrow> nat \<Rightarrow> 32 word \<Rightarrow> (32 word option \<times> nat) res" where
  "parse_low_half d off u =
     andthen (json_char d off) (\<lambda>c1.
     if c1 \<noteq> CHR 0x5C then Inr (None, off + 1)
     else
       andthen (json_char d (off + 1)) (\<lambda>c2.
       if c2 \<noteq> CHR ''u'' then Inr (None, off + 2)
       else
         andthen (parse_hex4 d (off + 2)) (\<lambda>(ok, u2, off).
         if \<not> ok \<or> u2 < 0xDC00 \<or> 0xDFFF < u2 then Inr (None, off)
         else Inr (Some ((push_bit 10 (u - 0xD800) OR (u2 - 0xDC00)) + 0x10000), off))))"

definition parse_unicode :: "string \<Rightarrow> nat \<Rightarrow> string \<Rightarrow> (string option \<times> nat) res" where
  "parse_unicode d off s =
     andthen (parse_hex4 d off) (\<lambda>(ok, u, off).
     if \<not> ok then Inr (None, off)
     else if 0xD800 \<le> u \<and> u \<le> 0xDBFF
     then
       andthen (parse_low_half d off u) (\<lambda>(r, off).
       case r of None \<Rightarrow> Inr (None, off) | Some u \<Rightarrow> Inr (Some (parse_utf8 s u), off))
     else Inr (Some (parse_utf8 s u), off))"

text \<open>The inner switch, on the character at the offset, which is the backslash itself.\<close>

definition parse_escape :: "string \<Rightarrow> nat \<Rightarrow> string \<Rightarrow> (string option \<times> nat) res" where
  "parse_escape d off s =
     andthen (json_char d off) (\<lambda>c.
     if c = CHR 0x22 then Inr (Some (s @ [CHR 0x22]), off + 1)
     else if c = CHR 0x5C then Inr (Some (s @ [CHR 0x5C]), off + 1)
     else if c = CHR ''/'' then Inr (Some (s @ [CHR ''/'']), off + 1)
     else if c = CHR ''b'' then Inr (Some (s @ [CHR 0x08]), off + 1)
     else if c = CHR ''f'' then Inr (Some (s @ [CHR 0x0C]), off + 1)
     else if c = CHR ''n'' then Inr (Some (s @ [CHR 0x0A]), off + 1)
     else if c = CHR ''r'' then Inr (Some (s @ [CHR 0x0D]), off + 1)
     else if c = CHR ''t'' then Inr (Some (s @ [CHR 0x09]), off + 1)
     else if c = CHR ''u'' then parse_unicode d (off + 1) s
     else Inr (Some s, off + 1))"

lemma hex_loop_moves: "hex_loop n d off u = Inr (ok, v, off') \<Longrightarrow> off \<le> off'"
  by (induction n arbitrary: off u) (fastforce simp: res_simps split: if_splits)+

lemma parse_hex4_moves: "parse_hex4 d off = Inr (ok, v, off') \<Longrightarrow> off \<le> off'"
  unfolding parse_hex4_def by (rule hex_loop_moves)

lemma parse_low_half_moves: "parse_low_half d off u = Inr (r, off') \<Longrightarrow> off \<le> off'"
  by (auto simp: parse_low_half_def res_simps split: if_splits dest: parse_hex4_moves)

lemma parse_unicode_moves: "parse_unicode d off s = Inr (r, off') \<Longrightarrow> off \<le> off'"
  by (fastforce simp: parse_unicode_def res_simps split: if_splits option.splits
      dest: parse_hex4_moves parse_low_half_moves)

lemma parse_escape_moves: "parse_escape d off s = Inr (r, off') \<Longrightarrow> off < off'"
  by (auto simp: parse_escape_def res_simps split: if_splits dest: parse_unicode_moves)

text \<open>The case of the backslash has no \<open>break\<close>: it falls through to the default.\<close>

function string_loop :: "string \<Rightarrow> nat \<Rightarrow> string \<Rightarrow> (string option \<times> nat) res" where
  "string_loop d off s =
     (if length d \<le> off then Inr (None, off)
      else
        andthen (json_char d off) (\<lambda>ch.
        if ch = CHR 0x22 then Inr (Some s, off + 1)
        else if ch = CHR 0x00 then Inr (None, off)
        else if ch = CHR 0x5C
        then andthen (parse_escape d off s) (\<lambda>(r, off1).
             case r of None \<Rightarrow> Inr (None, off1) | Some s1 \<Rightarrow> string_loop d (off1 + 1) (s1 @ [ch]))
        else string_loop d (off + 1) (s @ [ch])))"
  by pat_completeness auto
termination
  by (relation "measure (\<lambda>(d, off, s). length d - off)") (auto dest!: parse_escape_moves)

declare string_loop.simps [simp del]

definition parse_string_row :: "string \<Rightarrow> nat \<Rightarrow> (string option \<times> nat) res" where
  "parse_string_row d off = string_loop d (off + 1) []"

definition parse_string :: "string \<Rightarrow> nat \<Rightarrow> (json option \<times> nat) res" where
  "parse_string d off = andthen (parse_string_row d off) (\<lambda>(r, off). Inr (map_option JString r, off))"

section \<open>Values\<close>

text \<open>
  The loops of arrays and objects call \<open>Parse\<close> back for the values they hold: that call is their
  argument \<open>p\<close>. They return the value, or none when the text is refused, and the new offset.
\<close>

type_synonym value_parser = "nat \<Rightarrow> (json option \<times> nat) res"

fun array_loop :: "value_parser \<Rightarrow> string \<Rightarrow> nat \<Rightarrow> nat \<Rightarrow> json_array \<Rightarrow> (json option \<times> nat) res" where
  "array_loop p d 0 off vs = Inl Out_Of_Fuel"
| "array_loop p d (Suc n) off vs =
     andthen (p off) (\<lambda>(r, off).
     case r of
       None \<Rightarrow> Inr (None, off)
     | Some val \<Rightarrow>
         let vs = array_push_back val vs; off = skip_write_blank d off in
         andthen (json_char d off) (\<lambda>c.
         if c = CHR '','' then array_loop p d n (off + 1) vs
         else if c = CHR '']'' then Inr (Some (JArray vs), off + 1)
         else Inr (None, off)))"

definition parse_array :: "value_parser \<Rightarrow> string \<Rightarrow> nat \<Rightarrow> nat \<Rightarrow> (json option \<times> nat) res" where
  "parse_array p d n off =
     (let off = skip_write_blank d (off + 1) in
      if length d \<le> off then Inr (None, off)
      else
        andthen (json_char d off) (\<lambda>c.
        if c = CHR '']'' then Inr (Some (JArray []), off + 1) else array_loop p d n off []))"

text \<open>One member of an object: its name, the colon and its value.\<close>

definition parse_member :: "value_parser \<Rightarrow> string \<Rightarrow> nat \<Rightarrow> ((string \<times> json) option \<times> nat) res" where
  "parse_member p d off =
     andthen (parse_string_row d off) (\<lambda>(name, off).
     case name of
       None \<Rightarrow> Inr (None, off)
     | Some name \<Rightarrow>
         let off = skip_write_blank d off in
         andthen (json_char d off) (\<lambda>c.
         if c \<noteq> CHR '':'' then Inr (None, off)
         else andthen (p (off + 1)) (\<lambda>(r, off). Inr (map_option (Pair name) r, off))))"

text \<open>What is neither a comma nor the closing brace is left for the next member's name.\<close>

fun object_loop :: "value_parser \<Rightarrow> string \<Rightarrow> nat \<Rightarrow> nat \<Rightarrow> json_object \<Rightarrow> (json option \<times> nat) res" where
  "object_loop p d 0 off o1 = Inl Out_Of_Fuel"
| "object_loop p d (Suc n) off o1 =
     andthen (parse_member p d off) (\<lambda>(m, off).
     case m of
       None \<Rightarrow> Inr (None, off)
     | Some (name, val) \<Rightarrow>
         let o1 = object_insert name val o1; off = skip_write_blank d off in
         andthen (json_char d off) (\<lambda>c.
         if c = CHR '','' then object_loop p d n (skip_write_blank d (off + 1)) o1
         else if c = CHR ''}'' then Inr (Some (JObject o1), off + 1)
         else if length d \<le> off then Inr (None, off)
         else object_loop p d n off o1))"

definition parse_object :: "value_parser \<Rightarrow> string \<Rightarrow> nat \<Rightarrow> nat \<Rightarrow> (json option \<times> nat) res" where
  "parse_object p d n off =
     (let off = skip_write_blank d (off + 1) in
      if length d \<le> off then Inr (None, off)
      else
        andthen (json_char d off) (\<lambda>c.
        if c = CHR ''}'' then Inr (Some (JObject []), off + 1) else object_loop p d n off []))"

definition parse_json_value :: "value_parser \<Rightarrow> string \<Rightarrow> nat \<Rightarrow> nat \<Rightarrow> (json option \<times> nat) res" where
  "parse_json_value p d n off =
     (if length d = 0 then Inr (Some JNull, off)
      else
        andthen (json_char d off) (\<lambda>ch.
        if ch = CHR ''t'' then Inr (parse_true d off)
        else if ch = CHR ''f'' then Inr (parse_false d off)
        else if ch = CHR ''n'' then Inr (parse_null d off)
        else if ch = CHR 0x22 then parse_string d off
        else if ch = CHR ''['' then parse_array p d n off
        else if ch = CHR ''{'' then parse_object p d n off
        else Inr (parse_number d off)))"

text \<open>\<open>Parse\<close>; the fuel bounds both the depth of the recursion and the rounds of one loop.\<close>

primrec parse_json :: "nat \<Rightarrow> string \<Rightarrow> nat \<Rightarrow> (json option \<times> nat) res" where
  "parse_json 0 d off = Inl Out_Of_Fuel"
| "parse_json (Suc k) d off = parse_json_value (parse_json k d) d k (skip_write_blank d off)"

text \<open>\<open>Value::parse\<close>: a new parser on a text.\<close>

definition json_parse :: "string \<Rightarrow> json option res" where
  "json_parse d = andthen (parse_json (length d + 2) d 0) (\<lambda>(r, _). Inr r)"

section \<open>The parser stays inside the text and ends\<close>

text \<open>
  A call that comes back with no fault and, when it has a value, has consumed some of the text and
  stays inside it.
\<close>

definition lands :: "string \<Rightarrow> nat \<Rightarrow> ('a option \<times> nat) res \<Rightarrow> bool" where
  "lands d off r \<longleftrightarrow> (\<exists>v off'. r = Inr (v, off') \<and> (v \<noteq> None \<longrightarrow> off < off' \<and> off' \<le> length d))"

lemma lands_refused [simp]: "lands d off (Inr (None, off'))"
  by (simp add: lands_def)

lemma lands_value [simp]: "lands d off (Inr (Some v, off')) \<longleftrightarrow> off < off' \<and> off' \<le> length d"
  by (simp add: lands_def)

lemma lands_later: "lands d off r \<Longrightarrow> off0 \<le> off \<Longrightarrow> lands d off0 r"
  by (auto simp: lands_def)

text \<open>Sequencing: what follows is only reached with a value, behind the place where it began.\<close>

lemma lands_andthen:
  assumes "lands d off m"
    and "\<And>off'. lands d off (f (None, off'))"
    and "\<And>v off'. off < off' \<Longrightarrow> off' \<le> length d \<Longrightarrow> lands d off (f (Some v, off'))"
  shows "lands d off (andthen m f)"
proof -
  obtain v off' where m: "m = Inr (v, off')" "v \<noteq> None \<longrightarrow> off < off' \<and> off' \<le> length d"
    using assms(1) by (auto simp: lands_def)
  with assms(2,3) show ?thesis by (cases v) simp_all
qed

lemma json_char_at: "off \<le> length d \<Longrightarrow> \<exists>c. json_char d off = Inr c \<and> (off = length d \<longrightarrow> c = CHR 0x00)"
  by (auto simp: json_char_def input_at_def)

lemma lands_char:
  assumes "off \<le> length d"
    and "\<And>c. off < length d \<Longrightarrow> d ! off = c \<Longrightarrow> lands d off0 (f c)"
    and "off = length d \<Longrightarrow> lands d off0 (f (CHR 0x00))"
  shows "lands d off0 (andthen (json_char d off) f)"
  using assms by (auto simp: json_char_def input_at_def)

lemma skip_write_blank_le: "off \<le> length d \<Longrightarrow> skip_write_blank d off \<le> length d"
  unfolding skip_write_blank_def
  using length_takeWhile_le [of json_blank "drop off d"] by (simp del: length_takeWhile_le)

lemma skip_write_blank_ge: "off \<le> skip_write_blank d off"
  by (simp add: skip_write_blank_def)

lemma digits_end_le: "e \<le> length d \<Longrightarrow> e \<le> digits_end d e \<and> digits_end d e \<le> length d"
  unfolding digits_end_def
  using length_takeWhile_le [of is_digit "drop e d"] by (simp del: length_takeWhile_le)

lemma digits_end_less: "digit_at d e \<Longrightarrow> e < digits_end d e"
  by (auto simp: digits_end_def digit_at_def takeWhile_eq_Nil_iff hd_drop_conv_nth)

lemma integer_end_bounds: "integer_end d b = Some e \<Longrightarrow> b < e \<and> e \<le> length d"
  using digits_end_less [of d b] digits_end_le [of b d] digits_end_less [of d "b + 1"] digits_end_le [of "b + 1" d]
  by (auto simp: integer_end_def Let_def char_is_def digit_at_def split: if_splits)

lemma fraction_end_bounds: "fraction_end d b = Some e \<Longrightarrow> b \<le> length d \<Longrightarrow> b \<le> e \<and> e \<le> length d"
  using digits_end_less [of d "b + 1"] digits_end_le [of "b + 1" d]
  by (auto simp: fraction_end_def digit_at_def split: if_splits)

lemma exponent_end_bounds:
  assumes "exponent_end d b = Some e" "b \<le> length d"
  shows "b \<le> e \<and> e \<le> length d"
proof -
  have "i \<le> digits_end d i \<and> digits_end d i \<le> length d" if "digit_at d i" for i
    using digits_end_le [of i d] that by (simp add: digit_at_def)
  with assms show ?thesis unfolding exponent_end_def Let_def
    by (simp split: if_splits) fastforce+
qed

lemma parse_number_lands: "lands d off (Inr (parse_number d off))"
proof (cases "Option.bind (Option.bind (integer_end d off) (fraction_end d)) (exponent_end d)")
  case None
  then show ?thesis by (simp add: parse_number_def)
next
  case (Some e)
  then obtain e1 e2 where "integer_end d off = Some e1" "fraction_end d e1 = Some e2" "exponent_end d e2 = Some e"
    by (auto simp: bind_eq_Some_conv)
  then have "off < e" "e \<le> length d"
    using integer_end_bounds fraction_end_bounds exponent_end_bounds by (meson le_trans less_le_trans)+
  with Some show ?thesis by (auto simp: parse_number_def split: option.split)
qed

lemma literal_lands [simp]:
  "lands d off (Inr (parse_true d off))"
  "lands d off (Inr (parse_false d off))"
  "lands d off (Inr (parse_null d off))"
  by (simp_all add: parse_true_def parse_false_def parse_null_def)

subsection \<open>Strings\<close>

text \<open>
  The inner switch only ever sees the backslash, so that every escape gives two backslashes and drops
  the character behind it: what the loop computes, on the characters left.
\<close>

fun json_chars :: "string \<Rightarrow> (string \<times> string) option" where
  "json_chars [] = None"
| "json_chars (c # r) =
     (if c = CHR 0x22 then Some ([], r)
      else if c = CHR 0x00 then None
      else if c = CHR 0x5C then map_option (\<lambda>(t, rest). (CHR 0x5C # CHR 0x5C # t, rest)) (json_chars (tl r))
      else map_option (\<lambda>(t, rest). (c # t, rest)) (json_chars r))"

lemma parse_escape_backslash:
  "off < length d \<Longrightarrow> d ! off = CHR 0x5C \<Longrightarrow> parse_escape d off s = Inr (Some (s @ [CHR 0x5C]), off + 1)"
  by (simp add: parse_escape_def json_char_def input_at_def)

definition string_result :: "string \<Rightarrow> string \<Rightarrow> string option \<Rightarrow> nat \<Rightarrow> (string \<times> string) option \<Rightarrow> bool" where
  "string_result d s r off' c \<longleftrightarrow>
     (case c of None \<Rightarrow> r = None
      | Some (t, rest) \<Rightarrow> r = Some (s @ t) \<and> off' \<le> length d \<and> drop off' d = rest)"

lemma string_loop_chars:
  "\<exists>r off'. string_loop d off s = Inr (r, off') \<and> string_result d s r off' (json_chars (drop off d)) \<and>
            (r \<noteq> None \<longrightarrow> off < off')"
proof (induction "length d - off" arbitrary: off s rule: less_induct)
  case less
  show ?case
  proof (cases "off < length d")
    case False
    then show ?thesis by (simp add: string_loop.simps [of d off] string_result_def)
  next
    case True
    define c where "c = d ! off"
    have at: "json_char d off = Inr c" and dr: "drop off d = c # drop (Suc off) d"
      using True by (simp_all add: json_char_def input_at_def c_def Cons_nth_drop_Suc)
    have tl: "tl (drop (Suc off) d) = drop (Suc (Suc off)) d" by (simp add: drop_Suc tl_drop)
    show ?thesis
    proof (cases "c = CHR 0x5C")
      case esc: True
      obtain r off' where
        "string_loop d (off + 2) (s @ [c, c]) = Inr (r, off')" "r \<noteq> None \<longrightarrow> off < off'"
        "string_result d (s @ [c, c]) r off' (json_chars (drop (off + 2) d))"
        using less.hyps [of "off + 2" "s @ [c, c]"] True by fastforce
      with esc at dr show ?thesis
        using parse_escape_backslash [of off d] True
        by (auto simp: string_loop.simps [of d off] tl string_result_def c_def split: option.splits)
    next
      case plain: False
      obtain r off' where
        "string_loop d (off + 1) (s @ [c]) = Inr (r, off')" "r \<noteq> None \<longrightarrow> off < off'"
        "string_result d (s @ [c]) r off' (json_chars (drop (off + 1) d))"
        using less.hyps [of "off + 1" "s @ [c]"] True by fastforce
      with plain at dr True show ?thesis
        by (auto simp: string_loop.simps [of d off] string_result_def split: option.splits)
    qed
  qed
qed

lemma parse_string_row_lands: "lands d off (parse_string_row d off)"
  using string_loop_chars [of d "off + 1" "[]"]
  by (auto simp: parse_string_row_def lands_def string_result_def split: option.splits)

lemma parse_string_lands: "lands d off (parse_string d off)"
  unfolding parse_string_def by (rule lands_andthen [OF parse_string_row_lands]) simp_all

subsection \<open>Arrays and objects\<close>

text \<open>What the loops rely on: a value parser that lands as long as its fuel lasts.\<close>

locale value_parser =
  fixes p :: value_parser and d :: string and k :: nat
  assumes p_lands: "d \<noteq> [] \<Longrightarrow> off \<le> length d \<Longrightarrow> length d < off + k \<Longrightarrow> lands d off (p off)"
begin

lemma array_loop_lands:
  "d \<noteq> [] \<Longrightarrow> off \<le> length d \<Longrightarrow> length d < off + k \<Longrightarrow> length d < off + n \<Longrightarrow>
   lands d off (array_loop p d n off vs)"
proof (induction n arbitrary: off vs)
  case (Suc n)
  show ?case
  proof (simp only: array_loop.simps, rule lands_andthen [OF p_lands], use Suc.prems in simp_all, goal_cases)
    case (1 v off')
    show ?case
      using 1 Suc.prems skip_write_blank_le [of off' d] skip_write_blank_ge [of off' d]
      by (auto simp: Let_def intro!: lands_char lands_later [OF Suc.IH])
  qed
qed simp

lemma parse_array_lands:
  "d \<noteq> [] \<Longrightarrow> off < length d \<Longrightarrow> length d \<le> off + k \<Longrightarrow> lands d off (parse_array p d k off)"
  using skip_write_blank_ge [of "off + 1" d] skip_write_blank_le [of "off + 1" d]
  by (simp add: parse_array_def Let_def)
    (auto intro!: lands_char lands_later [OF array_loop_lands])

lemma parse_member_lands:
  assumes "d \<noteq> []" "off \<le> length d" "length d < off + k"
  shows "lands d off (parse_member p d off)"
proof (unfold parse_member_def, rule lands_andthen [OF parse_string_row_lands], simp_all, goal_cases)
  case (1 name off')
  define o1 where "o1 = skip_write_blank d off'"
  have o1: "off < o1" "o1 \<le> length d"
    using 1 skip_write_blank_le [of off' d] skip_write_blank_ge [of off' d] by (simp_all add: o1_def)
  have "lands d o1 (andthen (p (o1 + 1)) (\<lambda>(r, off). Inr (map_option (Pair name) r, off)))" if "o1 < length d"
    by (rule lands_later [OF lands_andthen [OF p_lands]]) (use assms o1 that in auto)
  with o1 show ?case
    by (auto simp: Let_def simp flip: o1_def intro!: lands_char intro: lands_later)
qed

lemma object_loop_lands:
  "d \<noteq> [] \<Longrightarrow> off \<le> length d \<Longrightarrow> length d < off + k \<Longrightarrow> length d < off + n \<Longrightarrow>
   lands d off (object_loop p d n off o1)"
proof (induction n arbitrary: off o1)
  case (Suc n)
  show ?case
  proof (simp only: object_loop.simps, rule lands_andthen [OF parse_member_lands], use Suc.prems in simp_all, goal_cases)
    case (1 m off')
    define o2 where "o2 = skip_write_blank d off'"
    have o2: "off < o2" "o2 \<le> length d"
      using 1 skip_write_blank_le [of off' d] skip_write_blank_ge [of off' d] by (simp_all add: o2_def)
    then show ?case
      using Suc.prems skip_write_blank_le [of "o2 + 1" d] skip_write_blank_ge [of "o2 + 1" d]
      by (auto simp: Let_def split_beta simp flip: o2_def intro!: lands_char lands_later [OF Suc.IH])
  qed
qed simp

lemma parse_object_lands:
  "d \<noteq> [] \<Longrightarrow> off < length d \<Longrightarrow> length d \<le> off + k \<Longrightarrow> lands d off (parse_object p d k off)"
  using skip_write_blank_ge [of "off + 1" d] skip_write_blank_le [of "off + 1" d]
  by (simp add: parse_object_def Let_def)
    (auto intro!: lands_char lands_later [OF object_loop_lands])

lemma parse_json_value_lands:
  "d \<noteq> [] \<Longrightarrow> off \<le> length d \<Longrightarrow> length d \<le> off + k \<Longrightarrow> lands d off (parse_json_value p d k off)"
  unfolding parse_json_value_def
  by (auto intro!: lands_char parse_string_lands parse_number_lands
      parse_array_lands parse_object_lands)

end

text \<open>The parser itself is such a value parser, at every depth.\<close>

lemma parse_json_lands: "d \<noteq> [] \<Longrightarrow> off \<le> length d \<Longrightarrow> length d < off + k \<Longrightarrow> lands d off (parse_json k d off)"
proof (induction k arbitrary: off)
  case (Suc k)
  have "value_parser (parse_json k d) d k" by (rule value_parser.intro) (rule Suc.IH)
  note * = value_parser.parse_json_value_lands [OF this Suc.prems(1) skip_write_blank_le [OF Suc.prems(2)]]
  show ?case using * Suc.prems skip_write_blank_ge [of off d] by (auto intro: lands_later)
qed simp

interpretation sub_value: value_parser "parse_json k d" d k for k d
  by (rule value_parser.intro) (rule parse_json_lands)

text \<open>Parsing any text comes back: the fuel is enough, and nothing outside the text is read.\<close>

lemma json_parse_total: "\<exists>r. json_parse d = Inr r"
proof (cases "d = []")
  case True
  then show ?thesis by (simp add: json_parse_def parse_json_value_def)
next
  case False
  then have "lands d 0 (parse_json (length d + 2) d 0)" by (intro parse_json_lands) simp_all
  then show ?thesis by (auto simp: lands_def json_parse_def)
qed

section \<open>The parser object\<close>

text \<open>The text a parser works on, and its offset; no text is a null pointer of length 0.\<close>

record parser_state =
  ps_data :: string
  ps_size :: nat
  ps_offset :: nat

definition state_new :: "string \<Rightarrow> nat \<Rightarrow> parser_state" where
  "state_new data len = \<lparr>ps_data = data, ps_size = len, ps_offset = 0\<rparr>"

definition state_default :: parser_state where
  "state_default = \<lparr>ps_data = [], ps_size = 0, ps_offset = 0\<rparr>"

definition state_reset :: "parser_state \<Rightarrow> parser_state" where
  "state_reset st = st\<lparr>ps_data := [], ps_size := 0, ps_offset := 0\<rparr>"

definition state_set :: "string \<Rightarrow> nat \<Rightarrow> parser_state \<Rightarrow> parser_state" where
  "state_set data len st = (state_reset st)\<lparr>ps_data := data, ps_size := len\<rparr>"

definition parser_of_text :: "string \<Rightarrow> parser_state" where
  "parser_of_text data = state_new data (length data)"

definition parser_of_chars :: "string \<Rightarrow> nat \<Rightarrow> parser_state" where
  "parser_of_chars data len = state_new data len"

definition parser_reset :: "parser_state \<Rightarrow> parser_state" where
  "parser_reset st = state_reset st"

definition parser_set_data :: "string \<Rightarrow> nat \<Rightarrow> parser_state \<Rightarrow> parser_state" where
  "parser_set_data data len st = state_set data len (parser_reset st)"

definition parser_set_text :: "string \<Rightarrow> parser_state \<Rightarrow> parser_state" where
  "parser_set_text data st = state_set data (length data) (parser_reset st)"

text \<open>\<open>Parse\<close> from the offset; a size beyond the text is a read outside it.\<close>

definition parser_parse :: "parser_state \<Rightarrow> (json option \<times> parser_state) res" where
  "parser_parse st =
     (if ps_size st \<le> length (ps_data st)
      then andthen (parse_json (ps_size st + 2) (take (ps_size st) (ps_data st)) (ps_offset st)) (\<lambda>(r, off).
           Inr (r, st\<lparr>ps_offset := off\<rparr>))
      else Inl Out_Of_Bounds)"

definition json_parse_chars :: "string \<Rightarrow> nat \<Rightarrow> json option res" where
  "json_parse_chars data len = andthen (parser_parse (parser_of_chars data len)) (\<lambda>(r, _). Inr r)"

lemma parser_parse_text: "andthen (parser_parse (parser_of_text d)) (\<lambda>(r, _). Inr r) = json_parse d"
  by (cases "parse_json (length d + 2) d 0")
    (auto simp: parser_parse_def parser_of_text_def state_new_def json_parse_def)

lemma parser_set_fresh:
  "parser_set_data data len st = parser_of_chars data len" "parser_set_text data st = parser_of_text data"
  by (simp_all add: parser_set_data_def parser_set_text_def parser_of_chars_def parser_of_text_def state_set_def
      state_reset_def parser_reset_def state_new_def)

lemma json_parse_chars_total: "len \<le> length d \<Longrightarrow> \<exists>r. json_parse_chars d len = Inr r"
  using json_parse_total [of "take len d"]
  by (cases "parse_json (len + 2) (take len d) 0")
    (auto simp: json_parse_chars_def parser_parse_def parser_of_chars_def state_new_def json_parse_def)

end
