(* ===== verification/Json_Writer.thy ===== *)
theory Json_Writer
  imports Json_Parser Sql_Text
begin

text \<open>
  The JSON writer of \<open>src/json/json_writer.hpp\<close> and the JSON files of \<open>src/common/json.hpp\<close>, and
  that what is written is read back.
\<close>

section \<open>The writer\<close>

text \<open>The separator is not written behind the last element.\<close>

fun pson_print_value :: "json \<Rightarrow> string"
  and print_elements :: "json list \<Rightarrow> string"
  and print_members :: "(string \<times> json) list \<Rightarrow> string" where
  "pson_print_value JNull = ''null''"
| "pson_print_value (JBool b) = (if b then ''true'' else ''false'')"
| "pson_print_value (JNumber w) = double_to_string w"
| "pson_print_value (JString s) = [CHR 0x22] @ s @ [CHR 0x22]"
| "pson_print_value (JArray vs) = (if vs = [] then ''[]'' else ''['' @ print_elements vs @ '']'')"
| "pson_print_value (JObject o1) =
     (if o1 = [] then ''{}'' else ''{'' @ [CHR 0x0A] @ print_members o1 @ [CHR 0x0A] @ ''}'')"
| "print_elements [] = []"
| "print_elements (v # vs) = pson_print_value v @ (if vs = [] then [] else '' , '' @ print_elements vs)"
| "print_members [] = []"
| "print_members ((name, v) # ms) =
     [CHR 0x22] @ name @ [CHR 0x22] @ '' : '' @ pson_print_value v @
     (if ms = [] then [] else '', '' @ [CHR 0x0A] @ print_members ms)"

text \<open>\<open>Value::print\<close> is for objects only.\<close>

definition json_print :: "json \<Rightarrow> string res" where
  "json_print v = andthen (as_object v) (\<lambda>o1. Inr (pson_print_value (JObject o1)))"

section \<open>Files\<close>

text \<open>
  Reading a file character by character with \<open>>>\<close> skips white space, and the extraction that hits
  the end leaves the character indeterminate (\<open>junk\<close>), which is appended too.
\<close>

definition json_file_read :: "char \<Rightarrow> string option \<Rightarrow> json option res" where
  "json_file_read junk content =
     (case content of
        None \<Rightarrow> Inl Assert_Failed
      | Some text \<Rightarrow> json_parse (filter (\<lambda>c. \<not> is_space c) text @ [junk]))"

text \<open>The new content of the file.\<close>

definition json_file_write :: "json \<Rightarrow> string res" where
  "json_file_write v = json_print v"

section \<open>Values that are written and read back\<close>

text \<open>
  The writer does not escape anything, so the strings have to do without quotes, backslashes, NUL and
  white space; the six decimals of \<open>std::to_string\<close> carry the natural numbers that a double
  represents exactly.
\<close>

definition plain_text :: "string \<Rightarrow> bool" where
  "plain_text s \<longleftrightarrow> list_all (\<lambda>c. c \<noteq> CHR 0x22 \<and> c \<noteq> CHR 0x5C \<and> c \<noteq> CHR 0x00 \<and> \<not> is_space c) s"

definition whole_number :: "64 word \<Rightarrow> bool" where
  "whole_number w \<longleftrightarrow> (\<exists>n < 2 ^ 53. w = double_of_nat n)"

fun json_plain :: "json \<Rightarrow> bool" where
  "json_plain (JNumber w) \<longleftrightarrow> whole_number w"
| "json_plain (JString s) \<longleftrightarrow> plain_text s"
| "json_plain (JArray vs) \<longleftrightarrow> list_all json_plain vs"
| "json_plain (JObject o1) \<longleftrightarrow> list_all (\<lambda>(k, v). plain_text k \<and> json_plain v) o1"
| "json_plain _ \<longleftrightarrow> True"

text \<open>
  The printed text up to its white space: \<open>sp\<close> for the spaces around a separator, \<open>nl\<close> for the line
  ends. The writer's layout and the one that is read back are two instances.
\<close>

fun layout :: "string \<Rightarrow> string \<Rightarrow> json \<Rightarrow> string"
  and layout_elements :: "string \<Rightarrow> string \<Rightarrow> json list \<Rightarrow> string"
  and layout_members :: "string \<Rightarrow> string \<Rightarrow> (string \<times> json) list \<Rightarrow> string" where
  "layout sp nl JNull = ''null''"
| "layout sp nl (JBool b) = (if b then ''true'' else ''false'')"
| "layout sp nl (JNumber w) = double_to_string w"
| "layout sp nl (JString s) = [CHR 0x22] @ s @ [CHR 0x22]"
| "layout sp nl (JArray vs) = (if vs = [] then ''[]'' else ''['' @ layout_elements sp nl vs @ '']'')"
| "layout sp nl (JObject o1) =
     (if o1 = [] then ''{}'' else ''{'' @ nl @ layout_members sp nl o1 @ nl @ ''}'')"
| "layout_elements sp nl [] = []"
| "layout_elements sp nl (v # vs) =
     layout sp nl v @ (if vs = [] then [] else sp @ '','' @ sp @ layout_elements sp nl vs)"
| "layout_members sp nl [] = []"
| "layout_members sp nl ((name, v) # ms) =
     [CHR 0x22] @ name @ [CHR 0x22] @ sp @ '':'' @ sp @ layout sp nl v @
     (if ms = [] then [] else '','' @ sp @ nl @ layout_members sp nl ms)"

lemma print_layout:
  "pson_print_value v = layout '' '' [CHR 0x0A] v"
  "print_elements vs = layout_elements '' '' [CHR 0x0A] vs"
  "print_members ms = layout_members '' '' [CHR 0x0A] ms"
  by (induction v and vs and ms rule: pson_print_value_print_elements_print_members.induct) simp_all

subsection \<open>Without the white space\<close>

abbreviation solid :: "string \<Rightarrow> string" where
  "solid s \<equiv> filter (\<lambda>c. \<not> is_space c) s"

lemma plain_text_solid: "plain_text s \<Longrightarrow> solid s = s"
  by (simp add: plain_text_def list_all_iff filter_id_conv)

lemma digit_not_space: "is_digit c \<Longrightarrow> \<not> is_space c"
  by (auto simp: is_digit_def char_between_def is_space_def)

lemma nat_digits_solid: "solid (nat_digits n) = nat_digits n"
  using nat_digits_digits [of n] digit_not_space by (auto simp: list_all_iff filter_id_conv)

lemma whole_number_solid: "whole_number w \<Longrightarrow> solid (double_to_string w) = double_to_string w"
  by (auto simp: whole_number_def double_of_nat_string nat_digits_solid) (auto simp: is_space_def)

text \<open>
  The reader drops the white space of the strings as well. \<open>json_writable\<close> is what \<open>json_plain\<close> asks for
  but for that: the strings may have white space, and \<open>squeeze\<close> is the value that comes back.
\<close>

fun squeeze :: "json \<Rightarrow> json" where
  "squeeze (JString s) = JString (solid s)"
| "squeeze (JArray vs) = JArray (map squeeze vs)"
| "squeeze (JObject o1) = JObject (map (\<lambda>(k, v). (solid k, squeeze v)) o1)"
| "squeeze v = v"

definition raw_text :: "string \<Rightarrow> bool" where
  "raw_text s \<longleftrightarrow> CHR 0x22 \<notin> set s \<and> CHR 0x5C \<notin> set s \<and> CHR 0x00 \<notin> set s"

fun json_writable :: "json \<Rightarrow> bool" where
  "json_writable (JNumber w) \<longleftrightarrow> whole_number w"
| "json_writable (JString s) \<longleftrightarrow> raw_text s"
| "json_writable (JArray vs) \<longleftrightarrow> list_all json_writable vs"
| "json_writable (JObject o1) \<longleftrightarrow> list_all (\<lambda>(k, v). raw_text k \<and> json_writable v) o1"
| "json_writable _ \<longleftrightarrow> True"

lemma raw_text_plain: "raw_text s \<Longrightarrow> plain_text (solid s)"
  by (auto simp: raw_text_def plain_text_def list_all_iff)

lemma plain_text_raw: "plain_text s \<Longrightarrow> raw_text s"
  by (auto simp: raw_text_def plain_text_def list_all_iff)

lemma squeeze_plain: "json_writable v \<Longrightarrow> json_plain (squeeze v)"
  by (induction v rule: json_writable.induct) (fastforce simp: list_all_iff raw_text_plain)+

lemma plain_squeeze: "json_plain v \<Longrightarrow> json_writable v \<and> squeeze v = v"
  by (induction v rule: json_plain.induct)
    (fastforce simp: list_all_iff plain_text_raw plain_text_solid intro!: map_idI)+

lemma layout_solid:
  assumes "solid sp = []" "solid nl = []"
  shows "json_writable v \<Longrightarrow> solid (layout sp nl v) = layout [] [] (squeeze v)"
    "list_all json_writable vs \<Longrightarrow> solid (layout_elements sp nl vs) = layout_elements [] [] (map squeeze vs)"
    "list_all (\<lambda>(k, v). raw_text k \<and> json_writable v) ms \<Longrightarrow>
       solid (layout_members sp nl ms) = layout_members [] [] (map (\<lambda>(k, v). (solid k, squeeze v)) ms)"
  by (induction v and vs and ms rule: pson_print_value_print_elements_print_members.induct)
    (auto simp: assms whole_number_solid, auto simp: is_space_def)

subsection \<open>Reading a number\<close>

lemma char_is_drop: "char_is d e c \<longleftrightarrow> (\<exists>r. drop e d = c # r)"
  by (cases "e < length d") (auto simp: char_is_def Cons_nth_drop_Suc [symmetric])

lemma digit_at_drop: "digit_at d e \<longleftrightarrow> (\<exists>c r. drop e d = c # r \<and> is_digit c)"
  using char_is_drop [of d e "d ! e"] by (auto simp: digit_at_def char_is_def)

lemma drop_further: "drop e d = a @ b \<Longrightarrow> drop (e + length a) d = b"
  by (metis add.commute append_eq_conv_conj drop_drop)

definition number_stops :: "string \<Rightarrow> bool" where
  "number_stops r \<longleftrightarrow> r = [] \<or> (\<not> is_digit (hd r) \<and> hd r \<notin> {CHR ''.'', CHR ''e'', CHR ''E''})"

lemma takeWhile_digits:
  "list_all is_digit a \<Longrightarrow> r = [] \<or> \<not> is_digit (hd r) \<Longrightarrow> takeWhile is_digit (a @ r) = a"
  "list_all is_digit a \<Longrightarrow> r = [] \<or> \<not> is_digit (hd r) \<Longrightarrow> dropWhile is_digit (a @ r) = r"
  by (induction a) (cases r; simp)+

lemma digits_end_drop:
  "drop e d = a @ r \<Longrightarrow> list_all is_digit a \<Longrightarrow> r = [] \<or> \<not> is_digit (hd r) \<Longrightarrow>
   digits_end d e = e + length a"
  by (simp add: digits_end_def takeWhile_digits)

lemma digit_point: "\<not> is_digit (CHR ''.'')" "is_digit (CHR ''0'')"
  by (simp_all add: is_digit_def char_between_def)

lemma integer_end_digits:
  assumes "drop b d = nat_digits n @ CHR ''.'' # r"
  shows "integer_end d b = Some (b + length (nat_digits n))"
proof -
  obtain c ds where cd: "nat_digits n = c # ds" using nat_digits_nonempty [of n] by (cases "nat_digits n") auto
  then have dig: "is_digit c" using nat_digits_digits [of n] by simp
  have m: "\<not> char_is d b (CHR ''-'')" using assms cd dig
    by (auto simp: char_is_drop is_digit_def char_between_def)
  show ?thesis
  proof (cases "n = 0")
    case True
    with assms have "char_is d b (CHR ''0'')" by (simp add: char_is_drop nat_digits_zero)
    with m True show ?thesis by (simp add: integer_end_def nat_digits_zero)
  next
    case False
    then have "c \<noteq> CHR ''0''" using nat_digits_hd [of n] cd by simp
    then have "\<not> char_is d b (CHR ''0'')" "digit_at d b" using assms cd dig by (auto simp: char_is_drop digit_at_drop)
    moreover have "digits_end d b = b + length (nat_digits n)"
      by (rule digits_end_drop [OF assms nat_digits_digits]) (simp add: digit_point)
    ultimately show ?thesis using m by (simp add: integer_end_def)
  qed
qed

lemma strtod_whole:
  assumes "n < 2 ^ 53" "number_stops r"
  shows "strtod (nat_digits n @ ''.000000'' @ r) = Some (double_of_nat n)"
proof -
  define t where "t = nat_digits n @ ''.000000'' @ r"
  obtain c ds where cd: "nat_digits n = c # ds" using nat_digits_nonempty [of n] by (cases "nat_digits n") auto
  have dg: "is_digit c" "list_all is_digit ds" using nat_digits_digits [of n] cd by simp_all
  then have m: "hd t \<noteq> CHR ''-''" by (auto simp: t_def cd is_digit_def char_between_def)
  have "t ! 1 \<notin> {CHR ''x'', CHR ''X''}"
    using dg(2) by (cases ds) (auto simp: t_def cd is_digit_def char_between_def)
  then have hex: "\<not> (length t > 2 \<and> t ! 0 = CHR ''0'' \<and> t ! 1 \<in> {CHR ''x'', CHR ''X''} \<and> X)" for X by simp
  have int: "takeWhile is_digit t = nat_digits n" "dropWhile is_digit t = ''.000000'' @ r"
    unfolding t_def by (rule takeWhile_digits [OF nat_digits_digits]; simp add: digit_point)+
  have z: "list_all is_digit ''000000''" by (simp add: digit_point)
  have stop: "r = [] \<or> \<not> is_digit (hd r)" using assms(2) by (auto simp: number_stops_def)
  have frac: "fraction_of is_digit (''.000000'' @ r) = ''000000''" "after_fraction is_digit (''.000000'' @ r) = r"
    using takeWhile_digits [OF z stop] by (simp_all add: fraction_of_def after_fraction_def)
  have e: "exponent_of {CHR ''e'', CHR ''E''} r = 0"
    using assms(2) by (cases r) (auto simp: exponent_of_def number_stops_def)
  have "digits_val (nat_digits n @ ''000000'') = n * 10 ^ 6"
    using digits_val_nat_digits [of n] by (simp add: digits_val_def digit_val_def)
  with strtod_of_nat [OF assms(1)] m show ?thesis
    by (simp only: strtod_def Let_def t_def [symmetric] hex int frac e if_False m simp_thms) simp
qed

lemma parse_number_whole:
  assumes "drop b d = double_to_string w @ r" "whole_number w" "number_stops r"
  shows "parse_number d b = (Some (JNumber w), b + length (double_to_string w))"
proof -
  obtain n where n: "n < 2 ^ 53" "w = double_of_nat n" using assms(2) by (auto simp: whole_number_def)
  let ?a = "nat_digits n"
  have d: "drop b d = ?a @ ''.000000'' @ r" using assms(1) n by (simp add: double_of_nat_string)
  have i: "integer_end d b = Some (b + length ?a)" by (rule integer_end_digits) (use d in simp)
  have d1: "drop (b + length ?a) d = ''.'' @ ''000000'' @ r" using drop_further [OF d] by simp
  have d2: "drop (b + length ?a + 1) d = ''000000'' @ r" using drop_further [OF d1] by simp
  have stop: "r = [] \<or> \<not> is_digit (hd r)" using assms(3) by (auto simp: number_stops_def)
  have "digits_end d (b + length ?a + 1) = b + length ?a + 1 + length ''000000''"
    by (rule digits_end_drop [OF d2 _ stop]) (simp add: digit_point)
  moreover have "char_is d (b + length ?a) (CHR ''.'')" "digit_at d (b + length ?a + 1)"
    using d1 d2 by (simp_all add: char_is_drop digit_at_drop digit_point)
  ultimately have f: "fraction_end d (b + length ?a) = Some (b + length ?a + 7)" by (simp add: fraction_end_def)
  have "b + length ?a + 7 = b + length ?a + 1 + length ''000000''" by simp
  then have "drop (b + length ?a + 7) d = r" using drop_further [OF d2] by (simp only:)
  then have e: "exponent_end d (b + length ?a + 7) = Some (b + length ?a + 7)"
    using assms(3) by (auto simp: exponent_end_def char_is_drop number_stops_def)
  have "strtod (drop b d) = Some w" unfolding d n(2) by (rule strtod_whole [OF n(1) assms(3)])
  with i f e n show ?thesis by (simp add: parse_number_def double_of_nat_string)
qed

subsection \<open>Reading the layout\<close>

lemma json_char_drop: "drop off d = c # r \<Longrightarrow> json_char d off = Inr c"
  by (metis char_is_drop char_is_def json_char_def input_at_def)

lemma drop_length: "drop off d = c # r \<Longrightarrow> off < length d \<and> length d = off + Suc (length r)"
  using length_drop [of off d] by (cases "off < length d") auto

lemma skip_blanks:
  assumes "drop off d = b @ c # r" "list_all json_blank b" "\<not> json_blank c"
  shows "skip_write_blank d off = off + length b" "drop (off + length b) d = c # r"
proof -
  have "takeWhile json_blank (b @ c # r) = b" using assms(2,3) by (induction b) simp_all
  with assms(1) show "skip_write_blank d off = off + length b" by (simp add: skip_write_blank_def)
qed (rule drop_further [OF assms(1)])

lemma separator_stops:
  "list_all json_blank b \<Longrightarrow> c \<in> {CHR '','', CHR '']'', CHR ''}''} \<Longrightarrow> number_stops (b @ c # r)"
  by (cases b) (auto simp: number_stops_def json_blank_def is_digit_def char_between_def)

lemma json_chars_plain: "plain_text s \<Longrightarrow> json_chars (s @ CHR 0x22 # r) = Some (s, r)"
  by (induction s) (simp_all add: plain_text_def)

lemma parse_string_row_plain:
  assumes "drop off d = CHR 0x22 # s @ CHR 0x22 # r" "plain_text s"
  shows "parse_string_row d off = Inr (Some s, off + length s + 2)"
proof -
  have d1: "drop (off + 1) d = s @ CHR 0x22 # r" using drop_further [of off d "[CHR 0x22]"] assms(1) by simp
  obtain off' where o: "string_loop d (off + 1) [] = Inr (Some s, off')" "off' \<le> length d" "drop off' d = r"
    using string_loop_chars [of d "off + 1" "[]"]
    by (auto simp only: d1 json_chars_plain [OF assms(2)] string_result_def option.case prod.case append_Nil)
  moreover have "off' = off + length s + 2"
    using drop_length [OF assms(1)] o(2) arg_cong [OF o(3), of length] by simp
  ultimately show ?thesis by (simp add: parse_string_row_def)
qed

definition value_start :: "char \<Rightarrow> bool" where
  "value_start c \<longleftrightarrow> \<not> json_blank c \<and> c \<notin> {CHR ''}'', CHR '']'', CHR '','', CHR 0x00}"

lemma layout_start: "json_plain v \<Longrightarrow> \<exists>c r. layout sp nl v = c # r \<and> value_start c"
proof (cases v)
  case (JNumber w)
  assume "json_plain v"
  then obtain n where "n < 2 ^ 53" "w = double_of_nat n" using JNumber by (auto simp: whole_number_def)
  with JNumber nat_digits_digits [of n] nat_digits_nonempty [of n] show ?thesis
    by (cases "nat_digits n")
      (auto simp: double_of_nat_string value_start_def json_blank_def is_digit_def char_between_def)
qed (auto simp: value_start_def json_blank_def)

text \<open>A value parser reads a value: blanks in front are skipped, what follows is left.\<close>

definition reads_value :: "string \<Rightarrow> string \<Rightarrow> string \<Rightarrow> value_parser \<Rightarrow> json \<Rightarrow> bool" where
  "reads_value sp nl d p v \<longleftrightarrow>
     (\<forall>off b r. list_all json_blank b \<longrightarrow> number_stops r \<longrightarrow> drop off d = b @ layout sp nl v @ r \<longrightarrow>
        p off = Inr (Some v, off + length b + length (layout sp nl v)))"

lemma reads_valueD:
  "reads_value sp nl d p v \<Longrightarrow> list_all json_blank b \<Longrightarrow> number_stops r \<Longrightarrow> drop off d = b @ layout sp nl v @ r \<Longrightarrow>
   p off = Inr (Some v, off + length b + length (layout sp nl v))"
  by (simp add: reads_value_def)

lemma array_loop_reads:
  assumes "list_all json_blank sp"
  shows "ws \<noteq> [] \<Longrightarrow> \<forall>u \<in> set ws. reads_value sp nl d p u \<Longrightarrow> length ws \<le> n \<Longrightarrow> list_all json_blank b \<Longrightarrow>
    drop off d = b @ layout_elements sp nl ws @ CHR '']'' # r \<Longrightarrow>
    array_loop p d n off vs =
      Inr (Some (JArray (vs @ ws)), off + length b + length (layout_elements sp nl ws) + 1)"
proof (induction ws arbitrary: n b off vs)
  case (Cons u ws)
  obtain m where n: "n = Suc m" "length ws \<le> m" using Cons.prems(3) by (cases n) auto
  define e where "e = off + length b + length (layout sp nl u)"
  define t where "t = (if ws = [] then CHR '']'' # r else sp @ CHR '','' # sp @ layout_elements sp nl ws @ CHR '']'' # r)"
  have d: "drop off d = b @ layout sp nl u @ t" using Cons.prems(5) by (simp add: t_def)
  then have dt: "drop e d = t" using drop_further [of off d "b @ layout sp nl u" t] by (simp add: e_def add.assoc)
  have "number_stops t"
    using separator_stops [of "[]" "CHR '']''" r] separator_stops [OF assms] by (simp add: t_def)
  then have p: "p off = Inr (Some u, e)"
    using Cons.prems(2,4) d unfolding e_def by (intro reads_valueD) simp_all
  show ?case
  proof (cases "ws = []")
    case True
    with dt have "skip_write_blank d e = e" "json_char d e = Inr (CHR '']'')"
      using skip_blanks(1) [of e d "[]"] by (simp_all add: t_def json_char_drop json_blank_def)
    with p n True show ?thesis by (simp add: array_push_back_def e_def)
  next
    case False
    then have dt: "drop e d = sp @ CHR '','' # sp @ layout_elements sp nl ws @ CHR '']'' # r"
      using dt by (simp add: t_def)
    note sk = skip_blanks [OF this assms]
    have dn: "drop (e + length sp + 1) d = sp @ layout_elements sp nl ws @ CHR '']'' # r"
      using drop_further [of "e + length sp" d "'',''"] sk by (simp add: json_blank_def)
    have "array_loop p d m (e + length sp + 1) (vs @ [u]) =
        Inr (Some (JArray ((vs @ [u]) @ ws)), e + length sp + 1 + length sp + length (layout_elements sp nl ws) + 1)"
      by (rule Cons.IH [OF False _ n(2) assms dn]) (use Cons.prems(2) in simp)
    with p n False sk json_char_drop [OF sk(2)] show ?thesis
      by (simp add: array_push_back_def json_blank_def) (simp add: e_def)
  qed
qed simp

text \<open>Members in the order of their names are put at the end.\<close>

lemma map_emplace_last:
  "\<forall>k' \<in> fst ` set m. string_compare k' k < 0 \<Longrightarrow> map_emplace k v m = m @ [(k, v)]"
proof (induction k v m rule: map_emplace.induct)
  case (2 k v k' v' m)
  then show ?case using string_compare_swap [of k k'] by auto
qed simp

lemma map_sorted_middle:
  "map_sorted (a @ (k, v) # b) \<Longrightarrow> \<forall>k' \<in> fst ` set a. string_compare k' k < 0"
  by (induction a rule: map_sorted.induct) auto

text \<open>One member, with the text \<open>t\<close> behind it.\<close>

lemma member_reads:
  assumes sp: "list_all json_blank sp" and k: "plain_text k" and u: "reads_value sp nl d p u" and t: "number_stops t"
    and d: "drop off d = CHR 0x22 # k @ CHR 0x22 # sp @ CHR '':'' # sp @ layout sp nl u @ t"
    and e: "e = off + length k + 3 + 2 * length sp + length (layout sp nl u)"
  shows "parse_member p d off = Inr (Some (k, u), e)" "drop e d = t"
proof -
  define o2 where "o2 = off + length k + 2"
  define o3 where "o3 = o2 + length sp"
  have d2: "drop o2 d = sp @ CHR '':'' # sp @ layout sp nl u @ t"
    using drop_further [of off d "CHR 0x22 # k @ [CHR 0x22]"] d by (simp add: o2_def)
  note sk = skip_blanks [OF d2 sp]
  have o3: "skip_write_blank d o2 = o3" "drop o3 d = CHR '':'' # sp @ layout sp nl u @ t"
    using sk by (simp_all add: o3_def json_blank_def)
  have d3: "drop (o3 + 1) d = sp @ layout sp nl u @ t" using drop_further [of o3 d "'':''"] o3(2) by simp
  have e': "e = o3 + 1 + length sp + length (layout sp nl u)" by (simp add: e o3_def o2_def)
  have "p (o3 + 1) = Inr (Some u, e)" unfolding e' by (rule reads_valueD [OF u sp t d3])
  then show "parse_member p d off = Inr (Some (k, u), e)"
    using parse_string_row_plain [OF d k] o3 json_char_drop [OF o3(2)] by (simp add: parse_member_def Let_def o2_def)
  show "drop e d = t"
    using drop_further [of "o3 + 1" d "sp @ layout sp nl u"] d3 by (simp add: e' add.assoc)
qed

lemma object_loop_reads:
  assumes "list_all json_blank sp" "list_all json_blank nl"
  shows "ms \<noteq> [] \<Longrightarrow> \<forall>(k, u) \<in> set ms. plain_text k \<and> reads_value sp nl d p u \<Longrightarrow> length ms \<le> n \<Longrightarrow>
    map_sorted (o1 @ ms) \<Longrightarrow> drop off d = layout_members sp nl ms @ nl @ CHR ''}'' # r \<Longrightarrow>
    object_loop p d n off o1 =
      Inr (Some (JObject (o1 @ ms)), off + length (layout_members sp nl ms) + length nl + 1)"
proof (induction ms arbitrary: n off o1)
  case (Cons m ms)
  obtain k u where m: "m = (k, u)" by (cases m)
  obtain i where n: "n = Suc i" "length ms \<le> i" using Cons.prems(3) by (cases n) auto
  have k: "plain_text k" and u: "reads_value sp nl d p u" using Cons.prems(2) m by simp_all
  define t where "t = (if ms = [] then nl @ CHR ''}'' # r
      else CHR '','' # sp @ nl @ layout_members sp nl ms @ nl @ CHR ''}'' # r)"
  define e where "e = off + length k + 3 + 2 * length sp + length (layout sp nl u)"
  have d: "drop off d = CHR 0x22 # k @ CHR 0x22 # sp @ CHR '':'' # sp @ layout sp nl u @ t"
    using Cons.prems(5) m by (simp add: t_def)
  have "number_stops t"
    using separator_stops [OF assms(2)] separator_stops [of "[]" "CHR '',''"] by (simp add: t_def)
  note mem = member_reads [OF assms(1) k u this d e_def]
  have ins: "object_insert k u o1 = o1 @ [(k, u)]"
    unfolding object_insert_def using Cons.prems(4) m by (intro map_emplace_last map_sorted_middle) simp
  show ?case
  proof (cases "ms = []")
    case True
    with mem(2) have "drop e d = nl @ CHR ''}'' # r" by (simp add: t_def)
    note sk = skip_blanks [OF this assms(2)]
    with mem(1) ins n True m json_char_drop [OF sk(2)] show ?thesis
      by (simp add: json_blank_def e_def)
  next
    case False
    then have dt: "drop e d = CHR '','' # sp @ nl @ layout_members sp nl ms @ nl @ CHR ''}'' # r"
      using mem(2) by (simp add: t_def)
    then have de: "skip_write_blank d e = e" "json_char d e = Inr (CHR '','')"
      using skip_blanks(1) [of e d "[]"] by (simp_all add: json_char_drop json_blank_def)
    have dn: "drop (e + 1) d = (sp @ nl) @ layout_members sp nl ms @ nl @ CHR ''}'' # r"
      using drop_further [of e d "'',''"] dt by simp
    obtain rest where "layout_members sp nl ms = CHR 0x22 # rest"
      using False by (cases ms) (auto split: prod.split)
    with dn have "skip_write_blank d (e + 1) = e + 1 + length (sp @ nl)"
        "drop (e + 1 + length (sp @ nl)) d = layout_members sp nl ms @ nl @ CHR ''}'' # r"
      using skip_blanks [of "e + 1" d "sp @ nl" "CHR 0x22"] assms by (simp_all add: json_blank_def)
    moreover from this(2) have "object_loop p d i (e + 1 + length (sp @ nl)) (o1 @ [(k, u)]) =
        Inr (Some (JObject ((o1 @ [(k, u)]) @ ms)),
             e + 1 + length (sp @ nl) + length (layout_members sp nl ms) + length nl + 1)"
      by (intro Cons.IH [OF False _ n(2)]) (use Cons.prems(2,4) m in simp_all)
    ultimately show ?thesis
      using mem(1) ins n False m de by (simp add: Let_def) (simp add: e_def)
  qed
qed simp

lemma layout_nonempty: "json_plain v \<Longrightarrow> 0 < length (layout sp nl v)"
  using layout_start [of v sp nl] by auto

lemma layout_elements_length:
  "list_all json_plain vs \<Longrightarrow> u \<in> set vs \<Longrightarrow> length (layout sp nl u) \<le> length (layout_elements sp nl vs)"
  "list_all json_plain vs \<Longrightarrow> length vs \<le> length (layout_elements sp nl vs)"
  by (induction vs) (use layout_nonempty [of _ sp nl] in \<open>auto simp: Suc_le_eq\<close>)

lemma layout_members_length:
  "(k, u) \<in> set ms \<Longrightarrow> length (layout sp nl u) \<le> length (layout_members sp nl ms)"
  "length ms \<le> length (layout_members sp nl ms)"
  by (induction ms) auto

text \<open>The text of a value at an offset, by the kind of the value.\<close>

lemma parse_json_value_char:
  "json_char d off = Inr c \<Longrightarrow> d \<noteq> [] \<Longrightarrow>
   parse_json_value p d n off =
     (if c = CHR ''t'' then Inr (parse_true d off)
      else if c = CHR ''f'' then Inr (parse_false d off)
      else if c = CHR ''n'' then Inr (parse_null d off)
      else if c = CHR 0x22 then parse_string d off
      else if c = CHR ''['' then parse_array p d n off
      else if c = CHR ''{'' then parse_object p d n off
      else Inr (parse_number d off))"
  by (simp add: parse_json_value_def)

lemma json_literal_reads:
  "drop off d = ''true'' @ r \<Longrightarrow> parse_json_value p d n off = Inr (Some (JBool True), off + 4)"
  "drop off d = ''false'' @ r \<Longrightarrow> parse_json_value p d n off = Inr (Some (JBool False), off + 5)"
  "drop off d = ''null'' @ r \<Longrightarrow> parse_json_value p d n off = Inr (Some JNull, off + 4)"
proof -
  have *: "json_char d off = Inr c \<and> d \<noteq> [] \<and> length d = off + Suc (length w + length r) \<and> drop (Suc off) d = w @ r"
    if "drop off d = (c # w) @ r" for c w
    using json_char_drop [of off d c "w @ r"] drop_length [of off d c "w @ r"] drop_further [of off d "[c]" "w @ r"] that
    by auto
  show "drop off d = ''true'' @ r \<Longrightarrow> parse_json_value p d n off = Inr (Some (JBool True), off + 4)"
    using * [of "CHR ''t''" "''rue''"]
    by (simp add: parse_json_value_char parse_true_def word_here_def numeral_eq_Suc)
  show "drop off d = ''false'' @ r \<Longrightarrow> parse_json_value p d n off = Inr (Some (JBool False), off + 5)"
    using * [of "CHR ''f''" "''alse''"]
    by (simp add: parse_json_value_char parse_false_def word_here_def numeral_eq_Suc)
  show "drop off d = ''null'' @ r \<Longrightarrow> parse_json_value p d n off = Inr (Some JNull, off + 4)"
    using * [of "CHR ''n''" "''ull''"]
    by (simp add: parse_json_value_char parse_null_def word_here_def numeral_eq_Suc)
qed

lemma json_number_reads:
  assumes "drop off d = double_to_string w @ r" "whole_number w" "number_stops r"
  shows "parse_json_value p d n off = Inr (Some (JNumber w), off + length (double_to_string w))"
proof -
  obtain m where "m < 2 ^ 53" "w = double_of_nat m" using assms(2) by (auto simp: whole_number_def)
  then obtain c l where c: "double_to_string w = c # l" "is_digit c"
    using nat_digits_nonempty [of m] nat_digits_digits [of m]
    by (cases "nat_digits m") (auto simp: double_of_nat_string)
  then have "json_char d off = Inr c" "d \<noteq> []" using assms(1) json_char_drop [of off d c] by auto
  moreover have "c \<notin> {CHR ''t'', CHR ''f'', CHR ''n'', CHR 0x22, CHR ''['', CHR ''{''}"
    using c(2) by (auto simp: is_digit_def char_between_def)
  ultimately show ?thesis using parse_number_whole [OF assms] by (simp add: parse_json_value_char)
qed

lemma json_string_reads:
  assumes "drop off d = CHR 0x22 # s @ CHR 0x22 # r" "plain_text s"
  shows "parse_json_value p d n off = Inr (Some (JString s), off + length s + 2)"
proof -
  have "json_char d off = Inr (CHR 0x22)" "d \<noteq> []" using assms(1) json_char_drop by auto
  then show ?thesis using parse_string_row_plain [OF assms] by (simp add: parse_json_value_char parse_string_def)
qed

lemma json_array_reads:
  assumes "list_all json_blank sp" "list_all json_plain vs" "\<And>u. u \<in> set vs \<Longrightarrow> reads_value sp nl d p u"
    and "length vs \<le> n" "drop off d = layout sp nl (JArray vs) @ r"
  shows "parse_json_value p d n off = Inr (Some (JArray vs), off + length (layout sp nl (JArray vs)))"
proof -
  define t where "t = layout_elements sp nl vs @ CHR '']'' # r"
  have d: "drop off d = CHR ''['' # t" using assms(5) by (auto simp: t_def split: if_splits)
  then have c: "json_char d off = Inr (CHR ''['')" "d \<noteq> []" using json_char_drop by auto
  have t: "drop (off + 1) d = t" using drop_further [of off d "''[''"] d by simp
  obtain c' l where c': "t = c' # l" "\<not> json_blank c'" "c' = CHR '']'' \<longleftrightarrow> vs = []"
  proof (cases vs)
    case (Cons u us)
    obtain c' l where "layout sp nl u = c' # l" "value_start c'"
      using layout_start [of u sp nl] assms(2) Cons by auto
    with Cons show ?thesis by (intro that [of c']) (auto simp: t_def value_start_def)
  qed (auto simp: t_def json_blank_def)
  have sk: "skip_write_blank d (off + 1) = off + 1" "json_char d (off + 1) = Inr c'" "off + 1 < length d"
    using skip_blanks(1) [of "off + 1" d "[]" c' l] json_char_drop [of "off + 1" d c' l]
      drop_length [of "off + 1" d c' l] t c' by simp_all
  show ?thesis
  proof (cases "vs = []")
    case True
    with c sk c' show ?thesis by (simp add: parse_json_value_char parse_array_def)
  next
    case False
    have "array_loop p d n (off + 1) [] =
        Inr (Some (JArray ([] @ vs)), off + 1 + length ([] :: string) + length (layout_elements sp nl vs) + 1)"
      by (rule array_loop_reads [OF assms(1) False]) (use assms(3,4) t t_def in auto)
    with c sk c' False show ?thesis by (simp add: parse_json_value_char parse_array_def)
  qed
qed

lemma json_object_reads:
  assumes "list_all json_blank sp" "list_all json_blank nl" "map_sorted ms"
    and "\<And>x u. (x, u) \<in> set ms \<Longrightarrow> plain_text x \<and> reads_value sp nl d p u"
    and "length ms \<le> n" "drop off d = layout sp nl (JObject ms) @ r"
  shows "parse_json_value p d n off = Inr (Some (JObject ms), off + length (layout sp nl (JObject ms)))"
proof -
  define b where "b = (if ms = [] then [] else nl)"
  define t where "t = layout_members sp nl ms @ b @ CHR ''}'' # r"
  have d: "drop off d = CHR ''{'' # b @ t" using assms(6) by (auto simp: t_def b_def split: if_splits)
  then have c: "json_char d off = Inr (CHR ''{'')" "d \<noteq> []" using json_char_drop by auto
  have bt: "drop (off + 1) d = b @ t" using drop_further [of off d "''{''"] d by simp
  obtain c' l where c': "t = c' # l" "\<not> json_blank c'" "c' = CHR ''}'' \<longleftrightarrow> ms = []"
    by (cases ms) (auto simp: t_def b_def json_blank_def split: prod.split)
  have b: "list_all json_blank b" using assms(2) by (simp add: b_def)
  note sk = skip_blanks [OF bt [unfolded c'(1)] b c'(2)]
  have o1: "json_char d (off + 1 + length b) = Inr c'" "off + 1 + length b < length d"
    using json_char_drop [OF sk(2)] drop_length [OF sk(2)] by simp_all
  show ?thesis
  proof (cases "ms = []")
    case True
    with c sk o1 c' show ?thesis by (simp add: parse_json_value_char parse_object_def b_def)
  next
    case False
    have "object_loop p d n (off + 1 + length b) [] =
        Inr (Some (JObject ([] @ ms)), off + 1 + length b + length (layout_members sp nl ms) + length nl + 1)"
      by (rule object_loop_reads [OF assms(1,2) False, where r = r])
        (use assms(3,4,5) sk(2) c'(1) t_def b_def False in auto)
    with c sk o1 c' False show ?thesis by (simp add: parse_json_value_char parse_object_def b_def)
  qed
qed

lemma parse_json_value_reads:
  assumes ok: "json_ok v" "json_plain v" and bl: "list_all json_blank sp" "list_all json_blank nl"
    and sub: "\<And>u. json_ok u \<Longrightarrow> json_plain u \<Longrightarrow> length (layout sp nl u) < length (layout sp nl v) \<Longrightarrow> reads_value sp nl d p u"
    and n: "length (layout sp nl v) \<le> n"
    and d: "drop off d = layout sp nl v @ r" "(\<forall>w. v \<noteq> JNumber w) \<or> number_stops r"
  shows "parse_json_value p d n off = Inr (Some v, off + length (layout sp nl v))"
proof (cases v)
  case JNull
  then show ?thesis using json_literal_reads(3) d by simp
next
  case (JBool b)
  then show ?thesis using json_literal_reads(1,2) d by (cases b) simp_all
next
  case (JNumber w)
  then show ?thesis using json_number_reads [of off d w r] d ok by simp
next
  case (JString s)
  then show ?thesis using json_string_reads [of off d s r] d ok by simp
next
  case (JArray vs)
  have "list_all json_plain vs" using ok JArray by simp
  note len = layout_elements_length [OF this, where sp = sp and nl = nl]
  show ?thesis unfolding JArray
  proof (rule json_array_reads [OF bl(1)])
    show "reads_value sp nl d p u" if "u \<in> set vs" for u
      using len(1) [OF that] that ok JArray by (intro sub) (auto simp: list_all_iff)
  qed (use len(2) ok n d JArray in \<open>auto split: if_splits\<close>)
next
  case (JObject ms)
  note len = layout_members_length [where ms = ms and sp = sp and nl = nl]
  show ?thesis unfolding JObject
  proof (rule json_object_reads [OF bl])
    show "plain_text x \<and> reads_value sp nl d p u" if "(x, u) \<in> set ms" for x u
      using len(1) [OF that] that ok JObject by (intro conjI sub) (fastforce simp: list_all_iff)+
  qed (use len(2) ok n d JObject in \<open>auto split: if_splits\<close>)
qed

lemma parse_json_reads:
  assumes "list_all json_blank sp" "list_all json_blank nl"
  shows "json_ok v \<Longrightarrow> json_plain v \<Longrightarrow> length (layout sp nl v) < k \<Longrightarrow> reads_value sp nl d (parse_json k d) v"
proof (induction k arbitrary: v)
  case (Suc k)
  show ?case
  proof (unfold reads_value_def, intro allI impI)
    fix off b r
    assume b: "list_all json_blank b" and r: "number_stops r" and d: "drop off d = b @ layout sp nl v @ r"
    obtain c l where c: "layout sp nl v = c # l" "value_start c" using layout_start [OF Suc.prems(2)] by blast
    have sk: "skip_write_blank d off = off + length b"
      using skip_blanks(1) [of off d b c "l @ r"] d b c by (simp add: value_start_def)
    have "parse_json_value (parse_json k d) d k (off + length b) =
        Inr (Some v, off + length b + length (layout sp nl v))"
      by (rule parse_json_value_reads [OF Suc.prems(1,2) assms]) (use Suc d r drop_further in auto)
    then show "parse_json (Suc k) d off = Inr (Some v, off + length b + length (layout sp nl v))"
      by (simp add: sk)
  qed
qed simp

lemma json_parse_layout:
  assumes "json_ok v" "json_plain v" "list_all json_blank sp" "list_all json_blank nl"
    and "(\<forall>w. v \<noteq> JNumber w) \<or> number_stops r"
  shows "json_parse (layout sp nl v @ r) = Inr (Some v)"
proof -
  let ?d = "layout sp nl v @ r"
  obtain c l where c: "layout sp nl v = c # l" "value_start c" using layout_start [OF assms(2)] by blast
  then have sk: "skip_write_blank ?d 0 = 0"
    using skip_blanks(1) [of 0 ?d "[]" c "l @ r"] by (simp add: value_start_def)
  have "parse_json_value (parse_json (length ?d + 1) ?d) ?d (length ?d + 1) 0 = Inr (Some v, 0 + length (layout sp nl v))"
    by (rule parse_json_value_reads [OF assms(1-4)]) (use parse_json_reads [OF assms(3,4)] assms(5) in auto)
  with sk show ?thesis by (simp add: json_parse_def)
qed

text \<open>A file that was written is read back without the white space, whatever the character behind it is.\<close>

lemma json_file_squeezed:
  assumes "json_writable (JObject ms)" "json_ok (squeeze (JObject ms))" "json_file_write (JObject ms) = Inr text"
  shows "json_file_read junk (Some text) = Inr (Some (squeeze (JObject ms)))"
proof -
  have "text = layout '' '' [CHR 0x0A] (JObject ms)"
    using assms(3) by (simp only: json_file_write_def json_print_def as_object_def json.case andthen_Inr
        print_layout sum.inject)
  then have "solid text = layout [] [] (squeeze (JObject ms))"
    using layout_solid(1) [of "'' ''" "[CHR 0x0A]", OF _ _ assms(1)] by (simp add: is_space_def)
  then show ?thesis
    using json_parse_layout [OF assms(2) squeeze_plain [OF assms(1)], of "[]" "[]" "[junk]"]
    by (simp add: json_file_read_def)
qed

lemma json_file_read_back:
  assumes "json_ok (JObject ms)" "json_plain (JObject ms)" "json_file_write (JObject ms) = Inr text"
  shows "json_file_read junk (Some text) = Inr (Some (JObject ms))"
  using json_file_squeezed [of ms _ junk] plain_squeeze [OF assms(2)] assms(1,3) by simp

text \<open>A quote is not escaped: the text that is written is no JSON.\<close>

lemma json_quote_lost:
  "json_file_write (JObject [(''a'', JString [CHR 0x22])]) = Inr text \<Longrightarrow>
   json_file_read (CHR ''x'') (Some text) = Inr None"
proof -
  assume "json_file_write (JObject [(''a'', JString [CHR 0x22])]) = Inr text"
  moreover have "andthen (json_file_write (JObject [(''a'', JString [CHR 0x22])])) (\<lambda>text. json_file_read (CHR ''x'') (Some text)) = Inr None"
    by code_simp
  ultimately show ?thesis by simp
qed

end
