(* ===== verification/Tuple.thy ===== *)
theory Tuple
  imports Std_Map Byte_Codec Common Disk_Manager
begin

text \<open>
  Columns and schemas (\<open>src/catalog/column.hpp\<close>, \<open>src/catalog/schema.hpp\<close>) and the tuples of
  \<open>src/catalog/tuple.hpp\<close>: the bytes of the values one behind the other, a \<open>VARCHAR\<close> behind its
  length. A pointer into the bytes is its offset.
\<close>

section \<open>Columns\<close>

datatype column_type = INT_C | FLOAT_C | VARCHAR_C | CHAR_C | UNKNOWN_C

definition check_attr_type :: "attr_type \<Rightarrow> column_type \<Rightarrow> bool" where
  "check_attr_type attr_type col_type =
     (case col_type of
        INT_C \<Rightarrow> attr_type = INTS
      | FLOAT_C \<Rightarrow> attr_type = FLOATS
      | VARCHAR_C \<Rightarrow> attr_type = STRING
      | CHAR_C \<Rightarrow> attr_type = STRING
      | UNKNOWN_C \<Rightarrow> False)"

record column =
  col_type :: column_type
  col_name :: string
  col_size :: size_t

definition column_eq :: "column \<Rightarrow> column \<Rightarrow> bool" where
  "column_eq a b \<longleftrightarrow> col_type a = col_type b \<and> col_name a = col_name b \<and> col_size a = col_size b"

definition column_from_string :: "string \<Rightarrow> column_type" where
  "column_from_string t =
     (if t = ''int'' then INT_C else if t = ''float'' then FLOAT_C
      else if t = ''varchar'' then VARCHAR_C else if t = ''char'' then CHAR_C else UNKNOWN_C)"

section \<open>Schemas\<close>

record schema =
  columns :: "column list"

fun columns_eq :: "column list \<Rightarrow> column list \<Rightarrow> bool" where
  "columns_eq (a # as) (b # bs) = (if \<not> column_eq a b then False else columns_eq as bs)"
| "columns_eq _ _ = True"

definition schema_eq :: "schema \<Rightarrow> schema \<Rightarrow> bool" where
  "schema_eq a b =
     (if length (columns a) \<noteq> length (columns b) then False else columns_eq (columns a) (columns b))"

fun column_from :: "int \<Rightarrow> column list \<Rightarrow> string \<Rightarrow> int" where
  "column_from i [] _ = - 1"
| "column_from i (c # cs) name = (if col_name c = name then i else column_from (i + 1) cs name)"

definition column_idx :: "schema \<Rightarrow> string \<Rightarrow> int" where
  "column_idx s name = column_from 0 (columns s) name"

text \<open>\<open>columns_[i]\<close>, unchecked.\<close>

definition column_at :: "schema \<Rightarrow> nat \<Rightarrow> column res" where
  "column_at s i = (if i < length (columns s) then Inr (columns s ! i) else Inl Out_Of_Bounds)"

definition copy_schema :: "schema \<Rightarrow> nat list \<Rightarrow> schema res" where
  "copy_schema other attr =
     andthen (each (\<lambda>i cols. andthen (column_at other i) (\<lambda>c. Inr (cols @ [c]))) attr [])
       (\<lambda>cols. Inr \<lparr>columns = cols\<rparr>)"

text \<open>\<open>copy_schema_from\<close> clears the columns of the schema it is called on first.\<close>

definition copy_schema_from :: "schema \<Rightarrow> schema \<Rightarrow> nat list \<Rightarrow> schema res" where
  "copy_schema_from self other attr =
     andthen (each (\<lambda>i cols. andthen (column_at other i) (\<lambda>c. Inr (cols @ [c]))) attr (columns (self\<lparr>columns := []\<rparr>)))
       (\<lambda>cols. Inr (self\<lparr>columns := cols\<rparr>))"

section \<open>Tuples\<close>

record tuple =
  t_data :: bytes
  t_rid :: rid

definition tuple_new :: "bytes \<Rightarrow> tuple" where
  "tuple_new data = \<lparr>t_data = data, t_rid = rid_default\<rparr>"

definition tuple_len :: "tuple \<Rightarrow> nat" where
  "tuple_len t = length (t_data t)"

text \<open>The bytes of an \<open>int\<close> that a \<open>long\<close> or a \<open>size_t\<close> is converted to.\<close>

definition int_bytes :: "int \<Rightarrow> bytes" where
  "int_bytes n = le_bytes 4 (word_of_int n :: 32 word)"

definition tuple_check :: "sql_value \<Rightarrow> column \<Rightarrow> unit res" where
  "tuple_check v c =
     (case v_type v of
        INTS \<Rightarrow> require (col_type c = INT_C) Assert_Failed
      | FLOATS \<Rightarrow> require (col_type c = FLOAT_C) Assert_Failed
      | STRING \<Rightarrow> require (col_type c = VARCHAR_C \<or> col_type c = CHAR_C) Assert_Failed
      | _ \<Rightarrow> Inl Assert_Failed)"

definition tuple_bytes :: "sql_value \<Rightarrow> column \<Rightarrow> bytes res" where
  "tuple_bytes v c =
     (case v_type v of
        INTS \<Rightarrow> andthen (any_long (v_any v)) (\<lambda>n. Inr (int_bytes n))
      | FLOATS \<Rightarrow> andthen (any_float (v_any v)) (\<lambda>f. Inr (le_bytes 4 f))
      | STRING \<Rightarrow>
          andthen (any_string (v_any v)) (\<lambda>s.
          Inr ((if col_type c = VARCHAR_C then int_bytes (int (length s)) else []) @ string2vector s))
      | _ \<Rightarrow> Inl Assert_Failed)"

text \<open>One round of the loop of \<open>create_tuple\<close>, on the bytes so far and the index.\<close>

definition tuple_append :: "schema \<Rightarrow> sql_value \<Rightarrow> bytes \<times> nat \<Rightarrow> (bytes \<times> nat) res" where
  "tuple_append s v = (\<lambda>(rec, idx).
     andthen (if v_type v \<in> {INTS, FLOATS, STRING} then column_at s idx else Inl Assert_Failed) (\<lambda>c.
     andthen (tuple_check v c) (\<lambda>_.
     andthen (tuple_bytes v c) (\<lambda>bs. Inr (rec @ bs, idx + 1)))))"

definition create_tuple :: "sql_value list \<Rightarrow> schema \<Rightarrow> tuple res" where
  "create_tuple vals s = andthen (each (tuple_append s) vals ([], 0)) (\<lambda>(rec, _). Inr (tuple_new rec))"

text \<open>\<open>memcpy\<close> of an \<open>int\<close> out of the bytes.\<close>

definition load_int :: "bytes \<Rightarrow> nat \<Rightarrow> int res" where
  "load_int data off = andthen (load off 4 data) (\<lambda>bs. Inr (sint (le_word bs :: 32 word)))"

text \<open>
  \<open>s.assign(data, size)\<close>: the \<open>int\<close> becomes a \<open>size_t\<close>, so that a negative one is larger than the
  longest string.
\<close>

definition assign_string :: "bytes \<Rightarrow> nat \<Rightarrow> int \<Rightarrow> string res" where
  "assign_string data off sz =
     (if sz < 0 then Inl Uncaught_Exception
      else andthen (load off (nat sz) data) (\<lambda>bs. Inr (vector2string bs)))"

definition init_value :: "bytes \<Rightarrow> nat \<Rightarrow> int \<Rightarrow> column_type \<Rightarrow> sql_value res" where
  "init_value data off sz t =
     (case t of
        INT_C \<Rightarrow> andthen (load_int data off) (\<lambda>n. Inr (value_int n))
      | FLOAT_C \<Rightarrow> andthen (load off 4 data) (\<lambda>bs. Inr (value_float (le_word bs)))
      | CHAR_C \<Rightarrow> andthen (assign_string data off sz) (\<lambda>s. Inr (value_string s))
      | VARCHAR_C \<Rightarrow> andthen (assign_string data off sz) (\<lambda>s. Inr (value_string s))
      | UNKNOWN_C \<Rightarrow> Inl Assert_Failed)"

text \<open>\<open>size\<close> of a column as an \<open>int\<close>.\<close>

definition col_int_size :: "column \<Rightarrow> int" where
  "col_int_size c = sint (ucast (col_size c) :: 32 word)"

text \<open>The value of the column at an offset.\<close>

definition value_here :: "bytes \<Rightarrow> nat \<Rightarrow> column \<Rightarrow> sql_value res" where
  "value_here data off c =
     (if col_type c = VARCHAR_C
      then andthen (load_int data off) (\<lambda>sz. init_value data (off + 4) sz VARCHAR_C)
      else init_value data off (if col_type c = CHAR_C then col_int_size c else 0) (col_type c))"

text \<open>
  Skipping a column, to the offset of the next one; the assertion compares offsets as \<open>size_t\<close>, so
  that one before the beginning fails too. The size of a \<open>CHAR\<close> is added as a \<open>size_t\<close>.
\<close>

definition skip_offset :: "bytes \<Rightarrow> int \<Rightarrow> nat res" where
  "skip_offset data off =
     (if 0 \<le> off \<and> off \<le> int (length data) then Inr (nat off) else Inl Assert_Failed)"

definition skip_value :: "bytes \<Rightarrow> nat \<Rightarrow> column \<Rightarrow> nat res" where
  "skip_value data off c =
     (case col_type c of
        INT_C \<Rightarrow> skip_offset data (int off + 4)
      | FLOAT_C \<Rightarrow> skip_offset data (int off + 4)
      | CHAR_C \<Rightarrow> skip_offset data (int off + sint (col_size c))
      | VARCHAR_C \<Rightarrow> andthen (load_int data off) (\<lambda>sz. skip_offset data (int off + 4 + sz))
      | UNKNOWN_C \<Rightarrow> Inl Assert_Failed)"

fun value_from :: "bytes \<Rightarrow> nat \<Rightarrow> column list \<Rightarrow> nat \<Rightarrow> sql_value res" where
  "value_from data off [] n = Inl Out_Of_Bounds"
| "value_from data off (c # cs) 0 = value_here data off c"
| "value_from data off (c # cs) (Suc n) = andthen (skip_value data off c) (\<lambda>off. value_from data off cs n)"

definition value_at :: "tuple \<Rightarrow> schema \<Rightarrow> nat \<Rightarrow> sql_value res" where
  "value_at t s idx =
     (if idx < length (columns s) then value_from (t_data t) 0 (columns s) idx else Inl Assert_Failed)"

definition tuple_to_string :: "tuple \<Rightarrow> schema \<Rightarrow> string res" where
  "tuple_to_string t s =
     each (\<lambda>i ss.
         andthen (value_at t s i) (\<lambda>v.
         andthen (value_to_string v) (\<lambda>x. Inr (ss @ x @ '' ''))))
       [0..<length (columns s)] []"

section \<open>Columns by name\<close>

lemma column_from_spec:
  "(column_from i cs name = - 1 \<and> (\<forall>c \<in> set cs. col_name c \<noteq> name)) \<or>
   (\<exists>k < length cs. column_from i cs name = i + int k \<and> col_name (cs ! k) = name \<and>
      (\<forall>j < k. col_name (cs ! j) \<noteq> name))"
proof (induction cs arbitrary: i)
  case (Cons c cs)
  show ?case
  proof (cases "col_name c = name")
    case True
    then show ?thesis by auto
  next
    case False
    from Cons [of "i + 1"] show ?thesis
    proof
      assume "\<exists>k < length cs. column_from (i + 1) cs name = i + 1 + int k \<and> col_name (cs ! k) = name \<and>
        (\<forall>j < k. col_name (cs ! j) \<noteq> name)"
      then obtain k where "k < length cs" "column_from (i + 1) cs name = i + 1 + int k" "col_name (cs ! k) = name"
        "\<forall>j < k. col_name (cs ! j) \<noteq> name" by blast
      with False have "Suc k < length (c # cs) \<and> column_from i (c # cs) name = i + int (Suc k) \<and>
          col_name ((c # cs) ! Suc k) = name \<and> (\<forall>j < Suc k. col_name ((c # cs) ! j) \<noteq> name)"
        by (auto simp: less_Suc_eq_0_disj)
      then show ?thesis by blast
    qed (use False in auto)
  qed
qed simp

lemma columns_eq_iff: "length as = length bs \<Longrightarrow> columns_eq as bs \<longleftrightarrow> as = bs"
  by (induction as bs rule: columns_eq.induct) (auto simp: column_eq_def)

lemma schema_eq_iff: "schema_eq a b \<longleftrightarrow> a = b"
  by (cases a; cases b) (auto simp: schema_eq_def columns_eq_iff)

lemma copy_loop:
  "(\<forall>i \<in> set is. i < length (columns s)) \<Longrightarrow>
   each (\<lambda>i cols. andthen (column_at s i) (\<lambda>c. Inr (cols @ [c]))) is acc = Inr (acc @ map ((!) (columns s)) is)"
  by (induction "is" arbitrary: acc) (simp_all add: column_at_def)

lemma copy_schema_columns:
  "(\<forall>i \<in> set is. i < length (columns s)) \<Longrightarrow> copy_schema s is = Inr \<lparr>columns = map ((!) (columns s)) is\<rparr>"
  by (simp add: copy_schema_def copy_loop)

section \<open>Writing and reading back\<close>

text \<open>The values a column can hold and give back.\<close>

definition cell_ok :: "sql_value \<Rightarrow> column \<Rightarrow> bool" where
  "cell_ok v c \<longleftrightarrow>
     (case col_type c of
        INT_C \<Rightarrow> (\<exists>n. v = value_int n \<and> int_range n)
      | FLOAT_C \<Rightarrow> (\<exists>f. v = value_float f)
      | VARCHAR_C \<Rightarrow> (\<exists>s. v = value_string s \<and> length s < 2 ^ 31)
      | CHAR_C \<Rightarrow> (\<exists>s. v = value_string s \<and> length s < 2 ^ 31 \<and> unat (col_size c) = length s)
      | UNKNOWN_C \<Rightarrow> False)"

definition cell_bytes :: "sql_value \<Rightarrow> column \<Rightarrow> bytes" where
  "cell_bytes v c = (case tuple_bytes v c of Inr bs \<Rightarrow> bs | Inl _ \<Rightarrow> [])"

lemma sint_of_int: "sint (word_of_int n :: 32 word) = to_int n"
  by (simp add: sint_sbintrunc' to_int_def signed_take_bit_eq_take_bit_shift take_bit_eq_mod)

lemma load_int_here: "load_int (pre @ int_bytes n @ post) (length pre) = Inr (to_int n)"
  by (simp add: load_int_def load_def int_bytes_def int_field.dec_enc sint_of_int)


lemma cell_cases:
  assumes "cell_ok v c"
  obtains n where "col_type c = INT_C" "v = value_int n" "int_range n" "cell_bytes v c = int_bytes n"
  | f where "col_type c = FLOAT_C" "v = value_float f" "cell_bytes v c = le_bytes 4 f"
  | x where "col_type c = VARCHAR_C" "v = value_string x" "length x < 2 ^ 31"
      "cell_bytes v c = int_bytes (int (length x)) @ string2vector x"
  | x where "col_type c = CHAR_C" "v = value_string x" "length x < 2 ^ 31" "unat (col_size c) = length x"
      "cell_bytes v c = string2vector x"
  using assms
  by (cases "col_type c")
    (auto simp: cell_ok_def cell_bytes_def tuple_bytes_def value_int_def value_float_def value_string_def
      any_long_def any_float_def any_string_def)

lemma tuple_append_cell:
  assumes "cell_ok v (columns s ! idx)" "idx < length (columns s)"
  shows "tuple_append s v (rec, idx) = Inr (rec @ cell_bytes v (columns s ! idx), idx + 1)"
proof -
  have "tuple_bytes v (columns s ! idx) = Inr (cell_bytes v (columns s ! idx)) \<and>
      tuple_check v (columns s ! idx) = Inr () \<and> v_type v \<in> {INTS, FLOATS, STRING}"
    using assms(1)
    by (cases rule: cell_cases)
      (auto simp: tuple_bytes_def tuple_check_def value_int_def value_float_def value_string_def
        any_long_def any_float_def any_string_def)
  then show ?thesis using assms(2) by (auto simp: tuple_append_def column_at_def)
qed

text \<open>A row of the schema, and its bytes.\<close>

definition row_ok :: "sql_value list \<Rightarrow> schema \<Rightarrow> bool" where
  "row_ok vals s \<longleftrightarrow> list_all2 cell_ok vals (columns s)"

definition row_bytes :: "sql_value list \<Rightarrow> schema \<Rightarrow> bytes" where
  "row_bytes vals s = concat (map2 cell_bytes vals (columns s))"

lemma tuple_loop:
  "list_all2 cell_ok vals (drop idx (columns s)) \<Longrightarrow> idx \<le> length (columns s) \<Longrightarrow>
   each (tuple_append s) vals (rec, idx) =
     Inr (rec @ concat (map2 cell_bytes vals (drop idx (columns s))), length (columns s))"
proof (induction vals arbitrary: rec idx)
  case Nil
  then show ?case by simp
next
  case (Cons v vals)
  then have lt: "idx < length (columns s)" by (cases "idx < length (columns s)") auto
  then have "drop idx (columns s) = columns s ! idx # drop (Suc idx) (columns s)"
    by (simp add: Cons_nth_drop_Suc)
  with Cons lt show ?case by (simp add: tuple_append_cell)
qed

lemma create_tuple_row: "row_ok vals s \<Longrightarrow> create_tuple vals s = Inr (tuple_new (row_bytes vals s))"
  using tuple_loop [of vals 0 s "[]"] by (simp add: create_tuple_def row_ok_def row_bytes_def)

lemma uint_below: "unat (w :: 'a::len word) < 2 ^ k \<Longrightarrow> uint w < 2 ^ k"
proof -
  assume "unat w < 2 ^ k"
  then have "int (unat w) < int (2 ^ k)" by (simp only: of_nat_less_iff)
  then show ?thesis by simp
qed

lemma int_range_nonneg: "0 \<le> x \<Longrightarrow> x < 2 ^ 31 \<Longrightarrow> int_range x"
  by (simp add: int_range_def)

lemma col_int_size_id:
  assumes "unat (col_size c) < 2 ^ 31"
  shows "col_int_size c = uint (col_size c)"
proof -
  have "(ucast (col_size c) :: 32 word) = word_of_int (uint (col_size c))"
    by (rule ucast_eq)
  then show ?thesis
    using int_range_nonneg [OF uint_ge_0 uint_below [OF assms]]
    by (simp only: col_int_size_def sint_of_int to_int_id)
qed

lemma load_here: "n = length bs \<Longrightarrow> load (length pre) n (pre @ bs @ post) = Inr bs"
  by (simp add: load_def)

lemma assign_here: "assign_string (pre @ string2vector x @ post) (length pre) (int (length x)) = Inr x"
proof -
  have "length x = length (string2vector x)" by (simp add: string2vector_def)
  then show ?thesis by (simp add: assign_string_def load_here)
qed

lemma value_here_cell:
  assumes "cell_ok v c"
  shows "value_here (pre @ cell_bytes v c @ post) (length pre) c = Inr v"
  using assms
proof (cases rule: cell_cases)
  case (1 n)
  then show ?thesis by (simp add: value_here_def init_value_def load_int_here to_int_id)
next
  case (2 f)
  then show ?thesis by (simp add: value_here_def init_value_def load_here int_field.dec_enc)
next
  case (3 x)
  then have "int_range (int (length x))" by (simp add: int_range_def)
  moreover have "assign_string ((pre @ int_bytes (int (length x))) @ string2vector x @ post)
      (length (pre @ int_bytes (int (length x)))) (int (length x)) = Inr x"
    by (rule assign_here)
  ultimately show ?thesis
    using 3 load_int_here [of pre "int (length x)" "string2vector x @ post"]
    by (simp add: value_here_def init_value_def to_int_id int_bytes_def)
next
  case (4 x)
  then have "col_int_size c = int (length x)" using col_int_size_id [of c] by (metis uint_nat)
  with 4 show ?thesis by (simp add: value_here_def init_value_def assign_here)
qed

lemma skip_cell:
  assumes "cell_ok v c"
  shows "skip_value (pre @ cell_bytes v c @ post) (length pre) c = Inr (length (pre @ cell_bytes v c))"
  using assms
proof (cases rule: cell_cases)
  case (3 x)
  then have "int_range (int (length x))" by (simp add: int_range_def)
  then show ?thesis
    using 3 load_int_here [of pre "int (length x)" "string2vector x @ post"]
    by (simp add: skip_value_def skip_offset_def to_int_id int_bytes_def string2vector_def nat_add_distrib)
next
  case (4 x)
  have "sint (col_size c) = int (length x)"
  proof -
    have "uint (col_size c) = int (length x)" using 4 by (metis uint_nat)
    then show ?thesis using 4 by (simp add: sint_uint signed_take_bit_int_eq_self)
  qed
  with 4 show ?thesis by (simp add: skip_value_def skip_offset_def string2vector_def nat_add_distrib)
qed (simp_all add: skip_value_def skip_offset_def int_bytes_def nat_add_distrib)

lemma value_from_row:
  "list_all2 cell_ok vals cs \<Longrightarrow> i < length cs \<Longrightarrow>
   value_from (pre @ concat (map2 cell_bytes vals cs) @ post) (length pre) cs i = Inr (vals ! i)"
proof (induction vals cs arbitrary: pre i rule: list_all2_induct)
  case (Cons v vs c cs)
  show ?case
  proof (cases i)
    case 0
    with value_here_cell [OF Cons(1), of pre "concat (map2 cell_bytes vs cs) @ post"] show ?thesis by simp
  next
    case (Suc k)
    with skip_cell [OF Cons(1), of pre "concat (map2 cell_bytes vs cs) @ post"]
      Cons.IH [of k "pre @ cell_bytes v c"] Cons.prems
    show ?thesis by simp
  qed
qed simp

lemma value_at_row:
  assumes "row_ok vals s" "i < length (columns s)" "t_data t = row_bytes vals s"
  shows "value_at t s i = Inr (vals ! i)"
  using value_from_row [of vals "columns s" i "[]" "[]"] assms
  by (simp add: value_at_def row_ok_def row_bytes_def)

lemma row_length: "row_ok vals s \<Longrightarrow> length vals = length (columns s)"
  by (simp add: row_ok_def list_all2_lengthD)

end
