(* ===== verification/Catalog.thy ===== *)
theory Catalog
  imports Json_Writer Tuple Heap_Scan
begin

text \<open>
  The catalog of \<open>src/catalog/catalog.hpp\<close> with the metadata it keeps as JSON (\<open>column.hpp\<close>,
  \<open>schema.hpp\<close>). The state is the catalog, whose storage manager owns the heap of every table, and the
  files of the working directory, by name. While a heap is open, its file is the one in its pool; the
  name gets the content back when the heap is closed. A \<open>Table *\<close> or a \<open>TableHeap *\<close> is the name of
  the table.
\<close>

section \<open>Schemas as JSON\<close>

fun column_type_int :: "column_type \<Rightarrow> nat" where
  "column_type_int INT_C = 0"
| "column_type_int FLOAT_C = 1"
| "column_type_int VARCHAR_C = 2"
| "column_type_int CHAR_C = 3"
| "column_type_int UNKNOWN_C = 4"

text \<open>A number that stands for no enumerator is outside the model.\<close>

definition int_column_type :: "int \<Rightarrow> column_type res" where
  "int_column_type n =
     (if n = 0 then Inr INT_C else if n = 1 then Inr FLOAT_C else if n = 2 then Inr VARCHAR_C
      else if n = 3 then Inr CHAR_C else if n = 4 then Inr UNKNOWN_C else Inl Bad_Conversion)"

definition column_to_json :: "column \<Rightarrow> json res" where
  "column_to_json c =
     andthen (json_insert ''name'' (JString (col_name c)) (init_base JSON_OBJECT)) (\<lambda>v.
     andthen (json_insert ''type'' (json_of_uint (column_type_int (col_type c))) v) (\<lambda>v.
     json_insert ''size'' (json_of_uint (unat (col_size c))) v))"

definition column_from_json :: "json \<Rightarrow> column \<Rightarrow> column res" where
  "column_from_json v c =
     andthen (require (judge_type JSON_OBJECT v) Assert_Failed) (\<lambda>_.
     andthen (as_object v) (\<lambda>obj.
     andthen (require (object_has ''name'' obj \<and> object_has ''type'' obj \<and> object_has ''size'' obj) Assert_Failed) (\<lambda>_.
     andthen (object_at ''name'' obj) (\<lambda>name_v.
     andthen (object_at ''type'' obj) (\<lambda>type_v.
     andthen (object_at ''size'' obj) (\<lambda>size_v.
     andthen (require (judge_type JSON_STRING name_v \<and> judge_type JSON_NUMBER type_v \<and> judge_type JSON_NUMBER size_v)
               Assert_Failed) (\<lambda>_.
     andthen (andthen (as_number type_v) double_to_int) (\<lambda>type_int.
     andthen (as_string name_v) (\<lambda>name.
     andthen (andthen (as_number size_v) double_to_size) (\<lambda>size1.
     andthen (int_column_type type_int) (\<lambda>ty.
     Inr (c\<lparr>col_name := name, col_size := size1, col_type := ty\<rparr>))))))))))))"

definition schema_to_json :: "schema \<Rightarrow> json res" where
  "schema_to_json s =
     andthen (each (\<lambda>c cols. andthen (column_to_json c) (\<lambda>x. json_push_back x cols)) (columns s) (init_base JSON_ARRAY))
       (\<lambda>cols. json_insert ''columns'' cols (init_base JSON_OBJECT))"

definition column_blank :: column where
  "column_blank = \<lparr>col_type = UNKNOWN_C, col_name = [], col_size = 0\<rparr>"

definition schema_from_json :: "json \<Rightarrow> schema \<Rightarrow> schema res" where
  "schema_from_json v s =
     andthen (require (judge_type JSON_OBJECT v) Assert_Failed) (\<lambda>_.
     andthen (json_at ''columns'' v) (\<lambda>cols.
     andthen (as_array cols) (\<lambda>array.
     each (\<lambda>col s. andthen (column_from_json col column_blank) (\<lambda>c. Inr (s\<lparr>columns := columns s @ [c]\<rparr>))) array s)))"

section \<open>Files\<close>

text \<open>The names a path of the program stands for: a leading \<open>./\<close> is the working directory.\<close>

function normal_path :: "string \<Rightarrow> string" where
  "normal_path s = (if take 2 s = ''./'' then normal_path (drop 2 s) else s)"
  by pat_completeness auto
termination
  by (relation "measure length") (auto dest!: arg_cong [of _ _ length])

declare normal_path.simps [simp del]

type_synonym files = "string \<Rightarrow> bytes option"

definition file_at :: "string \<Rightarrow> files \<Rightarrow> bytes option" where
  "file_at name fs = fs (normal_path name)"

definition file_put :: "string \<Rightarrow> bytes option \<Rightarrow> files \<Rightarrow> files" where
  "file_put name content fs = fs(normal_path name := content)"

definition json_of_file :: "char \<Rightarrow> string \<Rightarrow> files \<Rightarrow> json option res" where
  "json_of_file junk name fs = json_file_read junk (map_option vector2string (file_at name fs))"

definition json_to_file :: "string \<Rightarrow> json \<Rightarrow> files \<Rightarrow> files res" where
  "json_to_file name v fs = andthen (json_file_write v) (\<lambda>text. Inr (file_put name (Some (string2vector text)) fs))"

section \<open>The storage manager\<close>

type_synonym storage_manager = "(string \<times> pool) list"

definition db_name :: "string \<Rightarrow> string" where
  "db_name table = table @ ''.db''"

text \<open>\<open>new TableHeap{db_name}\<close> opens the file, and creates one that does not exist.\<close>

definition heap_new :: "string \<Rightarrow> files \<Rightarrow> (pool \<times> files) res" where
  "heap_new name fs =
     andthen (heap_open (file_at name fs)) (\<lambda>bp. Inr (bp, file_put name (Some (db_file (bp_disk bp))) fs))"

text \<open>Its destructor closes a pool that is still open; the file has then what the pool wrote.\<close>

definition heap_destroy :: "string \<Rightarrow> pool \<Rightarrow> files \<Rightarrow> files res" where
  "heap_destroy name bp fs =
     andthen (if \<not> bp_closed bp then pool_close bp else Inr bp) (\<lambda>bp.
     Inr (file_put name (Some (db_file (bp_disk bp))) fs))"

definition stm_create_table :: "string \<Rightarrow> storage_manager \<Rightarrow> files \<Rightarrow> (storage_manager \<times> files) res" where
  "stm_create_table table stm fs =
     andthen (require (map_find table stm = None) Assert_Failed) (\<lambda>_.
     andthen (heap_new (db_name table) fs) (\<lambda>(th, fs).
     Inr (map_emplace table th stm, fs)))"

definition stm_drop_table :: "string \<Rightarrow> storage_manager \<Rightarrow> files \<Rightarrow> (storage_manager \<times> files) res" where
  "stm_drop_table table stm fs =
     andthen (case map_find table stm of
                Some th \<Rightarrow> heap_destroy (db_name table) th fs
              | None \<Rightarrow> Inr fs) (\<lambda>fs.
     Inr (map_erase table stm, file_put (db_name table) None fs))"

definition stm_get_table :: "string \<Rightarrow> storage_manager \<Rightarrow> pool option" where
  "stm_get_table table stm = map_find table stm"

text \<open>The destructor closes every heap and then destroys it.\<close>

definition stm_close_heap :: "string \<times> pool \<Rightarrow> files \<Rightarrow> files res" where
  "stm_close_heap e fs = andthen (heap_close (snd e)) (\<lambda>bp. heap_destroy (db_name (fst e)) bp fs)"

definition stm_destroy :: "storage_manager \<Rightarrow> files \<Rightarrow> files res" where
  "stm_destroy stm fs = each stm_close_heap stm fs"

section \<open>The catalog\<close>

record table =
  tb_name :: string
  tb_schema :: schema

record catalog =
  ct_tables :: "(string \<times> table) list"
  ct_stm :: storage_manager
  ct_base_dir :: string
  ct_files :: files

definition catalog_blank :: "string \<Rightarrow> files \<Rightarrow> catalog" where
  "catalog_blank base fs = \<lparr>ct_tables = [], ct_stm = [], ct_base_dir = base, ct_files = fs\<rparr>"

definition cat_create_table :: "string \<Rightarrow> column list \<Rightarrow> catalog \<Rightarrow> catalog res" where
  "cat_create_table table_name cols c =
     (let t = \<lparr>tb_name = table_name, tb_schema = \<lparr>columns = cols\<rparr>\<rparr>;
          c = c\<lparr>ct_tables := map_emplace table_name t (ct_tables c)\<rparr> in
      andthen (stm_create_table table_name (ct_stm c) (ct_files c)) (\<lambda>(stm, fs).
      Inr (c\<lparr>ct_stm := stm, ct_files := fs\<rparr>)))"

definition cat_has_table :: "string \<Rightarrow> catalog \<Rightarrow> bool" where
  "cat_has_table table_name c \<longleftrightarrow> map_find table_name (ct_tables c) \<noteq> None"

definition cat_get_table :: "string \<Rightarrow> catalog \<Rightarrow> table option" where
  "cat_get_table table_name c = map_find table_name (ct_tables c)"

definition cat_drop_table :: "string \<Rightarrow> catalog \<Rightarrow> catalog res" where
  "cat_drop_table table_name c =
     andthen (require (cat_has_table table_name c) Assert_Failed) (\<lambda>_.
     let c = c\<lparr>ct_tables := map_erase table_name (ct_tables c)\<rparr>;
         fs = file_put (table_name @ ''.json'') None (ct_files c) in
     andthen (stm_drop_table table_name (ct_stm c) fs) (\<lambda>(stm, fs).
     Inr (c\<lparr>ct_stm := stm, ct_files := fs\<rparr>)))"

text \<open>The heap of a table after a call on it.\<close>

definition put_heap :: "string \<Rightarrow> pool \<Rightarrow> catalog \<Rightarrow> catalog" where
  "put_heap table bp c = c\<lparr>ct_stm := map_assign table bp (ct_stm c)\<rparr>"

text \<open>A new scanner of a table; none when the table has no heap. Its constructor drops the code of \<open>init\<close>.\<close>

definition cat_scanner :: "string \<Rightarrow> catalog \<Rightarrow> (scanner option \<times> catalog) res" where
  "cat_scanner table c =
     (case stm_get_table table (ct_stm c) of
        None \<Rightarrow> Inr (None, c)
      | Some heap \<Rightarrow> andthen (heap_scanner heap) (\<lambda>(_, sc, bp). Inr (Some sc, put_heap table bp c)))"

definition tables_name :: "catalog \<Rightarrow> string list" where
  "tables_name c = map fst (ct_tables c)"

text \<open>
  \<open>is_json\<close>: the pattern is the base directory, a slash, word characters, any character and \<open>json\<close>.
  In the base directory only the dot is special here: it matches any character but a line end. The
  loop that copies the name ends at a dot and does not look for the end of the text.
\<close>

definition regex_any :: "char \<Rightarrow> bool" where
  "regex_any c \<longleftrightarrow> c \<noteq> CHR 0x0A \<and> c \<noteq> CHR 0x0D"

definition word_char :: "char \<Rightarrow> bool" where
  "word_char c \<longleftrightarrow>
     is_digit c \<or> char_between (CHR ''a'') (CHR ''z'') c \<or> char_between (CHR ''A'') (CHR ''Z'') c \<or> c = CHR ''_''"

definition base_matches :: "string \<Rightarrow> string \<Rightarrow> bool" where
  "base_matches base s \<longleftrightarrow> list_all2 (\<lambda>b c. if b = CHR ''.'' then regex_any c else c = b) base s"

definition json_pattern :: "string \<Rightarrow> string \<Rightarrow> bool" where
  "json_pattern base file \<longleftrightarrow>
     (let n = length base; m = length file in
      n + 7 \<le> m \<and> base_matches base (take n file) \<and> file ! n = CHR ''/'' \<and>
      list_all word_char (take (m - n - 6) (drop (n + 1) file)) \<and>
      regex_any (file ! (m - 5)) \<and> drop (m - 4) file = ''json'')"

definition name_from :: "string \<Rightarrow> string res" where
  "name_from s = (if CHR ''.'' \<in> set s then Inr (takeWhile (\<lambda>ch. ch \<noteq> CHR ''.'') s) else Inl Out_Of_Bounds)"

definition is_json :: "string \<Rightarrow> string \<Rightarrow> string option res" where
  "is_json base file =
     (if \<not> json_pattern base file then Inr None
      else andthen (name_from (drop (length base + 1) file)) (\<lambda>table_name. Inr (Some table_name)))"

text \<open>One file of the directory, in \<open>init\<close>; \<open>junk\<close> is the character behind the text that was read.\<close>

definition init_file :: "char \<Rightarrow> string \<Rightarrow> catalog \<Rightarrow> catalog res" where
  "init_file junk filename c =
     andthen (is_json (ct_base_dir c) filename) (\<lambda>r.
     case r of
       None \<Rightarrow> Inr c
     | Some table_name \<Rightarrow>
         andthen (heap_new (db_name table_name) (ct_files c)) (\<lambda>(heap, fs).
         let c = c\<lparr>ct_files := fs, ct_stm := map_emplace table_name heap (ct_stm c)\<rparr> in
         andthen (json_of_file junk filename (ct_files c)) (\<lambda>r.
         case r of
           None \<Rightarrow> Inl Uncaught_Exception
         | Some table_meta \<Rightarrow>
             andthen (schema_from_json table_meta \<lparr>columns = []\<rparr>) (\<lambda>schema.
             Inr (c\<lparr>ct_tables := map_emplace table_name \<lparr>tb_name = table_name, tb_schema = schema\<rparr> (ct_tables c)\<rparr>)))))"

text \<open>\<open>Catalog(base_dir)\<close>; \<open>listing\<close> are the regular files below the directory, as the iterator yields them.\<close>

definition catalog_init :: "string \<Rightarrow> string list \<Rightarrow> char \<Rightarrow> files \<Rightarrow> catalog res" where
  "catalog_init base listing junk fs = each (init_file junk) listing (catalog_blank base fs)"

definition save_table :: "string \<Rightarrow> string \<times> table \<Rightarrow> files \<Rightarrow> files res" where
  "save_table base e fs =
     andthen (schema_to_json (tb_schema (snd e))) (\<lambda>val.
     json_to_file (base @ ''/'' @ fst e @ ''.json'') val fs)"

definition catalog_close :: "catalog \<Rightarrow> files res" where
  "catalog_close c = each (save_table (ct_base_dir c)) (ct_tables c) (ct_files c)"

text \<open>The destructor: the metadata, then the members, of which the storage manager closes its heaps.\<close>

definition catalog_destroy :: "catalog \<Rightarrow> files res" where
  "catalog_destroy c = andthen (catalog_close c) (stm_destroy (ct_stm c))"

end
