(* ===== verification/Catalog_Restart.thy ===== *)
theory Catalog_Restart
  imports Catalog Pool_Properties
begin

text \<open>
  A catalog that is destroyed and set up again from its files: the metadata goes through JSON and a
  file, the heaps through their pages. The lemmas follow the loops of \<open>close\<close>, of the destructor of the
  storage manager, and of \<open>init\<close>.
\<close>

section \<open>Schemas through JSON\<close>

text \<open>What the writer keeps: names without quotes, backslashes and white space, sizes a double represents.\<close>

definition column_storable :: "column \<Rightarrow> bool" where
  "column_storable c \<longleftrightarrow> plain_text (col_name c) \<and> unat (col_size c) < 2 ^ 53"

definition schema_storable :: "schema \<Rightarrow> bool" where
  "schema_storable s \<longleftrightarrow> list_all column_storable (columns s)"

definition column_json :: "column \<Rightarrow> json" where
  "column_json c =
     JObject [(''name'', JString (col_name c)), (''size'', json_of_uint (unat (col_size c))),
              (''type'', json_of_uint (column_type_int (col_type c)))]"

lemma column_to_json_is: "column_to_json c = Inr (column_json c)"
  by (simp add: column_to_json_def json_insert_def as_object_def object_insert_def column_json_def)

lemma column_type_int_small: "column_type_int t < 5"
  by (cases t) simp_all

lemma column_json_ok:
  assumes "column_storable c"
  shows "json_ok (column_json c)" "json_plain (column_json c)"
proof -
  have "column_type_int (col_type c) < 2 ^ 53" using column_type_int_small [of "col_type c"] by simp
  with assms show "json_plain (column_json c)"
    by (auto simp: column_json_def column_storable_def whole_number_def json_of_uint_def plain_text_def is_space_def)
qed (simp add: column_json_def json_of_uint_def)

lemma int_column_type_back: "int_column_type (int (column_type_int t)) = Inr t"
  by (cases t) (simp_all add: int_column_type_def)

lemma column_from_json_back:
  assumes "column_storable c"
  shows "column_from_json (column_json c) column_blank = Inr c"
proof -
  have "column_type_int (col_type c) < 2 ^ 31" using column_type_int_small [of "col_type c"] by simp
  note * = double_to_int_exact [OF this] int_column_type_back
  have "double_to_size (double_of_nat (unat (col_size c))) = Inr (col_size c)"
    using assms double_to_size_exact [of "unat (col_size c)"] by (simp add: column_storable_def)
  with * show ?thesis
    by (simp add: column_from_json_def column_json_def json_of_uint_def judge_type_def as_object_def object_has_def
        object_at_def map_at_def map_find_def as_number_def as_string_def)
qed

definition schema_json :: "schema \<Rightarrow> json_object" where
  "schema_json s = [(''columns'', JArray (map column_json (columns s)))]"

lemma schema_to_json_is: "schema_to_json s = Inr (JObject (schema_json s))"
proof -
  have "each (\<lambda>c cols. andthen (column_to_json c) (\<lambda>x. json_push_back x cols)) cs (JArray acc) =
      Inr (JArray (acc @ map column_json cs))" for cs acc
    by (induction cs arbitrary: acc)
      (simp_all add: column_to_json_is json_push_back_def as_array_def array_push_back_def)
  from this [of "columns s" "[]"] show ?thesis
    by (simp add: schema_to_json_def json_insert_def as_object_def object_insert_def schema_json_def)
qed

lemma schema_json_ok:
  assumes "schema_storable s"
  shows "json_ok (JObject (schema_json s))" "json_plain (JObject (schema_json s))"
  using assms column_json_ok
  by (auto simp: schema_json_def schema_storable_def list_all_iff plain_text_def is_space_def)

lemma schema_from_json_back:
  assumes "schema_storable s"
  shows "schema_from_json (JObject (schema_json s)) \<lparr>columns = []\<rparr> = Inr s"
proof -
  have "list_all column_storable cs \<Longrightarrow>
      each (\<lambda>col s. andthen (column_from_json col column_blank) (\<lambda>c. Inr (s\<lparr>columns := columns s @ [c]\<rparr>)))
        (map column_json cs) s0 = Inr (s0\<lparr>columns := columns s0 @ cs\<rparr>)" for cs and s0 :: schema
    by (induction cs arbitrary: s0) (simp_all add: column_from_json_back)
  with assms show ?thesis
    by (cases s) (simp add: schema_from_json_def schema_json_def judge_type_def json_at_def as_object_def object_at_def
      map_at_def map_find_def as_array_def schema_storable_def)
qed

section \<open>Names and files\<close>

definition word_name :: "string \<Rightarrow> bool" where
  "word_name n \<longleftrightarrow> n \<noteq> [] \<and> list_all word_char n"

lemma normal_path_dot [simp]: "normal_path (''./'' @ s) = normal_path s"
  by (subst normal_path.simps) simp

lemma word_char_dot: "word_char c \<Longrightarrow> c \<noteq> CHR ''.''"
  by (auto simp: word_char_def is_digit_def char_between_def)

lemma normal_path_name: "word_name n \<Longrightarrow> normal_path (n @ s) = n @ s"
  by (subst normal_path.simps) (cases n; auto simp: word_name_def dest: word_char_dot)

definition meta_name :: "string \<Rightarrow> string" where
  "meta_name n = n @ ''.json''"

lemma name_from_word: "list_all word_char n \<Longrightarrow> name_from (n @ CHR ''.'' # r) = Inr n"
proof -
  assume "list_all word_char n"
  then have "\<forall>ch \<in> set n. ch \<noteq> CHR ''.''" by (auto simp: list_all_iff dest: word_char_dot)
  then show ?thesis by (simp add: name_from_def)
qed

lemma is_json_meta: "word_name n \<Longrightarrow> is_json ''.'' (''./'' @ meta_name n) = Inr (Some n)"
proof -
  assume n: "word_name n"
  have "json_pattern ''.'' (''./'' @ meta_name n)"
    using n by (cases n)
      (auto simp: json_pattern_def Let_def meta_name_def base_matches_def regex_any_def word_name_def nth_append)
  with n show ?thesis by (simp add: is_json_def meta_name_def word_name_def name_from_word)
qed

lemma json_pattern_last:
  assumes "json_pattern base p"
  shows "last p = CHR ''n''"
proof -
  have "drop (length p - 4) p = ''json''" "length p - 4 < length p"
    using assms by (auto simp: json_pattern_def Let_def)
  from last_drop [OF this(2)] this(1) show ?thesis by simp
qed

lemma is_json_no: "\<not> json_pattern ''.'' p \<Longrightarrow> is_json ''.'' p = Inr None"
  by (simp add: is_json_def)

lemma file_names:
  assumes "word_name n" "word_name m"
  shows "meta_name n = meta_name m \<longleftrightarrow> n = m" "db_name n = db_name m \<longleftrightarrow> n = m" "meta_name n \<noteq> db_name m"
    "db_name m \<noteq> meta_name n"
proof -
  have "last (meta_name n) \<noteq> last (db_name m)" by (simp add: meta_name_def db_name_def)
  then show "meta_name n \<noteq> db_name m" "db_name m \<noteq> meta_name n" by auto
qed (simp_all add: meta_name_def db_name_def)

lemma file_at_names:
  assumes "word_name n"
  shows "file_at (db_name n) fs = fs (db_name n)" "file_at (''./'' @ meta_name n) fs = fs (meta_name n)"
    "file_put (db_name n) x fs = fs(db_name n := x)" "file_put (''./'' @ meta_name n) x fs = fs(meta_name n := x)"
  using assms by (simp_all add: file_at_def file_put_def db_name_def meta_name_def normal_path_name del: append_Cons)

section \<open>Saving\<close>

text \<open>The text of the metadata of a table.\<close>

definition meta_text :: "schema \<Rightarrow> bytes" where
  "meta_text s = string2vector (pson_print_value (JObject (schema_json s)))"

lemma save_tables:
  assumes "list_all (\<lambda>e. word_name (fst e)) ts" "distinct (map fst ts)"
  shows "each (save_table ''.'') ts fs =
    Inr (\<lambda>p. case map_of (map (\<lambda>e. (meta_name (fst e), meta_text (tb_schema (snd e)))) ts) p of
              Some t \<Rightarrow> Some t | None \<Rightarrow> fs p)"
  using assms
proof (induction ts arbitrary: fs)
  case (Cons e ts)
  let ?f = "\<lambda>ts p. map_of (map (\<lambda>e. (meta_name (fst e), meta_text (tb_schema (snd e)))) ts) p"
  have w: "word_name (fst e)" using Cons.prems by simp
  have "save_table ''.'' e fs = Inr (fs(meta_name (fst e) := Some (meta_text (tb_schema (snd e)))))"
    using file_at_names(4) [OF w]
    by (simp add: save_table_def schema_to_json_is json_to_file_def json_file_write_def json_print_def as_object_def
        meta_text_def meta_name_def)
  moreover have "?f ts (meta_name (fst e)) = None"
    using Cons.prems w by (auto simp: map_of_eq_None_iff list_all_iff file_names(1) image_iff)
  ultimately show ?case using Cons by (auto simp: fun_eq_iff split: option.split)
qed simp

lemma meta_text_read:
  assumes "schema_storable s" "word_name n" "fs (meta_name n) = Some (meta_text s)"
  shows "json_of_file junk (''./'' @ meta_name n) fs = Inr (Some (JObject (schema_json s)))"
proof -
  have "json_file_write (JObject (schema_json s)) = Inr (pson_print_value (JObject (schema_json s)))"
    by (simp add: json_file_write_def json_print_def as_object_def)
  from json_file_read_back [OF schema_json_ok [OF assms(1)] this] show ?thesis
    by (simp only: json_of_file_def file_at_names(2) [OF assms(2)] assms(3) meta_text_def option.map
        vector2string_string2vector)
qed

text \<open>The heaps.\<close>

definition heap_closable :: "pool \<Rightarrow> bool" where
  "heap_closable bp \<longleftrightarrow>
     (\<exists>S. heap_at S bp) \<and> \<not> bp_closed bp \<and> unat (next_pid (bp_disk bp)) \<le> BFP_MAX_PAGE_NUM"

text \<open>A heap of 16 frames that nobody uses, with the pages \<open>ps\<close>.\<close>

definition fresh_heap :: "bytes option list list \<Rightarrow> pool \<Rightarrow> bool" where
  "fresh_heap ps bp \<longleftrightarrow> heap_ok bp \<and> \<not> bp_closed bp \<and> length (bp_pages bp) = 16 \<and> heap_pages bp = ps"

definition closed_file :: "pool \<Rightarrow> bytes" where
  "closed_file bp = (case pool_close bp of Inr bp' \<Rightarrow> db_file (bp_disk bp') | Inl _ \<Rightarrow> [])"

lemma heap_closable_reopens:
  assumes "heap_closable bp"
  shows "\<exists>bp' bp''. pool_close bp = Inr bp' \<and> bp_closed bp' \<and> db_file (bp_disk bp') = closed_file bp \<and>
    heap_open (Some (closed_file bp)) = Inr bp'' \<and> fresh_heap (heap_pages bp) bp''"
  using reopened [where bp = bp and m = 16] assms
  by (fastforce simp: heap_closable_def heap_open_def closed_file_def fresh_heap_def)

lemma close_heaps:
  assumes "list_all (\<lambda>e. word_name (fst e) \<and> heap_closable (snd e)) hs" "distinct (map fst hs)"
  shows "stm_destroy hs fs =
    Inr (\<lambda>p. case map_of (map (\<lambda>e. (db_name (fst e), closed_file (snd e))) hs) p of Some t \<Rightarrow> Some t | None \<Rightarrow> fs p)"
  using assms
proof (induction hs arbitrary: fs)
  case (Cons e hs)
  let ?f = "\<lambda>ts p. map_of (map (\<lambda>e. (db_name (fst e), closed_file (snd e))) ts) p"
  have w: "word_name (fst e)" using Cons.prems by simp
  from heap_closable_reopens [of "snd e"] Cons.prems obtain bp' where
    "pool_close (snd e) = Inr bp'" "bp_closed bp'" "db_file (bp_disk bp') = closed_file (snd e)" by auto
  then have "stm_close_heap e fs = Inr (fs(db_name (fst e) := Some (closed_file (snd e))))"
    using file_at_names(3) [OF w] by (simp add: stm_close_heap_def heap_close_def heap_destroy_def)
  moreover have "?f hs (db_name (fst e)) = None"
    using Cons.prems w by (auto simp: map_of_eq_None_iff list_all_iff file_names(2) image_iff)
  ultimately show ?case using Cons by (auto simp: stm_destroy_def fun_eq_iff split: option.split)
qed (simp add: stm_destroy_def)

section \<open>Loading\<close>

text \<open>The files of a table are there, with a schema and the pages of a heap.\<close>

definition table_files :: "char \<Rightarrow> (string \<Rightarrow> schema) \<Rightarrow> (string \<Rightarrow> bytes option list list) \<Rightarrow> string \<Rightarrow> files \<Rightarrow> bool" where
  "table_files junk sch ss n fs \<longleftrightarrow> word_name n \<and>
     (\<exists>v. json_of_file junk (''./'' @ meta_name n) fs = Inr (Some v) \<and> schema_from_json v \<lparr>columns = []\<rparr> = Inr (sch n)) \<and>
     (\<exists>bp. heap_open (fs (db_name n)) = Inr bp \<and> fresh_heap (ss n) bp)"

lemma table_files_other:
  assumes "table_files junk sch ss n fs" "word_name m" "m \<noteq> n"
  shows "table_files junk sch ss n (fs(db_name m := x))"
proof -
  have n: "word_name n" using assms(1) by (simp add: table_files_def)
  with assms(2,3) have "meta_name n \<noteq> db_name m" "db_name n \<noteq> db_name m"
    using file_names [of n m] by simp_all
  then have "(fs(db_name m := x)) (meta_name n) = fs (meta_name n)" "(fs(db_name m := x)) (db_name n) = fs (db_name n)"
    by simp_all
  with assms(1) n show ?thesis by (simp only: table_files_def json_of_file_def file_at_names(2) [OF n])
qed

lemma init_table:
  assumes f: "table_files junk sch ss n (ct_files c)" and base: "ct_base_dir c = ''.''"
  shows "\<exists>bp x. init_file junk (''./'' @ meta_name n) c =
      Inr (c\<lparr>ct_tables := map_emplace n \<lparr>tb_name = n, tb_schema = sch n\<rparr> (ct_tables c),
             ct_stm := map_emplace n bp (ct_stm c), ct_files := (ct_files c)(db_name n := x)\<rparr>) \<and>
    fresh_heap (ss n) bp"
proof -
  from f obtain v bp where
    w: "word_name n" and v: "json_of_file junk (''./'' @ meta_name n) (ct_files c) = Inr (Some v)"
      "schema_from_json v \<lparr>columns = []\<rparr> = Inr (sch n)"
    and bp: "heap_open (ct_files c (db_name n)) = Inr bp" "fresh_heap (ss n) bp"
    by (auto simp: table_files_def)
  let ?x = "Some (db_file (bp_disk bp))"
  have "heap_new (db_name n) (ct_files c) = Inr (bp, (ct_files c)(db_name n := ?x))"
    using bp(1) by (simp add: heap_new_def file_at_names [OF w])
  moreover have "json_of_file junk (''./'' @ meta_name n) ((ct_files c)(db_name n := ?x)) = Inr (Some v)"
    using v(1) file_names(3) [OF w w] by (simp only: json_of_file_def file_at_names(2) [OF w] fun_upd_apply if_False)
  ultimately show ?thesis
    using v(2) bp(2) is_json_meta [OF w] base
    by (intro exI [of _ bp] exI [of _ ?x]) (simp add: init_file_def Let_def del: append_Cons)
qed

text \<open>The loop over the files: each table of the listing appears, nothing else changes.\<close>

definition loaded :: "char \<Rightarrow> (string \<Rightarrow> schema) \<Rightarrow> (string \<Rightarrow> bytes option list list) \<Rightarrow> string set \<Rightarrow> catalog \<Rightarrow> catalog \<Rightarrow> bool" where
  "loaded junk sch ss N c c' \<longleftrightarrow> map_sorted (ct_tables c') \<and> map_sorted (ct_stm c') \<and>
     ct_base_dir c' = ct_base_dir c \<and> (\<forall>p. ct_files c' p \<noteq> None \<longrightarrow> ct_files c p \<noteq> None \<or> (\<exists>n \<in> N. p = db_name n)) \<and>
     (\<forall>n. map_find n (ct_tables c') = (if n \<in> N then Some \<lparr>tb_name = n, tb_schema = sch n\<rparr> else map_find n (ct_tables c))) \<and>
     (\<forall>n. if n \<in> N then \<exists>bp. map_find n (ct_stm c') = Some bp \<and> fresh_heap (ss n) bp
          else map_find n (ct_stm c') = map_find n (ct_stm c))"

lemma loaded_heap:
  assumes "loaded junk sch ss N c c'" "n \<in> N"
  shows "\<exists>bp. map_find n (ct_stm c') = Some bp \<and> fresh_heap (ss n) bp"
proof -
  have "if n \<in> N then \<exists>bp. map_find n (ct_stm c') = Some bp \<and> fresh_heap (ss n) bp
      else map_find n (ct_stm c') = map_find n (ct_stm c)"
    using assms(1) unfolding loaded_def by (elim conjE) (rule spec)
  with assms(2) show ?thesis by simp
qed

lemma loaded_other: "loaded junk sch ss N c c' \<Longrightarrow> n \<notin> N \<Longrightarrow> map_find n (ct_stm c') = map_find n (ct_stm c)"
  unfolding loaded_def by (elim conjE) metis

text \<open>The file of one table: it is loaded, and the files of the other tables are left.\<close>

lemma init_one:
  assumes "ct_base_dir c = ''.''" "map_sorted (ct_tables c)" "map_sorted (ct_stm c)" "table_files junk sch ss n (ct_files c)"
    and "map_find n (ct_tables c) = None" "map_find n (ct_stm c) = None"
  obtains c1 where "init_file junk (''./'' @ meta_name n) c = Inr c1" "ct_base_dir c1 = ''.''" "map_sorted (ct_tables c1)"
    "map_sorted (ct_stm c1)"
    "\<And>m. m \<noteq> n \<Longrightarrow> table_files junk sch ss m (ct_files c) \<Longrightarrow> table_files junk sch ss m (ct_files c1) \<and>
       map_find m (ct_tables c1) = map_find m (ct_tables c) \<and> map_find m (ct_stm c1) = map_find m (ct_stm c)"
    "\<And>N c'. n \<in> N \<Longrightarrow> loaded junk sch ss (N - {n}) c1 c' \<Longrightarrow> loaded junk sch ss N c c'"
proof -
  from init_table [of junk sch ss n c] assms(1,4) obtain bp x where
    i: "init_file junk (''./'' @ meta_name n) c = Inr (c\<lparr>ct_tables := map_emplace n \<lparr>tb_name = n, tb_schema = sch n\<rparr> (ct_tables c),
           ct_stm := map_emplace n bp (ct_stm c), ct_files := (ct_files c)(db_name n := x)\<rparr>)"
      "fresh_heap (ss n) bp" using assms(5,6) by blast
  show ?thesis
  proof (rule that [OF i(1)])
    fix m
    assume "m \<noteq> n" "table_files junk sch ss m (ct_files c)"
    with assms(2-4) table_files_other [of junk sch ss m "ct_files c" n x]
    show "table_files junk sch ss m (ct_files (c\<lparr>ct_tables := map_emplace n \<lparr>tb_name = n, tb_schema = sch n\<rparr> (ct_tables c),
           ct_stm := map_emplace n bp (ct_stm c), ct_files := (ct_files c)(db_name n := x)\<rparr>)) \<and>
       map_find m (ct_tables (c\<lparr>ct_tables := map_emplace n \<lparr>tb_name = n, tb_schema = sch n\<rparr> (ct_tables c),
           ct_stm := map_emplace n bp (ct_stm c), ct_files := (ct_files c)(db_name n := x)\<rparr>)) = map_find m (ct_tables c) \<and>
       map_find m (ct_stm (c\<lparr>ct_tables := map_emplace n \<lparr>tb_name = n, tb_schema = sch n\<rparr> (ct_tables c),
           ct_stm := map_emplace n bp (ct_stm c), ct_files := (ct_files c)(db_name n := x)\<rparr>)) = map_find m (ct_stm c)"
      by (auto simp: map_find_emplace table_files_def)
  qed (use assms i(2) map_emplace_sorted in \<open>auto simp: loaded_def map_find_emplace table_files_def\<close>)
qed

lemma other_file_skipped: "\<not> json_pattern ''.'' p \<Longrightarrow> word_name n \<Longrightarrow> p \<noteq> ''./'' @ meta_name n"
  using is_json_meta [of n] is_json_no [of p] by auto

lemma init_loop:
  assumes "ct_base_dir c = ''.''" "map_sorted (ct_tables c)" "map_sorted (ct_stm c)" "distinct listing"
    and "\<And>p. p \<in> set listing \<Longrightarrow> json_pattern ''.'' p \<Longrightarrow> \<exists>n. p = ''./'' @ meta_name n \<and> n \<in> N"
    and "\<And>n. n \<in> N \<Longrightarrow> ''./'' @ meta_name n \<in> set listing \<and> table_files junk sch ss n (ct_files c) \<and>
       map_find n (ct_tables c) = None \<and> map_find n (ct_stm c) = None"
  shows "\<exists>c'. each (init_file junk) listing c = Inr c' \<and> loaded junk sch ss N c c'"
  using assms
proof (induction listing arbitrary: c N)
  case Nil
  then show ?case by (auto simp: loaded_def)
next
  case (Cons p listing)
  show ?case
  proof (cases "json_pattern ''.'' p")
    case False
    then have "init_file junk p c = Inr c" using Cons.prems(1) by (simp add: init_file_def is_json_no)
    moreover have "''./'' @ meta_name n \<in> set listing" if "n \<in> N" for n
      using Cons.prems(6) [OF that] other_file_skipped [OF False, of n] by (auto simp: table_files_def)
    ultimately show ?thesis using Cons.IH [of c N] Cons.prems by auto
  next
    case True
    with Cons.prems(5) obtain n where n: "p = ''./'' @ meta_name n" "n \<in> N" by auto
    note f = Cons.prems(6) [OF n(2)]
    from init_one [OF Cons.prems(1-3), of junk sch ss n] f obtain c1 where
      i: "init_file junk p c = Inr c1" "ct_base_dir c1 = ''.''" "map_sorted (ct_tables c1)" "map_sorted (ct_stm c1)"
      and o: "\<And>m. m \<noteq> n \<Longrightarrow> table_files junk sch ss m (ct_files c) \<Longrightarrow> table_files junk sch ss m (ct_files c1) \<and>
         map_find m (ct_tables c1) = map_find m (ct_tables c) \<and> map_find m (ct_stm c1) = map_find m (ct_stm c)"
      and l: "\<And>N c'. n \<in> N \<Longrightarrow> loaded junk sch ss (N - {n}) c1 c' \<Longrightarrow> loaded junk sch ss N c c'"
      unfolding n(1) by blast
    have "\<exists>c'. each (init_file junk) listing c1 = Inr c' \<and> loaded junk sch ss (N - {n}) c1 c'"
    proof (rule Cons.IH)
      fix q
      assume q: "q \<in> set listing" "json_pattern ''.'' q"
      with Cons.prems(5) [of q] obtain m where "q = ''./'' @ meta_name m" "m \<in> N" by auto
      moreover from this have "m \<noteq> n" using q(1) Cons.prems(4) n(1) by auto
      ultimately show "\<exists>m. q = ''./'' @ meta_name m \<and> m \<in> N - {n}" by blast
    next
      fix m
      assume m: "m \<in> N - {n}"
      then have fm: "''./'' @ meta_name m \<in> set (p # listing)" "table_files junk sch ss m (ct_files c)"
        "map_find m (ct_tables c) = None" "map_find m (ct_stm c) = None" using Cons.prems(6) [of m] by auto
      then have "p \<noteq> ''./'' @ meta_name m" using m f file_names(1) [of n m] by (auto simp: n(1) table_files_def)
      with o [of m] m fm show "''./'' @ meta_name m \<in> set listing \<and> table_files junk sch ss m (ct_files c1) \<and>
          map_find m (ct_tables c1) = None \<and> map_find m (ct_stm c1) = None" by simp
    qed (use Cons.prems(4) i in simp_all)
    with i(1) l [OF n(2)] show ?thesis by auto
  qed
qed

section \<open>A restart\<close>

text \<open>A map in order is determined by what it finds.\<close>

lemma map_sorted_head: "map_sorted ((k, v) # m) \<Longrightarrow> k \<notin> fst ` set m"
  using string_compare_zero [of k k] by auto

lemma map_sorted_unique:
  "map_sorted m \<Longrightarrow> map_sorted m' \<Longrightarrow> (\<And>k. map_find k m = map_find k m') \<Longrightarrow> m = m'"
proof (induction m arbitrary: m')
  case Nil
  then have "map_find (fst (hd m')) m' = None" by (metis map_find_def map_of.simps(1))
  then show ?case by (cases m') (auto simp: map_find_def)
next
  case (Cons e m)
  obtain k v where e: "e = (k, v)" by (cases e)
  from Cons.prems(3) [of k] obtain k' v' r where m': "m' = (k', v') # r"
    by (cases m') (auto simp: map_find_def e)
  have "k' = k"
  proof (rule ccontr)
    assume ne: "k' \<noteq> k"
    have "map_find k m' = Some v" "map_find k' (e # m) = Some v'"
      using Cons.prems(3) [of k] Cons.prems(3) [of k'] e m' by (simp_all add: map_find_def)
    then have "(k, v) \<in> set r" "(k', v') \<in> set m"
      using ne e m' by (auto simp: map_find_def dest: map_of_SomeD split: if_splits)
    then have "k \<in> fst ` set r" "k' \<in> fst ` set m" by force+
    then have "string_compare k k' < 0" "string_compare k' k < 0"
      using Cons.prems(1,2) unfolding e m' map_sorted.simps by blast+
    with string_compare_swap [of k k'] show False by simp
  qed
  moreover from this Cons.prems(3) [of k] e m' have "v' = v" by (simp add: map_find_def)
  moreover have "map_find x m = map_find x r" for x
  proof (cases "x = k")
    case True
    have "k \<notin> fst ` set m" "k \<notin> fst ` set r"
      using map_sorted_head [of k v m] map_sorted_head [of k' v' r] Cons.prems(1,2) e m' \<open>k' = k\<close> by simp_all
    then have "map_of m k = None" "map_of r k = None" by (simp_all only: map_of_eq_None_iff not_False_eq_True)
    with True show ?thesis by (simp add: map_find_def)
  next
    case False
    with Cons.prems(3) [of x] e m' \<open>k' = k\<close> show ?thesis by (simp add: map_find_def)
  qed
  ultimately show ?case using Cons.IH [of r] Cons.prems(1,2) e m' by simp
qed

lemma map_sorted_distinct: "map_sorted m \<Longrightarrow> distinct (map fst m)"
proof (induction m)
  case (Cons e m)
  obtain k v where e: "e = (k, v)" by (cases e)
  from map_sorted_head [of k v m] Cons e show ?case by simp
qed simp

lemma sorted_in: "map_sorted m \<Longrightarrow> (k, v) \<in> set m \<longleftrightarrow> map_find k m = Some v"
  using map_sorted_distinct [of m] by (auto simp: map_find_def dest: map_of_SomeD)

text \<open>
  A catalog of the working directory that can be closed: its tables have the names of identifiers and
  storable schemas, each table has a heap, and there is no other file the catalog would take for the
  metadata of a table.
\<close>

definition catalog_closable :: "catalog \<Rightarrow> bool" where
  "catalog_closable c \<longleftrightarrow> ct_base_dir c = ''.'' \<and> map_sorted (ct_tables c) \<and> map_sorted (ct_stm c) \<and>
     (\<forall>(n, t) \<in> set (ct_tables c). word_name n \<and> tb_name t = n \<and> schema_storable (tb_schema t) \<and>
        map_find n (ct_stm c) \<noteq> None) \<and>
     (\<forall>(n, bp) \<in> set (ct_stm c). heap_closable bp \<and> map_find n (ct_tables c) \<noteq> None) \<and>
     (\<forall>p. ct_files c p \<noteq> None \<longrightarrow> json_pattern ''.'' (''./'' @ p) \<longrightarrow> (\<exists>n. map_find n (ct_tables c) \<noteq> None \<and> p = meta_name n))"

text \<open>The listing of the files of the working directory.\<close>

definition listing_of :: "files \<Rightarrow> string list \<Rightarrow> bool" where
  "listing_of fs listing \<longleftrightarrow> distinct listing \<and> set listing = (\<lambda>p. ''./'' @ p) ` {p. fs p \<noteq> None}"

lemma map_of_names:
  assumes "map_sorted m" "(n, x) \<in> set m" "\<And>k y. (k, y) \<in> set m \<Longrightarrow> f k = f n \<longleftrightarrow> k = n"
  shows "map_of (map (\<lambda>e. (f (fst e), g (snd e))) m) (f n) = Some (g x)"
proof -
  have "distinct (map fst m)" by (rule map_sorted_distinct [OF assms(1)])
  then show ?thesis using assms(2,3)
  proof (induction m)
    case (Cons e m)
    show ?case
    proof (cases "e = (n, x)")
      case False
      with Cons.prems(2) have m: "(n, x) \<in> set m" by simp
      then have "n \<in> fst ` set m" by force
      then have "fst e \<noteq> n" using Cons.prems(1) by auto
      then have "f (fst e) \<noteq> f n" using Cons.prems(3) [of "fst e" "snd e"] by simp
      moreover have "map_of (map (\<lambda>e. (f (fst e), g (snd e))) m) (f n) = Some (g x)"
      proof (rule Cons.IH [OF _ m])
        show "f k = f n \<longleftrightarrow> k = n" if "(k, y) \<in> set m" for k y
          by (rule Cons.prems(3) [of k y]) (simp add: that)
      qed (use Cons.prems(1) in simp)
      ultimately show ?thesis by simp
    qed simp
  qed simp
qed

lemma map_of_other:
  "(\<And>k y. (k, y) \<in> set m \<Longrightarrow> f k \<noteq> p) \<Longrightarrow> map_of (map (\<lambda>e. (f (fst e), g (snd e))) m) p = None"
  by (force simp: map_of_eq_None_iff)

text \<open>The files of a catalog that has been destroyed.\<close>

definition closed_as :: "catalog \<Rightarrow> files \<Rightarrow> bool" where
  "closed_as c fs \<longleftrightarrow>
    (\<forall>n t. map_find n (ct_tables c) = Some t \<longrightarrow> fs (meta_name n) = Some (meta_text (tb_schema t))) \<and>
    (\<forall>n bp. map_find n (ct_stm c) = Some bp \<longrightarrow> fs (db_name n) = Some (closed_file bp)) \<and>
    (\<forall>p. (\<forall>n. map_find n (ct_tables c) \<noteq> None \<longrightarrow> p \<noteq> meta_name n \<and> p \<noteq> db_name n) \<longrightarrow> fs p = ct_files c p)"

lemma closed_files:
  assumes "catalog_closable c"
  shows "\<exists>fs. catalog_destroy c = Inr fs \<and> closed_as c fs"
proof -
  let ?ts = "ct_tables c" and ?hs = "ct_stm c"
  have c: "ct_base_dir c = ''.''" "map_sorted ?ts" "map_sorted ?hs"
    and ts: "\<And>n t. (n, t) \<in> set ?ts \<Longrightarrow> word_name n"
    and hs: "\<And>n bp. (n, bp) \<in> set ?hs \<Longrightarrow> heap_closable bp \<and> map_find n ?ts \<noteq> None"
    using assms by (auto simp: catalog_closable_def)
  have hw: "word_name n" if "(n, bp) \<in> set ?hs" for n bp
    using hs [OF that] ts sorted_in [OF c(2)] by blast
  define f1 where "f1 = (\<lambda>p. case map_of (map (\<lambda>e. (meta_name (fst e), meta_text (tb_schema (snd e)))) ?ts) p of
      Some t \<Rightarrow> Some t | None \<Rightarrow> ct_files c p)"
  define fs where "fs = (\<lambda>p. case map_of (map (\<lambda>e. (db_name (fst e), closed_file (snd e))) ?hs) p of
      Some t \<Rightarrow> Some t | None \<Rightarrow> f1 p)"
  have "list_all (\<lambda>e. word_name (fst e)) ?ts" using ts by (auto simp: list_all_iff)
  then have "catalog_close c = Inr f1"
    using save_tables [OF _ map_sorted_distinct [OF c(2)]] c(1) by (simp add: catalog_close_def f1_def)
  moreover have "list_all (\<lambda>e. word_name (fst e) \<and> heap_closable (snd e)) ?hs" using hs hw by (auto simp: list_all_iff)
  then have "stm_destroy ?hs f1 = Inr fs"
    using close_heaps [OF _ map_sorted_distinct [OF c(3)]] by (simp add: fs_def)
  ultimately have d: "catalog_destroy c = Inr fs" by (simp add: catalog_destroy_def)
  have "fs (meta_name n) = Some (meta_text (tb_schema t))" if "map_find n ?ts = Some t" for n t
  proof -
    have nt: "(n, t) \<in> set ?ts" using that sorted_in [OF c(2)] by simp
    then have "map_of (map (\<lambda>e. (meta_name (fst e), meta_text (tb_schema (snd e)))) ?ts) (meta_name n) =
        Some (meta_text (tb_schema t))"
      using ts file_names(1) by (intro map_of_names [OF c(2), where f = meta_name and g = "\<lambda>t. meta_text (tb_schema t)"]) blast+
    moreover have "map_of (map (\<lambda>e. (db_name (fst e), closed_file (snd e))) ?hs) (meta_name n) = None"
      using hw ts [OF nt] file_names(4) by (intro map_of_other) blast
    ultimately show ?thesis by (simp add: fs_def f1_def)
  qed
  moreover have "fs (db_name n) = Some (closed_file bp)" if "map_find n ?hs = Some bp" for n bp
  proof -
    have "(n, bp) \<in> set ?hs" using that sorted_in [OF c(3)] by simp
    then have "map_of (map (\<lambda>e. (db_name (fst e), closed_file (snd e))) ?hs) (db_name n) = Some (closed_file bp)"
      using hw file_names(2) by (intro map_of_names [OF c(3)]) blast+
    then show ?thesis by (simp add: fs_def)
  qed
  moreover have "fs p = ct_files c p" if "\<forall>n. map_find n ?ts \<noteq> None \<longrightarrow> p \<noteq> meta_name n \<and> p \<noteq> db_name n" for p
  proof -
    have "map_of (map (\<lambda>e. (db_name (fst e), closed_file (snd e))) ?hs) p = None"
      using hs that by (intro map_of_other) blast
    moreover have "map_of (map (\<lambda>e. (meta_name (fst e), meta_text (tb_schema (snd e)))) ?ts) p = None"
      using that sorted_in [OF c(2)]
      by (intro map_of_other [where f = meta_name and g = "\<lambda>t. meta_text (tb_schema t)"]) fastforce
    ultimately show ?thesis by (simp add: fs_def f1_def)
  qed
  ultimately show ?thesis using d unfolding closed_as_def by blast
qed

lemma catalog_closableD:
  assumes "catalog_closable c"
  shows "map_sorted (ct_tables c)" "map_sorted (ct_stm c)"
    "map_find n (ct_tables c) = Some t \<Longrightarrow>
       word_name n \<and> tb_name t = n \<and> schema_storable (tb_schema t) \<and> map_find n (ct_stm c) \<noteq> None"
    "map_find n (ct_stm c) = Some bp \<Longrightarrow> heap_closable bp \<and> map_find n (ct_tables c) \<noteq> None"
    "ct_files c p \<noteq> None \<Longrightarrow> json_pattern ''.'' (''./'' @ p) \<Longrightarrow> \<exists>n. map_find n (ct_tables c) \<noteq> None \<and> p = meta_name n"
  using assms sorted_in [of "ct_tables c"] sorted_in [of "ct_stm c"] unfolding catalog_closable_def by blast+

lemma closed_asD:
  assumes "closed_as c fs"
  shows "map_find n (ct_tables c) = Some t \<Longrightarrow> fs (meta_name n) = Some (meta_text (tb_schema t))"
    "map_find n (ct_stm c) = Some bp \<Longrightarrow> fs (db_name n) = Some (closed_file bp)"
    "(\<And>n. map_find n (ct_tables c) \<noteq> None \<Longrightarrow> p \<noteq> meta_name n \<and> p \<noteq> db_name n) \<Longrightarrow> fs p = ct_files c p"
  using assms unfolding closed_as_def by blast+

text \<open>What there is to be found again.\<close>

definition saved_names :: "catalog \<Rightarrow> string set" where
  "saved_names c = {n. map_find n (ct_tables c) \<noteq> None}"

definition saved_schema :: "catalog \<Rightarrow> string \<Rightarrow> schema" where
  "saved_schema c n = tb_schema (the (map_find n (ct_tables c)))"

definition saved_pages :: "catalog \<Rightarrow> string \<Rightarrow> bytes option list list" where
  "saved_pages c n = heap_pages (the (map_find n (ct_stm c)))"

lemma closed_table_files:
  assumes cl: "catalog_closable c" and fs: "closed_as c fs" and n: "n \<in> saved_names c"
  shows "table_files junk (saved_schema c) (saved_pages c) n fs"
proof -
  obtain t where t: "map_find n (ct_tables c) = Some t" using n by (auto simp: saved_names_def)
  note tt = catalog_closableD(3) [OF cl t]
  then obtain bp where bp: "map_find n (ct_stm c) = Some bp" by blast
  have "json_of_file junk (''./'' @ meta_name n) fs = Inr (Some (JObject (schema_json (tb_schema t))))"
    using meta_text_read tt closed_asD(1) [OF fs t] by blast
  moreover have "schema_from_json (JObject (schema_json (tb_schema t))) \<lparr>columns = []\<rparr> = Inr (tb_schema t)"
    using tt schema_from_json_back by blast
  moreover have "\<exists>bp'. heap_open (fs (db_name n)) = Inr bp' \<and> fresh_heap (heap_pages bp) bp'"
    using heap_closable_reopens [of bp] catalog_closableD(4) [OF cl bp] closed_asD(2) [OF fs bp] by auto
  ultimately show ?thesis using tt t bp by (simp add: table_files_def saved_schema_def saved_pages_def)
qed

text \<open>A file that looks like metadata belongs to a table.\<close>

lemma closed_meta_files:
  assumes cl: "catalog_closable c" and fs: "closed_as c fs" and p: "fs p \<noteq> None" "json_pattern ''.'' (''./'' @ p)"
  shows "\<exists>n. p = meta_name n \<and> n \<in> saved_names c"
proof (cases "\<forall>n. map_find n (ct_tables c) \<noteq> None \<longrightarrow> p \<noteq> meta_name n \<and> p \<noteq> db_name n")
  case True
  then have "ct_files c p \<noteq> None" using closed_asD(3) [OF fs, of p] p(1) by metis
  from catalog_closableD(5) [OF cl this p(2)] show ?thesis by (auto simp: saved_names_def)
next
  case False
  moreover have "p \<noteq> db_name n" for n using json_pattern_last [OF p(2)] by (auto simp: db_name_def)
  ultimately show ?thesis by (auto simp: saved_names_def)
qed

lemma closed_init:
  assumes cl: "catalog_closable c" and fs: "closed_as c fs" and l: "listing_of fs listing"
  shows "\<exists>c'. catalog_init ''.'' listing junk fs = Inr c' \<and>
    loaded junk (saved_schema c) (saved_pages c) (saved_names c) (catalog_blank ''.'' fs) c'"
  unfolding catalog_init_def
proof (rule init_loop)
  fix p
  assume p: "p \<in> set listing" "json_pattern ''.'' p"
  then obtain q where "p = ''./'' @ q" "fs q \<noteq> None" using l by (auto simp: listing_of_def)
  with closed_meta_files [OF cl fs, of q] p(2) show "\<exists>n. p = ''./'' @ meta_name n \<and> n \<in> saved_names c" by auto
next
  fix n
  assume n: "n \<in> saved_names c"
  then obtain t where "map_find n (ct_tables c) = Some t" by (auto simp: saved_names_def)
  from closed_asD(1) [OF fs this] have "''./'' @ meta_name n \<in> set listing" using l by (auto simp: listing_of_def)
  then show "''./'' @ meta_name n \<in> set listing \<and>
      table_files junk (saved_schema c) (saved_pages c) n (ct_files (catalog_blank ''.'' fs)) \<and>
      map_find n (ct_tables (catalog_blank ''.'' fs)) = None \<and> map_find n (ct_stm (catalog_blank ''.'' fs)) = None"
    using closed_table_files [OF cl fs n] by (simp add: catalog_blank_def map_find_def)
qed (use l in \<open>simp_all add: catalog_blank_def listing_of_def\<close>)

lemma loaded_tables:
  assumes cl: "catalog_closable c"
    and l: "loaded junk (saved_schema c) (saved_pages c) (saved_names c) (catalog_blank ''.'' fs) c'"
  shows "ct_tables c' = ct_tables c"
proof (rule map_sorted_unique)
  fix n
  show "map_find n (ct_tables c') = map_find n (ct_tables c)"
  proof (cases "n \<in> saved_names c")
    case True
    then obtain t where t: "map_find n (ct_tables c) = Some t" by (auto simp: saved_names_def)
    with l True catalog_closableD(3) [OF cl t] show ?thesis by (cases t) (simp add: loaded_def saved_schema_def)
  next
    case False
    with l show ?thesis by (simp add: loaded_def saved_names_def catalog_blank_def map_find_def)
  qed
qed (use l catalog_closableD(1) [OF cl] in \<open>simp_all add: loaded_def\<close>)

lemma loaded_pages:
  assumes "catalog_closable c" "map_find n (ct_stm c) = Some bp"
    and "loaded junk (saved_schema c) (saved_pages c) (saved_names c) (catalog_blank ''.'' fs) c'"
  shows "\<exists>bp'. map_find n (ct_stm c') = Some bp' \<and> fresh_heap (heap_pages bp) bp'"
proof -
  have "n \<in> saved_names c" using catalog_closableD(4) [OF assms(1,2)] by (simp add: saved_names_def)
  moreover have "saved_pages c n = heap_pages bp" by (simp add: saved_pages_def assms(2))
  ultimately show ?thesis using loaded_heap [OF assms(3)] by metis
qed

lemma catalog_restarts:
  assumes "catalog_closable c"
  shows "\<exists>fs. catalog_destroy c = Inr fs \<and>
    (\<forall>listing junk. listing_of fs listing \<longrightarrow>
       (\<exists>c'. catalog_init ''.'' listing junk fs = Inr c' \<and> ct_tables c' = ct_tables c \<and>
          (\<forall>n bp. map_find n (ct_stm c) = Some bp \<longrightarrow>
             (\<exists>bp'. map_find n (ct_stm c') = Some bp' \<and> fresh_heap (heap_pages bp) bp'))))"
proof -
  from closed_files [OF assms] obtain fs where "catalog_destroy c = Inr fs" "closed_as c fs" by blast
  with closed_init [OF assms] loaded_tables [OF assms] loaded_pages [OF assms] show ?thesis by meson
qed

end
