(* ===== verification/Expression.thy ===== *)
theory Expression
  imports Tuple
begin

text \<open>
  The expressions of \<open>src/expression/\<close>: a tree of the classes, evaluated on a tuple and its schema. A
  comparison yields the integer 1 for true and -1 for false, a filter the conjunction of its
  comparisons.
\<close>

section \<open>Trees and their values\<close>

datatype comparsion_type = EQUAL | NOT_EQUAL | LESS_THAN | GREATER_THAN

definition convert :: "cond_op \<Rightarrow> comparsion_type option" where
  "convert op =
     (case op of GREATER \<Rightarrow> Some GREATER_THAN | NOT_EQ \<Rightarrow> Some NOT_EQUAL | SMALLER \<Rightarrow> Some LESS_THAN
      | EQ \<Rightarrow> Some EQUAL | _ \<Rightarrow> None)"

datatype expr =
    Column_Value nat
  | Constant sql_value
  | Comparsion expr expr comparsion_type
  | Filter "expr list"
  | Projection "expr list"

definition compare_result :: "comparsion_type \<Rightarrow> int \<Rightarrow> sql_value" where
  "compare_result type compare_res =
     (case type of
        EQUAL \<Rightarrow> if compare_res \<noteq> 0 then value_int (- 1) else value_int 1
      | NOT_EQUAL \<Rightarrow> if compare_res = 0 then value_int (- 1) else value_int 1
      | LESS_THAN \<Rightarrow> if compare_res \<ge> 0 then value_int (- 1) else value_int 1
      | GREATER_THAN \<Rightarrow> if compare_res \<le> 0 then value_int (- 1) else value_int 1)"

text \<open>One child of a filter has been evaluated; a false one ends the loop.\<close>

definition filter_step :: "sql_value \<Rightarrow> (sql_value \<Rightarrow> sql_value res) \<Rightarrow> sql_value res" where
  "filter_step v later =
     (if v_type v \<noteq> INTS then Inl Assert_Failed
      else andthen (any_long (v_any v)) (\<lambda>n. if n = - 1 then Inr v else later v))"

fun evaluate :: "expr \<Rightarrow> tuple \<Rightarrow> schema \<Rightarrow> sql_value res"
  and evaluate_filter :: "expr list \<Rightarrow> sql_value \<Rightarrow> tuple \<Rightarrow> schema \<Rightarrow> sql_value res" where
  "evaluate (Column_Value idx) t s = value_at t s idx"
| "evaluate (Constant val) t s = Inr val"
| "evaluate (Comparsion left right type) t s =
     andthen (evaluate left t s) (\<lambda>a.
     andthen (evaluate right t s) (\<lambda>b.
     andthen (value_compare a b) (\<lambda>compare_res. Inr (compare_result type compare_res))))"
| "evaluate (Filter children) t s = evaluate_filter children (value_int 1) t s"
| "evaluate (Projection children) t s = Inl Assert_Failed"
| "evaluate_filter [] v t s = Inr v"
| "evaluate_filter (child # children) v t s =
     andthen (evaluate child t s) (\<lambda>v. filter_step v (\<lambda>v. evaluate_filter children v t s))"

section \<open>Well-typed expressions\<close>

text \<open>
  The type of an expression over a schema. Floats are left out: their comparison may leave the range
  of \<open>int\<close>. An integer constant has to stay away from the ends of \<open>long\<close>, so that its difference to a
  column does not overflow.
\<close>

inductive expr_typed :: "schema \<Rightarrow> expr \<Rightarrow> attr_type \<Rightarrow> bool" for s where
  typed_int: "idx < length (columns s) \<Longrightarrow> col_type (columns s ! idx) = INT_C \<Longrightarrow> expr_typed s (Column_Value idx) INTS"
| typed_text: "idx < length (columns s) \<Longrightarrow> col_type (columns s ! idx) = VARCHAR_C \<or> col_type (columns s ! idx) = CHAR_C \<Longrightarrow>
     expr_typed s (Column_Value idx) STRING"
| typed_long: "\<bar>n\<bar> < 2 ^ 62 \<Longrightarrow> expr_typed s (Constant (value_int n)) INTS"
| typed_string: "expr_typed s (Constant (value_string x)) STRING"
| typed_cmp: "expr_typed s l ty \<Longrightarrow> expr_typed s r ty \<Longrightarrow> expr_typed s (Comparsion l r k) INTS"
| typed_filter: "\<forall>e \<in> set es. expr_typed s e INTS \<Longrightarrow> expr_typed s (Filter es) INTS"

inductive_cases typed_cmpE: "expr_typed s (Comparsion l r k) ty"
inductive_cases typed_filterE: "expr_typed s (Filter es) ty"
inductive_cases typed_columnE: "expr_typed s (Column_Value i) ty"
inductive_cases typed_constE: "expr_typed s (Constant v) ty"

text \<open>The values of the types.\<close>

definition typed_value :: "sql_value \<Rightarrow> attr_type \<Rightarrow> bool" where
  "typed_value v ty \<longleftrightarrow>
     (ty = INTS \<and> (\<exists>n. v = value_int n \<and> \<bar>n\<bar> < 2 ^ 62)) \<or> (ty = STRING \<and> (\<exists>x. v = value_string x))"

lemma value_simps [simp]:
  "value_int m = value_int n \<longleftrightarrow> m = n" "value_string x = value_string y \<longleftrightarrow> x = y"
  "value_int m \<noteq> value_string x" "value_string x \<noteq> value_int m"
  by (simp_all add: value_int_def value_string_def)

lemma compare_result_cases: "compare_result k c = value_int 1 \<or> compare_result k c = value_int (- 1)"
  by (cases k) (auto simp: compare_result_def)

lemma compare_result_typed: "typed_value (compare_result k c) INTS"
  using compare_result_cases [of k c] by (auto simp: typed_value_def)

lemma compare_typed:
  assumes "typed_value a ty" "typed_value b ty"
  shows "\<exists>c. value_compare a b = Inr c"
proof -
  have "\<exists>c. value_compare (value_int m) (value_int n) = Inr c" if "\<bar>m\<bar> < 2 ^ 62" "\<bar>n\<bar> < 2 ^ 62" for m n :: int
  proof -
    have "- 4611686018427387904 < m" "m < 4611686018427387904" "- 4611686018427387904 < n" "n < 4611686018427387904"
      using that by (simp_all add: abs_less_iff)
    then have "long_range (m - n)" unfolding long_range_def by (auto simp: algebra_simps)
    then show ?thesis using compare_ints by blast
  qed
  then show ?thesis using assms compare_strings by (auto simp: typed_value_def)
qed

lemma cell_typed:
  assumes "row_ok vals s" "idx < length (columns s)" "expr_typed s (Column_Value idx) ty"
  shows "typed_value (vals ! idx) ty"
proof -
  have "cell_ok (vals ! idx) (columns s ! idx)"
    using assms(1,2) by (simp add: row_ok_def list_all2_conv_all_nth)
  with assms(3) show ?thesis
    by (auto elim!: typed_columnE cell_cases simp: typed_value_def int_range_def)
qed

text \<open>A filter over expressions that evaluate to integers stops at the first that is false.\<close>

lemma filter_progress:
  assumes "\<forall>e \<in> set es. \<exists>v. evaluate e t s = Inr v \<and> typed_value v INTS" "typed_value v0 INTS"
  shows "\<exists>v. evaluate_filter es v0 t s = Inr v \<and> typed_value v INTS"
  using assms
proof (induction es arbitrary: v0)
  case (Cons e es)
  then obtain n where "evaluate e t s = Inr (value_int n)" "\<bar>n\<bar> < 2 ^ 62"
    by (auto simp: typed_value_def)
  moreover from this have "typed_value (value_int n) INTS" by (simp add: typed_value_def)
  ultimately show ?case using Cons by (auto simp: filter_step_def value_int_def any_long_def)
qed simp

lemma evaluate_progress:
  assumes "expr_typed s e ty" "row_ok vals s" "t_data t = row_bytes vals s"
  shows "\<exists>v. evaluate e t s = Inr v \<and> typed_value v ty"
  using assms(1)
proof (induction rule: expr_typed.induct)
  case (typed_int idx)
  then show ?case
    using value_at_row [OF assms(2) _ assms(3)] cell_typed [OF assms(2)] expr_typed.typed_int by auto
next
  case (typed_text idx)
  then show ?case
    using value_at_row [OF assms(2) _ assms(3)] cell_typed [OF assms(2)] expr_typed.typed_text by auto
next
  case (typed_cmp l ty r k)
  then obtain a b where ab: "evaluate l t s = Inr a" "evaluate r t s = Inr b" "typed_value a ty" "typed_value b ty"
    by blast
  from compare_typed [OF ab(3,4)] obtain c where "value_compare a b = Inr c" by blast
  with ab compare_result_typed show ?case by simp
next
  case (typed_filter es)
  moreover have "typed_value (value_int 1) INTS" by (simp add: typed_value_def)
  ultimately show ?case using filter_progress [of es t s "value_int 1"] by simp
qed (simp_all add: typed_value_def)

section \<open>What a comparison decides\<close>

text \<open>The relation an operator stands for, on integers and on strings.\<close>

definition int_holds :: "comparsion_type \<Rightarrow> int \<Rightarrow> int \<Rightarrow> bool" where
  "int_holds k m n \<longleftrightarrow>
     (case k of EQUAL \<Rightarrow> m = n | NOT_EQUAL \<Rightarrow> m \<noteq> n | LESS_THAN \<Rightarrow> m < n | GREATER_THAN \<Rightarrow> m > n)"

definition truth :: "bool \<Rightarrow> sql_value" where
  "truth b = value_int (if b then 1 else - 1)"

lemma compare_result_int: "compare_result k (m - n) = truth (int_holds k m n)"
  by (cases k) (auto simp: compare_result_def truth_def int_holds_def)

lemma compare_result_string:
  "compare_result k (string_compare x y) = truth (int_holds k (string_compare x y) 0)"
  using compare_result_int [of k "string_compare x y" 0] by simp

lemma compare_column_int:
  assumes "value_at t s idx = Inr (value_int m)" "int_range (m - n)"
  shows "evaluate (Comparsion (Column_Value idx) (Constant (value_int n)) k) t s = Inr (truth (int_holds k m n))"
proof -
  have "long_range (m - n)" using assms(2) by (simp add: int_range_def long_range_def)
  then show ?thesis using assms compare_ints [of m n] by (simp add: to_int_id compare_result_int)
qed

text \<open>A filter is the conjunction of its children.\<close>

lemma filter_conj:
  assumes "list_all2 (\<lambda>e b. evaluate e t s = Inr (truth b)) es bs"
  shows "evaluate (Filter es) t s = Inr (truth (list_all id bs))"
proof -
  have "evaluate_filter es v0 t s = Inr (if bs = [] then v0 else truth (list_all id bs))" for v0
    using assms
    by (induction es bs arbitrary: v0 rule: list_all2_induct) (auto simp: filter_step_def truth_def value_int_def any_long_def)
  then show ?thesis by (auto simp: truth_def)
qed

end
