(* ===== verification/Data_Properties.thy ===== *)
theory Data_Properties
  imports Catalog_Restart Expression
begin

text \<open>
  The properties of the data below the executers: JSON texts and files, tuples, expressions, and the
  catalog across a restart, each with a concrete instance where it has hypotheses.
\<close>

section \<open>JSON\<close>

text \<open>C35: Parsing ends on every text: the parser comes back with a value or with a refusal, without leaving the text, and the bound of its recursion is never reached.\<close>

theorem json_parse_ends: "\<exists>r. json_parse d = Inr r"
  by (rule json_parse_total)

text \<open>C37: The string parser computes the plain function \<open>json_chars\<close> on the characters behind the opening quote: up to the closing quote every character stands for itself, except that a backslash comes back as two of them and swallows the character behind it. No escape sequence is decoded.\<close>

theorem json_string_plain:
  "\<exists>r off'. parse_string_row d off = Inr (r, off') \<and>
     (case json_chars (drop (off + 1) d) of
        None \<Rightarrow> r = None
      | Some (t, later) \<Rightarrow> r = Some t \<and> off' \<le> length d \<and> drop off' d = later)"
  using string_loop_chars [of d "off + 1" "[]"]
  by (auto simp: parse_string_row_def string_result_def split: option.splits)

text \<open>C36: What is written to a JSON file is read back but for the white space of its strings, which the reader drops (\<open>squeeze\<close>), whatever the indeterminate character it appends at the end: for objects whose numbers are natural numbers below 2^53 and whose strings have no quotes, backslashes or NULs - nothing is escaped - and whose keys are still in order, and different, without their white space. An object whose strings have no white space comes back as it was.\<close>

theorem json_file_roundtrip:
  assumes "json_writable (JObject ms)" "json_ok (squeeze (JObject ms))"
  shows "\<exists>text. json_file_write (JObject ms) = Inr text \<and>
    json_file_read junk (Some text) = Inr (Some (squeeze (JObject ms))) \<and>
    (json_plain (JObject ms) \<longrightarrow> squeeze (JObject ms) = JObject ms)"
  using json_file_squeezed [OF assms, of _ junk] plain_squeeze [of "JObject ms"]
  by (auto simp: json_file_write_def json_print_def as_object_def)

theorem json_file_roundtrip_witness:
  "\<exists>text. json_file_write (JObject [(''a'', JArray [JBool True, JNull, JString ''x y'']), (''b'', JNumber (double_of_nat 3))]) = Inr text \<and>
     json_file_read (CHR ''x'') (Some text) =
       Inr (Some (JObject [(''a'', JArray [JBool True, JNull, JString ''xy'']), (''b'', JNumber (double_of_nat 3))]))"
proof -
  let ?ms = "[(''a'', JArray [JBool True, JNull, JString ''x y'']), (''b'', JNumber (double_of_nat 3))]"
  have "whole_number (double_of_nat 3)" unfolding whole_number_def by (intro exI [of _ 3]) simp
  then have "json_writable (JObject ?ms)" by (simp add: raw_text_def)
  moreover have q: "squeeze (JObject ?ms) =
      JObject [(''a'', JArray [JBool True, JNull, JString ''xy'']), (''b'', JNumber (double_of_nat 3))]"
    by (simp add: is_space_def)
  moreover have "json_ok (squeeze (JObject ?ms))" unfolding q by simp
  ultimately show ?thesis using json_file_roundtrip [of ?ms "CHR ''x''"] by metis
qed

section \<open>Tuples\<close>

text \<open>C18: A row written by \<open>create_tuple\<close> is read back column by column by \<open>value_at\<close>: integers of an \<open>INT\<close> within 32 bits, floats, a \<open>VARCHAR\<close> of any length below 2^31, and a \<open>CHAR\<close> as long as its column.\<close>

theorem tuple_roundtrip:
  assumes "row_ok vals s" "i < length (columns s)"
  shows "\<exists>t. create_tuple vals s = Inr t \<and> value_at t s i = Inr (vals ! i)"
  using value_at_row [OF assms, of "tuple_new (row_bytes vals s)"]
  by (simp add: create_tuple_row [OF assms(1)] tuple_new_def)

definition sample_schema :: schema where
  "sample_schema =
     \<lparr>columns = [\<lparr>col_type = INT_C, col_name = ''id'', col_size = 0\<rparr>, \<lparr>col_type = VARCHAR_C, col_name = ''name'', col_size = 0\<rparr>,
       \<lparr>col_type = CHAR_C, col_name = ''code'', col_size = 2\<rparr>]\<rparr>"

theorem tuple_roundtrip_witness:
  "\<exists>t. create_tuple [value_int (- 7), value_string ''bob'', value_string ''xy''] sample_schema = Inr t \<and>
     value_at t sample_schema 2 = Inr (value_string ''xy'')"
proof -
  have "row_ok [value_int (- 7), value_string ''bob'', value_string ''xy''] sample_schema"
    by (auto simp: row_ok_def sample_schema_def cell_ok_def int_range_def)
  from tuple_roundtrip [OF this, of 2] show ?thesis by (simp add: sample_schema_def)
qed

text \<open>C40: A string shorter than its \<open>CHAR\<close> column is accepted and stored without padding, and the columns behind it cannot be read any more: reading the second column never gives a value.\<close>

theorem short_char_breaks_row:
  assumes "columns s = [\<lparr>col_type = CHAR_C, col_name = a, col_size = sz\<rparr>, \<lparr>col_type = INT_C, col_name = b, col_size = 0\<rparr>]"
    and "length x < unat sz" "unat sz < 2 ^ 63"
  shows "\<exists>t. create_tuple [value_string x, value_int m] s = Inr t \<and> (\<forall>v. value_at t s 1 \<noteq> Inr v)"
proof -
  let ?d = "string2vector x @ int_bytes m"
  have len: "length ?d = length x + 4" by (simp add: string2vector_def int_bytes_def)
  have "create_tuple [value_string x, value_int m] s = Inr (tuple_new ?d)"
    using assms(1)
    by (simp add: create_tuple_def tuple_append_def column_at_def tuple_check_def tuple_bytes_def value_string_def
        value_int_def any_string_def any_long_def)
  moreover have "value_at (tuple_new ?d) s 1 \<noteq> Inr v" for v
  proof -
    have "uint sz < 2 ^ 63" by (rule uint_below [OF assms(3)])
    moreover have "- (2 ^ 63) \<le> uint sz" by (rule order_trans [OF _ uint_ge_0]) simp
    ultimately have "sint sz = uint sz" unfolding sint_uint by (intro signed_take_bit_int_eq_self) simp_all
    then have "value_at (tuple_new ?d) s 1 =
        (if uint sz \<le> int (length ?d) then andthen (load_int ?d (unat sz)) (\<lambda>n. Inr (value_int n)) else Inl Assert_Failed)"
      using assms(1)
      by (simp add: value_at_def tuple_new_def skip_value_def skip_offset_def value_here_def init_value_def)
    moreover have "load_int ?d (unat sz) = Inl Out_Of_Bounds"
      using assms(2) len by (simp add: load_int_def load_def)
    ultimately show ?thesis by simp
  qed
  ultimately show ?thesis by blast
qed

theorem short_char_breaks_row_witness:
  "\<exists>s t. columns s = [\<lparr>col_type = CHAR_C, col_name = ''c'', col_size = 4\<rparr>, \<lparr>col_type = INT_C, col_name = ''n'', col_size = 0\<rparr>] \<and>
     create_tuple [value_string ''ab'', value_int 1] s = Inr t \<and> (\<forall>v. value_at t s 1 \<noteq> Inr v)"
proof -
  let ?s = "\<lparr>columns = [\<lparr>col_type = CHAR_C, col_name = ''c'', col_size = 4\<rparr>, \<lparr>col_type = INT_C, col_name = ''n'', col_size = 0\<rparr>]\<rparr>"
  have "columns ?s = [\<lparr>col_type = CHAR_C, col_name = ''c'', col_size = 4\<rparr>, \<lparr>col_type = INT_C, col_name = ''n'', col_size = 0\<rparr>]"
    by simp
  from short_char_breaks_row [OF this, of "''ab''" 1] show ?thesis by (intro exI [of _ ?s]) simp
qed

section \<open>Expressions\<close>

text \<open>C34: A well-typed expression evaluates on every row of its schema, without a fault, to a value of its type; the types are those of integer and text columns, of constants, and of the comparisons and filters over them.\<close>

theorem expression_progress:
  assumes "expr_typed s e ty" "row_ok vals s" "t_data t = row_bytes vals s"
  shows "\<exists>v. evaluate e t s = Inr v \<and> typed_value v ty"
  using assms by (rule evaluate_progress)

theorem expression_progress_witness:
  "\<exists>v. evaluate (Filter [Comparsion (Column_Value 0) (Constant (value_int 5)) GREATER_THAN])
       (tuple_new (row_bytes [value_int 7, value_string ''bob'', value_string ''xy''] sample_schema)) sample_schema = Inr v \<and>
     typed_value v INTS"
proof -
  have "row_ok [value_int 7, value_string ''bob'', value_string ''xy''] sample_schema"
    by (auto simp: row_ok_def sample_schema_def cell_ok_def int_range_def)
  moreover have "expr_typed sample_schema (Filter [Comparsion (Column_Value 0) (Constant (value_int 5)) GREATER_THAN]) INTS"
    by (rule typed_filter) (auto intro!: typed_cmp [of _ _ INTS] typed_int typed_long simp: sample_schema_def)
  ultimately show ?thesis by (intro expression_progress) (simp_all add: tuple_new_def)
qed

section \<open>The catalog\<close>

text \<open>C6: A catalog of the working directory that is destroyed and set up again from its files has the same tables with the same schemas, and every heap holds the records it held, page by page and in order, with all its pages free to be replaced again: for tables with the names of identifiers, column names without quotes or white space, and heaps that can be closed. Nothing is assumed of the order in which the files are listed, nor of the character the reader appends.\<close>

theorem restart_keeps_tables:
  assumes "catalog_closable c"
  shows "\<exists>fs. catalog_destroy c = Inr fs \<and>
    (\<forall>listing junk. listing_of fs listing \<longrightarrow>
       (\<exists>c'. catalog_init ''.'' listing junk fs = Inr c' \<and> ct_tables c' = ct_tables c \<and>
          (\<forall>n bp. map_find n (ct_stm c) = Some bp \<longrightarrow>
             (\<exists>bp'. map_find n (ct_stm c') = Some bp' \<and> heap_ok bp' \<and> heap_pages bp' = heap_pages bp))))"
  using catalog_restarts [OF assms] unfolding fresh_heap_def by meson

theorem restart_keeps_tables_witness:
  "\<exists>c fs c'. tables_name c = [''t''] \<and> catalog_destroy c = Inr fs \<and>
     catalog_init ''.'' [''./t.json'', ''./t.db''] (CHR ''x'') fs = Inr c' \<and> ct_tables c' = ct_tables c"
proof -
  from opened_pool [of 16] obtain bp where
    b: "heap_ok bp" "\<not> bp_closed bp" "unat (next_pid (bp_disk bp)) = 1" by auto
  let ?c = "\<lparr>ct_tables = [(''t'', \<lparr>tb_name = ''t'', tb_schema = sample_schema\<rparr>)], ct_stm = [(''t'', bp)],
      ct_base_dir = ''.'', ct_files = (\<lambda>_. None)\<rparr>"
  have w: "word_name ''t''" by (simp add: word_name_def word_char_def char_between_def)
  have "schema_storable sample_schema"
    by (simp add: schema_storable_def sample_schema_def column_storable_def plain_text_def is_space_def)
  moreover have "heap_closable bp" using b by (auto simp: heap_closable_def BFP_MAX_PAGE_NUM_def PAGE_SIZE_def)
  ultimately have cl: "catalog_closable ?c" using w by (simp add: catalog_closable_def map_find_def)
  from restart_keeps_tables [OF cl] obtain fs where
    d: "catalog_destroy ?c = Inr fs"
    and r: "\<forall>listing junk. listing_of fs listing \<longrightarrow>
       (\<exists>c'. catalog_init ''.'' listing junk fs = Inr c' \<and> ct_tables c' = ct_tables ?c \<and>
          (\<forall>n bp. map_find n (ct_stm ?c) = Some bp \<longrightarrow>
             (\<exists>bp'. map_find n (ct_stm c') = Some bp' \<and> heap_ok bp' \<and> heap_pages bp' = heap_pages bp)))" by blast
  from closed_files [OF cl] obtain fs2 where f2: "catalog_destroy ?c = Inr fs2" "closed_as ?c fs2" by blast
  have "fs2 = fs" using d f2(1) by simp
  with closed_asD(1,2) [OF f2(2), of "''t''"]
  have f: "fs ''t.json'' \<noteq> None" "fs ''t.db'' \<noteq> None" by (simp_all add: map_find_def meta_name_def db_name_def)
  have "fs p = None" if "p \<noteq> ''t.json''" "p \<noteq> ''t.db''" for p
  proof -
    have "n = ''t''" if "map_find n (ct_tables ?c) \<noteq> None" for n
      using that by (simp add: map_find_def split: if_splits)
    moreover have "p \<noteq> meta_name ''t''" "p \<noteq> db_name ''t''" using that by (simp_all add: meta_name_def db_name_def)
    ultimately have "fs2 p = ct_files ?c p" by (intro closed_asD(3) [OF f2(2)]) metis
    then show ?thesis by (simp add: \<open>fs2 = fs\<close>)
  qed
  then have "fs p \<noteq> None \<longleftrightarrow> p \<in> {''t.json'', ''t.db''}" for p
    using f by (cases "p = ''t.json''"; cases "p = ''t.db''") simp_all
  then have "{p. fs p \<noteq> None} = {''t.json'', ''t.db''}" by (simp only: Collect_mem_eq)
  then have "listing_of fs [''./t.json'', ''./t.db'']" by (simp add: listing_of_def)
  from r [rule_format, OF this, of "CHR ''x''"] obtain c' where
    "catalog_init ''.'' [''./t.json'', ''./t.db''] (CHR ''x'') fs = Inr c'" "ct_tables c' = ct_tables ?c" by blast
  with d show ?thesis by (intro exI [of _ ?c] exI [of _ fs] exI [of _ c']) (simp add: tables_name_def)
qed

end
