(* ===== verification/Executer.thy ===== *)
theory Executer
  imports Catalog Expression
begin

text \<open>
  The executers of \<open>src/execution/\<close>. An executer is a tree of the classes with their state; \<open>next\<close>
  yields the code, the tuple it was given, the executer and the catalog afterwards. What the catalog
  and a scanner point to is found by the name of the table.
\<close>

section \<open>Results\<close>

text \<open>\<open>type_\<close> is not initialised by the constructor.\<close>

record query_result =
  qr_type :: "query_type option"
  qr_msg :: string
  qr_rc :: rc
  qr_tuples :: "tuple list"
  qr_output_schema :: "schema option"

definition query_result_new :: query_result where
  "query_result_new = \<lparr>qr_type = None, qr_msg = [], qr_rc = SUCCESS, qr_tuples = [], qr_output_schema = None\<rparr>"

text \<open>The copy constructor and the assignment of a tuple leave the record id alone.\<close>

definition tuple_copy :: "tuple \<Rightarrow> tuple" where
  "tuple_copy other = tuple_new (t_data other)"

definition tuple_assign :: "tuple \<Rightarrow> tuple \<Rightarrow> tuple" where
  "tuple_assign self other = self\<lparr>t_data := t_data other\<rparr>"

section \<open>Executers\<close>

datatype executer =
    SeqScan_Exec string "scanner option" schema
  | Filter_Exec expr schema executer
  | Projection_Exec "expr list" schema executer
  | Insert_Exec string schema "sql_value list"
  | Create_Table_Exec string "column list"
  | Drop_Table_Exec string
  | Error_Exec rc

fun exec_schema :: "executer \<Rightarrow> schema option" where
  "exec_schema (SeqScan_Exec _ _ s) = Some s"
| "exec_schema (Filter_Exec _ s _) = Some s"
| "exec_schema (Projection_Exec _ s _) = Some s"
| "exec_schema _ = None"

definition child_schema :: "executer \<Rightarrow> schema res" where
  "child_schema ex = (case exec_schema ex of Some s \<Rightarrow> Inr s | None \<Rightarrow> Inl Null_Pointer)"

type_synonym next_result = "(rc \<times> tuple \<times> executer \<times> catalog) res"

definition seqscan_next :: "string \<Rightarrow> scanner option \<Rightarrow> schema \<Rightarrow> tuple \<Rightarrow> catalog \<Rightarrow> next_result" where
  "seqscan_next table scanner s t c =
     (case scanner of
        None \<Rightarrow> Inl Assert_Failed
      | Some sc \<Rightarrow>
          (case stm_get_table table (ct_stm c) of
             None \<Rightarrow> Inl Null_Pointer
           | Some heap \<Rightarrow>
               andthen (scanner_next rpage_get (rec_new []) rid_default sc heap) (\<lambda>(ok, record, rid, sc, heap).
               Inr (ok, if rc_success ok then t\<lparr>t_data := rc_data record, t_rid := rid\<rparr> else t,
                    SeqScan_Exec table (Some sc) s, put_heap table heap c))))"

text \<open>The answer of the heap is not looked at.\<close>

definition insert_next :: "string \<Rightarrow> schema \<Rightarrow> sql_value list \<Rightarrow> tuple \<Rightarrow> catalog \<Rightarrow> next_result" where
  "insert_next table s vals t c =
     andthen (create_tuple vals s) (\<lambda>tup.
     case stm_get_table table (ct_stm c) of
       None \<Rightarrow> Inl Assert_Failed
     | Some heap \<Rightarrow>
         andthen (heap_insert (rec_new (t_data tup)) heap) (\<lambda>(_, heap).
         Inr (OUT_OF_RANGE, t, Insert_Exec table s vals, put_heap table heap c)))"

text \<open>The columns are moved into the new table.\<close>

definition create_table_next :: "string \<Rightarrow> column list \<Rightarrow> tuple \<Rightarrow> catalog \<Rightarrow> next_result" where
  "create_table_next name cols t c =
     andthen (cat_create_table name cols c) (\<lambda>c. Inr (OUT_OF_RANGE, t, Create_Table_Exec name [], c))"

definition drop_table_next :: "string \<Rightarrow> tuple \<Rightarrow> catalog \<Rightarrow> next_result" where
  "drop_table_next name t c =
     (if \<not> cat_has_table name c then Inr (TABLE_NOT_EXISTED, t, Drop_Table_Exec name, c)
      else andthen (cat_drop_table name c) (\<lambda>c. Inr (OUT_OF_RANGE, t, Drop_Table_Exec name, c)))"

definition error_next :: "rc \<Rightarrow> tuple \<Rightarrow> catalog \<Rightarrow> next_result" where
  "error_next rc t c =
     andthen (require (\<not> rc_success rc) Assert_Failed) (\<lambda>_. Inr (rc, t, Error_Exec rc, c))"

text \<open>Whether the tuple passes the condition of a filter.\<close>

definition filter_passes :: "expr \<Rightarrow> tuple \<Rightarrow> schema \<Rightarrow> bool res" where
  "filter_passes e t s =
     andthen (evaluate e t s) (\<lambda>ok_value. andthen (any_long (v_any ok_value)) (\<lambda>n. Inr (n = 1)))"

definition evaluate_all :: "expr list \<Rightarrow> tuple \<Rightarrow> schema \<Rightarrow> sql_value list res" where
  "evaluate_all es t s = each (\<lambda>e values. andthen (evaluate e t s) (\<lambda>v. Inr (values @ [v]))) es []"

text \<open>The fuel bounds the depth of the tree and the rounds of the loop of a filter.\<close>

fun exec_next :: "nat \<Rightarrow> executer \<Rightarrow> tuple \<Rightarrow> catalog \<Rightarrow> next_result" where
  "exec_next 0 ex t c = Inl Out_Of_Fuel"
| "exec_next (Suc n) (SeqScan_Exec table scanner s) t c = seqscan_next table scanner s t c"
| "exec_next (Suc n) (Filter_Exec e s child) t c =
     andthen (exec_next n child t c) (\<lambda>(rc, t, child, c).
     if \<not> rc_success rc then Inr (rc, t, Filter_Exec e s child, c)
     else
       andthen (child_schema child) (\<lambda>cs.
       andthen (filter_passes e t cs) (\<lambda>ok.
       if ok then Inr (SUCCESS, t, Filter_Exec e s child, c)
       else exec_next n (Filter_Exec e s child) t c)))"
| "exec_next (Suc n) (Projection_Exec es s child) t c =
     andthen (exec_next n child (tuple_new []) c) (\<lambda>(rc, child_tuple, child, c).
     if \<not> rc_success rc then Inr (rc, t, Projection_Exec es s child, c)
     else
       andthen (child_schema child) (\<lambda>cs.
       andthen (evaluate_all es child_tuple cs) (\<lambda>values.
       andthen (create_tuple values s) (\<lambda>tup.
       Inr (SUCCESS, tuple_assign t tup, Projection_Exec es s child, c)))))"
| "exec_next (Suc n) (Insert_Exec table s vals) t c = insert_next table s vals t c"
| "exec_next (Suc n) (Create_Table_Exec name cols) t c = create_table_next name cols t c"
| "exec_next (Suc n) (Drop_Table_Exec name) t c = drop_table_next name t c"
| "exec_next (Suc n) (Error_Exec rc) t c = error_next rc t c"

text \<open>The destructor of an executer: a scan releases its page.\<close>

fun exec_destroy :: "executer \<Rightarrow> catalog \<Rightarrow> catalog res" where
  "exec_destroy (SeqScan_Exec table (Some sc) s) c =
     (case stm_get_table table (ct_stm c) of
        None \<Rightarrow> Inl Null_Pointer
      | Some heap \<Rightarrow> andthen (scanner_destroy sc heap) (\<lambda>heap. Inr (put_heap table heap c)))"
| "exec_destroy (Filter_Exec e s child) c = exec_destroy child c"
| "exec_destroy (Projection_Exec es s child) c = exec_destroy child c"
| "exec_destroy _ c = Inr c"

end
