(* ===== verification/Binder.thy ===== *)
theory Binder
  imports Executer Sql_Parser
begin

text \<open>
  The binder of \<open>src/binder/binder.hpp\<close>: a statement becomes an executer, or an error executer that
  carries the code; the query result that both fill in is threaded through.
\<close>

type_synonym bound = "(executer \<times> query_result \<times> catalog) res"

definition error_executer :: "rc \<Rightarrow> string \<Rightarrow> query_type \<Rightarrow> query_result \<Rightarrow> catalog \<Rightarrow> bound" where
  "error_executer rc msg type res c =
     Inr (Error_Exec rc, res\<lparr>qr_msg := msg, qr_rc := rc, qr_type := Some type\<rparr>, c)"

section \<open>Conditions\<close>

definition col_value_express :: "table \<Rightarrow> string \<Rightarrow> expr res" where
  "col_value_express t attr =
     (let idx = column_idx (tb_schema t) attr in
      if idx < 0 then Inl Assert_Failed else Inr (Column_Value (nat idx)))"

definition constant_express :: "sql_value \<Rightarrow> expr res" where
  "constant_express v = andthen (require (v_type v \<noteq> REL_ATTR) Assert_Failed) (\<lambda>_. Inr (Constant v))"

text \<open>The table that a column of a condition names is not looked at.\<close>

definition operand :: "table \<Rightarrow> sql_value \<Rightarrow> expr res" where
  "operand t v =
     (if v_type v = REL_ATTR then andthen (any_rel (v_any v)) (\<lambda>a. col_value_express t (ra_attribute a))
      else constant_express v)"

definition bind_condition :: "table \<Rightarrow> condition \<Rightarrow> expr list \<Rightarrow> expr list res" where
  "bind_condition t cnd children =
     andthen (operand t (c_left cnd)) (\<lambda>left.
     andthen (operand t (c_right cnd)) (\<lambda>right.
     case convert (c_op cnd) of
       None \<Rightarrow> Inl Assert_Failed
     | Some type \<Rightarrow> Inr (children @ [Comparsion left right type])))"

definition filter_executer :: "string \<Rightarrow> condition list \<Rightarrow> catalog \<Rightarrow> expr res" where
  "filter_executer table conds c =
     (case cat_get_table table c of
        None \<Rightarrow> Inl Assert_Failed
      | Some t \<Rightarrow> andthen (each (bind_condition t) conds []) (\<lambda>children. Inr (Filter children)))"

section \<open>Statements\<close>

text \<open>The columns of the select list; none when one does not exist.\<close>

fun bind_columns :: "schema \<Rightarrow> rel_attr list \<Rightarrow> nat list option" where
  "bind_columns s [] = Some []"
| "bind_columns s (attr # attrs) =
     (if ra_attribute attr = ''*''
      then map_option (append [0..<length (columns s)]) (bind_columns s attrs)
      else
        (let idx = column_idx s (ra_attribute attr) in
         if idx = - 1 then None else map_option (Cons (nat idx)) (bind_columns s attrs)))"

definition foreign_attr :: "string \<Rightarrow> rel_attr \<Rightarrow> bool" where
  "foreign_attr table attr \<longleftrightarrow> ra_table attr \<noteq> [] \<and> table \<noteq> ra_table attr"

text \<open>
  When a column does not exist, the scan that has been set up is not destroyed: its page stays pinned.
\<close>

definition bind_select :: "select_stmt \<Rightarrow> query_result \<Rightarrow> catalog \<Rightarrow> bound" where
  "bind_select stmt res c =
     (let res = res\<lparr>qr_type := Some SELECT_Q\<rparr> in
      if selist stmt = [] \<or> from_list stmt = [] then error_executer SYNTAX_ERROR [] SELECT_Q res c
      else if length (from_list stmt) > 1 then error_executer SYNTAX_ERROR ''Not support syntax'' SELECT_Q res c
      else
        (let table = hd (from_list stmt) in
         case find (foreign_attr table) (selist stmt) of
           Some attr \<Rightarrow> error_executer SYNTAX_ERROR (ra_table attr @ '' can't bind to '' @ table) SELECT_Q res c
         | None \<Rightarrow>
             (case cat_get_table table c of
                None \<Rightarrow> error_executer TABLE_NOT_EXISTED [] SELECT_Q res c
              | Some t \<Rightarrow>
                  andthen (cat_scanner table c) (\<lambda>(sc, c).
                  let s = tb_schema t; scan_exec = SeqScan_Exec table sc s in
                  andthen
                    (if cond_list stmt \<noteq> []
                     then andthen (filter_executer table (cond_list stmt) c) (\<lambda>e. Inr (Filter_Exec e s scan_exec))
                     else Inr scan_exec) (\<lambda>child.
                  case bind_columns s (selist stmt) of
                    None \<Rightarrow> error_executer COLUMN_NOT_EXIST [] SELECT_Q res c
                  | Some idxs \<Rightarrow>
                      andthen (copy_schema s idxs) (\<lambda>output_schema.
                      Inr (Projection_Exec (map Column_Value idxs) output_schema child,
                           res\<lparr>qr_output_schema := Some output_schema\<rparr>, c)))))))"

fun types_match :: "sql_value list \<Rightarrow> column list \<Rightarrow> bool" where
  "types_match (v # vs) (c # cs) = (if \<not> check_attr_type (v_type v) (col_type c) then False else types_match vs cs)"
| "types_match _ _ = True"

definition bind_insert :: "insert_stmt \<Rightarrow> query_result \<Rightarrow> catalog \<Rightarrow> bound" where
  "bind_insert stmt res c =
     (let res = res\<lparr>qr_type := Some INSERT_Q\<rparr> in
      case cat_get_table (i_table_name stmt) c of
        None \<Rightarrow> error_executer TABLE_NOT_EXISTED [] INSERT_Q res c
      | Some t \<Rightarrow>
          let s = tb_schema t in
          if length (i_values stmt) \<noteq> length (columns s) then error_executer COLUMN_TYPE_MISMATCH [] INSERT_Q res c
          else if \<not> types_match (i_values stmt) (columns s) then error_executer COLUMN_TYPE_MISMATCH [] INSERT_Q res c
          else Inr (Insert_Exec (tb_name t) s (i_values stmt), res, c))"

definition bind_delete :: "delete_stmt \<Rightarrow> query_result \<Rightarrow> catalog \<Rightarrow> bound" where
  "bind_delete stmt res c =
     (let res = res\<lparr>qr_type := Some DELETE_Q\<rparr> in error_executer SYNTAX_ERROR [] DELETE_Q res c)"

definition bind_drop :: "drop_stmt \<Rightarrow> query_result \<Rightarrow> catalog \<Rightarrow> bound" where
  "bind_drop stmt res c = Inr (Drop_Table_Exec (ds_table stmt), res\<lparr>qr_type := Some DROP_Q\<rparr>, c)"

definition bind_column :: "col_attr \<Rightarrow> column list \<Rightarrow> column list res" where
  "bind_column col cols =
     andthen
       (if ca_type col = ''VARCHAR'' then Inr VARCHAR_C
        else if ca_type col = ''CHAR'' then Inr CHAR_C
        else if ca_type col = ''INT'' then Inr INT_C
        else if ca_type col = ''FLOAT'' then Inr FLOAT_C
        else Inl Assert_Failed) (\<lambda>ty.
     Inr (cols @ [\<lparr>col_type = ty, col_name = ca_name col, col_size = (if ty = CHAR_C then ca_size col else 0)\<rparr>]))"

definition bind_create :: "create_table_stmt \<Rightarrow> query_result \<Rightarrow> catalog \<Rightarrow> bound" where
  "bind_create stmt res c =
     (let res = res\<lparr>qr_type := Some CREATE_Q\<rparr> in
      if cat_has_table (ct_table_name stmt) c then error_executer TABLE_ALREADY_EXISTED [] CREATE_Q res c
      else if ct_col_attrs stmt = []
      then error_executer SYNTAX_ERROR ''empty attributes while create table'' CREATE_Q res c
      else
        andthen (each bind_column (ct_col_attrs stmt) []) (\<lambda>cols.
        Inr (Create_Table_Exec (ct_table_name stmt) cols, res, c)))"

definition bind :: "query_stmt \<Rightarrow> query_result \<Rightarrow> catalog \<Rightarrow> bound" where
  "bind stmt res c =
     (case stmt of
        Select s \<Rightarrow> bind_select s res c
      | Insert s \<Rightarrow> bind_insert s res c
      | Delete s \<Rightarrow> bind_delete s res c
      | Drop s \<Rightarrow> bind_drop s res c
      | Create_Table s \<Rightarrow> bind_create s res c)"

end
