(* ===== verification/Command.thy ===== *)
theory Command
  imports Binder
begin

text \<open>
  The shell of \<open>src/bin/command.cc\<close> and the command table of \<open>src/bin/cmd.hpp\<close>. What goes to the
  standard output is a list of prompts, lines and tables; \<open>Screen\<close> draws them. The standard
  input is the list of its lines, and whether the last of them ends with a line break.
\<close>

section \<open>Running a statement\<close>

text \<open>The loop that collects the tuples; the fuel bounds its rounds and what one round needs.\<close>

fun run_loop :: "nat \<Rightarrow> executer \<Rightarrow> tuple \<Rightarrow> catalog \<Rightarrow> tuple list \<Rightarrow> (rc \<times> tuple list \<times> executer \<times> catalog) res" where
  "run_loop 0 ex t c ts = Inl Out_Of_Fuel"
| "run_loop (Suc n) ex t c ts =
     andthen (exec_next n ex t c) (\<lambda>(rc, t, ex, c).
     if rc_success rc then run_loop n ex t c (ts @ [tuple_copy t]) else Inr (rc, ts, ex, c))"

definition run_executer :: "nat \<Rightarrow> string \<Rightarrow> executer \<Rightarrow> query_result \<Rightarrow> catalog \<Rightarrow> (query_result \<times> catalog) res" where
  "run_executer n sql ex res c =
     andthen (run_loop n ex (tuple_new []) c (qr_tuples res)) (\<lambda>(rc, ts, ex, c).
     let res = res\<lparr>qr_tuples := ts\<rparr> in
     andthen (exec_destroy ex c) (\<lambda>c.
     Inr (if rc \<noteq> OUT_OF_RANGE then res\<lparr>qr_rc := rc, qr_msg := rc2str rc @ '' '' @ sql\<rparr>
          else res\<lparr>qr_rc := SUCCESS\<rparr>, c)))"

definition execute_sql :: "nat \<Rightarrow> string \<Rightarrow> catalog \<Rightarrow> (query_result \<times> catalog) res" where
  "execute_sql n sql c =
     andthen (parse_sql sql) (\<lambda>(rc, stmt).
     let res = query_result_new in
     if \<not> rc_success rc then Inr (res\<lparr>qr_rc := rc, qr_msg := rc2str rc @ '' '' @ sql\<rparr>, c)
     else andthen (bind stmt res c) (\<lambda>(ex, res, c). run_executer n sql ex res c))"

section \<open>Output\<close>

datatype out = Prompt string | Line string | Grid "string list list"

definition show_tables :: "catalog \<Rightarrow> out list" where
  "show_tables c = [Grid [tables_name c]]"

definition report :: "query_result \<Rightarrow> out list" where
  "report res = (if qr_rc res \<noteq> SUCCESS then [Line (''FAIL '' @ rc2str (qr_rc res) @ '' '' @ qr_msg res)] else [])"

definition print_cells :: "schema \<Rightarrow> tuple \<Rightarrow> string list res" where
  "print_cells s t =
     each (\<lambda>j cells. andthen (value_at t s j) (\<lambda>val. andthen (value_to_string val) (\<lambda>x. Inr (cells @ [x]))))
       [0..<length (columns s)] []"

definition print_rows :: "query_result \<Rightarrow> out list res" where
  "print_rows res =
     (if qr_type res \<noteq> Some SELECT_Q then Inr []
      else case qr_output_schema res of
             None \<Rightarrow> Inl Null_Pointer
           | Some s \<Rightarrow>
               andthen (each (\<lambda>t rows. andthen (print_cells s t) (\<lambda>r. Inr (rows @ [r]))) (qr_tuples res)
                         [map col_name (columns s)]) (\<lambda>rows.
               Inr [Line (''count: '' @ nat_digits (length (qr_tuples res))), Grid rows]))"

section \<open>The command table\<close>

definition cmd_add :: "string \<Rightarrow> 'f \<Rightarrow> (string \<times> 'f) list \<Rightarrow> (string \<times> 'f) list" where
  "cmd_add name f m = map_emplace name f m"

text \<open>The function that \<open>run\<close> calls, if any.\<close>

definition cmd_run :: "string \<Rightarrow> (string \<times> 'f) list \<Rightarrow> 'f option" where
  "cmd_run name m = (if map_find name m \<noteq> None then map_find name m else None)"

datatype action = Set_Quit | Show_Tables

record shell =
  sh_cmd :: "(string \<times> action) list"
  sh_catalog :: catalog
  sh_quit :: bool
  sh_out :: "out list"

definition run_action :: "action \<Rightarrow> shell \<Rightarrow> shell" where
  "run_action a sh =
     (case a of
        Set_Quit \<Rightarrow> sh\<lparr>sh_quit := True\<rparr>
      | Show_Tables \<Rightarrow> sh\<lparr>sh_out := sh_out sh @ show_tables (sh_catalog sh)\<rparr>)"

section \<open>The shell\<close>

definition shell_init :: "string \<Rightarrow> string list \<Rightarrow> char \<Rightarrow> files \<Rightarrow> shell res" where
  "shell_init path listing junk fs =
     andthen (catalog_init path listing junk fs) (\<lambda>c.
     let cmd = cmd_add ''.quit'' Set_Quit []; cmd = cmd_add ''.show tables'' Show_Tables cmd
     in Inr \<lparr>sh_cmd = cmd, sh_catalog = c, sh_quit = False, sh_out = []\<rparr>)"

definition shell_line :: "nat \<Rightarrow> string \<Rightarrow> shell \<Rightarrow> shell res" where
  "shell_line k input sh =
     (if input \<noteq> [] \<and> hd input = CHR ''.''
      then Inr (case cmd_run input (sh_cmd sh) of Some a \<Rightarrow> run_action a sh | None \<Rightarrow> sh)
      else
        andthen (execute_sql k input (sh_catalog sh)) (\<lambda>(res, c).
        let sh = sh\<lparr>sh_catalog := c\<rparr> in
        if qr_rc res \<noteq> SUCCESS then Inr (sh\<lparr>sh_out := sh_out sh @ report res\<rparr>)
        else andthen (print_rows res) (\<lambda>out. Inr (sh\<lparr>sh_out := sh_out sh @ Line ''Success'' # out\<rparr>))))"

text \<open>
  \<open>std::getline\<close> into a string that holds \<open>old\<close>. Behind the last line it clears the string when the
  stream is still good, that is, when this line ended with a line break (or there was none). When the end
  of the input ended the last line the stream is no longer good: the string is left as it is.
\<close>

fun get_line :: "bool \<Rightarrow> string list \<Rightarrow> string \<Rightarrow> string" where
  "get_line ended (line # lines) old = line"
| "get_line ended [] old = (if ended then [] else old)"

text \<open>The loop of \<open>main\<close>: \<open>k\<close> is the fuel of a statement, \<open>n\<close> bounds the rounds, \<open>old\<close> is the string \<open>in\<close>.\<close>

fun shell_loop :: "nat \<Rightarrow> nat \<Rightarrow> bool \<Rightarrow> string list \<Rightarrow> string \<Rightarrow> shell \<Rightarrow> shell res" where
  "shell_loop k 0 ended inputs old sh = Inl Out_Of_Fuel"
| "shell_loop k (Suc n) ended inputs old sh =
     (if sh_quit sh then Inr sh
      else
        let sh = sh\<lparr>sh_out := sh_out sh @ [Prompt ''TadisSQL>'']\<rparr>; input = get_line ended inputs old
        in andthen (shell_line k input sh) (shell_loop k n ended (tl inputs) input))"

text \<open>\<open>main\<close>: what was printed, and the files when the catalog has been destroyed.\<close>

definition shell_main :: "nat \<Rightarrow> nat \<Rightarrow> nat \<Rightarrow> bool \<Rightarrow> string list \<Rightarrow> string list \<Rightarrow> char \<Rightarrow> files \<Rightarrow> (out list \<times> files) res" where
  "shell_main k n argc ended inputs listing junk fs =
     andthen (shell_init ''.'' listing junk fs) (\<lambda>sh.
     andthen (if argc > 1 then Inr sh else shell_loop k n ended inputs [] sh) (\<lambda>sh.
     andthen (catalog_destroy (sh_catalog sh)) (\<lambda>fs. Inr (sh_out sh, fs))))"

text \<open>The lines of a text.\<close>

function getlines :: "string \<Rightarrow> string list" where
  "getlines s =
     (if s = [] then []
      else takeWhile (\<lambda>c. c \<noteq> CHR 0x0A) s # getlines (drop (length (takeWhile (\<lambda>c. c \<noteq> CHR 0x0A) s) + 1) s))"
  by pat_completeness auto
termination
  by (relation "measure length") auto

declare getlines.simps [simp del]

definition exec_line :: "nat \<Rightarrow> string \<Rightarrow> shell \<Rightarrow> shell res" where
  "exec_line k line sh =
     andthen (execute_sql k line (sh_catalog sh)) (\<lambda>(res, c).
     let sh = sh\<lparr>sh_catalog := c\<rparr> in
     if qr_rc res \<noteq> SUCCESS then Inr (sh\<lparr>sh_out := sh_out sh @ report res\<rparr>)
     else andthen (print_rows res) (\<lambda>out. Inr (sh\<lparr>sh_out := sh_out sh @ out\<rparr>)))"

definition exec_from_file :: "nat \<Rightarrow> string option \<Rightarrow> shell \<Rightarrow> shell res" where
  "exec_from_file k content sh =
     (case content of None \<Rightarrow> Inr sh | Some text \<Rightarrow> each (exec_line k) (getlines text) sh)"

end
