(* ===== verification/Table_View.thy ===== *)
theory Table_View
  imports Tuple Heap_Scan
begin

text \<open>
  A table as its clients see it: rows of values on numbered pages, and the pages whose pin count the
  destructors of scanners have spoiled. What an insert, a scan and an abandoned scan do to the pool is
  a function of this view; \<open>heap_shows\<close> is the simulation relation.
\<close>

section \<open>The free end of a page\<close>

text \<open>While no slot is removed, the slots of a page tell where its free space ends.\<close>

definition used_by :: "bytes list \<Rightarrow> nat" where
  "used_by ds = sum_list (map (\<lambda>d. length d + 1) ds)"

lemma slot_lim_used:
  assumes wf: "page_wf b" and ds: "slots_of b = map Some ds" and k: "k \<le> slot_count b"
  shows "slot_lim b k + used_by (take k ds) = PAGE_SIZE"
  using k
proof (induction k)
  case (Suc k)
  have len: "length ds = slot_count b" using ds length_slots_of [of b] by simp
  have "slot_at b k = Some (ds ! k)"
    using Suc.prems len slots_of_nth [of k b] by (simp add: ds)
  then have "chunk (slot_off b k + 1) (slot_lim b k - slot_off b k - 1) b = ds ! k"
    by (simp add: slot_at_def split: if_splits)
  moreover have "slot_off b k < slot_lim b k" "slot_lim b k \<le> length b"
    using wf Suc by (auto simp: page_wf_def)
  moreover from this have "length (chunk (slot_off b k + 1) (slot_lim b k - slot_off b k - 1) b) =
      slot_lim b k - slot_off b k - 1" by (intro length_chunk) simp
  ultimately have "slot_lim b k = slot_off b k + 1 + length (ds ! k)" by simp
  with Suc len show ?case by (simp add: used_by_def take_Suc_conv_app_nth slot_lim_def)
qed (simp add: slot_lim_def used_by_def)

lemma free_end:
  assumes "page_wf b" "slots_of b = map Some ds"
  shows "slot_count b = length ds" "slot_lim b (slot_count b) = PAGE_SIZE - used_by ds"
proof -
  show n: "slot_count b = length ds" using assms(2) length_slots_of [of b] by simp
  from slot_lim_used [OF assms order_refl] show "slot_lim b (slot_count b) = PAGE_SIZE - used_by ds"
    by (simp add: n)
qed

section \<open>The view of a table\<close>

record table_view =
  tv_schema :: schema
  tv_pages :: "sql_value list list list"
  tv_stuck :: "page_id set"

definition tv_rows :: "table_view \<Rightarrow> sql_value list list" where
  "tv_rows T = concat (tv_pages T)"

definition view_new :: "schema \<Rightarrow> table_view" where
  "view_new s = \<lparr>tv_schema = s, tv_pages = [], tv_stuck = {}\<rparr>"

text \<open>The end of the free space of the last page.\<close>

definition view_end :: "table_view \<Rightarrow> nat" where
  "view_end T = PAGE_SIZE - used_by (map (\<lambda>vals. row_bytes vals (tv_schema T)) (last (tv_pages T)))"

text \<open>The rule by which an insert stays on the last page, and the one by which it is safe at all.\<close>

definition view_fits :: "sql_value list \<Rightarrow> table_view \<Rightarrow> bool" where
  "view_fits vals T \<longleftrightarrow> tv_pages T \<noteq> [] \<and>
     32 + 8 * length (last (tv_pages T)) + length (row_bytes vals (tv_schema T)) + 1 < view_end T"

definition view_room :: "sql_value list \<Rightarrow> table_view \<Rightarrow> bool" where
  "view_room vals T \<longleftrightarrow> Suc (length (tv_pages T)) < BFP_MAX_PAGE_NUM \<and>
     32 + length (row_bytes vals (tv_schema T)) + 1 < PAGE_SIZE \<and>
     (tv_pages T \<noteq> [] \<longrightarrow> length (row_bytes vals (tv_schema T)) < view_end T)"

definition view_insert :: "sql_value list \<Rightarrow> table_view \<Rightarrow> table_view" where
  "view_insert vals T = T\<lparr>tv_pages :=
     (if view_fits vals T then butlast (tv_pages T) @ [last (tv_pages T) @ [vals]] else tv_pages T @ [[vals]])\<rparr>"

text \<open>A scan spoils the pin count of the last page; one that is not destroyed keeps the first.\<close>

definition view_scanned :: "table_view \<Rightarrow> table_view" where
  "view_scanned T = T\<lparr>tv_stuck := insert (of_nat (length (tv_pages T))) (tv_stuck T)\<rparr>"

definition view_scannable :: "table_view \<Rightarrow> bool" where
  "view_scannable T \<longleftrightarrow> tv_pages T \<noteq> [] \<and> card (tv_stuck (view_scanned T)) < 16"

definition view_abandoned :: "table_view \<Rightarrow> table_view" where
  "view_abandoned T = T\<lparr>tv_stuck := insert 1 (tv_stuck T)\<rparr>"

definition view_abandonable :: "table_view \<Rightarrow> bool" where
  "view_abandonable T \<longleftrightarrow> tv_pages T \<noteq> [] \<and> card (tv_stuck (view_abandoned T)) < 16"

text \<open>What a restart leaves of it.\<close>

definition view_reopened :: "table_view \<Rightarrow> table_view" where
  "view_reopened T = T\<lparr>tv_stuck := {}\<rparr>"

lemmas view_defs = view_new_def view_insert_def view_scanned_def view_abandoned_def view_reopened_def

lemma view_schema [simp]:
  "tv_schema (view_new s) = s" "tv_schema (view_insert vals T) = tv_schema T"
  "tv_schema (view_scanned T) = tv_schema T" "tv_schema (view_abandoned T) = tv_schema T"
  "tv_schema (view_reopened T) = tv_schema T"
  by (simp_all add: view_defs)

lemma view_rows [simp]:
  "tv_rows (view_new s) = []" "tv_rows (view_insert vals T) = tv_rows T @ [vals]"
  "tv_rows (view_scanned T) = tv_rows T" "tv_rows (view_abandoned T) = tv_rows T"
  "tv_rows (view_reopened T) = tv_rows T"
proof -
  show "tv_rows (view_insert vals T) = tv_rows T @ [vals]"
  proof (cases "view_fits vals T")
    case True
    then have "tv_pages T \<noteq> []" by (simp add: view_fits_def)
    then have "concat (tv_pages T) = concat (butlast (tv_pages T)) @ last (tv_pages T)"
      by (metis append_butlast_last_id concat.simps concat_append append_Nil2)
    with True show ?thesis by (simp add: view_insert_def tv_rows_def)
  qed (simp add: view_insert_def tv_rows_def)
qed (simp_all add: view_defs tv_rows_def)

section \<open>The pool behind it\<close>

definition row_slots :: "schema \<Rightarrow> sql_value list list list \<Rightarrow> bytes option list list" where
  "row_slots s ps = map (map (\<lambda>vals. Some (row_bytes vals s))) ps"

definition heap_shows :: "table_view \<Rightarrow> pool \<Rightarrow> bool" where
  "heap_shows T bp \<longleftrightarrow>
     heap_at (tv_stuck T) bp \<and> \<not> bp_closed bp \<and> length (bp_pages bp) = 16 \<and> length (tv_pages T) < BFP_MAX_PAGE_NUM \<and>
     heap_pages bp = row_slots (tv_schema T) (tv_pages T) \<and> [] \<notin> set (tv_pages T) \<and>
     (\<forall>vals \<in> set (tv_rows T). row_ok vals (tv_schema T))"

lemma heap_showsD:
  assumes "heap_shows T bp"
  shows "heap_at (tv_stuck T) bp" "\<not> bp_closed bp" "length (bp_pages bp) = 16"
    "heap_pages bp = row_slots (tv_schema T) (tv_pages T)" "[] \<notin> set (tv_pages T)"
    "vals \<in> set (tv_rows T) \<Longrightarrow> row_ok vals (tv_schema T)"
    "unat (next_pid (bp_disk bp)) = Suc (length (tv_pages T))"
    "pool_current_pid bp = 0 \<longleftrightarrow> tv_pages T = []"
    "pool_current_pid bp = of_nat (length (tv_pages T))"
    "unat (next_pid (bp_disk bp)) \<le> BFP_MAX_PAGE_NUM"
proof -
  show h: "heap_at (tv_stuck T) bp" "\<not> bp_closed bp" "length (bp_pages bp) = 16"
    "heap_pages bp = row_slots (tv_schema T) (tv_pages T)" "[] \<notin> set (tv_pages T)"
    "vals \<in> set (tv_rows T) \<Longrightarrow> row_ok vals (tv_schema T)"
    using assms by (simp_all add: heap_shows_def)
  note l = heap_last [OF h(1)]
  have n: "length (tv_pages T) = unat (next_pid (bp_disk bp)) - 1"
    using h(4) length_heap_pages [of bp] by (simp add: row_slots_def)
  moreover have "0 < unat (next_pid (bp_disk bp))" using l(1) by (simp add: unat_gt_0)
  ultimately show u: "unat (next_pid (bp_disk bp)) = Suc (length (tv_pages T))" by simp
  show "unat (next_pid (bp_disk bp)) \<le> BFP_MAX_PAGE_NUM" using assms by (simp add: u heap_shows_def)
  show "pool_current_pid bp = 0 \<longleftrightarrow> tv_pages T = []" using l(6) h(4) by (simp add: row_slots_def)
  show "pool_current_pid bp = of_nat (length (tv_pages T))" unfolding n l(2) [symmetric] by simp
qed

lemma shows_slots:
  assumes "heap_shows T bp"
  shows "heap_slots bp = map (\<lambda>vals. Some (row_bytes vals (tv_schema T))) (tv_rows T)"
  by (simp add: heap_slots_def heap_showsD(4) [OF assms] row_slots_def tv_rows_def map_concat)

lemma shows_last_page:
  assumes "heap_shows T bp" "tv_pages T \<noteq> []"
  shows "slot_count (last_page bp) = length (last (tv_pages T))"
    "slot_lim (last_page bp) (slot_count (last_page bp)) = view_end T"
proof -
  note h = heap_showsD [OF assms(1)] and l = heap_last [OF heap_showsD(1) [OF assms(1)]]
  let ?ds = "map (\<lambda>vals. row_bytes vals (tv_schema T)) (last (tv_pages T))"
  have "pool_current_pid bp \<noteq> 0" using h(8) assms(2) by simp
  note p = l(5) [OF this] l(7) [OF this]
  have "slots_of (last_page bp) = map Some ?ds"
    using p(2) assms(2) by (simp add: h(4) row_slots_def last_map comp_def)
  from free_end [OF p(1) this] show "slot_count (last_page bp) = length (last (tv_pages T))"
    "slot_lim (last_page bp) (slot_count (last_page bp)) = view_end T" by (simp_all add: view_end_def)
qed

text \<open>Inserting: the pool after it shows the view after it.\<close>

lemma shows_insert:
  assumes sh: "heap_shows T bp" and ok: "row_ok vals (tv_schema T)" and room: "view_room vals T"
  shows "\<exists>bp'. heap_insert (rec_new (row_bytes vals (tv_schema T))) bp = Inr (True, bp') \<and>
    heap_shows (view_insert vals T) bp'"
proof -
  note h = heap_showsD [OF sh]
  let ?rc = "rec_new (row_bytes vals (tv_schema T))"
  have "unat (next_pid (bp_disk bp)) < BFP_MAX_PAGE_NUM" "record_small ?rc"
    "pool_current_pid bp \<noteq> 0 \<Longrightarrow> length (rc_data ?rc) < slot_lim (last_page bp) (slot_count (last_page bp))"
    using room h(7,8) shows_last_page [OF sh] by (auto simp: view_room_def record_small_def rec_new_def)
  from heap_insert_pages [OF h(1) this] obtain bp' where
    b: "heap_insert ?rc bp = Inr (True, bp')" "heap_at (tv_stuck T) bp'" "pool_kept bp bp'"
      "heap_pages bp' = (if heap_pages bp \<noteq> [] \<and> record_fits (last_page bp) ?rc
         then butlast (heap_pages bp) @ [last (heap_pages bp) @ [Some (rc_data ?rc)]]
         else heap_pages bp @ [[Some (rc_data ?rc)]])" by blast
  have "heap_pages bp \<noteq> [] \<and> record_fits (last_page bp) ?rc \<longleftrightarrow> view_fits vals T"
    using shows_last_page [OF sh] by (auto simp: view_fits_def record_fits_def h(4) row_slots_def rec_new_def)
  then have "heap_pages bp' = row_slots (tv_schema T) (tv_pages (view_insert vals T))"
    unfolding b(4) by (auto simp: view_insert_def view_fits_def h(4) row_slots_def rec_new_def map_butlast last_map)
  moreover have "[] \<notin> set (tv_pages (view_insert vals T))"
    using h(5) by (auto simp: view_insert_def dest: in_set_butlastD)
  moreover have "tv_stuck (view_insert vals T) = tv_stuck T" by (simp add: view_insert_def)
  moreover have "length (tv_pages (view_insert vals T)) < BFP_MAX_PAGE_NUM"
    using room by (auto simp: view_insert_def view_room_def)
  moreover have "\<forall>r \<in> set (tv_rows (view_insert vals T)). row_ok r (tv_schema T)" using h(6) ok by auto
  ultimately have "heap_shows (view_insert vals T) bp'"
    using b(2,3) h(2,3) by (auto simp: heap_shows_def pool_kept_def)
  with b(1) show ?thesis by blast
qed

text \<open>Scanning: the rows of the view in their order.\<close>

lemma shows_scannable:
  assumes "heap_shows T bp"
  shows "scannable bp"
proof -
  have "last (map (\<lambda>vals. Some (row_bytes vals (tv_schema T))) rs) \<noteq> None" if "rs \<in> set (tv_pages T)" for rs
  proof -
    have "rs \<noteq> []" using that heap_showsD(5) [OF assms] by auto
    then show ?thesis by (simp add: last_map)
  qed
  then show ?thesis using heap_showsD(4,5) [OF assms] by (auto simp: scannable_def row_slots_def)
qed

lemma shows_same:
  assumes "heap_shows T bp" "pool.same bp bp'" "heap_at S bp'"
  shows "heap_shows (T\<lparr>tv_stuck := S\<rparr>) bp'"
  using assms heap_showsD [OF assms(1)] sameD [OF assms(2)] same_pages [OF heap_showsD(1) [OF assms(1)] assms(2)]
  by (auto simp: heap_shows_def pool_meta_def tv_rows_def)

lemma live_Some: "live (map (\<lambda>x. Some (f x)) xs) = map f xs"
  by (induction xs) simp_all

lemma shows_scan:
  assumes sh: "heap_shows T bp" and sc: "view_scannable T"
  shows "\<exists>s bp1 s2 bp2 bp3. heap_scanner bp = Inr (SUCCESS, s, bp1) \<and>
    scan_all (Suc (length (tv_rows T))) s bp1 =
      Inr (map (\<lambda>vals. row_bytes vals (tv_schema T)) (tv_rows T), Some OUT_OF_RANGE, s2, bp2) \<and>
    scanner_destroy s2 bp2 = Inr bp3 \<and> heap_shows (view_scanned T) bp3"
proof -
  note h = heap_showsD [OF sh]
  have live: "live (heap_slots bp) = map (\<lambda>vals. row_bytes vals (tv_schema T)) (tv_rows T)"
    by (simp add: shows_slots [OF sh] live_Some)
  have nz: "pool_current_pid bp \<noteq> 0" using h(8) sc by (simp add: view_scannable_def)
  from heap_scan_correct [OF h(1) shows_scannable [OF sh] nz lessI] obtain s bp1 s2 bp2 where
    r: "heap_scanner bp = Inr (SUCCESS, s, bp1)"
      "scan_all (Suc (length (live (heap_slots bp)))) s bp1 = Inr (live (heap_slots bp), Some OUT_OF_RANGE, s2, bp2)"
      "heap_at (tv_stuck T) bp2" "let_go bp2 (page_id (sc_next_rid s2))"
      "page_id (sc_next_rid s2) = pool_current_pid bp" "pool.same bp bp2" by blast
  have p: "page_id (sc_next_rid s2) \<noteq> 0" "page_id (sc_next_rid s2) = of_nat (length (tv_pages T))"
    using r(5) nz h(9) by simp_all
  have sh2: "heap_shows T bp2" using shows_same [OF sh r(6,3)] by simp
  have "card (insert (page_id (sc_next_rid s2)) (tv_stuck T)) < length (bp_pages bp2)"
    using sc heap_showsD(3) [OF sh2] by (simp add: view_scannable_def view_scanned_def p(2))
  from scan_destroyed [OF r(3,4) p(1) this] obtain bp3 where
    d: "scanner_destroy s2 bp2 = Inr bp3" "heap_at (insert (page_id (sc_next_rid s2)) (tv_stuck T)) bp3"
      "pool.same bp2 bp3" by blast
  from shows_same [OF sh2 d(3,2)] have "heap_shows (view_scanned T) bp3" by (simp add: view_scanned_def p(2))
  with r(1,2) d(1) show ?thesis unfolding live by (simp only: length_map) blast
qed

lemma shows_abandoned:
  assumes sh: "heap_shows T bp" and sc: "view_abandonable T"
  shows "\<exists>s bp1. heap_scanner bp = Inr (SUCCESS, s, bp1) \<and> heap_shows (view_abandoned T) bp1"
proof -
  note h = heap_showsD [OF sh]
  have "pool_current_pid bp \<noteq> 0" "card (insert 1 (tv_stuck T)) < length (bp_pages bp)"
    using sc h(3,8) by (simp_all add: view_abandonable_def view_abandoned_def)
  from scan_abandoned [OF h(1) this] obtain s bp1 where
    "heap_scanner bp = Inr (SUCCESS, s, bp1)" "heap_at (insert 1 (tv_stuck T)) bp1" "pool.same bp bp1" by blast
  with shows_same [OF sh this(3,2)] show ?thesis by (auto simp: view_abandoned_def)
qed

text \<open>A heap that has been closed and opened again.\<close>

lemma shows_reopened:
  assumes "heap_shows T bp" "heap_ok bp'" "\<not> bp_closed bp'" "length (bp_pages bp') = 16" "heap_pages bp' = heap_pages bp"
  shows "heap_shows (view_reopened T) bp'"
  using assms by (auto simp: heap_shows_def view_reopened_def tv_rows_def)

end
