(* ===== verification/Query.thy ===== *)
theory Query
  imports Command Table_View Sql_Roundtrip
begin

text \<open>
  What a query returns. An executer is seen from outside as the list of the tuples its \<open>next\<close> hands
  out before it reports the end (\<open>yields\<close>); the lemmas say which list a scan, a filter and a projection
  yield, and that the loop of \<open>execute_sql\<close> collects it.
\<close>

section \<open>Executers as streams\<close>

text \<open>
  With fuel \<open>N\<close> for each call, the executer hands out the data \<open>ds\<close> and then the code for the end; its
  schema is \<open>s\<close> all the time.
\<close>

inductive yields :: "nat \<Rightarrow> schema \<Rightarrow> executer \<Rightarrow> catalog \<Rightarrow> bytes list \<Rightarrow> executer \<Rightarrow> catalog \<Rightarrow> bool" for N s where
  yields_end: "(\<And>n t. N \<le> n \<Longrightarrow> \<exists>t'. exec_next n ex t c = Inr (OUT_OF_RANGE, t', ex2, c2)) \<Longrightarrow>
     yields N s ex c [] ex2 c2"
| yields_row: "(\<And>n t. N \<le> n \<Longrightarrow> \<exists>t'. exec_next n ex t c = Inr (SUCCESS, t', ex1, c1) \<and> t_data t' = d) \<Longrightarrow>
     exec_schema ex1 = Some s \<Longrightarrow> yields N s ex1 c1 ds ex2 c2 \<Longrightarrow> yields N s ex c (d # ds) ex2 c2"

inductive_cases yields_NilE: "yields N s ex c [] ex2 c2"
inductive_cases yields_ConsE: "yields N s ex c (d # ds) ex2 c2"

lemma yields_mono: "yields N s ex c ds ex2 c2 \<Longrightarrow> N \<le> M \<Longrightarrow> yields M s ex c ds ex2 c2"
proof (induction rule: yields.induct)
  case (yields_end ex c ex2 c2)
  then show ?case by (intro yields.yields_end) auto
next
  case (yields_row ex c ex1 c1 d ds ex2 c2)
  then show ?case by (intro yields.yields_row [of _ _ _ ex1 c1]) auto
qed

text \<open>The first call can be taken from another executer when it behaves alike.\<close>

lemma yields_like:
  assumes "yields M s ex1 c1 ds ex2 c2"
    and "\<And>n t. Suc M \<le> n \<Longrightarrow> \<exists>t' m. M \<le> m \<and> exec_next n ex t c = exec_next m ex1 t' c1"
  shows "yields (Suc M) s ex c ds ex2 c2"
  using assms(1)
proof (cases rule: yields.cases)
  case yields_end
  show ?thesis unfolding yields_end(1)
    by (rule yields.yields_end) (metis assms(2) yields_end(2))
next
  case (yields_row ex3 c3 d ds')
  show ?thesis unfolding yields_row(1)
  proof (rule yields.yields_row [OF _ yields_row(3)])
    show "\<exists>t'. exec_next n ex t c = Inr (SUCCESS, t', ex3, c3) \<and> t_data t' = d" if "Suc M \<le> n" for n t
      using assms(2) [OF that] yields_row(2) by metis
    show "yields (Suc M) s ex3 c3 ds' ex2 c2" using yields_row(4) by (rule yields_mono) simp
  qed
qed

section \<open>The scan of a table\<close>

lemma find_put_heap:
  "stm_get_table tbl (ct_stm c) \<noteq> None \<Longrightarrow> stm_get_table tbl (ct_stm (put_heap tbl bp c)) = Some bp"
  by (simp add: put_heap_def stm_get_table_def map_find_assign)

lemma put_heap_twice [simp]: "put_heap tbl bp2 (put_heap tbl bp1 c) = put_heap tbl bp2 c"
  by (simp add: put_heap_def map_assign_def comp_def case_prod_beta if_distrib cong: if_cong)

lemma put_heap_tables [simp]: "ct_tables (put_heap tbl bp c) = ct_tables c" "cat_get_table n (put_heap tbl bp c) = cat_get_table n c"
  by (simp_all add: put_heap_def cat_get_table_def)

lemma scan_yields:
  "scan_all f sc bp = Inr (ds, Some OUT_OF_RANGE, sc2, bp2) \<Longrightarrow> stm_get_table tbl (ct_stm c) = Some bp \<Longrightarrow>
   yields 1 s (SeqScan_Exec tbl (Some sc) s) c ds (SeqScan_Exec tbl (Some sc2) s) (put_heap tbl bp2 c)"
proof (induction f arbitrary: sc bp ds c)
  case (Suc f)
  then obtain k rc r sc1 bp1 where
    n: "scanner_next rpage_get (rec_new []) rid_default sc bp = Inr (k, rc, r, sc1, bp1)"
    by (auto simp: res_simps)
  have step: "exec_next n (SeqScan_Exec tbl (Some sc) s) t c =
      Inr (k, if k = SUCCESS then t\<lparr>t_data := rc_data rc, t_rid := r\<rparr> else t, SeqScan_Exec tbl (Some sc1) s,
           put_heap tbl bp1 c)" if "1 \<le> n" for n t
    using that n Suc.prems(2) by (cases n) (simp_all add: seqscan_next_def)
  show ?case
  proof (cases "k = SUCCESS")
    case True
    with Suc.prems(1) n obtain ds' where
      d: "ds = rc_data rc # ds'" "scan_all f sc1 bp1 = Inr (ds', Some OUT_OF_RANGE, sc2, bp2)"
      by (auto simp: res_simps)
    have "yields 1 s (SeqScan_Exec tbl (Some sc1) s) (put_heap tbl bp1 c) ds'
        (SeqScan_Exec tbl (Some sc2) s) (put_heap tbl bp2 (put_heap tbl bp1 c))"
      by (rule Suc.IH [OF d(2)]) (simp add: find_put_heap Suc.prems(2))
    then show ?thesis unfolding d(1)
      by (intro yields_row [of _ "SeqScan_Exec tbl (Some sc) s" c "SeqScan_Exec tbl (Some sc1) s" "put_heap tbl bp1 c"])
        (use step True in simp_all)
  next
    case False
    with Suc.prems(1) n have e: "ds = []" "k = OUT_OF_RANGE" "sc2 = sc1" "bp2 = bp1" by auto
    show ?thesis unfolding e(1) by (rule yields_end) (use step e in simp)
  qed
qed simp

section \<open>Filters and projections\<close>

lemma filter_yields:
  assumes "yields N cs child c ds child2 c2"
    and "\<And>d t. d \<in> set ds \<Longrightarrow> t_data t = d \<Longrightarrow> filter_passes e t cs = Inr (P d)"
  shows "yields (N + length ds + 1) s (Filter_Exec e s child) c (filter P ds) (Filter_Exec e s child2) c2"
  using assms
proof (induction rule: yields.induct)
  case (yields_end ex c ex2 c2)
  show ?case
  proof (simp, rule yields.yields_end)
    fix n t
    assume "Suc N \<le> n"
    then obtain m where "n = Suc m" "N \<le> m" by (cases n) auto
    with yields_end(1) [of m t]
    show "\<exists>t'. exec_next n (Filter_Exec e s ex) t c = Inr (OUT_OF_RANGE, t', Filter_Exec e s ex2, c2)" by auto
  qed
next
  case (yields_row ex c ex1 c1 d ds ex2 c2)
  let ?M = "N + length ds + 1"
  have IH: "yields ?M s (Filter_Exec e s ex1) c1 (filter P ds) (Filter_Exec e s ex2) c2"
    using yields_row by simp
  have step: "\<exists>t' m. ?M \<le> m \<and> t_data t' = d \<and> exec_next n (Filter_Exec e s ex) t c =
      (if P d then Inr (SUCCESS, t', Filter_Exec e s ex1, c1) else exec_next m (Filter_Exec e s ex1) t' c1)"
    if "Suc ?M \<le> n" for n t
  proof -
    obtain m where m: "n = Suc m" "?M \<le> m" using \<open>Suc ?M \<le> n\<close> by (cases n) auto
    with yields_row(1) [of m t] obtain t' where "exec_next m ex t c = Inr (SUCCESS, t', ex1, c1)" "t_data t' = d"
      by auto
    moreover from this yields_row(5) [of d t'] have "filter_passes e t' cs = Inr (P d)" by simp
    ultimately show ?thesis
      using m yields_row(2) by (intro exI [of _ t'] exI [of _ m]) (simp add: child_schema_def)
  qed
  show ?case
  proof (cases "P d")
    case True
    have "yields (Suc ?M) s (Filter_Exec e s ex) c (d # filter P ds) (Filter_Exec e s ex2) c2"
    proof (rule yields.yields_row)
      show "\<exists>t'. exec_next n (Filter_Exec e s ex) t c = Inr (SUCCESS, t', Filter_Exec e s ex1, c1) \<and> t_data t' = d"
        if "Suc ?M \<le> n" for n t using step [OF that] True by auto
      show "yields (Suc ?M) s (Filter_Exec e s ex1) c1 (filter P ds) (Filter_Exec e s ex2) c2"
        by (rule yields_mono [OF IH]) simp
    qed simp
    with True show ?thesis by simp
  next
    case False
    have "yields (Suc ?M) s (Filter_Exec e s ex) c (filter P ds) (Filter_Exec e s ex2) c2"
      by (rule yields_like [OF IH]) (use step False in metis)
    with False show ?thesis by simp
  qed
qed

lemma projection_yields:
  assumes "yields N cs child c ds child2 c2"
    and "\<And>d t. d \<in> set ds \<Longrightarrow> t_data t = d \<Longrightarrow>
      \<exists>vals. evaluate_all es t cs = Inr vals \<and> create_tuple vals s = Inr (tuple_new (g d))"
  shows "yields (Suc N) s (Projection_Exec es s child) c (map g ds) (Projection_Exec es s child2) c2"
  using assms
proof (induction rule: yields.induct)
  case (yields_end ex c ex2 c2)
  show ?case
  proof (simp, rule yields.yields_end)
    fix n t
    assume "Suc N \<le> n"
    then obtain m where "n = Suc m" "N \<le> m" by (cases n) auto
    with yields_end(1) [of m "tuple_new []"]
    show "\<exists>t'. exec_next n (Projection_Exec es s ex) t c = Inr (OUT_OF_RANGE, t', Projection_Exec es s ex2, c2)"
      by auto
  qed
next
  case (yields_row ex c ex1 c1 d ds ex2 c2)
  show ?case
  proof (simp, rule yields.yields_row)
    fix n t
    assume "Suc N \<le> n"
    then obtain m where m: "n = Suc m" "N \<le> m" by (cases n) auto
    with yields_row(1) [of m "tuple_new []"] obtain t' where
      "exec_next m ex (tuple_new []) c = Inr (SUCCESS, t', ex1, c1)" "t_data t' = d" by auto
    with m yields_row(2,5)
    show "\<exists>t'. exec_next n (Projection_Exec es s ex) t c = Inr (SUCCESS, t', Projection_Exec es s ex1, c1) \<and>
        t_data t' = g d"
      by (fastforce simp: child_schema_def tuple_assign_def tuple_new_def)
  next
    show "yields (Suc N) s (Projection_Exec es s ex1) c1 (map g ds) (Projection_Exec es s ex2) c2"
      using yields_row by simp
  qed simp
qed

text \<open>The loop collects what its executer yields.\<close>

lemma run_loop_yields:
  "yields N s ex c ds ex2 c2 \<Longrightarrow> N + length ds < n \<Longrightarrow>
   run_loop n ex t c ts = Inr (OUT_OF_RANGE, ts @ map tuple_new ds, ex2, c2)"
proof (induction arbitrary: n t ts rule: yields.induct)
  case (yields_end ex c ex2 c2)
  then obtain m where "n = Suc m" "N \<le> m" by (cases n) auto
  with yields_end(1) [of m t] show ?case by auto
next
  case (yields_row ex c ex1 c1 d ds ex2 c2)
  then obtain m where m: "n = Suc m" "N + length ds < m" by (cases n) auto
  with yields_row(1) [of m t] obtain t' where "exec_next m ex t c = Inr (SUCCESS, t', ex1, c1)" "t_data t' = d"
    by auto
  with m yields_row(4) [of m] show ?case by (simp add: tuple_copy_def)
qed

section \<open>Conditions on rows\<close>

text \<open>What an operand stands for in a row, and what a condition means: the reference the filter is held to.\<close>

definition operand_value :: "schema \<Rightarrow> sql_value list \<Rightarrow> sql_value \<Rightarrow> sql_value" where
  "operand_value s vals v =
     (case v_any v of
        Any_Rel r \<Rightarrow> if v_type v = REL_ATTR then vals ! nat (column_idx s (ra_attribute r)) else v
      | _ \<Rightarrow> v)"

definition cond_holds :: "schema \<Rightarrow> sql_value list \<Rightarrow> condition \<Rightarrow> bool" where
  "cond_holds s vals cnd =
     (case (convert (c_op cnd), v_any (operand_value s vals (c_left cnd)), v_any (operand_value s vals (c_right cnd))) of
        (Some k, Any_Long m, Any_Long n) \<Rightarrow> int_holds k m n
      | (Some k, Any_String x, Any_String y) \<Rightarrow> int_holds k (string_compare x y) 0
      | _ \<Rightarrow> False)"

text \<open>The binder accepts the condition: its columns exist, and its operator is one of the four.\<close>

definition operand_bound :: "schema \<Rightarrow> sql_value \<Rightarrow> bool" where
  "operand_bound s v \<longleftrightarrow>
     v_type v = REL_ATTR \<longrightarrow> (\<exists>r. v_any v = Any_Rel r \<and> column_idx s (ra_attribute r) \<noteq> - 1)"

definition cond_bound :: "schema \<Rightarrow> condition \<Rightarrow> bool" where
  "cond_bound s cnd \<longleftrightarrow> operand_bound s (c_left cnd) \<and> operand_bound s (c_right cnd) \<and> convert (c_op cnd) \<noteq> None"

text \<open>Its operands are integers less than \<open>2 ^ 31\<close> apart, or strings.\<close>

definition cond_comparable :: "schema \<Rightarrow> sql_value list \<Rightarrow> condition \<Rightarrow> bool" where
  "cond_comparable s vals cnd \<longleftrightarrow>
     (\<exists>m n. operand_value s vals (c_left cnd) = value_int m \<and> operand_value s vals (c_right cnd) = value_int n \<and>
        int_range (m - n)) \<or>
     (\<exists>x y. operand_value s vals (c_left cnd) = value_string x \<and> operand_value s vals (c_right cnd) = value_string y)"

lemma column_idx_bound:
  assumes "column_idx s a \<noteq> - 1"
  shows "0 \<le> column_idx s a" "nat (column_idx s a) < length (columns s)"
  using column_from_spec [of 0 "columns s" a] assms by (auto simp: column_idx_def)

text \<open>A tuple that holds the row.\<close>

definition row_in :: "schema \<Rightarrow> sql_value list \<Rightarrow> tuple \<Rightarrow> bool" where
  "row_in s vals t \<longleftrightarrow> row_ok vals s \<and> t_data t = row_bytes vals s"

lemma operand_evaluates:
  assumes "operand_bound (tb_schema tb) v"
  shows "\<exists>e. operand tb v = Inr e \<and>
    (\<forall>vals t. row_in (tb_schema tb) vals t \<longrightarrow> evaluate e t (tb_schema tb) = Inr (operand_value (tb_schema tb) vals v))"
proof (cases "v_type v = REL_ATTR")
  case True
  with assms obtain r where
    r: "v_any v = Any_Rel r" "column_idx (tb_schema tb) (ra_attribute r) \<noteq> - 1" by (auto simp: operand_bound_def)
  from column_idx_bound [OF r(2)] True r(1) show ?thesis
    by (auto simp: operand_def any_rel_def col_value_express_def Let_def operand_value_def row_in_def value_at_row)
next
  case False
  then show ?thesis by (auto simp: operand_def constant_express_def operand_value_def split: any.split)
qed

lemma comparsion_truth:
  assumes "evaluate l t s = Inr (operand_value s vals (c_left cnd))" "evaluate r t s = Inr (operand_value s vals (c_right cnd))"
    and "convert (c_op cnd) = Some k" "cond_comparable s vals cnd"
  shows "evaluate (Comparsion l r k) t s = Inr (truth (cond_holds s vals cnd))"
  using assms(4) unfolding cond_comparable_def
proof (elim disjE exE conjE)
  fix m n
  assume v: "operand_value s vals (c_left cnd) = value_int m" "operand_value s vals (c_right cnd) = value_int n"
    and "int_range (m - n)"
  moreover from this have "long_range (m - n)" by (simp add: int_range_def long_range_def)
  ultimately show ?thesis
    using assms(1-3) compare_ints [of m n]
    by (simp add: to_int_id compare_result_int cond_holds_def) (simp add: value_int_def)
next
  fix x y
  assume "operand_value s vals (c_left cnd) = value_string x" "operand_value s vals (c_right cnd) = value_string y"
  with assms(1-3) show ?thesis
    by (simp add: compare_strings compare_result_string cond_holds_def) (simp add: value_string_def)
qed

lemma conditions_bound:
  assumes "\<forall>cnd \<in> set conds. cond_bound (tb_schema tb) cnd"
  shows "\<exists>es. each (bind_condition tb) conds acc = Inr (acc @ es) \<and>
    (\<forall>vals t. row_in (tb_schema tb) vals t \<longrightarrow> (\<forall>cnd \<in> set conds. cond_comparable (tb_schema tb) vals cnd) \<longrightarrow>
       list_all2 (\<lambda>e b. evaluate e t (tb_schema tb) = Inr (truth b)) es (map (cond_holds (tb_schema tb) vals) conds))"
  using assms
proof (induction conds arbitrary: acc)
  case (Cons cnd conds)
  let ?s = "tb_schema tb"
  have b: "operand_bound ?s (c_left cnd)" "operand_bound ?s (c_right cnd)" "convert (c_op cnd) \<noteq> None"
    using Cons.prems by (simp_all add: cond_bound_def)
  then obtain k where k: "convert (c_op cnd) = Some k" by auto
  from operand_evaluates [OF b(1)] obtain l where
    l: "operand tb (c_left cnd) = Inr l"
      "\<And>vals t. row_in ?s vals t \<Longrightarrow> evaluate l t ?s = Inr (operand_value ?s vals (c_left cnd))" by blast
  from operand_evaluates [OF b(2)] obtain r where
    r: "operand tb (c_right cnd) = Inr r"
      "\<And>vals t. row_in ?s vals t \<Longrightarrow> evaluate r t ?s = Inr (operand_value ?s vals (c_right cnd))" by blast
  from Cons.IH [of "acc @ [Comparsion l r k]"] Cons.prems obtain es where
    es: "each (bind_condition tb) conds (acc @ [Comparsion l r k]) = Inr ((acc @ [Comparsion l r k]) @ es)"
      "\<And>vals t. row_in ?s vals t \<Longrightarrow> \<forall>cnd \<in> set conds. cond_comparable ?s vals cnd \<Longrightarrow>
         list_all2 (\<lambda>e b. evaluate e t ?s = Inr (truth b)) es (map (cond_holds ?s vals) conds)" by auto
  have "bind_condition tb cnd acc = Inr (acc @ [Comparsion l r k])"
    by (simp add: bind_condition_def l(1) r(1) k)
  with es comparsion_truth [OF l(2) r(2) k] show ?case
    by (intro exI [of _ "Comparsion l r k # es"]) (simp del: evaluate.simps)
qed simp

lemma filter_bound:
  assumes "cat_get_table tbl c = Some tb" "\<forall>cnd \<in> set conds. cond_bound (tb_schema tb) cnd"
  shows "\<exists>e. filter_executer tbl conds c = Inr e \<and>
    (\<forall>vals t. row_in (tb_schema tb) vals t \<longrightarrow> (\<forall>cnd \<in> set conds. cond_comparable (tb_schema tb) vals cnd) \<longrightarrow>
       filter_passes e t (tb_schema tb) = Inr (\<forall>cnd \<in> set conds. cond_holds (tb_schema tb) vals cnd))"
proof -
  let ?s = "tb_schema tb"
  from conditions_bound [OF assms(2), of "[]"] obtain es where
    es: "each (bind_condition tb) conds [] = Inr es"
      "\<And>vals t. row_in ?s vals t \<Longrightarrow> \<forall>cnd \<in> set conds. cond_comparable ?s vals cnd \<Longrightarrow>
         list_all2 (\<lambda>e b. evaluate e t ?s = Inr (truth b)) es (map (cond_holds ?s vals) conds)" by auto
  have "filter_passes (Filter es) t ?s = Inr (\<forall>cnd \<in> set conds. cond_holds ?s vals cnd)"
    if "row_in ?s vals t" "\<forall>cnd \<in> set conds. cond_comparable ?s vals cnd" for vals t
    using filter_conj [OF es(2) [OF that]]
    by (simp add: filter_passes_def truth_def value_int_def any_long_def list_all_iff del: evaluate.simps)
  with es(1) assms(1) show ?thesis by (intro exI [of _ "Filter es"]) (simp add: filter_executer_def)
qed

section \<open>Projections of rows\<close>

text \<open>The row that bytes stand for.\<close>

definition row_decode :: "schema \<Rightarrow> bytes \<Rightarrow> sql_value list" where
  "row_decode s d =
     map (\<lambda>i. case value_at (tuple_new d) s i of Inr v \<Rightarrow> v | Inl _ \<Rightarrow> value_default) [0..<length (columns s)]"

lemma row_decode_bytes: "row_ok vals s \<Longrightarrow> row_decode s (row_bytes vals s) = vals"
  using row_length [of vals s]
  by (auto simp: row_decode_def value_at_row tuple_new_def intro!: nth_equalityI)

definition project_row :: "nat list \<Rightarrow> sql_value list \<Rightarrow> sql_value list" where
  "project_row idxs vals = map ((!) vals) idxs"

definition project_schema :: "nat list \<Rightarrow> schema \<Rightarrow> schema" where
  "project_schema idxs s = \<lparr>columns = map ((!) (columns s)) idxs\<rparr>"

lemma bind_columns_bound: "bind_columns s attrs = Some idxs \<Longrightarrow> \<forall>i \<in> set idxs. i < length (columns s)"
  by (induction s attrs arbitrary: idxs rule: bind_columns.induct)
    (auto simp: Let_def column_idx_bound split: if_splits)

lemma project_row_ok:
  assumes "row_ok vals s" "\<forall>i \<in> set idxs. i < length (columns s)"
  shows "row_ok (project_row idxs vals) (project_schema idxs s)"
  using assms by (auto simp: row_ok_def project_row_def project_schema_def list_all2_conv_all_nth)

lemma project_evaluates:
  assumes "row_in s vals t" "\<forall>i \<in> set idxs. i < length (columns s)"
  shows "evaluate_all (map Column_Value idxs) t s = Inr (project_row idxs vals)"
proof -
  have "each (\<lambda>e values. andthen (evaluate e t s) (\<lambda>v. Inr (values @ [v]))) (map Column_Value idxs) acc =
      Inr (acc @ map ((!) vals) idxs)" for acc
    using assms by (induction idxs arbitrary: acc) (auto simp: row_in_def value_at_row)
  then show ?thesis by (simp add: evaluate_all_def project_row_def)
qed

section \<open>The state of a table\<close>

text \<open>The catalog knows the table, and its heap shows the view of it.\<close>

definition table_state :: "string \<Rightarrow> table_view \<Rightarrow> catalog \<Rightarrow> bool" where
  "table_state tbl T c \<longleftrightarrow>
     cat_get_table tbl c = Some \<lparr>tb_name = tbl, tb_schema = tv_schema T\<rparr> \<and>
     (\<exists>bp. stm_get_table tbl (ct_stm c) = Some bp \<and> heap_shows T bp)"

lemma table_state_rows: "table_state tbl T c \<Longrightarrow> vals \<in> set (tv_rows T) \<Longrightarrow> row_ok vals (tv_schema T)"
  by (auto simp: table_state_def heap_showsD(6))

lemma table_state_put:
  assumes "table_state tbl T c" "heap_shows T' bp" "tv_schema T' = tv_schema T"
  shows "table_state tbl T' (put_heap tbl bp c)"
  using assms by (auto simp: table_state_def find_put_heap)

lemma table_state_scan:
  assumes st: "table_state tbl T c" and sc: "view_scannable T"
  shows "\<exists>sc bp1 sc2 bp2 bp3. cat_scanner tbl c = Inr (Some sc, put_heap tbl bp1 c) \<and>
    yields 1 (tv_schema T) (SeqScan_Exec tbl (Some sc) (tv_schema T)) (put_heap tbl bp1 c)
      (map (\<lambda>vals. row_bytes vals (tv_schema T)) (tv_rows T))
      (SeqScan_Exec tbl (Some sc2) (tv_schema T)) (put_heap tbl bp2 c) \<and>
    exec_destroy (SeqScan_Exec tbl (Some sc2) (tv_schema T)) (put_heap tbl bp2 c) = Inr (put_heap tbl bp3 c) \<and>
    table_state tbl (view_scanned T) (put_heap tbl bp3 c)"
proof -
  from st obtain bp where b: "stm_get_table tbl (ct_stm c) = Some bp" "heap_shows T bp"
    by (auto simp: table_state_def)
  from shows_scan [OF b(2) sc] obtain s bp1 s2 bp2 bp3 where
    h: "heap_scanner bp = Inr (SUCCESS, s, bp1)"
      "scan_all (Suc (length (tv_rows T))) s bp1 =
         Inr (map (\<lambda>vals. row_bytes vals (tv_schema T)) (tv_rows T), Some OUT_OF_RANGE, s2, bp2)"
      "scanner_destroy s2 bp2 = Inr bp3" "heap_shows (view_scanned T) bp3" by blast
  have f: "stm_get_table tbl (ct_stm (put_heap tbl x c)) = Some x" for x by (simp add: find_put_heap b(1))
  from scan_yields [OF h(2) f] have
    "yields 1 (tv_schema T) (SeqScan_Exec tbl (Some s) (tv_schema T)) (put_heap tbl bp1 c)
      (map (\<lambda>vals. row_bytes vals (tv_schema T)) (tv_rows T))
      (SeqScan_Exec tbl (Some s2) (tv_schema T)) (put_heap tbl bp2 c)" by simp
  with h(1,3) b(1) f table_state_put [OF st h(4)] show ?thesis
    by (intro exI [of _ s] exI [of _ bp1] exI [of _ s2] exI [of _ bp2] exI [of _ bp3]) (simp add: cat_scanner_def)
qed

lemma table_state_abandon:
  assumes st: "table_state tbl T c" and sc: "view_abandonable T"
  shows "\<exists>sc bp. cat_scanner tbl c = Inr (Some sc, put_heap tbl bp c) \<and>
    table_state tbl (view_abandoned T) (put_heap tbl bp c)"
proof -
  from st obtain bp where b: "stm_get_table tbl (ct_stm c) = Some bp" "heap_shows T bp"
    by (auto simp: table_state_def)
  from shows_abandoned [OF b(2) sc] obtain s bp1 where
    h: "heap_scanner bp = Inr (SUCCESS, s, bp1)" "heap_shows (view_abandoned T) bp1" by blast
  with b(1) table_state_put [OF st h(2)] show ?thesis
    by (intro exI [of _ s] exI [of _ bp1]) (simp add: cat_scanner_def)
qed

section \<open>SELECT\<close>

text \<open>The rows a query selects, and the tuples it returns for them.\<close>

definition selected :: "schema \<Rightarrow> condition list \<Rightarrow> sql_value list list \<Rightarrow> sql_value list list" where
  "selected s conds rows = filter (\<lambda>vals. \<forall>cnd \<in> set conds. cond_holds s vals cnd) rows"

definition result_tuple :: "nat list \<Rightarrow> schema \<Rightarrow> sql_value list \<Rightarrow> tuple" where
  "result_tuple idxs s vals = tuple_new (row_bytes (project_row idxs vals) (project_schema idxs s))"

text \<open>The part of the tree below the projection, with or without a condition.\<close>

definition source :: "string \<Rightarrow> schema \<Rightarrow> expr option \<Rightarrow> scanner option \<Rightarrow> executer" where
  "source tbl s cond sc =
     (case cond of Some e \<Rightarrow> Filter_Exec e s (SeqScan_Exec tbl sc s) | None \<Rightarrow> SeqScan_Exec tbl sc s)"

lemma source_yields:
  assumes "yields 1 s (SeqScan_Exec tbl sc s) c (map (\<lambda>vals. row_bytes vals s) rows) (SeqScan_Exec tbl sc2 s) c2"
    and "\<forall>vals \<in> set rows. row_ok vals s"
    and "case cond of
        Some e \<Rightarrow> \<forall>vals \<in> set rows. \<forall>t. row_in s vals t \<longrightarrow>
          filter_passes e t s = Inr (\<forall>cnd \<in> set conds. cond_holds s vals cnd)
      | None \<Rightarrow> conds = []"
  shows "yields (length rows + 2) s (source tbl s cond sc) c
    (map (\<lambda>vals. row_bytes vals s) (selected s conds rows)) (source tbl s cond sc2) c2"
proof (cases cond)
  case None
  with assms(1,3) show ?thesis by (auto simp: source_def selected_def intro: yields_mono)
next
  case (Some e)
  let ?P = "\<lambda>d. \<forall>cnd \<in> set conds. cond_holds s (row_decode s d) cnd"
  have "yields (1 + length (map (\<lambda>vals. row_bytes vals s) rows) + 1) s (Filter_Exec e s (SeqScan_Exec tbl sc s)) c
      (filter ?P (map (\<lambda>vals. row_bytes vals s) rows)) (Filter_Exec e s (SeqScan_Exec tbl sc2 s)) c2"
  proof (rule filter_yields [OF assms(1)])
    fix d and t :: tuple
    assume d: "d \<in> set (map (\<lambda>vals. row_bytes vals s) rows)" "t_data t = d"
    then obtain vals where v: "vals \<in> set rows" "d = row_bytes vals s" by auto
    with assms(2) d(2) have "row_in s vals t" "row_decode s d = vals" by (simp_all add: row_in_def row_decode_bytes)
    with assms(3) Some v(1) show "filter_passes e t s = Inr (?P d)" by simp
  qed
  moreover have "filter ?P (map (\<lambda>vals. row_bytes vals s) rows) = map (\<lambda>vals. row_bytes vals s) (selected s conds rows)"
    using assms(2) unfolding selected_def
    by (induction rows) (simp_all add: row_decode_bytes)
  ultimately show ?thesis using Some by (simp add: source_def)
qed

text \<open>The projection of a child that hands out the rows \<open>vs\<close>.\<close>

lemma project_yields:
  assumes src: "yields N s child c1 (map (\<lambda>vals. row_bytes vals s) vs) child2 c2"
    and ok: "\<forall>vals \<in> set vs. row_ok vals s" and idxs: "\<forall>i \<in> set idxs. i < length (columns s)"
  shows "yields (Suc N) (project_schema idxs s)
      (Projection_Exec (map Column_Value idxs) (project_schema idxs s) child) c1
      (map (\<lambda>vals. row_bytes (project_row idxs vals) (project_schema idxs s)) vs)
      (Projection_Exec (map Column_Value idxs) (project_schema idxs s) child2) c2"
proof -
  let ?g = "\<lambda>d. row_bytes (project_row idxs (row_decode s d)) (project_schema idxs s)"
  have "map ?g (map (\<lambda>vals. row_bytes vals s) vs) = map (\<lambda>vals. row_bytes (project_row idxs vals) (project_schema idxs s)) vs"
    using ok by (simp add: row_decode_bytes)
  moreover have "yields (Suc N) (project_schema idxs s)
      (Projection_Exec (map Column_Value idxs) (project_schema idxs s) child) c1 (map ?g (map (\<lambda>vals. row_bytes vals s) vs))
      (Projection_Exec (map Column_Value idxs) (project_schema idxs s) child2) c2"
  proof (rule projection_yields [OF src])
    fix d and t :: tuple
    assume d: "d \<in> set (map (\<lambda>vals. row_bytes vals s) vs)" "t_data t = d"
    then obtain vals where v: "vals \<in> set vs" "d = row_bytes vals s" by auto
    with ok d(2) have r: "row_in s vals t" "row_decode s d = vals" "row_ok vals s"
      by (simp_all add: row_in_def row_decode_bytes)
    with project_evaluates [OF r(1) idxs] create_tuple_row [OF project_row_ok [OF r(3) idxs]]
    show "\<exists>w. evaluate_all (map Column_Value idxs) t s = Inr w \<and>
        create_tuple w (project_schema idxs s) = Inr (tuple_new (?g d))" by simp
  qed
  ultimately show ?thesis by (simp only:)
qed

text \<open>The loop and the end of \<open>execute_sql\<close> on an executer that hands out the data \<open>ds\<close>.\<close>

lemma run_executer_yields:
  assumes "yields N s1 ex c1 ds ex2 c2" "exec_destroy ex2 c2 = Inr c3" "N + length ds + 1 \<le> n" "qr_tuples res = []"
  shows "run_executer n sql ex res c1 = Inr (res\<lparr>qr_tuples := map tuple_new ds, qr_rc := SUCCESS\<rparr>, c3)"
  using run_loop_yields [OF assms(1), of n "tuple_new []" "[]"] assms(2-4)
  by (simp add: run_executer_def Let_def)

text \<open>Binding a SELECT: the scan is set up, then the condition, then the columns of the select list.\<close>

lemma select_binds:
  assumes tb: "cat_get_table tbl c = Some \<lparr>tb_name = tbl, tb_schema = s\<rparr>"
    and scan: "cat_scanner tbl c = Inr (sc, put_heap tbl bp1 c)"
    and cols: "attrs \<noteq> []" "find (foreign_attr tbl) attrs = None" and conds: "\<forall>cnd \<in> set conds. cond_bound s cnd"
  shows "\<exists>e. (\<forall>vals t. row_in s vals t \<longrightarrow> (\<forall>cnd \<in> set conds. cond_comparable s vals cnd) \<longrightarrow>
      filter_passes e t s = Inr (\<forall>cnd \<in> set conds. cond_holds s vals cnd)) \<and>
    bind (Select \<lparr>selist = attrs, from_list = [tbl], cond_list = conds\<rparr>) res c =
      (case bind_columns s attrs of
         None \<Rightarrow> Inr (Error_Exec COLUMN_NOT_EXIST,
           res\<lparr>qr_type := Some SELECT_Q, qr_msg := [], qr_rc := COLUMN_NOT_EXIST\<rparr>, put_heap tbl bp1 c)
       | Some idxs \<Rightarrow>
           Inr (Projection_Exec (map Column_Value idxs) (project_schema idxs s)
                  (source tbl s (if conds = [] then None else Some e) sc),
             res\<lparr>qr_type := Some SELECT_Q, qr_output_schema := Some (project_schema idxs s)\<rparr>, put_heap tbl bp1 c))"
proof -
  from filter_bound [of tbl "put_heap tbl bp1 c" "\<lparr>tb_name = tbl, tb_schema = s\<rparr>" conds] tb conds obtain e where
    e: "filter_executer tbl conds (put_heap tbl bp1 c) = Inr e"
      "\<forall>vals t. row_in s vals t \<longrightarrow> (\<forall>cnd \<in> set conds. cond_comparable s vals cnd) \<longrightarrow>
         filter_passes e t s = Inr (\<forall>cnd \<in> set conds. cond_holds s vals cnd)" by auto
  have "copy_schema s idxs = Inr (project_schema idxs s)" if "bind_columns s attrs = Some idxs" for idxs
    using copy_schema_columns [OF bind_columns_bound [OF that]] by (simp add: project_schema_def)
  with tb scan cols e(1) have
    "bind (Select \<lparr>selist = attrs, from_list = [tbl], cond_list = conds\<rparr>) res c =
      (case bind_columns s attrs of
         None \<Rightarrow> Inr (Error_Exec COLUMN_NOT_EXIST,
           res\<lparr>qr_type := Some SELECT_Q, qr_msg := [], qr_rc := COLUMN_NOT_EXIST\<rparr>, put_heap tbl bp1 c)
       | Some idxs \<Rightarrow>
           Inr (Projection_Exec (map Column_Value idxs) (project_schema idxs s)
                  (source tbl s (if conds = [] then None else Some e) sc),
             res\<lparr>qr_type := Some SELECT_Q, qr_output_schema := Some (project_schema idxs s)\<rparr>, put_heap tbl bp1 c))"
    by (simp add: bind_def bind_select_def Let_def source_def error_executer_def split: option.split)
  with e(2) show ?thesis by blast
qed

text \<open>The code runs a statement: it is bound, and the executer is driven to its end.\<close>

definition runs :: "query_stmt \<Rightarrow> nat \<Rightarrow> string \<Rightarrow> catalog \<Rightarrow> (query_result \<times> catalog) res" where
  "runs q n sql c = andthen (bind q query_result_new c) (\<lambda>(ex, res, c). run_executer n sql ex res c)"

definition selected_result :: "nat list \<Rightarrow> condition list \<Rightarrow> table_view \<Rightarrow> query_result" where
  "selected_result idxs conds T =
     \<lparr>qr_type = Some SELECT_Q, qr_msg = [], qr_rc = SUCCESS,
      qr_tuples = map (result_tuple idxs (tv_schema T)) (selected (tv_schema T) conds (tv_rows T)),
      qr_output_schema = Some (project_schema idxs (tv_schema T))\<rparr>"

lemma select_runs:
  assumes st: "table_state tbl T c" and sc: "view_scannable T"
    and cols: "bind_columns (tv_schema T) attrs = Some idxs" "attrs \<noteq> []" "find (foreign_attr tbl) attrs = None"
    and conds: "\<forall>cnd \<in> set conds. cond_bound (tv_schema T) cnd"
      "\<forall>vals \<in> set (tv_rows T). \<forall>cnd \<in> set conds. cond_comparable (tv_schema T) vals cnd"
  shows "\<exists>bp. table_state tbl (view_scanned T) (put_heap tbl bp c) \<and>
    (\<forall>n \<ge> 2 * length (tv_rows T) + 4. \<forall>sql.
       runs (Select \<lparr>selist = attrs, from_list = [tbl], cond_list = conds\<rparr>) n sql c =
         Inr (selected_result idxs conds T, put_heap tbl bp c))"
proof -
  let ?s = "tv_schema T" and ?b = "\<lambda>vals. row_bytes vals (tv_schema T)"
  let ?sel = "selected ?s conds (tv_rows T)"
  have tb: "cat_get_table tbl c = Some \<lparr>tb_name = tbl, tb_schema = ?s\<rparr>" using st by (simp add: table_state_def)
  have ok: "\<forall>vals \<in> set (tv_rows T). row_ok vals ?s" using table_state_rows [OF st] by blast
  from table_state_scan [OF st sc] obtain sc bp1 sc2 bp2 bp3 where
    scan: "cat_scanner tbl c = Inr (Some sc, put_heap tbl bp1 c)"
      "yields 1 ?s (SeqScan_Exec tbl (Some sc) ?s) (put_heap tbl bp1 c) (map ?b (tv_rows T))
         (SeqScan_Exec tbl (Some sc2) ?s) (put_heap tbl bp2 c)"
      "exec_destroy (SeqScan_Exec tbl (Some sc2) ?s) (put_heap tbl bp2 c) = Inr (put_heap tbl bp3 c)"
      "table_state tbl (view_scanned T) (put_heap tbl bp3 c)" by blast
  let ?res = "query_result_new\<lparr>qr_type := Some SELECT_Q, qr_output_schema := Some (project_schema idxs ?s)\<rparr>"
  let ?c1 = "put_heap tbl bp1 c" and ?c2 = "put_heap tbl bp2 c"
  from select_binds [OF tb scan(1) cols(2,3) conds(1), of query_result_new] cols(1) obtain e where
    e: "\<forall>vals t. row_in ?s vals t \<longrightarrow> (\<forall>cnd \<in> set conds. cond_comparable ?s vals cnd) \<longrightarrow>
         filter_passes e t ?s = Inr (\<forall>cnd \<in> set conds. cond_holds ?s vals cnd)"
    and bound: "bind (Select \<lparr>selist = attrs, from_list = [tbl], cond_list = conds\<rparr>) query_result_new c =
       Inr (Projection_Exec (map Column_Value idxs) (project_schema idxs ?s)
              (source tbl ?s (if conds = [] then None else Some e) (Some sc)), ?res, ?c1)" by auto
  let ?cond = "if conds = [] then None else Some e"
  let ?ex = "\<lambda>sc. Projection_Exec (map Column_Value idxs) (project_schema idxs ?s) (source tbl ?s ?cond sc)"
  have src: "yields (length (tv_rows T) + 2) ?s (source tbl ?s ?cond (Some sc)) ?c1
      (map ?b ?sel) (source tbl ?s ?cond (Some sc2)) ?c2"
    by (rule source_yields [OF scan(2) ok]) (use e conds(2) in auto)
  have "\<forall>vals \<in> set ?sel. row_ok vals ?s" using ok by (simp add: selected_def)
  note out = project_yields [OF src this bind_columns_bound [OF cols(1)]]
  have d: "exec_destroy (?ex (Some sc2)) ?c2 = Inr (put_heap tbl bp3 c)"
    using scan(3) by (cases "conds = []") (simp_all add: source_def)
  have len: "length ?sel \<le> length (tv_rows T)" by (simp add: selected_def)
  have "runs (Select \<lparr>selist = attrs, from_list = [tbl], cond_list = conds\<rparr>) n sql c =
      Inr (selected_result idxs conds T, put_heap tbl bp3 c)" if "2 * length (tv_rows T) + 4 \<le> n" for n sql
    using run_executer_yields [OF out d, of n ?res sql] that len bound
    by (simp add: runs_def query_result_new_def selected_result_def result_tuple_def comp_def)
  with scan(4) show ?thesis by blast
qed

end
