(* ===== verification/Query_State.thy ===== *)
theory Query_State
  imports Query Pool_Properties
begin

text \<open>
  The statements that change the database: what INSERT, CREATE TABLE and DROP TABLE do to the state of
  the tables and to the files, and which statements are refused.
\<close>

text \<open>A statement in print is executed as the binder and its executer run it.\<close>

lemma execute_printed:
  "stmt_ok q \<Longrightarrow>
   execute_sql n (print_stmt q) c = runs q n (print_stmt q) c"
  by (simp add: execute_sql_def parse_sql_print runs_def)

lemma two_fuel:
  assumes "2 \<le> n"
  obtains m where "n = Suc (Suc m)"
  using assms by (intro that [of "n - 2"]) simp

section \<open>INSERT\<close>

lemma types_match_row: "row_ok vals s \<Longrightarrow> types_match vals (columns s)"
proof -
  have "list_all2 cell_ok vals cs \<Longrightarrow> types_match vals cs" for cs
    by (induction rule: list_all2_induct)
      (auto elim!: cell_cases simp: check_attr_type_def value_int_def value_float_def value_string_def)
  then show "row_ok vals s \<Longrightarrow> types_match vals (columns s)" by (simp add: row_ok_def)
qed

lemma insert_runs:
  assumes st: "table_state tbl T c" and vals: "row_ok vals (tv_schema T)" and room: "view_room vals T"
  shows "\<exists>bp. table_state tbl (view_insert vals T) (put_heap tbl bp c) \<and>
    (\<forall>n \<ge> 2. \<forall>sql. runs (Insert \<lparr>i_table_name = tbl, i_cols = cols, i_values = vals\<rparr>) n sql c =
       Inr (query_result_new\<lparr>qr_type := Some INSERT_Q\<rparr>, put_heap tbl bp c))"
proof -
  let ?s = "tv_schema T"
  from st obtain bp where
    t: "cat_get_table tbl c = Some \<lparr>tb_name = tbl, tb_schema = ?s\<rparr>" "stm_get_table tbl (ct_stm c) = Some bp"
      "heap_shows T bp" by (auto simp: table_state_def)
  from shows_insert [OF t(3) vals room] obtain bp' where
    i: "heap_insert (rec_new (row_bytes vals ?s)) bp = Inr (True, bp')" "heap_shows (view_insert vals T) bp'" by blast
  have "length vals = length (columns ?s)" by (rule row_length [OF vals])
  then have b: "bind (Insert \<lparr>i_table_name = tbl, i_cols = cols, i_values = vals\<rparr>) query_result_new c =
      Inr (Insert_Exec tbl ?s vals, query_result_new\<lparr>qr_type := Some INSERT_Q\<rparr>, c)"
    using t(1) types_match_row [OF vals] by (simp add: bind_def bind_insert_def Let_def)
  have "runs (Insert \<lparr>i_table_name = tbl, i_cols = cols, i_values = vals\<rparr>) n sql c =
      Inr (query_result_new\<lparr>qr_type := Some INSERT_Q\<rparr>, put_heap tbl bp' c)" if "2 \<le> n" for n sql
  proof -
    obtain m where "n = Suc (Suc m)" using \<open>2 \<le> n\<close> by (rule two_fuel)
    with b i(1) t(2) create_tuple_row [OF vals] show ?thesis
      by (simp add: runs_def run_executer_def insert_next_def tuple_new_def query_result_new_def Let_def)
  qed
  with table_state_put [OF st i(2)] show ?thesis by auto
qed

section \<open>SELECT of a column that does not exist\<close>

lemma error_runs:
  assumes "code \<noteq> SUCCESS" "code \<noteq> OUT_OF_RANGE" "2 \<le> n" "qr_tuples res = []"
  shows "run_executer n sql (Error_Exec code) res c = Inr (res\<lparr>qr_rc := code, qr_msg := rc2str code @ '' '' @ sql\<rparr>, c)"
proof -
  obtain m where m: "n = Suc (Suc m)" using assms(3) by (rule two_fuel)
  with assms show ?thesis by (cases res) (simp add: run_executer_def error_next_def Let_def)
qed

definition refused_result :: "query_type \<Rightarrow> rc \<Rightarrow> string \<Rightarrow> query_result" where
  "refused_result type code sql =
     \<lparr>qr_type = Some type, qr_msg = rc2str code @ '' '' @ sql, qr_rc = code, qr_tuples = [], qr_output_schema = None\<rparr>"

lemma select_misses:
  assumes st: "table_state tbl T c" and sc: "view_abandonable T"
    and cols: "bind_columns (tv_schema T) attrs = None" "attrs \<noteq> []" "find (foreign_attr tbl) attrs = None"
    and conds: "\<forall>cnd \<in> set conds. cond_bound (tv_schema T) cnd"
  shows "\<exists>bp. table_state tbl (view_abandoned T) (put_heap tbl bp c) \<and>
    (\<forall>n \<ge> 2. \<forall>sql. runs (Select \<lparr>selist = attrs, from_list = [tbl], cond_list = conds\<rparr>) n sql c =
       Inr (refused_result SELECT_Q COLUMN_NOT_EXIST sql, put_heap tbl bp c))"
proof -
  have tb: "cat_get_table tbl c = Some \<lparr>tb_name = tbl, tb_schema = tv_schema T\<rparr>" using st by (simp add: table_state_def)
  from table_state_abandon [OF st sc] obtain s bp where
    s: "cat_scanner tbl c = Inr (Some s, put_heap tbl bp c)" "table_state tbl (view_abandoned T) (put_heap tbl bp c)" by blast
  from select_binds [OF tb s(1) cols(2,3) conds, of query_result_new] cols(1) have
    "bind (Select \<lparr>selist = attrs, from_list = [tbl], cond_list = conds\<rparr>) query_result_new c =
      Inr (Error_Exec COLUMN_NOT_EXIST,
        query_result_new\<lparr>qr_type := Some SELECT_Q, qr_msg := [], qr_rc := COLUMN_NOT_EXIST\<rparr>, put_heap tbl bp c)" by auto
  then have "runs (Select \<lparr>selist = attrs, from_list = [tbl], cond_list = conds\<rparr>) n sql c =
      Inr (refused_result SELECT_Q COLUMN_NOT_EXIST sql, put_heap tbl bp c)" if "2 \<le> n" for n sql
    using error_runs [OF _ _ that] by (simp add: runs_def query_result_new_def refused_result_def)
  with s(2) show ?thesis by blast
qed

section \<open>CREATE TABLE\<close>

definition column_of :: "col_attr \<Rightarrow> column" where
  "column_of a =
     \<lparr>col_type = (if ca_type a = ''VARCHAR'' then VARCHAR_C else if ca_type a = ''CHAR'' then CHAR_C
                  else if ca_type a = ''INT'' then INT_C else FLOAT_C),
      col_name = ca_name a, col_size = (if ca_type a = ''CHAR'' then ca_size a else 0)\<rparr>"

lemma bind_columns_of:
  "\<forall>a \<in> set cas. ca_type a \<in> {''VARCHAR'', ''CHAR'', ''INT'', ''FLOAT''} \<Longrightarrow>
   each bind_column cas acc = Inr (acc @ map column_of cas)"
  by (induction cas arbitrary: acc) (auto simp: bind_column_def column_of_def)

lemma col_ok_types:
  assumes "list_all col_ok cas"
  shows "\<forall>a \<in> set cas. ca_type a \<in> {''VARCHAR'', ''CHAR'', ''INT'', ''FLOAT''}"
proof -
  have "ca_type a \<in> {''VARCHAR'', ''CHAR'', ''INT'', ''FLOAT''}" if "col_ok a" for a
    using that unfolding col_ok_def by (cases "ca_type a = ''INT'' \<or> ca_type a = ''FLOAT''") auto
  with assms show ?thesis by (simp only: list_all_iff) blast
qed

text \<open>The maps of a catalog are in order.\<close>

definition catalog_sorted :: "catalog \<Rightarrow> bool" where
  "catalog_sorted c \<longleftrightarrow> map_sorted (ct_tables c) \<and> map_sorted (ct_stm c)"

lemma catalog_sorted_put [simp]: "catalog_sorted (put_heap tbl bp c) = catalog_sorted c"
  by (simp add: catalog_sorted_def put_heap_def)

lemma shows_new:
  "\<exists>bp. pool_open None 16 = Inr bp \<and> heap_shows (view_new s) bp"
  using opened_pool [of 16] by (force simp: heap_shows_def view_new_def row_slots_def tv_rows_def BFP_MAX_PAGE_NUM_def PAGE_SIZE_def)

text \<open>The tables of one catalog are those of another, but for one.\<close>

definition others_same :: "string \<Rightarrow> catalog \<Rightarrow> catalog \<Rightarrow> bool" where
  "others_same tbl c c' \<longleftrightarrow>
     (\<forall>x. x \<noteq> tbl \<longrightarrow> cat_get_table x c' = cat_get_table x c \<and> stm_get_table x (ct_stm c') = stm_get_table x (ct_stm c))"

lemma others_same_put: "others_same tbl c (put_heap tbl bp c)"
  by (simp add: others_same_def put_heap_def stm_get_table_def map_find_assign cat_get_table_def)

lemma others_same_state: "others_same tbl c c' \<Longrightarrow> x \<noteq> tbl \<Longrightarrow> table_state x T c' = table_state x T c"
  by (simp add: others_same_def table_state_def)

lemma create_runs:
  assumes so: "catalog_sorted c" and new: "cat_get_table tbl c = None" "stm_get_table tbl (ct_stm c) = None"
      "file_at (db_name tbl) (ct_files c) = None"
    and ty: "cas \<noteq> []" "\<forall>a \<in> set cas. ca_type a \<in> {''VARCHAR'', ''CHAR'', ''INT'', ''FLOAT''}"
  shows "\<exists>c'. table_state tbl (view_new \<lparr>columns = map column_of cas\<rparr>) c' \<and> catalog_sorted c' \<and> others_same tbl c c' \<and>
    ct_base_dir c' = ct_base_dir c \<and>
    (\<forall>x. x \<noteq> normal_path (db_name tbl) \<longrightarrow> ct_files c' x = ct_files c x) \<and>
    (\<forall>n \<ge> 2. \<forall>sql. runs (Create_Table \<lparr>ct_col_attrs = cas, ct_table_name = tbl\<rparr>) n sql c =
       Inr (query_result_new\<lparr>qr_type := Some CREATE_Q\<rparr>, c'))"
proof -
  let ?s = "\<lparr>columns = map column_of cas\<rparr>"
  let ?t = "\<lparr>tb_name = tbl, tb_schema = ?s\<rparr>"
  from shows_new obtain bp where b: "pool_open None 16 = Inr bp" "heap_shows (view_new ?s) bp" by blast
  define c' where "c' = c\<lparr>ct_tables := map_emplace tbl ?t (ct_tables c), ct_stm := map_emplace tbl bp (ct_stm c),
      ct_files := file_put (db_name tbl) (Some (db_file (bp_disk bp))) (ct_files c)\<rparr>"
  have sorted: "map_sorted (ct_tables c)" "map_sorted (ct_stm c)" using so by (auto simp: catalog_sorted_def)
  have cr: "cat_create_table tbl (map column_of cas) c = Inr c'"
    using new b(1)
    by (simp add: cat_create_table_def stm_create_table_def stm_get_table_def heap_new_def heap_open_def Let_def c'_def)
  have bd: "bind (Create_Table \<lparr>ct_col_attrs = cas, ct_table_name = tbl\<rparr>) query_result_new c =
      Inr (Create_Table_Exec tbl (map column_of cas), query_result_new\<lparr>qr_type := Some CREATE_Q\<rparr>, c)"
    using new(1) ty bind_columns_of [of cas "[]"]
    by (simp add: bind_def bind_create_def Let_def cat_has_table_def cat_get_table_def)
  have "runs (Create_Table \<lparr>ct_col_attrs = cas, ct_table_name = tbl\<rparr>) n sql c =
      Inr (query_result_new\<lparr>qr_type := Some CREATE_Q\<rparr>, c')" if "2 \<le> n" for n sql
  proof -
    obtain m where "n = Suc (Suc m)" using \<open>2 \<le> n\<close> by (rule two_fuel)
    with cr bd show ?thesis
      by (simp add: runs_def run_executer_def create_table_next_def query_result_new_def Let_def)
  qed
  moreover have "table_state tbl (view_new ?s) c'"
    using sorted new b(2)
    by (simp add: table_state_def c'_def cat_get_table_def stm_get_table_def map_find_emplace)
  moreover have "catalog_sorted c'" using sorted by (simp add: catalog_sorted_def c'_def map_emplace_sorted)
  moreover have "others_same tbl c c'"
    using sorted by (simp add: others_same_def c'_def cat_get_table_def stm_get_table_def map_find_emplace)
  moreover have "ct_base_dir c' = ct_base_dir c" "\<forall>x. x \<noteq> normal_path (db_name tbl) \<longrightarrow> ct_files c' x = ct_files c x"
    by (simp_all add: c'_def file_put_def)
  ultimately show ?thesis by blast
qed

section \<open>DROP TABLE\<close>

lemma drop_runs:
  assumes t: "cat_get_table tbl c \<noteq> None" "stm_get_table tbl (ct_stm c) = Some bp"
    and h: "heap_at S bp" "\<not> bp_closed bp" "unat (next_pid (bp_disk bp)) \<le> BFP_MAX_PAGE_NUM"
  shows "\<exists>c'. cat_get_table tbl c' = None \<and> stm_get_table tbl (ct_stm c') = None \<and> others_same tbl c c' \<and>
    ct_base_dir c' = ct_base_dir c \<and> (catalog_sorted c \<longrightarrow> catalog_sorted c') \<and>
    (\<forall>x. ct_files c' x =
       (if x \<in> {normal_path (tbl @ ''.json''), normal_path (db_name tbl)} then None else ct_files c x)) \<and>
    (\<forall>n \<ge> 2. \<forall>sql. runs (Drop \<lparr>ds_table = tbl\<rparr>) n sql c = Inr (query_result_new\<lparr>qr_type := Some DROP_Q\<rparr>, c'))"
proof -
  from reopened [OF h, of 1] obtain bp' where cl: "pool_close bp = Inr bp'" by auto
  define fs where "fs = file_put (db_name tbl) (Some (db_file (bp_disk bp'))) (file_put (tbl @ ''.json'') None (ct_files c))"
  define c' where "c' = c\<lparr>ct_tables := map_erase tbl (ct_tables c), ct_stm := map_erase tbl (ct_stm c),
      ct_files := file_put (db_name tbl) None fs\<rparr>"
  have has: "cat_has_table tbl c" using t(1) by (simp add: cat_has_table_def cat_get_table_def)
  have dr: "cat_drop_table tbl c = Inr c'"
    using has t(2) h(2) cl
    by (simp add: cat_drop_table_def stm_drop_table_def stm_get_table_def heap_destroy_def Let_def c'_def fs_def)
  have "runs (Drop \<lparr>ds_table = tbl\<rparr>) n sql c = Inr (query_result_new\<lparr>qr_type := Some DROP_Q\<rparr>, c')" if "2 \<le> n" for n sql
  proof -
    obtain m where "n = Suc (Suc m)" using \<open>2 \<le> n\<close> by (rule two_fuel)
    with has dr show ?thesis
      by (simp add: runs_def bind_def bind_drop_def run_executer_def drop_table_next_def query_result_new_def Let_def)
  qed
  moreover have "cat_get_table tbl c' = None" "stm_get_table tbl (ct_stm c') = None" "others_same tbl c c'"
    by (simp_all add: c'_def cat_get_table_def stm_get_table_def map_find_erase others_same_def)
  moreover have "\<forall>x. ct_files c' x =
      (if x \<in> {normal_path (tbl @ ''.json''), normal_path (db_name tbl)} then None else ct_files c x)"
    by (simp add: c'_def fs_def file_put_def)
  moreover have "catalog_sorted c \<longrightarrow> catalog_sorted c'" "ct_base_dir c' = ct_base_dir c"
    by (simp_all add: catalog_sorted_def c'_def map_erase_sorted)
  ultimately show ?thesis by blast
qed

section \<open>Refused statements\<close>

text \<open>The code a statement is refused with before anything is touched.\<close>

fun rejection :: "query_stmt \<Rightarrow> catalog \<Rightarrow> rc option" where
  "rejection (Select st) c =
     (if length (from_list st) \<noteq> 1 \<or> find (foreign_attr (hd (from_list st))) (selist st) \<noteq> None then Some SYNTAX_ERROR
      else if cat_get_table (hd (from_list st)) c = None then Some TABLE_NOT_EXISTED else None)"
| "rejection (Insert st) c =
     (case cat_get_table (i_table_name st) c of
        None \<Rightarrow> Some TABLE_NOT_EXISTED
      | Some t \<Rightarrow>
          if length (i_values st) \<noteq> length (columns (tb_schema t)) \<or>
             (\<exists>(v, col) \<in> set (zip (i_values st) (columns (tb_schema t))). \<not> check_attr_type (v_type v) (col_type col))
          then Some COLUMN_TYPE_MISMATCH else None)"
| "rejection (Delete st) c = Some SYNTAX_ERROR"
| "rejection (Drop st) c = (if cat_get_table (ds_table st) c = None then Some TABLE_NOT_EXISTED else None)"
| "rejection (Create_Table st) c = (if cat_get_table (ct_table_name st) c \<noteq> None then Some TABLE_ALREADY_EXISTED else None)"

lemma types_match_zip:
  "types_match vs cs \<longleftrightarrow> (\<forall>(v, col) \<in> set (zip vs cs). check_attr_type (v_type v) (col_type col))"
  by (induction vs cs rule: types_match.induct) auto

fun stmt_type :: "query_stmt \<Rightarrow> query_type" where
  "stmt_type (Select _) = SELECT_Q"
| "stmt_type (Insert _) = INSERT_Q"
| "stmt_type (Delete _) = DELETE_Q"
| "stmt_type (Drop _) = DROP_Q"
| "stmt_type (Create_Table _) = CREATE_Q"

lemma rejected_runs:
  assumes ok: "stmt_ok q" and rej: "rejection q c = Some code" and n: "2 \<le> n"
  shows "runs q n sql c = Inr (refused_result (stmt_type q) code sql, c)"
proof (cases q)
  case (Select st)
  with ok have "selist st \<noteq> []" "from_list st \<noteq> []" by (auto simp: names_ok_def)
  moreover from this(2) have "length (from_list st) \<noteq> 1 \<longleftrightarrow> 1 < length (from_list st)"
    by (cases "from_list st") auto
  ultimately show ?thesis using Select rej n
    by (auto simp: runs_def refused_result_def bind_def bind_select_def error_executer_def error_runs query_result_new_def
        Let_def split: if_splits option.splits)
next
  case (Insert st)
  with rej n show ?thesis
    by (auto simp: runs_def refused_result_def bind_def bind_insert_def error_executer_def error_runs query_result_new_def
        Let_def types_match_zip split: if_splits option.splits)
next
  case (Delete st)
  with rej n show ?thesis
    by (auto simp: runs_def refused_result_def bind_def bind_delete_def error_executer_def error_runs query_result_new_def
        Let_def)
next
  case (Drop st)
  obtain m where m: "n = Suc (Suc m)" using n by (rule two_fuel)
  with Drop rej show ?thesis
    by (auto simp: runs_def refused_result_def bind_def bind_drop_def run_executer_def drop_table_next_def
        cat_has_table_def cat_get_table_def query_result_new_def Let_def split: if_splits)
next
  case (Create_Table st)
  with rej n show ?thesis
    by (auto simp: runs_def refused_result_def bind_def bind_create_def error_executer_def error_runs cat_has_table_def
        cat_get_table_def query_result_new_def Let_def split: if_splits)
qed

text \<open>
  With the one case in which something has been touched: a query of a column that does not exist, after
  the scanner was made. (A condition on such a column ends the program by an assertion before.)
\<close>

definition unknown_column :: "schema \<Rightarrow> select_stmt \<Rightarrow> bool" where
  "unknown_column s st \<longleftrightarrow>
     (\<forall>cnd \<in> set (cond_list st). cond_bound s cnd) \<and>
     (\<exists>attr \<in> set (selist st). ra_attribute attr \<noteq> ''*'' \<and> column_idx s (ra_attribute attr) = - 1)"

fun refusal :: "query_stmt \<Rightarrow> catalog \<Rightarrow> rc option" where
  "refusal (Select st) c =
     (if rejection (Select st) c \<noteq> None then rejection (Select st) c
      else case cat_get_table (hd (from_list st)) c of
             None \<Rightarrow> None
           | Some t \<Rightarrow> if unknown_column (tb_schema t) st then Some COLUMN_NOT_EXIST else None)"
| "refusal q c = rejection q c"

fun queried_table :: "query_stmt \<Rightarrow> string" where
  "queried_table (Select st) = hd (from_list st)"
| "queried_table _ = []"

lemma rejection_code: "rejection q c = Some code \<Longrightarrow> code \<noteq> COLUMN_NOT_EXIST"
  by (cases q) (auto split: if_splits option.splits)

lemma bind_columns_unknown:
  "bind_columns s attrs = None \<longleftrightarrow> (\<exists>attr \<in> set attrs. ra_attribute attr \<noteq> ''*'' \<and> column_idx s (ra_attribute attr) = - 1)"
  by (induction attrs) (auto simp: Let_def)

lemma refused_runs:
  assumes ok: "stmt_ok q" and ref: "refusal q c = Some code" and n: "2 \<le> n"
    and T: "code = COLUMN_NOT_EXIST \<Longrightarrow> table_state (queried_table q) T c \<and> view_abandonable T"
  shows "\<exists>c'. runs q n sql c = Inr (refused_result (stmt_type q) code sql, c') \<and>
    (if code = COLUMN_NOT_EXIST
     then \<exists>bp. c' = put_heap (queried_table q) bp c \<and> table_state (queried_table q) (view_abandoned T) c'
     else c' = c)"
proof (cases "rejection q c")
  case (Some code')
  with ref have "code' = code" by (cases q) simp_all
  with rejected_runs [OF ok _ n, of c code] rejection_code [of q c code] Some show ?thesis by simp
next
  case None
  with ref obtain st t where q: "q = Select st" "cat_get_table (hd (from_list st)) c = Some t"
    "unknown_column (tb_schema t) st" "code = COLUMN_NOT_EXIST"
    by (cases q) (auto split: option.splits if_splits)
  from None q(1) obtain tbl where from_list: "from_list st = [tbl]" and foreign: "find (foreign_attr tbl) (selist st) = None"
    by (auto split: if_splits simp: length_Suc_conv)
  have st: "table_state tbl T c" "view_abandonable T" using T [OF q(4)] q(1) from_list by simp_all
  with q(2) from_list have t: "tb_schema t = tv_schema T" by (auto simp: table_state_def)
  have "bind_columns (tv_schema T) (selist st) = None" "selist st \<noteq> []"
    "\<forall>cnd \<in> set (cond_list st). cond_bound (tv_schema T) cnd"
    using q(3) unfolding t unknown_column_def by (auto simp: bind_columns_unknown)
  from select_misses [OF st this(1,2) foreign this(3)] obtain bp where
    "table_state tbl (view_abandoned T) (put_heap tbl bp c)"
    "runs (Select \<lparr>selist = selist st, from_list = [tbl], cond_list = cond_list st\<rparr>) n sql c =
       Inr (refused_result SELECT_Q COLUMN_NOT_EXIST sql, put_heap tbl bp c)" using n by blast
  moreover have "Select \<lparr>selist = selist st, from_list = [tbl], cond_list = cond_list st\<rparr> = q"
    using q(1) from_list by simp
  ultimately show ?thesis using q(1,4) from_list by auto
qed

end
