(* ===== verification/Database.thy ===== *)
theory Database
  imports Query_State Catalog_Restart
begin

text \<open>
  The database as a client sees it: a map from names to the views of tables, and what each statement
  answers and does to it. \<open>db_shown\<close> relates it to a catalog; the lemmas show that every statement and a
  restart of the program keep the relation.
\<close>

section \<open>The specification\<close>

type_synonym db = "string \<Rightarrow> table_view option"

datatype answer =
    Done query_type
  | Rows schema "sql_value list list"
  | Refused query_type rc

fun answer_result :: "string \<Rightarrow> answer \<Rightarrow> query_result" where
  "answer_result sql (Done type) = query_result_new\<lparr>qr_type := Some type\<rparr>"
| "answer_result sql (Rows s rows) =
     \<lparr>qr_type = Some SELECT_Q, qr_msg = [], qr_rc = SUCCESS,
      qr_tuples = map (\<lambda>vals. tuple_new (row_bytes vals s)) rows, qr_output_schema = Some s\<rparr>"
| "answer_result sql (Refused type code) = refused_result type code sql"

text \<open>
  What a statement answers, and the database after it. There is no answer where the program faults or
  leaves the specified ground: values outside their column, a full page file, a scan of an empty table or
  of one that has lost its last frame, and conditions that compare what cannot be compared.
\<close>

definition select_step :: "select_stmt \<Rightarrow> string \<Rightarrow> table_view \<Rightarrow> (answer \<times> table_view) option" where
  "select_step st tbl T =
     (if \<not> (\<forall>cnd \<in> set (cond_list st). cond_bound (tv_schema T) cnd) then None
      else
        case bind_columns (tv_schema T) (selist st) of
          None \<Rightarrow> if view_abandonable T then Some (Refused SELECT_Q COLUMN_NOT_EXIST, view_abandoned T) else None
        | Some idxs \<Rightarrow>
            if view_scannable T \<and>
               (\<forall>vals \<in> set (tv_rows T). \<forall>cnd \<in> set (cond_list st). cond_comparable (tv_schema T) vals cnd)
            then Some (Rows (project_schema idxs (tv_schema T))
                         (map (project_row idxs) (selected (tv_schema T) (cond_list st) (tv_rows T))),
                       view_scanned T)
            else None)"

definition insert_step :: "sql_value list \<Rightarrow> table_view \<Rightarrow> (answer \<times> table_view) option" where
  "insert_step vals T =
     (if length vals \<noteq> length (columns (tv_schema T)) \<or> \<not> types_match vals (columns (tv_schema T))
      then Some (Refused INSERT_Q COLUMN_TYPE_MISMATCH, T)
      else if row_ok vals (tv_schema T) \<and> view_room vals T then Some (Done INSERT_Q, view_insert vals T)
      else None)"

text \<open>A step of one table within the database.\<close>

definition at_table :: "string \<Rightarrow> query_type \<Rightarrow> (table_view \<Rightarrow> (answer \<times> table_view) option) \<Rightarrow> db \<Rightarrow> (answer \<times> db) option" where
  "at_table tbl type step db =
     (case db tbl of
        None \<Rightarrow> Some (Refused type TABLE_NOT_EXISTED, db)
      | Some T \<Rightarrow> map_option (\<lambda>(a, T'). (a, db(tbl \<mapsto> T'))) (step T))"

fun db_step :: "query_stmt \<Rightarrow> db \<Rightarrow> (answer \<times> db) option" where
  "db_step (Select st) db =
     (if length (from_list st) \<noteq> 1 \<or> find (foreign_attr (hd (from_list st))) (selist st) \<noteq> None
      then Some (Refused SELECT_Q SYNTAX_ERROR, db)
      else at_table (hd (from_list st)) SELECT_Q (select_step st (hd (from_list st))) db)"
| "db_step (Insert st) db = at_table (i_table_name st) INSERT_Q (insert_step (i_values st)) db"
| "db_step (Delete st) db = Some (Refused DELETE_Q SYNTAX_ERROR, db)"
| "db_step (Drop st) db =
     (case db (ds_table st) of
        None \<Rightarrow> Some (Refused DROP_Q TABLE_NOT_EXISTED, db)
      | Some T \<Rightarrow> Some (Done DROP_Q, db(ds_table st := None)))"
| "db_step (Create_Table st) db =
     (case db (ct_table_name st) of
        Some T \<Rightarrow> Some (Refused CREATE_Q TABLE_ALREADY_EXISTED, db)
      | None \<Rightarrow> Some (Done CREATE_Q, db(ct_table_name st \<mapsto> view_new \<lparr>columns = map column_of (ct_col_attrs st)\<rparr>)))"

text \<open>The fuel a statement needs.\<close>

fun stmt_fuel :: "query_stmt \<Rightarrow> db \<Rightarrow> nat" where
  "stmt_fuel (Select st) db =
     (case db (hd (from_list st)) of None \<Rightarrow> 2 | Some T \<Rightarrow> 2 * length (tv_rows T) + 4)"
| "stmt_fuel _ db = 2"

lemma stmt_fuel_two: "2 \<le> stmt_fuel q db"
  by (cases q) (simp_all split: option.split)

section \<open>The catalog behind it\<close>

definition db_shown :: "db \<Rightarrow> catalog \<Rightarrow> bool" where
  "db_shown db c \<longleftrightarrow>
     catalog_sorted c \<and> ct_base_dir c = ''.'' \<and>
     (\<forall>x. db x = None \<longrightarrow> cat_get_table x c = None \<and> stm_get_table x (ct_stm c) = None) \<and>
     (\<forall>x T. db x = Some T \<longrightarrow> word_name x \<and> table_state x T c) \<and>
     (\<forall>p. ct_files c p \<noteq> None \<longrightarrow> (\<exists>x. db x \<noteq> None \<and> (p = meta_name x \<or> p = db_name x)))"

lemma db_shownD:
  assumes "db_shown db c"
  shows "catalog_sorted c" "ct_base_dir c = ''.''"
    "db x = None \<Longrightarrow> cat_get_table x c = None \<and> stm_get_table x (ct_stm c) = None"
    "db x = Some T \<Longrightarrow> word_name x" "db x = Some T \<Longrightarrow> table_state x T c"
    "ct_files c p \<noteq> None \<Longrightarrow> \<exists>x. db x \<noteq> None \<and> (p = meta_name x \<or> p = db_name x)"
  using assms unfolding db_shown_def by blast+

lemma db_shown_blank: "db_shown (\<lambda>_. None) (catalog_blank ''.'' (\<lambda>_. None))"
  by (simp add: db_shown_def catalog_blank_def catalog_sorted_def cat_get_table_def stm_get_table_def map_find_def)

lemma shown_lookup:
  assumes "db_shown db c"
  shows "cat_get_table x c = map_option (\<lambda>T. \<lparr>tb_name = x, tb_schema = tv_schema T\<rparr>) (db x)"
  using db_shownD(3,5) [OF assms, of x] by (cases "db x") (simp_all add: table_state_def)

text \<open>A step on the heap of one table.\<close>

lemma shown_put:
  assumes sh: "db_shown db c" and T: "db tbl = Some T" and st: "table_state tbl T' (put_heap tbl bp c)"
  shows "db_shown (db(tbl \<mapsto> T')) (put_heap tbl bp c)"
proof -
  note d = db_shownD [OF sh]
  have o: "cat_get_table x (put_heap tbl bp c) = None \<and> stm_get_table x (ct_stm (put_heap tbl bp c)) = None"
    if "db x = None" "x \<noteq> tbl" for x
    using that d(3) [of x] others_same_put [of tbl c bp] by (simp add: others_same_def)
  have t: "table_state x U (put_heap tbl bp c)" if "db x = Some U" "x \<noteq> tbl" for x U
    using that d(5) [of x U] others_same_state [OF others_same_put] by blast
  have f: "ct_files (put_heap tbl bp c) = ct_files c" "ct_base_dir (put_heap tbl bp c) = ct_base_dir c"
    by (simp_all add: put_heap_def)
  have n: "\<exists>x. (db(tbl \<mapsto> T')) x \<noteq> None \<and> (p = meta_name x \<or> p = db_name x)" if "ct_files c p \<noteq> None" for p
    using d(6) [OF that] T by (metis fun_upd_apply option.distinct(1))
  show ?thesis unfolding db_shown_def f
    using d(1,2,4) T st o t n by (auto split: if_splits)
qed

lemma word_char_id: "word_char c = is_id_char c"
  by (auto simp: word_char_def is_id_char_def is_id_start_def)

lemma lexeme_word: "lexeme_ok (Name n) \<Longrightarrow> word_name n"
  by (auto simp: word_name_def word_char_id list_all_iff)

section \<open>Statements\<close>

text \<open>Refused statements leave the catalog as it is.\<close>

lemma shown_refused:
  assumes sh: "db_shown db c" and ok: "stmt_ok q" and rej: "rejection q c = Some code"
  shows "\<exists>c'. db_shown db c' \<and> (\<forall>n \<ge> stmt_fuel q db. \<forall>sql.
    runs q n sql c = Inr (answer_result sql (Refused (stmt_type q) code), c'))"
proof -
  have "runs q n sql c = Inr (answer_result sql (Refused (stmt_type q) code), c)" if "stmt_fuel q db \<le> n" for n sql
    using rejected_runs [OF ok rej] order_trans [OF stmt_fuel_two that] by simp
  with sh show ?thesis by blast
qed

text \<open>A SELECT that finds its table: a column may be missing, or its rows are answered.\<close>

lemma select_table_shown:
  assumes sh: "db_shown db c" and T: "db t = Some T" and step: "select_step st t T = Some (a, T')"
    and sel: "selist st \<noteq> []" and from_t: "from_list st = [t]" and foreign: "find (foreign_attr t) (selist st) = None"
  shows "\<exists>c'. db_shown (db(t \<mapsto> T')) c' \<and> (\<forall>n \<ge> 2 * length (tv_rows T) + 4. \<forall>sql.
    runs (Select st) n sql c = Inr (answer_result sql a, c'))"
proof -
  note state = db_shownD(5) [OF sh T]
  have st: "Select st = Select \<lparr>selist = selist st, from_list = [t], cond_list = cond_list st\<rparr>"
    using from_t by (cases st) simp
  from step have bound: "\<forall>cnd \<in> set (cond_list st). cond_bound (tv_schema T) cnd"
    by (simp add: select_step_def split: if_splits)
  show ?thesis
  proof (cases "bind_columns (tv_schema T) (selist st)")
    case None
    with step bound have v: "view_abandonable T" "a = Refused SELECT_Q COLUMN_NOT_EXIST" "T' = view_abandoned T"
      by (auto simp: select_step_def split: if_splits)
    from select_misses [OF state v(1) None sel _ bound] foreign obtain bp where
      "table_state t (view_abandoned T) (put_heap t bp c)"
      "\<forall>n \<ge> 2. \<forall>sql. runs (Select st) n sql c = Inr (refused_result SELECT_Q COLUMN_NOT_EXIST sql, put_heap t bp c)"
      unfolding st [symmetric] by auto
    with shown_put [OF sh T this(1)] v(2,3) T show ?thesis by auto
  next
    case (Some idxs)
    with step bound have v: "view_scannable T" "T' = view_scanned T"
      "\<forall>vals \<in> set (tv_rows T). \<forall>cnd \<in> set (cond_list st). cond_comparable (tv_schema T) vals cnd"
      "a = Rows (project_schema idxs (tv_schema T))
            (map (project_row idxs) (selected (tv_schema T) (cond_list st) (tv_rows T)))"
      by (auto simp: select_step_def split: if_splits)
    from select_runs [OF state v(1) Some sel _ bound v(3)] foreign obtain bp where
      b: "table_state t (view_scanned T) (put_heap t bp c)"
        "\<forall>n \<ge> 2 * length (tv_rows T) + 4. \<forall>sql.
           runs (Select st) n sql c = Inr (selected_result idxs (cond_list st) T, put_heap t bp c)"
      unfolding st [symmetric] by auto
    moreover have "answer_result sql a = selected_result idxs (cond_list st) T" for sql
      by (simp add: v(4) selected_result_def result_tuple_def)
    ultimately show ?thesis
      using shown_put [OF sh T b(1)] v(2) T by auto
  qed
qed

lemma select_shown:
  assumes sh: "db_shown db c" and ok: "stmt_ok (Select st)" and step: "db_step (Select st) db = Some (a, db')"
  shows "\<exists>c'. db_shown db' c' \<and> (\<forall>n \<ge> stmt_fuel (Select st) db. \<forall>sql.
    runs (Select st) n sql c = Inr (answer_result sql a, c'))"
proof -
  let ?t = "hd (from_list st)"
  note lk = shown_lookup [OF sh, of ?t]
  have refused: ?thesis if "rejection (Select st) c = Some code" "a = Refused SELECT_Q code" "db' = db" for code
    using shown_refused [OF sh ok that(1)] that(2,3) by simp
  show ?thesis
  proof (cases "length (from_list st) \<noteq> 1 \<or> find (foreign_attr ?t) (selist st) \<noteq> None")
    case True
    with step show ?thesis by (intro refused [of SYNTAX_ERROR]) (auto split: if_splits)
  next
    case sane: False
    show ?thesis
    proof (cases "db ?t")
      case None
      with step sane lk show ?thesis by (intro refused [of TABLE_NOT_EXISTED]) (auto simp: at_table_def)
    next
      case (Some T)
      with step sane obtain T' where T': "select_step st ?t T = Some (a, T')" "db' = db(?t \<mapsto> T')"
        by (auto simp: at_table_def)
      have q: "selist st \<noteq> []" "from_list st = [?t]"
        using ok sane by (auto simp: length_Suc_conv)
      from select_table_shown [OF sh Some T'(1) q] sane T'(2) Some show ?thesis by simp
    qed
  qed
qed

lemma insert_shown:
  assumes sh: "db_shown db c" and ok: "stmt_ok (Insert st)" and step: "db_step (Insert st) db = Some (a, db')"
  shows "\<exists>c'. db_shown db' c' \<and> (\<forall>n \<ge> stmt_fuel (Insert st) db. \<forall>sql.
    runs (Insert st) n sql c = Inr (answer_result sql a, c'))"
proof -
  let ?t = "i_table_name st" and ?v = "i_values st"
  note lk = shown_lookup [OF sh, of ?t]
  have refused: ?thesis if "rejection (Insert st) c = Some code" "a = Refused INSERT_Q code" "db' = db" for code
    using shown_refused [OF sh ok that(1)] that(2,3) by simp
  show ?thesis
  proof (cases "db ?t")
    case None
    with step lk show ?thesis by (intro refused [of TABLE_NOT_EXISTED]) (auto simp: at_table_def)
  next
    case (Some T)
    with step obtain T' where T': "insert_step ?v T = Some (a, T')" "db' = db(?t \<mapsto> T')" by (auto simp: at_table_def)
    show ?thesis
    proof (cases "length ?v \<noteq> length (columns (tv_schema T)) \<or> \<not> types_match ?v (columns (tv_schema T))")
      case True
      with T' Some have "a = Refused INSERT_Q COLUMN_TYPE_MISMATCH" "db' = db"
        by (auto simp: insert_step_def intro: map_upd_triv)
      moreover have "rejection (Insert st) c = Some COLUMN_TYPE_MISMATCH"
        using True by (auto simp: lk Some types_match_zip)
      ultimately show ?thesis by (rule refused [rotated])
    next
      case False
      with T'(1) have v: "row_ok ?v (tv_schema T)" "view_room ?v T" "a = Done INSERT_Q" "T' = view_insert ?v T"
        by (auto simp: insert_step_def split: if_splits)
      have st: "Insert st = Insert \<lparr>i_table_name = ?t, i_cols = i_cols st, i_values = ?v\<rparr>" by simp
      from insert_runs [OF db_shownD(5) [OF sh Some] v(1,2), of "i_cols st"] obtain bp where
        b: "table_state ?t (view_insert ?v T) (put_heap ?t bp c)"
          "\<forall>n \<ge> 2. \<forall>sql. runs (Insert st) n sql c = Inr (query_result_new\<lparr>qr_type := Some INSERT_Q\<rparr>, put_heap ?t bp c)"
        unfolding st [symmetric] by blast
      with shown_put [OF sh Some b(1)] v(3,4) T'(2) show ?thesis by auto
    qed
  qed
qed

lemma db_file_name: "word_name x \<Longrightarrow> normal_path (db_name x) = db_name x"
  by (simp add: db_name_def normal_path_name)

lemma meta_file_name: "word_name x \<Longrightarrow> normal_path (x @ ''.json'') = meta_name x"
  by (simp add: meta_name_def normal_path_name)

lemma create_shown:
  assumes sh: "db_shown db c" and ok: "stmt_ok (Create_Table st)" and step: "db_step (Create_Table st) db = Some (a, db')"
  shows "\<exists>c'. db_shown db' c' \<and> (\<forall>n \<ge> stmt_fuel (Create_Table st) db. \<forall>sql.
    runs (Create_Table st) n sql c = Inr (answer_result sql a, c'))"
proof -
  let ?t = "ct_table_name st" and ?cas = "ct_col_attrs st"
  note d = db_shownD [OF sh] and lk = shown_lookup [OF sh, of ?t]
  show ?thesis
  proof (cases "db ?t")
    case (Some T)
    with step have "a = Refused CREATE_Q TABLE_ALREADY_EXISTED" "db' = db" by simp_all
    moreover have "rejection (Create_Table st) c = Some TABLE_ALREADY_EXISTED" by (simp add: lk Some)
    ultimately show ?thesis using shown_refused [OF sh ok] by simp
  next
    case None
    let ?T = "view_new \<lparr>columns = map column_of ?cas\<rparr>"
    from None step have a: "a = Done CREATE_Q" "db' = db(?t \<mapsto> ?T)" by simp_all
    have w: "word_name ?t" using ok by (intro lexeme_word) simp
    have "ct_files c (db_name ?t) = None"
    proof (rule ccontr)
      assume "ct_files c (db_name ?t) \<noteq> None"
      from d(6) [OF this] obtain x where x: "db x \<noteq> None" "db_name ?t = meta_name x \<or> db_name ?t = db_name x" by blast
      then have "word_name x" using d(4) by blast
      with x(2) file_names(2,4) [of _ ?t] file_names(2) [OF w, of x] w have "x = ?t" by auto
      with x(1) None show False by simp
    qed
    then have nf: "file_at (db_name ?t) (ct_files c) = None" by (simp add: file_at_def db_file_name [OF w])
    have cas: "?cas \<noteq> []" "list_all col_ok ?cas" using ok by simp_all
    have st: "Create_Table st = Create_Table \<lparr>ct_col_attrs = ?cas, ct_table_name = ?t\<rparr>" by simp
    have none: "cat_get_table ?t c = None" "stm_get_table ?t (ct_stm c) = None" using d(3) [OF None] by simp_all
    from create_runs [OF d(1) none nf cas(1) col_ok_types [OF cas(2)]] obtain c' where
      c: "table_state ?t ?T c'" "catalog_sorted c'" "others_same ?t c c'" "ct_base_dir c' = ct_base_dir c"
        "\<forall>x. x \<noteq> normal_path (db_name ?t) \<longrightarrow> ct_files c' x = ct_files c x"
        "\<forall>n \<ge> 2. \<forall>sql. runs (Create_Table st) n sql c = Inr (query_result_new\<lparr>qr_type := Some CREATE_Q\<rparr>, c')"
      unfolding st [symmetric] by blast
    have "\<exists>x. db' x \<noteq> None \<and> (p = meta_name x \<or> p = db_name x)" if "ct_files c' p \<noteq> None" for p
    proof (cases "p = db_name ?t")
      case True
      then show ?thesis by (auto simp: a(2))
    next
      case False
      with c(5) that have "ct_files c p \<noteq> None" by (simp add: db_file_name [OF w])
      from d(6) [OF this] show ?thesis by (metis a(2) fun_upd_apply option.distinct(1))
    qed
    moreover have "cat_get_table x c' = None \<and> stm_get_table x (ct_stm c') = None" if "db' x = None" for x
      using that d(3) [of x] c(3) by (auto simp: a(2) others_same_def split: if_splits)
    moreover have "word_name x \<and> table_state x U c'" if "db' x = Some U" for x U
      using that d(4,5) [of x U] c(1) w others_same_state [OF c(3)] by (auto simp: a(2) split: if_splits)
    ultimately have "db_shown db' c'" using c(2,4) d(2) by (simp add: db_shown_def)
    with c(6) a(1) show ?thesis by auto
  qed
qed

lemma drop_shown:
  assumes sh: "db_shown db c" and ok: "stmt_ok (Drop st)" and step: "db_step (Drop st) db = Some (a, db')"
  shows "\<exists>c'. db_shown db' c' \<and> (\<forall>n \<ge> stmt_fuel (Drop st) db. \<forall>sql.
    runs (Drop st) n sql c = Inr (answer_result sql a, c'))"
proof -
  let ?t = "ds_table st"
  note d = db_shownD [OF sh] and lk = shown_lookup [OF sh, of ?t]
  show ?thesis
  proof (cases "db ?t")
    case None
    with step have "a = Refused DROP_Q TABLE_NOT_EXISTED" "db' = db" by simp_all
    moreover have "rejection (Drop st) c = Some TABLE_NOT_EXISTED" by (simp add: lk None)
    ultimately show ?thesis using shown_refused [OF sh ok] by simp
  next
    case (Some T)
    with step have a: "a = Done DROP_Q" "db' = db(?t := None)" by simp_all
    have w: "word_name ?t" using ok by (intro lexeme_word) simp
    from db_shownD(5) [OF sh Some] obtain bp where
      b: "cat_get_table ?t c \<noteq> None" "stm_get_table ?t (ct_stm c) = Some bp" "heap_shows T bp"
      by (auto simp: table_state_def)
    have st: "Drop st = Drop \<lparr>ds_table = ?t\<rparr>" by simp
    from drop_runs [OF b(1,2) heap_showsD(1,2,10) [OF b(3)]] obtain c' where
      c: "cat_get_table ?t c' = None" "stm_get_table ?t (ct_stm c') = None" "others_same ?t c c'"
        "ct_base_dir c' = ct_base_dir c" "catalog_sorted c \<longrightarrow> catalog_sorted c'"
        "\<forall>x. ct_files c' x =
          (if x \<in> {normal_path (?t @ ''.json''), normal_path (db_name ?t)} then None else ct_files c x)"
        "\<forall>n \<ge> 2. \<forall>sql. runs (Drop st) n sql c = Inr (query_result_new\<lparr>qr_type := Some DROP_Q\<rparr>, c')"
      unfolding st [symmetric] by blast
    have "\<exists>x. db' x \<noteq> None \<and> (p = meta_name x \<or> p = db_name x)" if "ct_files c' p \<noteq> None" for p
    proof -
      have p: "p \<noteq> meta_name ?t" "p \<noteq> db_name ?t" "ct_files c p \<noteq> None"
        using that c(6) by (auto simp: db_file_name [OF w] meta_file_name [OF w] split: if_splits)
      from d(6) [OF p(3)] p(1,2) show ?thesis by (metis a(2) fun_upd_apply)
    qed
    moreover have "cat_get_table x c' = None \<and> stm_get_table x (ct_stm c') = None" if "db' x = None" for x
      using that d(3) [of x] c(1-3) by (cases "x = ?t") (auto simp: a(2) others_same_def)
    moreover have "word_name x \<and> table_state x U c'" if "db' x = Some U" for x U
      using that d(4,5) [of x U] others_same_state [OF c(3)] by (auto simp: a(2) split: if_splits)
    ultimately have "db_shown db' c'" using c(4,5) d(1,2) by (simp add: db_shown_def)
    with c(7) a(1) show ?thesis by auto
  qed
qed

lemma statement_shown:
  assumes "db_shown db c" "stmt_ok q" "db_step q db = Some (a, db')"
  shows "\<exists>c'. db_shown db' c' \<and> (\<forall>n \<ge> stmt_fuel q db.
    execute_sql n (print_stmt q) c = Inr (answer_result (print_stmt q) a, c'))"
proof -
  have "\<exists>c'. db_shown db' c' \<and> (\<forall>n \<ge> stmt_fuel q db. \<forall>sql. runs q n sql c = Inr (answer_result sql a, c'))"
  proof (cases q)
    case (Delete st)
    with assms(3) have "a = Refused DELETE_Q SYNTAX_ERROR" "db' = db" by simp_all
    with shown_refused [OF assms(1,2), of SYNTAX_ERROR] Delete show ?thesis by simp
  next
    case (Select st)
    show ?thesis unfolding Select by (rule select_shown [OF assms(1) assms(2,3) [unfolded Select]])
  next
    case (Insert st)
    show ?thesis unfolding Insert by (rule insert_shown [OF assms(1) assms(2,3) [unfolded Insert]])
  next
    case (Drop st)
    show ?thesis unfolding Drop by (rule drop_shown [OF assms(1) assms(2,3) [unfolded Drop]])
  next
    case (Create_Table st)
    show ?thesis unfolding Create_Table by (rule create_shown [OF assms(1) assms(2,3) [unfolded Create_Table]])
  qed
  then show ?thesis by (auto simp: execute_printed [OF assms(2)])
qed

section \<open>A restart\<close>

text \<open>The files a database is saved to: two for each table.\<close>

definition db_files :: "db \<Rightarrow> string set" where
  "db_files db = (\<lambda>x. ''./'' @ meta_name x) ` dom db \<union> (\<lambda>x. ''./'' @ db_name x) ` dom db"

definition db_storable :: "db \<Rightarrow> bool" where
  "db_storable db \<longleftrightarrow> (\<forall>x T. db x = Some T \<longrightarrow> schema_storable (tv_schema T))"

definition db_reopened :: "db \<Rightarrow> db" where
  "db_reopened db = map_option view_reopened \<circ> db"

lemma shown_closable:
  assumes sh: "db_shown db c" and ok: "db_storable db"
  shows "catalog_closable c"
proof -
  note d = db_shownD [OF sh]
  have so: "map_sorted (ct_tables c)" "map_sorted (ct_stm c)" using d(1) by (simp_all add: catalog_sorted_def)
  have t: "word_name n \<and> tb_name t = n \<and> schema_storable (tb_schema t) \<and> map_find n (ct_stm c) \<noteq> None"
    if "map_find n (ct_tables c) = Some t" for n t
  proof -
    have "cat_get_table n c = Some t" using that by (simp add: cat_get_table_def)
    with shown_lookup [OF sh, of n] obtain T where T: "db n = Some T" "t = \<lparr>tb_name = n, tb_schema = tv_schema T\<rparr>"
      by (cases "db n") auto
    with d(4,5) [OF T(1)] ok show ?thesis by (auto simp: db_storable_def table_state_def stm_get_table_def)
  qed
  have h: "heap_closable bp \<and> map_find n (ct_tables c) \<noteq> None" if b: "map_find n (ct_stm c) = Some bp" for n bp
  proof -
    obtain T where T: "db n = Some T" using b d(3) [of n] by (cases "db n") (auto simp: stm_get_table_def)
    with d(5) [OF T] b have "heap_shows T bp" "map_find n (ct_tables c) \<noteq> None"
      by (auto simp: table_state_def stm_get_table_def cat_get_table_def)
    with heap_showsD(1,2,10) [of T bp] show ?thesis unfolding heap_closable_def by blast
  qed
  have "\<exists>n. map_find n (ct_tables c) \<noteq> None \<and> p = meta_name n"
    if "ct_files c p \<noteq> None" "json_pattern ''.'' (''./'' @ p)" for p
  proof -
    have "p \<noteq> db_name x" for x using json_pattern_last [OF that(2)] by (auto simp: db_name_def)
    with d(6) [OF that(1)] shown_lookup [OF sh] show ?thesis by (force simp: cat_get_table_def)
  qed
  with so t h d(2) show ?thesis unfolding catalog_closable_def by (auto simp: sorted_in)
qed

text \<open>
  The files of a database that is not in use: for each table the text of its schema, and a page file that
  opens to a heap with its rows, whose pins are all zero.
\<close>

definition db_stored :: "db \<Rightarrow> files \<Rightarrow> bool" where
  "db_stored db fs \<longleftrightarrow>
     (\<forall>x T. db x = Some T \<longrightarrow> word_name x \<and> schema_storable (tv_schema T) \<and> tv_stuck T = {} \<and>
        fs (meta_name x) = Some (meta_text (tv_schema T)) \<and>
        fs (db_name x) \<noteq> None \<and> (\<exists>bp. heap_open (fs (db_name x)) = Inr bp \<and> heap_shows T bp)) \<and>
     (\<forall>p. fs p \<noteq> None \<longrightarrow> (\<exists>x. db x \<noteq> None \<and> (p = meta_name x \<or> p = db_name x)))"

lemma db_storedD:
  assumes "db_stored db fs"
  shows "db x = Some T \<Longrightarrow> word_name x" "db x = Some T \<Longrightarrow> schema_storable (tv_schema T)" "db x = Some T \<Longrightarrow> tv_stuck T = {}"
    "db x = Some T \<Longrightarrow> fs (meta_name x) = Some (meta_text (tv_schema T))" "db x = Some T \<Longrightarrow> fs (db_name x) \<noteq> None"
    "db x = Some T \<Longrightarrow> \<exists>bp. heap_open (fs (db_name x)) = Inr bp \<and> heap_shows T bp"
    "fs p \<noteq> None \<Longrightarrow> \<exists>x. db x \<noteq> None \<and> (p = meta_name x \<or> p = db_name x)"
  using assms unfolding db_stored_def by blast+

lemma db_stored_none: "db_stored (\<lambda>_. None) (\<lambda>_. None)"
  by (simp add: db_stored_def)

lemma stored_listing:
  assumes "db_stored db fs"
  shows "listing_of fs listing \<longleftrightarrow> distinct listing \<and> set listing = db_files db"
proof -
  have "fs p \<noteq> None \<longleftrightarrow> (\<exists>x. db x \<noteq> None \<and> (p = meta_name x \<or> p = db_name x))" for p
    using db_storedD(4,5,7) [OF assms] by (metis option.distinct(1) option.exhaust)
  then have "{p. fs p \<noteq> None} = meta_name ` dom db \<union> db_name ` dom db" by auto
  then show ?thesis by (auto simp: listing_of_def db_files_def image_Un image_image)
qed

text \<open>The catalog is destroyed: every heap is closed and every schema written.\<close>

lemma destroy_stored:
  assumes sh: "db_shown db c" and ok: "db_storable db"
  shows "\<exists>fs. catalog_destroy c = Inr fs \<and> db_stored (db_reopened db) fs"
proof -
  note d = db_shownD [OF sh]
  from closed_files [OF shown_closable [OF sh ok]] obtain fs where
    fs: "catalog_destroy c = Inr fs" "closed_as c fs" by blast
  have t: "word_name x \<and> schema_storable (tv_schema T) \<and> tv_stuck (view_reopened T) = {} \<and>
      fs (meta_name x) = Some (meta_text (tv_schema T)) \<and> fs (db_name x) \<noteq> None \<and>
      (\<exists>bp. heap_open (fs (db_name x)) = Inr bp \<and> heap_shows (view_reopened T) bp)" if "db x = Some T" for x T
  proof -
    from d(5) [OF that] obtain bp where
      b: "map_find x (ct_tables c) = Some \<lparr>tb_name = x, tb_schema = tv_schema T\<rparr>" "map_find x (ct_stm c) = Some bp"
        "heap_shows T bp" by (auto simp: table_state_def stm_get_table_def cat_get_table_def)
    have "heap_closable bp" using heap_showsD(1,2,10) [OF b(3)] unfolding heap_closable_def by blast
    from heap_closable_reopens [OF this] obtain bp' where
      "heap_open (Some (closed_file bp)) = Inr bp'" "fresh_heap (heap_pages bp) bp'" by blast
    moreover from this(2) have "heap_shows (view_reopened T) bp'"
      using shows_reopened [OF b(3)] by (simp add: fresh_heap_def)
    ultimately show ?thesis
      using closed_asD(1,2) [OF fs(2)] b(1,2) d(4) [OF that] ok that
      by (fastforce simp: db_storable_def view_reopened_def)
  qed
  have "\<exists>x. db x \<noteq> None \<and> (p = meta_name x \<or> p = db_name x)" if "fs p \<noteq> None" for p
  proof -
    have "map_find n (ct_tables c) = None \<longleftrightarrow> db n = None" for n
      using shown_lookup [OF sh, of n] by (cases "db n") (simp_all add: cat_get_table_def)
    then show ?thesis using closed_asD(3) [OF fs(2), of p] d(6) [of p] that by metis
  qed
  with t fs(1) show ?thesis by (auto simp: db_stored_def db_reopened_def)
qed

text \<open>The catalog is set up from the files, in whatever order they are listed.\<close>

lemma stored_tables:
  assumes st: "db_stored db fs" and T: "db x = Some T"
  shows "table_files junk (\<lambda>x. tv_schema (the (db x))) (\<lambda>x. row_slots (tv_schema (the (db x))) (tv_pages (the (db x)))) x fs"
proof -
  note d = db_storedD [OF st]
  have "json_of_file junk (''./'' @ meta_name x) fs = Inr (Some (JObject (schema_json (tv_schema T))))"
    using meta_text_read d(1,2,4) [OF T] by blast
  moreover have "schema_from_json (JObject (schema_json (tv_schema T))) \<lparr>columns = []\<rparr> = Inr (tv_schema T)"
    using d(2) [OF T] by (rule schema_from_json_back)
  moreover from d(6) [OF T] obtain bp where bp: "heap_open (fs (db_name x)) = Inr bp" "heap_shows T bp" by blast
  then have "fresh_heap (row_slots (tv_schema T) (tv_pages T)) bp"
    using heap_showsD(1-4) [OF bp(2)] d(3) [OF T] by (simp add: fresh_heap_def)
  ultimately show ?thesis using d(1) [OF T] bp(1) T by (simp add: table_files_def)
qed

lemma stored_init:
  assumes st: "db_stored db fs" and l: "distinct listing" "set listing = db_files db"
  shows "\<exists>c. catalog_init ''.'' listing junk fs = Inr c \<and> db_shown db c"
proof -
  note d = db_storedD [OF st]
  let ?sch = "\<lambda>x. tv_schema (the (db x))" and ?c0 = "catalog_blank ''.'' fs"
  let ?ss = "\<lambda>x. row_slots (tv_schema (the (db x))) (tv_pages (the (db x)))"
  have "\<exists>c. each (init_file junk) listing ?c0 = Inr c \<and> loaded junk ?sch ?ss (dom db) ?c0 c"
  proof (rule init_loop)
    fix p
    assume p: "p \<in> set listing" "json_pattern ''.'' p"
    then obtain x where x: "x \<in> dom db" "p = ''./'' @ meta_name x \<or> p = ''./'' @ db_name x"
      by (auto simp: l(2) db_files_def)
    have "last (''./'' @ db_name x) = CHR ''b''" by (simp add: db_name_def)
    moreover have "last p = CHR ''n''" by (rule json_pattern_last [OF p(2)])
    moreover have "CHR ''n'' \<noteq> CHR ''b''" by simp
    ultimately have "p \<noteq> ''./'' @ db_name x" by (elim contrapos_nn) (simp only:)
    with x show "\<exists>n. p = ''./'' @ meta_name n \<and> n \<in> dom db" by blast
  next
    fix x
    assume x: "x \<in> dom db"
    then obtain T where "db x = Some T" by blast
    from stored_tables [OF st this] x
    show "''./'' @ meta_name x \<in> set listing \<and> table_files junk ?sch ?ss x (ct_files ?c0) \<and>
        map_find x (ct_tables ?c0) = None \<and> map_find x (ct_stm ?c0) = None"
      by (auto simp: l(2) db_files_def catalog_blank_def map_find_def)
  qed (use l(1) in \<open>simp_all add: catalog_blank_def\<close>)
  then obtain c where c: "catalog_init ''.'' listing junk fs = Inr c" "loaded junk ?sch ?ss (dom db) ?c0 c"
    by (auto simp: catalog_init_def)
  have "table_state x T c" if T: "db x = Some T" for x T
  proof -
    from loaded_heap [OF c(2), of x] T obtain bp where
      b: "map_find x (ct_stm c) = Some bp" "fresh_heap (?ss x) bp" by blast
    from d(6) [OF T] obtain bp0 where "heap_shows T bp0" by blast
    moreover have "view_reopened T = T" using d(3) [OF T] by (cases T) (simp add: view_reopened_def)
    ultimately have "heap_shows T bp"
      using shows_reopened [of T bp0 bp] b(2) T by (simp add: fresh_heap_def heap_showsD(4))
    with c(2) b(1) T show ?thesis
      by (auto simp: table_state_def loaded_def cat_get_table_def stm_get_table_def)
  qed
  moreover have "cat_get_table x c = None \<and> stm_get_table x (ct_stm c) = None" if "db x = None" for x
    using loaded_other [OF c(2), of x] that c(2)
    by (auto simp: loaded_def cat_get_table_def stm_get_table_def catalog_blank_def map_find_def)
  moreover have "\<exists>x. db x \<noteq> None \<and> (p = meta_name x \<or> p = db_name x)" if "ct_files c p \<noteq> None" for p
  proof -
    have "fs p \<noteq> None \<or> (\<exists>x \<in> dom db. p = db_name x)"
      using c(2) that by (simp add: loaded_def catalog_blank_def)
    with d(7) [of p] show ?thesis by auto
  qed
  moreover have "catalog_sorted c" "ct_base_dir c = ''.''"
    using c(2) by (simp_all add: loaded_def catalog_sorted_def catalog_blank_def)
  ultimately have "db_shown db c" using d(1) by (auto simp: db_shown_def)
  with c(1) show ?thesis by blast
qed

lemma db_files_reopened [simp]: "db_files (db_reopened db) = db_files db"
proof -
  have "dom (db_reopened db) = dom db" by (auto simp: db_reopened_def dom_def)
  then show ?thesis by (simp add: db_files_def)
qed

lemma restart_shown:
  assumes sh: "db_shown db c" and ok: "db_storable db" and l: "distinct listing" "set listing = db_files db"
  shows "\<exists>c'. db_shown (db_reopened db) c' \<and>
    andthen (catalog_destroy c) (catalog_init ''.'' listing junk) = Inr c'"
proof -
  from destroy_stored [OF sh ok] obtain fs where
    f: "catalog_destroy c = Inr fs" "db_stored (db_reopened db) fs" by blast
  from stored_init [OF f(2) l(1)] l(2) obtain c' where
    "catalog_init ''.'' listing junk fs = Inr c'" "db_shown (db_reopened db) c'" by auto
  with f(1) show ?thesis by auto
qed

section \<open>Sessions\<close>

text \<open>What happens to the program: a statement is executed, or it ends and starts again in its directory.\<close>

datatype event =
    Statement query_stmt
  | Restart "string list" char

fun run_event :: "nat \<Rightarrow> event \<Rightarrow> catalog \<Rightarrow> (query_result option \<times> catalog) res" where
  "run_event n (Statement q) c = andthen (execute_sql n (print_stmt q) c) (\<lambda>(r, c). Inr (Some r, c))"
| "run_event n (Restart listing junk) c =
     andthen (andthen (catalog_destroy c) (catalog_init ''.'' listing junk)) (\<lambda>c. Inr (None, c))"

fun run_session :: "nat \<Rightarrow> event list \<Rightarrow> catalog \<Rightarrow> (query_result option list \<times> catalog) res" where
  "run_session n [] c = Inr ([], c)"
| "run_session n (e # es) c =
     andthen (run_event n e c) (\<lambda>(r, c). andthen (run_session n es c) (\<lambda>(rs, c). Inr (r # rs, c)))"

fun event_step :: "event \<Rightarrow> db \<Rightarrow> (query_result option \<times> db) option" where
  "event_step (Statement q) db =
     (if stmt_ok q then map_option (\<lambda>(a, db). (Some (answer_result (print_stmt q) a), db)) (db_step q db) else None)"
| "event_step (Restart listing junk) db =
     (if db_storable db \<and> distinct listing \<and> set listing = db_files db then Some (None, db_reopened db) else None)"

fun session_step :: "event list \<Rightarrow> db \<Rightarrow> (query_result option list \<times> db) option" where
  "session_step [] db = Some ([], db)"
| "session_step (e # es) db =
     (case event_step e db of
        None \<Rightarrow> None
      | Some (r, db) \<Rightarrow> map_option (\<lambda>(rs, db). (r # rs, db)) (session_step es db))"

fun event_fuel :: "event \<Rightarrow> db \<Rightarrow> nat" where
  "event_fuel (Statement q) db = stmt_fuel q db"
| "event_fuel (Restart listing junk) db = 0"

fun session_fuel :: "event list \<Rightarrow> db \<Rightarrow> nat" where
  "session_fuel [] db = 0"
| "session_fuel (e # es) db =
     max (event_fuel e db) (case event_step e db of None \<Rightarrow> 0 | Some (r, db) \<Rightarrow> session_fuel es db)"

lemma event_shown:
  assumes "db_shown db c" "event_step e db = Some (r, db')"
  shows "\<exists>c'. db_shown db' c' \<and> (\<forall>n \<ge> event_fuel e db. run_event n e c = Inr (r, c'))"
proof (cases e)
  case (Statement q)
  with assms(2) obtain a where
    a: "stmt_ok q" "db_step q db = Some (a, db')" "r = Some (answer_result (print_stmt q) a)"
    by (auto split: if_splits)
  from statement_shown [OF assms(1) a(1,2)] a(3) Statement show ?thesis by auto
next
  case (Restart listing junk)
  with assms(2) have "db_storable db" "distinct listing" "set listing = db_files db" "r = None" "db' = db_reopened db"
    by (auto split: if_splits)
  with restart_shown [OF assms(1), of listing junk] Restart show ?thesis by auto
qed

lemma session_shown:
  "db_shown db c \<Longrightarrow> session_step es db = Some (rs, db') \<Longrightarrow>
   \<exists>c'. db_shown db' c' \<and> (\<forall>n \<ge> session_fuel es db. run_session n es c = Inr (rs, c'))"
proof (induction es arbitrary: db c rs)
  case (Cons e es)
  from Cons.prems(2) obtain r db1 rs' where
    s: "event_step e db = Some (r, db1)" "session_step es db1 = Some (rs', db')" "rs = r # rs'"
    by (auto split: option.splits)
  from event_shown [OF Cons.prems(1) s(1)] obtain c1 where
    c1: "db_shown db1 c1" "\<forall>n \<ge> event_fuel e db. run_event n e c = Inr (r, c1)" by blast
  from Cons.IH [OF c1(1) s(2)] c1(2) s(1,3) show ?case by auto
qed simp

end
