(* ===== verification/Shell.thy ===== *)
theory Shell
  imports Command
begin

text \<open>
  When the loop of the shell ends: the line \<open>.quit\<close> ends it; the end of the input does not.
\<close>

text \<open>A line with the prompt in front of it.\<close>

definition shell_round :: "nat \<Rightarrow> string \<Rightarrow> shell \<Rightarrow> shell res" where
  "shell_round k input sh = shell_line k input (sh\<lparr>sh_out := sh_out sh @ [Prompt ''TadisSQL>'']\<rparr>)"

definition quit_known :: "shell \<Rightarrow> bool" where
  "quit_known sh \<longleftrightarrow> map_find ''.quit'' (sh_cmd sh) = Some Set_Quit"

lemma shell_round_cmd: "shell_round k input sh = Inr sh' \<Longrightarrow> sh_cmd sh' = sh_cmd sh"
  by (auto simp: shell_round_def shell_line_def run_action_def Let_def res_simps
      split: if_splits option.splits action.splits)

lemma shell_round_quit:
  "quit_known sh \<Longrightarrow> \<exists>sh'. shell_round k ''.quit'' sh = Inr sh' \<and> sh_quit sh'"
  by (simp add: shell_round_def shell_line_def quit_known_def cmd_run_def run_action_def)

lemma shell_loop_round:
  "\<not> sh_quit sh \<Longrightarrow>
   shell_loop k (Suc n) ended inputs old sh =
     andthen (shell_round k (get_line ended inputs old) sh) (shell_loop k n ended (tl inputs) (get_line ended inputs old))"
  by (simp add: shell_round_def Let_def)

lemma shell_loop_quits:
  "quit_known sh \<Longrightarrow> each (shell_round k) pre sh = Inr sh1 \<Longrightarrow> length pre + 2 \<le> n \<Longrightarrow>
   \<exists>sh'. shell_loop k n ended (pre @ ''.quit'' # later) old sh = Inr sh' \<and> sh_quit sh'"
proof (induction pre arbitrary: n old sh)
  case Nil
  obtain m where n: "n = Suc (Suc m)" using Nil.prems(3) by (intro that [of "n - 2"]) simp
  from shell_round_quit [OF Nil.prems(1)] obtain sh' where "shell_round k ''.quit'' sh = Inr sh'" "sh_quit sh'" by blast
  with n show ?case by (cases "sh_quit sh") (simp_all add: shell_loop_round del: shell_loop.simps(2), simp_all)
next
  case (Cons input pre)
  obtain m where n: "n = Suc m" "length pre + 2 \<le> m" using Cons.prems(3) by (cases n) auto
  show ?case
  proof (cases "sh_quit sh")
    case False
    from Cons.prems(2) obtain sh2 where "shell_round k input sh = Inr sh2" "each (shell_round k) pre sh2 = Inr sh1"
      by (auto simp: res_simps)
    moreover from this Cons.prems(1) have "quit_known sh2" by (simp add: quit_known_def shell_round_cmd)
    ultimately show ?thesis using Cons.IH [of sh2 m input] n False
      by (simp add: shell_loop_round del: shell_loop.simps(2))
  qed (simp add: n)
qed

text \<open>An empty line is a syntax error that changes nothing.\<close>

lemma parse_empty: "parse_sql [] = Inr (SYNTAX_ERROR, Select select_default)"
  by code_simp

lemma shell_round_empty:
  "\<exists>sh'. shell_round k [] sh = Inr sh' \<and> sh_quit sh' = sh_quit sh \<and> sh_catalog sh' = sh_catalog sh"
  by (simp add: shell_round_def shell_line_def execute_sql_def parse_empty)

text \<open>
  The line that every read behind the end of the input leaves in the string: the empty one, or again the
  last one when no line break ended it.
\<close>

definition line_at_end :: "bool \<Rightarrow> string list \<Rightarrow> string" where
  "line_at_end ended inputs = (if ended then [] else last ([] # inputs))"

definition only_quits :: "shell \<Rightarrow> bool" where
  "only_quits sh \<longleftrightarrow> (\<forall>s. cmd_run s (sh_cmd sh) = Some Set_Quit \<longrightarrow> s = ''.quit'')"

lemma shell_round_goes_on:
  assumes "shell_round k input sh = Inr sh'" "\<not> sh_quit sh" "only_quits sh" "input \<noteq> ''.quit''"
  shows "\<not> sh_quit sh' \<and> only_quits sh'"
proof -
  have "only_quits sh'" using assms(1,3) by (simp add: only_quits_def shell_round_cmd)
  moreover have "\<not> sh_quit sh'"
    using assms
    by (auto simp: shell_round_def shell_line_def run_action_def Let_def res_simps only_quits_def
        split: if_splits option.splits action.splits)
  ultimately show ?thesis by simp
qed

text \<open>As long as \<open>.quit\<close> is not read, the loop executes the lines and is where it was.\<close>

lemma shell_loop_runs:
  assumes "\<not> sh_quit sh" "only_quits sh" "''.quit'' \<notin> set inputs"
  shows "shell_loop k (length inputs + n) ended inputs old sh =
    andthen (each (shell_round k) inputs sh) (shell_loop k n ended [] (last (old # inputs)))"
  using assms
proof (induction inputs arbitrary: old sh)
  case (Cons input inputs)
  show ?case
  proof (cases "shell_round k input sh")
    case (Inr sh')
    with Cons.prems shell_round_goes_on [OF Inr] have "\<not> sh_quit sh'" "only_quits sh'" by auto
    with Cons.IH [of sh' input] Cons.prems Inr show ?thesis
      by (simp add: shell_loop_round del: shell_loop.simps(2))
  qed (use Cons.prems in \<open>simp add: shell_loop_round del: shell_loop.simps(2)\<close>)
qed simp

lemma shell_loop_repeats:
  assumes "\<not> sh_quit sh" "only_quits sh" "old \<noteq> ''.quit''" "ended \<longrightarrow> old = []"
  shows "shell_loop k (m + n) ended [] old sh =
    andthen (each (shell_round k) (replicate m old) sh) (shell_loop k n ended [] old)"
  using assms
proof (induction m arbitrary: sh)
  case (Suc m)
  have g: "get_line ended [] old = old" using Suc.prems(4) by simp
  show ?case
  proof (cases "shell_round k old sh")
    case (Inr sh')
    with Suc.prems shell_round_goes_on [OF Inr] have "\<not> sh_quit sh'" "only_quits sh'" by auto
    with Suc Inr show ?thesis by (simp add: shell_loop_round g del: shell_loop.simps(2) get_line.simps)
  qed (use Suc.prems in \<open>simp add: shell_loop_round g del: shell_loop.simps(2) get_line.simps\<close>)
qed simp

lemma shell_loop_never:
  assumes "\<not> sh_quit sh" "only_quits sh" "''.quit'' \<notin> set (old # inputs)"
  shows "shell_loop k n ended inputs old sh \<noteq> Inr sh'"
  using assms
proof (induction n arbitrary: inputs old sh)
  case (Suc n)
  let ?input = "get_line ended inputs old"
  have i: "?input \<noteq> ''.quit''" "''.quit'' \<notin> set (?input # tl inputs)" using Suc.prems(3) by (cases inputs; auto)+
  show ?case
  proof (cases "shell_round k ?input sh")
    case (Inr sh1)
    from shell_round_goes_on [OF Inr Suc.prems(1,2) i(1)] have "\<not> sh_quit sh1" "only_quits sh1" by auto
    with Suc.IH [OF _ _ i(2), of sh1] Suc.prems(1) Inr show ?thesis
      by (simp add: shell_loop_round del: shell_loop.simps(2))
  qed (use Suc.prems in \<open>simp add: shell_loop_round del: shell_loop.simps(2)\<close>)
qed simp

text \<open>Behind the end of the input the loop goes on with \<open>line_at_end\<close>, for ever.\<close>

lemma shell_loop_cleared: "shell_loop k n True [] old sh = shell_loop k n True [] [] sh"
  by (cases n) simp_all

lemma shell_loop_at_end:
  assumes "\<not> sh_quit sh" "only_quits sh" "''.quit'' \<notin> set inputs"
  shows "shell_loop k (length inputs + m + n) ended inputs [] sh =
    andthen (each (shell_round k) (inputs @ replicate m (line_at_end ended inputs)) sh)
      (shell_loop k n ended [] (line_at_end ended inputs))"
proof (cases "each (shell_round k) inputs sh")
  case (Inl e)
  then show ?thesis using shell_loop_runs [OF assms, of k "m + n" ended "[]"] by (simp add: each_append add.assoc)
next
  case (Inr sh1)
  let ?line = "line_at_end ended inputs"
  have "?line \<in> set ([] # inputs)" unfolding line_at_end_def using last_in_set [of "[] # inputs"] by simp
  with assms(3) have line: "?line \<noteq> ''.quit''" "ended \<longrightarrow> ?line = []" by (auto simp: line_at_end_def)
  have "\<not> sh_quit sh1 \<and> only_quits sh1"
    using assms Inr
  proof (induction inputs arbitrary: sh)
    case (Cons input inputs)
    then obtain sh2 where s: "shell_round k input sh = Inr sh2" "each (shell_round k) inputs sh2 = Inr sh1"
      by (auto simp: res_simps)
    from shell_round_goes_on [OF s(1)] Cons.prems Cons.IH [OF _ _ _ s(2)] show ?case by auto
  qed simp
  with shell_loop_repeats [OF _ _ line, of sh1] have
    "shell_loop k (m + n) ended [] ?line sh1 = andthen (each (shell_round k) (replicate m ?line) sh1) (shell_loop k n ended [] ?line)"
    by blast
  moreover have "shell_loop k (m + n) ended [] (last ([] # inputs)) sh1 = shell_loop k (m + n) ended [] ?line sh1"
    by (cases ended) (simp_all add: line_at_end_def shell_loop_cleared [of _ _ "last inputs"])
  ultimately show ?thesis
    using shell_loop_runs [OF assms, of k "m + n" ended "[]"] Inr by (simp add: each_append add.assoc del: last.simps)
qed

end
