(* ===== verification/Program.thy ===== *)
theory Program
  imports Database Shell "HOL-Library.List_Lexorder" "HOL-Library.Char_ord"
begin

text \<open>
  The whole program, from \<open>main\<close> to the files it leaves: what the shell prints for a list of statements
  and commands that ends in \<open>.quit\<close>, and the database it stores.
\<close>

section \<open>What is printed\<close>

definition value_text :: "sql_value \<Rightarrow> string" where
  "value_text v = (case value_to_string v of Inr s \<Rightarrow> s | Inl e \<Rightarrow> [])"

text \<open>The code of a refused statement is printed twice: it is part of the message already.\<close>

fun answer_out :: "string \<Rightarrow> answer \<Rightarrow> out list" where
  "answer_out sql (Done type) = [Line ''Success'']"
| "answer_out sql (Rows s rows) =
     [Line ''Success'', Line (''count: '' @ nat_digits (length rows)),
      Grid (map col_name (columns s) # map (map value_text) rows)]"
| "answer_out sql (Refused type code) = [Line (''FAIL '' @ rc2str code @ '' '' @ rc2str code @ '' '' @ sql)]"

fun answer_ok :: "answer \<Rightarrow> bool" where
  "answer_ok (Done type) \<longleftrightarrow> type \<noteq> SELECT_Q"
| "answer_ok (Rows s rows) \<longleftrightarrow> (\<forall>vals \<in> set rows. row_ok vals s)"
| "answer_ok (Refused type code) \<longleftrightarrow> code \<noteq> SUCCESS"

lemma value_text_is: "cell_ok v c \<Longrightarrow> value_to_string v = Inr (value_text v)"
  by (auto elim!: cell_cases simp: value_text_def value_to_string_def value_int_def value_float_def value_string_def
      any_long_def any_float_def any_string_def)

lemma print_cells_row:
  assumes "row_ok vals s"
  shows "print_cells s (tuple_new (row_bytes vals s)) = Inr (map value_text vals)"
proof -
  let ?t = "tuple_new (row_bytes vals s)"
  have len: "length vals = length (columns s)" by (rule row_length [OF assms])
  have "each (\<lambda>j cells. andthen (value_at ?t s j) (\<lambda>val. andthen (value_to_string val) (\<lambda>x. Inr (cells @ [x])))) js acc =
      Inr (acc @ map (\<lambda>j. value_text (vals ! j)) js)" if "set js \<subseteq> {..<length vals}" for js acc
    using that
  proof (induction js arbitrary: acc)
    case (Cons j js)
    then have j: "j < length (columns s)" using len by simp
    have "value_at ?t s j = Inr (vals ! j)" using value_at_row [OF assms j] by (simp add: tuple_new_def)
    moreover have "cell_ok (vals ! j) (columns s ! j)"
      using assms j len by (simp add: row_ok_def list_all2_conv_all_nth)
    ultimately show ?case using Cons value_text_is by simp
  qed simp
  from this [of "[0..<length vals]" "[]"] have
    "print_cells s ?t = Inr (map (\<lambda>j. value_text (vals ! j)) [0..<length vals])"
    by (simp add: print_cells_def len [symmetric] lessThan_atLeast0)
  moreover have "map (\<lambda>j. value_text (vals ! j)) [0..<length vals] = map value_text vals"
    by (rule nth_equalityI) simp_all
  ultimately show ?thesis by simp
qed

lemma print_answer:
  assumes "answer_ok a"
  shows "(case a of Refused type code \<Rightarrow> answer_out sql a = report (answer_result sql a) \<and> qr_rc (answer_result sql a) \<noteq> SUCCESS
    | _ \<Rightarrow> qr_rc (answer_result sql a) = SUCCESS \<and>
        (\<exists>out. print_rows (answer_result sql a) = Inr out \<and> answer_out sql a = Line ''Success'' # out))"
proof (cases a)
  case (Rows s rows)
  have "each (\<lambda>t rs. andthen (print_cells s t) (\<lambda>r. Inr (rs @ [r]))) (map (\<lambda>vals. tuple_new (row_bytes vals s)) vs) acc =
      Inr (acc @ map (map value_text) vs)" if "\<forall>vals \<in> set vs. row_ok vals s" for vs acc
    using that by (induction vs arbitrary: acc) (simp_all add: print_cells_row)
  with assms Rows show ?thesis by (simp add: print_rows_def)
qed (use assms in \<open>auto simp: print_rows_def report_def query_result_new_def refused_result_def\<close>)

section \<open>A line of the shell\<close>

lemma print_stmt_start: "print_stmt q \<noteq> [] \<and> hd (print_stmt q) \<noteq> CHR ''.''"
  by (cases q) (simp_all add: print_stmt_def)

lemma shell_round_statement:
  assumes "execute_sql k (print_stmt q) (sh_catalog sh) = Inr (answer_result (print_stmt q) a, c)" "answer_ok a"
  shows "shell_round k (print_stmt q) sh =
    Inr (sh\<lparr>sh_catalog := c, sh_out := sh_out sh @ Prompt ''TadisSQL>'' # answer_out (print_stmt q) a\<rparr>)"
proof -
  let ?q = "print_stmt q"
  have "\<not> (?q \<noteq> [] \<and> hd ?q = CHR ''.'')" using print_stmt_start [of q] by simp
  with assms(1) print_answer [OF assms(2), of ?q] show ?thesis
    by (cases a) (auto simp: shell_round_def shell_line_def Let_def)
qed

lemma db_step_answer_ok:
  assumes sh: "db_shown db c" and step: "db_step q db = Some (a, db')"
  shows "answer_ok a"
proof (cases q)
  case (Select st)
  let ?t = "hd (from_list st)"
  show ?thesis
  proof (cases "db ?t")
    case (Some T)
    have "row_ok (project_row idxs vals) (project_schema idxs (tv_schema T))"
      if "bind_columns (tv_schema T) (selist st) = Some idxs" "vals \<in> set (tv_rows T)" for idxs vals
      using project_row_ok [OF table_state_rows [OF db_shownD(5) [OF sh Some] that(2)] bind_columns_bound [OF that(1)]] .
    with step Select Some show ?thesis
      by (auto simp: at_table_def select_step_def selected_def split: if_splits option.splits)
  qed (use step Select in \<open>auto simp: at_table_def split: if_splits\<close>)
qed (use step in \<open>auto simp: at_table_def insert_step_def split: option.splits if_splits\<close>)

section \<open>What a client types\<close>

text \<open>
  A statement, the command that lists the tables, or another line that starts with a dot, which the
  shell ignores. The names of the tables are listed in the order of their characters.
\<close>

datatype input = Typed query_stmt | List_Tables | Unknown string

fun input_text :: "input \<Rightarrow> string" where
  "input_text (Typed q) = print_stmt q"
| "input_text List_Tables = ''.show tables''"
| "input_text (Unknown s) = CHR ''.'' # s"

datatype reply = Answer answer | Names "string list" | Nothing

definition db_names :: "db \<Rightarrow> string list" where
  "db_names db = sorted_list_of_set (dom db)"

fun input_step :: "input \<Rightarrow> db \<Rightarrow> (reply \<times> db) option" where
  "input_step (Typed q) db =
     (if stmt_ok q then map_option (\<lambda>(a, db). (Answer a, db)) (db_step q db) else None)"
| "input_step List_Tables db = Some (Names (db_names db), db)"
| "input_step (Unknown s) db = (if s \<noteq> ''quit'' \<and> s \<noteq> ''show tables'' then Some (Nothing, db) else None)"

fun input_fuel :: "input \<Rightarrow> db \<Rightarrow> nat" where
  "input_fuel (Typed q) db = stmt_fuel q db"
| "input_fuel _ db = 0"

fun reply_out :: "string \<Rightarrow> reply \<Rightarrow> out list" where
  "reply_out line (Answer a) = answer_out line a"
| "reply_out line (Names names) = [Grid [names]]"
| "reply_out line Nothing = []"

fun reply_ok :: "reply \<Rightarrow> bool" where
  "reply_ok (Answer a) \<longleftrightarrow> answer_ok a"
| "reply_ok _ \<longleftrightarrow> True"

text \<open>The catalog lists the same names, in the order of \<open>std::string\<close>.\<close>

lemma string_compare_less: "string_compare x y < 0 \<longleftrightarrow> x < y"
  by (induction x y rule: string_compare.induct) (auto simp: less_char_def of_char_eq_iff)

lemma map_sorted_strict: "map_sorted m \<Longrightarrow> sorted_wrt (<) (map fst m)"
  by (induction m rule: map_sorted.induct) (auto simp: string_compare_less)

lemma tables_listed:
  assumes "db_shown db c"
  shows "tables_name c = db_names db"
proof -
  have "map_sorted (ct_tables c)" using db_shownD(1) [OF assms] by (simp add: catalog_sorted_def)
  then have "sorted_wrt (<) (tables_name c)" by (simp add: tables_name_def map_sorted_strict)
  then have "sorted (tables_name c)" "distinct (tables_name c)" by (simp_all add: strict_sorted_iff)
  moreover have "x \<in> set (tables_name c) \<longleftrightarrow> x \<in> dom db" for x
    using shown_lookup [OF assms, of x] map_of_eq_None_iff [of "ct_tables c" x]
    by (auto simp: tables_name_def cat_get_table_def map_find_def dom_def)
  then have "dom db = set (tables_name c)" by blast
  ultimately show ?thesis
    by (simp add: db_names_def sorted_list_of_set_sort_remdups sorted_sort_id distinct_remdups_id)
qed

section \<open>The loop\<close>

fun db_run :: "input list \<Rightarrow> db \<Rightarrow> (reply list \<times> db) option" where
  "db_run [] db = Some ([], db)"
| "db_run (i # is) db =
     (case input_step i db of
        None \<Rightarrow> None
      | Some (a, db) \<Rightarrow> map_option (\<lambda>(as, db). (a # as, db)) (db_run is db))"

fun run_fuel :: "input list \<Rightarrow> db \<Rightarrow> nat" where
  "run_fuel [] db = 0"
| "run_fuel (i # is) db =
     max (input_fuel i db) (case input_step i db of None \<Rightarrow> 0 | Some (a, db) \<Rightarrow> run_fuel is db)"

definition screen :: "input list \<Rightarrow> reply list \<Rightarrow> out list" where
  "screen is as =
     concat (map2 (\<lambda>i a. Prompt ''TadisSQL>'' # reply_out (input_text i) a) is as) @ [Prompt ''TadisSQL>'']"

lemma screen_simps [simp]:
  "screen [] as = [Prompt ''TadisSQL>'']"
  "screen (i # is) (a # as) = Prompt ''TadisSQL>'' # reply_out (input_text i) a @ screen is as"
  by (simp_all add: screen_def)

definition main_commands :: "(string \<times> action) list" where
  "main_commands = cmd_add ''.show tables'' Show_Tables (cmd_add ''.quit'' Set_Quit [])"

lemma main_commands_run:
  "cmd_run ''.quit'' main_commands = Some Set_Quit" "cmd_run ''.show tables'' main_commands = Some Show_Tables"
  "s \<noteq> ''quit'' \<Longrightarrow> s \<noteq> ''show tables'' \<Longrightarrow> cmd_run (CHR ''.'' # s) main_commands = None"
  by (simp_all add: main_commands_def cmd_add_def cmd_run_def map_find_def)

lemma shell_round_input:
  assumes "sh_cmd sh = main_commands" "db_shown db (sh_catalog sh)" "input_step i db = Some (a, db')" "input_fuel i db \<le> k"
  shows "\<exists>c. db_shown db' c \<and> reply_ok a \<and> shell_round k (input_text i) sh =
    Inr (sh\<lparr>sh_catalog := c, sh_out := sh_out sh @ Prompt ''TadisSQL>'' # reply_out (input_text i) a\<rparr>)"
proof (cases i)
  case (Typed q)
  with assms(3) obtain b where s: "stmt_ok q" "db_step q db = Some (b, db')" "a = Answer b" by (auto split: if_splits)
  from statement_shown [OF assms(2) s(1,2)] assms(4) Typed obtain c where
    c: "db_shown db' c" "execute_sql k (print_stmt q) (sh_catalog sh) = Inr (answer_result (print_stmt q) b, c)" by auto
  have ok: "answer_ok b" by (rule db_step_answer_ok [OF assms(2) s(2)])
  from c(1) shell_round_statement [OF c(2) ok] ok s(3) Typed show ?thesis by auto
next
  case List_Tables
  with assms show ?thesis
    by (intro exI [of _ "sh_catalog sh"])
      (auto simp: shell_round_def shell_line_def main_commands_run run_action_def show_tables_def tables_listed [OF assms(2)])
next
  case (Unknown s)
  with assms show ?thesis
    by (intro exI [of _ "sh_catalog sh"])
      (simp add: shell_round_def shell_line_def main_commands_run(3) split: if_splits)
qed

lemma shell_loop_inputs:
  "\<not> sh_quit sh \<Longrightarrow> sh_cmd sh = main_commands \<Longrightarrow> db_shown db (sh_catalog sh) \<Longrightarrow> db_run is db = Some (as, db') \<Longrightarrow>
   run_fuel is db \<le> k \<Longrightarrow> length is + 2 \<le> n \<Longrightarrow>
   \<exists>c'. db_shown db' c' \<and> list_all reply_ok as \<and> shell_loop k n ended (map input_text is @ ''.quit'' # later) old sh =
     Inr (sh\<lparr>sh_catalog := c', sh_quit := True, sh_out := sh_out sh @ screen is as\<rparr>)"
proof (induction "is" arbitrary: old sh db as n)
  case Nil
  obtain m where n: "n = Suc (Suc m)" using two_fuel [of n] Nil.prems(6) by auto
  have "shell_round k ''.quit'' sh = Inr (sh\<lparr>sh_quit := True, sh_out := sh_out sh @ [Prompt ''TadisSQL>'']\<rparr>)"
    using Nil.prems(2) by (simp add: shell_round_def shell_line_def main_commands_run run_action_def)
  with Nil n show ?case
    by (intro exI [of _ "sh_catalog sh"]) (simp add: shell_loop_round del: shell_loop.simps(2), simp)
next
  case (Cons i "is")
  obtain m where n: "n = Suc m" "length is + 2 \<le> m" using Cons.prems(6) by (cases n) auto
  from Cons.prems(4) obtain a db1 as' where
    s: "input_step i db = Some (a, db1)" "db_run is db1 = Some (as', db')" "as = a # as'"
    by (auto split: option.splits)
  from shell_round_input [OF Cons.prems(2,3) s(1)] Cons.prems(5) obtain c1 where
    c1: "db_shown db1 c1" "reply_ok a" "shell_round k (input_text i) sh =
      Inr (sh\<lparr>sh_catalog := c1, sh_out := sh_out sh @ Prompt ''TadisSQL>'' # reply_out (input_text i) a\<rparr>)" by auto
  let ?sh = "sh\<lparr>sh_catalog := c1, sh_out := sh_out sh @ Prompt ''TadisSQL>'' # reply_out (input_text i) a\<rparr>"
  have "\<exists>c'. db_shown db' c' \<and> list_all reply_ok as' \<and> shell_loop k m ended (map input_text is @ ''.quit'' # later) (input_text i) ?sh =
      Inr (?sh\<lparr>sh_catalog := c', sh_quit := True, sh_out := sh_out ?sh @ screen is as'\<rparr>)"
    using Cons.prems(1,2,5) c1(1) s(1,2) n(2) by (intro Cons.IH) auto
  with c1(2,3) s(3) Cons.prems(1) show ?case
    by (auto simp: n(1) shell_loop_round simp del: shell_loop.simps(2))
qed

section \<open>The program\<close>

lemma main_runs:
  assumes st: "db_stored db fs" and l: "distinct listing" "set listing = db_files db"
    and run: "db_run is db = Some (as, db')" and ok: "db_storable db'"
    and fuel: "run_fuel is db \<le> k" "length is + 2 \<le> n" and argc: "argc \<le> 1"
  shows "\<exists>fs'. shell_main k n argc ended (map input_text is @ ''.quit'' # later) listing junk fs = Inr (screen is as, fs') \<and>
    db_stored (db_reopened db') fs' \<and> list_all reply_ok as"
proof -
  from stored_init [OF st l] obtain c where c: "catalog_init ''.'' listing junk fs = Inr c" "db_shown db c" by blast
  let ?sh = "\<lparr>sh_cmd = main_commands, sh_catalog = c, sh_quit = False, sh_out = []\<rparr>"
  have sh: "shell_init ''.'' listing junk fs = Inr ?sh"
    using c(1) by (simp add: shell_init_def main_commands_def Let_def)
  from shell_loop_inputs [of ?sh db "is" as db' k n ended later "[]"] c(2) run fuel obtain c' where
    r: "db_shown db' c'" "list_all reply_ok as" "shell_loop k n ended (map input_text is @ ''.quit'' # later) [] ?sh =
      Inr (?sh\<lparr>sh_catalog := c', sh_quit := True, sh_out := screen is as\<rparr>)" by auto
  from destroy_stored [OF r(1) ok] sh r(2,3) argc show ?thesis by (auto simp: shell_main_def)
qed

end
