(* ===== verification/Query_Properties.thy ===== *)
theory Query_Properties
  imports Query_State Shell
begin

text \<open>
  The properties of whole statements, from their text to the result and the state of the tables, and of
  the shell around them, each with a concrete instance where it has hypotheses. A statement is given as
  its print, which the parser is proved to read back.
\<close>

section \<open>A concrete table\<close>

definition item_columns :: "col_attr list" where
  "item_columns = [\<lparr>ca_name = ''id'', ca_type = ''INT'', ca_size = 0\<rparr>, \<lparr>ca_name = ''name'', ca_type = ''VARCHAR'', ca_size = 9\<rparr>]"

definition item_schema :: schema where
  "item_schema = \<lparr>columns = map column_of item_columns\<rparr>"

lemma item_row_ok: "int_range n \<Longrightarrow> length x < 2 ^ 31 \<Longrightarrow> row_ok [value_int n, value_string x] item_schema"
  by (simp add: row_ok_def item_schema_def item_columns_def column_of_def cell_ok_def)

lemma item_created: "\<exists>c. table_state ''t'' (view_new item_schema) c \<and> catalog_sorted c"
proof -
  from shows_new obtain bp where b: "heap_shows (view_new item_schema) bp" by blast
  let ?c = "\<lparr>ct_tables = [(''t'', \<lparr>tb_name = ''t'', tb_schema = item_schema\<rparr>)], ct_stm = [(''t'', bp)],
      ct_base_dir = ''.'', ct_files = (\<lambda>_. None)\<rparr>"
  have "table_state ''t'' (view_new item_schema) ?c"
    using b by (simp add: table_state_def cat_get_table_def stm_get_table_def map_find_def)
  then show ?thesis by (intro exI [of _ ?c]) (simp add: catalog_sorted_def)
qed

lemma small_row_room: "length (row_bytes vals s) \<le> 900 \<Longrightarrow> view_room vals (view_new s)"
  by (simp add: view_room_def view_new_def PAGE_SIZE_def BFP_MAX_PAGE_NUM_def)

lemma item_row_bytes: "length (row_bytes [value_int 7, value_string ''bob''] item_schema) = 11"
  by code_simp

definition item_view :: table_view where
  "item_view = view_insert [value_int 7, value_string ''bob''] (view_new item_schema)"

lemma item_room: "view_room [value_int 7, value_string ''bob''] (view_new item_schema)"
  by (rule small_row_room) (simp add: item_row_bytes)

lemma one_item: "\<exists>c. table_state ''t'' item_view c"
proof -
  from item_created obtain c where c: "table_state ''t'' (view_new item_schema) c" by blast
  from insert_runs [OF c _ item_room, of "[]"] item_row_ok [of 7 "''bob''"] show ?thesis
    by (auto simp: int_range_def item_view_def)
qed

text \<open>The query \<open>SELECT name FROM t WHERE id > 3\<close> on that table.\<close>

lemma item_query:
  fixes attrs cnd
  defines "attrs \<equiv> [\<lparr>ra_table = [], ra_attribute = ''name''\<rparr>]"
    and "cnd \<equiv> \<lparr>c_left = value_rel \<lparr>ra_table = [], ra_attribute = ''id''\<rparr>, c_right = value_int 3, c_op = GREATER\<rparr>"
  shows "bind_columns item_schema attrs = Some [1]" "find (foreign_attr ''t'') attrs = None"
    "cond_holds item_schema [value_int 7, value_string ''bob''] cnd"
    "cond_bound item_schema cnd" "cond_comparable item_schema [value_int 7, value_string ''bob''] cnd"
proof -
  show "bind_columns item_schema attrs = Some [1]" "find (foreign_attr ''t'') attrs = None"
    "cond_holds item_schema [value_int 7, value_string ''bob''] cnd"
    unfolding attrs_def cnd_def by code_simp+
  have i: "column_idx item_schema ''id'' = 0" by code_simp
  show "cond_bound item_schema cnd"
    by (simp add: cnd_def cond_bound_def operand_bound_def value_rel_def value_int_def convert_def i)
  show "cond_comparable item_schema [value_int 7, value_string ''bob''] cnd"
    by (auto simp: cnd_def cond_comparable_def operand_value_def value_rel_def value_int_def i int_range_def)
qed

section \<open>Queries\<close>

text \<open>C4: A SELECT on a table returns, in the order of the table, one tuple for each row that satisfies the conditions, and the tuple holds the columns of the select list: for rows of the schema, columns that exist, and conditions that compare strings or integers less than 2^31 apart. The loop ends; the other tables and the metadata stay as they were.\<close>

theorem select_returns_matching_rows:
  assumes "stmt_ok (Select \<lparr>selist = attrs, from_list = [tbl], cond_list = conds\<rparr>)"
    and "table_state tbl T c" "view_scannable T"
    and "bind_columns (tv_schema T) attrs = Some idxs" "find (foreign_attr tbl) attrs = None"
    and "\<forall>cnd \<in> set conds. cond_bound (tv_schema T) cnd"
      "\<forall>vals \<in> set (tv_rows T). \<forall>cnd \<in> set conds. cond_comparable (tv_schema T) vals cnd"
    and "2 * length (tv_rows T) + 4 \<le> n"
  shows "\<exists>res bp. execute_sql n (print_stmt (Select \<lparr>selist = attrs, from_list = [tbl], cond_list = conds\<rparr>)) c =
      Inr (res, put_heap tbl bp c) \<and> table_state tbl (view_scanned T) (put_heap tbl bp c) \<and>
    qr_rc res = SUCCESS \<and> qr_output_schema res = Some (project_schema idxs (tv_schema T)) \<and>
    qr_tuples res = map (result_tuple idxs (tv_schema T)) (selected (tv_schema T) conds (tv_rows T)) \<and>
    (\<forall>vals \<in> set (tv_rows T). \<forall>j < length idxs.
       value_at (result_tuple idxs (tv_schema T) vals) (project_schema idxs (tv_schema T)) j = Inr (vals ! (idxs ! j)))"
proof -
  have "attrs \<noteq> []" using assms(1) by auto
  from select_runs [OF assms(2-4) this assms(5-7)] assms(8) obtain bp where
    r: "table_state tbl (view_scanned T) (put_heap tbl bp c)"
      "execute_sql n (print_stmt (Select \<lparr>selist = attrs, from_list = [tbl], cond_list = conds\<rparr>)) c =
         Inr (selected_result idxs conds T, put_heap tbl bp c)"
    by (auto simp: execute_printed [OF assms(1)])
  have "value_at (result_tuple idxs (tv_schema T) vals) (project_schema idxs (tv_schema T)) j = Inr (vals ! (idxs ! j))"
    if "vals \<in> set (tv_rows T)" "j < length idxs" for vals j
  proof -
    have "row_ok vals (tv_schema T)" using table_state_rows [OF assms(2) that(1)] .
    from value_at_row [OF project_row_ok [OF this bind_columns_bound [OF assms(4)]]] that(2)
    show ?thesis by (simp add: result_tuple_def tuple_new_def project_schema_def project_row_def)
  qed
  with r show ?thesis
    by (intro exI [of _ "selected_result idxs conds T"] exI [of _ bp]) (simp add: selected_result_def)
qed

theorem select_returns_matching_rows_witness:
  "\<exists>c res c'. execute_sql 6 '' SELECT name FROM t WHERE id > 3 ;'' c = Inr (res, c') \<and> qr_rc res = SUCCESS \<and>
     (\<exists>t s. qr_tuples res = [t] \<and> qr_output_schema res = Some s \<and> value_at t s 0 = Inr (value_string ''bob''))"
proof -
  let ?attrs = "[\<lparr>ra_table = [], ra_attribute = ''name''\<rparr>]"
  let ?cnd = "\<lparr>c_left = value_rel \<lparr>ra_table = [], ra_attribute = ''id''\<rparr>, c_right = value_int 3, c_op = GREATER\<rparr>"
  let ?q = "Select \<lparr>selist = ?attrs, from_list = [''t''], cond_list = [?cnd]\<rparr>"
  let ?row = "[value_int 7, value_string ''bob'']"
  from one_item obtain c where st: "table_state ''t'' item_view c" by blast
  have v: "tv_schema item_view = item_schema" "tv_rows item_view = [?row]" by (simp_all add: item_view_def)
  have "view_scannable item_view"
    by (simp add: view_scannable_def item_view_def view_insert_def view_new_def view_scanned_def)
  moreover have q: "stmt_ok ?q" "print_stmt ?q = '' SELECT name FROM t WHERE id > 3 ;''" by code_simp+
  ultimately obtain res bp where
    "execute_sql 6 (print_stmt ?q) c = Inr (res, put_heap ''t'' bp c)" "qr_rc res = SUCCESS"
    "qr_output_schema res = Some (project_schema [1] item_schema)"
    "qr_tuples res = map (result_tuple [1] item_schema) (selected item_schema [?cnd] [?row])"
    "\<forall>j < length [1 :: nat]. value_at (result_tuple [1] item_schema ?row) (project_schema [1] item_schema) j =
       Inr (?row ! ([1] ! j))"
    using select_returns_matching_rows [OF q(1) st, of "[1]" 6] item_query unfolding v by auto
  moreover have "selected item_schema [?cnd] [?row] = [?row]" using item_query(3) by (simp add: selected_def)
  ultimately show ?thesis unfolding q(2) by auto
qed

section \<open>Changing statements\<close>

text \<open>C5: An INSERT of a row of the schema that fits appends the row to the table and reports success; the list of column names in the statement, if there is one, makes no difference.\<close>

theorem insert_appends_row:
  assumes "stmt_ok (Insert \<lparr>i_table_name = tbl, i_cols = cols, i_values = vals\<rparr>)"
    and "table_state tbl T c" "row_ok vals (tv_schema T)" "view_room vals T" "2 \<le> n"
  shows "\<exists>res bp. execute_sql n (print_stmt (Insert \<lparr>i_table_name = tbl, i_cols = cols, i_values = vals\<rparr>)) c =
      Inr (res, put_heap tbl bp c) \<and> qr_rc res = SUCCESS \<and>
    table_state tbl (view_insert vals T) (put_heap tbl bp c) \<and> tv_rows (view_insert vals T) = tv_rows T @ [vals]"
  using insert_runs [OF assms(2-4), of cols] assms(5) by (force simp: execute_printed [OF assms(1)] query_result_new_def)

theorem insert_appends_row_witness:
  "\<exists>c res T c'. execute_sql 2 '' INSERT INTO t ( name , id ) VALUES ( 7 , 'bob' ) ;'' c = Inr (res, c') \<and>
     qr_rc res = SUCCESS \<and> table_state ''t'' T c' \<and> tv_rows T = [[value_int 7, value_string ''bob'']]"
proof -
  let ?vals = "[value_int 7, value_string ''bob'']"
  let ?q = "Insert \<lparr>i_table_name = ''t'', i_cols = [''name'', ''id''], i_values = ?vals\<rparr>"
  from item_created obtain c where c: "table_state ''t'' (view_new item_schema) c" by blast
  have q: "stmt_ok ?q" "print_stmt ?q = '' INSERT INTO t ( name , id ) VALUES ( 7 , 'bob' ) ;''" by code_simp+
  have "row_ok ?vals (tv_schema (view_new item_schema))" using item_row_ok [of 7 "''bob''"] by (simp add: int_range_def)
  from insert_appends_row [OF q(1) c this item_room, of 2] obtain res bp where
    "execute_sql 2 '' INSERT INTO t ( name , id ) VALUES ( 7 , 'bob' ) ;'' c = Inr (res, put_heap ''t'' bp c)"
    "qr_rc res = SUCCESS" "table_state ''t'' (view_insert ?vals (view_new item_schema)) (put_heap ''t'' bp c)"
    unfolding q(2) by auto
  moreover have "tv_rows (view_insert ?vals (view_new item_schema)) = [?vals]" by simp
  ultimately show ?thesis by blast
qed

text \<open>C14: A CREATE TABLE with a new name, and no file left over under it, makes an empty table with the columns of the statement; every other table is as before.\<close>

theorem create_table_makes_empty:
  assumes "stmt_ok (Create_Table \<lparr>ct_col_attrs = cas, ct_table_name = tbl\<rparr>)" "catalog_sorted c"
    and "cat_get_table tbl c = None" "stm_get_table tbl (ct_stm c) = None" "file_at (db_name tbl) (ct_files c) = None"
    and "2 \<le> n"
  shows "\<exists>res c'. execute_sql n (print_stmt (Create_Table \<lparr>ct_col_attrs = cas, ct_table_name = tbl\<rparr>)) c = Inr (res, c') \<and>
    qr_rc res = SUCCESS \<and> table_state tbl (view_new \<lparr>columns = map column_of cas\<rparr>) c' \<and> catalog_sorted c' \<and>
    (\<forall>x. x \<noteq> tbl \<longrightarrow> cat_get_table x c' = cat_get_table x c \<and> stm_get_table x (ct_stm c') = stm_get_table x (ct_stm c))"
proof -
  have "cas \<noteq> []" and cols: "list_all col_ok cas" using assms(1) by simp_all
  from create_runs [OF assms(2-5) this(1) col_ok_types [OF cols]] obtain c' where
    "table_state tbl (view_new \<lparr>columns = map column_of cas\<rparr>) c'" "catalog_sorted c'" "others_same tbl c c'"
    "\<forall>n \<ge> 2. \<forall>sql. runs (Create_Table \<lparr>ct_col_attrs = cas, ct_table_name = tbl\<rparr>) n sql c =
       Inr (query_result_new\<lparr>qr_type := Some CREATE_Q\<rparr>, c')" by blast
  with assms(6) show ?thesis
    by (auto simp: execute_printed [OF assms(1)] others_same_def query_result_new_def)
qed

theorem create_table_makes_empty_witness:
  "\<exists>res c' T. execute_sql 2 '' CREATE TABLE t ( id INT , size FLOAT ) ;'' (catalog_blank ''.'' (\<lambda>_. None)) = Inr (res, c') \<and>
     qr_rc res = SUCCESS \<and> table_state ''t'' T c' \<and> tv_rows T = [] \<and>
     map col_type (columns (tv_schema T)) = [INT_C, FLOAT_C]"
proof -
  let ?cas = "[\<lparr>ca_name = ''id'', ca_type = ''INT'', ca_size = 0\<rparr>, \<lparr>ca_name = ''size'', ca_type = ''FLOAT'', ca_size = 0\<rparr>]"
  let ?q = "Create_Table \<lparr>ct_col_attrs = ?cas, ct_table_name = ''t''\<rparr>"
  let ?c = "catalog_blank ''.'' (\<lambda>_. None)"
  have q: "stmt_ok ?q" "print_stmt ?q = '' CREATE TABLE t ( id INT , size FLOAT ) ;''" by code_simp+
  have "catalog_sorted ?c" "cat_get_table ''t'' ?c = None" "stm_get_table ''t'' (ct_stm ?c) = None"
    "file_at (db_name ''t'') (ct_files ?c) = None"
    by (simp_all add: catalog_blank_def catalog_sorted_def cat_get_table_def stm_get_table_def map_find_def file_at_def)
  from create_table_makes_empty [OF q(1) this, of 2] obtain res c' where
    "execute_sql 2 '' CREATE TABLE t ( id INT , size FLOAT ) ;'' ?c = Inr (res, c')" "qr_rc res = SUCCESS"
    "table_state ''t'' (view_new \<lparr>columns = map column_of ?cas\<rparr>) c'" unfolding q(2) by blast
  then show ?thesis
    by (intro exI [of _ res] exI [of _ c'] exI [of _ "view_new \<lparr>columns = map column_of ?cas\<rparr>"])
      (simp add: column_of_def)
qed

text \<open>C15: A DROP TABLE of a table whose heap can be closed removes the table, its heap and both of its files, and nothing else.\<close>

theorem drop_table_removes:
  assumes "stmt_ok (Drop \<lparr>ds_table = tbl\<rparr>)"
    and "cat_get_table tbl c \<noteq> None" "stm_get_table tbl (ct_stm c) = Some bp"
    and "heap_at S bp" "\<not> bp_closed bp" "unat (next_pid (bp_disk bp)) \<le> BFP_MAX_PAGE_NUM" "2 \<le> n"
  shows "\<exists>res c'. execute_sql n (print_stmt (Drop \<lparr>ds_table = tbl\<rparr>)) c = Inr (res, c') \<and> qr_rc res = SUCCESS \<and>
    (\<forall>x. cat_get_table x c' = (if x = tbl then None else cat_get_table x c) \<and>
       stm_get_table x (ct_stm c') = (if x = tbl then None else stm_get_table x (ct_stm c))) \<and>
    (\<forall>x. file_at x (ct_files c') =
       (if normal_path x \<in> {normal_path (tbl @ ''.json''), normal_path (db_name tbl)} then None else file_at x (ct_files c)))"
proof -
  from drop_runs [OF assms(2-6)] obtain c' where
    d: "cat_get_table tbl c' = None" "stm_get_table tbl (ct_stm c') = None" "others_same tbl c c'"
      "\<forall>x. ct_files c' x = (if x \<in> {normal_path (tbl @ ''.json''), normal_path (db_name tbl)} then None else ct_files c x)"
      "\<forall>n \<ge> 2. \<forall>sql. runs (Drop \<lparr>ds_table = tbl\<rparr>) n sql c = Inr (query_result_new\<lparr>qr_type := Some DROP_Q\<rparr>, c')" by blast
  then show ?thesis using assms(7)
    by (intro exI [of _ "query_result_new\<lparr>qr_type := Some DROP_Q\<rparr>"] exI [of _ c'])
      (simp add: execute_printed [OF assms(1)] others_same_def file_at_def query_result_new_def)
qed

theorem drop_table_removes_witness:
  "\<exists>c res c'. cat_has_table ''t'' c \<and> execute_sql 2 '' DROP TABLE t ;'' c = Inr (res, c') \<and> qr_rc res = SUCCESS \<and>
     \<not> cat_has_table ''t'' c'"
proof -
  from item_created obtain c where c: "table_state ''t'' (view_new item_schema) c" by blast
  then obtain bp where bp: "cat_get_table ''t'' c \<noteq> None" "stm_get_table ''t'' (ct_stm c) = Some bp"
    "heap_shows (view_new item_schema) bp" by (auto simp: table_state_def)
  have q: "stmt_ok (Drop \<lparr>ds_table = ''t''\<rparr>)" "print_stmt (Drop \<lparr>ds_table = ''t''\<rparr>) = '' DROP TABLE t ;''"
    by code_simp+
  from drop_table_removes [OF q(1) bp(1,2) heap_showsD(1,2,10) [OF bp(3)], of 2] obtain res c' where
    "execute_sql 2 '' DROP TABLE t ;'' c = Inr (res, c')" "qr_rc res = SUCCESS" "cat_get_table ''t'' c' = None"
    unfolding q(2) by auto
  with bp(1) show ?thesis by (auto simp: cat_has_table_def cat_get_table_def)
qed

section \<open>Refused statements\<close>

text \<open>C16: A statement that the binder or its executer refuses (an unknown or an existing table, a wrong number or type of values, more than one table, a foreign or an unknown column, any DELETE) changes no table: the result carries the code of \<open>refusal\<close>, no tuples, and the text of the code with the statement behind it, whatever message the binder had put there. Everything is as before but in one case: the query of an unknown column (of a table with rows, in whose pool a frame is left for the scanner) leaves the first page of the table pinned, as the scanner has been made and is not destroyed; the rows, their pages and all other tables are as before.\<close>

theorem refused_keeps_tables:
  assumes "stmt_ok q" "refusal q c = Some code" "2 \<le> n"
    and "code = COLUMN_NOT_EXIST \<Longrightarrow> table_state (queried_table q) T c \<and> view_abandonable T"
  shows "\<exists>res c'. execute_sql n (print_stmt q) c = Inr (res, c') \<and> qr_rc res = code \<and>
    qr_msg res = rc2str code @ '' '' @ print_stmt q \<and> qr_tuples res = [] \<and>
    (if code = COLUMN_NOT_EXIST
     then \<exists>bp. c' = put_heap (queried_table q) bp c \<and>
            table_state (queried_table q) (T\<lparr>tv_stuck := insert 1 (tv_stuck T)\<rparr>) c'
     else c' = c)"
proof -
  from refused_runs [OF assms, of "print_stmt q"] obtain c' where
    "execute_sql n (print_stmt q) c = Inr (refused_result (stmt_type q) code (print_stmt q), c')"
    "if code = COLUMN_NOT_EXIST
     then \<exists>bp. c' = put_heap (queried_table q) bp c \<and> table_state (queried_table q) (view_abandoned T) c'
     else c' = c" by (auto simp: execute_printed [OF assms(1)])
  then show ?thesis unfolding view_abandoned_def
    by (intro exI [of _ "refused_result (stmt_type q) code (print_stmt q)"] exI [of _ c']) (simp add: refused_result_def)
qed

text \<open>A table that does not exist, and a column that does not.\<close>

theorem refused_keeps_tables_witness:
  "(\<exists>res. execute_sql 2 '' SELECT * FROM t ;'' (catalog_blank ''.'' (\<lambda>_. None)) = Inr (res, catalog_blank ''.'' (\<lambda>_. None)) \<and>
      qr_rc res = TABLE_NOT_EXISTED \<and> qr_msg res = ''Table is not existed  SELECT * FROM t ;'') \<and>
   (\<exists>c res c'. table_state ''t'' item_view c \<and> execute_sql 2 '' SELECT age FROM t ;'' c = Inr (res, c') \<and>
      qr_rc res = COLUMN_NOT_EXIST \<and> table_state ''t'' (item_view\<lparr>tv_stuck := {1}\<rparr>) c')"
proof
  let ?q = "Select \<lparr>selist = [star_attr], from_list = [''t''], cond_list = []\<rparr>"
  have q: "stmt_ok ?q" "print_stmt ?q = '' SELECT * FROM t ;''" "rc2str TABLE_NOT_EXISTED = ''Table is not existed''"
    by code_simp+
  have "refusal ?q (catalog_blank ''.'' (\<lambda>_. None)) = Some TABLE_NOT_EXISTED"
    by (simp add: foreign_attr_def star_attr_def cat_get_table_def catalog_blank_def map_find_def)
  from refused_keeps_tables [OF q(1) this, of 2] show "\<exists>res.
      execute_sql 2 '' SELECT * FROM t ;'' (catalog_blank ''.'' (\<lambda>_. None)) = Inr (res, catalog_blank ''.'' (\<lambda>_. None)) \<and>
      qr_rc res = TABLE_NOT_EXISTED \<and> qr_msg res = ''Table is not existed  SELECT * FROM t ;''" unfolding q(2,3) by auto
next
  from one_item obtain c where c: "table_state ''t'' item_view c" by blast
  let ?q = "Select \<lparr>selist = [\<lparr>ra_table = [], ra_attribute = ''age''\<rparr>], from_list = [''t''], cond_list = []\<rparr>"
  have q: "stmt_ok ?q" "print_stmt ?q = '' SELECT age FROM t ;''" "column_idx item_schema ''age'' = - 1" by code_simp+
  have v: "tv_schema item_view = item_schema" "tv_pages item_view \<noteq> []" "tv_stuck item_view = {}"
    by (simp_all add: item_view_def view_insert_def view_new_def)
  have "refusal ?q c = Some COLUMN_NOT_EXIST"
    using c q(3) v(1) by (simp add: foreign_attr_def table_state_def unknown_column_def)
  from refused_keeps_tables [OF q(1) this, of 2 item_view] c v q(2)
  show "\<exists>c res c'. table_state ''t'' item_view c \<and> execute_sql 2 '' SELECT age FROM t ;'' c = Inr (res, c') \<and>
      qr_rc res = COLUMN_NOT_EXIST \<and> table_state ''t'' (item_view\<lparr>tv_stuck := {1}\<rparr>) c'"
    by (auto simp: view_abandonable_def view_abandoned_def)
qed

section \<open>The shell\<close>

text \<open>C38: The line \<open>.quit\<close> ends the shell: whatever lines come before it, as long as they run without a fault, and whatever comes after it, the loop returns within the rounds up to that line.\<close>

theorem quit_ends_shell:
  assumes "quit_known sh" "each (shell_round k) pre sh = Inr sh1" "length pre + 2 \<le> n"
  shows "\<exists>sh'. shell_loop k n ended (pre @ ''.quit'' # later) old sh = Inr sh' \<and> sh_quit sh'"
  using assms by (rule shell_loop_quits)

lemma shell_starts: "\<exists>sh. shell_init ''.'' [] (CHR ''x'') (\<lambda>_. None) = Inr sh \<and> quit_known sh \<and> \<not> sh_quit sh"
  by (simp add: shell_init_def catalog_init_def quit_known_def cmd_add_def map_find_def Let_def)

theorem quit_ends_shell_witness:
  "\<exists>sh sh'. shell_init ''.'' [] (CHR ''x'') (\<lambda>_. None) = Inr sh \<and>
     shell_loop 5 4 True ([''''] @ ''.quit'' # [''SELECT'']) [] sh = Inr sh' \<and> sh_quit sh'"
proof -
  from shell_starts obtain sh where sh: "shell_init ''.'' [] (CHR ''x'') (\<lambda>_. None) = Inr sh" "quit_known sh" by blast
  from shell_round_empty [of 5 sh] obtain sh1 where "each (shell_round 5) [''''] sh = Inr sh1" by auto
  from quit_ends_shell [OF sh(2) this, of 4 True "[''SELECT'']" "[]"] sh(1) show ?thesis by auto
qed

text \<open>C39: The end of the input does not end the shell, as the failed read is not noticed. Behind the last line the loop goes on, for ever: with the empty line when a line break ended the last one (or there was none), and otherwise with the last line, which it executes again and again, as \<open>std::getline\<close> leaves the string as it is when the stream is no longer good. After any number \<open>m\<close> of such rounds the loop is where it was, in the state after executing the lines of the input and \<open>m\<close> times that line, unless one of them ends the program by a fault; it returns after no number of rounds.\<close>

theorem end_of_input_never_ends:
  assumes "\<not> sh_quit sh" "\<forall>s. cmd_run s (sh_cmd sh) = Some Set_Quit \<longrightarrow> s = ''.quit''" "''.quit'' \<notin> set inputs"
    and "line = (if ended \<or> inputs = [] then [] else last inputs)"
  shows "shell_loop k (length inputs + m + n) ended inputs [] sh =
      andthen (each (shell_round k) (inputs @ replicate m line) sh) (shell_loop k n ended [] line) \<and>
    shell_loop k n ended inputs [] sh \<noteq> Inr sh'"
proof -
  have "only_quits sh" "''.quit'' \<notin> set ([] # inputs)" "line = line_at_end ended inputs"
    using assms(2-4) by (simp_all add: only_quits_def line_at_end_def)
  with shell_loop_at_end [OF assms(1) _ assms(3)] shell_loop_never [OF assms(1)] show ?thesis by blast
qed

lemma starting_shell:
  "shell_init ''.'' [] junk (\<lambda>_. None) =
    Inr \<lparr>sh_cmd = [(''.quit'', Set_Quit), (''.show tables'', Show_Tables)], sh_catalog = catalog_blank ''.'' (\<lambda>_. None),
      sh_quit = False, sh_out = []\<rparr>"
  by (simp add: shell_init_def catalog_init_def catalog_blank_def cmd_add_def map_find_def Let_def)

text \<open>The command that lists the tables, without a line break: three times, and no end.\<close>

theorem end_of_input_never_ends_witness:
  "\<exists>sh. shell_init ''.'' [] (CHR ''x'') (\<lambda>_. None) = Inr sh \<and> (\<forall>n sh'. shell_loop 5 n False [''.show tables''] [] sh \<noteq> Inr sh') \<and>
     (\<forall>n. shell_loop 5 (3 + n) False [''.show tables''] [] sh =
        shell_loop 5 n False [] ''.show tables''
          (sh\<lparr>sh_out := concat (replicate 3 [Prompt ''TadisSQL>'', Grid [[]]])\<rparr>))"
proof -
  obtain sh where sh: "shell_init ''.'' [] (CHR ''x'') (\<lambda>_. None) = Inr sh"
    "sh_cmd sh = [(''.quit'', Set_Quit), (''.show tables'', Show_Tables)]" "\<not> sh_quit sh" "sh_out sh = []"
    "sh_catalog sh = catalog_blank ''.'' (\<lambda>_. None)"
    unfolding starting_shell by (metis shell.select_convs)
  have q: "\<forall>s. cmd_run s (sh_cmd sh) = Some Set_Quit \<longrightarrow> s = ''.quit''" by (simp add: sh(2) cmd_run_def map_find_def)
  note e = end_of_input_never_ends [OF sh(3) q, of "[''.show tables'']" "''.show tables''" False]
  have r: "shell_round 5 ''.show tables'' s = Inr (s\<lparr>sh_out := sh_out s @ [Prompt ''TadisSQL>'', Grid [[]]]\<rparr>)"
    if "sh_cmd s = sh_cmd sh" "sh_catalog s = sh_catalog sh" for s
    using that by (simp add: sh(2,5) shell_round_def shell_line_def cmd_run_def map_find_def run_action_def show_tables_def
        tables_name_def catalog_blank_def)
  have "shell_loop 5 (3 + n) False [''.show tables''] [] sh = shell_loop 5 n False [] ''.show tables''
      (sh\<lparr>sh_out := concat (replicate 3 [Prompt ''TadisSQL>'', Grid [[]]])\<rparr>)" for n
    using conjunct1 [OF e, of 5 2 n] by (simp add: r sh(4) numeral_2_eq_2 numeral_3_eq_3)
  moreover have "shell_loop 5 n False [''.show tables''] [] sh \<noteq> Inr sh'" for n sh' using conjunct2 [OF e] by simp
  ultimately show ?thesis using sh(1) by blast
qed

end
