(* ===== verification/Session_Properties.thy ===== *)
theory Session_Properties
  imports Program Query_Properties
begin

text \<open>
  The properties of the whole program: a session of statements and restarts, and a run of \<open>main\<close>, against
  the specification of the database, with a session of five steps and two runs as their instances.
\<close>

section \<open>A session\<close>

definition session_create :: query_stmt where
  "session_create = Create_Table \<lparr>ct_col_attrs = item_columns, ct_table_name = ''t''\<rparr>"

definition session_insert :: query_stmt where
  "session_insert =
     Insert \<lparr>i_table_name = ''t'', i_cols = [], i_values = [value_int 7, value_string ''bob'']\<rparr>"

definition session_select :: query_stmt where
  "session_select =
     Select \<lparr>selist = [\<lparr>ra_table = [], ra_attribute = ''name''\<rparr>], from_list = [''t''],
       cond_list = [\<lparr>c_left = value_rel \<lparr>ra_table = [], ra_attribute = ''id''\<rparr>, c_right = value_int 3, c_op = GREATER\<rparr>]\<rparr>"

definition session_events :: "event list" where
  "session_events =
     [Statement session_create, Statement session_insert, Statement session_select,
      Restart [''./t.json'', ''./t.db''] (CHR ''x''), Statement session_select]"

lemma session_ok: "stmt_ok session_create" "stmt_ok session_insert" "stmt_ok session_select"
proof -
  have "lexeme_ok (Name ''t'')" "lexeme_ok (Name ''id'')" "lexeme_ok (Name ''name'')" by code_simp+
  then show "stmt_ok session_create"
    by (simp add: session_create_def item_columns_def col_ok_def del: lexeme_ok.simps)
  show "stmt_ok session_insert" "stmt_ok session_select" by code_simp+
qed

lemma session_create_step: "db_step session_create (\<lambda>_. None) = Some (Done CREATE_Q, [''t'' \<mapsto> view_new item_schema])"
  by (simp add: session_create_def item_schema_def)

lemma session_insert_step:
  "db_step session_insert [''t'' \<mapsto> view_new item_schema] = Some (Done INSERT_Q, [''t'' \<mapsto> item_view])"
proof -
  have r: "row_ok [value_int 7, value_string ''bob''] item_schema"
    using item_row_ok [of 7 "''bob''"] by (simp add: int_range_def)
  then show ?thesis
    using item_room types_match_row [OF r] row_length [OF r]
    by (simp add: session_insert_def at_table_def insert_step_def item_view_def)
qed

text \<open>The answer to the query, and what it does to the view of the table.\<close>

definition session_answer :: answer where
  "session_answer = Rows \<lparr>columns = [\<lparr>col_type = VARCHAR_C, col_name = ''name'', col_size = 0\<rparr>]\<rparr> [[value_string ''bob'']]"

lemma session_select_step:
  assumes "tv_schema T = item_schema" "tv_rows T = [[value_int 7, value_string ''bob'']]" "view_scannable T"
  shows "db_step session_select [''t'' \<mapsto> T] = Some (session_answer, [''t'' \<mapsto> view_scanned T])"
proof -
  let ?attrs = "[\<lparr>ra_table = [], ra_attribute = ''name''\<rparr>]"
  let ?cnd = "\<lparr>c_left = value_rel \<lparr>ra_table = [], ra_attribute = ''id''\<rparr>, c_right = value_int 3, c_op = GREATER\<rparr>"
  note q = item_query
  have "select_step \<lparr>selist = ?attrs, from_list = [''t''], cond_list = [?cnd]\<rparr> ''t'' T =
      Some (session_answer, view_scanned T)"
    using assms q
    by (simp add: select_step_def selected_def session_answer_def project_schema_def project_row_def item_schema_def
        item_columns_def column_of_def)
  then show ?thesis using q(2) by (simp add: session_select_def at_table_def)
qed

lemma item_view_simps:
  "tv_schema item_view = item_schema" "tv_rows item_view = [[value_int 7, value_string ''bob'']]"
  "tv_pages item_view \<noteq> []" "tv_stuck item_view = {}"
  by (simp_all add: item_view_def view_insert_def view_new_def tv_rows_def view_fits_def)

lemma session_restart_step:
  assumes "tv_schema T = item_schema"
  shows "event_step (Restart [''./t.json'', ''./t.db''] junk) [''t'' \<mapsto> T] = Some (None, [''t'' \<mapsto> view_reopened T])"
proof -
  have "schema_storable item_schema"
    by (simp add: schema_storable_def item_schema_def item_columns_def column_of_def column_storable_def plain_text_def
        is_space_def)
  then have "db_storable [''t'' \<mapsto> T]" by (simp add: db_storable_def assms)
  moreover have "set [''./t.json'', ''./t.db''] = db_files [''t'' \<mapsto> T]"
    by (auto simp: db_files_def meta_name_def db_name_def)
  moreover have "db_reopened [''t'' \<mapsto> T] = [''t'' \<mapsto> view_reopened T]" by (auto simp: db_reopened_def)
  ultimately show ?thesis by simp
qed

definition session_results :: "query_result option list" where
  "session_results =
     [Some (answer_result (print_stmt session_create) (Done CREATE_Q)),
      Some (answer_result (print_stmt session_insert) (Done INSERT_Q)),
      Some (answer_result (print_stmt session_select) session_answer), None,
      Some (answer_result (print_stmt session_select) session_answer)]"

lemma session_runs:
  "\<exists>db'. session_step session_events (\<lambda>_. None) = Some (session_results, db')" (is ?step)
  "session_fuel session_events (\<lambda>_. None) \<le> 6"
proof -
  let ?T2 = "view_scanned item_view" and ?T3 = "view_reopened (view_scanned item_view)"
  have sc: "view_scannable item_view" "view_scannable ?T3"
    by (simp_all add: view_scannable_def view_scanned_def view_reopened_def item_view_simps)
  have T3: "tv_schema ?T3 = item_schema" "tv_rows ?T3 = [[value_int 7, value_string ''bob'']]"
    by (simp_all add: item_view_simps)
  note steps = session_create_step session_insert_step
    session_select_step [OF item_view_simps(1,2) sc(1)] session_select_step [OF T3 sc(2)]
  have e: "event_step (Statement session_create) (\<lambda>_. None) =
      Some (Some (answer_result (print_stmt session_create) (Done CREATE_Q)), [''t'' \<mapsto> view_new item_schema])"
    "event_step (Statement session_insert) [''t'' \<mapsto> view_new item_schema] =
      Some (Some (answer_result (print_stmt session_insert) (Done INSERT_Q)), [''t'' \<mapsto> item_view])"
    "event_step (Statement session_select) [''t'' \<mapsto> item_view] =
      Some (Some (answer_result (print_stmt session_select) session_answer), [''t'' \<mapsto> ?T2])"
    "event_step (Restart [''./t.json'', ''./t.db''] (CHR ''x'')) [''t'' \<mapsto> ?T2] = Some (None, [''t'' \<mapsto> ?T3])"
    "event_step (Statement session_select) [''t'' \<mapsto> ?T3] =
      Some (Some (answer_result (print_stmt session_select) session_answer), [''t'' \<mapsto> view_scanned ?T3])"
    using session_restart_step [of ?T2] by (simp_all add: session_ok steps item_view_simps del: answer_result.simps)
  note unfolded = session_events_def session_step.simps session_fuel.simps e option.case prod.case option.map
    session_results_def
  show ?step by (simp only: unfolded) blast
  have "stmt_fuel session_select [''t'' \<mapsto> item_view] = 6" "stmt_fuel session_select [''t'' \<mapsto> ?T3] = 6"
    "stmt_fuel session_create db = 2" "stmt_fuel session_insert db = 2" for db
    by (simp_all add: session_select_def session_create_def session_insert_def item_view_simps)
  then show "session_fuel session_events (\<lambda>_. None) \<le> 6" by (simp add: unfolded del: event_step.simps)
qed

section \<open>Sessions refine the specification\<close>

text \<open>C3: Whatever is done to the database in a session, statement by statement and with restarts of the program in between, the program answers what the specification answers and ends in a catalog that shows the database the specification ends in: tables are created and dropped, rows are appended page by page, queries return the matching rows, refused statements change no table (the query of an unknown column leaves its first page pinned), and a restart keeps every table. It holds from any catalog that shows a database, with the fuel of the largest query, as long as the session stays on specified ground: rows of their schema and pages that exist, scans of tables that have rows and a frame left, queries whose conditions can be compared, and schemas and listings that a restart can read.\<close>

theorem session_refines:
  assumes "db_shown db c" "session_step es db = Some (rs, db')" "session_fuel es db \<le> n"
  shows "\<exists>c'. run_session n es c = Inr (rs, c') \<and> db_shown db' c'"
  using session_shown [OF assms(1,2)] assms(3) by blast

theorem session_refines_witness:
  "\<exists>rs r c'. run_session 6 session_events (catalog_blank ''.'' (\<lambda>_. None)) = Inr (rs, c') \<and>
     length rs = 5 \<and> rs ! 2 = Some r \<and> rs ! 4 = Some r \<and> qr_rc r = SUCCESS \<and>
     (\<exists>t s. qr_tuples r = [t] \<and> qr_output_schema r = Some s \<and> value_at t s 0 = Inr (value_string ''bob''))"
proof -
  from session_runs(1) obtain db' where "session_step session_events (\<lambda>_. None) = Some (session_results, db')" by blast
  from session_refines [OF db_shown_blank this session_runs(2)] obtain c' where
    c: "run_session 6 session_events (catalog_blank ''.'' (\<lambda>_. None)) = Inr (session_results, c')" by blast
  let ?s = "\<lparr>columns = [\<lparr>col_type = VARCHAR_C, col_name = ''name'', col_size = 0\<rparr>]\<rparr>"
  have "row_ok [value_string ''bob''] ?s" by (simp add: row_ok_def cell_ok_def)
  from value_at_row [OF this, of 0 "tuple_new (row_bytes [value_string ''bob''] ?s)"]
  have "value_at (tuple_new (row_bytes [value_string ''bob''] ?s)) ?s 0 = Inr (value_string ''bob'')"
    by (simp add: tuple_new_def)
  with c show ?thesis
    by (intro exI [of _ session_results] exI [of _ "answer_result (print_stmt session_select) session_answer"] exI [of _ c'])
      (simp add: session_results_def session_answer_def)
qed

section \<open>The program\<close>

text \<open>C1: A run of the program on the files of a database and the lines of its input - statements, the command that lists the tables, other lines that start with a dot - that end in \<open>.quit\<close> ends, prints for each line what the specification answers, row by row (as lines and tables of texts; how a table is drawn is a matter of \<open>Screen\<close>), and leaves the files of the database the specification ends in, with nothing pinned: so that the next run starts from there. Nothing is assumed of the order in which the files are listed, nor of the character the reader of the metadata appends, nor of the lines behind \<open>.quit\<close>, nor of the line break behind the last one.\<close>

theorem program_refines:
  assumes "db_stored db fs" "distinct listing" "set listing = db_files db"
    and "db_run is db = Some (as, db')" "db_storable db'"
    and "run_fuel is db \<le> k" "length is + 2 \<le> n" "argc \<le> 1"
  shows "\<exists>fs'. shell_main k n argc ended (map input_text is @ ''.quit'' # later) listing junk fs = Inr (screen is as, fs') \<and>
    db_stored (db_reopened db') fs'"
  using main_runs [OF assms] by blast

lemma item_storable: "tv_schema T = item_schema \<Longrightarrow> db_storable [''t'' \<mapsto> T]"
  by (simp add: db_storable_def schema_storable_def item_schema_def item_columns_def column_of_def column_storable_def
      plain_text_def is_space_def)

text \<open>Two runs: the first creates a table and inserts a row, the second lists the tables and selects.\<close>

lemma first_run:
  "run_fuel [Typed session_create, Typed session_insert] (\<lambda>_. None) \<le> 6"
  "db_run [Typed session_create, Typed session_insert] (\<lambda>_. None) =
     Some ([Answer (Done CREATE_Q), Answer (Done INSERT_Q)], [''t'' \<mapsto> item_view])"
  by (simp add: session_ok session_create_step session_insert_step, simp add: session_create_def session_insert_def)
    (simp add: session_ok session_create_step session_insert_step)

lemma item_reopened: "db_reopened [''t'' \<mapsto> item_view] = [''t'' \<mapsto> item_view]"
proof -
  have "view_reopened item_view = item_view" using item_view_simps(4) by (cases item_view) (simp add: view_reopened_def)
  then show ?thesis by (auto simp: db_reopened_def)
qed

lemma second_run:
  "run_fuel [List_Tables, Typed session_select] [''t'' \<mapsto> item_view] \<le> 6"
  "db_run [List_Tables, Typed session_select] [''t'' \<mapsto> item_view] =
     Some ([Names [''t''], Answer session_answer], [''t'' \<mapsto> view_scanned item_view])"
proof -
  have "view_scannable item_view" by (simp add: view_scannable_def view_scanned_def item_view_simps)
  note sel = session_select_step [OF item_view_simps(1,2) this]
  show "run_fuel [List_Tables, Typed session_select] [''t'' \<mapsto> item_view] \<le> 6"
    by (simp add: session_ok sel) (simp add: session_select_def item_view_simps)
  show "db_run [List_Tables, Typed session_select] [''t'' \<mapsto> item_view] =
     Some ([Names [''t''], Answer session_answer], [''t'' \<mapsto> view_scanned item_view])"
    by (simp add: session_ok sel db_names_def)
qed

lemma second_screen:
  "screen [List_Tables, Typed session_select] [Names [''t''], Answer session_answer] =
     [Prompt ''TadisSQL>'', Grid [[''t'']], Prompt ''TadisSQL>'', Line ''Success'', Line ''count: 1'',
      Grid [[''name''], [''bob'']], Prompt ''TadisSQL>'']"
proof -
  have "value_text (value_string ''bob'') = ''bob''" "nat_digits 1 = ''1''" by code_simp+
  then show ?thesis by (simp add: session_answer_def)
qed

lemma item_files: "distinct [''./t.json'', ''./t.db''] \<and> set [''./t.json'', ''./t.db''] = db_files [''t'' \<mapsto> item_view]"
  by (auto simp: db_files_def meta_name_def db_name_def)

theorem program_refines_witness:
  "\<exists>out1 fs1 fs2.
     shell_main 6 4 0 True [print_stmt session_create, print_stmt session_insert, ''.quit''] [] (CHR ''x'') (\<lambda>_. None) =
       Inr (out1, fs1) \<and>
     shell_main 6 4 0 True [''.show tables'', print_stmt session_select, ''.quit''] [''./t.json'', ''./t.db''] (CHR ''y'') fs1 =
       Inr ([Prompt ''TadisSQL>'', Grid [[''t'']], Prompt ''TadisSQL>'', Line ''Success'', Line ''count: 1'',
             Grid [[''name''], [''bob'']], Prompt ''TadisSQL>''], fs2)"
proof -
  from program_refines [OF db_stored_none _ _ first_run(2) item_storable first_run(1), of "[]" 4 0 True "[]" "CHR ''x''"] obtain fs1 where
    m1: "shell_main 6 4 0 True [print_stmt session_create, print_stmt session_insert, ''.quit''] [] (CHR ''x'') (\<lambda>_. None) =
      Inr (screen [Typed session_create, Typed session_insert] [Answer (Done CREATE_Q), Answer (Done INSERT_Q)], fs1)"
    and s1: "db_stored (db_reopened [''t'' \<mapsto> item_view]) fs1"
    by (auto simp: db_files_def item_view_simps)
  from program_refines [OF s1 [unfolded item_reopened] conjunct1 [OF item_files] conjunct2 [OF item_files] second_run(2)
      item_storable second_run(1), of 4 0 True "[]" "CHR ''y''"] obtain fs2 where
    "shell_main 6 4 0 True [''.show tables'', print_stmt session_select, ''.quit''] [''./t.json'', ''./t.db''] (CHR ''y'') fs1 =
      Inr (screen [List_Tables, Typed session_select] [Names [''t''], Answer session_answer], fs2)"
    by (auto simp: item_view_simps)
  with m1 show ?thesis unfolding second_screen by blast
qed

end
