(* ===== verification/Expect.thy ===== *)
theory Expect
  imports Tadis_Base
begin

text \<open>
  \<open>Expect\<close> of \<open>src/common/expect.hpp\<close>: a value or an error, and a message. A default one holds the
  default value of \<open>T\<close>, which is a parameter, as is what moving from a value leaves of it.
\<close>

datatype ('t, 'e) inter = Holds_T 't | Holds_Error 'e

record ('t, 'e) expect =
  ex_inter :: "('t, 'e) inter"
  ex_msg :: string

definition expect_default :: "'t \<Rightarrow> ('t, 'e) expect" where
  "expect_default t0 = \<lparr>ex_inter = Holds_T t0, ex_msg = []\<rparr>"

definition expect_ok :: "('t, 'e) expect \<Rightarrow> bool" where
  "expect_ok x \<longleftrightarrow> (case ex_inter x of Holds_T _ \<Rightarrow> True | Holds_Error _ \<Rightarrow> False)"

definition expect_T :: "'t \<Rightarrow> ('t, 'e) expect" where
  "expect_T t = \<lparr>ex_inter = Holds_T t, ex_msg = []\<rparr>"

definition expect_error :: "'e \<Rightarrow> string \<Rightarrow> ('t, 'e) expect" where
  "expect_error e m = \<lparr>ex_inter = Holds_Error e, ex_msg = m\<rparr>"

text \<open>The copy and move operations leave the message alone: a copy has none, an assignment keeps the old one.\<close>

definition expect_copy :: "('t, 'e) expect \<Rightarrow> ('t, 'e) expect" where
  "expect_copy other = \<lparr>ex_inter = ex_inter other, ex_msg = []\<rparr>"

definition expect_assign :: "('t, 'e) expect \<Rightarrow> ('t, 'e) expect \<Rightarrow> ('t, 'e) expect" where
  "expect_assign self other = self\<lparr>ex_inter := ex_inter other\<rparr>"

definition expect_assign_T :: "('t, 'e) expect \<Rightarrow> 't \<Rightarrow> ('t, 'e) expect" where
  "expect_assign_T self t = self\<lparr>ex_inter := Holds_T t\<rparr>"

definition expect_assign_error :: "('t, 'e) expect \<Rightarrow> 'e \<Rightarrow> ('t, 'e) expect" where
  "expect_assign_error self e = self\<lparr>ex_inter := Holds_Error e\<rparr>"

definition take_error :: "('t, 'e) expect \<Rightarrow> 'e res" where
  "take_error x = (case ex_inter x of Holds_Error e \<Rightarrow> Inr e | Holds_T _ \<Rightarrow> Inl Assert_Failed)"

text \<open>(the value, the object it was moved out of).\<close>

definition take_T :: "('t \<Rightarrow> 't) \<Rightarrow> ('t, 'e) expect \<Rightarrow> ('t \<times> ('t, 'e) expect) res" where
  "take_T moved x =
     (case ex_inter x of
        Holds_T t \<Rightarrow> Inr (t, x\<lparr>ex_inter := Holds_T (moved t)\<rparr>)
      | Holds_Error _ \<Rightarrow> Inl Assert_Failed)"

lemma expect_copy_ok [simp]: "expect_ok (expect_copy x) = expect_ok x"
  by (simp add: expect_ok_def expect_copy_def)

end
