(* ===== verification/Special_Members.thy ===== *)
theory Special_Members
  imports Sql_Ast Json_Value Expect
begin

text \<open>
  Copies and moves: the special members that the classes of \<open>sql/parser/ast.hpp\<close>, \<open>json/json_value.hpp\<close>
  and \<open>common/expect.hpp\<close> write by hand. The rest of the development treats a copy and the target of a
  move as the value itself; here the members are translated as they stand, with what they leave behind,
  and shown to keep the interface that makes this right.
\<close>

section \<open>The interface\<close>

text \<open>
  What a copy or a move must hand over is the view of the object; a move gives the new object and what
  is left of the old one.
\<close>

locale special_members =
  fixes view :: "'a \<Rightarrow> 'b"
    and copy :: "'a \<Rightarrow> 'a"
    and copy_assign :: "'a \<Rightarrow> 'a \<Rightarrow> 'a"
    and move :: "'a \<Rightarrow> 'a \<times> 'a"
    and move_assign :: "'a \<Rightarrow> 'a \<Rightarrow> 'a \<times> 'a"
  assumes copy_view: "view (copy v) = view v"
    and copy_assign_view: "view (copy_assign self v) = view v"
    and move_view: "view (fst (move v)) = view v"
    and move_assign_view: "view (fst (move_assign self v)) = view v"
begin

lemma swapped:
  assumes "move a = (t, a1)" "move_assign a1 b = (a2, b1)" "move_assign b1 t = (b2, t1)"
  shows "view a2 = view b" "view b2 = view a"
  using move_view [of a] move_assign_view [of a1 b] move_assign_view [of b1 t] assms by simp_all

lemma grown: "map view (map copy xs @ [fst (move v)]) = map view xs @ [view v]"
  by (simp add: copy_view move_view)

end

text \<open>
  \<open>std::swap\<close>, and \<open>push_back\<close> of a vector, whose elements are copied to the new storage when it grows
  (a move constructor that may throw is not used for that).
\<close>

definition std_swap :: "('a \<Rightarrow> 'a \<times> 'a) \<Rightarrow> ('a \<Rightarrow> 'a \<Rightarrow> 'a \<times> 'a) \<Rightarrow> 'a \<Rightarrow> 'a \<Rightarrow> 'a \<times> 'a" where
  "std_swap move move_assign a b =
     (let (t, a) = move a; (a, b) = move_assign a b; (b, t) = move_assign b t in (a, b))"

definition push_back_moved :: "('a \<Rightarrow> 'a) \<Rightarrow> ('a \<Rightarrow> 'a \<times> 'a) \<Rightarrow> bool \<Rightarrow> 'a \<Rightarrow> 'a list \<Rightarrow> 'a list \<times> 'a" where
  "push_back_moved copy move grows v xs =
     (let (x, left) = move v in ((if grows then map copy xs else xs) @ [x], left))"

section \<open>SQL values\<close>

text \<open>What a move leaves in a \<open>std::any\<close> is a parameter.\<close>

definition value_copy :: "sql_value \<Rightarrow> sql_value" where
  "value_copy v = \<lparr>v_any = v_any v, v_type = v_type v\<rparr>"

definition value_copy_assign :: "sql_value \<Rightarrow> sql_value \<Rightarrow> sql_value" where
  "value_copy_assign self v = self\<lparr>v_any := v_any v, v_type := v_type v\<rparr>"

definition value_move :: "any \<Rightarrow> sql_value \<Rightarrow> sql_value \<times> sql_value" where
  "value_move left v = (\<lparr>v_any = v_any v, v_type = v_type v\<rparr>, v\<lparr>v_any := left, v_type := UNDEFINED_ATTR\<rparr>)"

definition value_move_assign :: "any \<Rightarrow> sql_value \<Rightarrow> sql_value \<Rightarrow> sql_value \<times> sql_value" where
  "value_move_assign left self v =
     (self\<lparr>v_any := v_any v, v_type := v_type v\<rparr>, v\<lparr>v_any := left, v_type := UNDEFINED_ATTR\<rparr>)"

interpretation sql_value: special_members "\<lambda>v. v" value_copy value_copy_assign "value_move left" "value_move_assign left"
  for left
  by unfold_locales (simp_all add: value_copy_def value_copy_assign_def value_move_def value_move_assign_def)

text \<open>A value that was moved from has no text, and nothing compares with it.\<close>

lemma moved_value_unusable:
  "value_to_string (snd (value_move left v)) = Inr []"
  "value_compare (snd (value_move left v)) w = Inl Assert_Failed"
  by (simp_all add: value_move_def value_to_string_def value_compare_def)

text \<open>\<open>init\<close>: the template of two arguments, the ones for a type, and the rest, which assert.\<close>

definition value_init :: "any \<Rightarrow> attr_type \<Rightarrow> sql_value \<Rightarrow> sql_value" where
  "value_init a t self = self\<lparr>v_any := a, v_type := t\<rparr>"

datatype init_arg =
    Of_Int int
  | Of_Float "32 word"
  | Of_Chars string
  | Of_String string
  | Of_View string
  | Of_Rel rel_attr
  | Of_Other

fun value_init_arg :: "init_arg \<Rightarrow> sql_value \<Rightarrow> sql_value res" where
  "value_init_arg (Of_Int n) self = Inr (value_init (Any_Long n) INTS self)"
| "value_init_arg (Of_Float f) self = Inr (value_init (Any_Float f) FLOATS self)"
| "value_init_arg (Of_Chars s) self = Inr (value_init (Any_String s) STRING self)"
| "value_init_arg (Of_String s) self = Inr (value_init (Any_String s) STRING self)"
| "value_init_arg (Of_View s) self = Inr (value_init (Any_String s) STRING self)"
| "value_init_arg (Of_Rel r) self = Inr (value_init (Any_Rel r) REL_ATTR self)"
| "value_init_arg Of_Other self = Inl Assert_Failed"

lemma value_init_arg_ok:
  assumes "value_init_arg a self = Inr v"
  shows "(case a of Of_Int n \<Rightarrow> long_range n | _ \<Rightarrow> True) \<Longrightarrow> value_ok v"
  using assms by (cases a) (auto simp: value_init_def value_ok_def)

definition value_assign_arg :: "init_arg \<Rightarrow> sql_value \<Rightarrow> sql_value res" where
  "value_assign_arg a self = value_init_arg a self"

text \<open>\<open>init_values\<close>; \<open>grows\<close> tells at which length the vector moves to new storage.\<close>

definition init_values_step :: "any \<Rightarrow> (nat \<Rightarrow> bool) \<Rightarrow> init_arg \<Rightarrow> sql_value list \<Rightarrow> sql_value list res" where
  "init_values_step left grows a vals =
     andthen (value_init_arg a value_default) (\<lambda>v.
     Inr (fst (push_back_moved value_copy (value_move left) (grows (length vals)) v vals)))"

definition init_values :: "any \<Rightarrow> (nat \<Rightarrow> bool) \<Rightarrow> init_arg list \<Rightarrow> sql_value list res" where
  "init_values left grows args = each (init_values_step left grows) args []"

lemma push_back_value: "fst (push_back_moved value_copy (value_move left) g v vals) = vals @ [v]"
  using sql_value.grown [of vals left v] by (auto simp: push_back_moved_def split: prod.split)

lemma init_values_are:
  "list_all (\<lambda>a. a \<noteq> Of_Other) args \<Longrightarrow>
   \<exists>vs. init_values left grows args = Inr vs \<and> list_all2 (\<lambda>a v. value_init_arg a value_default = Inr v) args vs"
proof -
  have "\<exists>vs. each (init_values_step left grows) args acc = Inr (acc @ vs) \<and>
      list_all2 (\<lambda>a v. value_init_arg a value_default = Inr v) args vs" if "list_all (\<lambda>a. a \<noteq> Of_Other) args" for acc
    using that
  proof (induction args arbitrary: acc)
    case (Cons a args)
    then obtain v where v: "value_init_arg a value_default = Inr v" by (cases a) auto
    from Cons obtain vs where
      "each (init_values_step left grows) args (acc @ [v]) = Inr ((acc @ [v]) @ vs)"
      "list_all2 (\<lambda>a v. value_init_arg a value_default = Inr v) args vs" by fastforce
    moreover have "init_values_step left grows a acc = Inr (acc @ [v])"
      by (simp add: init_values_step_def push_back_value v)
    ultimately show ?case using v by (intro exI [of _ "v # vs"]) simp
  qed simp
  then show "list_all (\<lambda>a. a \<noteq> Of_Other) args \<Longrightarrow> ?thesis" by (fastforce simp: init_values_def)
qed

section \<open>Conditions and column attributes\<close>

definition condition_copy :: "condition \<Rightarrow> condition" where
  "condition_copy c = \<lparr>c_left = value_copy (c_left c), c_right = value_copy (c_right c), c_op = c_op c\<rparr>"

definition condition_copy_assign :: "condition \<Rightarrow> condition \<Rightarrow> condition" where
  "condition_copy_assign self c =
     self\<lparr>c_left := value_copy_assign (c_left self) (c_left c), c_right := value_copy_assign (c_right self) (c_right c),
          c_op := c_op c\<rparr>"

definition condition_move :: "any \<Rightarrow> condition \<Rightarrow> condition \<times> condition" where
  "condition_move left c =
     (let (l, l') = value_move left (c_left c); (r, r') = value_move left (c_right c) in
      (\<lparr>c_left = l, c_right = r, c_op = c_op c\<rparr>, c\<lparr>c_left := l', c_right := r', c_op := UNDEFINED_OP\<rparr>))"

definition condition_move_assign :: "any \<Rightarrow> condition \<Rightarrow> condition \<Rightarrow> condition \<times> condition" where
  "condition_move_assign left self c =
     (let (l, l') = value_move_assign left (c_left self) (c_left c);
          (r, r') = value_move_assign left (c_right self) (c_right c) in
      (self\<lparr>c_left := l, c_right := r, c_op := c_op c\<rparr>, c\<lparr>c_left := l', c_right := r', c_op := UNDEFINED_OP\<rparr>))"

interpretation condition: special_members "\<lambda>c. c" condition_copy condition_copy_assign "condition_move left" "condition_move_assign left"
  for left
  by unfold_locales
    (simp_all add: condition_copy_def condition_copy_assign_def condition_move_def condition_move_assign_def
      value_copy_def value_copy_assign_def value_move_def value_move_assign_def)

text \<open>The moves of \<open>ColAttr\<close>; \<open>left\<close> is what a move leaves of a string.\<close>

definition col_attr_copy :: "col_attr \<Rightarrow> col_attr" where
  "col_attr_copy other = \<lparr>ca_name = ca_name other, ca_type = ca_type other, ca_size = ca_size other\<rparr>"

definition col_attr_copy_assign :: "col_attr \<Rightarrow> col_attr \<Rightarrow> col_attr" where
  "col_attr_copy_assign self other =
     self\<lparr>ca_name := ca_name other, ca_type := ca_type other, ca_size := ca_size other\<rparr>"

definition col_attr_move :: "(string \<Rightarrow> string) \<Rightarrow> col_attr \<Rightarrow> col_attr \<times> col_attr" where
  "col_attr_move left other =
     (\<lparr>ca_name = ca_name other, ca_type = ca_type other, ca_size = ca_size other\<rparr>,
      other\<lparr>ca_name := left (ca_name other), ca_size := 0\<rparr>)"

definition col_attr_move_assign :: "(string \<Rightarrow> string) \<Rightarrow> col_attr \<Rightarrow> col_attr \<Rightarrow> col_attr \<times> col_attr" where
  "col_attr_move_assign left self other =
     (self\<lparr>ca_name := ca_name other, ca_type := ca_type other, ca_size := ca_size other\<rparr>,
      other\<lparr>ca_name := left (ca_name other), ca_type := left (ca_type other), ca_size := 0\<rparr>)"

interpretation col_attr: special_members "\<lambda>c. c" col_attr_copy col_attr_copy_assign "col_attr_move left" "col_attr_move_assign left"
  for left
  by unfold_locales
    (simp_all add: col_attr_copy_def col_attr_copy_assign_def col_attr_move_def col_attr_move_assign_def)

section \<open>Statements\<close>

text \<open>\<open>stmt<T>\<close>: the alternative of the variant, or an exception.\<close>

definition stmt_select :: "query_stmt \<Rightarrow> select_stmt res" where
  "stmt_select q = (case q of Select s \<Rightarrow> Inr s | _ \<Rightarrow> Inl Uncaught_Exception)"

definition stmt_insert :: "query_stmt \<Rightarrow> insert_stmt res" where
  "stmt_insert q = (case q of Insert s \<Rightarrow> Inr s | _ \<Rightarrow> Inl Uncaught_Exception)"

definition stmt_create_table :: "query_stmt \<Rightarrow> create_table_stmt res" where
  "stmt_create_table q = (case q of Create_Table s \<Rightarrow> Inr s | _ \<Rightarrow> Inl Uncaught_Exception)"

definition stmt_drop :: "query_stmt \<Rightarrow> drop_stmt res" where
  "stmt_drop q = (case q of Drop s \<Rightarrow> Inr s | _ \<Rightarrow> Inl Uncaught_Exception)"

text \<open>The binder asks for the alternative that the type of the statement names, so that it never fails.\<close>

lemma stmt_of_type:
  "sql_stmt_type q = SELECT_Q \<Longrightarrow> \<exists>s. stmt_select q = Inr s" "sql_stmt_type q = INSERT_Q \<Longrightarrow> \<exists>s. stmt_insert q = Inr s"
  "sql_stmt_type q = CREATE_Q \<Longrightarrow> \<exists>s. stmt_create_table q = Inr s" "sql_stmt_type q = DROP_Q \<Longrightarrow> \<exists>s. stmt_drop q = Inr s"
  by (cases q; simp add: sql_stmt_type_def is_select_def is_insert_def is_delete_def is_create_table_def is_drop_def
      stmt_select_def stmt_insert_def stmt_create_table_def stmt_drop_def)+

section \<open>JSON values\<close>

text \<open>The constructors.\<close>

definition json_default :: json where
  "json_default = JNull"

definition json_of_bool :: "bool \<Rightarrow> json" where
  "json_of_bool b = JBool b"

definition json_of_number :: "64 word \<Rightarrow> json" where
  "json_of_number n = JNumber n"

definition json_of_int32 :: "int \<Rightarrow> json" where
  "json_of_int32 n = JNumber (double_of_int n)"

definition json_of_uint32 :: "nat \<Rightarrow> json" where
  "json_of_uint32 n = JNumber (double_of_nat n)"

definition json_of_chars :: "string \<Rightarrow> json" where
  "json_of_chars s = JString s"

definition json_of_string :: "string \<Rightarrow> json" where
  "json_of_string s = JString s"

definition json_of_type :: "json_type \<Rightarrow> json" where
  "json_of_type t = init_base t"

text \<open>
  Copying: an array copies its elements, an object its members, and each of them is built by the copy
  constructor, which starts as null and takes the branch of \<open>copy_value\<close> for another type.
\<close>

fun json_copy :: "json \<Rightarrow> json" where
  "json_copy JNull = JNull"
| "json_copy (JBool b) = JBool b"
| "json_copy (JNumber n) = JNumber n"
| "json_copy (JString s) = JString s"
| "json_copy (JArray a) = JArray (map json_copy a)"
| "json_copy (JObject m) = JObject (map (\<lambda>(k, v). (k, json_copy v)) m)"

lemma json_copy_is: "json_copy v = v"
proof (induction v)
  case (JArray a)
  then show ?case by (simp add: map_idI)
next
  case (JObject m)
  then show ?case by (force intro: map_idI)
qed simp_all

lemma json_copy_value: "json_copy v = copy_value JNull v"
  by (simp add: json_copy_is copy_value_is)

definition json_copy_assign :: "json \<Rightarrow> json \<Rightarrow> json" where
  "json_copy_assign self v = copy_value self v"

definition json_move :: "json \<Rightarrow> json \<times> json" where
  "json_move other = json_swap (init_base JSON_NULL) other"

interpretation json: special_members "\<lambda>v. v" json_copy json_copy_assign json_move json_move_assign
  by unfold_locales
    (simp_all add: json_copy_is json_copy_assign_def copy_value_is json_move_def json_move_assign_def json_swap_def)

definition array_copy :: "json_array \<Rightarrow> json_array" where
  "array_copy a = map json_copy a"

definition array_copy_assign :: "json_array \<Rightarrow> json_array \<Rightarrow> json_array" where
  "array_copy_assign self a = map json_copy a"

definition array_move :: "json_array \<Rightarrow> json_array \<times> json_array" where
  "array_move a = (a, [])"

definition array_move_assign :: "json_array \<Rightarrow> json_array \<Rightarrow> json_array \<times> json_array" where
  "array_move_assign self a = (a, [])"

interpretation json_array: special_members "\<lambda>a. a" array_copy array_copy_assign array_move array_move_assign
  by unfold_locales
    (simp_all add: array_copy_def array_copy_assign_def array_move_def array_move_assign_def json_copy_is map_idI)

definition json_of_array :: "json_array \<Rightarrow> json" where
  "json_of_array a = JArray (array_copy a)"

text \<open>What a move leaves of a map is a parameter; the standard leaves it open.\<close>

definition object_copy :: "json_object \<Rightarrow> json_object" where
  "object_copy m = map (\<lambda>(k, v). (k, json_copy v)) m"

definition object_copy_assign :: "json_object \<Rightarrow> json_object \<Rightarrow> json_object" where
  "object_copy_assign self m = map (\<lambda>(k, v). (k, json_copy v)) m"

definition object_move :: "json_object \<Rightarrow> json_object \<Rightarrow> json_object \<times> json_object" where
  "object_move left m = (m, left)"

definition object_move_assign :: "json_object \<Rightarrow> json_object \<Rightarrow> json_object \<Rightarrow> json_object \<times> json_object" where
  "object_move_assign left self m = (m, left)"

interpretation json_object: special_members "\<lambda>m. m" object_copy object_copy_assign "object_move left" "object_move_assign left"
  for left
  by unfold_locales
    (simp_all add: object_copy_def object_copy_assign_def object_move_def object_move_assign_def json_copy_is map_idI)

definition json_of_object :: "json_object \<Rightarrow> json" where
  "json_of_object m = JObject (object_copy m)"

text \<open>The templates by type, for the tag of the type; \<open>as<Null>\<close> gives the only null there is.\<close>

definition json_reset_type :: "json_type \<Rightarrow> json \<Rightarrow> json" where
  "json_reset_type t v = json_reset_as t v"

definition as_value :: "json \<Rightarrow> json" where
  "as_value v = v"

definition as_null :: "json \<Rightarrow> unit res" where
  "as_null v = (case v of JNull \<Rightarrow> Inr () | _ \<Rightarrow> Inl Wrong_Member)"

lemma json_reset_type_is: "json_is t (json_reset_type t v)" "json_type_of (json_reset_type t v) = t"
  by (simp_all add: json_reset_type_def json_reset_as_def json_is_def judge_type_def)

text \<open>\<open>Object::insert\<close> of anything a value can be made of, and the accessors that are left.\<close>

definition object_insert_as :: "('t \<Rightarrow> json) \<Rightarrow> string \<Rightarrow> 't \<Rightarrow> json_object \<Rightarrow> json_object" where
  "object_insert_as conv name t m = object_insert name (conv t) m"

definition object_subscript :: "string \<Rightarrow> json_object \<Rightarrow> json res" where
  "object_subscript name m = map_at name m"

definition array_subscript :: "int \<Rightarrow> json_array \<Rightarrow> json res" where
  "array_subscript p a = (if 0 \<le> p \<and> nat p < length a then Inr (a ! nat p) else Inl Out_Of_Bounds)"

definition json_subscript :: "int \<Rightarrow> json \<Rightarrow> json res" where
  "json_subscript i v = andthen (as_array v) (array_at i)"

definition json_member :: "string \<Rightarrow> json \<Rightarrow> json res" where
  "json_member name v = andthen (as_object v) (object_at name)"

lemma subscripts_are:
  "object_subscript = object_at" "array_subscript = array_at" "json_subscript = json_at_index" "json_member = json_at"
  by (simp_all add: fun_eq_iff object_subscript_def object_at_def array_subscript_def array_at_def json_subscript_def
      json_at_index_def json_member_def json_at_def)

lemma object_insert_find:
  "map_sorted m \<Longrightarrow> object_subscript name (object_insert_as conv name t m) =
     (case map_find name m of None \<Rightarrow> Inr (conv t) | Some v \<Rightarrow> Inr v)"
  by (auto simp: object_subscript_def object_insert_as_def object_insert_def map_at_def map_find_emplace split: option.split)

section \<open>Expected values\<close>

text \<open>A move leaves the alternative with what moving leaves of its content; the message is not touched.\<close>

fun inter_moved :: "('t \<Rightarrow> 't) \<Rightarrow> ('e \<Rightarrow> 'e) \<Rightarrow> ('t, 'e) inter \<Rightarrow> ('t, 'e) inter" where
  "inter_moved mt me (Holds_T t) = Holds_T (mt t)"
| "inter_moved mt me (Holds_Error e) = Holds_Error (me e)"

definition expect_move :: "('t \<Rightarrow> 't) \<Rightarrow> ('e \<Rightarrow> 'e) \<Rightarrow> ('t, 'e) expect \<Rightarrow> ('t, 'e) expect \<times> ('t, 'e) expect" where
  "expect_move mt me other =
     (\<lparr>ex_inter = ex_inter other, ex_msg = []\<rparr>, other\<lparr>ex_inter := inter_moved mt me (ex_inter other)\<rparr>)"

definition expect_move_assign ::
  "('t \<Rightarrow> 't) \<Rightarrow> ('e \<Rightarrow> 'e) \<Rightarrow> ('t, 'e) expect \<Rightarrow> ('t, 'e) expect \<Rightarrow> ('t, 'e) expect \<times> ('t, 'e) expect" where
  "expect_move_assign mt me self other =
     (self\<lparr>ex_inter := ex_inter other\<rparr>, other\<lparr>ex_inter := inter_moved mt me (ex_inter other)\<rparr>)"

definition expect_msg :: "('t, 'e) expect \<Rightarrow> string" where
  "expect_msg x = ex_msg x"

text \<open>Only the value or the error is handed over: the message is not part of the view.\<close>

interpretation expect: special_members ex_inter expect_copy expect_assign "expect_move mt me" "expect_move_assign mt me"
  for mt me
  by unfold_locales (simp_all add: expect_copy_def expect_assign_def expect_move_def expect_move_assign_def)

lemma expect_loses_message:
  "expect_msg (expect_copy (expect_error e m)) = []" "expect_msg (fst (expect_move mt me (expect_error e m))) = []"
  "expect_msg (expect_assign self x) = expect_msg self"
  by (simp_all add: expect_msg_def expect_copy_def expect_move_def expect_error_def expect_assign_def)

end
