(* ===== verification/Reporting.thy ===== *)
theory Reporting
  imports Disk_Manager Float32
begin

text \<open>
  What the program writes for its developers: the log records of \<open>src/common/logger.hpp\<close>, the text of a
  record id of \<open>src/storage/storage_def.hpp\<close>, and the test suites of \<open>unit_test/pure.hpp\<close>. The standard
  output and the standard error are lists of lines.
\<close>

section \<open>Log records\<close>

text \<open>\<open>opened\<close> is the compile-time switch; a closed record has no text at all.\<close>

record log_record =
  lr_opened :: bool
  lr_text :: string

definition log_new :: "bool \<Rightarrow> string \<Rightarrow> log_record" where
  "log_new opened level = \<lparr>lr_opened = opened, lr_text = (if opened then ''['' @ level @ '']'' else [])\<rparr>"

definition log_put :: "string \<Rightarrow> log_record \<Rightarrow> log_record" where
  "log_put s r = (if lr_opened r then r\<lparr>lr_text := lr_text r @ s\<rparr> else r)"

definition log_destroy :: "log_record \<Rightarrow> string list \<Rightarrow> string list" where
  "log_destroy r out = (if lr_opened r then out @ [lr_text r] else out)"

text \<open>\<open>LOG(level) << \<dots>\<close>, to the end of the full expression.\<close>

definition log_at :: "bool \<Rightarrow> string \<Rightarrow> string \<Rightarrow> nat \<Rightarrow> log_record" where
  "log_at opened level file line =
     log_put '']'' (log_put (nat_digits line) (log_put '':'' (log_put file (log_put ''['' (log_new opened level)))))"

definition log_line :: "bool \<Rightarrow> string \<Rightarrow> string \<Rightarrow> nat \<Rightarrow> string list \<Rightarrow> string list \<Rightarrow> string list" where
  "log_line opened level file line texts out = log_destroy (fold log_put texts (log_at opened level file line)) out"

lemma log_closed_silent: "log_line False level file line texts out = out"
proof -
  have "lr_opened (fold log_put texts r) = lr_opened r" for r
    by (induction texts arbitrary: r) (simp_all add: log_put_def)
  then show ?thesis by (simp add: log_line_def log_at_def log_destroy_def log_put_def log_new_def)
qed

lemma log_opened_line:
  "log_line True level file line texts out =
     out @ [''['' @ level @ ''][''  @ file @ '':'' @ nat_digits line @ '']'' @ concat texts]"
proof -
  have "lr_opened r \<Longrightarrow> lr_text (fold log_put texts r) = lr_text r @ concat texts \<and> lr_opened (fold log_put texts r)" for r
    by (induction texts arbitrary: r) (simp_all add: log_put_def)
  from this [of "log_at True level file line"] show ?thesis
    by (simp add: log_line_def log_at_def log_destroy_def log_put_def log_new_def)
qed

section \<open>The text of a record id\<close>

text \<open>The text goes to a stream that was made of a copy of the result: the result stays empty.\<close>

definition rid_to_string :: "rid \<Rightarrow> string" where
  "rid_to_string r =
     (let res = []; ss = ''PageId : '' @ nat_digits (unat (page_id r)) @ '' SlotId: '' @ nat_digits (unat (slot_id r)) in res)"

lemma rid_to_string_empty: "rid_to_string r = []"
  by (simp add: rid_to_string_def)

section \<open>Checks of a test\<close>

record test_state =
  pass_count :: size_t
  fail_count :: size_t
  ts_out :: "string list"
  ts_err :: "string list"

definition test_start :: test_state where
  "test_start = \<lparr>pass_count = 0, fail_count = 0, ts_out = [], ts_err = []\<rparr>"

definition say :: "string \<Rightarrow> test_state \<Rightarrow> test_state" where
  "say line st = st\<lparr>ts_out := ts_out st @ [line]\<rparr>"

text \<open>A reporter counts; its destructor prints what was put into it when the condition is false.\<close>

record reporter =
  rp_text :: string
  rp_cnd :: bool

definition reporter_new :: "bool \<Rightarrow> reporter" where
  "reporter_new cnd = \<lparr>rp_text = [], rp_cnd = cnd\<rparr>"

definition reporter_put :: "string \<Rightarrow> reporter \<Rightarrow> reporter" where
  "reporter_put s r = (if \<not> rp_cnd r then r\<lparr>rp_text := rp_text r @ s\<rparr> else r)"

definition colour_code :: "nat \<Rightarrow> string" where
  "colour_code n = CHR 0x1B # ''['' @ nat_digits n @ ''m''"

definition reporter_destroy :: "reporter \<Rightarrow> test_state \<Rightarrow> test_state" where
  "reporter_destroy r st =
     (if rp_cnd r then st\<lparr>pass_count := pass_count st + 1\<rparr>
      else (say (colour_code 31 @ ''[FAIL]'' @ rp_text r @ '']'' @ colour_code 0) st)\<lparr>fail_count := fail_count st + 1\<rparr>)"

definition print_summary :: "test_state \<Rightarrow> test_state" where
  "print_summary st =
     say (''Summary: '' @ nat_digits (unat (pass_count st)) @ '' passed, '' @ nat_digits (unat (fail_count st)) @ '' failed.'') st"

text \<open>An assertion ends the program.\<close>

record assertion =
  as_text :: string
  as_cnd :: bool

definition assertion_new :: "bool \<Rightarrow> assertion" where
  "assertion_new cnd = \<lparr>as_text = [], as_cnd = cnd\<rparr>"

definition assertion_put :: "string \<Rightarrow> assertion \<Rightarrow> assertion" where
  "assertion_put s a = (if \<not> as_cnd a then a\<lparr>as_text := as_text a @ s\<rparr> else a)"

definition assertion_destroy :: "assertion \<Rightarrow> test_state \<Rightarrow> test_state res" where
  "assertion_destroy a st =
     (if \<not> as_cnd a then let st = st\<lparr>ts_err := ts_err st @ [''[assert fail]'' @ as_text a @ '']'']\<rparr> in Inl Assert_Failed
      else Inr st)"

text \<open>The macros, for a comparison \<open>cmp\<close> of two values that are written as \<open>shown\<close> says.\<close>

definition place :: "string \<Rightarrow> nat \<Rightarrow> string list" where
  "place file line = ['' ['', file, '':'', nat_digits line, ''] [message: '']"

definition report_place :: "string \<Rightarrow> nat \<Rightarrow> string \<Rightarrow> string list" where
  "report_place file line func = ['' ['', file, '':'', nat_digits line, '' ['', func, '']'', ''[message: '']"

definition expected :: "('a \<Rightarrow> string) \<Rightarrow> 'a \<Rightarrow> 'a \<Rightarrow> string list" where
  "expected shown a b = [''Expected: '', shown a, '', actual: '', shown b]"

definition pure_test :: "('a \<Rightarrow> 'a \<Rightarrow> bool) \<Rightarrow> ('a \<Rightarrow> string) \<Rightarrow> string \<Rightarrow> nat \<Rightarrow> 'a \<Rightarrow> 'a \<Rightarrow> test_state \<Rightarrow> test_state res" where
  "pure_test cmp shown file line a b st =
     assertion_destroy (fold assertion_put (place file line @ expected shown a b) (assertion_new (cmp a b))) st"

definition pure_test_report ::
  "('a \<Rightarrow> 'a \<Rightarrow> bool) \<Rightarrow> ('a \<Rightarrow> string) \<Rightarrow> string \<Rightarrow> nat \<Rightarrow> string \<Rightarrow> 'a \<Rightarrow> 'a \<Rightarrow> test_state \<Rightarrow> test_state" where
  "pure_test_report cmp shown file line func a b st =
     reporter_destroy (fold reporter_put (report_place file line func @ expected shown a b) (reporter_new (cmp a b))) st"

text \<open>The macros of one truth value: \<open>want\<close> is the value that passes.\<close>

definition truth_text :: "bool \<Rightarrow> string list" where
  "truth_text want = [if want then ''Expected: true, actual: false'' else ''Expected: false, actual: true'']"

definition pure_test_truth :: "bool \<Rightarrow> string \<Rightarrow> nat \<Rightarrow> bool \<Rightarrow> test_state \<Rightarrow> test_state res" where
  "pure_test_truth want file line a st =
     assertion_destroy (fold assertion_put (place file line @ truth_text want) (assertion_new (a = want))) st"

definition pure_test_truth_report :: "bool \<Rightarrow> string \<Rightarrow> nat \<Rightarrow> string \<Rightarrow> bool \<Rightarrow> test_state \<Rightarrow> test_state" where
  "pure_test_truth_report want file line func a st =
     reporter_destroy (fold reporter_put (report_place file line func @ truth_text want) (reporter_new (a = want))) st"

lemma assertion_put_cnd: "as_cnd (fold assertion_put ts a) = as_cnd a"
  by (induction ts arbitrary: a) (simp_all add: assertion_put_def)

lemma reporter_put_cnd: "rp_cnd (fold reporter_put ts r) = rp_cnd r"
  by (induction ts arbitrary: r) (simp_all add: reporter_put_def)

lemma pure_test_passes: "pure_test cmp shown file line a b st = (if cmp a b then Inr st else Inl Assert_Failed)"
  by (simp add: pure_test_def assertion_destroy_def assertion_put_cnd assertion_new_def Let_def)

lemma pure_test_report_counts:
  "fail_count (pure_test_report cmp shown file line func a b st) = fail_count st + (if cmp a b then 0 else 1)"
  "pass_count (pure_test_report cmp shown file line func a b st) = pass_count st + (if cmp a b then 1 else 0)"
  by (simp_all add: pure_test_report_def reporter_destroy_def reporter_put_cnd reporter_new_def say_def)

lemma pure_test_truth_passes: "pure_test_truth want file line a st = (if a = want then Inr st else Inl Assert_Failed)"
  by (simp add: pure_test_truth_def assertion_destroy_def assertion_put_cnd assertion_new_def Let_def)

text \<open>A failed report is one line of the output, with the place and the two values.\<close>

lemma reporter_text: "\<not> rp_cnd r \<Longrightarrow> rp_text (fold reporter_put ts r) = rp_text r @ concat ts"
  by (induction ts arbitrary: r) (simp_all add: reporter_put_def)

lemma reporter_line:
  "ts_out (reporter_destroy (fold reporter_put ts (reporter_new False)) st) =
     ts_out st @ [colour_code 31 @ ''[FAIL]'' @ concat ts @ '']'' @ colour_code 0]"
  by (simp add: reporter_destroy_def reporter_put_cnd reporter_new_def say_def reporter_text)

lemma pure_test_report_line:
  assumes "\<not> cmp a b"
  shows "ts_out (pure_test_report cmp shown file line func a b st) = ts_out st @
     [colour_code 31 @ ''[FAIL] ['' @ file @ '':'' @ nat_digits line @ '' ['' @ func @ ''][message: Expected: '' @ shown a @
      '', actual: '' @ shown b @ '']'' @ colour_code 0]"
  using reporter_line [of "report_place file line func @ expected shown a b" st] assms
  by (simp add: pure_test_report_def report_place_def expected_def del: fold_append fold_simps)

section \<open>Test suites\<close>

record test_case =
  tc_name :: string
  tc_func :: "test_state \<Rightarrow> test_state res"

definition add_test_case :: "string \<Rightarrow> (test_state \<Rightarrow> test_state res) \<Rightarrow> test_case list \<Rightarrow> test_case list" where
  "add_test_case name f cases = cases @ [\<lparr>tc_name = name, tc_func = f\<rparr>]"

text \<open>What the timer says about a test is a parameter.\<close>

definition run_test_case :: "(string \<Rightarrow> string) \<Rightarrow> test_case \<Rightarrow> test_state \<Rightarrow> test_state res" where
  "run_test_case elapsed tc st =
     (let st = say (''Running test case: '' @ tc_name tc @ ''...'') st; fail = fail_count st in
      andthen (tc_func tc st) (\<lambda>st.
      Inr (if fail = fail_count st
           then say (''Time cost: '' @ elapsed (tc_name tc) @ ''s'') (say (colour_code 32 @ ''[PASS] '' @ colour_code 0) st)
           else st)))"

definition suite_run :: "(string \<Rightarrow> string) \<Rightarrow> test_case list \<Rightarrow> test_state \<Rightarrow> test_state res" where
  "suite_run elapsed cases st =
     andthen (each (run_test_case elapsed) cases (say (''Running '' @ nat_digits (length cases) @ '' test cases...'') st)) (\<lambda>st.
     Inr (if fail_count st = 0 then say ''All test cases passed!'' st else print_summary st))"

text \<open>A suite whose tests all come back and report no failure says so at the end.\<close>

lemma suite_passes:
  assumes "\<And>tc st. tc \<in> set cases \<Longrightarrow> \<exists>st'. tc_func tc st = Inr st' \<and> fail_count st' = fail_count st"
    and "fail_count st = 0"
  shows "\<exists>st'. suite_run elapsed cases st = Inr st' \<and> fail_count st' = 0 \<and> last (ts_out st') = ''All test cases passed!''"
proof -
  have "\<exists>st'. each (run_test_case elapsed) cs st = Inr st' \<and> fail_count st' = fail_count st" if "set cs \<subseteq> set cases" for cs st
    using that
  proof (induction cs arbitrary: st)
    case (Cons tc cs)
    from assms(1) [of tc "say (''Running test case: '' @ tc_name tc @ ''...'') st"] Cons.prems obtain st1 where
      "tc_func tc (say (''Running test case: '' @ tc_name tc @ ''...'') st) = Inr st1" "fail_count st1 = fail_count st"
      by (auto simp: say_def)
    then have "\<exists>st2. run_test_case elapsed tc st = Inr st2 \<and> fail_count st2 = fail_count st"
      by (simp add: run_test_case_def say_def Let_def)
    with Cons show ?case by fastforce
  qed simp
  from this [of cases "say (''Running '' @ nat_digits (length cases) @ '' test cases...'') st"] assms(2) show ?thesis
    by (auto simp: suite_run_def say_def)
qed

text \<open>
  The verdict looks at the number of failures since the program started, which is a word: a suite that
  reports nothing fails after another one that failed, and one passes after \<open>2 ^ 64\<close> failures.
\<close>

lemma suite_blamed:
  assumes "fail_count st \<noteq> 0"
  shows "\<exists>st'. suite_run elapsed [] st = Inr st' \<and> last (ts_out st') \<noteq> ''All test cases passed!''"
  using assms by (simp add: suite_run_def print_summary_def say_def)

end
