(* ===== verification/Terminal.thy ===== *)
theory Terminal
  imports Tadis_Base
begin

text \<open>
  The terminal as \<open>src/bin/tabulate.h\<close> writes to it: the colours, alignments and styles of \<open>tabulate\<close>,
  and the escape sequences of its part \<open>termcolor\<close>, for Linux. A stream is the text that was written to
  it; what \<open>isatty\<close> says of the standard stream behind it is a field.
\<close>

datatype color = No_Color | Grey | Red | Green | Yellow | Blue | Magenta | Cyan | White

datatype font_align = Align_Left | Align_Right | Align_Center

datatype font_style = Bold | Dark | Italic | Underline | Blink | Reverse | Concealed | Crossed

section \<open>The order of the styles\<close>

fun font_style_rank :: "font_style \<Rightarrow> nat" where
  "font_style_rank Bold = 0"
| "font_style_rank Dark = 1"
| "font_style_rank Italic = 2"
| "font_style_rank Underline = 3"
| "font_style_rank Blink = 4"
| "font_style_rank Reverse = 5"
| "font_style_rank Concealed = 6"
| "font_style_rank Crossed = 7"

lemma font_style_rank_eq: "font_style_rank s = font_style_rank t \<longleftrightarrow> s = t"
  by (cases s; cases t) simp_all

instantiation font_style :: linorder
begin

definition less_eq_font_style :: "font_style \<Rightarrow> font_style \<Rightarrow> bool" where
  "s \<le> t \<longleftrightarrow> font_style_rank s \<le> font_style_rank t"

definition less_font_style :: "font_style \<Rightarrow> font_style \<Rightarrow> bool" where
  "s < t \<longleftrightarrow> font_style_rank s < font_style_rank t"

instance
  by standard (auto simp: less_eq_font_style_def less_font_style_def font_style_rank_eq [symmetric])

end

text \<open>A value-initialised style is the first of the enumeration.\<close>

definition font_style_zero :: font_style where
  "font_style_zero = Bold"

lemma font_style_zero_least: "font_style_zero \<le> s"
  by (simp add: font_style_zero_def less_eq_font_style_def)

section \<open>Streams\<close>

text \<open>\<open>os_file\<close> is \<open>None\<close> for a stream that is none of the standard ones.\<close>

record ostream =
  os_file :: "bool option"
  os_colorize :: bool
  os_text :: string

definition string_stream :: ostream where
  "string_stream = \<lparr>os_file = None, os_colorize = False, os_text = []\<rparr>"

definition std_out :: "bool \<Rightarrow> ostream" where
  "std_out tty = \<lparr>os_file = Some tty, os_colorize = False, os_text = []\<rparr>"

definition put :: "string \<Rightarrow> ostream \<Rightarrow> ostream" where
  "put s os = os\<lparr>os_text := os_text os @ s\<rparr>"

definition is_atty :: "ostream \<Rightarrow> bool" where
  "is_atty os = (case os_file os of None \<Rightarrow> False | Some tty \<Rightarrow> tty)"

definition is_colorized :: "ostream \<Rightarrow> bool" where
  "is_colorized os \<longleftrightarrow> is_atty os \<or> os_colorize os"

definition colorize :: "ostream \<Rightarrow> ostream" where
  "colorize os = os\<lparr>os_colorize := True\<rparr>"

definition nocolorize :: "ostream \<Rightarrow> ostream" where
  "nocolorize os = os\<lparr>os_colorize := False\<rparr>"

definition escape :: "string \<Rightarrow> ostream \<Rightarrow> ostream" where
  "escape code os = (if is_colorized os then put (CHR 0x1B # ''['' @ code @ ''m'') os else os)"

definition term_reset :: "ostream \<Rightarrow> ostream" where
  "term_reset os = escape ''00'' os"

fun term_style :: "font_style \<Rightarrow> ostream \<Rightarrow> ostream" where
  "term_style Bold os = escape ''1'' os"
| "term_style Dark os = escape ''2'' os"
| "term_style Italic os = escape ''3'' os"
| "term_style Underline os = escape ''4'' os"
| "term_style Blink os = escape ''5'' os"
| "term_style Reverse os = escape ''7'' os"
| "term_style Concealed os = escape ''8'' os"
| "term_style Crossed os = escape ''9'' os"

text \<open>The manipulators of the colours; there is none for \<open>No_Color\<close>.\<close>

fun term_foreground :: "color \<Rightarrow> ostream \<Rightarrow> ostream" where
  "term_foreground Grey os = escape ''30'' os"
| "term_foreground Red os = escape ''31'' os"
| "term_foreground Green os = escape ''32'' os"
| "term_foreground Yellow os = escape ''33'' os"
| "term_foreground Blue os = escape ''34'' os"
| "term_foreground Magenta os = escape ''35'' os"
| "term_foreground Cyan os = escape ''36'' os"
| "term_foreground White os = escape ''37'' os"
| "term_foreground No_Color os = os"

fun term_background :: "color \<Rightarrow> ostream \<Rightarrow> ostream" where
  "term_background Grey os = escape ''40'' os"
| "term_background Red os = escape ''41'' os"
| "term_background Green os = escape ''42'' os"
| "term_background Yellow os = escape ''43'' os"
| "term_background Blue os = escape ''44'' os"
| "term_background Magenta os = escape ''45'' os"
| "term_background Cyan os = escape ''46'' os"
| "term_background White os = escape ''47'' os"
| "term_background No_Color os = os"

section \<open>What is written\<close>

text \<open>The sequence that resets the terminal, where the stream is coloured.\<close>

definition reset_text :: "ostream \<Rightarrow> string" where
  "reset_text os = (if is_colorized os then CHR 0x1B # ''[00m'' else [])"

lemma put_simps [simp]:
  "os_text (put s os) = os_text os @ s" "put [] os = os" "put t (put s os) = put (s @ t) os"
  "is_colorized (put s os) = is_colorized os" "reset_text (put s os) = reset_text os"
  by (simp_all add: put_def is_colorized_def is_atty_def reset_text_def)

lemma term_reset_is: "term_reset os = put (reset_text os) os"
  by (simp add: term_reset_def escape_def reset_text_def)

lemma nocolorize_plain: "os_file os = None \<or> os_file os = Some False \<Longrightarrow> escape code (nocolorize os) = nocolorize os"
  by (auto simp: escape_def nocolorize_def is_colorized_def is_atty_def)

lemma reset_text_streams [simp]: "reset_text string_stream = []" "reset_text (std_out False) = []"
  by (simp_all add: reset_text_def string_stream_def std_out_def is_colorized_def is_atty_def)

end
