(* ===== verification/Table_Format.thy ===== *)
theory Table_Format
  imports Terminal
begin

text \<open>
  \<open>Format\<close> of \<open>src/bin/tabulate.h\<close>: the options of a cell, a row or a table, how two formats are
  merged, and the text routines, which split a text into lines and wrap its words. Which locales the system
  has, and the width of a text in one, is what the C library says (\<open>wcs\<close>, a parameter); the class of white
  space is the one of the classic locale. Numbers of characters are natural numbers; where an option enters, the arithmetic
  of \<open>size_t\<close> is written out.
\<close>

definition plus_size :: "nat \<Rightarrow> nat \<Rightarrow> nat" where
  "plus_size a b = (a + b) mod 2 ^ 64"

definition minus_size :: "nat \<Rightarrow> nat \<Rightarrow> nat" where
  "minus_size a b = (a + 2 ^ 64 - b) mod 2 ^ 64"

lemma plus_size_small: "a + b < 2 ^ 64 \<Longrightarrow> plus_size a b = a + b"
  by (simp add: plus_size_def)

lemma minus_size_small: "b \<le> a \<Longrightarrow> a < 2 ^ 64 \<Longrightarrow> minus_size a b = a - b"
  by (simp add: minus_size_def le_mod_geq)

text \<open>Dereferencing an empty optional is undefined.\<close>

definition deref :: "'a option \<Rightarrow> 'a res" where
  "deref x = (case x of None \<Rightarrow> Inl Null_Pointer | Some y \<Rightarrow> Inr y)"

lemma deref_Some [simp]: "deref (Some x) = Inr x"
  by (simp add: deref_def)

section \<open>Formats\<close>

text \<open>A border and a corner (or the separator of columns) have the same options on every side.\<close>

record border =
  b_show :: "bool option"
  b_text :: "string option"
  b_color :: "color option"
  b_background :: "color option"

record mark =
  m_text :: "string option"
  m_color :: "color option"
  m_background :: "color option"

record format =
  fm_width :: "nat option"
  fm_height :: "nat option"
  fm_font_align :: "font_align option"
  fm_font_style :: "font_style list option"
  fm_font_color :: "color option"
  fm_font_background :: "color option"
  fm_padding_left :: "nat option"
  fm_padding_top :: "nat option"
  fm_padding_right :: "nat option"
  fm_padding_bottom :: "nat option"
  fm_border_top :: border
  fm_border_bottom :: border
  fm_border_left :: border
  fm_border_right :: border
  fm_corner_top_left :: mark
  fm_corner_top_right :: mark
  fm_corner_bottom_left :: mark
  fm_corner_bottom_right :: mark
  fm_column_separator :: mark
  fm_multi_byte :: "bool option"
  fm_locale :: "string option"

definition border_new :: border where
  "border_new = \<lparr>b_show = None, b_text = None, b_color = None, b_background = None\<rparr>"

definition mark_new :: mark where
  "mark_new = \<lparr>m_text = None, m_color = None, m_background = None\<rparr>"

definition format_new :: format where
  "format_new =
     \<lparr>fm_width = None, fm_height = None, fm_font_align = None, fm_font_style = None, fm_font_color = None,
      fm_font_background = None, fm_padding_left = None, fm_padding_top = None, fm_padding_right = None,
      fm_padding_bottom = None, fm_border_top = border_new, fm_border_bottom = border_new,
      fm_border_left = border_new, fm_border_right = border_new, fm_corner_top_left = mark_new,
      fm_corner_top_right = mark_new, fm_corner_bottom_left = mark_new, fm_corner_bottom_right = mark_new,
      fm_column_separator = mark_new, fm_multi_byte = None, fm_locale = None\<rparr>"

definition border_default :: "string \<Rightarrow> border" where
  "border_default s = \<lparr>b_show = Some True, b_text = Some s, b_color = Some No_Color, b_background = Some No_Color\<rparr>"

definition mark_default :: "string \<Rightarrow> mark" where
  "mark_default s = \<lparr>m_text = Some s, m_color = Some No_Color, m_background = Some No_Color\<rparr>"

text \<open>Width and height are not set.\<close>

definition set_defaults :: "format \<Rightarrow> format" where
  "set_defaults f =
     f\<lparr>fm_font_align := Some Align_Left, fm_font_style := Some [],
       fm_font_color := Some No_Color, fm_font_background := Some No_Color,
       fm_padding_left := Some 1, fm_padding_right := Some 1, fm_padding_top := Some 0, fm_padding_bottom := Some 0,
       fm_border_top := border_default ''-'', fm_border_bottom := border_default ''-'',
       fm_border_left := border_default ''|'', fm_border_right := border_default ''|'',
       fm_corner_top_left := mark_default ''+'', fm_corner_top_right := mark_default ''+'',
       fm_corner_bottom_left := mark_default ''+'', fm_corner_bottom_right := mark_default ''+'',
       fm_column_separator := mark_default ''|'', fm_multi_byte := Some False, fm_locale := Some []\<rparr>"

section \<open>Merging\<close>

definition or_else :: "'a option \<Rightarrow> 'a option \<Rightarrow> 'a option" where
  "or_else first second = (if first \<noteq> None then first else second)"

definition merge_border :: "border \<Rightarrow> border \<Rightarrow> border" where
  "merge_border first second =
     \<lparr>b_show = or_else (b_show first) (b_show second), b_text = or_else (b_text first) (b_text second),
      b_color = or_else (b_color first) (b_color second),
      b_background = or_else (b_background first) (b_background second)\<rparr>"

definition merge_mark :: "mark \<Rightarrow> mark \<Rightarrow> mark" where
  "merge_mark first second =
     \<lparr>m_text = or_else (m_text first) (m_text second), m_color = or_else (m_color first) (m_color second),
      m_background = or_else (m_background first) (m_background second)\<rparr>"

text \<open>\<open>std::set_union\<close>; what it does not write of the vector keeps the value it was made with.\<close>

fun set_union :: "'a :: linorder list \<Rightarrow> 'a list \<Rightarrow> 'a list" where
  "set_union [] ys = ys"
| "set_union (x # xs) [] = x # xs"
| "set_union (x # xs) (y # ys) =
     (if x < y then x # set_union xs (y # ys)
      else if y < x then y # set_union (x # xs) ys
      else x # set_union xs ys)"

definition merge_styles :: "font_style list \<Rightarrow> font_style list \<Rightarrow> font_style list" where
  "merge_styles first second =
     (let union = set_union first second in
      union @ replicate (length first + length second - length union) font_style_zero)"

definition merge_font :: "format \<Rightarrow> format \<Rightarrow> format \<Rightarrow> format res" where
  "merge_font first second result =
     andthen
       (case fm_font_style first of
          Some s \<Rightarrow> andthen (deref (fm_font_style second)) (\<lambda>s2. Inr (Some (merge_styles s s2)))
        | None \<Rightarrow> Inr (fm_font_style second)) (\<lambda>style.
     Inr (result\<lparr>fm_font_align := or_else (fm_font_align first) (fm_font_align second), fm_font_style := style,
       fm_font_color := or_else (fm_font_color first) (fm_font_color second),
       fm_font_background := or_else (fm_font_background first) (fm_font_background second)\<rparr>))"

definition merge_padding :: "format \<Rightarrow> format \<Rightarrow> format \<Rightarrow> format" where
  "merge_padding first second result =
     result\<lparr>fm_padding_left := or_else (fm_padding_left first) (fm_padding_left second),
       fm_padding_top := or_else (fm_padding_top first) (fm_padding_top second),
       fm_padding_right := or_else (fm_padding_right first) (fm_padding_right second),
       fm_padding_bottom := or_else (fm_padding_bottom first) (fm_padding_bottom second)\<rparr>"

definition merge_borders :: "format \<Rightarrow> format \<Rightarrow> format \<Rightarrow> format" where
  "merge_borders first second result =
     result\<lparr>fm_border_left := merge_border (fm_border_left first) (fm_border_left second),
       fm_border_top := merge_border (fm_border_top first) (fm_border_top second),
       fm_border_bottom := merge_border (fm_border_bottom first) (fm_border_bottom second),
       fm_border_right := merge_border (fm_border_right first) (fm_border_right second)\<rparr>"

definition merge_corners :: "format \<Rightarrow> format \<Rightarrow> format \<Rightarrow> format" where
  "merge_corners first second result =
     result\<lparr>fm_corner_top_left := merge_mark (fm_corner_top_left first) (fm_corner_top_left second),
       fm_corner_top_right := merge_mark (fm_corner_top_right first) (fm_corner_top_right second),
       fm_corner_bottom_left := merge_mark (fm_corner_bottom_left first) (fm_corner_bottom_left second),
       fm_corner_bottom_right := merge_mark (fm_corner_bottom_right first) (fm_corner_bottom_right second)\<rparr>"

definition merge_format :: "format \<Rightarrow> format \<Rightarrow> format res" where
  "merge_format first second =
     (let result = format_new\<lparr>fm_width := or_else (fm_width first) (fm_width second),
                              fm_height := or_else (fm_height first) (fm_height second)\<rparr> in
      andthen (merge_font first second result) (\<lambda>result.
      let result = merge_corners first second (merge_borders first second (merge_padding first second result)) in
      Inr (result\<lparr>fm_column_separator := merge_mark (fm_column_separator first) (fm_column_separator second),
                  fm_multi_byte := or_else (fm_multi_byte first) (fm_multi_byte second),
                  fm_locale := or_else (fm_locale first) (fm_locale second)\<rparr>)))"

section \<open>The width of a text\<close>

text \<open>
  The locales of the system by their names, each with the width it gives a text. The empty name stands for
  the locale of the environment. \<open>std::locale\<close> throws when there is none of that name.
\<close>

type_synonym locales = "string \<Rightarrow> (string \<Rightarrow> int) option"

definition has_locale :: "locales \<Rightarrow> string \<Rightarrow> bool" where
  "has_locale wcs name \<longleftrightarrow> wcs name \<noteq> None"

definition std_locale :: "locales \<Rightarrow> string \<Rightarrow> (string \<Rightarrow> int) res" where
  "std_locale wcs name = (case wcs name of None \<Rightarrow> Inl Uncaught_Exception | Some width \<Rightarrow> Inr width)"

definition get_wcswidth :: "locales \<Rightarrow> string \<Rightarrow> string \<Rightarrow> int res" where
  "get_wcswidth wcs text locale =
     (if length text = 0 then Inr 0 else andthen (std_locale wcs locale) (\<lambda>width. Inr (width text)))"

definition is_continuation :: "char \<Rightarrow> bool" where
  "is_continuation c \<longleftrightarrow> (of_char c :: byte) AND 0xC0 = 0x80"

definition sequence_length :: "locales \<Rightarrow> string \<Rightarrow> string \<Rightarrow> bool \<Rightarrow> nat res" where
  "sequence_length wcs text locale multi_byte =
     (if \<not> multi_byte then Inr (length text)
      else andthen (get_wcswidth wcs text locale) (\<lambda>result.
           Inr (if result \<ge> 0 then nat result else length text - length (filter is_continuation text))))"

lemma sequence_length_bytes [simp]: "sequence_length wcs text locale False = Inr (length text)"
  by (simp add: sequence_length_def)

section \<open>Trimming and splitting\<close>

definition trim_left :: "string \<Rightarrow> string" where
  "trim_left s = dropWhile is_space s"

definition trim_right :: "string \<Rightarrow> string" where
  "trim_right s = rev (dropWhile is_space (rev s))"

definition trim :: "string \<Rightarrow> string" where
  "trim s = trim_left (trim_right s)"

text \<open>\<open>std::string::find\<close>, and \<open>substr\<close> to the end.\<close>

fun find_here :: "string \<Rightarrow> string \<Rightarrow> nat option" where
  "find_here d [] = (if d = [] then Some 0 else None)"
| "find_here d (c # s) = (if take (length d) (c # s) = d then Some 0 else map_option Suc (find_here d s))"

definition string_find :: "string \<Rightarrow> string \<Rightarrow> nat \<Rightarrow> nat option" where
  "string_find s d k = (if k \<le> length s then map_option (\<lambda>i. i + k) (find_here d (drop k s)) else None)"

definition string_from :: "nat \<Rightarrow> string \<Rightarrow> string res" where
  "string_from k s = (if k \<le> length s then Inr (drop k s) else Inl Uncaught_Exception)"

lemma find_here_bound: "find_here d s = Some i \<Longrightarrow> i + length d \<le> length s"
proof (induction s arbitrary: i)
  case (Cons c s)
  show ?case
  proof (cases "take (length d) (c # s) = d")
    case True
    from arg_cong [OF this, of length] have "length d \<le> length (c # s)" by simp
    with True Cons.prems show ?thesis by simp
  qed (use Cons in auto)
qed (auto split: if_splits)

lemma string_find_bound: "string_find s d k = Some i \<Longrightarrow> k \<le> i \<and> i + length d \<le> length s"
  using find_here_bound [of d "drop k s"] by (fastforce simp: string_find_def split: if_splits)

text \<open>
  The loop of \<open>split_lines\<close>. It shortens its input by the delimiter in every round; on an empty delimiter
  it never ends, which the bound \<open>length input + 1\<close> shows as \<open>Out_Of_Fuel\<close>.
\<close>

fun split_loop :: "nat \<Rightarrow> string \<Rightarrow> string \<Rightarrow> string list \<Rightarrow> (string \<times> string list) res" where
  "split_loop 0 delimiter input result = Inl Out_Of_Fuel"
| "split_loop (Suc n) delimiter input result =
     (case string_find input delimiter 0 of
        None \<Rightarrow> Inr (input, result)
      | Some pos \<Rightarrow> split_loop n delimiter (drop (pos + length delimiter) input) (result @ [take pos input]))"

definition split_lines ::
  "locales \<Rightarrow> string \<Rightarrow> string \<Rightarrow> string \<Rightarrow> bool \<Rightarrow> string list res" where
  "split_lines wcs text delimiter locale multi_byte =
     andthen (split_loop (length text + 1) delimiter text []) (\<lambda>(input, result).
     andthen (sequence_length wcs input locale multi_byte) (\<lambda>n.
     Inr (if n \<noteq> 0 then result @ [input] else result)))"

definition index_of_any :: "string \<Rightarrow> nat \<Rightarrow> string list \<Rightarrow> nat option" where
  "index_of_any input start_index split_characters =
     (let indices = concat (map (\<lambda>c. case string_find input c start_index of None \<Rightarrow> [] | Some i \<Rightarrow> [i]) split_characters) in
      if indices \<noteq> [] then Some (Min (set indices)) else None)"

lemma index_of_any_bound:
  "index_of_any input start cs = Some i \<Longrightarrow> \<exists>c \<in> set cs. string_find input c start = Some i"
proof -
  assume a: "index_of_any input start cs = Some i"
  let ?is = "concat (map (\<lambda>c. case string_find input c start of None \<Rightarrow> [] | Some i \<Rightarrow> [i]) cs)"
  from a have "?is \<noteq> []" "i = Min (set ?is)" by (auto simp: index_of_any_def Let_def split: if_splits)
  then have "i \<in> set ?is" using Min_in [of "set ?is"] by (metis List.finite_set set_empty)
  then show ?thesis by (auto split: option.splits)
qed

text \<open>White space is a word of its own, a dash stays with the word before it.\<close>

function explode_from :: "string \<Rightarrow> string list \<Rightarrow> nat \<Rightarrow> string list res" where
  "explode_from input cs start =
     (case index_of_any input start cs of
        None \<Rightarrow> andthen (string_from start input) (\<lambda>s. Inr [s])
      | Some index \<Rightarrow>
          let word = take (index - start) (drop start input);
              next_character = (if index < length input then input ! index else CHR 0x00) in
          andthen (explode_from input cs (index + 1)) (\<lambda>words.
          Inr (if is_space next_character then word # [next_character] # words
               else (word @ [next_character]) # words)))"
  by pat_completeness auto
termination
proof (relation "measure (\<lambda>(input, cs, start). length input + 1 - start)", goal_cases)
  case (2 input cs start index)
  then show ?case using index_of_any_bound [of input start cs index] string_find_bound by fastforce
qed simp

declare explode_from.simps [simp del]

definition explode_string :: "string \<Rightarrow> string list \<Rightarrow> string list res" where
  "explode_string input cs = explode_from input cs 0"

section \<open>Wrapping words\<close>

text \<open>
  A word that is too long for a line is broken. On a width of 1 the loop never ends, which the bound
  \<open>length word + 1\<close> shows; on a width of 0 it asks for a suffix that does not exist.
\<close>

fun break_word ::
  "nat \<Rightarrow> locales \<Rightarrow> nat \<Rightarrow> string \<Rightarrow> bool \<Rightarrow> string \<Rightarrow> string \<Rightarrow> (string \<times> string) res" where
  "break_word 0 wcs width locale multi_byte word result = Inl Out_Of_Fuel"
| "break_word (Suc n) wcs width locale multi_byte word result =
     andthen (sequence_length wcs word locale multi_byte) (\<lambda>len.
     if len > width
     then let result = result @ take (minus_size width 1) word @ ''-'' in
          andthen (string_from (minus_size width 1) word) (\<lambda>word.
          break_word n wcs width locale multi_byte word (result @ [CHR 0x0A]))
     else Inr (word, result))"

definition wrap_step ::
  "locales \<Rightarrow> nat \<Rightarrow> string \<Rightarrow> bool \<Rightarrow> string \<Rightarrow> nat \<times> string \<Rightarrow> (nat \<times> string) res" where
  "wrap_step wcs width locale multi_byte word st =
     (case st of (current_line_length, result) \<Rightarrow>
      andthen (sequence_length wcs word locale multi_byte) (\<lambda>len.
      andthen
        (if current_line_length + len > width
         then let (current_line_length, result) =
                    (if current_line_length > 0 then (0, result @ [CHR 0x0A]) else (current_line_length, result)) in
              andthen (break_word (length word + 1) wcs width locale multi_byte word result) (\<lambda>(word, result).
              Inr (current_line_length, trim_left word, result))
         else Inr (current_line_length, word, result)) (\<lambda>(current_line_length, word, result).
      andthen (sequence_length wcs word locale multi_byte) (\<lambda>len.
      Inr (current_line_length + len, result @ word)))))"

definition word_wrap ::
  "locales \<Rightarrow> string \<Rightarrow> nat \<Rightarrow> string \<Rightarrow> bool \<Rightarrow> string res" where
  "word_wrap wcs str width locale multi_byte =
     andthen (explode_string str ['' '', ''-'', [CHR 0x09]]) (\<lambda>words.
     andthen (each (wrap_step wcs width locale multi_byte) words (0, [])) (\<lambda>(_, result). Inr result))"

end
