(* ===== verification/Table_Print.thy ===== *)
theory Table_Print
  imports Table_Format
begin

text \<open>
  Cells, rows, columns, tables and the printer of \<open>src/bin/tabulate.h\<close>. Asking a cell or a row for its
  format stores the merged format in it, so everything that asks is an operation on a state: the table
  and the stream that is written to. A cell is a position of the table; where the code copies the cell
  first, the copy is an argument and comes back with its own stored format.
\<close>

section \<open>Operations\<close>

text \<open>An operation fails or returns a value and the new state; a loop carries a value along.\<close>

type_synonym ('s, 'a) op = "'s \<Rightarrow> ('a \<times> 's) res"

definition give :: "'a \<Rightarrow> ('s, 'a) op" where
  "give x s = Inr (x, s)"

definition fail :: "fault \<Rightarrow> ('s, 'a) op" where
  "fail e s = Inl e"

definition after :: "('s, 'a) op \<Rightarrow> ('a \<Rightarrow> ('s, 'b) op) \<Rightarrow> ('s, 'b) op" where
  "after m f s = andthen (m s) (\<lambda>(x, s). f x s)"

definition lift_res :: "'a res \<Rightarrow> ('s, 'a) op" where
  "lift_res m s = andthen m (\<lambda>x. Inr (x, s))"

fun loop :: "('i \<Rightarrow> 'a \<Rightarrow> ('s, 'a) op) \<Rightarrow> 'i list \<Rightarrow> 'a \<Rightarrow> ('s, 'a) op" where
  "loop f [] x = give x"
| "loop f (i # is) x = after (f i x) (loop f is)"

section \<open>Tables\<close>

record tcell =
  tc_text :: string
  tc_format :: "format option"

record trow =
  tr_cells :: "tcell list"
  tr_format :: "format option"

record ttable =
  tt_rows :: "trow list"
  tt_format :: format

record printing =
  pr_table :: ttable
  pr_stream :: ostream

type_synonym 'a pop = "(printing, 'a) op"

definition table_create :: ttable where
  "table_create = \<lparr>tt_rows = [], tt_format = set_defaults format_new\<rparr>"

definition cell_new :: "string \<Rightarrow> tcell" where
  "cell_new s = \<lparr>tc_text = s, tc_format = None\<rparr>"

definition row_new :: trow where
  "row_new = \<lparr>tr_cells = [], tr_format = None\<rparr>"

definition add_cell :: "tcell \<Rightarrow> trow \<Rightarrow> trow" where
  "add_cell c row = row\<lparr>tr_cells := tr_cells row @ [c]\<rparr>"

definition internal_add_row :: "string list \<Rightarrow> ttable \<Rightarrow> ttable" where
  "internal_add_row cells t =
     (let row = fold (\<lambda>c row. add_cell (cell_new c) row) cells row_new in t\<lparr>tt_rows := tt_rows t @ [row]\<rparr>)"

definition table_size :: "ttable \<Rightarrow> nat" where
  "table_size t = length (tt_rows t)"

definition estimate_num_columns :: "ttable \<Rightarrow> nat" where
  "estimate_num_columns t = (if table_size t \<noteq> 0 then length (tr_cells (tt_rows t ! 0)) else 0)"

text \<open>The row and the cell at an index; outside the vector it is undefined.\<close>

definition row_at :: "nat \<Rightarrow> trow pop" where
  "row_at i st = (if i < length (tt_rows (pr_table st)) then Inr (tt_rows (pr_table st) ! i, st) else Inl Out_Of_Bounds)"

definition set_row :: "nat \<Rightarrow> trow \<Rightarrow> unit pop" where
  "set_row i row st = Inr ((), st\<lparr>pr_table := (pr_table st)\<lparr>tt_rows := (tt_rows (pr_table st))[i := row]\<rparr>\<rparr>)"

definition cell_at :: "nat \<Rightarrow> nat \<Rightarrow> tcell pop" where
  "cell_at i j = after (row_at i) (\<lambda>row. if j < length (tr_cells row) then give (tr_cells row ! j) else fail Out_Of_Bounds)"

definition set_cell :: "nat \<Rightarrow> nat \<Rightarrow> tcell \<Rightarrow> unit pop" where
  "set_cell i j c = after (row_at i) (\<lambda>row. set_row i (row\<lparr>tr_cells := (tr_cells row)[j := c]\<rparr>))"

section \<open>Formats of rows and cells\<close>

definition table_format :: "format pop" where
  "table_format st = Inr (tt_format (pr_table st), st)"

definition row_format :: "nat \<Rightarrow> format pop" where
  "row_format i =
     after (row_at i) (\<lambda>row.
     after (case tr_format row of
              None \<Rightarrow> table_format
            | Some f \<Rightarrow> after table_format (\<lambda>p. lift_res (merge_format f p))) (\<lambda>f.
     after (set_row i (row\<lparr>tr_format := Some f\<rparr>)) (\<lambda>_. give f)))"

text \<open>\<open>format\<close>, \<open>locale\<close> and \<open>is_multi_byte_character_support_enabled\<close> of a copied cell whose parent is row \<open>i\<close>.\<close>

definition copy_format :: "nat \<Rightarrow> tcell \<Rightarrow> (format \<times> tcell) pop" where
  "copy_format i c =
     after (case tc_format c of
              None \<Rightarrow> row_format i
            | Some f \<Rightarrow> after (row_format i) (\<lambda>p. lift_res (merge_format f p))) (\<lambda>f.
     give (f, c\<lparr>tc_format := Some f\<rparr>))"

definition copy_locale :: "nat \<Rightarrow> tcell \<Rightarrow> (string \<times> tcell) pop" where
  "copy_locale i c = after (copy_format i c) (\<lambda>(f, c). after (lift_res (deref (fm_locale f))) (\<lambda>l. give (l, c)))"

definition copy_multi_byte :: "nat \<Rightarrow> tcell \<Rightarrow> (bool \<times> tcell) pop" where
  "copy_multi_byte i c = after (copy_format i c) (\<lambda>(f, c). after (lift_res (deref (fm_multi_byte f))) (\<lambda>b. give (b, c)))"

text \<open>The same of a cell of the table.\<close>

definition in_place :: "(nat \<Rightarrow> tcell \<Rightarrow> ('a \<times> tcell) pop) \<Rightarrow> nat \<Rightarrow> nat \<Rightarrow> 'a pop" where
  "in_place m i j =
     after (cell_at i j) (\<lambda>c. after (m i c) (\<lambda>(x, c). after (set_cell i j c) (\<lambda>_. give x)))"

definition cell_format :: "nat \<Rightarrow> nat \<Rightarrow> format pop" where
  "cell_format = in_place copy_format"

definition cell_locale :: "nat \<Rightarrow> nat \<Rightarrow> string pop" where
  "cell_locale = in_place copy_locale"

definition cell_multi_byte :: "nat \<Rightarrow> nat \<Rightarrow> bool pop" where
  "cell_multi_byte = in_place copy_multi_byte"

definition cell_text :: "nat \<Rightarrow> nat \<Rightarrow> string pop" where
  "cell_text i j = after (cell_at i j) (\<lambda>c. give (tc_text c))"

definition cell_size :: "locales \<Rightarrow> nat \<Rightarrow> nat \<Rightarrow> nat pop" where
  "cell_size wcs i j =
     after (cell_text i j) (\<lambda>text. after (cell_locale i j) (\<lambda>l. after (cell_multi_byte i j) (\<lambda>b.
     lift_res (sequence_length wcs text l b))))"

text \<open>A text routine with the locale and the mode of a cell.\<close>

definition of_cell :: "nat \<Rightarrow> nat \<Rightarrow> (string \<Rightarrow> bool \<Rightarrow> 'a res) \<Rightarrow> 'a pop" where
  "of_cell i j f = after (cell_locale i j) (\<lambda>l. after (cell_multi_byte i j) (\<lambda>b. lift_res (f l b)))"

section \<open>Columns\<close>

text \<open>Column \<open>j\<close> refers to the cells of all rows at that index.\<close>

definition table_column :: "nat \<Rightarrow> (nat \<times> nat) list pop" where
  "table_column j st =
     loop (\<lambda>i cells. after (cell_at i j) (\<lambda>_. give (cells @ [(i, j)]))) [0..<table_size (pr_table st)] [] st"

definition configured_width :: "(nat \<times> nat) list \<Rightarrow> nat pop" where
  "configured_width cells =
     loop (\<lambda>(i, j) result. after (cell_format i j) (\<lambda>f.
       give (case fm_width f of None \<Rightarrow> result | Some n \<Rightarrow> max result n))) cells 0"

definition widest_line :: "locales \<Rightarrow> nat \<Rightarrow> nat \<Rightarrow> string list \<Rightarrow> nat pop" where
  "widest_line wcs i j lines =
     loop (\<lambda>line widest.
       after (of_cell i j (sequence_length wcs line)) (\<lambda>n.
       if n > widest then of_cell i j (sequence_length wcs line) else give widest)) lines 0"

definition cell_width :: "locales \<Rightarrow> nat \<Rightarrow> nat \<Rightarrow> nat pop" where
  "cell_width wcs i j =
     after (cell_format i j) (\<lambda>f.
     let result = (case fm_padding_left f of None \<Rightarrow> 0 | Some n \<Rightarrow> n) in
     after (cell_text i j) (\<lambda>text.
     after (of_cell i j (split_lines wcs text [CHR 0x0A])) (\<lambda>lines.
     after (if length lines = 1 then cell_size wcs i j else widest_line wcs i j lines) (\<lambda>n.
     let result = plus_size result n in
     give (case fm_padding_right f of None \<Rightarrow> result | Some n \<Rightarrow> plus_size result n)))))"

definition computed_width :: "locales \<Rightarrow> (nat \<times> nat) list \<Rightarrow> nat pop" where
  "computed_width wcs cells = loop (\<lambda>(i, j) result. after (cell_width wcs i j) (\<lambda>n. give (max result n))) cells 0"

section \<open>Rows\<close>

definition row_size :: "nat \<Rightarrow> nat pop" where
  "row_size i = after (row_at i) (\<lambda>row. give (length (tr_cells row)))"

definition configured_height :: "nat \<Rightarrow> nat pop" where
  "configured_height i =
     after (row_size i) (\<lambda>n. loop (\<lambda>j result. after (cell_format i j) (\<lambda>f.
       give (case fm_height f of None \<Rightarrow> result | Some h \<Rightarrow> max result h))) [0..<n] 0)"

definition newlines :: "string \<Rightarrow> nat" where
  "newlines s = length (filter (\<lambda>c. c = CHR 0x0A) s)"

definition cell_height :: "locales \<Rightarrow> nat \<Rightarrow> nat \<Rightarrow> nat \<Rightarrow> nat pop" where
  "cell_height wcs i j column_width =
     after (cell_format i j) (\<lambda>f. after (cell_text i j) (\<lambda>text.
     after (lift_res (deref (fm_padding_left f))) (\<lambda>pl. after (lift_res (deref (fm_padding_right f))) (\<lambda>pr.
     after (lift_res (deref (fm_padding_top f))) (\<lambda>result.
     let column_width = (if column_width > plus_size pl pr then minus_size column_width (plus_size pl pr) else column_width) in
     after (if newlines text = 0 then of_cell i j (word_wrap wcs text column_width) else give text) (\<lambda>wrapped.
     let estimated = newlines wrapped + (if wrapped \<noteq> [] \<and> last wrapped \<noteq> CHR 0x0A then 1 else 0) in
     after (lift_res (deref (fm_padding_bottom f))) (\<lambda>pb.
     give (plus_size (plus_size result estimated) pb))))))))"

definition computed_height :: "locales \<Rightarrow> nat \<Rightarrow> nat list \<Rightarrow> nat pop" where
  "computed_height wcs i column_widths =
     after (row_size i) (\<lambda>n. loop (\<lambda>j result.
       if j < length column_widths then after (cell_height wcs i j (column_widths ! j)) (\<lambda>h. give (max result h))
       else fail Out_Of_Bounds) [0..<n] 0)"

section \<open>The printer\<close>

definition out_op :: "(ostream \<Rightarrow> ostream) \<Rightarrow> unit pop" where
  "out_op g st = Inr ((), st\<lparr>pr_stream := g (pr_stream st)\<rparr>)"

definition apply_font_style :: "font_style \<Rightarrow> unit pop" where
  "apply_font_style s = out_op (term_style s)"

definition apply_foreground_color :: "color \<Rightarrow> unit pop" where
  "apply_foreground_color c = (if c = No_Color then give () else out_op (term_foreground c))"

definition apply_background_color :: "color \<Rightarrow> unit pop" where
  "apply_background_color c = (if c = No_Color then give () else out_op (term_background c))"

definition apply_element_style :: "color \<Rightarrow> color \<Rightarrow> font_style list \<Rightarrow> unit pop" where
  "apply_element_style foreground background styles =
     after (apply_foreground_color foreground) (\<lambda>_. after (apply_background_color background) (\<lambda>_.
     loop (\<lambda>s _. apply_font_style s) styles ()))"

definition reset_element_style :: "unit pop" where
  "reset_element_style = out_op term_reset"

definition put_spaces :: "nat \<Rightarrow> unit pop" where
  "put_spaces n = out_op (put (replicate n (CHR '' '')))"

text \<open>The content with its style, which the padding does not get.\<close>

definition put_content :: "string \<Rightarrow> format \<Rightarrow> unit pop" where
  "put_content content f =
     after (lift_res (deref (fm_font_color f))) (\<lambda>c. after (lift_res (deref (fm_font_background f))) (\<lambda>b.
     after (lift_res (deref (fm_font_style f))) (\<lambda>styles.
     after (apply_element_style c b styles) (\<lambda>_. after (out_op (put content)) (\<lambda>_.
     after reset_element_style (\<lambda>_. apply_element_style c b []))))))"

definition print_left_aligned :: "string \<Rightarrow> format \<Rightarrow> nat \<Rightarrow> nat \<Rightarrow> unit pop" where
  "print_left_aligned content f text_with_padding_size column_width =
     after (put_content content f) (\<lambda>_.
     if text_with_padding_size < column_width then put_spaces (column_width - text_with_padding_size) else give ())"

definition print_center_aligned :: "string \<Rightarrow> format \<Rightarrow> nat \<Rightarrow> nat \<Rightarrow> unit pop" where
  "print_center_aligned content f text_with_padding_size column_width =
     (let num_spaces = minus_size column_width text_with_padding_size in
      if num_spaces mod 2 = 0 then
        after (put_spaces (num_spaces div 2)) (\<lambda>_. after (put_content content f) (\<lambda>_. put_spaces (num_spaces div 2)))
      else
        let num_spaces_before = num_spaces div 2 + 1 in
        after (put_spaces num_spaces_before) (\<lambda>_. after (put_content content f) (\<lambda>_.
        put_spaces (num_spaces - num_spaces_before))))"

definition print_right_aligned :: "string \<Rightarrow> format \<Rightarrow> nat \<Rightarrow> nat \<Rightarrow> unit pop" where
  "print_right_aligned content f text_with_padding_size column_width =
     after (if text_with_padding_size < column_width then put_spaces (column_width - text_with_padding_size) else give ()) (\<lambda>_.
     put_content content f)"

text \<open>The text of a border or a corner, in its colours.\<close>

definition put_colored :: "string \<Rightarrow> color \<Rightarrow> color \<Rightarrow> unit pop" where
  "put_colored s c b = after (apply_element_style c b []) (\<lambda>_. after (out_op (put s)) (\<lambda>_. reset_element_style))"

definition put_border :: "border \<Rightarrow> unit pop" where
  "put_border x =
     after (lift_res (deref (b_color x))) (\<lambda>c. after (lift_res (deref (b_background x))) (\<lambda>b.
     after (lift_res (deref (b_text x))) (\<lambda>s. put_colored s c b)))"

definition put_mark :: "mark \<Rightarrow> unit pop" where
  "put_mark x =
     after (lift_res (deref (m_text x))) (\<lambda>s. after (lift_res (deref (m_color x))) (\<lambda>c.
     after (lift_res (deref (m_background x))) (\<lambda>b. put_colored s c b)))"

text \<open>
  While a cell is printed its locale is the global one: it must exist. (The global locale has no other effect
  that is modelled: every width is asked for in the locale of the cell, and white space is the classic one.)
\<close>

definition open_locale :: "locales \<Rightarrow> string \<Rightarrow> unit pop" where
  "open_locale wcs name = after (lift_res (std_locale wcs name)) (\<lambda>_. give ())"

lemma open_locale_give: "has_locale wcs name \<Longrightarrow> open_locale wcs name = give ()"
  by (auto simp: open_locale_def std_locale_def has_locale_def after_def lift_res_def give_def fun_eq_iff)

text \<open>One line of a cell, with the border on its left and the one behind the last column.\<close>

definition print_line :: "locales \<Rightarrow> nat \<Rightarrow> tcell \<Rightarrow> format \<Rightarrow> bool \<Rightarrow> nat \<Rightarrow> string \<Rightarrow> tcell pop" where
  "print_line wcs i c f multi_byte column_width line =
     after (lift_res (deref (fm_padding_left f))) (\<lambda>pl. after (lift_res (deref (fm_padding_right f))) (\<lambda>pr.
     after (put_spaces pl) (\<lambda>_.
     let line = trim line in
     after (copy_locale i c) (\<lambda>(l, c).
     after (lift_res (sequence_length wcs line l multi_byte)) (\<lambda>len.
     let line_with_padding_size = plus_size (plus_size len pl) pr in
     after (lift_res (deref (fm_font_align f))) (\<lambda>align.
     after (case align of
              Align_Left \<Rightarrow> print_left_aligned line f line_with_padding_size column_width
            | Align_Center \<Rightarrow> print_center_aligned line f line_with_padding_size column_width
            | Align_Right \<Rightarrow> print_right_aligned line f line_with_padding_size column_width) (\<lambda>_.
     after (put_spaces pr) (\<lambda>_. give c))))))))"

definition print_row_in_cell ::
  "locales \<Rightarrow> nat \<Rightarrow> nat \<Rightarrow> nat \<Rightarrow> nat \<Rightarrow> nat \<Rightarrow> string list \<Rightarrow> unit pop" where
  "print_row_in_cell wcs i j column_width num_columns row_index lines =
     after (cell_at i j) (\<lambda>c. after (copy_locale i c) (\<lambda>(l, c). after (copy_multi_byte i c) (\<lambda>(b, c).
     after (open_locale wcs l) (\<lambda>_. after (copy_format i c) (\<lambda>(f, c).
     let text_height = length lines in
     after (lift_res (deref (fm_padding_top f))) (\<lambda>padding_top.
     after (lift_res (deref (b_show (fm_border_left f)))) (\<lambda>show_left.
     after (if show_left then put_border (fm_border_left f) else give ()) (\<lambda>_.
     after (lift_res (deref (fm_font_color f))) (\<lambda>fg. after (lift_res (deref (fm_font_background f))) (\<lambda>bg.
     after (apply_element_style fg bg []) (\<lambda>_.
     after (if row_index < padding_top then after (put_spaces column_width) (\<lambda>_. give c)
            else if row_index \<le> plus_size padding_top text_height then
              if row_index - padding_top < text_height
              then print_line wcs i c f b column_width (lines ! (row_index - padding_top))
              else after (put_spaces column_width) (\<lambda>_. give c)
            else after (put_spaces column_width) (\<lambda>_. give c)) (\<lambda>_.
     after reset_element_style (\<lambda>_.
     if j + 1 = num_columns then
       after (lift_res (deref (b_show (fm_border_right f)))) (\<lambda>show_right.
       if show_right then put_border (fm_border_right f) else give ())
     else give ())))))))))))))"

text \<open>The line above or below a cell: its border and its two corners; the result tells whether it is printed.\<close>

definition print_cell_border ::
  "locales \<Rightarrow> (format \<Rightarrow> border) \<Rightarrow> (format \<Rightarrow> mark) \<Rightarrow> (format \<Rightarrow> mark) \<Rightarrow> nat \<Rightarrow> nat \<Rightarrow> nat \<Rightarrow> nat \<Rightarrow> bool pop" where
  "print_cell_border wcs side left_corner right_corner i j column_width num_columns =
     after (cell_at i j) (\<lambda>c. after (copy_locale i c) (\<lambda>(l, c). after (open_locale wcs l) (\<lambda>_.
     after (copy_format i c) (\<lambda>(f, c).
     after (lift_res (deref (m_text (left_corner f)))) (\<lambda>corner.
     after (lift_res (deref (m_color (left_corner f)))) (\<lambda>color.
     after (lift_res (deref (m_background (left_corner f)))) (\<lambda>background.
     after (lift_res (deref (b_text (side f)))) (\<lambda>border.
     after (if corner = [] \<and> border = [] then give False else lift_res (deref (b_show (side f)))) (\<lambda>shown.
     if \<not> shown then give False
     else
       after (put_colored corner color background) (\<lambda>_.
       after (loop (\<lambda>_ _. put_border (side f)) [0..<column_width] ()) (\<lambda>_.
       after (if j + 1 = num_columns then put_mark (right_corner f) else give ()) (\<lambda>_.
       give True))))))))))))"

definition print_cell_border_top :: "locales \<Rightarrow> nat \<Rightarrow> nat \<Rightarrow> nat \<Rightarrow> nat \<Rightarrow> bool pop" where
  "print_cell_border_top wcs = print_cell_border wcs fm_border_top fm_corner_top_left fm_corner_top_right"

definition print_cell_border_bottom :: "locales \<Rightarrow> nat \<Rightarrow> nat \<Rightarrow> nat \<Rightarrow> nat \<Rightarrow> bool pop" where
  "print_cell_border_bottom wcs = print_cell_border wcs fm_border_bottom fm_corner_bottom_left fm_corner_bottom_right"

section \<open>Printing a table\<close>

definition compute_cell_dimensions :: "locales \<Rightarrow> nat \<Rightarrow> nat \<Rightarrow> (nat list \<times> nat list) pop" where
  "compute_cell_dimensions wcs num_rows num_columns =
     after (loop (\<lambda>j widths.
       after (table_column j) (\<lambda>column. after (configured_width column) (\<lambda>configured.
       after (computed_width wcs column) (\<lambda>computed.
       give (widths @ [if configured \<noteq> 0 then configured else computed]))))) [0..<num_columns] []) (\<lambda>widths.
     after (loop (\<lambda>i heights.
       after (configured_height i) (\<lambda>configured. after (computed_height wcs i widths) (\<lambda>computed.
       give (heights @ [max configured computed])))) [0..<num_rows] []) (\<lambda>heights.
     give (heights, widths)))"

text \<open>The lines of a cell: its own, or those that its words are wrapped to.\<close>

definition split_cell :: "locales \<Rightarrow> nat \<Rightarrow> nat \<Rightarrow> nat \<Rightarrow> string list pop" where
  "split_cell wcs i j column_width =
     after (cell_at i j) (\<lambda>c.
     let text = tc_text c in
     after (copy_format i c) (\<lambda>(f, c). after (lift_res (deref (fm_padding_left f))) (\<lambda>pl.
     after (copy_format i c) (\<lambda>(f, c). after (lift_res (deref (fm_padding_right f))) (\<lambda>pr.
     after (if CHR 0x0A \<in> set text then give (text, c)
            else
              let content_width =
                (if column_width > plus_size pl pr then minus_size (minus_size column_width pl) pr else column_width) in
              after (copy_locale i c) (\<lambda>(l, c). after (copy_multi_byte i c) (\<lambda>(b, c).
              after (lift_res (word_wrap wcs text content_width l b)) (\<lambda>wrapped. give (wrapped, c))))) (\<lambda>(text, c).
     after (copy_locale i c) (\<lambda>(l, c). after (copy_multi_byte i c) (\<lambda>(b, c).
     lift_res (split_lines wcs text [CHR 0x0A] l b)))))))))"

definition split_cells :: "locales \<Rightarrow> nat \<Rightarrow> nat \<Rightarrow> nat list \<Rightarrow> string list list list pop" where
  "split_cells wcs num_rows num_columns widths =
     loop (\<lambda>i rows.
       after (loop (\<lambda>j row. after (split_cell wcs i j (widths ! j)) (\<lambda>lines. give (row @ [lines]))) [0..<num_columns] []) (\<lambda>row.
       give (rows @ [row]))) [0..<num_rows] []"

definition end_line :: "unit pop" where
  "end_line = after (out_op term_reset) (\<lambda>_. out_op (put [CHR 0x0A]))"

definition bottom_border_needed :: "nat \<Rightarrow> nat \<Rightarrow> bool pop" where
  "bottom_border_needed i num_columns =
     loop (\<lambda>j needed.
       if \<not> needed then give False
       else after (cell_at i j) (\<lambda>c. after (copy_format i c) (\<lambda>(f, c).
            after (lift_res (deref (m_text (fm_corner_bottom_left f)))) (\<lambda>corner.
            after (lift_res (deref (b_text (fm_border_bottom f)))) (\<lambda>border.
            give (\<not> (corner = [] \<and> border = []))))))) [0..<num_columns] True"

definition print_table_row ::
  "locales \<Rightarrow> nat \<Rightarrow> nat \<Rightarrow> nat list \<Rightarrow> nat \<Rightarrow> string list list \<Rightarrow> nat \<Rightarrow> unit pop" where
  "print_table_row wcs num_rows num_columns widths height cells i =
     after (loop (\<lambda>j printed. after (print_cell_border_top wcs i j (widths ! j) num_columns) (\<lambda>b. give (printed \<and> b)))
       [0..<num_columns] True) (\<lambda>printed.
     after (if printed then end_line else give ()) (\<lambda>_.
     after (loop (\<lambda>k _.
       after (loop (\<lambda>j _. print_row_in_cell wcs i j (widths ! j) num_columns k (cells ! j)) [0..<num_columns] ()) (\<lambda>_.
       if k + 1 < height then end_line else give ())) [0..<height] ()) (\<lambda>_.
     after (if i + 1 = num_rows then
              after (bottom_border_needed i num_columns) (\<lambda>needed.
              after (if needed then end_line else give ()) (\<lambda>_.
              loop (\<lambda>j _. after (print_cell_border_bottom wcs i j (widths ! j) num_columns) (\<lambda>_. give ())) [0..<num_columns] ()))
            else give ()) (\<lambda>_.
     if i + 1 < num_rows then end_line else give ()))))"

definition print_table :: "locales \<Rightarrow> unit pop" where
  "print_table wcs st =
     (let num_rows = table_size (pr_table st); num_columns = estimate_num_columns (pr_table st) in
      after (compute_cell_dimensions wcs num_rows num_columns) (\<lambda>(heights, widths).
      after (split_cells wcs num_rows num_columns widths) (\<lambda>cells.
      loop (\<lambda>i _. print_table_row wcs num_rows num_columns widths (heights ! i) (cells ! i) i) [0..<num_rows] ())) st)"

section \<open>Tables for the program\<close>

record text_table =
  tb_rows :: nat
  tb_cols :: nat
  tb_table :: ttable

text \<open>What a row is made of: texts, or a table, which is printed to a string. (A table is shared by its copies; the
  formats that this printing stores in the original are left out.)\<close>

datatype row_value = Row_String string | Row_Chars string | Row_View string | Row_Table text_table

definition table_new :: text_table where
  "table_new = \<lparr>tb_rows = 0, tb_cols = 0, tb_table = table_create\<rparr>"

definition table_print :: "locales \<Rightarrow> ostream \<Rightarrow> text_table \<Rightarrow> (ostream \<times> text_table) res" where
  "table_print wcs os t =
     andthen (print_table wcs \<lparr>pr_table = tb_table t, pr_stream = os\<rparr>) (\<lambda>(_, st).
     Inr (pr_stream st, t\<lparr>tb_table := pr_table st\<rparr>))"

definition table_str :: "locales \<Rightarrow> text_table \<Rightarrow> (string \<times> text_table) res" where
  "table_str wcs t = andthen (table_print wcs string_stream t) (\<lambda>(os, t). Inr (os_text os, t))"

definition row_value_text :: "locales \<Rightarrow> row_value \<Rightarrow> string res" where
  "row_value_text wcs v =
     (case v of Row_String s \<Rightarrow> Inr s | Row_Chars s \<Rightarrow> Inr s | Row_View s \<Rightarrow> Inr s
      | Row_Table t \<Rightarrow> andthen (table_str wcs t) (\<lambda>(s, t). Inr s))"

definition table_add_row :: "locales \<Rightarrow> row_value list \<Rightarrow> text_table \<Rightarrow> text_table res" where
  "table_add_row wcs cells t =
     (let t = (if tb_rows t = 0 then t\<lparr>tb_cols := length cells\<rparr> else t);
          cell_strings = replicate (if length cells < tb_cols t then tb_cols t else length cells) [] in
      andthen (each (\<lambda>i strings. andthen (row_value_text wcs (cells ! i)) (\<lambda>s. Inr (strings[i := s])))
        [0..<length cells] cell_strings) (\<lambda>cell_strings.
      Inr (t\<lparr>tb_table := internal_add_row cell_strings (tb_table t), tb_rows := tb_rows t + 1\<rparr>)))"

text \<open>The size of the printed text: the width of its first line, and the number of its lines.\<close>

definition table_shape :: "locales \<Rightarrow> text_table \<Rightarrow> (nat \<times> nat) res" where
  "table_shape wcs t =
     andthen (table_str wcs t) (\<lambda>(buffer, t).
     andthen (split_lines wcs buffer [CHR 0x0A] [] True) (\<lambda>lines.
     if lines \<noteq> [] then andthen (sequence_length wcs (hd lines) [] True) (\<lambda>n. Inr (n, length lines)) else Inr (0, 0)))"

end
