(* ===== verification/Table_Style.thy ===== *)
theory Table_Style
  imports Table_Print
begin

text \<open>
  The setters of \<open>Format\<close> of \<open>src/bin/tabulate.h\<close>, and which setting wins: the one of a cell over the one
  of its row, the one of a row over the one of the table. The setters of a single option have the
  interface \<open>format_option\<close>, from which this follows once for all of them. The program itself sets nothing.
\<close>

section \<open>Setters of one option\<close>

definition fmt_width :: "nat \<Rightarrow> format \<Rightarrow> format" where
  "fmt_width v f = f\<lparr>fm_width := Some v\<rparr>"

definition fmt_height :: "nat \<Rightarrow> format \<Rightarrow> format" where
  "fmt_height v f = f\<lparr>fm_height := Some v\<rparr>"

definition fmt_padding_left :: "nat \<Rightarrow> format \<Rightarrow> format" where
  "fmt_padding_left v f = f\<lparr>fm_padding_left := Some v\<rparr>"

definition fmt_padding_right :: "nat \<Rightarrow> format \<Rightarrow> format" where
  "fmt_padding_right v f = f\<lparr>fm_padding_right := Some v\<rparr>"

definition fmt_padding_top :: "nat \<Rightarrow> format \<Rightarrow> format" where
  "fmt_padding_top v f = f\<lparr>fm_padding_top := Some v\<rparr>"

definition fmt_padding_bottom :: "nat \<Rightarrow> format \<Rightarrow> format" where
  "fmt_padding_bottom v f = f\<lparr>fm_padding_bottom := Some v\<rparr>"

definition fmt_border_left :: "string \<Rightarrow> format \<Rightarrow> format" where
  "fmt_border_left v f = f\<lparr>fm_border_left := (fm_border_left f)\<lparr>b_text := Some v\<rparr>\<rparr>"

definition fmt_border_left_color :: "color \<Rightarrow> format \<Rightarrow> format" where
  "fmt_border_left_color v f = f\<lparr>fm_border_left := (fm_border_left f)\<lparr>b_color := Some v\<rparr>\<rparr>"

definition fmt_border_left_background :: "color \<Rightarrow> format \<Rightarrow> format" where
  "fmt_border_left_background v f = f\<lparr>fm_border_left := (fm_border_left f)\<lparr>b_background := Some v\<rparr>\<rparr>"

definition fmt_border_right :: "string \<Rightarrow> format \<Rightarrow> format" where
  "fmt_border_right v f = f\<lparr>fm_border_right := (fm_border_right f)\<lparr>b_text := Some v\<rparr>\<rparr>"

definition fmt_border_right_color :: "color \<Rightarrow> format \<Rightarrow> format" where
  "fmt_border_right_color v f = f\<lparr>fm_border_right := (fm_border_right f)\<lparr>b_color := Some v\<rparr>\<rparr>"

definition fmt_border_right_background :: "color \<Rightarrow> format \<Rightarrow> format" where
  "fmt_border_right_background v f = f\<lparr>fm_border_right := (fm_border_right f)\<lparr>b_background := Some v\<rparr>\<rparr>"

definition fmt_border_top :: "string \<Rightarrow> format \<Rightarrow> format" where
  "fmt_border_top v f = f\<lparr>fm_border_top := (fm_border_top f)\<lparr>b_text := Some v\<rparr>\<rparr>"

definition fmt_border_top_color :: "color \<Rightarrow> format \<Rightarrow> format" where
  "fmt_border_top_color v f = f\<lparr>fm_border_top := (fm_border_top f)\<lparr>b_color := Some v\<rparr>\<rparr>"

definition fmt_border_top_background :: "color \<Rightarrow> format \<Rightarrow> format" where
  "fmt_border_top_background v f = f\<lparr>fm_border_top := (fm_border_top f)\<lparr>b_background := Some v\<rparr>\<rparr>"

definition fmt_border_bottom :: "string \<Rightarrow> format \<Rightarrow> format" where
  "fmt_border_bottom v f = f\<lparr>fm_border_bottom := (fm_border_bottom f)\<lparr>b_text := Some v\<rparr>\<rparr>"

definition fmt_border_bottom_color :: "color \<Rightarrow> format \<Rightarrow> format" where
  "fmt_border_bottom_color v f = f\<lparr>fm_border_bottom := (fm_border_bottom f)\<lparr>b_color := Some v\<rparr>\<rparr>"

definition fmt_border_bottom_background :: "color \<Rightarrow> format \<Rightarrow> format" where
  "fmt_border_bottom_background v f = f\<lparr>fm_border_bottom := (fm_border_bottom f)\<lparr>b_background := Some v\<rparr>\<rparr>"

definition fmt_show_border_top :: "format \<Rightarrow> format" where
  "fmt_show_border_top f = f\<lparr>fm_border_top := (fm_border_top f)\<lparr>b_show := Some True\<rparr>\<rparr>"

definition fmt_hide_border_top :: "format \<Rightarrow> format" where
  "fmt_hide_border_top f = f\<lparr>fm_border_top := (fm_border_top f)\<lparr>b_show := Some False\<rparr>\<rparr>"

definition fmt_show_border_bottom :: "format \<Rightarrow> format" where
  "fmt_show_border_bottom f = f\<lparr>fm_border_bottom := (fm_border_bottom f)\<lparr>b_show := Some True\<rparr>\<rparr>"

definition fmt_hide_border_bottom :: "format \<Rightarrow> format" where
  "fmt_hide_border_bottom f = f\<lparr>fm_border_bottom := (fm_border_bottom f)\<lparr>b_show := Some False\<rparr>\<rparr>"

definition fmt_show_border_left :: "format \<Rightarrow> format" where
  "fmt_show_border_left f = f\<lparr>fm_border_left := (fm_border_left f)\<lparr>b_show := Some True\<rparr>\<rparr>"

definition fmt_hide_border_left :: "format \<Rightarrow> format" where
  "fmt_hide_border_left f = f\<lparr>fm_border_left := (fm_border_left f)\<lparr>b_show := Some False\<rparr>\<rparr>"

definition fmt_show_border_right :: "format \<Rightarrow> format" where
  "fmt_show_border_right f = f\<lparr>fm_border_right := (fm_border_right f)\<lparr>b_show := Some True\<rparr>\<rparr>"

definition fmt_hide_border_right :: "format \<Rightarrow> format" where
  "fmt_hide_border_right f = f\<lparr>fm_border_right := (fm_border_right f)\<lparr>b_show := Some False\<rparr>\<rparr>"

definition fmt_corner_top_left :: "string \<Rightarrow> format \<Rightarrow> format" where
  "fmt_corner_top_left v f = f\<lparr>fm_corner_top_left := (fm_corner_top_left f)\<lparr>m_text := Some v\<rparr>\<rparr>"

definition fmt_corner_top_left_color :: "color \<Rightarrow> format \<Rightarrow> format" where
  "fmt_corner_top_left_color v f = f\<lparr>fm_corner_top_left := (fm_corner_top_left f)\<lparr>m_color := Some v\<rparr>\<rparr>"

definition fmt_corner_top_left_background :: "color \<Rightarrow> format \<Rightarrow> format" where
  "fmt_corner_top_left_background v f = f\<lparr>fm_corner_top_left := (fm_corner_top_left f)\<lparr>m_background := Some v\<rparr>\<rparr>"

definition fmt_corner_top_right :: "string \<Rightarrow> format \<Rightarrow> format" where
  "fmt_corner_top_right v f = f\<lparr>fm_corner_top_right := (fm_corner_top_right f)\<lparr>m_text := Some v\<rparr>\<rparr>"

definition fmt_corner_top_right_color :: "color \<Rightarrow> format \<Rightarrow> format" where
  "fmt_corner_top_right_color v f = f\<lparr>fm_corner_top_right := (fm_corner_top_right f)\<lparr>m_color := Some v\<rparr>\<rparr>"

definition fmt_corner_top_right_background :: "color \<Rightarrow> format \<Rightarrow> format" where
  "fmt_corner_top_right_background v f = f\<lparr>fm_corner_top_right := (fm_corner_top_right f)\<lparr>m_background := Some v\<rparr>\<rparr>"

definition fmt_corner_bottom_left :: "string \<Rightarrow> format \<Rightarrow> format" where
  "fmt_corner_bottom_left v f = f\<lparr>fm_corner_bottom_left := (fm_corner_bottom_left f)\<lparr>m_text := Some v\<rparr>\<rparr>"

definition fmt_corner_bottom_left_color :: "color \<Rightarrow> format \<Rightarrow> format" where
  "fmt_corner_bottom_left_color v f = f\<lparr>fm_corner_bottom_left := (fm_corner_bottom_left f)\<lparr>m_color := Some v\<rparr>\<rparr>"

definition fmt_corner_bottom_left_background :: "color \<Rightarrow> format \<Rightarrow> format" where
  "fmt_corner_bottom_left_background v f = f\<lparr>fm_corner_bottom_left := (fm_corner_bottom_left f)\<lparr>m_background := Some v\<rparr>\<rparr>"

definition fmt_corner_bottom_right :: "string \<Rightarrow> format \<Rightarrow> format" where
  "fmt_corner_bottom_right v f = f\<lparr>fm_corner_bottom_right := (fm_corner_bottom_right f)\<lparr>m_text := Some v\<rparr>\<rparr>"

definition fmt_corner_bottom_right_color :: "color \<Rightarrow> format \<Rightarrow> format" where
  "fmt_corner_bottom_right_color v f = f\<lparr>fm_corner_bottom_right := (fm_corner_bottom_right f)\<lparr>m_color := Some v\<rparr>\<rparr>"

definition fmt_corner_bottom_right_background :: "color \<Rightarrow> format \<Rightarrow> format" where
  "fmt_corner_bottom_right_background v f = f\<lparr>fm_corner_bottom_right := (fm_corner_bottom_right f)\<lparr>m_background := Some v\<rparr>\<rparr>"

definition fmt_column_separator :: "string \<Rightarrow> format \<Rightarrow> format" where
  "fmt_column_separator v f = f\<lparr>fm_column_separator := (fm_column_separator f)\<lparr>m_text := Some v\<rparr>\<rparr>"

definition fmt_column_separator_color :: "color \<Rightarrow> format \<Rightarrow> format" where
  "fmt_column_separator_color v f = f\<lparr>fm_column_separator := (fm_column_separator f)\<lparr>m_color := Some v\<rparr>\<rparr>"

definition fmt_column_separator_background :: "color \<Rightarrow> format \<Rightarrow> format" where
  "fmt_column_separator_background v f = f\<lparr>fm_column_separator := (fm_column_separator f)\<lparr>m_background := Some v\<rparr>\<rparr>"

definition fmt_font_align :: "font_align \<Rightarrow> format \<Rightarrow> format" where
  "fmt_font_align v f = f\<lparr>fm_font_align := Some v\<rparr>"

definition fmt_font_color :: "color \<Rightarrow> format \<Rightarrow> format" where
  "fmt_font_color v f = f\<lparr>fm_font_color := Some v\<rparr>"

definition fmt_font_background :: "color \<Rightarrow> format \<Rightarrow> format" where
  "fmt_font_background v f = f\<lparr>fm_font_background := Some v\<rparr>"

definition fmt_multi_byte :: "bool \<Rightarrow> format \<Rightarrow> format" where
  "fmt_multi_byte v f = f\<lparr>fm_multi_byte := Some v\<rparr>"

definition fmt_locale :: "string \<Rightarrow> format \<Rightarrow> format" where
  "fmt_locale v f = f\<lparr>fm_locale := Some v\<rparr>"

section \<open>Setters of several options\<close>

definition fmt_padding :: "nat \<Rightarrow> format \<Rightarrow> format" where
  "fmt_padding v f = fmt_padding_bottom v (fmt_padding_top v (fmt_padding_right v (fmt_padding_left v f)))"

definition fmt_border :: "string \<Rightarrow> format \<Rightarrow> format" where
  "fmt_border v f = fmt_border_bottom v (fmt_border_top v (fmt_border_right v (fmt_border_left v f)))"

definition fmt_border_color :: "color \<Rightarrow> format \<Rightarrow> format" where
  "fmt_border_color v f = fmt_border_bottom_color v (fmt_border_top_color v (fmt_border_right_color v (fmt_border_left_color v f)))"

definition fmt_border_background :: "color \<Rightarrow> format \<Rightarrow> format" where
  "fmt_border_background v f = fmt_border_bottom_background v (fmt_border_top_background v (fmt_border_right_background v (fmt_border_left_background v f)))"

definition fmt_show_border :: "format \<Rightarrow> format" where
  "fmt_show_border f = fmt_show_border_right (fmt_show_border_left (fmt_show_border_bottom (fmt_show_border_top f)))"

definition fmt_hide_border :: "format \<Rightarrow> format" where
  "fmt_hide_border f = fmt_hide_border_right (fmt_hide_border_left (fmt_hide_border_bottom (fmt_hide_border_top f)))"

definition fmt_corner :: "string \<Rightarrow> format \<Rightarrow> format" where
  "fmt_corner v f = fmt_corner_bottom_right v (fmt_corner_bottom_left v (fmt_corner_top_right v (fmt_corner_top_left v f)))"

definition fmt_corner_color :: "color \<Rightarrow> format \<Rightarrow> format" where
  "fmt_corner_color v f = fmt_corner_bottom_right_color v (fmt_corner_bottom_left_color v (fmt_corner_top_right_color v (fmt_corner_top_left_color v f)))"

definition fmt_corner_background :: "color \<Rightarrow> format \<Rightarrow> format" where
  "fmt_corner_background v f = fmt_corner_bottom_right_background v (fmt_corner_bottom_left_background v (fmt_corner_top_right_background v (fmt_corner_top_left_background v f)))"

definition fmt_font_style :: "font_style list \<Rightarrow> format \<Rightarrow> format" where
  "fmt_font_style style f = (case fm_font_style f of
       Some s \<Rightarrow> f\<lparr>fm_font_style := Some (s @ style)\<rparr>
     | None \<Rightarrow> f\<lparr>fm_font_style := Some style\<rparr>)"

definition fmt_color :: "color \<Rightarrow> format \<Rightarrow> format" where
  "fmt_color v f = fmt_corner_color v (fmt_border_color v (fmt_font_color v f))"

definition fmt_background :: "color \<Rightarrow> format \<Rightarrow> format" where
  "fmt_background v f = fmt_corner_background v (fmt_border_background v (fmt_font_background v f))"

section \<open>The interface of an option\<close>

locale format_option =
  fixes get :: "format \<Rightarrow> 'v option" and upd :: "'v \<Rightarrow> format \<Rightarrow> format"
  assumes get_set: "get (upd v f) = Some v"
    and get_merge: "merge_format f g = Inr h \<Longrightarrow> get h = or_else (get f) (get g)"
begin

lemma first_wins: "merge_format (upd v f) g = Inr h \<Longrightarrow> get h = Some v"
  using get_merge get_set by (simp add: or_else_def)

lemma second_shows: "get f = None \<Longrightarrow> merge_format f (upd v g) = Inr h \<Longrightarrow> get h = Some v"
  using get_merge get_set by (simp add: or_else_def)

text \<open>A stored format keeps its settings when it is merged again.\<close>

lemma merged_again: "merge_format f g = Inr h \<Longrightarrow> merge_format h g' = Inr h' \<Longrightarrow> get f = Some v \<Longrightarrow> get h' = Some v"
  using get_merge [of f g h] get_merge [of h g' h'] by (simp add: or_else_def)

end

lemma format_optionI:
  "(\<And>v f. get (upd v f) = Some v) \<Longrightarrow> (\<And>f g h. merge_format f g = Inr h \<Longrightarrow> get h = or_else (get f) (get g)) \<Longrightarrow>
   format_option get upd"
  by unfold_locales

lemma merged:
  assumes "merge_format f g = Inr h"
  shows "fm_width h = or_else (fm_width f) (fm_width g)" "fm_height h = or_else (fm_height f) (fm_height g)"
    "fm_font_align h = or_else (fm_font_align f) (fm_font_align g)"
    "fm_font_color h = or_else (fm_font_color f) (fm_font_color g)"
    "fm_font_background h = or_else (fm_font_background f) (fm_font_background g)"
    "fm_padding_left h = or_else (fm_padding_left f) (fm_padding_left g)"
    "fm_padding_top h = or_else (fm_padding_top f) (fm_padding_top g)"
    "fm_padding_right h = or_else (fm_padding_right f) (fm_padding_right g)"
    "fm_padding_bottom h = or_else (fm_padding_bottom f) (fm_padding_bottom g)"
    "fm_border_top h = merge_border (fm_border_top f) (fm_border_top g)"
    "fm_border_bottom h = merge_border (fm_border_bottom f) (fm_border_bottom g)"
    "fm_border_left h = merge_border (fm_border_left f) (fm_border_left g)"
    "fm_border_right h = merge_border (fm_border_right f) (fm_border_right g)"
    "fm_corner_top_left h = merge_mark (fm_corner_top_left f) (fm_corner_top_left g)"
    "fm_corner_top_right h = merge_mark (fm_corner_top_right f) (fm_corner_top_right g)"
    "fm_corner_bottom_left h = merge_mark (fm_corner_bottom_left f) (fm_corner_bottom_left g)"
    "fm_corner_bottom_right h = merge_mark (fm_corner_bottom_right f) (fm_corner_bottom_right g)"
    "fm_column_separator h = merge_mark (fm_column_separator f) (fm_column_separator g)"
    "fm_multi_byte h = or_else (fm_multi_byte f) (fm_multi_byte g)" "fm_locale h = or_else (fm_locale f) (fm_locale g)"
  using assms
  by (auto simp: merge_format_def merge_font_def merge_padding_def merge_borders_def merge_corners_def format_new_def Let_def
      res_simps)

lemma merged_sides [simp]:
  "b_text (merge_border x y) = or_else (b_text x) (b_text y)" "b_color (merge_border x y) = or_else (b_color x) (b_color y)"
  "b_background (merge_border x y) = or_else (b_background x) (b_background y)"
  "b_show (merge_border x y) = or_else (b_show x) (b_show y)"
  "m_text (merge_mark u w) = or_else (m_text u) (m_text w)" "m_color (merge_mark u w) = or_else (m_color u) (m_color w)"
  "m_background (merge_mark u w) = or_else (m_background u) (m_background w)"
  by (simp_all add: merge_border_def merge_mark_def)

interpretation opt_width: format_option "fm_width" fmt_width
  by (rule format_optionI) (simp_all add: fmt_width_def merged)

interpretation opt_height: format_option "fm_height" fmt_height
  by (rule format_optionI) (simp_all add: fmt_height_def merged)

interpretation opt_padding_left: format_option "fm_padding_left" fmt_padding_left
  by (rule format_optionI) (simp_all add: fmt_padding_left_def merged)

interpretation opt_padding_right: format_option "fm_padding_right" fmt_padding_right
  by (rule format_optionI) (simp_all add: fmt_padding_right_def merged)

interpretation opt_padding_top: format_option "fm_padding_top" fmt_padding_top
  by (rule format_optionI) (simp_all add: fmt_padding_top_def merged)

interpretation opt_padding_bottom: format_option "fm_padding_bottom" fmt_padding_bottom
  by (rule format_optionI) (simp_all add: fmt_padding_bottom_def merged)

interpretation opt_border_left: format_option "\<lambda>f. b_text (fm_border_left f)" fmt_border_left
  by (rule format_optionI) (simp_all add: fmt_border_left_def merged)

interpretation opt_border_left_color: format_option "\<lambda>f. b_color (fm_border_left f)" fmt_border_left_color
  by (rule format_optionI) (simp_all add: fmt_border_left_color_def merged)

interpretation opt_border_left_background: format_option "\<lambda>f. b_background (fm_border_left f)" fmt_border_left_background
  by (rule format_optionI) (simp_all add: fmt_border_left_background_def merged)

interpretation opt_border_right: format_option "\<lambda>f. b_text (fm_border_right f)" fmt_border_right
  by (rule format_optionI) (simp_all add: fmt_border_right_def merged)

interpretation opt_border_right_color: format_option "\<lambda>f. b_color (fm_border_right f)" fmt_border_right_color
  by (rule format_optionI) (simp_all add: fmt_border_right_color_def merged)

interpretation opt_border_right_background: format_option "\<lambda>f. b_background (fm_border_right f)" fmt_border_right_background
  by (rule format_optionI) (simp_all add: fmt_border_right_background_def merged)

interpretation opt_border_top: format_option "\<lambda>f. b_text (fm_border_top f)" fmt_border_top
  by (rule format_optionI) (simp_all add: fmt_border_top_def merged)

interpretation opt_border_top_color: format_option "\<lambda>f. b_color (fm_border_top f)" fmt_border_top_color
  by (rule format_optionI) (simp_all add: fmt_border_top_color_def merged)

interpretation opt_border_top_background: format_option "\<lambda>f. b_background (fm_border_top f)" fmt_border_top_background
  by (rule format_optionI) (simp_all add: fmt_border_top_background_def merged)

interpretation opt_border_bottom: format_option "\<lambda>f. b_text (fm_border_bottom f)" fmt_border_bottom
  by (rule format_optionI) (simp_all add: fmt_border_bottom_def merged)

interpretation opt_border_bottom_color: format_option "\<lambda>f. b_color (fm_border_bottom f)" fmt_border_bottom_color
  by (rule format_optionI) (simp_all add: fmt_border_bottom_color_def merged)

interpretation opt_border_bottom_background: format_option "\<lambda>f. b_background (fm_border_bottom f)" fmt_border_bottom_background
  by (rule format_optionI) (simp_all add: fmt_border_bottom_background_def merged)

interpretation opt_corner_top_left: format_option "\<lambda>f. m_text (fm_corner_top_left f)" fmt_corner_top_left
  by (rule format_optionI) (simp_all add: fmt_corner_top_left_def merged)

interpretation opt_corner_top_left_color: format_option "\<lambda>f. m_color (fm_corner_top_left f)" fmt_corner_top_left_color
  by (rule format_optionI) (simp_all add: fmt_corner_top_left_color_def merged)

interpretation opt_corner_top_left_background: format_option "\<lambda>f. m_background (fm_corner_top_left f)" fmt_corner_top_left_background
  by (rule format_optionI) (simp_all add: fmt_corner_top_left_background_def merged)

interpretation opt_corner_top_right: format_option "\<lambda>f. m_text (fm_corner_top_right f)" fmt_corner_top_right
  by (rule format_optionI) (simp_all add: fmt_corner_top_right_def merged)

interpretation opt_corner_top_right_color: format_option "\<lambda>f. m_color (fm_corner_top_right f)" fmt_corner_top_right_color
  by (rule format_optionI) (simp_all add: fmt_corner_top_right_color_def merged)

interpretation opt_corner_top_right_background: format_option "\<lambda>f. m_background (fm_corner_top_right f)" fmt_corner_top_right_background
  by (rule format_optionI) (simp_all add: fmt_corner_top_right_background_def merged)

interpretation opt_corner_bottom_left: format_option "\<lambda>f. m_text (fm_corner_bottom_left f)" fmt_corner_bottom_left
  by (rule format_optionI) (simp_all add: fmt_corner_bottom_left_def merged)

interpretation opt_corner_bottom_left_color: format_option "\<lambda>f. m_color (fm_corner_bottom_left f)" fmt_corner_bottom_left_color
  by (rule format_optionI) (simp_all add: fmt_corner_bottom_left_color_def merged)

interpretation opt_corner_bottom_left_background: format_option "\<lambda>f. m_background (fm_corner_bottom_left f)" fmt_corner_bottom_left_background
  by (rule format_optionI) (simp_all add: fmt_corner_bottom_left_background_def merged)

interpretation opt_corner_bottom_right: format_option "\<lambda>f. m_text (fm_corner_bottom_right f)" fmt_corner_bottom_right
  by (rule format_optionI) (simp_all add: fmt_corner_bottom_right_def merged)

interpretation opt_corner_bottom_right_color: format_option "\<lambda>f. m_color (fm_corner_bottom_right f)" fmt_corner_bottom_right_color
  by (rule format_optionI) (simp_all add: fmt_corner_bottom_right_color_def merged)

interpretation opt_corner_bottom_right_background: format_option "\<lambda>f. m_background (fm_corner_bottom_right f)" fmt_corner_bottom_right_background
  by (rule format_optionI) (simp_all add: fmt_corner_bottom_right_background_def merged)

interpretation opt_column_separator: format_option "\<lambda>f. m_text (fm_column_separator f)" fmt_column_separator
  by (rule format_optionI) (simp_all add: fmt_column_separator_def merged)

interpretation opt_column_separator_color: format_option "\<lambda>f. m_color (fm_column_separator f)" fmt_column_separator_color
  by (rule format_optionI) (simp_all add: fmt_column_separator_color_def merged)

interpretation opt_column_separator_background: format_option "\<lambda>f. m_background (fm_column_separator f)" fmt_column_separator_background
  by (rule format_optionI) (simp_all add: fmt_column_separator_background_def merged)

interpretation opt_font_align: format_option "fm_font_align" fmt_font_align
  by (rule format_optionI) (simp_all add: fmt_font_align_def merged)

interpretation opt_font_color: format_option "fm_font_color" fmt_font_color
  by (rule format_optionI) (simp_all add: fmt_font_color_def merged)

interpretation opt_font_background: format_option "fm_font_background" fmt_font_background
  by (rule format_optionI) (simp_all add: fmt_font_background_def merged)

interpretation opt_multi_byte: format_option "fm_multi_byte" fmt_multi_byte
  by (rule format_optionI) (simp_all add: fmt_multi_byte_def merged)

interpretation opt_locale: format_option "fm_locale" fmt_locale
  by (rule format_optionI) (simp_all add: fmt_locale_def merged)

section \<open>Styled cells, rows and tables\<close>

text \<open>A setter is applied to the format that \<open>format()\<close> stores and returns a reference to.\<close>

definition style_cell :: "nat \<Rightarrow> nat \<Rightarrow> (format \<Rightarrow> format) \<Rightarrow> unit pop" where
  "style_cell i j g =
     after (cell_format i j) (\<lambda>f. after (cell_at i j) (\<lambda>c. set_cell i j (c\<lparr>tc_format := Some (g f)\<rparr>)))"

definition style_row :: "nat \<Rightarrow> (format \<Rightarrow> format) \<Rightarrow> unit pop" where
  "style_row i g =
     after (row_format i) (\<lambda>f. after (row_at i) (\<lambda>row. set_row i (row\<lparr>tr_format := Some (g f)\<rparr>)))"

definition style_table :: "(format \<Rightarrow> format) \<Rightarrow> unit pop" where
  "style_table g st = Inr ((), st\<lparr>pr_table := (pr_table st)\<lparr>tt_format := g (tt_format (pr_table st))\<rparr>\<rparr>)"

section \<open>Styles of the font\<close>

text \<open>
  The vector that two lists of styles are merged into is as long as both together; what the union does
  not fill stays value-initialised, which is bold. So a format that is merged with one of the same styles
  gets as many bolds behind them.
\<close>

lemma set_union_same: "set_union ss ss = ss"
  by (induction ss) simp_all

lemma merge_same_adds_bold:
  assumes "fm_font_style f = Some ss" "fm_font_style g = Some ss" "merge_format f g = Inr h"
  shows "fm_font_style h = Some (ss @ replicate (length ss) Bold)"
  using assms
  by (auto simp: merge_format_def merge_font_def merge_styles_def set_union_same font_style_zero_def Let_def merge_padding_def
      merge_borders_def merge_corners_def res_simps)

text \<open>An underlined row: the second time a cell is asked for its format, it answers that it is bold too.\<close>

lemma underlined_row_is_bold:
  "map_sum id (\<lambda>(f, st). fm_font_style f)
     (andthen (table_add_row (\<lambda>_. Some (\<lambda>_. 0)) [Row_String ''x''] table_new) (\<lambda>t.
      after (style_row 0 (fmt_font_style [Underline])) (\<lambda>_. after (cell_format 0 0) (\<lambda>_. cell_format 0 0))
        \<lparr>pr_table = tb_table t, pr_stream = std_out True\<rparr>)) =
   Inr (Some [Underline, Bold])"
  by code_simp

end
