(* ===== verification/Table_Text.thy ===== *)
theory Table_Text
  imports Table_Format Command
begin

text \<open>
  What the text routines of \<open>Table_Format\<close> do: splitting at line breaks gives the lines of the text,
  wrapping a text that fits changes nothing, and a wrapped text fits.
\<close>

section \<open>Lines\<close>

lemma find_newline: "find_here [CHR 0x0A] s = (if CHR 0x0A \<in> set s then Some (length (takeWhile (\<lambda>c. c \<noteq> CHR 0x0A) s)) else None)"
  by (induction s) auto

lemma string_find_newline:
  "string_find s [CHR 0x0A] 0 = (if CHR 0x0A \<in> set s then Some (length (takeWhile (\<lambda>c. c \<noteq> CHR 0x0A) s)) else None)"
  by (simp add: string_find_def find_newline option.map_id0 [unfolded id_def])

lemma newline_line: "CHR 0x0A \<notin> set s \<Longrightarrow> takeWhile (\<lambda>c. c \<noteq> CHR 0x0A) s = s"
  by (auto simp: takeWhile_eq_all_conv)

lemma newline_split_shorter:
  "CHR 0x0A \<in> set s \<Longrightarrow> length (takeWhile (\<lambda>c. c \<noteq> CHR 0x0A) s) < length s"
  by (metis (mono_tags, lifting) le_neq_implies_less length_takeWhile_le takeWhile_eq_take take_all_iff nat_less_le set_takeWhileD takeWhile_eq_take)

lemma split_loop_lines:
  "length input < n \<Longrightarrow>
   \<exists>rest ls. split_loop n [CHR 0x0A] input result = Inr (rest, result @ ls) \<and>
     getlines input = (if rest = [] then ls else ls @ [rest]) \<and> CHR 0x0A \<notin> set rest"
proof (induction n arbitrary: input result)
  case (Suc n)
  let ?w = "takeWhile (\<lambda>c. c \<noteq> CHR 0x0A) input"
  show ?case
  proof (cases "CHR 0x0A \<in> set input")
    case True
    let ?rest = "drop (length ?w + 1) input"
    from newline_split_shorter [OF True] Suc.prems have "length ?rest < n" by auto
    from Suc.IH [OF this, of "result @ [?w]"] obtain rest ls where
      "split_loop n [CHR 0x0A] ?rest (result @ [?w]) = Inr (rest, (result @ [?w]) @ ls)"
      "getlines ?rest = (if rest = [] then ls else ls @ [rest])" "CHR 0x0A \<notin> set rest" by blast
    moreover have "getlines input = ?w # getlines ?rest" using True by (subst getlines.simps) auto
    moreover have "take (length ?w) input = ?w" by (simp add: takeWhile_eq_take [symmetric])
    ultimately show ?thesis using True
      by (intro exI [of _ rest] exI [of _ "?w # ls"]) (simp add: string_find_newline)
  next
    case False
    then have "getlines input = (if input = [] then [] else [input])"
      by (subst getlines.simps) (simp add: newline_line getlines.simps)
    with False show ?thesis
      by (intro exI [of _ input] exI [of _ "[]"]) (simp add: string_find_newline)
  qed
qed simp

lemma split_lines_newline: "split_lines wcs s [CHR 0x0A] l False = Inr (getlines s)"
proof -
  from split_loop_lines [of s "length s + 1" "[]"] obtain rest ls where
    "split_loop (length s + 1) [CHR 0x0A] s [] = Inr (rest, ls)"
    "getlines s = (if rest = [] then ls else ls @ [rest])" by auto
  then show ?thesis by (simp add: split_lines_def)
qed

lemma getlines_no_newline: "CHR 0x0A \<notin> set s \<Longrightarrow> getlines s = (if s = [] then [] else [s])"
  by (subst getlines.simps) (simp add: newline_line getlines.simps)

lemma getlines_break: "CHR 0x0A \<notin> set w \<Longrightarrow> getlines (w @ CHR 0x0A # r) = w # getlines r"
proof -
  assume "CHR 0x0A \<notin> set w"
  then have "takeWhile (\<lambda>c. c \<noteq> CHR 0x0A) (w @ CHR 0x0A # r) = w" by (induction w) auto
  then show ?thesis by (subst getlines.simps) simp
qed

text \<open>Induction over the lines of a text.\<close>

lemma lines_induct [case_names Line Break]:
  assumes "\<And>s. CHR 0x0A \<notin> set s \<Longrightarrow> P s" and "\<And>w r. CHR 0x0A \<notin> set w \<Longrightarrow> P r \<Longrightarrow> P (w @ CHR 0x0A # r)"
  shows "P s"
proof (induction "length s" arbitrary: s rule: less_induct)
  case less
  show ?case
  proof (cases "CHR 0x0A \<in> set s")
    case True
    then obtain w r where "s = w @ CHR 0x0A # r" "CHR 0x0A \<notin> set w" by (meson split_list_first)
    with less assms(2) show ?thesis by simp
  qed (rule assms(1))
qed

lemma getlines_plain: "l \<in> set (getlines s) \<Longrightarrow> CHR 0x0A \<notin> set l \<and> length l \<le> length s"
  by (induction s rule: lines_induct) (auto simp: getlines_no_newline getlines_break split: if_splits)

text \<open>The number of lines, counted as the code counts it.\<close>

lemma length_getlines:
  "length (getlines s) = length (filter (\<lambda>c. c = CHR 0x0A) s) + (if s \<noteq> [] \<and> last s \<noteq> CHR 0x0A then 1 else 0)"
proof (induction s rule: lines_induct)
  case (Line s)
  then have "filter (\<lambda>c. c = CHR 0x0A) s = []" "s \<noteq> [] \<Longrightarrow> last s \<noteq> CHR 0x0A" by (auto simp: filter_empty_conv dest: last_in_set)
  with Line show ?case by (simp add: getlines_no_newline)
next
  case (Break w r)
  then have "filter (\<lambda>c. c = CHR 0x0A) w = []" by (auto simp: filter_empty_conv)
  with Break show ?case by (simp add: getlines_break)
qed

section \<open>Words\<close>

text \<open>The separators are single characters, and the words put together are the text.\<close>

lemma explode_from_concat:
  "list_all (\<lambda>c. length c = 1) cs \<Longrightarrow> start \<le> length input \<Longrightarrow>
   \<exists>ws. explode_from input cs start = Inr ws \<and> concat ws = drop start input"
proof (induction input cs start rule: explode_from.induct)
  case (1 input cs start)
  show ?case
  proof (cases "index_of_any input start cs")
    case None
    with 1 show ?thesis by (subst explode_from.simps) (simp add: string_from_def)
  next
    case (Some index)
    from index_of_any_bound [OF this] 1(2) string_find_bound have b: "start \<le> index" "index < length input"
      by (fastforce simp: list_all_iff)+
    from 1(1) [OF Some refl refl 1(2)] b obtain ws where
      ws: "explode_from input cs (index + 1) = Inr ws" "concat ws = drop (index + 1) input" by auto
    have "drop start input = take (index - start) (drop start input) @ input ! index # drop (index + 1) input"
      using b by (metis Suc_eq_plus1 append_take_drop_id Cons_nth_drop_Suc drop_drop le_add_diff_inverse2)
    with Some ws b show ?thesis by (subst explode_from.simps) (simp add: Let_def)
  qed
qed

lemma explode_words: "\<exists>ws. explode_string s ['' '', ''-'', [CHR 0x09]] = Inr ws \<and> concat ws = s"
  using explode_from_concat [of "['' '', ''-'', [CHR 0x09]]" 0 s] by (simp add: explode_string_def)

section \<open>Texts that fit\<close>

lemma wrap_steps_fit:
  "cur + length (concat ws) \<le> width \<Longrightarrow>
   each (wrap_step wcs width l False) ws (cur, result) = Inr (cur + length (concat ws), result @ concat ws)"
  by (induction ws arbitrary: cur result) (simp_all add: wrap_step_def)

lemma word_wrap_fits: "length s \<le> width \<Longrightarrow> word_wrap wcs s width l False = Inr s"
proof -
  assume a: "length s \<le> width"
  obtain ws where "explode_string s ['' '', ''-'', [CHR 0x09]] = Inr ws" "concat ws = s" using explode_words by blast
  with wrap_steps_fit [of 0 ws width wcs l "[]"] a show ?thesis by (simp add: word_wrap_def)
qed

section \<open>Wrapped texts\<close>

text \<open>Complete lines, none longer than the width; and the characters that wrapping must not touch.\<close>

definition lines_fit :: "nat \<Rightarrow> string \<Rightarrow> bool" where
  "lines_fit width p \<longleftrightarrow> (p = [] \<or> last p = CHR 0x0A) \<and> (\<forall>l \<in> set (getlines p). length l \<le> width)"

definition solid :: "string \<Rightarrow> string" where
  "solid s = filter (\<lambda>c. \<not> is_space c \<and> c \<noteq> CHR ''-'') s"

lemma solid_simps [simp]:
  "solid [] = []" "solid (s @ t) = solid s @ solid t" "solid [CHR 0x0A] = []" "solid (CHR ''-'' # s) = solid s"
  "solid (CHR 0x0A # s) = solid s"
  by (simp_all add: solid_def is_space_def)

lemma solid_trim_left [simp]: "solid (trim_left s) = solid s"
  by (induction s) (simp_all add: solid_def trim_left_def)

lemma getlines_append: "p = [] \<or> last p = CHR 0x0A \<Longrightarrow> getlines (p @ q) = getlines p @ getlines q"
proof (induction p rule: lines_induct)
  case (Line p)
  then show ?case by (cases "p = []") (auto simp: getlines_no_newline dest: last_in_set)
next
  case (Break w r)
  then show ?case by (cases "r = []") (simp_all add: getlines_break getlines_no_newline)
qed

lemma lines_fit_line:
  "lines_fit width p \<Longrightarrow> CHR 0x0A \<notin> set q \<Longrightarrow> length q \<le> width \<Longrightarrow> lines_fit width (p @ q @ [CHR 0x0A])"
  using getlines_break [of q "[]"] by (auto simp: lines_fit_def getlines_append getlines_no_newline)

lemma break_word_fits:
  "2 \<le> width \<Longrightarrow> width < 2 ^ 64 \<Longrightarrow> lines_fit width p \<Longrightarrow> CHR 0x0A \<notin> set word \<Longrightarrow> length word < n \<Longrightarrow>
   \<exists>word' p'. break_word n wcs width l False word p = Inr (word', p') \<and> lines_fit width p' \<and>
     length word' \<le> width \<and> CHR 0x0A \<notin> set word' \<and> solid p' @ solid word' = solid p @ solid word"
proof (induction n arbitrary: word p)
  case (Suc n)
  show ?case
  proof (cases "length word > width")
    case True
    from Suc.prems have w: "minus_size width 1 = width - 1" by (simp add: minus_size_small)
    let ?p = "p @ (take (width - 1) word @ ''-'') @ [CHR 0x0A]"
    have "lines_fit width ?p"
      using Suc.prems True by (intro lines_fit_line) (auto dest: in_set_takeD)
    moreover have "length (drop (width - 1) word) < n" using Suc.prems True by simp
    moreover have "CHR 0x0A \<notin> set (drop (width - 1) word)" using Suc.prems by (auto dest: in_set_dropD)
    ultimately obtain word' p' where
      "break_word n wcs width l False (drop (width - 1) word) ?p = Inr (word', p')"
      "lines_fit width p'" "length word' \<le> width" "CHR 0x0A \<notin> set word'"
      "solid p' @ solid word' = solid ?p @ solid (drop (width - 1) word)"
      using Suc.IH [of ?p "drop (width - 1) word"] Suc.prems by blast
    moreover have "solid (take (width - 1) word) @ solid (drop (width - 1) word) = solid word"
      by (metis append_take_drop_id solid_simps(2))
    ultimately show ?thesis using True w by (simp add: string_from_def)
  qed (use Suc.prems in simp)
qed simp

lemma wrap_step_fits:
  assumes "2 \<le> width" "width < 2 ^ 64" "lines_fit width p" "CHR 0x0A \<notin> set q" "length q \<le> width" "CHR 0x0A \<notin> set word"
  shows "\<exists>p' q'. wrap_step wcs width l False word (length q, p @ q) = Inr (length q', p' @ q') \<and> lines_fit width p' \<and>
    CHR 0x0A \<notin> set q' \<and> length q' \<le> width \<and> solid p' @ solid q' = solid p @ solid q @ solid word"
proof (cases "length q + length word \<le> width")
  case True
  with assms show ?thesis
    by (intro exI [of _ p] exI [of _ "q @ word"]) (simp add: wrap_step_def)
next
  case False
  let ?p = "if q = [] then p else p @ q @ [CHR 0x0A]"
  have "lines_fit width ?p" using assms lines_fit_line [of width p q] by simp
  from break_word_fits [OF assms(1,2) this assms(6), where n = "length word + 1" and wcs = wcs and l = l] obtain word' p' where
    b: "break_word (length word + 1) wcs width l False word ?p = Inr (word', p')" "lines_fit width p'"
      "length word' \<le> width" "CHR 0x0A \<notin> set word'" "solid p' @ solid word' = solid ?p @ solid word" by (auto simp del: break_word.simps)
  have t: "length (trim_left word') \<le> width" "CHR 0x0A \<notin> set (trim_left word')"
    using b(3,4) length_dropWhile_le [of is_space word'] by (auto simp: trim_left_def dest: set_dropWhileD)
  from False b(1) have "wrap_step wcs width l False word (length q, p @ q) = Inr (length (trim_left word'), p' @ trim_left word')"
    by (cases "q = []") (simp_all add: wrap_step_def del: break_word.simps)
  with b t show ?thesis by (intro exI [of _ p'] exI [of _ "trim_left word'"]) auto
qed

lemma wrap_steps_lines:
  "2 \<le> width \<Longrightarrow> width < 2 ^ 64 \<Longrightarrow> lines_fit width p \<Longrightarrow> CHR 0x0A \<notin> set q \<Longrightarrow> length q \<le> width \<Longrightarrow>
   CHR 0x0A \<notin> set (concat words) \<Longrightarrow>
   \<exists>p' q'. each (wrap_step wcs width l False) words (length q, p @ q) = Inr (length q', p' @ q') \<and> lines_fit width p' \<and>
     CHR 0x0A \<notin> set q' \<and> length q' \<le> width \<and> solid p' @ solid q' = solid p @ solid q @ solid (concat words)"
proof (induction words arbitrary: p q)
  case (Cons word words)
  from wrap_step_fits [OF Cons.prems(1-5), of word wcs l] Cons.prems(6) obtain p1 q1 where
    s: "wrap_step wcs width l False word (length q, p @ q) = Inr (length q1, p1 @ q1)" "lines_fit width p1"
      "CHR 0x0A \<notin> set q1" "length q1 \<le> width" "solid p1 @ solid q1 = solid p @ solid q @ solid word" by auto
  from Cons.IH [OF Cons.prems(1,2) s(2,3,4)] Cons.prems(6) obtain p' q' where
    "each (wrap_step wcs width l False) words (length q1, p1 @ q1) = Inr (length q', p' @ q')" "lines_fit width p'"
    "CHR 0x0A \<notin> set q'" "length q' \<le> width" "solid p' @ solid q' = solid p1 @ solid q1 @ solid (concat words)" by auto
  moreover from this(5) have "solid p' @ solid q' = solid p @ solid q @ solid (concat (word # words))"
    using s(5) by (metis append_assoc concat.simps(2) solid_simps(2))
  ultimately show ?case using s(1) by auto
qed fastforce

lemma word_wrap_lines:
  assumes "2 \<le> width" "width < 2 ^ 64" "CHR 0x0A \<notin> set s"
  shows "\<exists>r. word_wrap wcs s width l False = Inr r \<and> (\<forall>line \<in> set (getlines r). length line \<le> width) \<and> solid r = solid s"
proof -
  obtain ws where ws: "explode_string s ['' '', ''-'', [CHR 0x09]] = Inr ws" "concat ws = s" using explode_words by blast
  have "lines_fit width []" by (simp add: lines_fit_def getlines_no_newline)
  from wrap_steps_lines [OF assms(1,2) this, of "[]" ws wcs l] ws(2) assms(3) obtain p q where
    r: "each (wrap_step wcs width l False) ws (0, []) = Inr (length q, p @ q)" "lines_fit width p"
      "CHR 0x0A \<notin> set q" "length q \<le> width" "solid p @ solid q = solid s" by auto
  then have "\<forall>line \<in> set (getlines (p @ q)). length line \<le> width"
    by (auto simp: lines_fit_def getlines_append getlines_no_newline split: if_splits)
  with ws r show ?thesis by (intro exI [of _ "p @ q"]) (simp add: word_wrap_def)
qed

text \<open>On a width of 1 a word of two characters is broken for ever, on a width of 0 there is an exception.\<close>

lemma break_word_one: "1 < length word \<Longrightarrow> break_word n wcs 1 l False word result = Inl Out_Of_Fuel"
  by (induction n arbitrary: result) (simp_all add: string_from_def minus_size_def)

lemma break_word_zero:
  "word \<noteq> [] \<Longrightarrow> length word < 2 ^ 64 - 1 \<Longrightarrow> break_word (Suc n) wcs 0 l False word result = Inl Uncaught_Exception"
  by (simp add: string_from_def minus_size_def)

end
