(* ===== verification/Table_Drawing.thy ===== *)
theory Table_Drawing
  imports Table_Print Table_Text
begin

text \<open>
  What \<open>Printer::print_table\<close> draws for a table whose formats nobody has set: the drawing is specified
  line by line, and the printer, with all the formats it stores on the way, is shown to write it.
\<close>

section \<open>The drawing\<close>

text \<open>
  \<open>r\<close> is the sequence that resets a coloured terminal, empty for another stream. A column is as wide as
  its widest text and two spaces; a text of one line counts with the line break behind it.
\<close>

definition text_width :: "string \<Rightarrow> nat" where
  "text_width s = (if length (getlines s) = 1 then length s else fold max (map length (getlines s)) 0)"

definition column_widths :: "string list list \<Rightarrow> nat \<Rightarrow> nat list" where
  "column_widths rows m = map (\<lambda>j. fold max (map (\<lambda>row. text_width (row ! j) + 2) rows) 0) [0..<m]"

definition row_height :: "string list \<Rightarrow> nat" where
  "row_height row = fold max (map (\<lambda>s. length (getlines s)) row) 0"

definition spaces :: "nat \<Rightarrow> string" where
  "spaces n = replicate n (CHR '' '')"

definition draw_rule :: "string \<Rightarrow> nat list \<Rightarrow> string" where
  "draw_rule r ws =
     concat (map (\<lambda>w. ''+'' @ r @ concat (replicate w (''-'' @ r))) ws) @ (if ws = [] then [] else ''+'' @ r)"

definition draw_cell :: "string \<Rightarrow> nat \<Rightarrow> string \<Rightarrow> nat \<Rightarrow> string" where
  "draw_cell r w s k =
     ''|'' @ r @
     (if k < length (getlines s) then
        let line = trim (getlines s ! k) in '' '' @ line @ r @ spaces (w - (length line + 2)) @ '' ''
      else spaces w) @ r"

definition draw_line :: "string \<Rightarrow> nat list \<Rightarrow> string list \<Rightarrow> nat \<Rightarrow> string" where
  "draw_line r ws row k = concat (map2 (\<lambda>w s. draw_cell r w s k) ws row) @ (if ws = [] then [] else ''|'' @ r)"

fun between :: "string \<Rightarrow> string list \<Rightarrow> string" where
  "between sep [] = []"
| "between sep [x] = x"
| "between sep (x # y # xs) = x @ sep @ between sep (y # xs)"

definition draw_table :: "string \<Rightarrow> nat \<Rightarrow> string list list \<Rightarrow> string" where
  "draw_table r m rows =
     (let ws = column_widths rows m; eol = r @ [CHR 0x0A] in
      concat (map (\<lambda>row. draw_rule r ws @ eol @ between eol (map (draw_line r ws row) [0..<row_height row]) @ eol) rows) @
      (if rows = [] then [] else draw_rule r ws))"

section \<open>Tables as they are\<close>

text \<open>A format that is stored is the default one.\<close>

definition default_format :: format where
  "default_format = set_defaults format_new"

definition stored_default :: "format option \<Rightarrow> bool" where
  "stored_default f \<longleftrightarrow> f = None \<or> f = Some default_format"

definition plain_row :: "trow \<Rightarrow> bool" where
  "plain_row row \<longleftrightarrow> stored_default (tr_format row) \<and> (\<forall>c \<in> set (tr_cells row). stored_default (tc_format c))"

definition plain_table :: "string list list \<Rightarrow> ttable \<Rightarrow> bool" where
  "plain_table rows t \<longleftrightarrow>
     tt_format t = default_format \<and> map (\<lambda>row. map tc_text (tr_cells row)) (tt_rows t) = rows \<and>
     (\<forall>row \<in> set (tt_rows t). plain_row row)"

lemma stored_default_simps [simp]: "stored_default None" "stored_default (Some default_format)"
  by (simp_all add: stored_default_def)

lemma default_fields [simp]:
  "fm_width default_format = None" "fm_height default_format = None" "fm_font_align default_format = Some Align_Left"
  "fm_font_style default_format = Some []" "fm_font_color default_format = Some No_Color"
  "fm_font_background default_format = Some No_Color" "fm_padding_left default_format = Some 1"
  "fm_padding_top default_format = Some 0" "fm_padding_right default_format = Some 1"
  "fm_padding_bottom default_format = Some 0" "fm_border_top default_format = border_default ''-''"
  "fm_border_bottom default_format = border_default ''-''" "fm_border_left default_format = border_default ''|''"
  "fm_border_right default_format = border_default ''|''" "fm_corner_top_left default_format = mark_default ''+''"
  "fm_corner_top_right default_format = mark_default ''+''" "fm_corner_bottom_left default_format = mark_default ''+''"
  "fm_corner_bottom_right default_format = mark_default ''+''" "fm_multi_byte default_format = Some False"
  "fm_locale default_format = Some []"
  by (simp_all add: default_format_def set_defaults_def format_new_def)

lemma merge_default: "merge_format default_format default_format = Inr default_format"
  by (simp add: merge_format_def merge_font_def merge_styles_def merge_padding_def merge_borders_def merge_corners_def
      merge_border_def merge_mark_def or_else_def default_format_def set_defaults_def format_new_def
      border_default_def mark_default_def Let_def)

section \<open>What an operation gives on such a table\<close>

text \<open>
  \<open>gives rows r m x out\<close>: on every state that shows the texts \<open>rows\<close> and resets with \<open>r\<close>, the operation
  returns \<open>x\<close>, writes \<open>out\<close> and leaves the texts.
\<close>

definition gives :: "string list list \<Rightarrow> string \<Rightarrow> 'a pop \<Rightarrow> 'a \<Rightarrow> string \<Rightarrow> bool" where
  "gives rows r m x out \<longleftrightarrow>
     (\<forall>st. plain_table rows (pr_table st) \<and> reset_text (pr_stream st) = r \<longrightarrow>
       (\<exists>t. plain_table rows t \<and> m st = Inr (x, st\<lparr>pr_table := t, pr_stream := put out (pr_stream st)\<rparr>)))"

lemma givesI:
  assumes "\<And>st. plain_table rows (pr_table st) \<Longrightarrow> reset_text (pr_stream st) = r \<Longrightarrow>
    \<exists>t. plain_table rows t \<and> m st = Inr (x, st\<lparr>pr_table := t, pr_stream := put out (pr_stream st)\<rparr>)"
  shows "gives rows r m x out"
  using assms by (simp add: gives_def)

lemma gives_cong:
  "(\<And>st. plain_table rows (pr_table st) \<Longrightarrow> m st = m' st) \<Longrightarrow> gives rows r m' x out \<Longrightarrow> gives rows r m x out"
  by (simp add: gives_def)

lemma gives_give: "gives rows r (give x) x []"
  by (rule givesI) (auto simp: give_def intro: exI [of _ "pr_table _"])

lemma gives_lift: "f = Inr x \<Longrightarrow> gives rows r (lift_res f) x []"
  by (rule givesI) (auto simp: lift_res_def intro: exI [of _ "pr_table _"])

lemma gives_after:
  assumes "gives rows r m x o1" "gives rows r (f x) y o2" "out = o1 @ o2"
  shows "gives rows r (after m f) y out"
proof (rule givesI)
  fix st :: printing
  assume a: "plain_table rows (pr_table st)" "reset_text (pr_stream st) = r"
  with assms(1) obtain t where t: "plain_table rows t" "m st = Inr (x, st\<lparr>pr_table := t, pr_stream := put o1 (pr_stream st)\<rparr>)"
    by (auto simp: gives_def)
  let ?st = "st\<lparr>pr_table := t, pr_stream := put o1 (pr_stream st)\<rparr>"
  from assms(2) t(1) a(2) obtain t' where
    "plain_table rows t'" "f x ?st = Inr (y, ?st\<lparr>pr_table := t', pr_stream := put o2 (pr_stream ?st)\<rparr>)"
    unfolding gives_def by (elim allE [of _ ?st]) auto
  with t assms(3) show "\<exists>t. plain_table rows t \<and> after m f st = Inr (y, st\<lparr>pr_table := t, pr_stream := put out (pr_stream st)\<rparr>)"
    by (auto simp: after_def)
qed

lemma gives_let: "gives rows r (f v) x out \<Longrightarrow> gives rows r (let y = v in f y) x out"
  by simp

lemma gives_put: "gives rows r (out_op (put s)) () s"
  by (rule givesI) (auto simp: out_op_def intro: exI [of _ "pr_table _"])

lemma gives_reset: "gives rows r (out_op term_reset) () r"
  by (rule givesI) (auto simp: out_op_def term_reset_is intro: exI [of _ "pr_table _"])

lemma gives_loop:
  "(\<And>i x. i \<in> set is \<Longrightarrow> gives rows r (f i x) (g i x) (o1 i)) \<Longrightarrow>
   gives rows r (loop f is x) (fold g is x) (concat (map o1 is))"
proof (induction "is" arbitrary: x)
  case (Cons i "is")
  then have "gives rows r (f i x) (g i x) (o1 i)"
    "gives rows r (loop f is (g i x)) (fold g is (g i x)) (concat (map o1 is))" by simp_all
  then show ?case by (simp add: gives_after)
qed (simp add: gives_give)

text \<open>An operation, or a loop, that writes nothing.\<close>

lemma gives_quiet: "gives rows r m x [] \<Longrightarrow> gives rows r (f x) y out \<Longrightarrow> gives rows r (after m f) y out"
  by (rule gives_after, assumption, assumption, simp)

lemma gives_loop_quiet:
  assumes "\<And>i x. i \<in> set is \<Longrightarrow> gives rows r (f i x) (g i x) []"
  shows "gives rows r (loop f is x) (fold g is x) []"
proof -
  have "concat (map (\<lambda>_. [] :: string) is) = []" by (induction "is") simp_all
  with gives_loop [of "is" rows r f g "\<lambda>_. []" x] assms show ?thesis by simp
qed

text \<open>An operation on such a table that faults.\<close>

definition raises :: "string list list \<Rightarrow> string \<Rightarrow> 'a pop \<Rightarrow> fault \<Rightarrow> bool" where
  "raises rows r m e \<longleftrightarrow> (\<forall>st. plain_table rows (pr_table st) \<longrightarrow> reset_text (pr_stream st) = r \<longrightarrow> m st = Inl e)"

lemma raises_first: "raises rows r m e \<Longrightarrow> raises rows r (after m f) e"
  by (simp add: raises_def after_def)

lemma raises_after:
  assumes "gives rows r m x out" "raises rows r (f x) e"
  shows "raises rows r (after m f) e"
  unfolding raises_def
proof (intro allI impI)
  fix st :: printing
  assume a: "plain_table rows (pr_table st)" "reset_text (pr_stream st) = r"
  with assms(1) obtain t where "plain_table rows t" "m st = Inr (x, st\<lparr>pr_table := t, pr_stream := put out (pr_stream st)\<rparr>)"
    by (auto simp: gives_def)
  with assms(2) a(2) show "after m f st = Inl e" by (simp add: raises_def after_def)
qed

lemma after_deref [simp]: "after (lift_res (deref (Some x))) f = f x"
  by (simp add: after_def lift_res_def fun_eq_iff)

lemma after_lift [simp]: "after (lift_res (Inr x)) f = f x"
  by (simp add: after_def lift_res_def fun_eq_iff)

lemma after_give [simp]: "after (give x) f = f x"
  by (simp add: after_def give_def fun_eq_iff)

section \<open>Cells and their formats\<close>

lemma plain_row_nth: "plain_table rows t \<Longrightarrow> i < length rows \<Longrightarrow> plain_row (tt_rows t ! i) \<and> map tc_text (tr_cells (tt_rows t ! i)) = rows ! i"
  by (auto simp: plain_table_def)

lemma plain_table_length: "plain_table rows t \<Longrightarrow> length (tt_rows t) = length rows"
  by (auto simp: plain_table_def)

lemma plain_table_update:
  assumes "plain_table rows t" "i < length rows" "plain_row row" "map tc_text (tr_cells row) = rows ! i"
  shows "plain_table rows (t\<lparr>tt_rows := (tt_rows t)[i := row]\<rparr>)"
proof -
  from assms(1) have "map (\<lambda>row. map tc_text (tr_cells row)) (tt_rows t) = rows" by (simp add: plain_table_def)
  then have "map (\<lambda>row. map tc_text (tr_cells row)) ((tt_rows t)[i := row]) = rows[i := rows ! i]"
    using assms(4) by (simp add: map_update)
  with assms show ?thesis by (auto simp: plain_table_def dest!: set_update_subset_insert [THEN subsetD])
qed

lemma cell_at_plain:
  assumes "plain_table rows (pr_table st)" "i < length rows" "j < length (rows ! i)"
  shows "\<exists>c. cell_at i j st = Inr (c, st) \<and> tc_text c = rows ! i ! j \<and> stored_default (tc_format c)"
proof -
  let ?row = "tt_rows (pr_table st) ! i"
  from plain_row_nth [OF assms(1,2)] have row: "plain_row ?row" "map tc_text (tr_cells ?row) = rows ! i" by simp_all
  then have len: "length (tr_cells ?row) = length (rows ! i)" by (metis length_map)
  from row(2) assms(3) len have "tc_text (tr_cells ?row ! j) = rows ! i ! j" by (metis nth_map)
  moreover have "stored_default (tc_format (tr_cells ?row ! j))" using row(1) assms(3) len by (auto simp: plain_row_def)
  moreover have "cell_at i j st = Inr (tr_cells ?row ! j, st)"
    using assms len plain_table_length [OF assms(1)] by (simp add: cell_at_def after_def row_at_def give_def)
  ultimately show ?thesis by blast
qed

lemma gives_cell_at:
  assumes "i < length rows" "j < length (rows ! i)"
    and "\<And>c. tc_text c = rows ! i ! j \<Longrightarrow> stored_default (tc_format c) \<Longrightarrow> gives rows r (f c) y out"
  shows "gives rows r (after (cell_at i j) f) y out"
proof (rule givesI)
  fix st :: printing
  assume a: "plain_table rows (pr_table st)" "reset_text (pr_stream st) = r"
  from cell_at_plain [OF a(1) assms(1,2)] obtain c where
    c: "cell_at i j st = Inr (c, st)" "tc_text c = rows ! i ! j" "stored_default (tc_format c)" by blast
  from assms(3) [OF c(2,3)] a c(1) show "\<exists>t. plain_table rows t \<and>
      after (cell_at i j) f st = Inr (y, st\<lparr>pr_table := t, pr_stream := put out (pr_stream st)\<rparr>)"
    by (auto simp: gives_def after_def)
qed

lemma raises_cell_at:
  assumes "i < length rows" "j < length (rows ! i)"
    and "\<And>c. stored_default (tc_format c) \<Longrightarrow> raises rows r (f c) e"
  shows "raises rows r (after (cell_at i j) f) e"
  unfolding raises_def
proof (intro allI impI)
  fix st :: printing
  assume a: "plain_table rows (pr_table st)" "reset_text (pr_stream st) = r"
  from cell_at_plain [OF a(1) assms(1,2)] obtain c where "cell_at i j st = Inr (c, st)" "stored_default (tc_format c)" by blast
  with assms(3) [of c] a show "after (cell_at i j) f st = Inl e" by (simp add: raises_def after_def)
qed

lemma gives_row_format: "i < length rows \<Longrightarrow> gives rows r (row_format i) default_format []"
proof (rule givesI)
  fix st :: printing
  assume i: "i < length rows" and a: "plain_table rows (pr_table st)"
  let ?row = "tt_rows (pr_table st) ! i"
  let ?row' = "?row\<lparr>tr_format := Some default_format\<rparr>"
  from plain_row_nth [OF a i] have row: "plain_row ?row" "map tc_text (tr_cells ?row) = rows ! i" by simp_all
  then have "plain_table rows ((pr_table st)\<lparr>tt_rows := (tt_rows (pr_table st))[i := ?row']\<rparr>)"
    using a i by (intro plain_table_update) (auto simp: plain_row_def)
  moreover have "tt_format (pr_table st) = default_format" using a by (simp add: plain_table_def)
  moreover have "tr_format ?row = None \<or> tr_format ?row = Some default_format" using row(1) by (simp add: plain_row_def stored_default_def)
  ultimately show "\<exists>t. plain_table rows t \<and>
      row_format i st = Inr (default_format, st\<lparr>pr_table := t, pr_stream := put [] (pr_stream st)\<rparr>)"
    using i plain_table_length [OF a]
    by (auto simp: row_format_def after_def row_at_def set_row_def table_format_def lift_res_def give_def merge_default)
qed

text \<open>The copy of a cell after it was asked for its format.\<close>

definition asked :: "tcell \<Rightarrow> tcell" where
  "asked c = c\<lparr>tc_format := Some default_format\<rparr>"

lemma asked_simps [simp]: "stored_default (tc_format (asked c))" "tc_text (asked c) = tc_text c" "asked (asked c) = asked c"
  by (simp_all add: asked_def)

lemma gives_copy_format:
  "i < length rows \<Longrightarrow> stored_default (tc_format c) \<Longrightarrow> gives rows r (copy_format i c) (default_format, asked c) []"
  unfolding copy_format_def stored_default_def asked_def
  by (auto intro!: gives_after [OF _ gives_give] gives_after [OF gives_row_format gives_lift] gives_row_format simp: merge_default)

lemma gives_copy_locale:
  "i < length rows \<Longrightarrow> stored_default (tc_format c) \<Longrightarrow> gives rows r (copy_locale i c) ([], asked c) []"
  unfolding copy_locale_def
  by (rule gives_quiet [OF gives_copy_format]) (simp_all add: gives_give)

lemma gives_copy_multi_byte:
  "i < length rows \<Longrightarrow> stored_default (tc_format c) \<Longrightarrow> gives rows r (copy_multi_byte i c) (False, asked c) []"
  unfolding copy_multi_byte_def
  by (rule gives_quiet [OF gives_copy_format]) (simp_all add: gives_give)

text \<open>The rest of an operation, behind a question to a copied cell.\<close>

lemma with_format:
  "i < length rows \<Longrightarrow> stored_default (tc_format c) \<Longrightarrow> gives rows r (g default_format (asked c)) y out \<Longrightarrow>
   gives rows r (after (copy_format i c) (\<lambda>(f, c). g f c)) y out"
  by (rule gives_quiet [OF gives_copy_format]) simp_all

lemma with_locale:
  "i < length rows \<Longrightarrow> stored_default (tc_format c) \<Longrightarrow> gives rows r (g [] (asked c)) y out \<Longrightarrow>
   gives rows r (after (copy_locale i c) (\<lambda>(l, c). g l c)) y out"
  by (rule gives_quiet [OF gives_copy_locale]) simp_all

lemma with_multi_byte:
  "i < length rows \<Longrightarrow> stored_default (tc_format c) \<Longrightarrow> gives rows r (g False (asked c)) y out \<Longrightarrow>
   gives rows r (after (copy_multi_byte i c) (\<lambda>(b, c). g b c)) y out"
  by (rule gives_quiet [OF gives_copy_multi_byte]) simp_all

lemmas with_cell = with_format with_locale with_multi_byte

text \<open>A cell of the table keeps its text when it stores the format.\<close>

lemma gives_set_cell:
  assumes "i < length rows" "j < length (rows ! i)" "tc_text c = rows ! i ! j" "stored_default (tc_format c)"
  shows "gives rows r (set_cell i j c) () []"
proof (rule givesI)
  fix st :: printing
  assume a: "plain_table rows (pr_table st)"
  let ?row = "tt_rows (pr_table st) ! i"
  let ?row' = "?row\<lparr>tr_cells := (tr_cells ?row)[j := c]\<rparr>"
  from plain_row_nth [OF a assms(1)] have row: "plain_row ?row" "map tc_text (tr_cells ?row) = rows ! i" by simp_all
  have "plain_row ?row'"
    using row(1) assms(4) by (auto simp: plain_row_def dest!: set_update_subset_insert [THEN subsetD])
  moreover have "map tc_text (tr_cells ?row') = rows ! i" using row(2) assms(3) by (simp add: map_update)
  ultimately have "plain_table rows ((pr_table st)\<lparr>tt_rows := (tt_rows (pr_table st))[i := ?row']\<rparr>)"
    by (rule plain_table_update [OF a assms(1)])
  then show "\<exists>t. plain_table rows t \<and> set_cell i j c st = Inr ((), st\<lparr>pr_table := t, pr_stream := put [] (pr_stream st)\<rparr>)"
    using assms(1) plain_table_length [OF a] by (auto simp: set_cell_def after_def row_at_def set_row_def)
qed

lemma gives_in_place:
  assumes "i < length rows" "j < length (rows ! i)"
    and "\<And>c. stored_default (tc_format c) \<Longrightarrow> gives rows r (m i c) (x, asked c) []"
  shows "gives rows r (in_place m i j) x []"
  unfolding in_place_def
proof (rule gives_cell_at [OF assms(1,2)])
  fix c :: tcell
  assume c: "tc_text c = rows ! i ! j" "stored_default (tc_format c)"
  have "gives rows r (set_cell i j (asked c)) () []" using assms(1,2) c(1) by (intro gives_set_cell) simp_all
  then show "gives rows r (after (m i c) (\<lambda>(x, c). after (set_cell i j c) (\<lambda>_. give x))) x []"
    by (auto intro!: gives_after [OF assms(3) [OF c(2)]] gives_after [OF _ gives_give])
qed

lemma gives_cell_format: "i < length rows \<Longrightarrow> j < length (rows ! i) \<Longrightarrow> gives rows r (cell_format i j) default_format []"
  unfolding cell_format_def by (intro gives_in_place gives_copy_format)

lemma gives_cell_locale: "i < length rows \<Longrightarrow> j < length (rows ! i) \<Longrightarrow> gives rows r (cell_locale i j) [] []"
  unfolding cell_locale_def by (intro gives_in_place gives_copy_locale)

lemma gives_cell_multi_byte: "i < length rows \<Longrightarrow> j < length (rows ! i) \<Longrightarrow> gives rows r (cell_multi_byte i j) False []"
  unfolding cell_multi_byte_def by (intro gives_in_place gives_copy_multi_byte)

lemma gives_cell_text: "i < length rows \<Longrightarrow> j < length (rows ! i) \<Longrightarrow> gives rows r (cell_text i j) (rows ! i ! j) []"
  unfolding cell_text_def by (intro gives_cell_at) (simp_all add: gives_give)

lemma gives_of_cell:
  "i < length rows \<Longrightarrow> j < length (rows ! i) \<Longrightarrow> f [] False = Inr x \<Longrightarrow> gives rows r (of_cell i j f) x []"
  unfolding of_cell_def
  by (rule gives_after [OF gives_cell_locale gives_after [OF gives_cell_multi_byte gives_lift]]) simp_all

lemma gives_cell_size:
  "i < length rows \<Longrightarrow> j < length (rows ! i) \<Longrightarrow> gives rows r (cell_size wcs i j) (length (rows ! i ! j)) []"
  unfolding cell_size_def
  by (rule gives_quiet [OF gives_cell_text], simp_all, rule gives_quiet [OF gives_cell_locale], simp_all,
      rule gives_quiet [OF gives_cell_multi_byte], simp_all add: gives_lift)

section \<open>Widths and heights\<close>

lemma gives_widest_line:
  assumes "i < length rows" "j < length (rows ! i)"
  shows "gives rows r (widest_line wcs i j ls) (fold max (map length ls) 0) []"
proof -
  have "gives rows r (widest_line wcs i j ls) (fold (\<lambda>l n. if length l > n then length l else n) ls 0) []"
    unfolding widest_line_def
    by (rule gives_loop_quiet, rule gives_quiet [OF gives_of_cell [OF assms]])
      (auto intro: gives_give gives_of_cell [OF assms])
  moreover have "fold (\<lambda>l n. if length l > n then length l else n) ls k = fold max (map length ls) k" for k
    by (induction ls arbitrary: k) (auto simp: max_def)
  ultimately show ?thesis by simp
qed

lemma fold_max_le: "(\<And>x. x \<in> set xs \<Longrightarrow> x \<le> b) \<Longrightarrow> k \<le> b \<Longrightarrow> fold max xs k \<le> b" for b :: nat
  by (induction xs arbitrary: k) auto

lemma fold_max_ge: "k \<le> fold max xs k \<and> (\<forall>x \<in> set xs. x \<le> fold max xs k)" for k :: nat
  by (induction xs arbitrary: k) (auto intro: order_trans [OF max.cobounded1] order_trans [OF max.cobounded2])

lemma text_width_le: "text_width s \<le> length s"
  by (auto simp: text_width_def intro!: fold_max_le dest: getlines_plain)

lemma gives_cell_width:
  assumes "i < length rows" "j < length (rows ! i)" "length (rows ! i ! j) + 2 < 2 ^ 64"
  shows "gives rows r (cell_width wcs i j) (text_width (rows ! i ! j) + 2) []"
proof -
  let ?s = "rows ! i ! j"
  have n: "gives rows r (if length (getlines ?s) = 1 then cell_size wcs i j else widest_line wcs i j (getlines ?s)) (text_width ?s) []"
    using gives_cell_size [OF assms(1,2)] gives_widest_line [OF assms(1,2)] by (simp add: text_width_def)
  have sp: "gives rows r (of_cell i j (split_lines wcs ?s [CHR 0x0A])) (getlines ?s) []"
    using assms by (intro gives_of_cell) (simp_all add: split_lines_newline)
  have "plus_size (plus_size 1 (text_width ?s)) 1 = text_width ?s + 2"
    using assms(3) text_width_le [of ?s] by (simp add: plus_size_small)
  then show ?thesis
    unfolding cell_width_def
    by (intro gives_quiet [OF gives_cell_format] gives_let gives_quiet [OF gives_cell_text] gives_quiet [OF sp]
        gives_quiet [OF n] assms) (simp add: gives_give)
qed

text \<open>A rectangular table of texts that are not too long.\<close>

definition grid :: "nat \<Rightarrow> string list list \<Rightarrow> bool" where
  "grid m rows \<longleftrightarrow> (\<forall>row \<in> set rows. length row = m \<and> (\<forall>s \<in> set row. length s + 2 < 2 ^ 64))"

lemma grid_cell: "grid m rows \<Longrightarrow> i < length rows \<Longrightarrow> j < m \<Longrightarrow> j < length (rows ! i) \<and> length (rows ! i ! j) + 2 < 2 ^ 64"
  unfolding grid_def by (metis nth_mem)

lemma fold_snoc: "fold (\<lambda>i xs. xs @ [h i]) is xs = xs @ map h is"
  by (induction "is" arbitrary: xs) simp_all

lemma fold_keep: "fold (\<lambda>i x. x) is x = x"
  by (induction "is") simp_all

lemma map_nth_rows: "map (\<lambda>i. f (xs ! i)) [0..<length xs] = map f xs"
  by (rule nth_equalityI) simp_all

lemma gives_table_column:
  assumes "grid m rows" "j < m"
  shows "gives rows r (table_column j) (map (\<lambda>i. (i, j)) [0..<length rows]) []"
proof -
  have "gives rows r (loop (\<lambda>i cells. after (cell_at i j) (\<lambda>_. give (cells @ [(i, j)]))) [0..<length rows] [])
      (fold (\<lambda>i cells. cells @ [(i, j)]) [0..<length rows] []) []"
    using grid_cell [OF assms(1) _ assms(2)] by (intro gives_loop_quiet gives_cell_at) (auto simp: gives_give)
  then show ?thesis
    unfolding gives_def table_column_def table_size_def by (auto simp: plain_table_length fold_snoc)
qed

lemma column_widths_nth:
  assumes "grid m rows" "j < m"
  shows "column_widths rows m ! j < 2 ^ 64"
    and "row \<in> set rows \<Longrightarrow> text_width (row ! j) + 2 \<le> column_widths rows m ! j"
proof -
  have "text_width (row ! j) + 2 \<le> 2 ^ 64 - 1" if "row \<in> set rows" for row
  proof -
    from that obtain i where "i < length rows" "row = rows ! i" by (auto simp: in_set_conv_nth)
    with grid_cell [OF assms(1) _ assms(2), of i] text_width_le [of "row ! j"] show ?thesis by simp
  qed
  then have "fold max (map (\<lambda>row. text_width (row ! j) + 2) rows) 0 \<le> 2 ^ 64 - 1" by (intro fold_max_le) auto
  with assms(2) show "column_widths rows m ! j < 2 ^ 64" by (simp add: column_widths_def)
  show "row \<in> set rows \<Longrightarrow> text_width (row ! j) + 2 \<le> column_widths rows m ! j"
    using fold_max_ge [where xs = "map (\<lambda>row. text_width (row ! j) + 2) rows"] assms(2) by (auto simp: column_widths_def)
qed

lemma gives_widths:
  assumes "grid m rows" "j < m"
  shows "gives rows r (configured_width (map (\<lambda>i. (i, j)) [0..<length rows])) 0 []"
    and "gives rows r (computed_width wcs (map (\<lambda>i. (i, j)) [0..<length rows])) (column_widths rows m ! j) []"
proof -
  let ?cells = "map (\<lambda>i. (i, j)) [0..<length rows]"
  note cell = grid_cell [OF assms(1) _ assms(2)]
  have "gives rows r (configured_width ?cells) (fold (\<lambda>_ n. n) ?cells 0) []"
    unfolding configured_width_def
    using cell by (intro gives_loop_quiet) (auto intro!: gives_quiet [OF gives_cell_format] gives_give)
  then show "gives rows r (configured_width ?cells) 0 []" by (simp add: fold_keep)
  have "gives rows r (computed_width wcs ?cells) (fold (\<lambda>(i, j) n. max n (text_width (rows ! i ! j) + 2)) ?cells 0) []"
    unfolding computed_width_def
    using cell by (intro gives_loop_quiet) (auto intro!: gives_quiet [OF gives_cell_width] gives_give)
  moreover have "fold (\<lambda>(i, j) n. max n (text_width (rows ! i ! j) + 2)) (map (\<lambda>i. (i, j)) is) k =
      fold max (map (\<lambda>i. text_width (rows ! i ! j) + 2) is) k" for "is" k
    by (induction "is" arbitrary: k) (simp_all add: max.commute)
  ultimately show "gives rows r (computed_width wcs ?cells) (column_widths rows m ! j) []"
    using assms(2) map_nth_rows [of "\<lambda>row. text_width (row ! j) + 2" rows] by (simp add: column_widths_def)
qed

text \<open>A text is not wider than its column leaves room for, so that it is not wrapped.\<close>

lemma text_width_line: "CHR 0x0A \<notin> set s \<Longrightarrow> text_width s = length s"
  by (simp add: text_width_def getlines_no_newline)

lemma content_fits:
  assumes "text_width s + 2 \<le> w" "w < 2 ^ 64" "CHR 0x0A \<notin> set s"
  shows "word_wrap wcs s (if w > plus_size 1 1 then minus_size w (plus_size 1 1) else w) [] False = Inr s"
    and "word_wrap wcs s (if w > plus_size 1 1 then minus_size (minus_size w 1) 1 else w) [] False = Inr s"
  using assms by (intro word_wrap_fits; auto simp: text_width_line plus_size_small minus_size_small)+

lemma gives_cell_height:
  assumes ij: "i < length rows" "j < length (rows ! i)" "length (rows ! i ! j) + 2 < 2 ^ 64"
    and w: "text_width (rows ! i ! j) + 2 \<le> w" "w < 2 ^ 64"
  shows "gives rows r (cell_height wcs i j w) (length (getlines (rows ! i ! j))) []"
proof -
  let ?s = "rows ! i ! j"
  let ?w = "if w > plus_size 1 1 then minus_size w (plus_size 1 1) else w"
  have no: "newlines ?s = 0 \<Longrightarrow> CHR 0x0A \<notin> set ?s" by (auto simp: newlines_def filter_empty_conv)
  have tx: "gives rows r (if newlines ?s = 0 then of_cell i j (word_wrap wcs ?s ?w) else give ?s) ?s []"
    using content_fits(1) [OF w no] by (auto intro: gives_of_cell [OF ij(1,2)] gives_give)
  have "length (getlines ?s) \<le> length ?s + 1"
    using le_SucI [OF length_filter_le [of "\<lambda>c. c = CHR 0x0A" ?s]] by (simp add: length_getlines)
  with ij(3) have "plus_size (plus_size 0 (length (getlines ?s))) 0 = length (getlines ?s)" by (simp add: plus_size_small)
  then show ?thesis
    unfolding cell_height_def
    by (intro gives_quiet [OF gives_cell_format [OF ij(1,2)]] gives_quiet [OF gives_cell_text [OF ij(1,2)]],
        simp only: default_fields after_deref Let_def, intro gives_quiet [OF tx])
      (simp add: gives_give newlines_def length_getlines)
qed

lemma gives_row_size: "i < length rows \<Longrightarrow> gives rows r (row_size i) (length (rows ! i)) []"
proof (rule givesI)
  fix st :: printing
  assume i: "i < length rows" and a: "plain_table rows (pr_table st)"
  from plain_row_nth [OF a i] have "length (tr_cells (tt_rows (pr_table st) ! i)) = length (rows ! i)" by (metis length_map)
  with i a show "\<exists>t. plain_table rows t \<and> row_size i st = Inr (length (rows ! i), st\<lparr>pr_table := t, pr_stream := put [] (pr_stream st)\<rparr>)"
    by (auto simp: row_size_def after_def row_at_def give_def plain_table_length intro: exI [of _ "pr_table st"])
qed

lemma gives_heights:
  assumes g: "grid m rows" and i: "i < length rows"
  shows "gives rows r (configured_height i) 0 []"
    and "gives rows r (computed_height wcs i (column_widths rows m)) (row_height (rows ! i)) []"
proof -
  note cell = grid_cell [OF g i]
  have len: "length (rows ! i) = m" "length (column_widths rows m) = m" using g i by (simp_all add: grid_def column_widths_def)
  have "gives rows r (configured_height i) (fold (\<lambda>_ n. n) [0..<m] 0) []"
    unfolding configured_height_def
    using cell i len(1)
    by (intro gives_quiet [OF gives_row_size [OF i]]) (auto intro!: gives_loop_quiet gives_quiet [OF gives_cell_format] gives_give)
  then show "gives rows r (configured_height i) 0 []" by (simp add: fold_keep)
  have "gives rows r (computed_height wcs i (column_widths rows m)) (fold (\<lambda>j n. max n (length (getlines (rows ! i ! j)))) [0..<m] 0) []"
    unfolding computed_height_def
  proof (rule gives_quiet [OF gives_row_size [OF i]], unfold len, rule gives_loop_quiet)
    fix j n
    assume "j \<in> set [0..<m]"
    then have j: "j < m" by simp
    with i column_widths_nth [OF g j] have "gives rows r (cell_height wcs i j (column_widths rows m ! j)) (length (getlines (rows ! i ! j))) []"
      using cell [OF j] by (intro gives_cell_height) auto
    with j show "gives rows r (if j < m then after (cell_height wcs i j (column_widths rows m ! j)) (\<lambda>h. give (max n h)) else fail Out_Of_Bounds)
        (max n (length (getlines (rows ! i ! j)))) []"
      by (auto intro: gives_quiet gives_give)
  qed
  moreover have "fold (\<lambda>j n. max n (length (getlines (rows ! i ! j)))) is k = fold max (map (\<lambda>j. length (getlines (rows ! i ! j))) is) k" for "is" k
    by (induction "is" arbitrary: k) (simp_all add: max.commute)
  ultimately show "gives rows r (computed_height wcs i (column_widths rows m)) (row_height (rows ! i)) []"
    using map_nth_rows [of "\<lambda>s. length (getlines s)" "rows ! i"] len by (simp add: row_height_def)
qed

end
