(* ===== verification/Table_Drawn.thy ===== *)
theory Table_Drawn
  imports Table_Drawing
begin

text \<open>The printer writes the drawing of \<open>Table_Drawing\<close>.\<close>

section \<open>The dimensions and the lines of the cells\<close>

lemma length_column_widths [simp]: "length (column_widths rows m) = m"
  by (simp add: column_widths_def)

lemma gives_dimensions:
  assumes "grid m rows"
  shows "gives rows r (compute_cell_dimensions wcs (length rows) m) (map row_height rows, column_widths rows m) []"
proof -
  have ws: "gives rows r (loop (\<lambda>j widths.
       after (table_column j) (\<lambda>column. after (configured_width column) (\<lambda>configured.
       after (computed_width wcs column) (\<lambda>computed.
       give (widths @ [if configured \<noteq> 0 then configured else computed]))))) [0..<m] [])
      (fold (\<lambda>j widths. widths @ [column_widths rows m ! j]) [0..<m] []) []"
    by (rule gives_loop_quiet, rule gives_quiet [OF gives_table_column], rule assms, simp, rule gives_quiet [OF gives_widths(1)],
        rule assms, simp, rule gives_quiet [OF gives_widths(2)], rule assms, simp, simp add: gives_give)
  have hs: "gives rows r (loop (\<lambda>i heights.
       after (configured_height i) (\<lambda>configured. after (computed_height wcs i (column_widths rows m)) (\<lambda>computed.
       give (heights @ [max configured computed])))) [0..<length rows] [])
      (fold (\<lambda>i heights. heights @ [row_height (rows ! i)]) [0..<length rows] []) []"
    by (rule gives_loop_quiet, rule gives_quiet [OF gives_heights(1)], rule assms, simp, rule gives_quiet [OF gives_heights(2)],
        rule assms, simp, simp add: gives_give)
  have "map (\<lambda>j. column_widths rows m ! j) [0..<m] = column_widths rows m" by (rule nth_equalityI) simp_all
  then show ?thesis
    unfolding compute_cell_dimensions_def
    by (intro gives_quiet [OF ws]) (simp add: fold_snoc, rule gives_quiet [OF hs], simp add: fold_snoc map_nth_rows gives_give)
qed

lemmas cell_steps = default_fields after_deref after_give Let_def asked_simps prod.case

lemma gives_split_cell:
  assumes ij: "i < length rows" "j < length (rows ! i)" and w: "text_width (rows ! i ! j) + 2 \<le> w" "w < 2 ^ 64"
  shows "gives rows r (split_cell wcs i j w) (getlines (rows ! i ! j)) []"
  unfolding split_cell_def
proof (rule gives_cell_at [OF ij])
  fix c :: tcell
  assume c: "tc_text c = rows ! i ! j" "stored_default (tc_format c)"
  let ?s = "rows ! i ! j"
  let ?w = "if w > plus_size 1 1 then minus_size (minus_size w 1) 1 else w"
  have wrapped: "gives rows r
      (if CHR 0x0A \<in> set ?s then give (?s, asked c)
       else after (copy_locale i (asked c)) (\<lambda>(l, c). after (copy_multi_byte i c) (\<lambda>(b, c).
            after (lift_res (word_wrap wcs ?s ?w l b)) (\<lambda>wrapped. give (wrapped, c))))) (?s, asked c) []"
  proof (cases "CHR 0x0A \<in> set ?s")
    case False
    note wrap = gives_lift [OF content_fits(2) [OF w False]]
    from False show ?thesis
      by (simp only: if_False, intro with_cell ij(1) asked_simps(1), simp only: asked_simps)
        (rule gives_quiet [OF wrap gives_give])
  qed (simp add: gives_give)
  show "gives rows r
     (let text = tc_text c in
      after (copy_format i c) (\<lambda>(f, c). after (lift_res (deref (fm_padding_left f))) (\<lambda>pl.
      after (copy_format i c) (\<lambda>(f, c). after (lift_res (deref (fm_padding_right f))) (\<lambda>pr.
      after (if CHR 0x0A \<in> set text then give (text, c)
             else let content_width = (if w > plus_size pl pr then minus_size (minus_size w pl) pr else w) in
               after (copy_locale i c) (\<lambda>(l, c). after (copy_multi_byte i c) (\<lambda>(b, c).
               after (lift_res (word_wrap wcs text content_width l b)) (\<lambda>wrapped. give (wrapped, c))))) (\<lambda>(text, c).
      after (copy_locale i c) (\<lambda>(l, c). after (copy_multi_byte i c) (\<lambda>(b, c).
      lift_res (split_lines wcs text [CHR 0x0A] l b))))))))) (getlines ?s) []"
    by (simp only: cell_steps c(1), intro with_cell ij(1) c(2) asked_simps(1), simp only: cell_steps,
        intro with_cell ij(1) asked_simps(1), simp only: cell_steps, rule gives_quiet [OF wrapped], simp only: cell_steps,
        intro with_cell ij(1) asked_simps(1) gives_lift split_lines_newline)
qed

lemma gives_split_cells:
  assumes "grid m rows"
  shows "gives rows r (split_cells wcs (length rows) m (column_widths rows m)) (map (map getlines) rows) []"
proof -
  have row: "gives rows r (loop (\<lambda>j row. after (split_cell wcs i j (column_widths rows m ! j)) (\<lambda>lines. give (row @ [lines]))) [0..<m] [])
      (map getlines (rows ! i)) []" if i: "i < length rows" for i
  proof -
    have "gives rows r (loop (\<lambda>j row. after (split_cell wcs i j (column_widths rows m ! j)) (\<lambda>lines. give (row @ [lines]))) [0..<m] [])
        (fold (\<lambda>j row. row @ [getlines (rows ! i ! j)]) [0..<m] []) []"
      using grid_cell [OF assms i] column_widths_nth(1) [OF assms] column_widths_nth(2) [OF assms _ nth_mem [OF i]] i
      by (intro gives_loop_quiet gives_quiet [OF gives_split_cell]) (simp_all add: gives_give)
    moreover have "length (rows ! i) = m" using assms i by (simp add: grid_def)
    ultimately show ?thesis using map_nth_rows [of getlines "rows ! i"] by (simp add: fold_snoc)
  qed
  have "gives rows r (split_cells wcs (length rows) m (column_widths rows m))
      (fold (\<lambda>i cells. cells @ [map getlines (rows ! i)]) [0..<length rows] []) []"
    unfolding split_cells_def by (rule gives_loop_quiet, rule gives_quiet [OF row]) (simp_all add: gives_give)
  then show ?thesis by (simp add: fold_snoc map_nth_rows)
qed

section \<open>What is written\<close>

lemma no_style [simp]: "apply_element_style No_Color No_Color [] = give ()"
  by (simp add: apply_element_style_def apply_foreground_color_def apply_background_color_def)

lemma default_marks [simp]:
  "b_show (border_default s) = Some True" "b_text (border_default s) = Some s" "b_color (border_default s) = Some No_Color"
  "b_background (border_default s) = Some No_Color" "m_text (mark_default s) = Some s"
  "m_color (mark_default s) = Some No_Color" "m_background (mark_default s) = Some No_Color"
  by (simp_all add: border_default_def mark_default_def)

lemma gives_put_colored: "gives rows r (put_colored s No_Color No_Color) () (s @ r)"
  by (simp add: put_colored_def reset_element_style_def) (rule gives_after [OF gives_put gives_reset refl])

lemma gives_put_border: "gives rows r (put_border (border_default s)) () (s @ r)"
  by (simp add: put_border_def gives_put_colored)

lemma gives_put_mark: "gives rows r (put_mark (mark_default s)) () (s @ r)"
  by (simp add: put_mark_def gives_put_colored)

lemma gives_put_spaces: "gives rows r (put_spaces n) () (spaces n)"
  by (simp add: put_spaces_def spaces_def gives_put)

lemma gives_put_content: "gives rows r (put_content s default_format) () (s @ r)"
  by (simp add: put_content_def reset_element_style_def)
    (rule gives_after [OF gives_put gives_after [OF gives_reset gives_give refl]], simp)

lemma gives_left_aligned:
  "gives rows r (print_left_aligned s default_format n w) () (s @ r @ spaces (w - n))"
  unfolding print_left_aligned_def
  by (rule gives_after [OF gives_put_content]) (auto simp: spaces_def intro: gives_put_spaces [unfolded spaces_def] gives_give)

lemma length_trim: "length (trim s) \<le> length s"
  unfolding trim_def trim_left_def trim_right_def
  by (metis length_dropWhile_le length_rev order_trans)

lemma gives_print_line:
  assumes "i < length rows" "stored_default (tc_format c)" "length line + 2 < 2 ^ 64"
  shows "gives rows r (print_line wcs i c default_format False w line) (asked c)
    ('' '' @ trim line @ r @ spaces (w - (length (trim line) + 2)) @ '' '')"
proof -
  let ?l = "trim line"
  have n: "plus_size (plus_size (length ?l) 1) 1 = length ?l + 2"
    using length_trim [of line] assms(3) by (simp add: plus_size_small)
  have rest: "gives rows r (after (print_left_aligned ?l default_format (length ?l + 2) w) (\<lambda>_. after (put_spaces 1) (\<lambda>_. give (asked c))))
      (asked c) (?l @ r @ spaces (w - (length ?l + 2)) @ '' '')"
    by (rule gives_after [OF gives_left_aligned gives_after [OF gives_put_spaces gives_give refl]]) (simp add: spaces_def)
  show ?thesis
    unfolding print_line_def
    by (simp only: cell_steps, rule gives_after [OF gives_put_spaces, where ?o2.0 = "?l @ r @ spaces (w - (length ?l + 2)) @ '' ''"],
        intro with_cell assms, simp only: sequence_length_bytes after_lift cell_steps n font_align.case, rule rest) (simp add: spaces_def)
qed

lemma gives_row_in_cell:
  assumes ij: "i < length rows" "j < length (rows ! i)" and s: "length (rows ! i ! j) + 2 < 2 ^ 64" and l: "has_locale wcs []"
  shows "gives rows r (print_row_in_cell wcs i j w m k (getlines (rows ! i ! j))) ()
    (draw_cell r w (rows ! i ! j) k @ (if j + 1 = m then ''|'' @ r else []))"
  unfolding print_row_in_cell_def
proof (rule gives_cell_at [OF ij], intro with_cell ij(1) asked_simps(1), assumption, simp only: cell_steps open_locale_give [OF l],
    intro with_cell ij(1) asked_simps(1), simp only: cell_steps default_marks if_True no_style)
  fix c :: tcell
  let ?ls = "getlines (rows ! i ! j)"
  have line: "length (?ls ! k) + 2 < 2 ^ 64" if "k < length ?ls"
    using getlines_plain [OF nth_mem [OF that]] s by simp
  have "length ?ls \<le> length (rows ! i ! j) + 1"
    using le_SucI [OF length_filter_le [of "\<lambda>c. c = CHR 0x0A" "rows ! i ! j"]] by (simp add: length_getlines)
  then have h: "plus_size 0 (length ?ls) = length ?ls" using s by (simp add: plus_size_small)
  have body: "gives rows r
      (if k < 0 then after (put_spaces w) (\<lambda>_. give (asked c))
       else if k \<le> plus_size 0 (length ?ls) then
         if k - 0 < length ?ls then print_line wcs i (asked c) default_format False w (?ls ! (k - 0))
         else after (put_spaces w) (\<lambda>_. give (asked c))
       else after (put_spaces w) (\<lambda>_. give (asked c))) (asked c)
      (if k < length ?ls then '' '' @ trim (?ls ! k) @ r @ spaces (w - (length (trim (?ls ! k)) + 2)) @ '' '' else spaces w)"
    using gives_print_line [OF ij(1), of "asked c" "?ls ! k" r wcs w] line
    by (auto simp: h intro: gives_after [OF gives_put_spaces gives_give])
  have right: "gives rows r (if j + 1 = m then put_border (border_default ''|'') else give ()) ()
      (if j + 1 = m then ''|'' @ r else [])"
    using gives_put_border [of rows r "''|''"] by (simp add: gives_give)
  show "gives rows r
      (after (put_border (border_default ''|'')) (\<lambda>_.
       after (if k < 0 then after (put_spaces w) (\<lambda>_. give (asked c))
         else if k \<le> plus_size 0 (length ?ls) then
           if k - 0 < length ?ls then print_line wcs i (asked c) default_format False w (?ls ! (k - 0))
           else after (put_spaces w) (\<lambda>_. give (asked c))
         else after (put_spaces w) (\<lambda>_. give (asked c))) (\<lambda>_.
       after reset_element_style (\<lambda>_. if j + 1 = m then put_border (border_default ''|'') else give ())))) ()
      (draw_cell r w (rows ! i ! j) k @ (if j + 1 = m then ''|'' @ r else []))"
    by (rule gives_after [OF gives_put_border], rule gives_after [OF body],
        rule gives_after [OF gives_reset [folded reset_element_style_def]], rule right, rule refl, rule refl)
      (simp add: draw_cell_def Let_def)
qed

section \<open>Lines of the table\<close>

text \<open>A loop over the columns, the last of which writes more; a loop that ignores what it carries.\<close>

lemma concat_columns:
  "concat (map (\<lambda>j. a j @ (if j + 1 = m then b else [])) [0..<m]) = concat (map a [0..<m]) @ (if m = 0 then [] else b)"
proof (cases m)
  case (Suc n)
  then have "map (\<lambda>j. a j @ (if j = n then b else [])) [0..<n] = map a [0..<n]" by (intro map_cong) simp_all
  then have "concat (map (\<lambda>j. a j @ (if j = n then b else [])) [0..<n]) = concat (map a [0..<n])" by (rule arg_cong)
  with Suc show ?thesis by simp
qed simp

lemma gives_loop_unit:
  assumes "\<And>i. i \<in> set is \<Longrightarrow> gives rows r (f i ()) () (o1 i)"
  shows "gives rows r (loop f is ()) () (concat (map o1 is))"
  using gives_loop [of "is" rows r f "\<lambda>_ _. ()" o1 "()"] assms by simp

lemma gives_cell_border:
  assumes "i < length rows" "j < length (rows ! i)"
    and "side default_format = border_default [b]" "left default_format = mark_default ''+''" "right default_format = mark_default ''+''"
    and l: "has_locale wcs []"
  shows "gives rows r (print_cell_border wcs side left right i j w m) True
    (''+'' @ r @ concat (replicate w ([b] @ r)) @ (if j + 1 = m then ''+'' @ r else []))"
  unfolding print_cell_border_def
proof (rule gives_cell_at [OF assms(1,2)], intro with_cell assms(1) asked_simps(1), assumption, simp only: cell_steps open_locale_give [OF l],
    intro with_cell assms(1) asked_simps(1), simp only: assms(3-5))
  have dashes: "gives rows r (loop (\<lambda>_ _. put_border (border_default [b])) [0..<w] ()) () (concat (replicate w ([b] @ r)))"
    using gives_loop_unit [of "[0..<w]" rows r "\<lambda>_ _. put_border (border_default [b])" "\<lambda>_. [b] @ r"]
      gives_put_border [of rows r "[b]"] by (simp add: map_replicate_const)
  have corner: "gives rows r (if j + 1 = m then put_mark (mark_default ''+'') else give ()) () (if j + 1 = m then ''+'' @ r else [])"
    using gives_put_mark [of rows r "''+''"] by (simp add: gives_give)
  have "gives rows r (after (put_colored ''+'' No_Color No_Color) (\<lambda>_. after (loop (\<lambda>_ _. put_border (border_default [b])) [0..<w] ())
      (\<lambda>_. after (if j + 1 = m then put_mark (mark_default ''+'') else give ()) (\<lambda>_. give True)))) True
    (''+'' @ r @ concat (replicate w ([b] @ r)) @ (if j + 1 = m then ''+'' @ r else []))"
    by (rule gives_after [OF gives_put_colored], rule gives_after [OF dashes], rule gives_after [OF corner gives_give], rule refl, rule refl)
      simp
  then show "gives rows r
     (after (lift_res (deref (m_text (mark_default ''+'')))) (\<lambda>corner.
      after (lift_res (deref (m_color (mark_default ''+'')))) (\<lambda>color.
      after (lift_res (deref (m_background (mark_default ''+'')))) (\<lambda>background.
      after (lift_res (deref (b_text (border_default [b])))) (\<lambda>border.
      after (if corner = [] \<and> border = [] then give False else lift_res (deref (b_show (border_default [b])))) (\<lambda>shown.
      if \<not> shown then give False
      else after (put_colored corner color background) (\<lambda>_. after (loop (\<lambda>_ _. put_border (border_default [b])) [0..<w] ()) (\<lambda>_.
        after (if j + 1 = m then put_mark (mark_default ''+'') else give ()) (\<lambda>_. give True))))))))) True
     (''+'' @ r @ concat (replicate w ([b] @ r)) @ (if j + 1 = m then ''+'' @ r else []))"
    by simp
qed

lemma rule_columns:
  "concat (map (\<lambda>j. ''+'' @ r @ concat (replicate (ws ! j) (''-'' @ r)) @ (if j + 1 = length ws then ''+'' @ r else [])) [0..<length ws]) =
   draw_rule r ws"
proof -
  have "map (\<lambda>j. ''+'' @ r @ concat (replicate (ws ! j) (''-'' @ r))) [0..<length ws] =
      map (\<lambda>w. ''+'' @ r @ concat (replicate w (''-'' @ r))) ws" by (rule nth_equalityI) simp_all
  then show ?thesis
    using concat_columns [of "\<lambda>j. ''+'' @ r @ concat (replicate (ws ! j) (''-'' @ r))" "length ws" "''+'' @ r"]
    by (simp add: draw_rule_def)
qed

lemma line_columns:
  assumes "length row = length ws"
  shows "concat (map (\<lambda>j. draw_cell r (ws ! j) (row ! j) k @ (if j + 1 = length ws then ''|'' @ r else [])) [0..<length ws]) =
    draw_line r ws row k"
proof -
  have "map (\<lambda>j. draw_cell r (ws ! j) (row ! j) k) [0..<length ws] = map2 (\<lambda>w s. draw_cell r w s k) ws row"
    by (rule nth_equalityI) (simp_all add: assms)
  then show ?thesis
    using concat_columns [of "\<lambda>j. draw_cell r (ws ! j) (row ! j) k" "length ws" "''|'' @ r"] by (simp add: draw_line_def)
qed

lemma gives_end_line: "gives rows r end_line () (r @ [CHR 0x0A])"
  unfolding end_line_def by (rule gives_after [OF gives_reset gives_put refl])

lemma between_lines:
  "concat (map (\<lambda>k. f k @ (if k + 1 < h then eol else [])) [0..<h]) = between eol (map f [0..<h])"
proof (induction h arbitrary: f)
  case (Suc h)
  have "[0..<Suc h] = 0 # map Suc [0..<h]" by (simp add: upt_conv_Cons map_Suc_upt del: upt_Suc)
  moreover have "between eol (f 0 # map (\<lambda>k. f (Suc k)) [0..<h]) =
      f 0 @ (if 0 < h then eol else []) @ between eol (map (\<lambda>k. f (Suc k)) [0..<h])"
    by (cases h) (simp_all add: upt_conv_Cons del: upt_Suc)
  ultimately show ?case using Suc.IH [of "\<lambda>k. f (Suc k)"] by (simp add: comp_def del: upt_Suc)
qed simp

lemma gives_bottom_needed:
  assumes "grid m rows" "i < length rows"
  shows "gives rows r (bottom_border_needed i m) True []"
proof -
  have "gives rows r
      (if \<not> needed then give False
       else after (cell_at i j) (\<lambda>c. after (copy_format i c) (\<lambda>(f, c).
            after (lift_res (deref (m_text (fm_corner_bottom_left f)))) (\<lambda>corner.
            after (lift_res (deref (b_text (fm_border_bottom f)))) (\<lambda>border.
            give (\<not> (corner = [] \<and> border = []))))))) needed []" if "j < m" for j needed
  proof (cases needed)
    case True
    with grid_cell [OF assms that] assms(2) show ?thesis
      by simp (intro gives_cell_at with_cell, simp_all add: gives_give)
  qed (simp add: gives_give)
  then have "gives rows r (bottom_border_needed i m) (fold (\<lambda>_ b. b) [0..<m] True) []"
    unfolding bottom_border_needed_def by (intro gives_loop_quiet) simp
  then show ?thesis by (simp add: fold_keep)
qed

lemma gives_rule:
  assumes "grid m rows" "i < length rows" "m = 0 \<or> has_locale wcs []"
  shows "gives rows r (loop (\<lambda>j printed. after (print_cell_border_top wcs i j (column_widths rows m ! j) m) (\<lambda>b. give (printed \<and> b)))
      [0..<m] True) True (draw_rule r (column_widths rows m))" (is ?top)
    and "gives rows r (loop (\<lambda>j _. after (print_cell_border_bottom wcs i j (column_widths rows m ! j) m) (\<lambda>_. give ())) [0..<m] ()) ()
      (draw_rule r (column_widths rows m))" (is ?bottom)
proof -
  let ?out = "\<lambda>j. ''+'' @ r @ concat (replicate (column_widths rows m ! j) (''-'' @ r)) @ (if j + 1 = m then ''+'' @ r else [])"
  have rule_: "concat (map ?out [0..<m]) = draw_rule r (column_widths rows m)"
    using rule_columns [of r "column_widths rows m"] by simp
  have top: "gives rows r (print_cell_border_top wcs i j w m) True (''+'' @ r @ concat (replicate w (''-'' @ r)) @ (if j + 1 = m then ''+'' @ r else []))"
    and bottom: "gives rows r (print_cell_border_bottom wcs i j w m) True (''+'' @ r @ concat (replicate w (''-'' @ r)) @ (if j + 1 = m then ''+'' @ r else []))"
    if "j < m" for j w
    using assms(2,3) that grid_cell [OF assms(1,2) that] unfolding print_cell_border_top_def print_cell_border_bottom_def
    by (intro gives_cell_border; simp)+
  have "gives rows r (loop (\<lambda>j printed. after (print_cell_border_top wcs i j (column_widths rows m ! j) m) (\<lambda>b. give (printed \<and> b)))
      [0..<m] True) (fold (\<lambda>_ p. p) [0..<m] True) (concat (map ?out [0..<m]))"
    by (rule gives_loop, rule gives_after [OF top, where ?o2.0 = "[]"]) (simp_all add: gives_give)
  then show ?top by (simp only: rule_ fold_keep)
  have "gives rows r (loop (\<lambda>j _. after (print_cell_border_bottom wcs i j (column_widths rows m ! j) m) (\<lambda>_. give ())) [0..<m] ()) ()
      (concat (map ?out [0..<m]))"
    by (rule gives_loop_unit, rule gives_after [OF bottom, where ?o2.0 = "[]"]) (simp_all add: gives_give)
  then show ?bottom by (simp only: rule_)
qed

lemma gives_line:
  assumes "grid m rows" "i < length rows" "m = 0 \<or> has_locale wcs []"
  shows "gives rows r (loop (\<lambda>j _. print_row_in_cell wcs i j (column_widths rows m ! j) m k (map getlines (rows ! i) ! j)) [0..<m] ()) ()
    (draw_line r (column_widths rows m) (rows ! i) k)"
proof -
  have len: "length (rows ! i) = m" using assms by (simp add: grid_def)
  have "gives rows r (loop (\<lambda>j _. print_row_in_cell wcs i j (column_widths rows m ! j) m k (map getlines (rows ! i) ! j)) [0..<m] ()) ()
      (concat (map (\<lambda>j. draw_cell r (column_widths rows m ! j) (rows ! i ! j) k @ (if j + 1 = m then ''|'' @ r else [])) [0..<m]))"
    using gives_row_in_cell [OF assms(2)] grid_cell [OF assms(1,2)] assms(3) by (intro gives_loop_unit) simp
  then show ?thesis using line_columns [of "rows ! i" "column_widths rows m" r k] len by simp
qed

lemma gives_table_row:
  fixes r :: string
  assumes "grid m rows" "i < length rows" "m = 0 \<or> has_locale wcs []"
  defines "ws \<equiv> column_widths rows m" and "eol \<equiv> r @ [CHR 0x0A]"
  shows "gives rows r (print_table_row wcs (length rows) m ws (row_height (rows ! i)) (map getlines (rows ! i)) i) ()
    ((draw_rule r ws @ eol @ between eol (map (draw_line r ws (rows ! i)) [0..<row_height (rows ! i)]) @ eol) @
     (if i + 1 = length rows then draw_rule r ws else []))"
proof -
  let ?h = "row_height (rows ! i)"
  note eol = gives_end_line [of rows r, folded eol_def]
  have content: "gives rows r (loop (\<lambda>k _.
       after (loop (\<lambda>j _. print_row_in_cell wcs i j (ws ! j) m k (map getlines (rows ! i) ! j)) [0..<m] ()) (\<lambda>_.
       if k + 1 < ?h then end_line else give ())) [0..<?h] ()) ()
      (concat (map (\<lambda>k. draw_line r ws (rows ! i) k @ (if k + 1 < ?h then eol else [])) [0..<?h]))"
    unfolding ws_def
    by (rule gives_loop_unit, rule gives_after [OF gives_line [OF assms(1-3)]]) (auto intro: eol gives_give)
  have bottom: "gives rows r
      (if i + 1 = length rows then
         after (bottom_border_needed i m) (\<lambda>needed. after (if needed then end_line else give ()) (\<lambda>_.
         loop (\<lambda>j _. after (print_cell_border_bottom wcs i j (ws ! j) m) (\<lambda>_. give ())) [0..<m] ()))
       else give ()) () (if i + 1 = length rows then eol @ draw_rule r ws else [])"
  proof (cases "i + 1 = length rows")
    case True
    show ?thesis
      by (simp only: True simp_thms if_True, intro gives_quiet [OF gives_bottom_needed [OF assms(1,2)]], simp only: if_True,
          rule gives_after [OF eol], rule gives_rule(2) [OF assms(1-3), folded ws_def], rule refl)
  qed (simp add: gives_give)
  have last: "gives rows r (if i + 1 < length rows then end_line else give ()) () (if i + 1 < length rows then eol else [])"
    by (simp add: eol gives_give)
  show ?thesis
    unfolding print_table_row_def
    by (rule gives_after [OF gives_rule(1) [OF assms(1-3), folded ws_def]], simp only: if_True, rule gives_after [OF eol],
        rule gives_after [OF content], rule gives_after [OF bottom], rule last, rule refl, rule refl, rule refl)
      (use assms(2) in \<open>auto simp: between_lines [simplified]\<close>)
qed

lemma plain_columns:
  assumes "grid m rows" "plain_table rows t"
  shows "estimate_num_columns t = (if rows = [] then 0 else m)"
proof (cases "rows = []")
  case False
  with plain_row_nth [OF assms(2), of 0] have "length (tr_cells (tt_rows t ! 0)) = length (rows ! 0)"
    by (metis length_greater_0_conv length_map)
  with False plain_table_length [OF assms(2)] assms(1) show ?thesis by (simp add: estimate_num_columns_def table_size_def grid_def)
qed (use plain_table_length [OF assms(2)] in \<open>simp add: estimate_num_columns_def table_size_def\<close>)

lemma gives_print_table:
  assumes "grid m rows" "rows = [] \<or> m = 0 \<or> has_locale wcs []"
  shows "gives rows r (print_table wcs) () (draw_table r m rows)"
proof -
  let ?m = "if rows = [] then 0 else m"
  let ?ws = "column_widths rows ?m" and ?eol = "r @ [CHR 0x0A]"
  have g: "grid ?m rows" and l: "?m = 0 \<or> has_locale wcs []" using assms by (auto simp: grid_def)
  have "gives rows r (loop (\<lambda>i _. print_table_row wcs (length rows) ?m ?ws (map row_height rows ! i) (map (map getlines) rows ! i) i)
      [0..<length rows] ()) ()
      (concat (map (\<lambda>i. (draw_rule r ?ws @ ?eol @ between ?eol (map (draw_line r ?ws (rows ! i)) [0..<row_height (rows ! i)]) @ ?eol) @
        (if i + 1 = length rows then draw_rule r ?ws else [])) [0..<length rows]))"
    using gives_table_row [OF g _ l] by (intro gives_loop_unit) simp
  moreover have "concat (map (\<lambda>i. (draw_rule r ?ws @ ?eol @ between ?eol (map (draw_line r ?ws (rows ! i)) [0..<row_height (rows ! i)]) @ ?eol) @
        (if i + 1 = length rows then draw_rule r ?ws else [])) [0..<length rows]) = draw_table r m rows"
    unfolding concat_columns
    using map_nth_rows [of "\<lambda>row. draw_rule r ?ws @ ?eol @ between ?eol (map (draw_line r ?ws row) [0..<row_height row]) @ ?eol" rows]
    by (simp add: draw_table_def Let_def)
  ultimately have "gives rows r (after (compute_cell_dimensions wcs (length rows) ?m) (\<lambda>(heights, widths).
      after (split_cells wcs (length rows) ?m widths) (\<lambda>cells.
      loop (\<lambda>i _. print_table_row wcs (length rows) ?m widths (heights ! i) (cells ! i) i) [0..<length rows] ()))) () (draw_table r m rows)"
    by (intro gives_quiet [OF gives_dimensions [OF g]], simp only: prod.case, intro gives_quiet [OF gives_split_cells [OF g]]) simp
  moreover have "estimate_num_columns t = ?m" if "plain_table rows t" for t using plain_columns [OF assms(1) that] by simp
  ultimately show ?thesis
    by (elim gives_cong [rotated]) (simp add: print_table_def Let_def table_size_def plain_table_length)
qed

section \<open>A locale that does not exist\<close>

lemma raises_open_locale: "\<not> has_locale wcs l \<Longrightarrow> raises rows r (open_locale wcs l) Uncaught_Exception"
  by (simp add: raises_def open_locale_def std_locale_def has_locale_def after_def lift_res_def)

lemma raises_print_table:
  assumes "grid m rows" "rows \<noteq> []" "m \<noteq> 0" "\<not> has_locale wcs []"
  shows "raises rows r (print_table wcs) Uncaught_Exception"
proof -
  let ?n = "length rows" and ?ws = "column_widths rows m"
  have cols: "[0..<m] = 0 # [1..<m]" and rws: "[0..<?n] = 0 # [1..<?n]" using assms(2,3) by (simp_all add: upt_conv_Cons)
  have cell: "0 < ?n" "0 < length (rows ! 0)" using assms(2,3) grid_cell [OF assms(1), of 0 0] by auto
  have "raises rows r (print_cell_border_top wcs 0 0 (?ws ! 0) m) Uncaught_Exception"
    unfolding print_cell_border_top_def print_cell_border_def
    by (rule raises_cell_at [OF cell], rule raises_after [OF gives_copy_locale [OF cell(1)]], assumption, simp only: prod.case,
        rule raises_first [OF raises_open_locale [OF assms(4)]])
  then have "raises rows r (print_table_row wcs ?n m ?ws h cells 0) Uncaught_Exception" for h cells
    unfolding print_table_row_def cols by (simp add: raises_first del: upt_Suc)
  then have loop: "raises rows r (loop (\<lambda>i _. print_table_row wcs ?n m ?ws (hs ! i) (cs ! i) i) [0..<?n] ()) Uncaught_Exception" for hs cs
    unfolding rws by (simp add: raises_first del: upt_Suc)
  have "raises rows r (after (compute_cell_dimensions wcs ?n m) (\<lambda>(heights, widths).
      after (split_cells wcs ?n m widths) (\<lambda>cells.
      loop (\<lambda>i _. print_table_row wcs ?n m widths (heights ! i) (cells ! i) i) [0..<?n] ()))) Uncaught_Exception"
    by (rule raises_after [OF gives_dimensions [OF assms(1)]], simp only: prod.case,
        rule raises_after [OF gives_split_cells [OF assms(1)]], rule loop)
  moreover have "estimate_num_columns t = m" "table_size t = ?n" if "plain_table rows t" for t
    using plain_columns [OF assms(1) that] assms(2) plain_table_length [OF that] by (simp_all add: table_size_def)
  ultimately show ?thesis by (simp add: raises_def print_table_def Let_def)
qed

section \<open>Building a table\<close>

text \<open>A table to which rows of \<open>m\<close> texts were added.\<close>

definition built :: "nat \<Rightarrow> string list list \<Rightarrow> text_table \<Rightarrow> bool" where
  "built m rows t \<longleftrightarrow> plain_table rows (tb_table t) \<and> tb_rows t = length rows \<and> (rows \<noteq> [] \<longrightarrow> tb_cols t = m)"

lemma row_strings:
  assumes "length xs = length row" "n \<le> length row"
  shows "each (\<lambda>i strings. andthen (row_value_text wcs (map Row_String row ! i)) (\<lambda>s. Inr (strings[i := s]))) [0..<n] xs =
    Inr (take n row @ drop n xs)"
  using assms(2)
proof (induction n)
  case (Suc n)
  have "(take n row @ drop n xs)[n := row ! n] = take (Suc n) row @ drop (Suc n) xs"
    using Suc.prems assms(1) by (simp add: list_update_append take_Suc_conv_app_nth Cons_nth_drop_Suc [symmetric])
  with Suc show ?case by (simp add: each_append row_value_text_def)
qed simp

lemma fold_add_cell: "fold (\<lambda>c. add_cell (cell_new c)) cs row = row\<lparr>tr_cells := tr_cells row @ map cell_new cs\<rparr>"
  by (induction cs arbitrary: row) (simp_all add: add_cell_def)

lemma internal_add_row_plain: "plain_table rows t \<Longrightarrow> plain_table (rows @ [row]) (internal_add_row row t)"
  by (simp add: plain_table_def internal_add_row_def fold_add_cell row_new_def plain_row_def Let_def comp_def)
    (simp add: cell_new_def)

lemma table_add_row_built:
  assumes "built m rows t" "length row = m"
  shows "\<exists>t'. table_add_row wcs (map Row_String row) t = Inr t' \<and> built m (rows @ [row]) t'"
proof -
  let ?t = "if tb_rows t = 0 then t\<lparr>tb_cols := length (map Row_String row)\<rparr> else t"
  have t: "tb_cols ?t = m" "tb_table ?t = tb_table t" "tb_rows ?t = length rows"
    using assms by (auto simp: built_def)
  then have "table_add_row wcs (map Row_String row) t =
      Inr (?t\<lparr>tb_table := internal_add_row row (tb_table t), tb_rows := length rows + 1\<rparr>)"
    using row_strings [of "replicate m []" row m wcs] assms(2)
    unfolding table_add_row_def Let_def by simp
  moreover have "built m (rows @ [row]) (?t\<lparr>tb_table := internal_add_row row (tb_table t), tb_rows := length rows + 1\<rparr>)"
    using assms t by (simp add: built_def internal_add_row_plain)
  ultimately show ?thesis by blast
qed

lemma table_built:
  "list_all (\<lambda>row. length row = m) rows \<Longrightarrow> built m done t \<Longrightarrow>
   \<exists>t'. each (\<lambda>row. table_add_row wcs (map Row_String row)) rows t = Inr t' \<and> built m (done @ rows) t'"
proof (induction rows arbitrary: "done" t)
  case (Cons row rows)
  then obtain t1 where "table_add_row wcs (map Row_String row) t = Inr t1" "built m (done @ [row]) t1"
    using table_add_row_built by fastforce
  with Cons.IH [of "done @ [row]" t1] Cons.prems show ?case by auto
qed simp

lemma new_built: "built m [] table_new"
  by (simp add: built_def table_new_def plain_table_def table_create_def default_format_def)

lemma grid_printed:
  assumes "grid m rows"
  shows "\<exists>t t'. each (\<lambda>row. table_add_row wcs (map Row_String row)) rows table_new = Inr t \<and>
    table_print wcs os t =
      (if rows = [] \<or> m = 0 \<or> has_locale wcs [] then Inr (put (draw_table (reset_text os) m rows) os, t')
       else Inl Uncaught_Exception)"
proof -
  from assms have "list_all (\<lambda>row. length row = m) rows" by (simp add: grid_def list_all_iff)
  from table_built [OF this new_built] obtain t where
    t: "each (\<lambda>row. table_add_row wcs (map Row_String row)) rows table_new = Inr t" "built m rows t" by auto
  let ?st = "\<lparr>pr_table = tb_table t, pr_stream = os\<rparr>"
  have st: "plain_table rows (pr_table ?st) \<and> reset_text (pr_stream ?st) = reset_text os" using t(2) by (simp add: built_def)
  show ?thesis
  proof (cases "rows = [] \<or> m = 0 \<or> has_locale wcs []")
    case True
    from st gives_print_table [OF assms True, of "reset_text os"] obtain tt where
      "print_table wcs ?st = Inr ((), ?st\<lparr>pr_table := tt, pr_stream := put (draw_table (reset_text os) m rows) os\<rparr>)"
      unfolding gives_def by fastforce
    with t True show ?thesis by (simp add: table_print_def)
  next
    case False
    with st raises_print_table [OF assms, of wcs "reset_text os"] have "print_table wcs ?st = Inl Uncaught_Exception"
      by (simp add: raises_def)
    with t False show ?thesis by (simp add: table_print_def)
  qed
qed

section \<open>The lines of the drawing\<close>

text \<open>Without colours. A row whose texts are all empty has no line of its own; an empty line stands for it.\<close>

definition drawn_row :: "nat list \<Rightarrow> string list \<Rightarrow> string list" where
  "drawn_row ws row = draw_rule [] ws # (if row_height row = 0 then [[]] else map (draw_line [] ws row) [0..<row_height row])"

lemma getlines_ended:
  "list_all (\<lambda>l. CHR 0x0A \<notin> set l) ls \<Longrightarrow> getlines (concat (map (\<lambda>l. l @ [CHR 0x0A]) ls) @ s) = ls @ getlines s"
  by (induction ls) (simp_all add: getlines_break)

lemma between_ended: "between sep ls @ sep = (if ls = [] then sep else concat (map (\<lambda>l. l @ sep) ls))"
  by (induction sep ls rule: between.induct) simp_all

lemma drawn_row_text:
  "draw_rule [] ws @ [CHR 0x0A] @ between [CHR 0x0A] (map (draw_line [] ws row) [0..<row_height row]) @ [CHR 0x0A] =
   concat (map (\<lambda>l. l @ [CHR 0x0A]) (drawn_row ws row))"
  using between_ended [of "[CHR 0x0A]" "map (draw_line [] ws row) [0..<row_height row]"] by (auto simp: drawn_row_def)

lemma draw_rule_length: "length (draw_rule [] ws) = (if ws = [] then 0 else sum_list (map Suc ws) + 1)"
  by (auto simp: draw_rule_def length_concat comp_def)

lemma draw_rule_plain: "CHR 0x0A \<notin> set (draw_rule [] ws)"
  by (auto simp: draw_rule_def)

lemma set_trim: "set (trim s) \<subseteq> set s"
  unfolding trim_def trim_left_def trim_right_def by (metis set_dropWhileD set_rev subsetI)

lemma draw_cell_plain: "CHR 0x0A \<notin> set (draw_cell [] w s k)"
  using getlines_plain [of "getlines s ! k" s] set_trim [of "getlines s ! k"]
  by (auto simp: draw_cell_def spaces_def Let_def)

lemma draw_line_plain: "CHR 0x0A \<notin> set (draw_line [] ws row k)"
  using draw_cell_plain by (auto simp: draw_line_def)

lemma line_width: "l \<in> set (getlines s) \<Longrightarrow> length l \<le> text_width s"
  using fold_max_ge [of 0 "map length (getlines s)"] getlines_plain [of l s] by (auto simp: text_width_def)

lemma draw_cell_length:
  assumes "text_width s + 2 \<le> w"
  shows "length (draw_cell [] w s k) = Suc w"
proof (cases "k < length (getlines s)")
  case True
  from length_trim [of "getlines s ! k"] line_width [OF nth_mem [OF True]] assms True show ?thesis
    by (simp add: draw_cell_def spaces_def Let_def)
qed (simp add: draw_cell_def spaces_def)

lemma draw_line_length:
  "list_all2 (\<lambda>w s. text_width s + 2 \<le> w) ws row \<Longrightarrow>
   length (draw_line [] ws row k) = (if ws = [] then 0 else sum_list (map Suc ws) + 1)"
proof -
  assume a: "list_all2 (\<lambda>w s. text_width s + 2 \<le> w) ws row"
  have "length (concat (map2 (\<lambda>w s. draw_cell [] w s k) ws row)) = sum_list (map Suc ws)"
    using a by (induction rule: list_all2_induct) (simp_all add: draw_cell_length)
  then show ?thesis by (auto simp: draw_line_def)
qed

lemma row_fits_columns:
  assumes "grid m rows" "row \<in> set rows"
  shows "list_all2 (\<lambda>w s. text_width s + 2 \<le> w) (column_widths rows m) row"
  using assms column_widths_nth(2) [OF assms(1) _ assms(2)] by (simp add: list_all2_conv_all_nth grid_def)

lemma concat_map_lines: "concat (map (\<lambda>row. concat (map g (f row))) rows) = concat (map g (concat (map f rows)))"
  by (induction rows) simp_all

lemma drawing_lines:
  assumes "rows \<noteq> []"
  shows "getlines (draw_table [] m rows) =
    concat (map (drawn_row (column_widths rows m)) rows) @ (if m = 0 then [] else [draw_rule [] (column_widths rows m)])"
proof -
  let ?ws = "column_widths rows m"
  have "draw_table [] m rows = concat (map (\<lambda>l. l @ [CHR 0x0A]) (concat (map (drawn_row ?ws) rows))) @ draw_rule [] ?ws"
    using assms by (simp only: draw_table_def Let_def append_Nil drawn_row_text if_False concat_map_lines)
  moreover have "list_all (\<lambda>l. CHR 0x0A \<notin> set l) (concat (map (drawn_row ?ws) rows))"
    by (auto simp: list_all_iff drawn_row_def draw_rule_plain draw_line_plain split: if_splits)
  moreover have "?ws = [] \<longleftrightarrow> m = 0" using length_column_widths [of rows m] by (metis length_0_conv)
  moreover have "draw_rule [] ?ws = [] \<longleftrightarrow> ?ws = []" by (cases ?ws) (simp_all add: draw_rule_def)
  ultimately show ?thesis by (simp add: getlines_ended getlines_no_newline [OF draw_rule_plain])
qed

lemma drawing_straight:
  assumes "grid m rows" "l \<in> set (getlines (draw_table [] m rows))"
  shows "l = [] \<or> length l = sum_list (map Suc (column_widths rows m)) + 1"
proof (cases "rows = []")
  case True
  with assms(2) show ?thesis by (simp add: draw_table_def getlines_no_newline)
next
  case False
  let ?ws = "column_widths rows m"
  have "length (draw_line [] ?ws row k) = (if ?ws = [] then 0 else sum_list (map Suc ?ws) + 1)" if "row \<in> set rows" for row k
    using draw_line_length [OF row_fits_columns [OF assms(1) that]] .
  moreover have "draw_rule [] [] = []" by (simp add: draw_rule_def)
  ultimately show ?thesis
    using assms(2) by (auto simp: drawing_lines [OF False] drawn_row_def draw_rule_length split: if_splits)
qed

text \<open>So is what the printer writes.\<close>

lemma string_stream_empty [simp]: "os_text string_stream = []"
  by (simp add: string_stream_def)

lemma printed_straight:
  assumes "grid m rows" "each (\<lambda>row. table_add_row wcs (map Row_String row)) rows table_new = Inr t"
    and "table_str wcs t = Inr (s, t')" "l \<in> set (getlines s)"
  shows "l = [] \<or> length l = sum_list (map Suc (column_widths rows m)) + 1"
proof -
  from grid_printed [OF assms(1), of wcs string_stream] assms(2,3) have "s = draw_table [] m rows"
    by (auto simp: table_str_def split: if_splits)
  with drawing_straight [OF assms(1)] assms(4) show ?thesis by blast
qed

end
