(* ===== verification/Table_Export.thy ===== *)
theory Table_Export
  imports Table_Drawn Table_Style
begin

text \<open>
  The formats of whole columns and the exporters of \<open>src/bin/tabulate.h\<close>, which no file of the program
  uses: tables as LaTeX, AsciiDoc and Markdown.
\<close>

section \<open>Formats of columns\<close>

text \<open>Every setter of \<open>ColumnFormat\<close> applies the setter of the same name to the cells of the column.\<close>

definition style_column :: "nat \<Rightarrow> (format \<Rightarrow> format) \<Rightarrow> unit pop" where
  "style_column j g = after (table_column j) (\<lambda>cells. loop (\<lambda>(i, j) _. style_cell i j g) cells ())"

section \<open>LaTeX\<close>

text \<open>\<open>value()\<close> of an optional throws where \<open>*\<close> is undefined.\<close>

definition value_of :: "'a option \<Rightarrow> 'a res" where
  "value_of x = (case x of None \<Rightarrow> Inl Uncaught_Exception | Some y \<Rightarrow> Inr y)"

definition cell_align :: "nat \<Rightarrow> nat \<Rightarrow> font_align pop" where
  "cell_align i j = after (cell_format i j) (\<lambda>f. lift_res (value_of (fm_font_align f)))"

fun latex_letter :: "font_align \<Rightarrow> string" where
  "latex_letter Align_Left = ''l''"
| "latex_letter Align_Center = ''c''"
| "latex_letter Align_Right = ''r''"

definition latex_header :: "string pop" where
  "latex_header =
     after (row_size 0) (\<lambda>n.
     after (loop (\<lambda>j result. after (cell_align 0 j) (\<lambda>a. give (result @ latex_letter a))) [0..<n] ''{'') (\<lambda>result.
     give (result @ ''}'')))"

text \<open>A row, and the whole text; the indentation is the one of \<open>ExportOptions\<close>.\<close>

definition latex_row :: "nat option \<Rightarrow> nat \<Rightarrow> string \<Rightarrow> string pop" where
  "latex_row indentation i result =
     after (row_size i) (\<lambda>n.
     after (loop (\<lambda>j result.
         after (cell_text i j) (\<lambda>s.
         give (result @ s @ (if j < n - 1 then '' & '' else '' '' @ [CHR 0x5C, CHR 0x5C]))))
       [0..<n] (case indentation of None \<Rightarrow> result | Some k \<Rightarrow> result @ replicate k (CHR '' ''))) (\<lambda>result.
     give (result @ [CHR 0x0A])))"

definition latex_text :: "nat option \<Rightarrow> nat \<Rightarrow> string pop" where
  "latex_text indentation rows =
     after latex_header (\<lambda>header.
     after (loop (latex_row indentation) [0..<rows]
       (CHR 0x5C # ''begin{tabular}'' @ [CHR 0x0A] @ header @ [CHR 0x0A])) (\<lambda>result.
     give (result @ CHR 0x5C # ''end{tabular}'')))"

text \<open>An export reads the table and stores formats in it.\<close>

definition exported :: "(nat \<Rightarrow> string pop) \<Rightarrow> text_table \<Rightarrow> (string \<times> text_table) res" where
  "exported m t =
     andthen (m (tb_rows t) \<lparr>pr_table = tb_table t, pr_stream = string_stream\<rparr>) (\<lambda>(s, st).
     Inr (s, t\<lparr>tb_table := pr_table st\<rparr>))"

definition latex_dump :: "nat option \<Rightarrow> text_table \<Rightarrow> (string \<times> text_table) res" where
  "latex_dump indentation = exported (latex_text indentation)"

section \<open>AsciiDoc\<close>

fun asciidoc_letter :: "font_align \<Rightarrow> string" where
  "asciidoc_letter Align_Left = ''<''"
| "asciidoc_letter Align_Center = ''^''"
| "asciidoc_letter Align_Right = ''>''"

definition asciidoc_header :: "string pop" where
  "asciidoc_header =
     after (row_size 0) (\<lambda>n.
     after (loop (\<lambda>j result.
         after (cell_align 0 j) (\<lambda>a.
         give (result @ asciidoc_letter a @ (if j + 1 \<noteq> n then '','' else []))))
       [0..<n] (''[cols='' @ [CHR 0x22])) (\<lambda>result.
     give (result @ [CHR 0x22] @ '']'' @ [CHR 0x0A] @ ''|==='')))"

definition asciidoc_cell :: "nat \<Rightarrow> nat \<Rightarrow> string pop" where
  "asciidoc_cell i j =
     after (cell_format i j) (\<lambda>f. after (cell_text i j) (\<lambda>s.
     after (lift_res (value_of (fm_font_style f))) (\<lambda>styles.
     let bold = (if Bold \<in> set styles then ''*'' else []); italic = (if Italic \<in> set styles then ''_'' else []) in
     give (bold @ italic @ s @ italic @ bold))))"

definition asciidoc_row :: "nat \<Rightarrow> string \<Rightarrow> string pop" where
  "asciidoc_row i result =
     after (row_size i) (\<lambda>n.
     after (loop (\<lambda>j result. after (asciidoc_cell i j) (\<lambda>s. give (result @ ''|'' @ s))) [0..<n] result) (\<lambda>result.
     give (result @ [CHR 0x0A] @ (if i = 0 then [CHR 0x0A] else []))))"

definition asciidoc_text :: "nat \<Rightarrow> string pop" where
  "asciidoc_text rows =
     after asciidoc_header (\<lambda>header.
     after (loop asciidoc_row [0..<rows] (header @ [CHR 0x0A])) (\<lambda>result.
     give (result @ ''|==='')))"

definition asciidoc_dump :: "text_table \<Rightarrow> (string \<times> text_table) res" where
  "asciidoc_dump = exported asciidoc_text"

section \<open>Markdown\<close>

text \<open>The exporter remembers the formats of the cells, in a vector that nothing clears.\<close>

definition markdown_style :: "format \<Rightarrow> format" where
  "markdown_style f =
     fmt_corner ''|'' (fmt_column_separator ''|'' (fmt_border_right ''|'' (fmt_border_left ''|''
       (fmt_hide_border_bottom (fmt_hide_border_top f)))))"

fun markdown_rule :: "font_align \<Rightarrow> string" where
  "markdown_rule Align_Left = '':----''"
| "markdown_rule Align_Center = '':---:''"
| "markdown_rule Align_Right = ''----:''"

text \<open>A row that is not in the table yet, and a cell of it.\<close>

definition new_row_format :: "trow \<Rightarrow> (format \<times> trow) pop" where
  "new_row_format row =
     after (case tr_format row of
              None \<Rightarrow> table_format
            | Some f \<Rightarrow> after table_format (\<lambda>p. lift_res (merge_format f p))) (\<lambda>f.
     give (f, row\<lparr>tr_format := Some f\<rparr>))"

definition style_new_cell :: "(format \<Rightarrow> format) \<Rightarrow> tcell \<Rightarrow> trow \<Rightarrow> (tcell \<times> trow) pop" where
  "style_new_cell g c row =
     after (new_row_format row) (\<lambda>(p, row).
     after (case tc_format c of None \<Rightarrow> give p | Some f \<Rightarrow> lift_res (merge_format f p)) (\<lambda>f.
     give (c\<lparr>tc_format := Some (g f)\<rparr>, row)))"

definition alignment_cell :: "string \<Rightarrow> trow \<Rightarrow> trow pop" where
  "alignment_cell s row =
     after (style_new_cell markdown_style (cell_new []) row) (\<lambda>(c, row).
     let c = c\<lparr>tc_text := s\<rparr> in
     after (if s = '':---:'' then style_new_cell (fmt_font_align Align_Center) c row
            else if s = ''----:'' then style_new_cell (fmt_font_align Align_Right) c row
            else give (c, row)) (\<lambda>(c, row).
     give (add_cell c row)))"

definition insert_row :: "trow \<Rightarrow> unit pop" where
  "insert_row row st =
     (let rows = tt_rows (pr_table st) in
      Inr ((), st\<lparr>pr_table := (pr_table st)
        \<lparr>tt_rows := (if length rows > 1 then take 1 rows @ row # drop 1 rows else rows @ [row])\<rparr>\<rparr>))"

definition add_alignment_header_row :: "unit pop" where
  "add_alignment_header_row st =
     (if table_size (pr_table st) \<ge> 1 then
        after (row_size 0) (\<lambda>n.
        after (loop (\<lambda>j cells. after (cell_align 0 j) (\<lambda>a. give (cells @ [markdown_rule a]))) [0..<n] []) (\<lambda>cells.
        after (loop alignment_cell cells row_new) insert_row)) st
      else give () st)"

text \<open>\<open>begin() + 1\<close> has to be a row of the vector.\<close>

definition remove_alignment_header_row :: "unit pop" where
  "remove_alignment_header_row st =
     (let rows = tt_rows (pr_table st) in
      if length rows > 1
      then Inr ((), st\<lparr>pr_table := (pr_table st)\<lparr>tt_rows := take 1 rows @ drop 2 rows\<rparr>\<rparr>)
      else Inl Out_Of_Bounds)"

definition apply_markdown_format :: "format list \<Rightarrow> format list pop" where
  "apply_markdown_format formats st =
     after (loop (\<lambda>i formats.
         after (row_size i) (\<lambda>n.
         loop (\<lambda>j formats.
           after (cell_format i j) (\<lambda>f. after (style_cell i j markdown_style) (\<lambda>_. give (formats @ [f])))) [0..<n] formats))
       [0..<table_size (pr_table st)] formats) (\<lambda>formats.
     after add_alignment_header_row (\<lambda>_. give formats)) st"

definition restore_cell :: "format list \<Rightarrow> nat \<Rightarrow> nat \<Rightarrow> nat \<Rightarrow> nat pop" where
  "restore_cell formats i j k =
     (if k < length formats then after (style_cell i j (\<lambda>_. formats ! k)) (\<lambda>_. give (k + 1)) else fail Out_Of_Bounds)"

definition restore_row :: "format list \<Rightarrow> nat \<Rightarrow> nat \<Rightarrow> nat pop" where
  "restore_row formats i k = after (row_size i) (\<lambda>n. loop (restore_cell formats i) [0..<n] k)"

definition restore_table_format :: "format list \<Rightarrow> unit pop" where
  "restore_table_format formats =
     after remove_alignment_header_row (\<lambda>_ st.
     after (loop (restore_row formats) [0..<table_size (pr_table st)] 0) (\<lambda>_. give ()) st)"

definition markdown_dump ::
  "locales \<Rightarrow> text_table \<Rightarrow> format list \<Rightarrow> (string \<times> text_table \<times> format list) res" where
  "markdown_dump wcs t formats =
     andthen (apply_markdown_format formats \<lparr>pr_table = tb_table t, pr_stream = string_stream\<rparr>) (\<lambda>(formats, st).
     andthen (table_str wcs (t\<lparr>tb_table := pr_table st\<rparr>)) (\<lambda>(result, t).
     andthen (restore_table_format formats \<lparr>pr_table = tb_table t, pr_stream = string_stream\<rparr>) (\<lambda>(_, st).
     Inr (result, t\<lparr>tb_table := pr_table st\<rparr>, formats))))"

section \<open>What LaTeX and AsciiDoc get\<close>

text \<open>The texts of a table whose formats nobody has set: columns to the left, no styles.\<close>

definition latex_line :: "nat option \<Rightarrow> string list \<Rightarrow> string" where
  "latex_line indentation row =
     (case indentation of None \<Rightarrow> [] | Some k \<Rightarrow> spaces k) @
     between '' & '' row @ (if row = [] then [] else '' '' @ [CHR 0x5C, CHR 0x5C]) @ [CHR 0x0A]"

definition latex_table :: "nat option \<Rightarrow> nat \<Rightarrow> string list list \<Rightarrow> string" where
  "latex_table indentation m rows =
     CHR 0x5C # ''begin{tabular}'' @ [CHR 0x0A] @ ''{'' @ replicate m (CHR ''l'') @ ''}'' @ [CHR 0x0A] @
     concat (map (latex_line indentation) rows) @ CHR 0x5C # ''end{tabular}''"

definition asciidoc_line :: "string list \<Rightarrow> string" where
  "asciidoc_line row = concat (map (\<lambda>s. CHR ''|'' # s) row) @ [CHR 0x0A]"

definition asciidoc_table :: "nat \<Rightarrow> string list list \<Rightarrow> string" where
  "asciidoc_table m rows =
     ''[cols='' @ [CHR 0x22] @ between '','' (replicate m ''<'') @ [CHR 0x22] @ '']'' @ [CHR 0x0A] @ ''|==='' @ [CHR 0x0A] @
     asciidoc_line (hd rows) @ [CHR 0x0A] @ concat (map asciidoc_line (tl rows)) @ ''|===''"

lemma fold_append: "fold (\<lambda>i s. s @ h i) is s = s @ concat (map h is)"
  by (induction "is" arbitrary: s) simp_all

lemma between_nth:
  "concat (map (\<lambda>j. xs ! j @ (if j < length xs - 1 then sep else e)) [0..<length xs]) = between sep xs @ (if xs = [] then [] else e)"
proof (induction sep xs rule: between.induct)
  case (3 sep x y xs)
  have "[0..<length (x # y # xs)] = 0 # map Suc [0..<length (y # xs)]" by (simp add: upt_conv_Cons map_Suc_upt del: upt_Suc)
  with 3 show ?case by (simp add: comp_def del: upt_Suc)
qed simp_all

lemma gives_cell_align: "i < length rows \<Longrightarrow> j < length (rows ! i) \<Longrightarrow> gives rows r (cell_align i j) Align_Left []"
  unfolding cell_align_def by (rule gives_quiet [OF gives_cell_format], assumption, assumption) (simp add: value_of_def gives_lift)

text \<open>A loop that appends a text in each round.\<close>

lemma gives_appends:
  assumes "\<And>i s. i \<in> set is \<Longrightarrow> gives rows r (f i s) (s @ h i) []"
  shows "gives rows r (loop f is s) (s @ concat (map h is)) []"
  using gives_loop_quiet [of "is" rows r f "\<lambda>i s. s @ h i" s] assms by (simp add: fold_append)

lemma gives_latex_header: "rows \<noteq> [] \<Longrightarrow> gives rows r latex_header (''{'' @ replicate (length (hd rows)) (CHR ''l'') @ ''}'') []"
proof -
  assume a: "rows \<noteq> []"
  then have z: "0 < length rows" "rows ! 0 = hd rows" by (simp_all add: hd_conv_nth)
  have "gives rows r (loop (\<lambda>j result. after (cell_align 0 j) (\<lambda>a. give (result @ latex_letter a))) [0..<length (hd rows)] ''{'')
      (''{'' @ concat (map (\<lambda>_. ''l'') [0..<length (hd rows)])) []"
    using z by (intro gives_appends gives_quiet [OF gives_cell_align]) (auto intro: gives_give)
  then show ?thesis
    using gives_row_size [OF z(1)] z unfolding latex_header_def
    by (intro gives_quiet) (auto simp: gives_give map_replicate_const concat_replicate_single)
qed

lemma gives_latex_row: "i < length rows \<Longrightarrow> gives rows r (latex_row indentation i s) (s @ latex_line indentation (rows ! i)) []"
proof -
  assume i: "i < length rows"
  let ?row = "rows ! i" and ?s = "case indentation of None \<Rightarrow> s | Some k \<Rightarrow> s @ replicate k (CHR '' '')"
  let ?h = "\<lambda>j. ?row ! j @ (if j < length ?row - 1 then '' & '' else '' '' @ [CHR 0x5C, CHR 0x5C])"
  have "gives rows r (loop (\<lambda>j result. after (cell_text i j) (\<lambda>t.
        give (result @ t @ (if j < length ?row - 1 then '' & '' else '' '' @ [CHR 0x5C, CHR 0x5C])))) [0..<length ?row] ?s)
      (?s @ concat (map ?h [0..<length ?row])) []"
    using i by (intro gives_appends gives_quiet [OF gives_cell_text]) (auto intro: gives_give)
  then have "gives rows r (latex_row indentation i s) ((?s @ concat (map ?h [0..<length ?row])) @ [CHR 0x0A]) []"
    unfolding latex_row_def using gives_row_size [OF i] by (intro gives_quiet) (auto intro: gives_give)
  then show ?thesis unfolding between_nth by (auto simp: latex_line_def spaces_def split: option.splits)
qed

lemma map_rows: "map (\<lambda>i. h (rows ! i)) [0..<length rows] = map h rows"
  by (rule nth_equalityI) simp_all

lemma gives_latex_text:
  assumes "grid m rows" "rows \<noteq> []"
  shows "gives rows r (latex_text indentation (length rows)) (latex_table indentation m rows) []"
proof -
  have "length (hd rows) = m" using assms by (simp add: grid_def)
  with gives_latex_header [OF assms(2), of r] have
    h: "gives rows r latex_header (''{'' @ replicate m (CHR ''l'') @ ''}'') []" by simp
  have l: "gives rows r (loop (latex_row indentation) [0..<length rows] s)
      (s @ concat (map (latex_line indentation) rows)) []" for s
    using gives_appends [of "[0..<length rows]" rows r "latex_row indentation" "\<lambda>i. latex_line indentation (rows ! i)" s]
    by (simp add: gives_latex_row map_rows)
  show ?thesis
    unfolding latex_text_def latex_table_def
    by (rule gives_quiet [OF h], rule gives_quiet [OF l]) (simp add: gives_give)
qed

lemma gives_asciidoc_header:
  assumes "rows \<noteq> []"
  shows "gives rows r asciidoc_header
      (''[cols='' @ [CHR 0x22] @ between '','' (replicate (length (hd rows)) ''<'') @ [CHR 0x22] @ '']'' @ [CHR 0x0A] @ ''|==='') []"
proof -
  let ?n = "length (hd rows)" and ?s = "''[cols='' @ [CHR 0x22]"
  from assms have z: "0 < length rows" "rows ! 0 = hd rows" by (simp_all add: hd_conv_nth)
  have "gives rows r (loop (\<lambda>j result. after (cell_align 0 j) (\<lambda>a.
        give (result @ asciidoc_letter a @ (if j + 1 \<noteq> ?n then '','' else [])))) [0..<?n] ?s)
      (?s @ concat (map (\<lambda>j. ''<'' @ (if j + 1 \<noteq> ?n then '','' else [])) [0..<?n])) []"
    using z by (intro gives_appends gives_quiet [OF gives_cell_align]) (auto intro: gives_give)
  moreover have "concat (map (\<lambda>j. ''<'' @ (if j + 1 \<noteq> ?n then '','' else [])) [0..<?n]) =
      concat (map (\<lambda>j. replicate ?n ''<'' ! j @ (if j < length (replicate ?n ''<'') - 1 then '','' else []))
        [0..<length (replicate ?n ''<'')])"
    by (rule arg_cong [where f = concat]) auto
  ultimately have "gives rows r (loop (\<lambda>j result. after (cell_align 0 j) (\<lambda>a.
        give (result @ asciidoc_letter a @ (if j + 1 \<noteq> ?n then '','' else [])))) [0..<?n] ?s)
      (?s @ between '','' (replicate ?n ''<'')) []"
    by (simp only: between_nth if_cancel append_Nil2)
  then show ?thesis
    unfolding asciidoc_header_def using gives_row_size [OF z(1)] z(2)
    by (intro gives_quiet) (auto intro: gives_give)
qed

lemma gives_asciidoc_row:
  "i < length rows \<Longrightarrow> gives rows r (asciidoc_row i s) (s @ asciidoc_line (rows ! i) @ (if i = 0 then [CHR 0x0A] else [])) []"
proof -
  assume i: "i < length rows"
  have c: "gives rows r (asciidoc_cell i j) (rows ! i ! j) []" if "j < length (rows ! i)" for j
    unfolding asciidoc_cell_def
    by (rule gives_quiet [OF gives_cell_format [OF i that]], rule gives_quiet [OF gives_cell_text [OF i that]])
      (simp add: value_of_def gives_give Let_def)
  have "gives rows r (loop (\<lambda>j result. after (asciidoc_cell i j) (\<lambda>s. give (result @ ''|'' @ s))) [0..<length (rows ! i)] s)
      (s @ concat (map (\<lambda>j. ''|'' @ rows ! i ! j) [0..<length (rows ! i)])) []"
    by (intro gives_appends gives_quiet [OF c]) (auto intro: gives_give)
  then show ?thesis
    unfolding asciidoc_row_def asciidoc_line_def using gives_row_size [OF i] map_rows [of "\<lambda>s. CHR ''|'' # s" "rows ! i"]
    by (intro gives_quiet) (auto intro: gives_give)
qed

lemma gives_asciidoc_text:
  assumes "grid m rows" "rows \<noteq> []"
  shows "gives rows r (asciidoc_text (length rows)) (asciidoc_table m rows) []"
proof -
  have m: "length (hd rows) = m" using assms by (simp add: grid_def)
  let ?h = "\<lambda>i. asciidoc_line (rows ! i) @ (if i = 0 then [CHR 0x0A] else [])"
  have l: "gives rows r (loop asciidoc_row [0..<length rows] s) (s @ concat (map ?h [0..<length rows])) []" for s
    by (rule gives_appends) (simp add: gives_asciidoc_row)
  have "map ?h [0..<length rows] = (asciidoc_line (hd rows) @ [CHR 0x0A]) # map asciidoc_line (tl rows)"
    using assms(2) by (intro nth_equalityI) (auto simp: hd_conv_nth nth_tl nth_Cons split: nat.splits)
  then show ?thesis
    unfolding asciidoc_text_def asciidoc_table_def
    by (intro gives_quiet [OF gives_asciidoc_header [OF assms(2)]] gives_quiet [OF l]) (simp add: gives_give m)
qed

text \<open>An export of a table that was built from rows of texts, which stays such a table.\<close>

lemma exported_built:
  assumes "built m rows t" "gives rows [] (f (length rows)) s []"
  shows "\<exists>t'. exported f t = Inr (s, t') \<and> built m rows t'"
proof -
  let ?st = "\<lparr>pr_table = tb_table t, pr_stream = string_stream\<rparr>"
  from assms(1) have "plain_table rows (pr_table ?st) \<and> reset_text (pr_stream ?st) = []" by (simp add: built_def)
  with assms(2) obtain tt where "plain_table rows tt" "f (length rows) ?st = Inr (s, ?st\<lparr>pr_table := tt, pr_stream := put [] (pr_stream ?st)\<rparr>)"
    unfolding gives_def by blast
  with assms(1) show ?thesis by (simp add: exported_def built_def)
qed

lemma grid_exported:
  assumes "grid m rows" "rows \<noteq> []" "each (\<lambda>row. table_add_row wcs (map Row_String row)) rows table_new = Inr t"
  shows "\<exists>t'. latex_dump indentation t = Inr (latex_table indentation m rows, t') \<and> built m rows t'"
    and "\<exists>t'. asciidoc_dump t = Inr (asciidoc_table m rows, t') \<and> built m rows t'"
proof -
  from assms(1) have "list_all (\<lambda>row. length row = m) rows" by (simp add: grid_def list_all_iff)
  from table_built [OF this new_built, of wcs] assms(3) have t: "built m rows t" by auto
  show "\<exists>t'. latex_dump indentation t = Inr (latex_table indentation m rows, t') \<and> built m rows t'"
    unfolding latex_dump_def by (rule exported_built [OF t]) (rule gives_latex_text [OF assms(1,2)])
  show "\<exists>t'. asciidoc_dump t = Inr (asciidoc_table m rows, t') \<and> built m rows t'"
    unfolding asciidoc_dump_def by (rule exported_built [OF t]) (rule gives_asciidoc_text [OF assms(1,2)])
qed

lemma empty_not_exported: "latex_dump indentation table_new = Inl Out_Of_Bounds" "asciidoc_dump table_new = Inl Out_Of_Bounds"
  by (simp_all add: latex_dump_def asciidoc_dump_def exported_def latex_text_def asciidoc_text_def latex_header_def asciidoc_header_def
      row_size_def row_at_def after_def table_new_def table_create_def)

end
