(* ===== verification/Table_Restore.thy ===== *)
theory Table_Restore
  imports Table_Export
begin

text \<open>
  What printing and exporting do to a table: its texts stay, and only formats are stored. The setters of a
  column, and the formats that a Markdown export restores.
\<close>

section \<open>Formats and texts\<close>

text \<open>The texts of a table, and the formats its cells store.\<close>

definition texts :: "ttable \<Rightarrow> string list list" where
  "texts t = map (\<lambda>row. map tc_text (tr_cells row)) (tt_rows t)"

definition stored :: "ttable \<Rightarrow> format option list list" where
  "stored t = map (\<lambda>row. map tc_format (tr_cells row)) (tt_rows t)"

text \<open>An operation that leaves the texts, whatever formats it stores.\<close>

definition keeps :: "'a pop \<Rightarrow> bool" where
  "keeps m \<longleftrightarrow> (\<forall>st x st'. m st = Inr (x, st') \<longrightarrow> texts (pr_table st') = texts (pr_table st))"

named_theorems keeping

lemma keepsI: "(\<And>st x st'. m st = Inr (x, st') \<Longrightarrow> texts (pr_table st') = texts (pr_table st)) \<Longrightarrow> keeps m"
  by (simp add: keeps_def)

lemma keepsD: "keeps m \<Longrightarrow> m st = Inr (x, st') \<Longrightarrow> texts (pr_table st') = texts (pr_table st)"
  by (simp add: keeps_def)

lemma keeps_basic [keeping]: "keeps (give x)" "keeps (fail e)" "keeps (lift_res f)" "keeps (row_at i)" "keeps table_format" "keeps (out_op g)"
  by (auto simp: keeps_def give_def fail_def lift_res_def row_at_def table_format_def out_op_def andthen_def split: sum.splits if_splits)

lemma keeps_after [keeping]: "keeps m \<Longrightarrow> (\<And>x. keeps (f x)) \<Longrightarrow> keeps (after m f)"
  unfolding keeps_def after_def andthen_def by (auto split: sum.splits)

lemma keeps_loop [keeping]: "(\<And>i x. keeps (f i x)) \<Longrightarrow> keeps (loop f is x)"
  by (induction "is" arbitrary: x) (auto intro: keeping)

lemma keeps_if [keeping]: "keeps m \<Longrightarrow> keeps n \<Longrightarrow> keeps (if b then m else n)"
  by simp

lemma keeps_prod [keeping]: "(\<And>a b. keeps (f a b)) \<Longrightarrow> keeps (case p of (a, b) \<Rightarrow> f a b)"
  by (cases p) simp

lemma keeps_prod_arg [keeping]: "(\<And>a b. keeps (f a b x)) \<Longrightarrow> keeps ((case p of (a, b) \<Rightarrow> f a b) x)"
  by (cases p) simp

lemma keeps_option [keeping]: "keeps m \<Longrightarrow> (\<And>a. keeps (f a)) \<Longrightarrow> keeps (case p of None \<Rightarrow> m | Some a \<Rightarrow> f a)"
  by (cases p) simp_all

lemma keeps_align [keeping]:
  "keeps l \<Longrightarrow> keeps c \<Longrightarrow> keeps r \<Longrightarrow> keeps (case a of Align_Left \<Rightarrow> l | Align_Right \<Rightarrow> r | Align_Center \<Rightarrow> c)"
  by (cases a) simp_all

lemma keeps_state: "(\<And>s. keeps (m s)) \<Longrightarrow> keeps (\<lambda>s. m s s)"
  unfolding keeps_def by blast

lemmas run_simps = after_def andthen_eq_Inr_iff give_def row_at_def set_row_def lift_res_def table_format_def cell_at_def set_cell_def fail_def

lemma map_update_same: "h y = h (xs ! i) \<Longrightarrow> map h (xs[i := y]) = map h xs"
  by (cases "i < length xs") (simp_all add: map_update list_update_same_conv list_update_beyond not_less)

lemma texts_update: "map tc_text (tr_cells row) = map tc_text (tr_cells (tt_rows t ! i)) \<Longrightarrow>
   texts (t\<lparr>tt_rows := (tt_rows t)[i := row]\<rparr>) = texts t"
  by (simp add: texts_def map_update_same)

lemma row_format_run:
  assumes "row_format i st = Inr (f, st')"
  shows "i < length (tt_rows (pr_table st))" "stored (pr_table st') = stored (pr_table st)" "texts (pr_table st') = texts (pr_table st)"
    "tt_rows (pr_table st') = (tt_rows (pr_table st))[i := (tt_rows (pr_table st) ! i)\<lparr>tr_format := Some f\<rparr>]"
proof -
  from assms show a: "i < length (tt_rows (pr_table st))"
      "tt_rows (pr_table st') = (tt_rows (pr_table st))[i := (tt_rows (pr_table st) ! i)\<lparr>tr_format := Some f\<rparr>]"
    by (auto simp: row_format_def run_simps split: option.splits if_splits)
  from a show "stored (pr_table st') = stored (pr_table st)" "texts (pr_table st') = texts (pr_table st)"
    by (simp_all add: stored_def texts_def map_update_same)
qed

lemma copy_format_run:
  assumes "copy_format i c st = Inr ((f, c'), st')"
  shows "c' = c\<lparr>tc_format := Some f\<rparr>" "stored (pr_table st') = stored (pr_table st)" "texts (pr_table st') = texts (pr_table st)"
    "i < length (tt_rows (pr_table st))" "length (tt_rows (pr_table st')) = length (tt_rows (pr_table st))"
    "tr_cells (tt_rows (pr_table st') ! i) = tr_cells (tt_rows (pr_table st) ! i)"
proof -
  from assms obtain g where r: "row_format i st = Inr (g, st')" and c: "c' = c\<lparr>tc_format := Some f\<rparr>"
    by (auto simp: copy_format_def after_def andthen_eq_Inr_iff give_def lift_res_def split: option.splits)
  show "c' = c\<lparr>tc_format := Some f\<rparr>" by (rule c)
  note row_format_run [OF r]
  then show "stored (pr_table st') = stored (pr_table st)" "texts (pr_table st') = texts (pr_table st)"
    "i < length (tt_rows (pr_table st))" "length (tt_rows (pr_table st')) = length (tt_rows (pr_table st))"
    "tr_cells (tt_rows (pr_table st') ! i) = tr_cells (tt_rows (pr_table st) ! i)" by simp_all
qed

lemma set_cell_run:
  assumes "set_cell i j c st = Inr (u, st')"
  shows "stored (pr_table st') = (stored (pr_table st))[i := (stored (pr_table st) ! i)[j := tc_format c]]"
    "texts (pr_table st') = (texts (pr_table st))[i := (texts (pr_table st) ! i)[j := tc_text c]]"
  using assms by (auto simp: run_simps stored_def texts_def map_update split: if_splits)

lemma cell_at_run:
  "cell_at i j st = Inr (c, st') \<longleftrightarrow> st' = st \<and> i < length (tt_rows (pr_table st)) \<and>
     j < length (tr_cells (tt_rows (pr_table st) ! i)) \<and> c = tr_cells (tt_rows (pr_table st) ! i) ! j"
  by (auto simp: run_simps split: if_splits)

text \<open>Asking a cell for its format sets it and no other, and so does setting one.\<close>

lemma cell_format_run:
  assumes "cell_format i j st = Inr (f, st')"
  shows "i < length (texts (pr_table st))" "j < length (texts (pr_table st) ! i)" "texts (pr_table st') = texts (pr_table st)"
    "stored (pr_table st') = (stored (pr_table st))[i := (stored (pr_table st) ! i)[j := Some f]]"
proof -
  from assms obtain c c' st1 where c: "cell_at i j st = Inr (c, st)" and f: "copy_format i c st = Inr ((f, c'), st1)"
    and s: "set_cell i j c' st1 = Inr ((), st')"
    by (auto simp: cell_format_def in_place_def after_def andthen_eq_Inr_iff give_def cell_at_run)
  from c show ij: "i < length (texts (pr_table st))" "j < length (texts (pr_table st) ! i)" by (simp_all add: cell_at_run texts_def)
  note fs = copy_format_run [OF f] and ss = set_cell_run [OF s]
  from c have "tc_text c = texts (pr_table st) ! i ! j" by (simp add: cell_at_run texts_def)
  with fs ss show "texts (pr_table st') = texts (pr_table st)" by simp
  from fs ss show "stored (pr_table st') = (stored (pr_table st))[i := (stored (pr_table st) ! i)[j := Some f]]" by simp
qed

lemma style_cell_run:
  assumes "style_cell i j g st = Inr (u, st')"
  shows "i < length (texts (pr_table st))" "j < length (texts (pr_table st) ! i)" "texts (pr_table st') = texts (pr_table st)"
    "\<exists>f. stored (pr_table st') = (stored (pr_table st))[i := (stored (pr_table st) ! i)[j := Some (g f)]]"
proof -
  from assms obtain f c st1 where f: "cell_format i j st = Inr (f, st1)" and c: "cell_at i j st1 = Inr (c, st1)"
    and s: "set_cell i j (c\<lparr>tc_format := Some (g f)\<rparr>) st1 = Inr ((), st')"
    by (auto simp: style_cell_def after_def andthen_eq_Inr_iff cell_at_run)
  note fs = cell_format_run [OF f] and ss = set_cell_run [OF s]
  show ij: "i < length (texts (pr_table st))" "j < length (texts (pr_table st) ! i)" by (rule fs(1), rule fs(2))
  from c fs(3) have "tc_text c = texts (pr_table st) ! i ! j" by (metis (no_types, lifting) cell_at_run nth_map texts_def)
  with fs ss show "texts (pr_table st') = texts (pr_table st)" by simp
  from fs(1) have "i < length (stored (pr_table st))" by (simp add: texts_def stored_def)
  with fs(4) ss(1) show "\<exists>f. stored (pr_table st') = (stored (pr_table st))[i := (stored (pr_table st) ! i)[j := Some (g f)]]"
    by auto
qed

lemma keeps_formats [keeping]: "keeps (row_format i)" "keeps (copy_format i c)" "keeps (cell_format i j)" "keeps (style_cell i j g)"
  by (auto intro!: keepsI dest: row_format_run(3) copy_format_run(3) cell_format_run(3) style_cell_run(3))

text \<open>Printing a table leaves its texts.\<close>

lemma keeps_cell_at [keeping]: "keeps (cell_at i j)"
  by (auto intro!: keepsI simp: cell_at_run)

lemma keeps_copies [keeping]: "keeps (copy_locale i c)" "keeps (copy_multi_byte i c)"
  unfolding copy_locale_def copy_multi_byte_def by (intro keeping)+

lemma cell_kept:
  assumes "copy_locale i c st = Inr ((x, c'), st') \<or> copy_multi_byte i c st = Inr ((y, c'), st')"
  shows "tc_text c' = tc_text c"
  using assms by (auto simp: copy_locale_def copy_multi_byte_def after_def andthen_eq_Inr_iff give_def lift_res_def dest: copy_format_run(1))

lemma keeps_in_place:
  assumes "\<And>c. keeps (m i c)" "\<And>c st x c' st'. m i c st = Inr ((x, c'), st') \<Longrightarrow> tc_text c' = tc_text c"
  shows "keeps (in_place m i j)"
proof (rule keepsI)
  fix st x st'
  assume "in_place m i j st = Inr (x, st')"
  then obtain c c' st1 where c: "cell_at i j st = Inr (c, st)" and f: "m i c st = Inr ((x, c'), st1)"
    and s: "set_cell i j c' st1 = Inr ((), st')"
    by (auto simp: in_place_def after_def andthen_eq_Inr_iff give_def cell_at_run)
  from c assms(2) [OF f] have "tc_text c' = texts (pr_table st) ! i ! j" by (simp add: cell_at_run texts_def)
  with keepsD [OF assms(1) f] set_cell_run(2) [OF s] show "texts (pr_table st') = texts (pr_table st)" by simp
qed

lemma keeps_cells [keeping]: "keeps (cell_locale i j)" "keeps (cell_multi_byte i j)"
  unfolding cell_locale_def cell_multi_byte_def by (rule keeps_in_place; auto intro: keeping cell_kept)+

lemma keeps_asked [keeping]: "keeps (cell_text i j)" "keeps (cell_size wcs i j)" "keeps (of_cell i j f)" "keeps (row_size i)"
  unfolding cell_text_def cell_size_def of_cell_def row_size_def by (intro keeping)+

lemma keeps_widths [keeping]: "keeps (widest_line wcs i j ls)" "keeps (configured_width cells)" "keeps (configured_height i)"
  unfolding widest_line_def configured_width_def configured_height_def by (intro keeping)+

lemma keeps_cell_size [keeping]: "keeps (cell_width wcs i j)" "keeps (cell_height wcs i j w)"
  unfolding cell_width_def cell_height_def Let_def by (intro keeping)+

lemma keeps_computed [keeping]: "keeps (computed_width wcs cells)" "keeps (computed_height wcs i ws)"
  unfolding computed_width_def computed_height_def by (intro keeping)+

lemma keeps_column [keeping]: "keeps (table_column j)"
proof -
  have "keeps (\<lambda>st. loop (\<lambda>i cells. after (cell_at i j) (\<lambda>_. give (cells @ [(i, j)]))) [0..<table_size (pr_table st)] [] st)"
    by (rule keeps_state) (intro keeping)
  then show ?thesis by (simp add: table_column_def [abs_def])
qed

lemma keeps_puts [keeping]:
  "keeps (apply_font_style s)" "keeps (apply_foreground_color c)" "keeps (apply_background_color c)" "keeps (put_spaces n)"
  "keeps reset_element_style" "keeps end_line"
  unfolding apply_font_style_def apply_foreground_color_def apply_background_color_def put_spaces_def reset_element_style_def
    end_line_def
  by (intro keeping)+

lemma keeps_style [keeping]: "keeps (apply_element_style c b ss)"
  unfolding apply_element_style_def by (intro keeping)

lemma keeps_marks [keeping]: "keeps (put_colored s c b)" "keeps (put_content s f)"
  unfolding put_colored_def put_content_def by (intro keeping)+

lemma keeps_borders [keeping]: "keeps (put_border x)" "keeps (put_mark y)" "keeps (print_left_aligned s f n w)"
  "keeps (print_center_aligned s f n w)" "keeps (print_right_aligned s f n w)"
  unfolding put_border_def put_mark_def print_left_aligned_def print_center_aligned_def print_right_aligned_def Let_def
  by (intro keeping)+

lemma keeps_print_line [keeping]: "keeps (print_line wcs i c f b w l)"
  unfolding print_line_def Let_def by (intro keeping)

lemma keeps_open_locale [keeping]: "keeps (open_locale wcs l)"
  unfolding open_locale_def by (intro keeping)

lemma keeps_row_in_cell [keeping]: "keeps (print_row_in_cell wcs i j w n k ls)" "keeps (print_cell_border wcs side lc rc i j w n)"
  unfolding print_row_in_cell_def print_cell_border_def Let_def by (intro keeping)+

lemma keeps_split [keeping]: "keeps (compute_cell_dimensions wcs n m)" "keeps (split_cell wcs i j w)"
  unfolding compute_cell_dimensions_def split_cell_def Let_def by (intro keeping)+

lemma keeps_rows [keeping]: "keeps (split_cells wcs n m ws)" "keeps (print_table_row wcs n m ws h cells i)"
  unfolding split_cells_def print_table_row_def bottom_border_needed_def print_cell_border_top_def print_cell_border_bottom_def
  by (intro keeping)+

lemma keeps_print_table: "keeps (print_table wcs)"
  unfolding print_table_def [abs_def] Let_def by (rule keeps_state) (intro keeping)

section \<open>What Markdown restores\<close>

lemma after_assoc: "after (after m g) h = after m (\<lambda>x. after (g x) h)"
  by (auto simp: after_def andthen_def fun_eq_iff split: sum.splits)

lemma loop_append: "loop f (xs @ ys) x = after (loop f xs x) (loop f ys)"
proof (induction xs arbitrary: x)
  case (Cons i xs)
  then have "loop f (xs @ ys) = (\<lambda>x. after (loop f xs x) (loop f ys))" by (rule ext)
  then show ?case by (simp add: after_assoc)
qed simp

lemma loop_map: "loop f (map h is) x = loop (\<lambda>i. f (h i)) is x"
proof (induction "is" arbitrary: x)
  case (Cons i "is")
  then have "loop f (map h is) = loop (\<lambda>i. f (h i)) is" by (rule ext)
  then show ?case by simp
qed simp

lemma loop_counts:
  assumes "\<And>i x st x' st'. I i x st \<Longrightarrow> i < n \<Longrightarrow> f i x st = Inr (x', st') \<Longrightarrow> I (Suc i) x' st'"
    and "I 0 x st" "loop f [0..<n] x st = Inr (y, st')"
  shows "I n y st'"
  using assms
proof (induction n arbitrary: y st')
  case (Suc n)
  from Suc.prems(3) obtain x1 st1 where "loop f [0..<n] x st = Inr (x1, st1)" "f n x1 st1 = Inr (y, st')"
    by (auto simp: loop_append after_def andthen_eq_Inr_iff give_def)
  with Suc.IH [of x1 st1] Suc.prems(1,2) show ?case by simp
qed (simp add: give_def)

lemma lengths: "length (tt_rows t) = length (texts t)" "length (stored t) = length (texts t)"
    "i < length (texts t) \<Longrightarrow> length (stored t ! i) = length (texts t ! i)"
  by (simp_all add: texts_def stored_def)

lemma row_size_run: "row_size i st = Inr (n, st') \<longleftrightarrow> st' = st \<and> i < length (texts (pr_table st)) \<and> n = length (texts (pr_table st) ! i)"
  by (auto simp: row_size_def run_simps texts_def split: if_splits)

lemma keeps_alignment [keeping]: "keeps (cell_align i j)" "keeps (new_row_format row)"
  unfolding cell_align_def new_row_format_def by (intro keeping)+

lemma keeps_new_cell [keeping]: "keeps (style_new_cell g c row)"
  unfolding style_new_cell_def by (intro keeping)

lemma keeps_alignment_cell [keeping]: "keeps (alignment_cell s row)"
  unfolding alignment_cell_def Let_def by (intro keeping)

lemma insert_row_texts:
  "insert_row row st = Inr (u, st') \<Longrightarrow> 1 \<le> length (texts (pr_table st)) \<Longrightarrow>
   texts (pr_table st') = take 1 (texts (pr_table st)) @ map tc_text (tr_cells row) # drop 1 (texts (pr_table st))"
  by (cases "texts (pr_table st)") (auto simp: insert_row_def Let_def texts_def take_map drop_map split: if_splits)

lemma add_alignment_texts:
  assumes "add_alignment_header_row st = Inr (u, st')" "texts (pr_table st) \<noteq> []"
  shows "\<exists>al. texts (pr_table st') = take 1 (texts (pr_table st)) @ al # drop 1 (texts (pr_table st))"
proof -
  from assms(2) have "1 \<le> table_size (pr_table st)" by (cases "texts (pr_table st)") (auto simp: table_size_def texts_def)
  with assms(1) obtain n cells row st1 st2 where
    l: "loop (\<lambda>j cells. after (cell_align 0 j) (\<lambda>a. give (cells @ [markdown_rule a]))) [0..<n] [] st = Inr (cells, st1)"
      "loop alignment_cell cells row_new st1 = Inr (row, st2)" "insert_row row st2 = Inr (u, st')"
    by (auto simp: add_alignment_header_row_def after_def andthen_eq_Inr_iff row_size_run)
  have "keeps (loop (\<lambda>j cells. after (cell_align 0 j) (\<lambda>a. give (cells @ [markdown_rule a]))) [0..<n] [])"
    "keeps (loop alignment_cell cells row_new)" by (intro keeping)+
  from keepsD [OF this(1) l(1)] keepsD [OF this(2) l(2)] have "texts (pr_table st2) = texts (pr_table st)" by simp
  with insert_row_texts [OF l(3)] assms(2) show ?thesis by (cases "texts (pr_table st)") auto
qed

lemma apply_markdown_run:
  assumes "apply_markdown_format old st = Inr (all, st')" "texts (pr_table st) = T" "T \<noteq> []"
  shows "\<exists>new. all = old @ new \<and> length new = length (concat T)" "\<exists>al. texts (pr_table st') = take 1 T @ al # drop 1 T"
proof -
  let ?inner = "\<lambda>i j formats. after (cell_format i j) (\<lambda>f. after (style_cell i j markdown_style) (\<lambda>_. give (formats @ [f])))"
  let ?outer = "\<lambda>i formats. after (row_size i) (\<lambda>n. loop (?inner i) [0..<n] formats)"
  let ?I = "\<lambda>k F st. texts (pr_table st) = T \<and> (\<exists>new. F = old @ new \<and> length new = k)"
  from assms(1,2) obtain st1 where l: "loop ?outer [0..<length T] old st = Inr (all, st1)" "add_alignment_header_row st1 = Inr ((), st')"
    by (auto simp: apply_markdown_format_def after_def andthen_eq_Inr_iff give_def table_size_def lengths)
  have step: "?I (k + Suc j) F' s'" if "?I (k + j) F s" "?inner i j F s = Inr (F', s')" for i j k F s F' s'
  proof -
    from that(2) obtain f s1 where "cell_format i j s = Inr (f, s1)" "style_cell i j markdown_style s1 = Inr ((), s')" "F' = F @ [f]"
      by (auto simp: after_def andthen_eq_Inr_iff give_def)
    with cell_format_run(3) style_cell_run(3) that(1) show ?thesis by fastforce
  qed
  have row: "?I (length (concat (take (Suc i) T))) F' s'"
    if a: "?I (length (concat (take i T))) F s" "i < length T" "?outer i F s = Inr (F', s')" for i F s F' s'
  proof -
    from a have "loop (?inner i) [0..<length (T ! i)] F s = Inr (F', s')" by (auto simp: after_def andthen_eq_Inr_iff row_size_run)
    then have "?I (length (concat (take i T)) + length (T ! i)) F' s'"
      by (rule loop_counts [where I = "\<lambda>j. ?I (length (concat (take i T)) + j)", rotated 2]) (use step a(1) in \<open>simp_all\<close>)
    with a(2) show ?thesis by (simp add: take_Suc_conv_app_nth)
  qed
  have "?I (length (concat (take (length T) T))) all st1"
    by (rule loop_counts [where I = "\<lambda>i. ?I (length (concat (take i T)))", OF row _ l(1)]) (use assms(2) in \<open>simp_all\<close>)
  then show "\<exists>new. all = old @ new \<and> length new = length (concat T)" "\<exists>al. texts (pr_table st') = take 1 T @ al # drop 1 T"
    using add_alignment_texts [OF l(2)] assms(3) by simp_all
qed

lemma remove_run:
  assumes "remove_alignment_header_row st = Inr (u, st')"
  shows "texts (pr_table st') = take 1 (texts (pr_table st)) @ drop 2 (texts (pr_table st))"
  using assms by (auto simp: remove_alignment_header_row_def Let_def texts_def take_map drop_map split: if_splits)

text \<open>The formats of the cells that \<open>ss\<close> selects are the first \<open>k\<close> that are remembered.\<close>

definition restored ::
  "format list \<Rightarrow> string list list \<Rightarrow> (format option list list \<Rightarrow> format option list list) \<Rightarrow> nat \<Rightarrow> printing \<Rightarrow> bool" where
  "restored formats T ss k st \<longleftrightarrow> texts (pr_table st) = T \<and> k \<le> length formats \<and> concat (ss (stored (pr_table st))) = map Some (take k formats)"

lemma restore_cell_run:
  assumes "restored formats T (\<lambda>S. take i S @ [take j (S ! i)]) k s" "restore_cell formats i j k s = Inr (k', s')"
  shows "restored formats T (\<lambda>S. take i S @ [take (Suc j) (S ! i)]) k' s'"
proof -
  from assms(2) have k: "k < length formats" "k' = k + 1" and c: "style_cell i j (\<lambda>_. formats ! k) s = Inr ((), s')"
    by (auto simp: restore_cell_def after_def andthen_eq_Inr_iff give_def fail_def split: if_splits)
  note c = style_cell_run [OF c]
  then have ij: "i < length (stored (pr_table s))" "j < length (stored (pr_table s) ! i)" by (simp_all add: lengths)
  let ?S = "stored (pr_table s)"
  from c(4) ij have "concat (take i (stored (pr_table s'))) @ take (Suc j) (stored (pr_table s') ! i) =
      concat (take i ?S) @ take j (?S ! i) @ [Some (formats ! k)]"
    by (auto simp: take_Suc_conv_app_nth)
  with assms(1) c(3) k show ?thesis by (simp add: restored_def take_Suc_conv_app_nth)
qed

lemma restore_row_run:
  assumes "restored formats T (take i) k s" "i < length T" "restore_row formats i k s = Inr (k', s')"
  shows "restored formats T (take (Suc i)) k' s'"
proof -
  from assms(1) have "texts (pr_table s) = T" by (simp add: restored_def)
  with assms(3) have l: "loop (restore_cell formats i) [0..<length (T ! i)] k s = Inr (k', s')"
    by (auto simp: restore_row_def after_def andthen_eq_Inr_iff row_size_run)
  have r: "restored formats T (\<lambda>S. take i S @ [take (length (T ! i)) (S ! i)]) k' s'"
  proof (rule loop_counts [where I = "\<lambda>j. restored formats T (\<lambda>S. take i S @ [take j (S ! i)])", OF _ _ l])
    show "restored formats T (\<lambda>S. take i S @ [take 0 (S ! i)]) k s" using assms(1) by (simp add: restored_def)
  qed (rule restore_cell_run)
  then have "i < length (stored (pr_table s'))" "length (T ! i) = length (stored (pr_table s') ! i)"
    using assms(2) by (auto simp: restored_def lengths)
  with r show ?thesis by (simp add: restored_def take_Suc_conv_app_nth)
qed

lemma restore_run:
  assumes "restore_table_format formats st = Inr (u, st')" "texts (pr_table st) = take 1 T @ al # drop 1 T" "T \<noteq> []"
  shows "texts (pr_table st') = T" "concat (stored (pr_table st')) = map Some (take (length (concat T)) formats)"
proof -
  from assms(1) obtain st1 k where r: "remove_alignment_header_row st = Inr ((), st1)"
    and l: "loop (restore_row formats) [0..<length (texts (pr_table st1))] 0 st1 = Inr (k, st')"
    unfolding restore_table_format_def after_def andthen_eq_Inr_iff table_size_def lengths(1)
    by (auto simp: give_def andthen_eq_Inr_iff)
  from remove_run [OF r] assms(2,3) have t: "texts (pr_table st1) = T" by (cases T) simp_all
  have r: "restored formats T (take (length T)) k st'"
  proof (rule loop_counts [where I = "\<lambda>i. restored formats T (take i)", OF _ _ l [unfolded t]])
    show "restored formats T (take 0) 0 st1" by (simp add: restored_def t)
  qed (rule restore_row_run)
  then show "texts (pr_table st') = T" by (simp add: restored_def)
  then have t': "take (length T) (stored (pr_table st')) = stored (pr_table st')"
    "map length (stored (pr_table st')) = map length T"
    by (auto simp: lengths intro: nth_equalityI)
  from r have k: "k \<le> length formats" "concat (stored (pr_table st')) = map Some (take k formats)"
    unfolding restored_def t'(1) by simp_all
  have "length (map Some (take k formats)) = length (concat T)" unfolding k(2) [symmetric] length_concat t'(2) ..
  with k(1) have "k = length (concat T)" by simp
  with k(2) show "concat (stored (pr_table st')) = map Some (take (length (concat T)) formats)" by simp
qed

text \<open>
  A Markdown export of a table leaves its texts, and every cell with a format that the exporter remembers:
  with the one it had when nothing was remembered before, with an older one otherwise.
\<close>

lemma markdown_restores:
  assumes "markdown_dump wcs t old = Inr (s, t', all)" "texts (tb_table t) = T" "T \<noteq> []"
  shows "texts (tb_table t') = T" "concat (stored (tb_table t')) = map Some (take (length (concat T)) all)"
    "\<exists>new. all = old @ new \<and> length new = length (concat T)"
proof -
  from assms(1) obtain st1 t1 st2 where a: "apply_markdown_format old \<lparr>pr_table = tb_table t, pr_stream = string_stream\<rparr> = Inr (all, st1)"
    and p: "table_str wcs (t\<lparr>tb_table := pr_table st1\<rparr>) = Inr (s, t1)"
    and r: "restore_table_format all \<lparr>pr_table = tb_table t1, pr_stream = string_stream\<rparr> = Inr ((), st2)" and t': "tb_table t' = pr_table st2"
    by (auto simp: markdown_dump_def andthen_eq_Inr_iff)
  from apply_markdown_run [OF a] assms(2,3) obtain al where
    n: "\<exists>new. all = old @ new \<and> length new = length (concat T)" and al: "texts (pr_table st1) = take 1 T @ al # drop 1 T" by auto
  from p obtain st3 where q: "print_table wcs \<lparr>pr_table = pr_table st1, pr_stream = string_stream\<rparr> = Inr ((), st3)" "tb_table t1 = pr_table st3"
    by (auto simp: table_str_def table_print_def andthen_eq_Inr_iff)
  from keepsD [OF keeps_print_table q(1)] q(2) have "texts (tb_table t1) = texts (pr_table st1)" by simp
  with restore_run [OF r, of T al] al assms(3) show "texts (tb_table t') = T"
    "concat (stored (tb_table t')) = map Some (take (length (concat T)) all)" by (simp_all add: t')
  show "\<exists>new. all = old @ new \<and> length new = length (concat T)" by (rule n)
qed

section \<open>Formats of a column\<close>

text \<open>A setter of a column sets the format of its cells and of no others, and leaves the texts.\<close>

lemma table_column_run:
  "table_column j st = Inr (cells, st') \<Longrightarrow> st' = st \<and> cells = map (\<lambda>i. (i, j)) [0..<length (texts (pr_table st))]"
proof -
  assume "table_column j st = Inr (cells, st')"
  then have l: "loop (\<lambda>i cells. after (cell_at i j) (\<lambda>_. give (cells @ [(i, j)]))) [0..<length (texts (pr_table st))] [] st = Inr (cells, st')"
    by (simp add: table_column_def table_size_def lengths)
  show ?thesis
    by (rule loop_counts [where I = "\<lambda>i cells s. s = st \<and> cells = map (\<lambda>i. (i, j)) [0..<i]", OF _ _ l])
      (auto simp: after_def andthen_eq_Inr_iff give_def cell_at_run)
qed

lemma style_column_run:
  assumes "style_column j g st = Inr (u, st')" "i < length (texts (pr_table st))"
  shows "texts (pr_table st') = texts (pr_table st)"
    "\<exists>f. stored (pr_table st') ! i = (stored (pr_table st) ! i)[j := Some (g f)]"
proof -
  let ?n = "length (texts (pr_table st))"
  let ?I = "\<lambda>n (u :: unit) s. texts (pr_table s) = texts (pr_table st) \<and>
    (\<forall>i < ?n. if i < n then \<exists>f. stored (pr_table s) ! i = (stored (pr_table st) ! i)[j := Some (g f)]
      else stored (pr_table s) ! i = stored (pr_table st) ! i)"
  from assms(1) obtain cells st1 where "table_column j st = Inr (cells, st1)" "loop (\<lambda>(i, j) _. style_cell i j g) cells () st1 = Inr (u, st')"
    by (auto simp: style_column_def after_def andthen_eq_Inr_iff)
  with table_column_run [of j st cells st1] have l: "loop (\<lambda>i _. style_cell i j g) [0..<?n] () st = Inr (u, st')" by (auto simp: loop_map)
  have "?I ?n u st'"
  proof (rule loop_counts [where I = ?I, OF _ _ l], goal_cases)
    case (1 i x s x' s')
    note c = style_cell_run [OF 1(3)]
    from c(1) have "i < length (stored (pr_table s))" by (simp add: lengths)
    with c(3,4) 1(1,2) show ?case by (auto simp: nth_list_update)
  qed simp
  with assms(2) show "texts (pr_table st') = texts (pr_table st)"
    "\<exists>f. stored (pr_table st') ! i = (stored (pr_table st) ! i)[j := Some (g f)]" by simp_all
qed

section \<open>Markdown evaluated\<close>

text \<open>The arithmetic of \<open>size_t\<close>, for evaluation.\<close>

lemma plus_size_code [code]: "plus_size a b = nat ((int a + int b) mod 18446744073709551616)"
  by (simp add: plus_size_def nat_mod_distrib nat_add_distrib)

lemma minus_size_code [code]: "minus_size a b = (if b \<le> a then nat (int (a - b) mod 18446744073709551616) else (a + 2 ^ 64 - b) mod 2 ^ 64)"
  by (simp add: minus_size_def le_mod_geq nat_mod_distrib del: of_nat_diff)

text \<open>An example of what is drawn.\<close>

definition table_of :: "string list list \<Rightarrow> text_table res" where
  "table_of rows = each (\<lambda>row. table_add_row (\<lambda>_. Some (\<lambda>_. 0)) (map Row_String row)) rows table_new"

lemma markdown_example:
  "map_sum id fst (andthen (table_of [[''id''], [''bob'']]) (\<lambda>t. markdown_dump (\<lambda>_. Some (\<lambda>_. 0)) t [])) =
   Inr (''| id    |'' @ [CHR 0x0A] @ ''| :---- |'' @ [CHR 0x0A] @ ''| bob   |'' @ [CHR 0x0A])"
  by code_simp

text \<open>The formats of a first export come back in a second one of another table.\<close>

lemma markdown_stale:
  "map_sum id (\<lambda>(_, t, _). map (map_option fm_font_align) (concat (stored (tb_table t))))
     (andthen (table_of [[''a'']]) (\<lambda>t.
      andthen (style_cell 0 0 (fmt_font_align Align_Right) \<lparr>pr_table = tb_table t, pr_stream = string_stream\<rparr>) (\<lambda>(_, st).
      andthen (markdown_dump (\<lambda>_. Some (\<lambda>_. 0)) (t\<lparr>tb_table := pr_table st\<rparr>) []) (\<lambda>(_, _, formats).
      andthen (table_of [[''b'']]) (\<lambda>t. markdown_dump (\<lambda>_. Some (\<lambda>_. 0)) t formats))))) =
   Inr [Some (Some Align_Right)]"
  by code_simp

lemma empty_markdown: "markdown_dump wcs table_new [] = Inl Out_Of_Bounds"
  by (simp add: markdown_dump_def apply_markdown_format_def add_alignment_header_row_def table_str_def table_print_def print_table_def
      compute_cell_dimensions_def split_cells_def restore_table_format_def remove_alignment_header_row_def estimate_num_columns_def
      table_size_def table_new_def table_create_def after_def give_def Let_def)

end
