(* ===== verification/Screen.thy ===== *)
theory Screen
  imports Table_Drawn Program
begin

text \<open>
  What the shell writes to the standard output, character by character: \<open>print_rows\<close> and \<open>show_tables\<close> of
  \<open>src/bin/command.cc\<close> hand their rows to a table of \<open>src/bin/tabulate.h\<close> and print it.
\<close>

section \<open>Writing\<close>

definition write_grid :: "locales \<Rightarrow> string list list \<Rightarrow> ostream \<Rightarrow> ostream res" where
  "write_grid wcs rows os =
     andthen (each (\<lambda>row. table_add_row wcs (map Row_String row)) rows table_new) (\<lambda>t.
     andthen (table_print wcs os t) (\<lambda>(os, _). Inr (put [CHR 0x0A] os)))"

fun write_out :: "locales \<Rightarrow> out \<Rightarrow> ostream \<Rightarrow> ostream res" where
  "write_out wcs (Prompt s) os = Inr (put s os)"
| "write_out wcs (Line s) os = Inr (put (s @ [CHR 0x0A]) os)"
| "write_out wcs (Grid rows) os = write_grid wcs rows os"

text \<open>A run of \<open>main\<close> with what it has written; \<open>tty\<close> tells whether the standard output is a terminal.\<close>

definition terminal_main ::
  "locales \<Rightarrow> bool \<Rightarrow> nat \<Rightarrow> nat \<Rightarrow> nat \<Rightarrow> bool \<Rightarrow> string list \<Rightarrow> string list \<Rightarrow> char \<Rightarrow> files \<Rightarrow> (string \<times> files) res" where
  "terminal_main wcs tty k n argc ended inputs listing junk fs =
     andthen (shell_main k n argc ended inputs listing junk fs) (\<lambda>(outs, fs).
     andthen (each (write_out wcs) outs (std_out tty)) (\<lambda>os. Inr (os_text os, fs)))"

section \<open>What is to be read\<close>

fun out_text :: "string \<Rightarrow> out \<Rightarrow> string" where
  "out_text r (Prompt s) = s"
| "out_text r (Line s) = s @ [CHR 0x0A]"
| "out_text r (Grid rows) = draw_table r (length (hd rows)) rows @ [CHR 0x0A]"

text \<open>A grid has rows of the same length; no text in it has anything near \<open>2 ^ 64\<close> characters.\<close>

fun out_even :: "out \<Rightarrow> bool" where
  "out_even (Grid rows) \<longleftrightarrow> (\<forall>row \<in> set rows. length row = length (hd rows))"
| "out_even _ \<longleftrightarrow> True"

fun out_short :: "out \<Rightarrow> bool" where
  "out_short (Grid rows) \<longleftrightarrow> (\<forall>row \<in> set rows. \<forall>s \<in> set row. length s + 2 < 2 ^ 64)"
| "out_short _ \<longleftrightarrow> True"

text \<open>A grid with a cell, for which the printer opens the locale of the environment.\<close>

fun out_cells :: "out \<Rightarrow> bool" where
  "out_cells (Grid rows) \<longleftrightarrow> rows \<noteq> [] \<and> hd rows \<noteq> []"
| "out_cells _ \<longleftrightarrow> False"

lemma write_out_text:
  "out_even out \<Longrightarrow> out_short out \<Longrightarrow>
   write_out wcs out os =
     (if out_cells out \<and> \<not> has_locale wcs [] then Inl Uncaught_Exception
      else Inr (put (out_text (reset_text os) out) os))"
proof (cases out)
  case (Grid rows)
  assume "out_even out" "out_short out"
  with Grid have "grid (length (hd rows)) rows" by (simp add: grid_def)
  from grid_printed [OF this, of wcs os] Grid show ?thesis by (auto simp: write_grid_def)
qed simp_all

lemma write_all_text:
  "list_all out_even outs \<Longrightarrow> list_all out_short outs \<Longrightarrow>
   each (write_out wcs) outs os =
     (if list_ex out_cells outs \<and> \<not> has_locale wcs [] then Inl Uncaught_Exception
      else Inr (put (concat (map (out_text (reset_text os)) outs)) os))"
  by (induction outs arbitrary: os) (simp_all add: write_out_text)

text \<open>The replies of the specification are even.\<close>

lemma reply_even: "reply_ok a \<Longrightarrow> list_all out_even (reply_out line a)"
proof (cases a)
  case (Answer b)
  assume "reply_ok a"
  with Answer show ?thesis
    by (cases b) (auto simp: row_ok_def dest: list_all2_lengthD)
qed simp_all

lemma screen_even: "list_all reply_ok as \<Longrightarrow> list_all out_even (screen is as)"
proof (induction as arbitrary: "is")
  case Nil
  then show ?case by (simp add: screen_def)
next
  case (Cons a as)
  then show ?case by (cases "is") (simp_all add: reply_even)
qed

lemma main_written:
  assumes "db_stored db fs" "distinct listing" "set listing = db_files db"
    and "db_run is db = Some (as, db')" "db_storable db'"
    and "run_fuel is db \<le> k" "length is + 2 \<le> n" "argc \<le> 1"
    and "list_all out_short (screen is as)"
  shows "if list_ex out_cells (screen is as) \<and> \<not> has_locale wcs []
    then terminal_main wcs tty k n argc ended (map input_text is @ ''.quit'' # later) listing junk fs = Inl Uncaught_Exception
    else \<exists>fs'. terminal_main wcs tty k n argc ended (map input_text is @ ''.quit'' # later) listing junk fs =
        Inr (concat (map (out_text (reset_text (std_out tty))) (screen is as)), fs') \<and> db_stored (db_reopened db') fs'"
proof -
  from main_runs [OF assms(1-8)] obtain fs' where
    m: "shell_main k n argc ended (map input_text is @ ''.quit'' # later) listing junk fs = Inr (screen is as, fs')"
      "db_stored (db_reopened db') fs'" "list_all reply_ok as" by blast
  from write_all_text [OF screen_even [OF m(3)] assms(9), of wcs "std_out tty"] m(1,2) show ?thesis
    by (auto simp: terminal_main_def std_out_def)
qed

end
