(* ===== verification/Output_Properties.thy ===== *)
theory Output_Properties
  imports Screen Session_Properties
begin

text \<open>
  The properties of the output: what a run of the program writes to a terminal or to a file, how a table
  is drawn, and how words are wrapped.
\<close>

section \<open>The program\<close>

text \<open>C2: What a run of the program writes to the standard output is, character by character, the text that the specification describes: the prompts, the answers, and each result as the drawing of its rows, with the sequences that reset the colours when the output is a terminal. The printer of tables does not fault on any result, although its rows and cells store formats while they are printed - unless the environment names a locale that the system does not have: then the first cell that is to be printed ends the program by an exception.\<close>

theorem program_writes:
  assumes "db_stored db fs" "distinct listing" "set listing = db_files db"
    and "db_run is db = Some (as, db')" "db_storable db'"
    and "run_fuel is db \<le> k" "length is + 2 \<le> n" "argc \<le> 1"
    and "list_all out_short (screen is as)"
  shows "if list_ex out_cells (screen is as) \<and> wcs [] = None
    then terminal_main wcs tty k n argc ended (map input_text is @ ''.quit'' # later) listing junk fs = Inl Uncaught_Exception
    else \<exists>fs'. terminal_main wcs tty k n argc ended (map input_text is @ ''.quit'' # later) listing junk fs =
        Inr (concat (map (out_text (reset_text (std_out tty))) (screen is as)), fs') \<and> db_stored (db_reopened db') fs'"
  using main_written [OF assms] by (simp add: has_locale_def)

definition text_of_lines :: "string list \<Rightarrow> string" where
  "text_of_lines ls = concat (map (\<lambda>l. l @ [CHR 0x0A]) ls)"

lemma second_text:
  "concat (map (out_text []) (screen [List_Tables, Typed session_select] [Names [''t''], Answer session_answer])) =
     text_of_lines
      [''TadisSQL>+---+'',
       ''| t |'',
       ''+---+'',
       ''TadisSQL>Success'',
       ''count: 1'',
       ''+------+'',
       ''| name |'',
       ''+------+'',
       ''| bob  |'',
       ''+------+''] @ ''TadisSQL>''"
proof -
  have "draw_table [] 1 [[''t'']] = text_of_lines [''+---+'', ''| t |''] @ ''+---+''"
    "draw_table [] 1 [[''name''], [''bob'']] = text_of_lines [''+------+'', ''| name |'', ''+------+'', ''| bob  |''] @ ''+------+''"
    by code_simp+
  then show ?thesis unfolding second_screen by (simp add: text_of_lines_def)
qed

theorem program_writes_witness:
  "\<exists>fs1 fs2.
     terminal_main (\<lambda>_. Some (\<lambda>_. 0)) False 6 4 0 True [''.show tables'', print_stmt session_select, ''.quit''] [''./t.json'', ''./t.db'']
       (CHR ''y'') fs1 =
     Inr (text_of_lines
      [''TadisSQL>+---+'',
       ''| t |'',
       ''+---+'',
       ''TadisSQL>Success'',
       ''count: 1'',
       ''+------+'',
       ''| name |'',
       ''+------+'',
       ''| bob  |'',
       ''+------+''] @ ''TadisSQL>'', fs2)"
proof -
  from main_runs [OF db_stored_none _ _ first_run(2) item_storable first_run(1), of "[]" 4 0 True "[]" "CHR ''x''"] obtain fs1 where
    s1: "db_stored (db_reopened [''t'' \<mapsto> item_view]) fs1" by (auto simp: db_files_def item_view_simps)
  have short: "list_all out_short (screen [List_Tables, Typed session_select] [Names [''t''], Answer session_answer])"
    unfolding second_screen by simp
  from program_writes [OF s1 [unfolded item_reopened] conjunct1 [OF item_files] conjunct2 [OF item_files] second_run(2)
      item_storable second_run(1) _ _ short, of 4 0 "\<lambda>_. Some (\<lambda>_. 0)" False True "[]" "CHR ''y''"] obtain fs2 where
    "terminal_main (\<lambda>_. Some (\<lambda>_. 0)) False 6 4 0 True [''.show tables'', print_stmt session_select, ''.quit''] [''./t.json'', ''./t.db'']
       (CHR ''y'') fs1 =
     Inr (concat (map (out_text []) (screen [List_Tables, Typed session_select] [Names [''t''], Answer session_answer])), fs2)"
    by (auto simp: item_view_simps simp del: screen_simps)
  then show ?thesis unfolding second_text by blast
qed

section \<open>Tables\<close>

text \<open>C12: Adding rows of equally many texts to a new table and printing it writes the drawing that \<open>draw_table\<close> specifies, on any stream: every column as wide as its widest text and two spaces, every row as high as its highest text, a text without its outer white space at the left of its column. The words of a text without line breaks are never wrapped. When there is a cell to print and the environment names a locale that the system does not have, there is an exception instead.\<close>

theorem table_drawn:
  assumes "grid m rows"
  shows "\<exists>t t'. each (\<lambda>row. table_add_row wcs (map Row_String row)) rows table_new = Inr t \<and>
    table_print wcs os t =
      (if rows = [] \<or> m = 0 \<or> wcs [] \<noteq> None then Inr (put (draw_table (reset_text os) m rows) os, t')
       else Inl Uncaught_Exception)"
  using grid_printed [OF assms, of wcs os] by (simp add: has_locale_def)

theorem table_drawn_witness:
  "\<exists>t t'. each (\<lambda>row. table_add_row (\<lambda>_. Some (\<lambda>_. 0)) (map Row_String row)) [[''id'', ''name''], [''22'', '' a b'']] table_new = Inr t \<and>
    table_print (\<lambda>_. Some (\<lambda>_. 0)) string_stream t =
      Inr (put (text_of_lines [''+----+------+'', ''| id | name |'', ''+----+------+'', ''| 22 | a b  |''] @ ''+----+------+'')
        string_stream, t')"
proof -
  have "grid 2 [[''id'', ''name''], [''22'', '' a b'']]" by (simp add: grid_def)
  from table_drawn [OF this, of "\<lambda>_. Some (\<lambda>_. 0)" string_stream] obtain t t' where
    t: "each (\<lambda>row. table_add_row (\<lambda>_. Some (\<lambda>_. 0)) (map Row_String row)) [[''id'', ''name''], [''22'', '' a b'']] table_new = Inr t"
      "table_print (\<lambda>_. Some (\<lambda>_. 0)) string_stream t = Inr (put (draw_table [] 2 [[''id'', ''name''], [''22'', '' a b'']]) string_stream, t')"
    by auto
  have "draw_table [] 2 [[''id'', ''name''], [''22'', '' a b'']] =
      text_of_lines [''+----+------+'', ''| id | name |'', ''+----+------+'', ''| 22 | a b  |''] @ ''+----+------+''"
    by code_simp
  with t show ?thesis by metis
qed

text \<open>C17: The text a table prints is straight: every line of it has the same length, whatever line breaks and white space its texts have, but for the empty line that stands for a row of empty texts. The length is that of the columns, each as wide as its widest text and two spaces, and of the borders between and around them.\<close>

theorem table_straight:
  assumes "grid m rows" "each (\<lambda>row. table_add_row wcs (map Row_String row)) rows table_new = Inr t"
    and "table_str wcs t = Inr (s, t')" "line \<in> set (getlines s)"
  shows "line = [] \<or> length line = sum_list (map Suc (column_widths rows m)) + 1"
  using printed_straight [OF assms] .

theorem table_straight_witness:
  "\<exists>t s t'. each (\<lambda>row. table_add_row (\<lambda>_. Some (\<lambda>_. 0)) (map Row_String row)) [[''id'', ''name''], [''22'', '' a b'']] table_new = Inr t \<and>
     table_str (\<lambda>_. Some (\<lambda>_. 0)) t = Inr (s, t') \<and> ''| 22 | a b  |'' \<in> set (getlines s) \<and>
     length ''| 22 | a b  |'' = sum_list (map Suc (column_widths [[''id'', ''name''], [''22'', '' a b'']] 2)) + 1"
proof -
  let ?rows = "[[''id'', ''name''], [''22'', '' a b'']]" and ?wcs = "\<lambda>_. Some (\<lambda>_. 0)"
  have g: "grid 2 ?rows" by (simp add: grid_def)
  from grid_printed [OF g, of ?wcs string_stream] obtain t t' where
    t: "each (\<lambda>row. table_add_row ?wcs (map Row_String row)) ?rows table_new = Inr t"
      "table_str ?wcs t = Inr (draw_table [] 2 ?rows, t')" by (auto simp: has_locale_def table_str_def simp del: each.simps)
  moreover have "''| 22 | a b  |'' \<in> set (getlines (draw_table [] 2 ?rows))" by code_simp
  ultimately show ?thesis using table_straight [OF g t] by blast
qed

section \<open>Words\<close>

text \<open>C13: Wrapping a text without line breaks to a width of at least 2 ends, makes every line fit, and changes nothing but white space and dashes.\<close>

theorem word_wrap_fits_width:
  assumes "2 \<le> width" "width < 2 ^ 64" "CHR 0x0A \<notin> set s"
  shows "\<exists>r. word_wrap wcs s width l False = Inr r \<and> (\<forall>line \<in> set (getlines r). length line \<le> width) \<and> solid r = solid s"
  using assms by (rule word_wrap_lines)

theorem word_wrap_fits_width_witness:
  "\<exists>r. word_wrap (\<lambda>_. Some (\<lambda>_. 0)) ''select transactions'' 8 [] False = Inr r \<and> (\<forall>line \<in> set (getlines r). length line \<le> 8) \<and>
     solid r = ''selecttransactions''"
proof -
  have "solid ''select transactions'' = ''selecttransactions''" by code_simp
  with word_wrap_fits_width [of 8 "''select transactions''" "\<lambda>_. Some (\<lambda>_. 0)" "[]"] show ?thesis by auto
qed

end
