(* ===== verification/Spec2Isabelle.thy ===== *)
theory Spec2Isabelle
  imports Storage_Properties Common Sql_Properties Data_Properties Session_Properties Special_Members Reporting
    Table_Style Table_Restore Output_Properties
begin

text \<open>
  tadis is a small relational database in C++: a shell reads SQL, a parser and a binder turn a
  statement into executers over tables, a table is a heap of records in the pages of a file, and the
  schemas are kept as JSON beside the files. This development models the program from the bytes of a
  page up to the loop of the shell. All paths are relative to \<open>src/\<close> of the repository.

  The model. A class is a record or a datatype, a method a function that takes the object and returns
  it updated; \<open>size_t\<close>, page ids and the lengths in pages are words of 64 bits with their wrap-around;
  text is a list of characters, a buffer a list of bytes. Whatever ends a run of the program without a
  result is a value of \<open>fault\<close> (\<open>Tadis_Base\<close>): a failed assertion (the build keeps them), an access
  outside an object, a null pointer, a wrong cast, an uncaught exception, a signed overflow. A pointer
  is an index or a name: a \<open>Page *\<close> is the number of its frame, a \<open>Table *\<close> or \<open>TableHeap *\<close> the name of
  its table, an iterator of the replacer the identity of a list node, so that what the code does
  through a stale one is what the model does.

  Storage. \<open>Bitmap\<close> is \<open>common/bitmap.hpp\<close>; \<open>Byte_Codec\<close> the layout of words in memory;
  \<open>Disk_Manager\<close> is \<open>storage/storage_def.hpp\<close> and \<open>storage/bufferpool/disk_manager.hpp\<close>;
  \<open>Lru_Replacer\<close> is \<open>replacer.hpp\<close>; \<open>Buffer_Pool\<close> is \<open>buffer_pool.hpp\<close>. Its lemmas are in
  \<open>Pool_Invariant\<close> (the representation invariant \<open>pool_ok\<close> and what each operation does to the abstract
  content of the pages), \<open>Pool_Durable\<close> (closing and opening again), \<open>Pool_Leak\<close> (a pool of which
  the pin counts of some pages \<open>S\<close> are not to be trusted, \<open>pool_held S\<close>: a scanner unpins its last page
  twice, and one that is never destroyed keeps its page; everything but these counts behaves as in a
  pool whose counts are right), \<open>Page_Cache\<close> (the steps of a client, the states they reach, and the
  interface \<open>page_cache\<close> a client relies on, interpreted for every such \<open>S\<close>).
  \<open>Record_Page\<close> and \<open>Record_Scanner\<close> are \<open>record.hpp\<close>, the slotted page and its scanners;
  \<open>Table_Heap\<close> is \<open>storage/table_heap/table_heap.hpp\<close>, whose abstract state are the slots of its pages,
  \<open>heap_pages\<close>, and the pages with a spoiled count (\<open>heap_at S\<close>; \<open>heap_ok\<close> when there are none);
  \<open>Heap_Scan\<close> shows what removing does to it and what a scan returns (\<open>scan_slots\<close>, with its early stops). The properties are in \<open>Pool_Properties\<close> and \<open>Storage_Properties\<close>.

  SQL. \<open>Float32\<close> has the number types of the values, \<open>Sql_Lexer\<close> is \<open>sql/parser/lexer.hpp\<close>, \<open>Sql_Ast\<close>
  is \<open>ast.hpp\<close>, \<open>Sql_Parser\<close> is \<open>parser.hpp\<close>. \<open>Sql_Text\<close> and \<open>Sql_Roundtrip\<close> print statements and
  show that the parser reads them back (\<open>stmt_ok\<close> are the statements that can be printed: identifiers
  that are no keywords, integers, strings without quotes, NULL); \<open>Sql_Typed\<close> shows that no cast fails.
  The properties are in \<open>Sql_Properties\<close>.

  Data. \<open>Std_Map\<close> is \<open>std::map\<close> with string keys, as the interface \<open>string_map\<close> and as sorted lists.
  \<open>Tuple\<close> is \<open>catalog/column.hpp\<close>, \<open>schema.hpp\<close> and \<open>tuple.hpp\<close>: the bytes of a row and reading them
  back. \<open>Expression\<close> is \<open>expression/\<close>, with a type system for conditions. \<open>Float64\<close> has the doubles of
  JSON; \<open>Json_Value\<close>, \<open>Json_Parser\<close> and \<open>Json_Writer\<close> are \<open>json/\<close> and \<open>common/json.hpp\<close>: the parser
  stays inside its text and ends, and what is written to a file is read back but for the white space of
  its strings (\<open>squeeze\<close>). \<open>Catalog\<close> is
  \<open>catalog/catalog.hpp\<close>: tables, heaps, and the files of the working directory as a map from names to
  bytes; \<open>Catalog_Restart\<close> shows that a catalog comes back from its files. The properties are in
  \<open>Data_Properties\<close>.

  Statements. \<open>Executer\<close> is \<open>execution/\<close>, \<open>Binder\<close> is \<open>binder/binder.hpp\<close>, \<open>Command\<close> is
  \<open>bin/command.cc\<close> and \<open>bin/cmd.hpp\<close>. \<open>Query\<close> sees an executer as the list of rows it hands out
  (\<open>yields\<close>); \<open>Table_View\<close> sees a table as a schema, pages of rows and the pages with a spoiled count,
  with the rule by which an insert chooses its page, and \<open>table_state\<close> ties this view to the catalog, the
  heap and its bytes; \<open>Query_State\<close> shows what each statement does to that state and which statements are
  refused, with which code, and what a refused one leaves behind; \<open>Shell\<close> is about the loop of the shell,
  whose input is the list of its lines and whether a line break ends the last one. The properties in \<open>Query_Properties\<close> go from the
  text of a statement to the result and the new tables.

  The whole program. \<open>Database\<close> specifies it: the database is a map from names to views, \<open>db_step\<close> is
  what a statement answers and does to it, \<open>db_shown\<close> the simulation relation between the database and a
  catalog with its files, and \<open>db_stored\<close> the one between the database and the files of a program that
  is not running. Every statement, the end of the program and its start keep them. \<open>Program\<close> adds the
  lines of the input (statements, \<open>.show tables\<close>, and the commands the shell does not know and ignores) and
  what the shell prints. The properties are in \<open>Session_Properties\<close>: \<open>program_refines\<close> is about a run of \<open>main\<close>
  on the lines of its input, \<open>session_refines\<close> about any sequence of statements and restarts. The
  specification gives no answer where the program faults or is left to chance: values that do not fit
  their column or whose condition cannot be compared, a row too large for its page, the last page id, a
  scan of a table without rows (it fetches a page that is not allocated), and a table on which scans
  have ended on 16 different pages (every frame may then be pinned for ever).

  Output. \<open>bin/tabulate.h\<close> draws the tables that are printed. \<open>Terminal\<close> has its streams, with the colours
  and styles of \<open>termcolor\<close>; \<open>Table_Format\<close> the class \<open>Format\<close>: its members, defaults and merging, and the
  functions that split, trim and wrap a text; \<open>Table_Print\<close> the classes \<open>Cell\<close>, \<open>Row\<close>, \<open>Column\<close>,
  \<open>TableInternal\<close>, \<open>Printer\<close> and \<open>Table\<close>, as operations that thread the table, because a row or a cell
  stores its format when it is asked for it, and the stream. \<open>Table_Text\<close> shows how words are wrapped;
  \<open>Table_Drawing\<close> specifies the drawing line by line (\<open>draw_table\<close>), with a judgement \<open>gives\<close> on operations
  that return a value, write a text, and keep a table plain, and a judgement \<open>raises\<close> on those that
  fault; \<open>Table_Drawn\<close> shows that the printer writes the drawing, or throws when the locale of the
  environment does not exist. \<open>Table_Style\<close> has the setters of a format and what they do to each other,
  \<open>Table_Export\<close> the setters of a column and the exporters (to LaTeX and AsciiDoc, whose text is specified, and
  to Markdown), and \<open>Table_Restore\<close> shows that printing and exporting leave the texts of every table, and
  which formats a Markdown export restores. \<open>Screen\<close>
  joins the printer to the program: \<open>terminal_main\<close> is \<open>main\<close> with the text on its standard output. The
  properties are in \<open>Output_Properties\<close>; \<open>program_writes\<close> is about a run from the files and the lines of
  the input to the characters on the screen.

  \<open>Common\<close> holds the codes and string helpers of \<open>common/rc.hpp\<close> and \<open>common/utility.hpp\<close>; \<open>Expect\<close>
  is \<open>common/expect.hpp\<close>, which nothing of the modelled program calls. \<open>Special_Members\<close> has the copies
  and moves that the classes of \<open>ast.hpp\<close>, \<open>json_value.hpp\<close> and \<open>expect.hpp\<close> write by hand, with what
  they leave behind, and shows that each hands over what it was given, which is why the rest of the
  model treats a copy as the value. \<open>Reporting\<close> is what the program writes for its developers: the log
  records of \<open>common/logger.hpp\<close>, \<open>RID::to_string\<close>, and the test suites of \<open>unit_test/pure.hpp\<close>.

  Interfaces. What one part relies on in another is a locale with an interpretation on the model:
  \<open>field_codec\<close> (words in buffers), \<open>id_set\<close> (the bitmap as a set of ids), \<open>replacement\<close> (the LRU list),
  \<open>page_store\<close> (the file), \<open>page_cache\<close> (the buffer pool), \<open>comma_list\<close> (the lists of the parser),
  \<open>string_map\<close> (the maps), \<open>value_parser\<close> (the recursion of the JSON parser), \<open>special_members\<close> (the
  copies and moves of a class, interpreted for seven of them), \<open>format_option\<close> (an option of a format,
  interpreted for each of its setters).

  Fuel. Loops that end for a reason of their own are recursive functions with a termination proof. Six
  recursions are bounded instead, and \<open>Out_Of_Fuel\<close> marks a bound that was too small. The JSON parser
  runs with the length of the text plus 2, and never reaches that bound (\<open>json_parse_ends\<close>). A SELECT on
  \<open>m\<close> rows needs at most \<open>2 * m + 4\<close> (\<open>select_returns_matching_rows\<close>), every other statement 2;
  \<open>session_fuel\<close> and \<open>run_fuel\<close> are the maximum over the statements. The
  rounds of the shell are bounded because it need not end: it ends on \<open>.quit\<close>
  (\<open>quit_ends_shell\<close>), and after no number of rounds at the end of the input, where it executes the empty
  line, or the last line again when no line break ended it (\<open>end_of_input_never_ends\<close>). Splitting a text at a delimiter and breaking a word have the length of the
  text plus 1, since each round takes a character off it, unless the delimiter is empty or the width is 1;
  then the loop of the code does not end, and no bound would be enough (\<open>break_word_one\<close>).

  Parameters. The regular files below the base directory, in the order in which the iterator yields
  them; the indeterminate character that reading a JSON file appends; what is left of a moved-from
  value in \<open>Expect\<close> and \<open>Special_Members\<close>; the text of the timer in \<open>Reporting\<close>; which locales
  the system has, and the width of a text in one (\<open>wcs\<close>), and whether the standard output is a
  terminal (\<open>tty\<close>).

  Not modelled. Outside \<open>Reporting\<close> the log lines are left out. \<open>common/noncopyable.hpp\<close> has no behaviour,
  and \<open>json/json_assert.hpp\<close> only prints. That the printer
  makes the locale of a cell the global one, which throws when there is none of its name, is modelled
  (\<open>open_locale\<close>); that a global locale could change what counts as white space is not: it is the classic
  one throughout. Of \<open>bin/tabulate.h\<close> the model leaves out what a C++20 build does not compile: the bundled
  \<open>optional\<close>, \<open>variant\<close> and \<open>string_view\<close> (the standard ones take their place) and the parts for Windows.
  \<open>catalog/context.hpp\<close> is included nowhere and does not compile. The mutexes
  (the program has one thread), errors of the file system, characters of a regular
  expression other than the dot in the base directory, and numbers outside the enumeration in the
  metadata are left out; the last is a fault. A DELETE statement is refused by the binder, so that
  \<open>TableHeap::remove\<close> and \<open>BufferPool::delete_page\<close> are reached by no statement.
\<close>

end
